(* ===== verification/Xcp_Base.thy ===== *)
theory Xcp_Base
  imports Main "HOL-Library.Word"
begin

text \<open>
  Prelude of the XCPlite development: machine types, byte-addressed memory with little-endian
  16 and 32 bit accesses, C string helpers, the configuration constants of the default build
  (\<^verbatim>\<open>src/src/xcplib_cfg.h\<close>, \<^verbatim>\<open>xcp_cfg.h\<close>, \<^verbatim>\<open>xcptl_cfg.h\<close>) and the XCP
  error codes (\<^verbatim>\<open>src/src/xcp.h\<close>). The laws of the memory accesses are collected in
  \<open>mem_simps\<close>; constants that are plain numbers are abbreviations, so that arithmetic sees
  the numerals.
\<close>

unbundle bit_operations_syntax

section \<open>Machine types\<close>

type_synonym u8 = "8 word"
type_synonym u16 = "16 word"
type_synonym u32 = "32 word"
type_synonym u64 = "64 word"

text \<open>A block of bytes, addressed by an offset. The code's out-of-range accesses are not undefined
  here: they touch cells outside the object, which the bounds theorems rule out or exhibit.\<close>

type_synonym bytes = "nat \<Rightarrow> u8"

named_theorems mem_simps \<open>read-over-write laws of byte memory\<close>

section \<open>Little-endian memory accesses\<close>

definition rd16 :: "bytes \<Rightarrow> nat \<Rightarrow> nat" where
  "rd16 m a = unat (m a) + 256 * unat (m (a + 1))"

definition wr16 :: "bytes \<Rightarrow> nat \<Rightarrow> nat \<Rightarrow> bytes" where
  "wr16 m a v = m(a := of_nat v, a + 1 := of_nat (v div 256))"

definition rd32 :: "bytes \<Rightarrow> nat \<Rightarrow> nat" where
  "rd32 m a = rd16 m a + 65536 * rd16 m (a + 2)"

definition wr32 :: "bytes \<Rightarrow> nat \<Rightarrow> nat \<Rightarrow> bytes" where
  "wr32 m a v = wr16 (wr16 m a v) (a + 2) (v div 65536)"

lemma unat_byte: "unat (of_nat v :: u8) = v mod 256"
  by (simp add: unat_of_nat)

lemma unat_u8_less: "unat (b :: u8) < 256"
proof -
  have "unat b < 2 ^ LENGTH(8)" by (rule unsigned_less)
  then show ?thesis by simp
qed

lemma rd16_less [simp]: "rd16 m a < 65536"
  using unat_u8_less [of "m a"] unat_u8_less [of "m (a + 1)"] by (simp add: rd16_def)

lemma rd16_le [simp]: "rd16 m a \<le> 65535"
  using rd16_less [of m a] by linarith

lemma mod_65536_split: "v mod 256 + 256 * (v div 256 mod 256) = v mod (65536 :: nat)"
  by (metis mod_mult2_eq mult.commute add.commute numeral_times_numeral
      semiring_norm(11) semiring_norm(12) semiring_norm(13))

lemma rd16_wr16_same [mem_simps]: "rd16 (wr16 m a v) a = v mod 65536"
  using mod_65536_split [of v] by (simp add: rd16_def wr16_def unat_byte)

lemma rd16_wr16_other [mem_simps]:
  "a + 2 \<le> b \<or> b + 2 \<le> a \<Longrightarrow> rd16 (wr16 m a v) b = rd16 m b"
  by (auto simp: rd16_def wr16_def)

lemma rd16_upd_other [mem_simps]:
  "a < b \<or> b + 2 \<le> a \<Longrightarrow> rd16 (m(a := x)) b = rd16 m b"
  by (auto simp: rd16_def)

lemma wr16_at_other [mem_simps]: "b < a \<or> a + 2 \<le> b \<Longrightarrow> wr16 m a v b = m b"
  by (auto simp: wr16_def)

lemma wr32_at_other [mem_simps]: "b < a \<or> a + 4 \<le> b \<Longrightarrow> wr32 m a v b = m b"
  by (auto simp: wr32_def wr16_def)

lemma rd16_wr32_other [mem_simps]:
  "a + 4 \<le> b \<or> b + 2 \<le> a \<Longrightarrow> rd16 (wr32 m a v) b = rd16 m b"
  by (auto simp: rd16_def wr32_def wr16_def)

lemma rd32_wr32_same [mem_simps]: "rd32 (wr32 m a v) a = v mod 4294967296"
proof -
  have "rd16 (wr32 m a v) a = v mod 65536"
    by (simp add: wr32_def rd16_wr16_other rd16_wr16_same)
  moreover have "rd16 (wr32 m a v) (a + 2) = v div 65536 mod 65536"
    by (simp add: wr32_def rd16_wr16_same)
  moreover have "v mod 4294967296 = 65536 * (v div 65536 mod 65536) + v mod 65536"
    using mod_mult2_eq [of v 65536 65536] by simp
  ultimately show ?thesis by (simp add: rd32_def)
qed

lemma rd32_wr32_other [mem_simps]:
  "a + 4 \<le> b \<or> b + 4 \<le> a \<Longrightarrow> rd32 (wr32 m a v) b = rd32 m b"
  by (auto simp: rd32_def rd16_wr32_other)

lemma rd32_wr16_other [mem_simps]:
  "a + 2 \<le> b \<or> b + 4 \<le> a \<Longrightarrow> rd32 (wr16 m a v) b = rd32 m b"
  by (auto simp: rd32_def rd16_wr16_other)

lemma rd32_upd_other [mem_simps]:
  "a < b \<or> b + 4 \<le> a \<Longrightarrow> rd32 (m(a := x)) b = rd32 m b"
  by (auto simp: rd32_def rd16_upd_other)

lemma rd16_zero: "m a = 0 \<Longrightarrow> m (a + 1) = 0 \<Longrightarrow> rd16 m a = 0"
  by (simp add: rd16_def)

lemma rd32_less [simp]: "rd32 m a < 4294967296"
  using rd16_less [of m a] rd16_less [of m "a + 2"] unfolding rd32_def by linarith

section \<open>Byte blocks\<close>

definition mem_set :: "nat \<Rightarrow> u8 list \<Rightarrow> bytes \<Rightarrow> bytes" where
  "mem_set a xs m = (\<lambda>b. if a \<le> b \<and> b < a + length xs then xs ! (b - a) else m b)"

definition mem_get :: "nat \<Rightarrow> nat \<Rightarrow> bytes \<Rightarrow> u8 list" where
  "mem_get a n m = map (\<lambda>k. m (a + k)) [0..<n]"

lemma mem_get_length [simp]: "length (mem_get a n m) = n"
  by (simp add: mem_get_def)

lemma mem_get_set_same [mem_simps]: "mem_get a (length xs) (mem_set a xs m) = xs"
  by (rule nth_equalityI) (simp_all add: mem_get_def mem_set_def)

lemma mem_set_outside [mem_simps]: "b < a \<or> a + length xs \<le> b \<Longrightarrow> mem_set a xs m b = m b"
  by (auto simp: mem_set_def)

lemma mem_get_cong: "(\<And>b. a \<le> b \<Longrightarrow> b < a + n \<Longrightarrow> m b = m' b) \<Longrightarrow> mem_get a n m = mem_get a n m'"
  by (simp add: mem_get_def)

lemma mem_get_set_other [mem_simps]:
  "a + n \<le> b \<or> b + length xs \<le> a \<Longrightarrow> mem_get a n (mem_set b xs m) = mem_get a n m"
  by (rule mem_get_cong) (auto simp: mem_set_def)

lemma mem_get_split: "mem_get a (n + k) m = mem_get a n m @ mem_get (a + n) k m"
  by (rule nth_equalityI) (auto simp: mem_get_def nth_append)

section \<open>Alignment\<close>

text \<open>C's \<^verbatim>\<open>(n + (a-1)) & ~(a-1)\<close> for a power of two \<open>a\<close>, before any truncation.\<close>

definition le_bytes :: "nat \<Rightarrow> nat \<Rightarrow> u8 list" where
  "le_bytes n v = map (\<lambda>k. of_nat (v div 256 ^ k)) [0..<n]"

lemma le_bytes_length [simp]: "length (le_bytes n v) = n"
  by (simp add: le_bytes_def)

fun le_value :: "u8 list \<Rightarrow> nat" where
  "le_value [] = 0"
| "le_value (b # bs) = unat b + 256 * le_value bs"

lemma le_bytes_Suc: "le_bytes (Suc n) v = of_nat v # le_bytes n (v div 256)"
  by (simp add: le_bytes_def map_upt_Suc div_mult2_eq del: upt_Suc)

lemma le_value_bytes: "le_value (le_bytes n v) = v mod 256 ^ n"
proof (induction n arbitrary: v)
  case 0
  then show ?case by (simp add: le_bytes_def)
next
  case (Suc n)
  have "unat (of_nat v :: u8) = v mod 256" by (simp add: unat_of_nat)
  then show ?case by (simp add: le_bytes_Suc Suc.IH mod_mult2_eq)
qed

definition align_up :: "nat \<Rightarrow> nat \<Rightarrow> nat" where
  "align_up a n = (n + (a - 1)) div a * a"

lemma align_up_ge: "0 < a \<Longrightarrow> n \<le> align_up a n"
proof -
  assume a: "0 < a"
  have "n + (a - 1) = (n + (a - 1)) div a * a + (n + (a - 1)) mod a" by simp
  moreover have "(n + (a - 1)) mod a \<le> a - 1"
    using mod_less_divisor [OF a, of "n + (a - 1)"] by linarith
  ultimately show ?thesis unfolding align_up_def by linarith
qed

lemma align_up_less: "0 < a \<Longrightarrow> align_up a n < n + a"
  unfolding align_up_def by (metis Suc_pred' add_Suc_right less_Suc_eq_le div_times_less_eq_dividend)

lemma align_up_dvd [simp]: "a dvd align_up a n"
  by (simp add: align_up_def)

section \<open>C strings\<close>

text \<open>A C string is a \<^typ>\<open>string\<close> without a terminating zero. \<open>STRNLEN\<close> is the macro of
  \<^verbatim>\<open>platform.h\<close>, \<open>strncpy_z n\<close> is \<^verbatim>\<open>strncpy\<close> into a buffer of
  \<open>n + 1\<close> bytes whose last byte is then cleared.\<close>

definition STRNLEN :: "string \<Rightarrow> nat \<Rightarrow> nat" where
  "STRNLEN s n = min (length s) n"

definition strncpy_z :: "string \<Rightarrow> nat \<Rightarrow> string" where
  "strncpy_z s n = take n s"

fun dec_digits :: "nat \<Rightarrow> string" where
  "dec_digits n = (if n < 10 then [char_of (48 + n)] else dec_digits (n div 10) @ [char_of (48 + n mod 10)])"

declare dec_digits.simps [simp del]

lemma dec_digits_length: "n < 10 ^ k \<Longrightarrow> 0 < k \<Longrightarrow> length (dec_digits n) \<le> k"
proof (induction k arbitrary: n)
  case (Suc k)
  show ?case
  proof (cases "n < 10")
    case True
    then show ?thesis by (simp add: dec_digits.simps)
  next
    case False
    then have "0 < k" using Suc.prems by (cases k) auto
    moreover have "n div 10 < 10 ^ k" using Suc.prems by auto
    ultimately have "length (dec_digits (n div 10)) \<le> k" using Suc.IH by blast
    with False show ?thesis by (simp add: dec_digits.simps [of n])
  qed
qed simp

section \<open>Configuration of the default build\<close>

abbreviation (input) XCP_DAQ_MEM_SIZE :: nat where "XCP_DAQ_MEM_SIZE \<equiv> 3072"
abbreviation (input) XCP_MAX_EVENT_COUNT :: nat where "XCP_MAX_EVENT_COUNT \<equiv> 16"
abbreviation (input) XCP_MAX_EVENT_NAME :: nat where "XCP_MAX_EVENT_NAME \<equiv> 15"
abbreviation (input) XCPTL_MAX_CTO_SIZE :: nat where "XCPTL_MAX_CTO_SIZE \<equiv> 248"
abbreviation (input) XCPTL_MAX_DTO_SIZE :: nat where "XCPTL_MAX_DTO_SIZE \<equiv> 1024"
abbreviation (input) XCPTL_MAX_SEGMENT_SIZE :: nat where "XCPTL_MAX_SEGMENT_SIZE \<equiv> 1472"
abbreviation (input) XCP_MAX_ODT_ENTRY_SIZE :: nat where "XCP_MAX_ODT_ENTRY_SIZE \<equiv> 248"
abbreviation (input) XCP_UNDEFINED_EVENT_ID :: nat where "XCP_UNDEFINED_EVENT_ID \<equiv> 65535"
abbreviation (input) XCP_UNDEFINED_DAQ_LIST :: nat where "XCP_UNDEFINED_DAQ_LIST \<equiv> 65535"
abbreviation (input) XCP_ADDR_EXT_SEG :: nat where "XCP_ADDR_EXT_SEG \<equiv> 0"
abbreviation (input) XCP_ADDR_EXT_ABS :: nat where "XCP_ADDR_EXT_ABS \<equiv> 1"
abbreviation (input) XCP_ADDR_EXT_DYN :: nat where "XCP_ADDR_EXT_DYN \<equiv> 2"
abbreviation (input) XCP_ADDR_EXT_DYN_MAX :: nat where "XCP_ADDR_EXT_DYN_MAX \<equiv> 15"
abbreviation (input) XCP_ADDR_EXT_APP :: nat where "XCP_ADDR_EXT_APP \<equiv> 128"
abbreviation (input) XCP_ADDR_EXT_FILE :: nat where "XCP_ADDR_EXT_FILE \<equiv> 253"
abbreviation (input) XCP_ADDR_EXT_PTR :: nat where "XCP_ADDR_EXT_PTR \<equiv> 254"
abbreviation (input) XCP_UNDEFINED_ADDR_EXT :: nat where "XCP_UNDEFINED_ADDR_EXT \<equiv> 255"

text \<open>Address encodings of the default scheme CASDD (segment, absolute, dynamic addressing).\<close>

definition XcpAddrIsDyn :: "nat \<Rightarrow> bool" where
  "XcpAddrIsDyn ext \<longleftrightarrow> XCP_ADDR_EXT_DYN \<le> ext \<and> ext \<le> XCP_ADDR_EXT_DYN_MAX"

definition XcpAddrIsAbs :: "nat \<Rightarrow> bool" where
  "XcpAddrIsAbs ext \<longleftrightarrow> ext = XCP_ADDR_EXT_ABS"

definition XcpAddrIsSeg :: "nat \<Rightarrow> bool" where
  "XcpAddrIsSeg ext \<longleftrightarrow> ext = XCP_ADDR_EXT_SEG"

definition XcpAddrIsApp :: "nat \<Rightarrow> bool" where
  "XcpAddrIsApp ext \<longleftrightarrow> ext = XCP_ADDR_EXT_APP"

definition XcpAddrEncodeDyn :: "nat \<Rightarrow> nat \<Rightarrow> nat" where
  "XcpAddrEncodeDyn offset event = (event * 2 ^ 22) mod 2 ^ 32 + offset mod 2 ^ 22"

definition XcpAddrDecodeDynEvent :: "nat \<Rightarrow> nat" where
  "XcpAddrDecodeDynEvent addr = addr div 2 ^ 22"

definition XcpAddrDecodeDynOffset :: "nat \<Rightarrow> nat" where
  "XcpAddrDecodeDynOffset addr = addr mod 2 ^ 22"

definition XcpAddrEncodeSegNumber :: "nat \<Rightarrow> nat \<Rightarrow> nat" where
  "XcpAddrEncodeSegNumber seg offset = (0x80000000 + seg * 65536 + offset) mod 2 ^ 32"

definition XcpAddrDecodeSegNumber :: "nat \<Rightarrow> nat" where
  "XcpAddrDecodeSegNumber addr = addr div 65536 mod 32768"

definition XcpAddrDecodeSegOffset :: "nat \<Rightarrow> nat" where
  "XcpAddrDecodeSegOffset addr = addr mod 65536"

lemmas addr_kind_defs = XcpAddrIsDyn_def XcpAddrIsAbs_def XcpAddrIsSeg_def XcpAddrIsApp_def

lemma addr_dyn_decode:
  assumes "event < 1024"
  shows "XcpAddrDecodeDynEvent (XcpAddrEncodeDyn offset event) = event"
    and "XcpAddrDecodeDynOffset (XcpAddrEncodeDyn offset event) = offset mod 2 ^ 22"
proof -
  have "event * 2 ^ 22 < (2 ^ 32 :: nat)" using assms by simp
  then have e: "XcpAddrEncodeDyn offset event = event * 4194304 + offset mod 4194304"
    by (simp add: XcpAddrEncodeDyn_def)
  show "XcpAddrDecodeDynEvent (XcpAddrEncodeDyn offset event) = event"
    by (simp add: e XcpAddrDecodeDynEvent_def)
  show "XcpAddrDecodeDynOffset (XcpAddrEncodeDyn offset event) = offset mod 2 ^ 22"
    by (simp add: e XcpAddrDecodeDynOffset_def)
qed

section \<open>XCP return codes\<close>

text \<open>The protocol error codes are kept as the numbers that go on the wire.\<close>

abbreviation (input) CRC_CMD_OK :: nat where "CRC_CMD_OK \<equiv> 0"
abbreviation (input) CRC_CMD_PENDING :: nat where "CRC_CMD_PENDING \<equiv> 1"
abbreviation (input) CRC_CMD_IGNORED :: nat where "CRC_CMD_IGNORED \<equiv> 2"
abbreviation (input) CRC_CMD_BUSY :: nat where "CRC_CMD_BUSY \<equiv> 16"
abbreviation (input) CRC_DAQ_ACTIVE :: nat where "CRC_DAQ_ACTIVE \<equiv> 17"
abbreviation (input) CRC_CMD_UNKNOWN :: nat where "CRC_CMD_UNKNOWN \<equiv> 32"
abbreviation (input) CRC_CMD_SYNTAX :: nat where "CRC_CMD_SYNTAX \<equiv> 33"
abbreviation (input) CRC_OUT_OF_RANGE :: nat where "CRC_OUT_OF_RANGE \<equiv> 34"
abbreviation (input) CRC_WRITE_PROTECTED :: nat where "CRC_WRITE_PROTECTED \<equiv> 35"
abbreviation (input) CRC_ACCESS_DENIED :: nat where "CRC_ACCESS_DENIED \<equiv> 36"
abbreviation (input) CRC_PAGE_NOT_VALID :: nat where "CRC_PAGE_NOT_VALID \<equiv> 38"
abbreviation (input) CRC_MODE_NOT_VALID :: nat where "CRC_MODE_NOT_VALID \<equiv> 39"
abbreviation (input) CRC_SEGMENT_NOT_VALID :: nat where "CRC_SEGMENT_NOT_VALID \<equiv> 40"
abbreviation (input) CRC_SEQUENCE :: nat where "CRC_SEQUENCE \<equiv> 41"
abbreviation (input) CRC_DAQ_CONFIG :: nat where "CRC_DAQ_CONFIG \<equiv> 42"
abbreviation (input) CRC_MEMORY_OVERFLOW :: nat where "CRC_MEMORY_OVERFLOW \<equiv> 48"
abbreviation (input) CRC_RESOURCE_TEMPORARY_NOT_ACCESSIBLE :: nat where "CRC_RESOURCE_TEMPORARY_NOT_ACCESSIBLE \<equiv> 51"

end
