(* ===== verification/Xcp_Events.thy ===== *)
theory Xcp_Events
  imports Xcp_Base
begin

text \<open>
  The session status word and the measurement event list (\<^verbatim>\<open>src/src/xcplite.c\<close>, section
  Eventlist; types in \<^verbatim>\<open>src/src/xcplite.h\<close>). The state is a record that later theories
  extend with the DAQ tables, the calibration segments and the command processor, as
  \<^verbatim>\<open>tXcpData\<close> and \<^verbatim>\<open>tXcpLocalData\<close> do. The C array \<^verbatim>\<open>event[]\<close>
  is a function of the index, of which the first \<open>event_count\<close> entries are valid. Creation runs
  under \<^verbatim>\<open>event_list_mutex\<close>, so each operation is one step. Assertions are compiled out
  (release build), as are debug prints.
\<close>

section \<open>Session status\<close>

record xcp_session =
  session_status :: u16

abbreviation (input) SS_DAQ :: u16 where "SS_DAQ \<equiv> 0x0040"
abbreviation (input) SS_LEGACY_MODE :: u16 where "SS_LEGACY_MODE \<equiv> 0x0200"
abbreviation (input) SS_ACTIVATED :: u16 where "SS_ACTIVATED \<equiv> 0x1000"
abbreviation (input) SS_CONNECTED :: u16 where "SS_CONNECTED \<equiv> 0x2000"
abbreviation (input) SS_STARTED :: u16 where "SS_STARTED \<equiv> 0x4000"

definition isActivated :: "'a xcp_session_scheme \<Rightarrow> bool" where
  "isActivated s \<longleftrightarrow> session_status s AND SS_ACTIVATED \<noteq> 0"

definition isStarted :: "'a xcp_session_scheme \<Rightarrow> bool" where
  "isStarted s \<longleftrightarrow> session_status s AND SS_STARTED \<noteq> 0"

definition isConnected :: "'a xcp_session_scheme \<Rightarrow> bool" where
  "isConnected s \<longleftrightarrow> session_status s AND SS_CONNECTED \<noteq> 0"

definition isLegacyMode :: "'a xcp_session_scheme \<Rightarrow> bool" where
  "isLegacyMode s \<longleftrightarrow> session_status s AND SS_LEGACY_MODE \<noteq> 0"

lemmas status_defs = isActivated_def isStarted_def isConnected_def isLegacyMode_def

lemma status_cong:
  assumes "session_status t = session_status s"
  shows "isActivated t = isActivated s" "isStarted t = isStarted s"
    "isConnected t = isConnected s" "isLegacyMode t = isLegacyMode s"
  using assms by (simp_all add: status_defs)

section \<open>Event list\<close>

record tXcpEvent =
  cycle_time_ns :: nat
  ev_index :: nat
  daq_first :: nat
  ev_flags :: u8
  ev_name :: string

abbreviation (input) XCP_DAQ_EVENT_FLAG_DISABLED :: u8 where "XCP_DAQ_EVENT_FLAG_DISABLED \<equiv> 0x01"
abbreviation (input) XCP_DAQ_EVENT_FLAG_PRIORITY :: u8 where "XCP_DAQ_EVENT_FLAG_PRIORITY \<equiv> 0x02"

record xcp_events = xcp_session +
  event_count :: nat
  event :: "nat \<Rightarrow> tXcpEvent"

definition XcpInitEventList :: "'a xcp_events_scheme \<Rightarrow> 'a xcp_events_scheme" where
  "XcpInitEventList s = s\<lparr>event_count := 0\<rparr>"

definition XcpGetEvent :: "'a xcp_events_scheme \<Rightarrow> nat \<Rightarrow> tXcpEvent option" where
  "XcpGetEvent s e = (if \<not> isActivated s \<or> event_count s \<le> e then None else Some (event s e))"

definition XcpGetEventCount :: "'a xcp_events_scheme \<Rightarrow> nat" where
  "XcpGetEventCount s = event_count s"

definition XcpGetEventCycleTime :: "'a xcp_events_scheme \<Rightarrow> nat \<Rightarrow> nat" where
  "XcpGetEventCycleTime s e = (case XcpGetEvent s e of None \<Rightarrow> 0 | Some ev \<Rightarrow> cycle_time_ns ev)"

definition XcpGetEventPriority :: "'a xcp_events_scheme \<Rightarrow> nat \<Rightarrow> nat" where
  "XcpGetEventPriority s e = (case XcpGetEvent s e of None \<Rightarrow> 0
     | Some ev \<Rightarrow> if ev_flags ev AND XCP_DAQ_EVENT_FLAG_PRIORITY \<noteq> 0 then 1 else 0)"

text \<open>\<open>XcpGetEventName\<close> writes an instance name into \<^verbatim>\<open>event_name_buf\<close>, a buffer of
  \<open>XCP_MAX_EVENT_NAME + 8\<close> bytes, with \<^verbatim>\<open>snprintf\<close>, which keeps at most 22 characters.\<close>

definition XcpGetEventName :: "'a xcp_events_scheme \<Rightarrow> nat \<Rightarrow> string option" where
  "XcpGetEventName s e =
     (if \<not> isActivated s \<or> event_count s \<le> e then None
      else if 0 < ev_index (event s e)
        then Some (take (XCP_MAX_EVENT_NAME + 8 - 1)
                    (ev_name (event s e) @ ''_'' @ dec_digits (ev_index (event s e))))
      else Some (ev_name (event s e)))"

definition XcpGetEventIndex :: "'a xcp_events_scheme \<Rightarrow> nat \<Rightarrow> nat" where
  "XcpGetEventIndex s e = (if \<not> isActivated s \<or> event_count s \<le> e then 0 else ev_index (event s e))"

text \<open>The loop of \<open>XcpFindEventInstances\<close>: \<open>i\<close> runs up, \<open>id\<close> is the first match so far.\<close>

fun find_instances_from :: "'a xcp_events_scheme \<Rightarrow> string \<Rightarrow> nat list \<Rightarrow> nat \<Rightarrow> nat \<Rightarrow> nat \<times> nat" where
  "find_instances_from s name [] fid cnt = (fid, cnt)"
| "find_instances_from s name (i # is) fid cnt =
     (if ev_name (event s i) = name
      then find_instances_from s name is (if fid = XCP_UNDEFINED_EVENT_ID then i else fid) (cnt + 1)
      else find_instances_from s name is fid cnt)"

definition XcpFindEventInstances :: "'a xcp_events_scheme \<Rightarrow> string \<Rightarrow> nat \<times> nat" where
  "XcpFindEventInstances s name =
     (if isActivated s
      then find_instances_from s name [0..<event_count s] XCP_UNDEFINED_EVENT_ID 0
      else (XCP_UNDEFINED_EVENT_ID, 0))"

definition XcpFindEvent :: "'a xcp_events_scheme \<Rightarrow> string \<Rightarrow> nat" where
  "XcpFindEvent s name = fst (XcpFindEventInstances s name)"

definition XcpCreateIndexedEvent ::
  "string \<Rightarrow> nat \<Rightarrow> nat \<Rightarrow> nat \<Rightarrow> 'a xcp_events_scheme \<Rightarrow> nat \<times> 'a xcp_events_scheme" where
  "XcpCreateIndexedEvent name index cycle prio s =
     (if \<not> isActivated s then (XCP_UNDEFINED_EVENT_ID, s)
      else if XCP_MAX_EVENT_NAME < STRNLEN name (XCP_MAX_EVENT_NAME + 1) then (XCP_UNDEFINED_EVENT_ID, s)
      else let e = event_count s in
        if XCP_MAX_EVENT_COUNT \<le> e then (XCP_UNDEFINED_EVENT_ID, s)
        else (e, s\<lparr>event := (event s)(e := \<lparr>cycle_time_ns = cycle, ev_index = index,
                      daq_first = XCP_UNDEFINED_DAQ_LIST,
                      ev_flags = (if 0 < prio then XCP_DAQ_EVENT_FLAG_PRIORITY else 0),
                      ev_name = strncpy_z name XCP_MAX_EVENT_NAME\<rparr>),
                   event_count := e + 1\<rparr>))"

definition XcpCreateEventInstance ::
  "string \<Rightarrow> nat \<Rightarrow> nat \<Rightarrow> 'a xcp_events_scheme \<Rightarrow> nat \<times> 'a xcp_events_scheme" where
  "XcpCreateEventInstance name cycle prio s =
     (if \<not> isActivated s then (XCP_UNDEFINED_EVENT_ID, s)
      else XcpCreateIndexedEvent name ((snd (XcpFindEventInstances s name) + 1) mod 65536) cycle prio s)"

definition XcpCreateEvent ::
  "string \<Rightarrow> nat \<Rightarrow> nat \<Rightarrow> 'a xcp_events_scheme \<Rightarrow> nat \<times> 'a xcp_events_scheme" where
  "XcpCreateEvent name cycle prio s =
     (if \<not> isActivated s then (XCP_UNDEFINED_EVENT_ID, s)
      else let eid = fst (XcpFindEventInstances s name) in
        if eid \<noteq> XCP_UNDEFINED_EVENT_ID then (eid, s)
        else XcpCreateIndexedEvent name 0 cycle prio s)"

definition XcpEventEnable :: "nat \<Rightarrow> bool \<Rightarrow> 'a xcp_events_scheme \<Rightarrow> 'a xcp_events_scheme" where
  "XcpEventEnable e enable s =
     (if \<not> isStarted s then s
      else if event_count s \<le> e then s
      else s\<lparr>event := (event s)(e := (event s e)\<lparr>ev_flags :=
             (if enable then ev_flags (event s e) AND NOT XCP_DAQ_EVENT_FLAG_DISABLED
              else ev_flags (event s e) OR XCP_DAQ_EVENT_FLAG_DISABLED)\<rparr>)\<rparr>)"

section \<open>Lookup\<close>

definition ev_matches :: "'a xcp_events_scheme \<Rightarrow> string \<Rightarrow> nat list" where
  "ev_matches s name = filter (\<lambda>i. ev_name (event s i) = name) [0..<event_count s]"

lemma find_instances_from_eq:
  assumes "\<forall>i \<in> set is. i \<noteq> XCP_UNDEFINED_EVENT_ID"
  shows "find_instances_from s name is fid cnt =
    (let ms = filter (\<lambda>i. ev_name (event s i) = name) is in
      (if fid = XCP_UNDEFINED_EVENT_ID \<and> ms \<noteq> [] then hd ms else fid, cnt + length ms))"
  using assms by (induction "is" arbitrary: fid cnt) (auto simp: Let_def)

lemma XcpFindEventInstances_eq:
  assumes "isActivated s" and "event_count s \<le> XCP_MAX_EVENT_COUNT"
  shows "XcpFindEventInstances s name =
    (if ev_matches s name = [] then XCP_UNDEFINED_EVENT_ID else hd (ev_matches s name),
     length (ev_matches s name))"
  using assms by (auto simp: XcpFindEventInstances_def ev_matches_def find_instances_from_eq Let_def)

lemma ev_matches_less: "i \<in> set (ev_matches s name) \<Longrightarrow> i < event_count s"
  by (auto simp: ev_matches_def)

lemma ev_matches_hd: "ev_matches s name \<noteq> [] \<Longrightarrow>
    hd (ev_matches s name) < event_count s \<and> ev_name (event s (hd (ev_matches s name))) = name"
  using hd_in_set [of "ev_matches s name"] by (auto simp: ev_matches_def)

lemma ev_matches_length: "length (ev_matches s name) \<le> event_count s"
  unfolding ev_matches_def by (metis length_filter_le length_upt diff_zero)

section \<open>Well-formed event lists\<close>

text \<open>
  The identity of an event is its name and instance index: no two events share both, and an
  instance index never exceeds the number of events of that name.
\<close>

definition events_wf :: "'a xcp_events_scheme \<Rightarrow> bool" where
  "events_wf s \<longleftrightarrow> event_count s \<le> XCP_MAX_EVENT_COUNT
     \<and> (\<forall>i < event_count s. length (ev_name (event s i)) \<le> XCP_MAX_EVENT_NAME
          \<and> ev_index (event s i) \<le> length (ev_matches s (ev_name (event s i))))
     \<and> (\<forall>i < event_count s. \<forall>j < event_count s. i \<noteq> j \<longrightarrow>
          (ev_name (event s i), ev_index (event s i)) \<noteq> (ev_name (event s j), ev_index (event s j)))"

lemma events_wf_init: "events_wf (XcpInitEventList s)"
  by (simp add: events_wf_def XcpInitEventList_def)

lemma ev_matches_grow:
  assumes "event_count s' = event_count s + 1"
    and "\<forall>i < event_count s. ev_name (event s' i) = ev_name (event s i)"
  shows "ev_matches s' name = ev_matches s name @
    (if ev_name (event s' (event_count s)) = name then [event_count s] else [])"
proof -
  have "filter (\<lambda>i. ev_name (event s' i) = name) [0..<event_count s] = ev_matches s name"
    unfolding ev_matches_def by (rule filter_cong) (use assms(2) in auto)
  then show ?thesis by (simp add: ev_matches_def assms(1))
qed

lemma XcpCreateIndexedEvent_Some:
  assumes "isActivated s" "length name \<le> XCP_MAX_EVENT_NAME" "event_count s < XCP_MAX_EVENT_COUNT"
  shows "XcpCreateIndexedEvent name index cycle prio s =
    (event_count s, s\<lparr>event := (event s)(event_count s := \<lparr>cycle_time_ns = cycle, ev_index = index,
       daq_first = XCP_UNDEFINED_DAQ_LIST,
       ev_flags = (if 0 < prio then XCP_DAQ_EVENT_FLAG_PRIORITY else 0), ev_name = name\<rparr>),
       event_count := event_count s + 1\<rparr>)"
  using assms by (simp add: XcpCreateIndexedEvent_def STRNLEN_def strncpy_z_def Let_def)

lemma XcpCreateIndexedEvent_None:
  assumes "\<not> (isActivated s \<and> length name \<le> XCP_MAX_EVENT_NAME \<and> event_count s < XCP_MAX_EVENT_COUNT)"
  shows "XcpCreateIndexedEvent name index cycle prio s = (XCP_UNDEFINED_EVENT_ID, s)"
  using assms by (auto simp: XcpCreateIndexedEvent_def STRNLEN_def Let_def)

text \<open>Creation keeps the identity invariant when the index is fresh for its name.\<close>

lemma XcpCreateIndexedEvent_wf:
  assumes wf: "events_wf s"
    and idx: "index \<le> length (ev_matches s name) + 1"
    and fresh: "\<forall>i < event_count s. ev_name (event s i) = name \<longrightarrow> ev_index (event s i) \<noteq> index"
  shows "events_wf (snd (XcpCreateIndexedEvent name index cycle prio s))"
proof (cases "isActivated s \<and> length name \<le> XCP_MAX_EVENT_NAME \<and> event_count s < XCP_MAX_EVENT_COUNT")
  case False
  then show ?thesis using wf by (simp add: XcpCreateIndexedEvent_None)
next
  case True
  let ?s = "snd (XcpCreateIndexedEvent name index cycle prio s)"
  let ?n = "event_count s"
  from True have cnt: "event_count ?s = ?n + 1"
    and old: "\<forall>i < ?n. event ?s i = event s i"
    and new: "ev_name (event ?s ?n) = name" "ev_index (event ?s ?n) = index"
    by (simp_all add: XcpCreateIndexedEvent_Some)
  have grow: "ev_matches ?s x = ev_matches s x @ (if name = x then [?n] else [])" for x
    using ev_matches_grow [OF cnt, of x] old new by simp
  have len: "length (ev_matches s x) \<le> length (ev_matches ?s x)" for x
    by (simp add: grow)
  have "ev_index (event ?s i) \<le> length (ev_matches ?s (ev_name (event ?s i)))
      \<and> length (ev_name (event ?s i)) \<le> XCP_MAX_EVENT_NAME" if "i < ?n + 1" for i
  proof (cases "i = ?n")
    case True
    then show ?thesis using new idx \<open>isActivated s \<and> _\<close> by (simp add: grow)
  next
    case False
    then have "i < ?n" using that by simp
    then show ?thesis using old wf len [of "ev_name (event s i)"]
      by (auto simp: events_wf_def intro: order_trans)
  qed
  moreover have "(ev_name (event ?s i), ev_index (event ?s i)) \<noteq> (ev_name (event ?s j), ev_index (event ?s j))"
    if "i < ?n + 1" "j < ?n + 1" "i \<noteq> j" for i j
    using that old new fresh wf
    by (cases "i = ?n"; cases "j = ?n") (auto simp: events_wf_def less_Suc_eq)
  ultimately show ?thesis
    using True cnt by (simp add: events_wf_def)
qed

lemma XcpCreateEvent_wf:
  assumes "events_wf s"
  shows "events_wf (snd (XcpCreateEvent name cycle prio s))"
proof (cases "isActivated s \<and> ev_matches s name = []")
  case True
  then have "\<forall>i < event_count s. ev_name (event s i) \<noteq> name"
    by (auto simp: ev_matches_def filter_empty_conv)
  then show ?thesis
    using assms True XcpCreateIndexedEvent_wf [OF assms, of 0 name]
    by (auto simp: XcpCreateEvent_def Let_def)
next
  case False
  then show ?thesis
    using assms ev_matches_hd [of s name]
    by (auto simp: XcpCreateEvent_def Let_def XcpFindEventInstances_eq events_wf_def)
qed

lemma XcpCreateEventInstance_wf:
  assumes "events_wf s"
  shows "events_wf (snd (XcpCreateEventInstance name cycle prio s))"
proof (cases "isActivated s")
  case False
  then show ?thesis using assms by (simp add: XcpCreateEventInstance_def)
next
  case True
  have le: "event_count s \<le> XCP_MAX_EVENT_COUNT" using assms by (simp add: events_wf_def)
  then have n: "length (ev_matches s name) \<le> XCP_MAX_EVENT_COUNT"
    using ev_matches_length [of s name] by linarith
  have "\<forall>i < event_count s. ev_name (event s i) = name \<longrightarrow> ev_index (event s i) \<noteq> length (ev_matches s name) + 1"
    using assms by (auto simp: events_wf_def)
  from XcpCreateIndexedEvent_wf [OF assms _ this] show ?thesis
    using True n le by (simp add: XcpCreateEventInstance_def XcpFindEventInstances_eq)
qed

lemma XcpEventEnable_frame:
  "event_count (XcpEventEnable e b s) = event_count s"
  "ev_name (event (XcpEventEnable e b s) i) = ev_name (event s i)"
  "ev_index (event (XcpEventEnable e b s) i) = ev_index (event s i)"
  "daq_first (event (XcpEventEnable e b s) i) = daq_first (event s i)"
  by (auto simp: XcpEventEnable_def)

lemma events_wf_cong:
  assumes "event_count t = event_count s"
    and "\<And>i. ev_name (event t i) = ev_name (event s i)"
    and "\<And>i. ev_index (event t i) = ev_index (event s i)"
  shows "events_wf t = events_wf s"
proof -
  have "ev_matches t = ev_matches s"
    by (rule ext) (simp add: ev_matches_def assms)
  then show ?thesis by (simp add: events_wf_def assms)
qed

text \<open>The operations an application can call on the event list, and their runs.\<close>

datatype ev_op = EvCreate string nat nat | EvInstance string nat nat | EvEnable nat bool

fun ev_step :: "'a xcp_events_scheme \<Rightarrow> ev_op \<Rightarrow> 'a xcp_events_scheme" where
  "ev_step s (EvCreate n c p) = snd (XcpCreateEvent n c p s)"
| "ev_step s (EvInstance n c p) = snd (XcpCreateEventInstance n c p s)"
| "ev_step s (EvEnable e b) = XcpEventEnable e b s"

lemma ev_step_wf: "events_wf s \<Longrightarrow> events_wf (ev_step s opn)"
  by (cases opn)
    (simp_all add: XcpCreateEvent_wf XcpCreateEventInstance_wf XcpEventEnable_frame
      events_wf_cong [of "XcpEventEnable _ _ s" s])

lemma ev_run_wf: "events_wf s \<Longrightarrow> events_wf (foldl ev_step s ops)"
  by (induction ops arbitrary: s) (auto intro: ev_step_wf)

end
