(* ===== verification/Xcp_Checksum.thy ===== *)
theory Xcp_Checksum
  imports Xcp_Base
begin

text \<open>
  The checksum of \<^verbatim>\<open>BUILD_CHECKSUM\<close> (\<^verbatim>\<open>src/src/xcplite.c\<close>, \<^verbatim>\<open>calcChecksum\<close>): the table
  and the table-driven step as the code has them, the bit-serial CRC-16 with the CCITT polynomial as
  specification, and the equality of both on every byte sequence.
\<close>

section \<open>The code\<close>

definition gXcpCRC16CCITTtab :: "u16 list" where
  "gXcpCRC16CCITTtab = [
   0x0000, 0x1021, 0x2042, 0x3063, 0x4084, 0x50a5, 0x60c6, 0x70e7, 0x8108, 0x9129, 0xa14a, 0xb16b, 0xc18c, 0xd1ad, 0xe1ce, 0xf1ef,
   0x1231, 0x0210, 0x3273, 0x2252, 0x52b5, 0x4294, 0x72f7, 0x62d6, 0x9339, 0x8318, 0xb37b, 0xa35a, 0xd3bd, 0xc39c, 0xf3ff, 0xe3de,
   0x2462, 0x3443, 0x0420, 0x1401, 0x64e6, 0x74c7, 0x44a4, 0x5485, 0xa56a, 0xb54b, 0x8528, 0x9509, 0xe5ee, 0xf5cf, 0xc5ac, 0xd58d,
   0x3653, 0x2672, 0x1611, 0x0630, 0x76d7, 0x66f6, 0x5695, 0x46b4, 0xb75b, 0xa77a, 0x9719, 0x8738, 0xf7df, 0xe7fe, 0xd79d, 0xc7bc,
   0x48c4, 0x58e5, 0x6886, 0x78a7, 0x0840, 0x1861, 0x2802, 0x3823, 0xc9cc, 0xd9ed, 0xe98e, 0xf9af, 0x8948, 0x9969, 0xa90a, 0xb92b,
   0x5af5, 0x4ad4, 0x7ab7, 0x6a96, 0x1a71, 0x0a50, 0x3a33, 0x2a12, 0xdbfd, 0xcbdc, 0xfbbf, 0xeb9e, 0x9b79, 0x8b58, 0xbb3b, 0xab1a,
   0x6ca6, 0x7c87, 0x4ce4, 0x5cc5, 0x2c22, 0x3c03, 0x0c60, 0x1c41, 0xedae, 0xfd8f, 0xcdec, 0xddcd, 0xad2a, 0xbd0b, 0x8d68, 0x9d49,
   0x7e97, 0x6eb6, 0x5ed5, 0x4ef4, 0x3e13, 0x2e32, 0x1e51, 0x0e70, 0xff9f, 0xefbe, 0xdfdd, 0xcffc, 0xbf1b, 0xaf3a, 0x9f59, 0x8f78,
   0x9188, 0x81a9, 0xb1ca, 0xa1eb, 0xd10c, 0xc12d, 0xf14e, 0xe16f, 0x1080, 0x00a1, 0x30c2, 0x20e3, 0x5004, 0x4025, 0x7046, 0x6067,
   0x83b9, 0x9398, 0xa3fb, 0xb3da, 0xc33d, 0xd31c, 0xe37f, 0xf35e, 0x02b1, 0x1290, 0x22f3, 0x32d2, 0x4235, 0x5214, 0x6277, 0x7256,
   0xb5ea, 0xa5cb, 0x95a8, 0x8589, 0xf56e, 0xe54f, 0xd52c, 0xc50d, 0x34e2, 0x24c3, 0x14a0, 0x0481, 0x7466, 0x6447, 0x5424, 0x4405,
   0xa7db, 0xb7fa, 0x8799, 0x97b8, 0xe75f, 0xf77e, 0xc71d, 0xd73c, 0x26d3, 0x36f2, 0x0691, 0x16b0, 0x6657, 0x7676, 0x4615, 0x5634,
   0xd94c, 0xc96d, 0xf90e, 0xe92f, 0x99c8, 0x89e9, 0xb98a, 0xa9ab, 0x5844, 0x4865, 0x7806, 0x6827, 0x18c0, 0x08e1, 0x3882, 0x28a3,
   0xcb7d, 0xdb5c, 0xeb3f, 0xfb1e, 0x8bf9, 0x9bd8, 0xabbb, 0xbb9a, 0x4a75, 0x5a54, 0x6a37, 0x7a16, 0x0af1, 0x1ad0, 0x2ab3, 0x3a92,
   0xfd2e, 0xed0f, 0xdd6c, 0xcd4d, 0xbdaa, 0xad8b, 0x9de8, 0x8dc9, 0x7c26, 0x6c07, 0x5c64, 0x4c45, 0x3ca2, 0x2c83, 0x1ce0, 0x0cc1,
   0xef1f, 0xff3e, 0xcf5d, 0xdf7c, 0xaf9b, 0xbfba, 0x8fd9, 0x9ff8, 0x6e17, 0x7e36, 0x4e55, 0x5e74, 0x2e93, 0x3eb2, 0x0ed1, 0x1ef0]"

definition crc_step :: "u16 \<Rightarrow> u8 \<Rightarrow> u16" where
  "crc_step acc v = (gXcpCRC16CCITTtab ! unat ((ucast (drop_bit 8 acc) :: u8) XOR v)) XOR push_bit 8 acc"

definition crc16 :: "u8 list \<Rightarrow> u16" where
  "crc16 bs = foldl crc_step 0xFFFF bs"

section \<open>The bit-serial specification\<close>

text \<open>One clock of the shift register, and the eight clocks of a byte fed in at the top.\<close>

definition crc_bit :: "u16 \<Rightarrow> u16" where
  "crc_bit x = push_bit 1 x XOR (if bit x 15 then 0x1021 else 0)"

definition crc_byte :: "u16 \<Rightarrow> u8 \<Rightarrow> u16" where
  "crc_byte acc v = (crc_bit ^^ 8) (acc XOR push_bit 8 (ucast v))"

definition crc16_ccitt :: "u8 list \<Rightarrow> u16" where
  "crc16_ccitt bs = foldl crc_byte 0xFFFF bs"

section \<open>Equivalence\<close>

lemma crc_bit_xor: "crc_bit (x XOR y) = crc_bit x XOR crc_bit y"
  by (simp add: crc_bit_def push_bit_xor bit_xor_iff ac_simps)

lemma crc_bits_xor: "(crc_bit ^^ n) (x XOR y) = (crc_bit ^^ n) x XOR (crc_bit ^^ n) y"
  by (induction n) (simp_all add: crc_bit_xor)

lemma crc_bit_low: "\<not> bit x 15 \<Longrightarrow> crc_bit x = push_bit 1 x"
  by (simp add: crc_bit_def)

text \<open>The clock on integers, on which the table is evaluated.\<close>

definition crc_int :: "int \<Rightarrow> int" where
  "crc_int n = (if 32768 \<le> n then (2 * n - 65536) XOR 0x1021 else 2 * n)"

lemma word_of_int_xor: "(word_of_int (a XOR b) :: 'a::len word) = word_of_int a XOR word_of_int b"
  by (rule bit_eqI) (simp add: bit_word_of_int_iff bit_xor_iff)

lemma crc_int_range: "0 \<le> n \<Longrightarrow> n < 65536 \<Longrightarrow> 0 \<le> crc_int n \<and> crc_int n < 65536"
  using XOR_upper [where x = "2 * n - 65536" and y = "0x1021" and n = 16] by (simp add: crc_int_def)

lemma crc_bit_int:
  assumes "0 \<le> n" "n < 65536" shows "crc_bit (word_of_int n) = word_of_int (crc_int n)"
proof -
  have "n div 32768 = (if 32768 \<le> n then 1 else 0)" using assms by auto
  then have "bit n 15 \<longleftrightarrow> 32768 \<le> n" by (subst bit_iff_odd) simp
  then have b: "bit (word_of_int n :: u16) 15 \<longleftrightarrow> 32768 \<le> n" by (simp add: bit_word_of_int_iff)
  have s: "push_bit 1 (word_of_int n :: u16) = word_of_int (2 * n)"
    by (simp add: push_bit_eq_mult)
  have m: "(word_of_int (2 * n) :: u16) = word_of_int (2 * n - 65536)"
    by (simp add: word_of_int_eq_iff take_bit_eq_mod mod_eq_dvd_iff)
  show ?thesis
  proof (cases "32768 \<le> n")
    case True
    have "crc_bit (word_of_int n) = word_of_int (2 * n - 65536) XOR 0x1021"
      using True by (simp only: crc_bit_def b s m if_True)
    moreover have "word_of_int (crc_int n) = (word_of_int (2 * n - 65536) :: u16) XOR word_of_int 0x1021"
      using True by (simp only: crc_int_def if_True word_of_int_xor)
    ultimately show ?thesis by simp
  next
    case False
    with b s show ?thesis by (simp add: crc_bit_def crc_int_def)
  qed
qed

lemma crc_bits_int:
  "0 \<le> n \<Longrightarrow> n < 65536 \<Longrightarrow> (crc_bit ^^ k) (word_of_int n) = word_of_int ((crc_int ^^ k) n)
     \<and> 0 \<le> (crc_int ^^ k) n \<and> (crc_int ^^ k) n < 65536"
  by (induction k) (auto simp: crc_bit_int dest: crc_int_range)

text \<open>The table doubles: the upper half is the lower half, shifted by one entry's value.\<close>

definition crc_entry :: "nat \<Rightarrow> u16" where
  "crc_entry i = (crc_bit ^^ 8) (push_bit 8 (of_nat i))"

lemma crc_entry_add:
  assumes "j < 2 ^ k" shows "crc_entry (2 ^ k + j) = crc_entry (2 ^ k) XOR crc_entry j"
proof -
  have "(2 ^ k :: nat) AND j = 0"
  proof (rule bit_eqI)
    fix n
    have "j div 2 ^ k = 0" using assms by simp
    then have "\<not> bit j k" by (simp add: bit_iff_odd)
    then show "bit ((2 ^ k :: nat) AND j) n = bit 0 n" by (auto simp: bit_and_iff bit_exp_iff)
  qed
  then have "2 ^ k + j = (2 ^ k XOR j :: nat)" by (rule disjunctive_add_eq_xor)
  then have "(of_nat (2 ^ k + j) :: u16) = of_nat (2 ^ k) XOR of_nat j"
    by (simp only: of_nat_xor_eq)
  then show ?thesis by (simp add: crc_entry_def push_bit_xor crc_bits_xor)
qed

lemma crc_entries_double:
  "map crc_entry [0..<2 * 2 ^ k] = map crc_entry [0..<2 ^ k] @ map (\<lambda>x. crc_entry (2 ^ k) XOR x) (map crc_entry [0..<2 ^ k])"
proof -
  have "[0..<2 * 2 ^ k] = [0..<2 ^ k] @ map (\<lambda>j. 2 ^ k + j) [0..<2 ^ k]"
    by (simp add: upt_add_eq_append [of 0 "2 ^ k" "2 ^ k"] map_add_upt mult_2 add.commute)
  then show ?thesis by (simp add: crc_entry_add del: upt_Suc)
qed

lemma crc_basis_int:
  "map (\<lambda>n. (crc_int ^^ 8) (256 * n)) [1, 2, 4, 8, 16, 32, 64, 128] =
     [0x1021, 0x2042, 0x4084, 0x8108, 0x1231, 0x2462, 0x48c4, 0x9188]"
  by code_simp

lemma crc_entry_int: "i < 256 \<Longrightarrow> crc_entry i = word_of_int ((crc_int ^^ 8) (256 * int i))"
  using crc_bits_int [of "256 * int i" 8] by (simp add: crc_entry_def push_bit_eq_mult mult.commute)

lemma crc_basis: "crc_entry 1 = 0x1021" "crc_entry 2 = 0x2042" "crc_entry 4 = 0x4084" "crc_entry 8 = 0x8108"
  "crc_entry 16 = 0x1231" "crc_entry 32 = 0x2462" "crc_entry 64 = 0x48c4" "crc_entry 128 = 0x9188"
  using crc_basis_int by (simp_all add: crc_entry_int)

definition doubled :: "u16 \<Rightarrow> u16 list \<Rightarrow> u16 list" where
  "doubled b t = t @ map (\<lambda>x. b XOR x) t"

lemma crc_doubled:
  "m = 2 ^ k \<Longrightarrow> n = 2 * m \<Longrightarrow> crc_entry m = b \<Longrightarrow> map crc_entry [0..<m] = t \<Longrightarrow> map crc_entry [0..<n] = doubled b t"
  using crc_entries_double [of k] by (simp add: doubled_def)

lemma crc_entries: "map crc_entry [0..<256] = gXcpCRC16CCITTtab"
proof -
  have "(crc_bit ^^ n) 0 = 0" for n by (induction n) (simp_all add: crc_bit_def)
  then have "map crc_entry [0..<1] = [0]" by (simp add: crc_entry_def)
  from crc_doubled [where k = 0, OF _ _ crc_basis(1) this]
  have "map crc_entry [0..<2] = doubled 0x1021 [0]" by simp
  from crc_doubled [where k = 1, OF _ _ crc_basis(2) this, of 4]
    crc_doubled [where k = 2, OF _ _ crc_basis(3), of 8]
    crc_doubled [where k = 3, OF _ _ crc_basis(4), of 16]
    crc_doubled [where k = 4, OF _ _ crc_basis(5), of 32]
    crc_doubled [where k = 5, OF _ _ crc_basis(6), of 64]
    crc_doubled [where k = 6, OF _ _ crc_basis(7), of 128]
    crc_doubled [where k = 7, OF _ _ crc_basis(8), of 256]
  have "map crc_entry [0..<256] = doubled 0x9188 (doubled 0x48c4 (doubled 0x2462 (doubled 0x1231
      (doubled 0x8108 (doubled 0x4084 (doubled 0x2042 (doubled 0x1021 [0])))))))" by simp
  then show ?thesis by (simp add: doubled_def gXcpCRC16CCITTtab_def)
qed

lemma crc_table: "i < 256 \<Longrightarrow> gXcpCRC16CCITTtab ! i = (crc_bit ^^ 8) (push_bit 8 (of_nat i))"
  unfolding crc_entries [symmetric] by (simp add: crc_entry_def)

lemma crc_bits_low: "x < 256 \<Longrightarrow> (crc_bit ^^ 8) (of_nat x) = push_bit 8 (of_nat x)"
proof -
  assume x: "x < 256"
  have "k \<le> 8 \<Longrightarrow> (crc_int ^^ k) (int x) = 2 ^ k * int x" for k
  proof (induction k)
    case (Suc k)
    have "(2::int) ^ k \<le> 2 ^ 7" using Suc.prems by (intro power_increasing) simp_all
    then have "2 ^ k * int x \<le> 2 ^ 7 * 255" using x by (intro mult_mono) simp_all
    with Suc show ?case by (simp add: crc_int_def)
  qed simp
  then have "(crc_int ^^ 8) (int x) = 256 * int x" by simp
  with crc_bits_int [of "int x" 8] x show ?thesis by (simp add: push_bit_eq_mult)
qed

lemma split_16: "(acc :: u16) = push_bit 8 (ucast (ucast (drop_bit 8 acc) :: u8)) XOR (acc AND mask 8)"
  by (rule bit_eqI) (auto simp: bit_simps)

lemma crc_byte_step: "crc_byte acc v = crc_step acc v"
proof -
  define h :: u8 where "h = ucast (drop_bit 8 acc)"
  define l where "l = unat (acc AND mask 8)"
  have l: "l < 256"
    by (simp add: l_def take_bit_eq_mask [symmetric] unsigned_take_bit_eq) (simp add: take_bit_eq_mod)
  have "acc XOR push_bit 8 (ucast v) = push_bit 8 (ucast (h XOR v)) XOR of_nat l"
  proof -
    have "of_nat l = acc AND mask 8" by (simp add: l_def)
    moreover have "push_bit 8 (ucast (h XOR v)) = push_bit 8 (ucast h) XOR (push_bit 8 (ucast v) :: u16)"
      by (simp add: push_bit_xor unsigned_xor_eq)
    moreover have "acc XOR push_bit 8 (ucast v) = (push_bit 8 (ucast h) XOR (acc AND mask 8)) XOR push_bit 8 (ucast v)"
      unfolding h_def by (rule arg_cong [OF split_16])
    ultimately show ?thesis by (simp only: ac_simps)
  qed
  moreover have "(ucast (h XOR v) :: u16) = of_nat (unat (h XOR v))" by simp
  moreover have "push_bit 8 (of_nat l) = push_bit 8 acc"
    by (rule bit_eqI) (auto simp: l_def bit_simps)
  ultimately show ?thesis
    using crc_table [of "unat (h XOR v)"] unat_u8_less [of "h XOR v"] crc_bits_low [OF l]
    by (simp add: crc_byte_def crc_step_def crc_bits_xor h_def)
qed

lemma crc16_correct: "crc16 bs = crc16_ccitt bs"
  by (simp add: crc16_def crc16_ccitt_def crc_byte_step [abs_def, symmetric] fun_eq_iff)

end
