(* ===== verification/Props_Core.thy ===== *)
theory Props_Core
  imports Xcp_Events Xcp_Checksum
begin

text \<open>
  Properties of the two self-contained parts: the event list (\<^verbatim>\<open>src/src/xcplite.c\<close>, section
  Eventlist) and the checksum of \<^verbatim>\<open>BUILD_CHECKSUM\<close>.
\<close>

text \<open>C31. Whatever sequence of event creations, instance creations and enable switches an application
  performs on a fresh event list - also beyond the 16 slots, with names that are too long, with names used
  again - no two events have the same name and instance index, names stay within 15 characters and the
  list within 16 events.\<close>

theorem event_list_identities:
  "events_wf (foldl ev_step (XcpInitEventList s) ops)"
  by (rule ev_run_wf [OF events_wf_init])

text \<open>C35. The table-driven checksum of \<^verbatim>\<open>calcChecksum\<close> is the bit-serial CRC-16 with polynomial
  \<^verbatim>\<open>0x1021\<close> and start value \<^verbatim>\<open>0xFFFF\<close>, on every byte sequence; this checks all 256
  entries of the table.\<close>

theorem checksum_is_crc16_ccitt: "crc16 bs = crc16_ccitt bs"
  by (rule crc16_correct)

end
