(* ===== verification/Xcp_Daq_Mem.thy ===== *)
theory Xcp_Daq_Mem
  imports Xcp_Events
begin

text \<open>
  The dynamic DAQ configuration memory (\<^verbatim>\<open>tXcpDaqLists\<close> in \<^verbatim>\<open>src/src/xcplite.h\<close>,
  access macros, \<^verbatim>\<open>XcpClearDaq\<close>, \<^verbatim>\<open>XcpCheckMemory\<close> and the three allocation
  functions of \<^verbatim>\<open>src/src/xcplite.c\<close>), at the byte level. The union \<^verbatim>\<open>u\<close> is one
  block of \<open>XCP_DAQ_MEM_SIZE + 8\<close> bytes that holds, one after the other, the DAQ list array (12 bytes
  each), the ODT array (8 bytes each), the ODT entry addresses (4 bytes each), sizes (1 byte each) and
  address extensions (1 byte each); where a table starts follows from the three counters. The record
  \<open>xcp_daq\<close> extends the event state; \<open>write_daq_*\<close> are the \<^verbatim>\<open>SET_DAQ_PTR\<close> cursor of
  \<^verbatim>\<open>tXcpLocalData\<close>.
\<close>

section \<open>State and table accesses\<close>

record xcp_daq = xcp_events +
  daq_running :: bool
  odt_entry_count :: nat
  odt_count :: nat
  daq_count :: nat
  daq_mem :: bytes
  daq_overflow_count :: nat
  write_daq_odt_entry :: nat
  write_daq_odt :: nat
  write_daq_daq :: nat
  daq_start_clock :: nat

definition isDaqRunning :: "'a xcp_daq_scheme \<Rightarrow> bool" where
  "isDaqRunning s \<longleftrightarrow> isStarted s \<and> daq_running s"

text \<open>Field accesses into entry \<open>i\<close> of the DAQ list array, at field offset \<open>k\<close>, and into entry
  \<open>j\<close> of the ODT array.\<close>

definition list_rd16 :: "'a xcp_daq_scheme \<Rightarrow> nat \<Rightarrow> nat \<Rightarrow> nat" where
  "list_rd16 s i k = rd16 (daq_mem s) (12 * i + k)"

definition list_wr16 :: "nat \<Rightarrow> nat \<Rightarrow> nat \<Rightarrow> 'a xcp_daq_scheme \<Rightarrow> 'a xcp_daq_scheme" where
  "list_wr16 i k v s = s\<lparr>daq_mem := wr16 (daq_mem s) (12 * i + k) v\<rparr>"

definition list_rd8 :: "'a xcp_daq_scheme \<Rightarrow> nat \<Rightarrow> nat \<Rightarrow> u8" where
  "list_rd8 s i k = daq_mem s (12 * i + k)"

definition list_wr8 :: "nat \<Rightarrow> nat \<Rightarrow> u8 \<Rightarrow> 'a xcp_daq_scheme \<Rightarrow> 'a xcp_daq_scheme" where
  "list_wr8 i k v s = s\<lparr>daq_mem := (daq_mem s)(12 * i + k := v)\<rparr>"

definition DaqListOdtTable :: "'a xcp_daq_scheme \<Rightarrow> nat" where
  "DaqListOdtTable s = 12 * daq_count s"

definition DaqListOdtEntryAddrTable :: "'a xcp_daq_scheme \<Rightarrow> nat" where
  "DaqListOdtEntryAddrTable s = DaqListOdtTable s + 8 * odt_count s"

definition DaqListOdtEntrySizeTable :: "'a xcp_daq_scheme \<Rightarrow> nat" where
  "DaqListOdtEntrySizeTable s = DaqListOdtEntryAddrTable s + 4 * odt_entry_count s"

definition DaqListOdtEntryAddrExtTable :: "'a xcp_daq_scheme \<Rightarrow> nat" where
  "DaqListOdtEntryAddrExtTable s = DaqListOdtEntrySizeTable s + odt_entry_count s"

lemmas table_defs = DaqListOdtTable_def DaqListOdtEntryAddrTable_def
  DaqListOdtEntrySizeTable_def DaqListOdtEntryAddrExtTable_def

definition odt_rd16 :: "'a xcp_daq_scheme \<Rightarrow> nat \<Rightarrow> nat \<Rightarrow> nat" where
  "odt_rd16 s j k = rd16 (daq_mem s) (DaqListOdtTable s + 8 * j + k)"

definition odt_wr16 :: "nat \<Rightarrow> nat \<Rightarrow> nat \<Rightarrow> 'a xcp_daq_scheme \<Rightarrow> 'a xcp_daq_scheme" where
  "odt_wr16 j k v s = s\<lparr>daq_mem := wr16 (daq_mem s) (DaqListOdtTable s + 8 * j + k) v\<rparr>"

definition odt_entry_addr :: "'a xcp_daq_scheme \<Rightarrow> nat \<Rightarrow> nat" where
  "odt_entry_addr s e = rd32 (daq_mem s) (DaqListOdtEntryAddrTable s + 4 * e)"

definition odt_entry_size :: "'a xcp_daq_scheme \<Rightarrow> nat \<Rightarrow> nat" where
  "odt_entry_size s e = unat (daq_mem s (DaqListOdtEntrySizeTable s + e))"

definition odt_entry_addr_ext :: "'a xcp_daq_scheme \<Rightarrow> nat \<Rightarrow> nat" where
  "odt_entry_addr_ext s e = unat (daq_mem s (DaqListOdtEntryAddrExtTable s + e))"

text \<open>The three stores of an ODT entry, at the end of \<open>XcpAddOdtEntry\<close>.\<close>

definition odt_entry_write :: "nat \<Rightarrow> nat \<Rightarrow> nat \<Rightarrow> nat \<Rightarrow> 'a xcp_daq_scheme \<Rightarrow> 'a xcp_daq_scheme" where
  "odt_entry_write e addr ext sz s =
     s\<lparr>daq_mem := (wr32 ((daq_mem s)(DaqListOdtEntrySizeTable s + e := of_nat sz))
                      (DaqListOdtEntryAddrTable s + 4 * e) addr)
                    (DaqListOdtEntryAddrExtTable s + e := of_nat ext)\<rparr>"

text \<open>The named accessors of the C macros.\<close>

definition DaqListLastOdt :: "'a xcp_daq_scheme \<Rightarrow> nat \<Rightarrow> nat" where
  "DaqListLastOdt s i = list_rd16 s i 0"
definition DaqListFirstOdt :: "'a xcp_daq_scheme \<Rightarrow> nat \<Rightarrow> nat" where
  "DaqListFirstOdt s i = list_rd16 s i 2"
definition DaqListEventChannel :: "'a xcp_daq_scheme \<Rightarrow> nat \<Rightarrow> nat" where
  "DaqListEventChannel s i = list_rd16 s i 4"
definition DaqListNext :: "'a xcp_daq_scheme \<Rightarrow> nat \<Rightarrow> nat" where
  "DaqListNext s i = list_rd16 s i 6"
definition DaqListMode :: "'a xcp_daq_scheme \<Rightarrow> nat \<Rightarrow> u8" where
  "DaqListMode s i = list_rd8 s i 8"
definition DaqListState :: "'a xcp_daq_scheme \<Rightarrow> nat \<Rightarrow> u8" where
  "DaqListState s i = list_rd8 s i 9"
definition DaqListPriority :: "'a xcp_daq_scheme \<Rightarrow> nat \<Rightarrow> u8" where
  "DaqListPriority s i = list_rd8 s i 10"
definition DaqListAddrExt :: "'a xcp_daq_scheme \<Rightarrow> nat \<Rightarrow> u8" where
  "DaqListAddrExt s i = list_rd8 s i 11"
definition first_odt_entry :: "'a xcp_daq_scheme \<Rightarrow> nat \<Rightarrow> nat" where
  "first_odt_entry s j = odt_rd16 s j 0"
definition last_odt_entry :: "'a xcp_daq_scheme \<Rightarrow> nat \<Rightarrow> nat" where
  "last_odt_entry s j = odt_rd16 s j 2"
definition odt_size :: "'a xcp_daq_scheme \<Rightarrow> nat \<Rightarrow> nat" where
  "odt_size s j = odt_rd16 s j 4"

text \<open>The counts are C \<^verbatim>\<open>int\<close> expressions: an unallocated list or ODT counts as one.\<close>

definition DaqListOdtEntryCount :: "'a xcp_daq_scheme \<Rightarrow> nat \<Rightarrow> int" where
  "DaqListOdtEntryCount s j = int (last_odt_entry s j) - int (first_odt_entry s j) + 1"
definition DaqListOdtCount :: "'a xcp_daq_scheme \<Rightarrow> nat \<Rightarrow> int" where
  "DaqListOdtCount s i = int (DaqListLastOdt s i) - int (DaqListFirstOdt s i) + 1"

definition DaqListFirst :: "'a xcp_daq_scheme \<Rightarrow> nat \<Rightarrow> nat" where
  "DaqListFirst s e = daq_first (event s e)"

definition set_daq_first :: "nat \<Rightarrow> nat \<Rightarrow> 'a xcp_daq_scheme \<Rightarrow> 'a xcp_daq_scheme" where
  "set_daq_first e d s = s\<lparr>event := (event s)(e := (event s e)\<lparr>daq_first := d\<rparr>)\<rparr>"

lemmas list_fields = DaqListLastOdt_def DaqListFirstOdt_def DaqListEventChannel_def DaqListNext_def
  DaqListMode_def DaqListState_def DaqListPriority_def DaqListAddrExt_def
lemmas odt_fields = first_odt_entry_def last_odt_entry_def odt_size_def
lemmas entry_fields = odt_entry_addr_def odt_entry_size_def odt_entry_addr_ext_def
lemmas daq_fields = list_fields odt_fields entry_fields

section \<open>Clearing and allocating\<close>

definition XcpClearDaq :: "'a xcp_daq_scheme \<Rightarrow> 'a xcp_daq_scheme" where
  "XcpClearDaq s = s\<lparr>session_status := session_status s AND NOT SS_DAQ,
     daq_running := False,
     odt_entry_count := 0, odt_count := 0, daq_count := 0,
     daq_mem := (\<lambda>a. if a < XCP_DAQ_MEM_SIZE + 8 then 0 else daq_mem s a),
     write_daq_daq := 65535,
     event := (\<lambda>e. if e < event_count s then (event s e)\<lparr>daq_first := XCP_UNDEFINED_DAQ_LIST\<rparr>
                    else event s e)\<rparr>"

definition daq_top :: "'a xcp_daq_scheme \<Rightarrow> nat" where
  "daq_top s = daq_count s * 12 + odt_count s * 8 + odt_entry_count s * 6"

definition XcpCheckMemory :: "'a xcp_daq_scheme \<Rightarrow> nat \<times> 'a xcp_daq_scheme" where
  "XcpCheckMemory s = (if XCP_DAQ_MEM_SIZE \<le> daq_top s
     then (CRC_MEMORY_OVERFLOW, XcpClearDaq s) else (CRC_CMD_OK, s))"

definition init_daq_list :: "nat \<Rightarrow> 'a xcp_daq_scheme \<Rightarrow> 'a xcp_daq_scheme" where
  "init_daq_list i s = list_wr16 i 6 XCP_UNDEFINED_DAQ_LIST
     (list_wr8 i 11 (of_nat XCP_UNDEFINED_ADDR_EXT) (list_wr16 i 4 XCP_UNDEFINED_EVENT_ID s))"

definition XcpAllocDaq :: "nat \<Rightarrow> 'a xcp_daq_scheme \<Rightarrow> nat \<times> 'a xcp_daq_scheme" where
  "XcpAllocDaq daqCount s =
     (if odt_count s \<noteq> 0 \<or> odt_entry_count s \<noteq> 0 then (CRC_SEQUENCE, s)
      else if daqCount = 0 then (CRC_OUT_OF_RANGE, s)
      else let (r, s1) = XcpCheckMemory (s\<lparr>daq_count := daqCount\<rparr>) in
        if r \<noteq> 0 then (r, s1) else (CRC_CMD_OK, fold init_daq_list [0..<daqCount] s1))"

definition XcpAllocOdt :: "nat \<Rightarrow> nat \<Rightarrow> 'a xcp_daq_scheme \<Rightarrow> nat \<times> 'a xcp_daq_scheme" where
  "XcpAllocOdt daq odtCount s =
     (if odtCount = 0 then (CRC_DAQ_CONFIG, s)
      else if daq_count s = 0 \<or> odt_entry_count s \<noteq> 0 then (CRC_SEQUENCE, s)
      else if daq_count s \<le> daq then (CRC_DAQ_CONFIG, s)
      else if odtCount = 0 \<or> 0xFC \<le> odtCount then (CRC_OUT_OF_RANGE, s)
      else let n = odt_count s + odtCount in
        if 0xFFFF < n then (CRC_OUT_OF_RANGE, s)
        else XcpCheckMemory (list_wr16 daq 0 (n - 1)
               ((list_wr16 daq 2 (odt_count s) s)\<lparr>odt_count := n\<rparr>)))"

definition XcpAllocOdtEntry :: "nat \<Rightarrow> nat \<Rightarrow> nat \<Rightarrow> 'a xcp_daq_scheme \<Rightarrow> nat \<times> 'a xcp_daq_scheme" where
  "XcpAllocOdtEntry daq odt odtEntryCount s =
     (if odtEntryCount = 0 then (CRC_DAQ_CONFIG, s)
      else if daq_count s = 0 \<or> odt_count s = 0 then (CRC_SEQUENCE, s)
      else if daq_count s \<le> daq \<or> odtEntryCount = 0 \<or> DaqListOdtCount s daq \<le> int odt
        then (CRC_OUT_OF_RANGE, s)
      else let n = odt_entry_count s + odtEntryCount; j = DaqListFirstOdt s daq + odt in
        if 0xFFFF < n then (CRC_MEMORY_OVERFLOW, XcpClearDaq s)
        else XcpCheckMemory (odt_wr16 j 4 0 (odt_wr16 j 2 (n - 1)
               ((odt_wr16 j 0 (odt_entry_count s) s)\<lparr>odt_entry_count := n\<rparr>))))"

section \<open>Read-over-write laws of the tables\<close>

named_theorems daq_upd \<open>effect of a table store on counters and other fields\<close>

lemma list_wr_frame [daq_upd]:
  "daq_count (list_wr16 i k v s) = daq_count s" "odt_count (list_wr16 i k v s) = odt_count s"
  "odt_entry_count (list_wr16 i k v s) = odt_entry_count s" "event (list_wr16 i k v s) = event s"
  "event_count (list_wr16 i k v s) = event_count s" "write_daq_daq (list_wr16 i k v s) = write_daq_daq s"
  "write_daq_odt (list_wr16 i k v s) = write_daq_odt s"
  "write_daq_odt_entry (list_wr16 i k v s) = write_daq_odt_entry s"
  "daq_running (list_wr16 i k v s) = daq_running s" "session_status (list_wr16 i k v s) = session_status s"
  "daq_count (list_wr8 i k w s) = daq_count s" "odt_count (list_wr8 i k w s) = odt_count s"
  "odt_entry_count (list_wr8 i k w s) = odt_entry_count s" "event (list_wr8 i k w s) = event s"
  "event_count (list_wr8 i k w s) = event_count s" "write_daq_daq (list_wr8 i k w s) = write_daq_daq s"
  "write_daq_odt (list_wr8 i k w s) = write_daq_odt s"
  "write_daq_odt_entry (list_wr8 i k w s) = write_daq_odt_entry s"
  "daq_running (list_wr8 i k w s) = daq_running s" "session_status (list_wr8 i k w s) = session_status s"
  by (simp_all add: list_wr16_def list_wr8_def)

lemma odt_wr_frame [daq_upd]:
  "daq_count (odt_wr16 i k v s) = daq_count s" "odt_count (odt_wr16 i k v s) = odt_count s"
  "odt_entry_count (odt_wr16 i k v s) = odt_entry_count s" "event (odt_wr16 i k v s) = event s"
  "event_count (odt_wr16 i k v s) = event_count s" "write_daq_daq (odt_wr16 i k v s) = write_daq_daq s"
  "write_daq_odt (odt_wr16 i k v s) = write_daq_odt s"
  "write_daq_odt_entry (odt_wr16 i k v s) = write_daq_odt_entry s"
  "daq_running (odt_wr16 i k v s) = daq_running s" "session_status (odt_wr16 i k v s) = session_status s"
  by (simp_all add: odt_wr16_def)

lemma entry_write_frame [daq_upd]:
  "daq_count (odt_entry_write e a x z s) = daq_count s" "odt_count (odt_entry_write e a x z s) = odt_count s"
  "odt_entry_count (odt_entry_write e a x z s) = odt_entry_count s" "event (odt_entry_write e a x z s) = event s"
  "event_count (odt_entry_write e a x z s) = event_count s"
  "write_daq_daq (odt_entry_write e a x z s) = write_daq_daq s"
  "write_daq_odt (odt_entry_write e a x z s) = write_daq_odt s"
  "write_daq_odt_entry (odt_entry_write e a x z s) = write_daq_odt_entry s"
  "daq_running (odt_entry_write e a x z s) = daq_running s"
  "session_status (odt_entry_write e a x z s) = session_status s"
  by (simp_all add: odt_entry_write_def)

text \<open>Fields that do not touch the memory leave the accessors alone.\<close>

lemma list_rd_cong [daq_upd]:
  "list_rd16 (s\<lparr>odt_count := n\<rparr>) i k = list_rd16 s i k" "list_rd8 (s\<lparr>odt_count := n\<rparr>) i k = list_rd8 s i k"
  "list_rd16 (s\<lparr>odt_entry_count := n\<rparr>) i k = list_rd16 s i k"
  "list_rd8 (s\<lparr>odt_entry_count := n\<rparr>) i k = list_rd8 s i k"
  "list_rd16 (s\<lparr>daq_count := n\<rparr>) i k = list_rd16 s i k" "list_rd8 (s\<lparr>daq_count := n\<rparr>) i k = list_rd8 s i k"
  "odt_rd16 (s\<lparr>odt_count := n\<rparr>) i k = odt_rd16 s i k"
  "odt_rd16 (s\<lparr>odt_entry_count := n\<rparr>) i k = odt_rd16 s i k"
  by (simp_all add: list_rd16_def list_rd8_def odt_rd16_def table_defs)

text \<open>16 bit fields of the lists sit at even offsets below 8, byte fields at 8 to 11.\<close>

lemma list_rd16_wr16 [daq_upd]:
  assumes "even k" "even l" "k < 12" "l < 12"
  shows "list_rd16 (list_wr16 i k v s) j l = (if i = j \<and> k = l then v mod 65536 else list_rd16 s j l)"
proof (cases i j rule: linorder_cases)
  case less
  then have "12 * i + k + 2 \<le> 12 * j + l" using assms by presburger
  then show ?thesis using less by (simp add: list_rd16_def list_wr16_def rd16_wr16_other)
next
  case equal
  show ?thesis
  proof (cases "k = l")
    case True
    then show ?thesis using equal by (simp add: list_rd16_def list_wr16_def rd16_wr16_same)
  next
    case False
    then have "k + 2 \<le> l \<or> l + 2 \<le> k" using assms by presburger
    then show ?thesis using equal False by (simp add: list_rd16_def list_wr16_def rd16_wr16_other)
  qed
next
  case greater
  then have "12 * j + l + 2 \<le> 12 * i + k" using assms by presburger
  then show ?thesis using greater by (simp add: list_rd16_def list_wr16_def rd16_wr16_other)
qed

lemma list_rd8_wr16 [daq_upd]:
  assumes "k \<le> 6" "8 \<le> l" "l < 12"
  shows "list_rd8 (list_wr16 i k v s) j l = list_rd8 s j l"
proof -
  have "12 * j + l < 12 * i + k \<or> 12 * i + k + 2 \<le> 12 * j + l" using assms by presburger
  then show ?thesis by (simp add: list_rd8_def list_wr16_def wr16_at_other)
qed

lemma list_rd16_wr8 [daq_upd]:
  assumes "8 \<le> k" "k < 12" "l \<le> 6"
  shows "list_rd16 (list_wr8 i k v s) j l = list_rd16 s j l"
proof -
  have "12 * i + k < 12 * j + l \<or> 12 * j + l + 2 \<le> 12 * i + k" using assms by presburger
  then show ?thesis by (simp add: list_rd16_def list_wr8_def rd16_upd_other)
qed

lemma list_rd8_wr8 [daq_upd]:
  assumes "k < 12" "l < 12"
  shows "list_rd8 (list_wr8 i k v s) j l = (if i = j \<and> k = l then v else list_rd8 s j l)"
proof -
  have "12 * i + k = 12 * j + l \<longleftrightarrow> i = j \<and> k = l" using assms by presburger
  then show ?thesis by (auto simp: list_rd8_def list_wr8_def)
qed

lemma odt_rd16_wr16 [daq_upd]:
  assumes "even k" "even l" "k < 8" "l < 8"
  shows "odt_rd16 (odt_wr16 i k v s) j l = (if i = j \<and> k = l then v mod 65536 else odt_rd16 s j l)"
proof (cases i j rule: linorder_cases)
  case less
  then have "8 * i + k + 2 \<le> 8 * j + l" using assms by presburger
  then show ?thesis using less by (simp add: odt_rd16_def odt_wr16_def table_defs rd16_wr16_other)
next
  case equal
  show ?thesis
  proof (cases "k = l")
    case True
    then show ?thesis using equal by (simp add: odt_rd16_def odt_wr16_def table_defs rd16_wr16_same)
  next
    case False
    then have "k + 2 \<le> l \<or> l + 2 \<le> k" using assms by presburger
    then show ?thesis using equal False by (simp add: odt_rd16_def odt_wr16_def table_defs rd16_wr16_other)
  qed
next
  case greater
  then have "8 * j + l + 2 \<le> 8 * i + k" using assms by presburger
  then show ?thesis using greater by (simp add: odt_rd16_def odt_wr16_def table_defs rd16_wr16_other)
qed

text \<open>The tables do not overlap: a store into one leaves the others alone.\<close>

lemma odt_rd16_list_wr [daq_upd]:
  assumes "i < daq_count s" "k < 12"
  shows "k < 11 \<Longrightarrow> odt_rd16 (list_wr16 i k v s) j l = odt_rd16 s j l"
    and "odt_rd16 (list_wr8 i k w s) j l = odt_rd16 s j l"
  using assms by (simp_all add: odt_rd16_def list_wr16_def list_wr8_def table_defs mem_simps)

lemma list_rd_odt_wr [daq_upd]:
  assumes "j < daq_count s" "l < 12"
  shows "l < 11 \<Longrightarrow> list_rd16 (odt_wr16 i k v s) j l = list_rd16 s j l"
    and "list_rd8 (odt_wr16 i k v s) j l = list_rd8 s j l"
  using assms by (simp_all add: list_rd16_def list_rd8_def odt_wr16_def table_defs mem_simps)

lemma entry_list_wr [daq_upd]:
  assumes "i < daq_count s" "k < 12"
  shows "k < 11 \<Longrightarrow> odt_entry_size (list_wr16 i k v s) e = odt_entry_size s e"
    "k < 11 \<Longrightarrow> odt_entry_addr (list_wr16 i k v s) e = odt_entry_addr s e"
    "k < 11 \<Longrightarrow> odt_entry_addr_ext (list_wr16 i k v s) e = odt_entry_addr_ext s e"
    "odt_entry_size (list_wr8 i k w s) e = odt_entry_size s e"
    "odt_entry_addr (list_wr8 i k w s) e = odt_entry_addr s e"
    "odt_entry_addr_ext (list_wr8 i k w s) e = odt_entry_addr_ext s e"
  using assms by (simp_all add: entry_fields list_wr16_def list_wr8_def table_defs mem_simps)

lemma entry_odt_wr [daq_upd]:
  assumes "i < odt_count s" "k < 7"
  shows "odt_entry_size (odt_wr16 i k v s) e = odt_entry_size s e"
    "odt_entry_addr (odt_wr16 i k v s) e = odt_entry_addr s e"
    "odt_entry_addr_ext (odt_wr16 i k v s) e = odt_entry_addr_ext s e"
  using assms by (simp_all add: entry_fields odt_wr16_def table_defs mem_simps)

lemma list_rd_entry_write [daq_upd]:
  assumes "i < daq_count s" "k < 12"
  shows "k < 11 \<Longrightarrow> list_rd16 (odt_entry_write e a x z s) i k = list_rd16 s i k"
    "list_rd8 (odt_entry_write e a x z s) i k = list_rd8 s i k"
  using assms by (simp_all add: list_rd16_def list_rd8_def odt_entry_write_def table_defs mem_simps)

lemma odt_rd_entry_write [daq_upd]:
  assumes "j < odt_count s" "k < 7"
  shows "odt_rd16 (odt_entry_write e a x z s) j k = odt_rd16 s j k"
  using assms by (simp add: odt_rd16_def odt_entry_write_def table_defs mem_simps)

lemma entry_rd_entry_write [daq_upd]:
  assumes "e < odt_entry_count s" "e' < odt_entry_count s"
  shows "odt_entry_size (odt_entry_write e a x z s) e' = (if e = e' then z mod 256 else odt_entry_size s e')"
    "odt_entry_addr_ext (odt_entry_write e a x z s) e' = (if e = e' then x mod 256 else odt_entry_addr_ext s e')"
  using assms by (auto simp: entry_fields odt_entry_write_def table_defs mem_simps unat_byte)

lemma entry_addr_entry_write [daq_upd]:
  assumes "e < odt_entry_count s" "e' < odt_entry_count s"
  shows "odt_entry_addr (odt_entry_write e a x z s) e'
    = (if e = e' then a mod 4294967296 else odt_entry_addr s e')"
proof -
  have "e \<noteq> e' \<Longrightarrow> 4 * e + 4 \<le> 4 * e' \<or> 4 * e' + 4 \<le> 4 * e" by presburger
  then show ?thesis
    using assms by (auto simp: entry_fields odt_entry_write_def table_defs mem_simps)
qed

end
