(* ===== verification/Xcp_Daq_Alloc.thy ===== *)
theory Xcp_Daq_Alloc
  imports Xcp_Daq_Mem
begin

text \<open>
  Invariants of the DAQ memory and their preservation by clearing and by the three allocation
  functions. \<open>daq_tables_ok\<close>: every index stored in a table points into the table it refers to and
  the tables fit the memory. \<open>daq_fresh\<close>: the memory above the tables is still zero.
  \<open>daq_lists_sep\<close>: two DAQ lists share no ODT, unless one of them has no ODT of its own.
  \<open>odt_sizes_ok\<close>: the size of an ODT that shares no entry with another one is the sum of its entry
  sizes, and ODTs fit a DTO. \<open>daq_unwritten\<close>: no ODT entry has been written yet.
\<close>

section \<open>Invariants\<close>

definition daq_tables_ok :: "'a xcp_daq_scheme \<Rightarrow> bool" where
  "daq_tables_ok s \<longleftrightarrow> daq_top s < XCP_DAQ_MEM_SIZE
     \<and> (\<forall>i < daq_count s. DaqListFirstOdt s i \<le> DaqListLastOdt s i \<and> DaqListLastOdt s i < max 1 (odt_count s))
     \<and> (\<forall>j < odt_count s. first_odt_entry s j \<le> last_odt_entry s j \<and> last_odt_entry s j < max 1 (odt_entry_count s))"

definition daq_fresh :: "'a xcp_daq_scheme \<Rightarrow> bool" where
  "daq_fresh s \<longleftrightarrow> (\<forall>a. daq_top s \<le> a \<and> a < XCP_DAQ_MEM_SIZE + 8 \<longrightarrow> daq_mem s a = 0)"

definition daq_unwritten :: "'a xcp_daq_scheme \<Rightarrow> bool" where
  "daq_unwritten s \<longleftrightarrow>
     (\<forall>a. DaqListOdtEntryAddrTable s \<le> a \<and> a < XCP_DAQ_MEM_SIZE + 8 \<longrightarrow> daq_mem s a = 0)
     \<and> (\<forall>j < odt_count s. odt_size s j = 0)"

definition no_own_odt :: "'a xcp_daq_scheme \<Rightarrow> nat \<Rightarrow> bool" where
  "no_own_odt s i \<longleftrightarrow> DaqListFirstOdt s i = 0 \<and> DaqListLastOdt s i = 0"

definition daq_lists_sep :: "'a xcp_daq_scheme \<Rightarrow> bool" where
  "daq_lists_sep s \<longleftrightarrow> (\<forall>i < daq_count s. \<forall>k < daq_count s. i \<noteq> k \<longrightarrow>
     no_own_odt s i \<or> no_own_odt s k \<or>
     DaqListLastOdt s i < DaqListFirstOdt s k \<or> DaqListLastOdt s k < DaqListFirstOdt s i)"

definition odt_entries :: "'a xcp_daq_scheme \<Rightarrow> nat \<Rightarrow> nat list" where
  "odt_entries s j = [first_odt_entry s j..<last_odt_entry s j + 1]"

definition odt_private :: "'a xcp_daq_scheme \<Rightarrow> nat \<Rightarrow> bool" where
  "odt_private s j \<longleftrightarrow> (\<forall>k < odt_count s. k \<noteq> j \<longrightarrow> set (odt_entries s k) \<inter> set (odt_entries s j) = {})"

definition odt_sizes_ok :: "'a xcp_daq_scheme \<Rightarrow> bool" where
  "odt_sizes_ok s \<longleftrightarrow>
     (0 < odt_entry_count s \<longrightarrow> (\<forall>j < odt_count s. odt_private s j \<longrightarrow>
        odt_size s j = sum_list (map (odt_entry_size s) (odt_entries s j))))
     \<and> (\<forall>j < odt_count s. odt_size s j \<le> XCPTL_MAX_DTO_SIZE - 4)
     \<and> (0 < odt_count s \<longrightarrow> (\<forall>i < daq_count s. odt_size s (DaqListFirstOdt s i) \<le> XCPTL_MAX_DTO_SIZE - 8))"

section \<open>Clearing\<close>

lemma XcpClearDaq_counts [simp]:
  "daq_count (XcpClearDaq s) = 0" "odt_count (XcpClearDaq s) = 0" "odt_entry_count (XcpClearDaq s) = 0"
  "event_count (XcpClearDaq s) = event_count s" "write_daq_daq (XcpClearDaq s) = 65535"
  "daq_running (XcpClearDaq s) = False"
  by (simp_all add: XcpClearDaq_def)

lemma XcpClearDaq_ok [simp]:
  "daq_tables_ok (XcpClearDaq s)" "daq_fresh (XcpClearDaq s)" "daq_unwritten (XcpClearDaq s)"
  "daq_lists_sep (XcpClearDaq s)" "odt_sizes_ok (XcpClearDaq s)"
  by (simp_all add: daq_tables_ok_def daq_fresh_def daq_unwritten_def daq_lists_sep_def odt_sizes_ok_def
      daq_top_def) (simp_all add: XcpClearDaq_def)

lemma XcpCheckMemory_cases:
  assumes "daq_top s < XCP_DAQ_MEM_SIZE \<Longrightarrow> P (CRC_CMD_OK, s)"
    and "XCP_DAQ_MEM_SIZE \<le> daq_top s \<Longrightarrow> P (CRC_MEMORY_OVERFLOW, XcpClearDaq s)"
  shows "P (XcpCheckMemory s)"
  using assms by (simp add: XcpCheckMemory_def)

section \<open>Allocating DAQ lists\<close>

lemma init_daq_frame [simp]:
  "daq_count (init_daq_list i s) = daq_count s" "odt_count (init_daq_list i s) = odt_count s"
  "odt_entry_count (init_daq_list i s) = odt_entry_count s" "event (init_daq_list i s) = event s"
  "event_count (init_daq_list i s) = event_count s" "write_daq_daq (init_daq_list i s) = write_daq_daq s"
  "write_daq_odt (init_daq_list i s) = write_daq_odt s" "daq_running (init_daq_list i s) = daq_running s"
  "session_status (init_daq_list i s) = session_status s"
  by (simp_all add: init_daq_list_def daq_upd)

lemma fold_init_daq_frame [simp]:
  "daq_count (fold init_daq_list xs s) = daq_count s" "odt_count (fold init_daq_list xs s) = odt_count s"
  "odt_entry_count (fold init_daq_list xs s) = odt_entry_count s" "event (fold init_daq_list xs s) = event s"
  "event_count (fold init_daq_list xs s) = event_count s"
  "write_daq_daq (fold init_daq_list xs s) = write_daq_daq s"
  "write_daq_odt (fold init_daq_list xs s) = write_daq_odt s"
  "daq_running (fold init_daq_list xs s) = daq_running s"
  "session_status (fold init_daq_list xs s) = session_status s"
  by (induction xs arbitrary: s) simp_all

lemma fold_init_daq_fields:
  "i < n \<Longrightarrow> DaqListEventChannel (fold init_daq_list [0..<n] s) i = XCP_UNDEFINED_EVENT_ID"
  "i < n \<Longrightarrow> DaqListNext (fold init_daq_list [0..<n] s) i = XCP_UNDEFINED_DAQ_LIST"
  "DaqListFirstOdt (fold init_daq_list [0..<n] s) i = DaqListFirstOdt s i"
  "DaqListLastOdt (fold init_daq_list [0..<n] s) i = DaqListLastOdt s i"
  "DaqListState (fold init_daq_list [0..<n] s) i = DaqListState s i"
  by (induction n) (auto simp: init_daq_list_def list_fields daq_upd less_Suc_eq)

lemma fold_init_daq_mem: "12 * n \<le> a \<Longrightarrow> daq_mem (fold init_daq_list [0..<n] s) a = daq_mem s a"
  by (induction n) (simp_all add: init_daq_list_def list_wr16_def list_wr8_def wr16_at_other)

lemma XcpAllocDaq_ok_state:
  assumes "odt_count s = 0" "odt_entry_count s = 0" "0 < n" "12 * n < XCP_DAQ_MEM_SIZE"
  shows "XcpAllocDaq n s = (CRC_CMD_OK, fold init_daq_list [0..<n] (s\<lparr>daq_count := n\<rparr>))"
  using assms by (simp add: XcpAllocDaq_def XcpCheckMemory_def daq_top_def)

lemma XcpAllocDaq_cases:
  assumes "odt_count s = 0 \<Longrightarrow> odt_entry_count s = 0 \<Longrightarrow> 0 < n \<Longrightarrow> 12 * n < XCP_DAQ_MEM_SIZE \<Longrightarrow>
      P (CRC_CMD_OK, fold init_daq_list [0..<n] (s\<lparr>daq_count := n\<rparr>))"
    and "P (CRC_MEMORY_OVERFLOW, XcpClearDaq (s\<lparr>daq_count := n\<rparr>))"
    and "\<And>c. c \<noteq> CRC_CMD_OK \<Longrightarrow> P (c, s)"
  shows "P (XcpAllocDaq n s)"
  using assms by (auto simp: XcpAllocDaq_def XcpCheckMemory_def daq_top_def)

text \<open>On a configuration without DAQ lists, as after \<^verbatim>\<open>FREE_DAQ\<close> or \<^verbatim>\<open>CONNECT\<close>.\<close>

lemma XcpAllocDaq_inv:
  assumes ok: "daq_tables_ok s" "daq_fresh s" "daq_unwritten s" "daq_lists_sep s" "odt_sizes_ok s"
    and empty: "daq_count s = 0"
  shows "daq_tables_ok (snd (XcpAllocDaq n s))" "daq_fresh (snd (XcpAllocDaq n s))"
    "daq_unwritten (snd (XcpAllocDaq n s))" "daq_lists_sep (snd (XcpAllocDaq n s))"
    "odt_sizes_ok (snd (XcpAllocDaq n s))"
proof -
  let ?t = "fold init_daq_list [0..<n] (s\<lparr>daq_count := n\<rparr>)"
  let ?I = "\<lambda>t. daq_tables_ok t \<and> daq_fresh t \<and> daq_unwritten t \<and> daq_lists_sep t \<and> odt_sizes_ok t"
  have "?I (snd (XcpAllocDaq n s))"
  proof (rule XcpAllocDaq_cases)
    assume z: "odt_count s = 0" "odt_entry_count s = 0" and n: "0 < n" "12 * n < XCP_DAQ_MEM_SIZE"
    have zero: "daq_mem s a = 0" if "a < XCP_DAQ_MEM_SIZE + 8" for a
      using ok(2) empty z that by (simp add: daq_fresh_def daq_top_def)
    have f: "DaqListFirstOdt ?t i = 0" "DaqListLastOdt ?t i = 0" if "i < n" for i
    proof -
      have "DaqListFirstOdt (s\<lparr>daq_count := n\<rparr>) i = 0" "DaqListLastOdt (s\<lparr>daq_count := n\<rparr>) i = 0"
        using that n zero by (simp_all add: list_fields list_rd16_def rd16_zero)
      then show "DaqListFirstOdt ?t i = 0" "DaqListLastOdt ?t i = 0"
        by (simp_all add: fold_init_daq_fields)
    qed
    have m: "daq_mem ?t a = 0" if "12 * n \<le> a" "a < XCP_DAQ_MEM_SIZE + 8" for a
      using that zero by (simp add: fold_init_daq_mem)
    have "daq_tables_ok ?t" using n f z by (simp add: daq_tables_ok_def daq_top_def)
    moreover have "daq_fresh ?t" using m z by (simp add: daq_fresh_def daq_top_def)
    moreover have "daq_unwritten ?t" using m z by (simp add: daq_unwritten_def table_defs)
    moreover have "daq_lists_sep ?t" using f by (simp add: daq_lists_sep_def no_own_odt_def)
    moreover have "odt_sizes_ok ?t" using z by (simp add: odt_sizes_ok_def)
    ultimately show "?I (snd (CRC_CMD_OK, ?t))" by simp
  qed (use ok in simp_all)
  then show "daq_tables_ok (snd (XcpAllocDaq n s))" "daq_fresh (snd (XcpAllocDaq n s))"
    "daq_unwritten (snd (XcpAllocDaq n s))" "daq_lists_sep (snd (XcpAllocDaq n s))"
    "odt_sizes_ok (snd (XcpAllocDaq n s))" by blast+
qed

section \<open>Allocating ODTs\<close>

definition alloc_odt_state :: "nat \<Rightarrow> nat \<Rightarrow> 'a xcp_daq_scheme \<Rightarrow> 'a xcp_daq_scheme" where
  "alloc_odt_state daq cnt s = list_wr16 daq 0 (odt_count s + cnt - 1)
     ((list_wr16 daq 2 (odt_count s) s)\<lparr>odt_count := odt_count s + cnt\<rparr>)"

lemma XcpAllocOdt_cases:
  assumes "daq < daq_count s \<Longrightarrow> odt_entry_count s = 0 \<Longrightarrow> 0 < cnt \<Longrightarrow> cnt < 0xFC \<Longrightarrow>
      daq_top (alloc_odt_state daq cnt s) < XCP_DAQ_MEM_SIZE \<Longrightarrow> P (CRC_CMD_OK, alloc_odt_state daq cnt s)"
    and "P (CRC_MEMORY_OVERFLOW, XcpClearDaq (alloc_odt_state daq cnt s))"
    and "\<And>c. c \<noteq> CRC_CMD_OK \<Longrightarrow> P (c, s)"
  shows "P (XcpAllocOdt daq cnt s)"
proof (cases "daq < daq_count s \<and> odt_entry_count s = 0 \<and> 0 < cnt \<and> cnt < 0xFC \<and> odt_count s + cnt \<le> 0xFFFF")
  case True
  then have eq: "XcpAllocOdt daq cnt s = XcpCheckMemory (alloc_odt_state daq cnt s)"
    by (simp add: XcpAllocOdt_def Let_def alloc_odt_state_def)
  show ?thesis unfolding eq
    by (rule XcpCheckMemory_cases) (use True assms(1,2) in simp_all)
next
  case False
  then have "\<exists>c. c \<noteq> CRC_CMD_OK \<and> XcpAllocOdt daq cnt s = (c, s)"
    by (auto simp: XcpAllocOdt_def Let_def)
  then show ?thesis using assms(3) by auto
qed

lemma alloc_odt_counts [simp]:
  "daq_count (alloc_odt_state daq cnt s) = daq_count s"
  "odt_count (alloc_odt_state daq cnt s) = odt_count s + cnt"
  "odt_entry_count (alloc_odt_state daq cnt s) = odt_entry_count s"
  "event (alloc_odt_state daq cnt s) = event s" "event_count (alloc_odt_state daq cnt s) = event_count s"
  "write_daq_daq (alloc_odt_state daq cnt s) = write_daq_daq s"
  "write_daq_odt (alloc_odt_state daq cnt s) = write_daq_odt s"
  "daq_running (alloc_odt_state daq cnt s) = daq_running s"
  "session_status (alloc_odt_state daq cnt s) = session_status s"
  by (simp_all add: alloc_odt_state_def daq_upd)

lemma alloc_odt_lists:
  assumes "odt_count s + cnt \<le> 65536" "0 < cnt" "odt_count s < 65536"
  shows "DaqListFirstOdt (alloc_odt_state daq cnt s) i = (if i = daq then odt_count s else DaqListFirstOdt s i)"
    "DaqListLastOdt (alloc_odt_state daq cnt s) i = (if i = daq then odt_count s + cnt - 1 else DaqListLastOdt s i)"
    "DaqListEventChannel (alloc_odt_state daq cnt s) i = DaqListEventChannel s i"
    "DaqListNext (alloc_odt_state daq cnt s) i = DaqListNext s i"
    "DaqListState (alloc_odt_state daq cnt s) i = DaqListState s i"
  using assms by (simp_all add: alloc_odt_state_def list_fields daq_upd)

lemma alloc_odt_mem:
  assumes "daq < daq_count s" "12 * daq_count s \<le> a"
  shows "daq_mem (alloc_odt_state daq cnt s) a = daq_mem s a"
  using assms by (simp add: alloc_odt_state_def list_wr16_def wr16_at_other)

lemma XcpAllocOdt_inv:
  assumes ok: "daq_tables_ok s" "daq_fresh s" "daq_unwritten s" "daq_lists_sep s" "odt_sizes_ok s"
  shows "daq_tables_ok (snd (XcpAllocOdt daq cnt s))" "daq_fresh (snd (XcpAllocOdt daq cnt s))"
    "daq_unwritten (snd (XcpAllocOdt daq cnt s))" "daq_lists_sep (snd (XcpAllocOdt daq cnt s))"
    "odt_sizes_ok (snd (XcpAllocOdt daq cnt s))"
proof -
  let ?t = "alloc_odt_state daq cnt s"
  let ?I = "\<lambda>t. daq_tables_ok t \<and> daq_fresh t \<and> daq_unwritten t \<and> daq_lists_sep t \<and> odt_sizes_ok t"
  have "?I (snd (XcpAllocOdt daq cnt s))"
  proof (rule XcpAllocOdt_cases)
    assume daq: "daq < daq_count s" and E: "odt_entry_count s = 0" and cnt: "0 < cnt"
      and top: "daq_top ?t < XCP_DAQ_MEM_SIZE"
    have bound: "odt_count s + cnt \<le> 65536" "odt_count s < 65536"
      using top by (simp_all add: daq_top_def)
    note lists = alloc_odt_lists [OF bound(1) cnt bound(2)]
    have zero: "daq_mem ?t a = 0" if "daq_top s \<le> a" "a < XCP_DAQ_MEM_SIZE + 8" for a
      using ok(2) that daq by (simp add: daq_fresh_def alloc_odt_mem daq_top_def)
    have old: "odt_rd16 ?t j k = odt_rd16 s j k" for j k
      using alloc_odt_mem [OF daq] by (simp add: odt_rd16_def table_defs rd16_def)
    have new: "odt_rd16 ?t j k = 0" if "odt_count s \<le> j" "j < odt_count ?t" "k < 7" for j k
      using that top E by (simp add: odt_rd16_def table_defs rd16_zero zero daq_top_def)
    have odt: "first_odt_entry ?t j = 0 \<and> last_odt_entry ?t j = 0"
      if "j < odt_count ?t" for j
      using that ok(1) E old new by (cases "j < odt_count s") (auto simp: odt_fields daq_tables_ok_def)
    have sz: "odt_size ?t j = 0" if "j < odt_count ?t" for j
      using that ok(3) old new by (cases "j < odt_count s") (simp_all add: odt_fields daq_unwritten_def)
    have "daq_tables_ok ?t"
      using top odt ok(1) lists cnt E by (auto simp: daq_tables_ok_def)
    moreover have "daq_fresh ?t"
      using zero by (simp add: daq_fresh_def daq_top_def)
    moreover have "daq_unwritten ?t"
      using zero sz E by (simp add: daq_unwritten_def table_defs daq_top_def)
    moreover have "daq_lists_sep ?t"
    proof -
      have new_old: "no_own_odt ?t k \<or> DaqListLastOdt ?t k < DaqListFirstOdt ?t daq"
        if "k < daq_count s" "k \<noteq> daq" for k
      proof -
        have "DaqListLastOdt s k < max 1 (odt_count s)" "DaqListFirstOdt s k \<le> DaqListLastOdt s k"
          using ok(1) that by (simp_all add: daq_tables_ok_def)
        then show ?thesis using that lists by (auto simp: no_own_odt_def)
      qed
      have old_old: "no_own_odt ?t k = no_own_odt s k" if "k \<noteq> daq" for k
        using that lists by (simp add: no_own_odt_def)
      show ?thesis unfolding daq_lists_sep_def
      proof (intro allI impI)
        fix i k assume "i < daq_count ?t" "k < daq_count ?t" "i \<noteq> k"
        then have ik: "i < daq_count s" "k < daq_count s" "i \<noteq> k" by simp_all
        consider "i = daq" | "k = daq" | "i \<noteq> daq" "k \<noteq> daq" by blast
        then show "no_own_odt ?t i \<or> no_own_odt ?t k \<or>
          DaqListLastOdt ?t i < DaqListFirstOdt ?t k \<or> DaqListLastOdt ?t k < DaqListFirstOdt ?t i"
        proof cases
          case 3
          then show ?thesis using ok(4) ik lists old_old by (simp add: daq_lists_sep_def)
        qed (use new_old ik in blast)+
      qed
    qed
    moreover have "odt_sizes_ok ?t"
    proof -
      have "DaqListFirstOdt ?t i < odt_count ?t" if "i < daq_count s" for i
        using that \<open>daq_tables_ok ?t\<close> cnt by (fastforce simp: daq_tables_ok_def)
      then show ?thesis using E sz by (simp add: odt_sizes_ok_def)
    qed
    ultimately show "?I (snd (CRC_CMD_OK, ?t))" by simp
  qed (use ok in simp_all)
  then show "daq_tables_ok (snd (XcpAllocOdt daq cnt s))" "daq_fresh (snd (XcpAllocOdt daq cnt s))"
    "daq_unwritten (snd (XcpAllocOdt daq cnt s))" "daq_lists_sep (snd (XcpAllocOdt daq cnt s))"
    "odt_sizes_ok (snd (XcpAllocOdt daq cnt s))" by blast+
qed

section \<open>Allocating ODT entries\<close>

text \<open>While no entry is written, all sizes are zero and the sums agree trivially.\<close>

lemma odt_entries_bound:
  assumes "daq_tables_ok s" "j < odt_count s" "0 < odt_entry_count s" "e \<in> set (odt_entries s j)"
  shows "e < odt_entry_count s"
  using assms by (fastforce simp: odt_entries_def daq_tables_ok_def)

lemma unwritten_sizes_ok:
  assumes ok: "daq_tables_ok s" and un: "daq_unwritten s"
  shows "odt_sizes_ok s"
proof -
  have "odt_entry_size s e = 0" if "e < odt_entry_count s" for e
    using that ok un by (simp add: odt_entry_size_def daq_unwritten_def daq_tables_ok_def daq_top_def table_defs)
  then have "sum_list (map (odt_entry_size s) (odt_entries s j)) = 0"
    if "j < odt_count s" "0 < odt_entry_count s" for j
    using that odt_entries_bound [OF ok] by (auto simp: sum_list_eq_0_iff)
  moreover have "DaqListFirstOdt s i < odt_count s" if "i < daq_count s" "0 < odt_count s" for i
    using that ok by (fastforce simp: daq_tables_ok_def)
  ultimately show ?thesis using un by (simp add: odt_sizes_ok_def daq_unwritten_def)
qed

definition alloc_entry_state :: "nat \<Rightarrow> nat \<Rightarrow> 'a xcp_daq_scheme \<Rightarrow> 'a xcp_daq_scheme" where
  "alloc_entry_state j cnt s = odt_wr16 j 4 0 (odt_wr16 j 2 (odt_entry_count s + cnt - 1)
     ((odt_wr16 j 0 (odt_entry_count s) s)\<lparr>odt_entry_count := odt_entry_count s + cnt\<rparr>))"

lemma XcpAllocOdtEntry_cases:
  assumes "daq < daq_count s \<Longrightarrow> 0 < odt_count s \<Longrightarrow> int odt < DaqListOdtCount s daq \<Longrightarrow> 0 < cnt \<Longrightarrow>
      daq_top (alloc_entry_state (DaqListFirstOdt s daq + odt) cnt s) < XCP_DAQ_MEM_SIZE \<Longrightarrow>
      P (CRC_CMD_OK, alloc_entry_state (DaqListFirstOdt s daq + odt) cnt s)"
    and "P (CRC_MEMORY_OVERFLOW, XcpClearDaq (alloc_entry_state (DaqListFirstOdt s daq + odt) cnt s))"
    and "P (CRC_MEMORY_OVERFLOW, XcpClearDaq s)"
    and "\<And>c. c \<noteq> CRC_CMD_OK \<Longrightarrow> P (c, s)"
  shows "P (XcpAllocOdtEntry daq odt cnt s)"
proof (cases "daq < daq_count s \<and> 0 < odt_count s \<and> int odt < DaqListOdtCount s daq \<and> 0 < cnt")
  case True
  then have eq: "XcpAllocOdtEntry daq odt cnt s = (if 0xFFFF < odt_entry_count s + cnt
      then (CRC_MEMORY_OVERFLOW, XcpClearDaq s)
      else XcpCheckMemory (alloc_entry_state (DaqListFirstOdt s daq + odt) cnt s))"
    by (simp add: XcpAllocOdtEntry_def Let_def alloc_entry_state_def)
  have "P (XcpCheckMemory (alloc_entry_state (DaqListFirstOdt s daq + odt) cnt s))"
    by (rule XcpCheckMemory_cases) (use True assms(1,2) in simp_all)
  then show ?thesis using assms(3) by (simp add: eq)
next
  case False
  then have "\<exists>c. c \<noteq> CRC_CMD_OK \<and> XcpAllocOdtEntry daq odt cnt s = (c, s)"
    by (auto simp: XcpAllocOdtEntry_def Let_def)
  then show ?thesis using assms(4) by auto
qed

lemma alloc_entry_counts [simp]:
  "daq_count (alloc_entry_state j cnt s) = daq_count s" "odt_count (alloc_entry_state j cnt s) = odt_count s"
  "odt_entry_count (alloc_entry_state j cnt s) = odt_entry_count s + cnt"
  "event (alloc_entry_state j cnt s) = event s" "event_count (alloc_entry_state j cnt s) = event_count s"
  "write_daq_daq (alloc_entry_state j cnt s) = write_daq_daq s"
  "write_daq_odt (alloc_entry_state j cnt s) = write_daq_odt s"
  "daq_running (alloc_entry_state j cnt s) = daq_running s"
  "session_status (alloc_entry_state j cnt s) = session_status s"
  by (simp_all add: alloc_entry_state_def daq_upd)

lemma alloc_entry_lists [simp]:
  assumes "i < daq_count s"
  shows "DaqListFirstOdt (alloc_entry_state j cnt s) i = DaqListFirstOdt s i"
    "DaqListLastOdt (alloc_entry_state j cnt s) i = DaqListLastOdt s i"
    "DaqListEventChannel (alloc_entry_state j cnt s) i = DaqListEventChannel s i"
    "DaqListNext (alloc_entry_state j cnt s) i = DaqListNext s i"
    "DaqListState (alloc_entry_state j cnt s) i = DaqListState s i"
  using assms by (simp_all add: alloc_entry_state_def list_fields daq_upd)

lemma alloc_entry_odts:
  assumes "odt_entry_count s + cnt \<le> 65536" "0 < cnt"
  shows "first_odt_entry (alloc_entry_state j cnt s) k = (if k = j then odt_entry_count s else first_odt_entry s k)"
    "last_odt_entry (alloc_entry_state j cnt s) k = (if k = j then odt_entry_count s + cnt - 1 else last_odt_entry s k)"
    "odt_size (alloc_entry_state j cnt s) k = (if k = j then 0 else odt_size s k)"
  using assms by (auto simp: alloc_entry_state_def odt_fields daq_upd)

lemma alloc_entry_mem:
  assumes "j < odt_count s" "DaqListOdtEntryAddrTable s \<le> a"
  shows "daq_mem (alloc_entry_state j cnt s) a = daq_mem s a"
  using assms by (simp add: alloc_entry_state_def odt_wr16_def wr16_at_other table_defs)

text \<open>The ODT that \<open>XcpAllocOdtEntry\<close> writes exists.\<close>

lemma daq_list_odt_bound:
  assumes "daq_tables_ok s" "daq < daq_count s" "0 < odt_count s" "int odt < DaqListOdtCount s daq"
  shows "DaqListFirstOdt s daq + odt \<le> DaqListLastOdt s daq" "DaqListFirstOdt s daq + odt < odt_count s"
proof -
  have "DaqListLastOdt s daq < odt_count s"
    using assms(1-3) by (fastforce simp: daq_tables_ok_def)
  then show "DaqListFirstOdt s daq + odt \<le> DaqListLastOdt s daq" "DaqListFirstOdt s daq + odt < odt_count s"
    using assms(4) by (simp_all add: DaqListOdtCount_def)
qed

text \<open>The index tables stay sound whatever has been written before.\<close>

lemma alloc_entry_tables_ok:
  assumes ok: "daq_tables_ok s" "daq_fresh s" and j: "j < odt_count s" and cnt: "0 < cnt"
    and top: "daq_top (alloc_entry_state j cnt s) < XCP_DAQ_MEM_SIZE"
  shows "daq_tables_ok (alloc_entry_state j cnt s)" "daq_fresh (alloc_entry_state j cnt s)"
proof -
  let ?t = "alloc_entry_state j cnt s"
  have "odt_entry_count s + cnt \<le> 65536" using top by (simp add: daq_top_def)
  note odts = alloc_entry_odts [OF this cnt]
  have "last_odt_entry s k < odt_entry_count s + cnt" if "k < odt_count s" for k
    using ok(1) that cnt by (fastforce simp: daq_tables_ok_def)
  then show "daq_tables_ok ?t"
    using ok(1) top odts cnt by (auto simp: daq_tables_ok_def)
  show "daq_fresh ?t"
    using ok(2) alloc_entry_mem [OF j] by (simp add: daq_fresh_def daq_top_def table_defs)
qed

lemma XcpAllocOdtEntry_tables_ok:
  assumes ok: "daq_tables_ok s" "daq_fresh s" "daq_lists_sep s"
  shows "daq_tables_ok (snd (XcpAllocOdtEntry daq odt cnt s)) \<and> daq_fresh (snd (XcpAllocOdtEntry daq odt cnt s))
    \<and> daq_lists_sep (snd (XcpAllocOdtEntry daq odt cnt s))"
proof (rule XcpAllocOdtEntry_cases)
  let ?t = "alloc_entry_state (DaqListFirstOdt s daq + odt) cnt s"
  assume "daq < daq_count s" "0 < odt_count s" "int odt < DaqListOdtCount s daq" "0 < cnt"
    and top: "daq_top ?t < XCP_DAQ_MEM_SIZE"
  then show "daq_tables_ok (snd (CRC_CMD_OK, ?t)) \<and> daq_fresh (snd (CRC_CMD_OK, ?t)) \<and> daq_lists_sep (snd (CRC_CMD_OK, ?t))"
    using alloc_entry_tables_ok [OF ok(1,2) daq_list_odt_bound(2) [OF ok(1)]] ok(3)
    by (simp add: daq_lists_sep_def no_own_odt_def)
qed (use ok in simp_all)

lemma XcpAllocOdtEntry_unwritten:
  assumes ok: "daq_tables_ok s" "daq_fresh s" "daq_unwritten s"
  shows "daq_unwritten (snd (XcpAllocOdtEntry daq odt cnt s))"
proof (rule XcpAllocOdtEntry_cases)
  let ?t = "alloc_entry_state (DaqListFirstOdt s daq + odt) cnt s"
  assume a: "daq < daq_count s" "0 < odt_count s" "int odt < DaqListOdtCount s daq" "0 < cnt"
    and top: "daq_top ?t < XCP_DAQ_MEM_SIZE"
  have "odt_entry_count s + cnt \<le> 65536" using top by (simp add: daq_top_def)
  note odts = alloc_entry_odts [OF this a(4)]
  show "daq_unwritten (snd (CRC_CMD_OK, ?t))"
    using ok(3) odts alloc_entry_mem [OF daq_list_odt_bound(2) [OF ok(1) a(1-3)]]
    by (simp add: daq_unwritten_def table_defs)
qed (use ok in simp_all)

end
