(* ===== verification/Xcp_Daq_Cfg.thy ===== *)
theory Xcp_Daq_Cfg
  imports Xcp_Daq_Alloc
begin

text \<open>
  Filling the DAQ tables: \<^verbatim>\<open>XcpSetDaqPtr\<close>, \<^verbatim>\<open>XcpSetOdtSize\<close>,
  \<^verbatim>\<open>XcpAddOdtEntry\<close>, \<^verbatim>\<open>XcpSetDaqListMode\<close> and
  \<^verbatim>\<open>XcpCheckDaqLists\<close> of \<^verbatim>\<open>src/src/xcplite.c\<close>. The DAQ lists of an event form a
  linked list through the list table (\<open>daq_chain\<close>); the loop that appends to it follows links that a
  corrupted table could close to a cycle, so it is a partial function whose value \<open>None\<close> means that
  the code does not return. C \<^verbatim>\<open>uint16_t\<close> differences are written with \<open>mod 65536\<close> on integers.
\<close>

section \<open>Operations\<close>

definition XcpSetDaqPtr :: "nat \<Rightarrow> nat \<Rightarrow> nat \<Rightarrow> 'a xcp_daq_scheme \<Rightarrow> nat \<times> 'a xcp_daq_scheme" where
  "XcpSetDaqPtr daq odt idx s =
     (if daq_count s \<le> daq \<or> DaqListOdtCount s daq \<le> int odt then (CRC_OUT_OF_RANGE, s)
      else if isDaqRunning s then (CRC_DAQ_ACTIVE, s)
      else let odt0 = (DaqListFirstOdt s daq + odt) mod 65536 in
        if DaqListOdtEntryCount s odt0 \<le> int idx then (CRC_OUT_OF_RANGE, s)
        else (CRC_CMD_OK, s\<lparr>write_daq_odt_entry := (first_odt_entry s odt0 + idx) mod 65536,
                            write_daq_odt := odt0, write_daq_daq := daq\<rparr>))"

definition XcpSetOdtSize :: "nat \<Rightarrow> nat \<Rightarrow> nat \<Rightarrow> 'a xcp_daq_scheme \<Rightarrow> 'a xcp_daq_scheme option" where
  "XcpSetOdtSize daq odt sz s =
     (let daq_odt = (int odt - int (DaqListFirstOdt s daq)) mod 65536;
          max_size = (XCPTL_MAX_DTO_SIZE - 4) - (if daq_odt = 0 then 4 else 0)
      in if max_size < sz then None else Some (odt_wr16 odt 4 sz s))"

text \<open>The addressing mode decides the base offset that is stored and the event the list is bound to.
  \<open>Inl\<close> is the error code, \<open>Inr (base_offset, event)\<close> the result.\<close>

definition odt_entry_target :: "nat \<Rightarrow> nat \<Rightarrow> nat \<Rightarrow> nat + nat \<times> nat" where
  "odt_entry_target event_id addr ext =
     (if XcpAddrIsDyn ext
      then (if event_id \<noteq> XCP_UNDEFINED_EVENT_ID \<and> event_id \<noteq> XcpAddrDecodeDynEvent addr
            then Inl CRC_OUT_OF_RANGE
            else Inr (XcpAddrDecodeDynOffset addr, XcpAddrDecodeDynEvent addr))
      else if XcpAddrIsAbs ext \<or> XcpAddrIsApp ext then Inr (addr, event_id)
      else Inl CRC_ACCESS_DENIED)"

definition XcpAddOdtEntry :: "nat \<Rightarrow> nat \<Rightarrow> nat \<Rightarrow> 'a xcp_daq_scheme \<Rightarrow> nat \<times> 'a xcp_daq_scheme" where
  "XcpAddOdtEntry addr ext sz s =
     (if sz = 0 \<or> XCP_MAX_ODT_ENTRY_SIZE < sz then (CRC_OUT_OF_RANGE, s)
      else if daq_count s = 0 \<or> odt_count s = 0 \<or> odt_entry_count s = 0 then (CRC_DAQ_CONFIG, s)
      else if daq_count s \<le> write_daq_daq s then (CRC_SEQUENCE, s)
      else if DaqListOdtEntryCount s (write_daq_odt s)
          \<le> int (write_daq_odt_entry s) - int (first_odt_entry s (write_daq_odt s))
        then (CRC_OUT_OF_RANGE, s)
      else if isDaqRunning s then (CRC_DAQ_ACTIVE, s)
      else let daq = write_daq_daq s; odt = write_daq_odt s; e = write_daq_odt_entry s in
        (case odt_entry_target (DaqListEventChannel s daq) addr ext of
           Inl err \<Rightarrow> (err, s)
         | Inr (base_offset, event_id) \<Rightarrow>
             let new_size = nat ((int (odt_size s odt) - int (odt_entry_size s e) + int sz) mod 65536) in
             (case XcpSetOdtSize daq odt new_size s of
                None \<Rightarrow> (CRC_DAQ_CONFIG, s)
              | Some s1 \<Rightarrow> (CRC_CMD_OK,
                  (odt_entry_write e base_offset ext sz (list_wr16 daq 4 event_id s1))
                    \<lparr>write_daq_odt_entry := (e + 1) mod 65536\<rparr>))))"

text \<open>\<open>*daq0_next = daq\<close>: the link is the event's \<^verbatim>\<open>daq_first\<close> or the
  \<^verbatim>\<open>next\<close> field of a list.\<close>

definition set_daq_link :: "nat \<Rightarrow> nat option \<Rightarrow> nat \<Rightarrow> 'a xcp_daq_scheme \<Rightarrow> 'a xcp_daq_scheme" where
  "set_daq_link e link d s = (case link of None \<Rightarrow> set_daq_first e d s | Some p \<Rightarrow> list_wr16 p 6 d s)"

partial_function (option) link_daq ::
  "nat \<Rightarrow> nat \<Rightarrow> nat option \<Rightarrow> nat \<Rightarrow> 'a xcp_daq_scheme \<Rightarrow> 'a xcp_daq_scheme option" where
  "link_daq e daq link d s =
     (if d = XCP_UNDEFINED_DAQ_LIST then Some (set_daq_link e link daq s)
      else if d = daq then Some s
      else link_daq e daq (Some d) (DaqListNext s d) s)"

definition XcpSetDaqListMode ::
  "nat \<Rightarrow> nat \<Rightarrow> nat \<Rightarrow> nat \<Rightarrow> nat \<Rightarrow> 'a xcp_daq_scheme \<Rightarrow> (nat \<times> 'a xcp_daq_scheme) option" where
  "XcpSetDaqListMode daq event_id mode prescaler prio s =
     (if daq_count s \<le> daq then Some (CRC_DAQ_CONFIG, s)
      else if 1 < prescaler then Some (CRC_OUT_OF_RANGE, s)
      else if XcpGetEvent s event_id = None then Some (CRC_OUT_OF_RANGE, s)
      else if DaqListEventChannel s daq \<noteq> XCP_UNDEFINED_EVENT_ID \<and> event_id \<noteq> DaqListEventChannel s daq
        then Some (CRC_DAQ_CONFIG, s)
      else let s1 = list_wr8 daq 10 (of_nat prio) (list_wr8 daq 8 (of_nat mode) (list_wr16 daq 4 event_id s))
        in map_option (\<lambda>t. (CRC_CMD_OK, t)) (link_daq event_id daq None (DaqListFirst s1 event_id) s1))"

text \<open>\<open>chk ext addr size\<close> is \<^verbatim>\<open>ApplXcpCheckMemory\<close>.\<close>

definition check_odt_entry :: "(nat \<Rightarrow> nat \<Rightarrow> nat \<Rightarrow> nat) \<Rightarrow> 'a xcp_daq_scheme \<Rightarrow> nat \<Rightarrow> bool" where
  "check_odt_entry chk s e \<longleftrightarrow> odt_entry_size s e \<noteq> 0
     \<and> chk (odt_entry_addr_ext s e) (odt_entry_addr s e) (odt_entry_size s e) = CRC_CMD_OK"

definition check_daq_list ::
  "(nat \<Rightarrow> nat \<Rightarrow> nat \<Rightarrow> nat) \<Rightarrow> u8 \<Rightarrow> nat \<Rightarrow> 'a xcp_daq_scheme \<Rightarrow> nat \<Rightarrow> bool" where
  "check_daq_list chk daq_state event_id s daq \<longleftrightarrow>
     (if DaqListState s daq AND daq_state \<noteq> daq_state then True
      else if DaqListEventChannel s daq = XCP_UNDEFINED_EVENT_ID then False
      else if event_id \<noteq> XCP_UNDEFINED_EVENT_ID \<and> DaqListEventChannel s daq \<noteq> event_id then True
      else list_all (\<lambda>i. list_all (check_odt_entry chk s) (odt_entries s i))
             [DaqListFirstOdt s daq..<DaqListLastOdt s daq + 1])"

definition XcpCheckDaqLists ::
  "(nat \<Rightarrow> nat \<Rightarrow> nat \<Rightarrow> nat) \<Rightarrow> u8 \<Rightarrow> nat \<Rightarrow> 'a xcp_daq_scheme \<Rightarrow> bool" where
  "XcpCheckDaqLists chk daq_state event_id s \<longleftrightarrow>
     list_all (check_daq_list chk daq_state event_id s) [0..<daq_count s]"

section \<open>The linked lists of the events\<close>

fun daq_chain :: "'a xcp_daq_scheme \<Rightarrow> nat \<Rightarrow> nat list \<Rightarrow> bool" where
  "daq_chain s d [] \<longleftrightarrow> d = XCP_UNDEFINED_DAQ_LIST"
| "daq_chain s d (x # xs) \<longleftrightarrow> d = x \<and> x \<noteq> XCP_UNDEFINED_DAQ_LIST \<and> daq_chain s (DaqListNext s x) xs"

lemma daq_chain_cong:
  "(\<And>x. x \<in> set xs \<Longrightarrow> DaqListNext t x = DaqListNext s x) \<Longrightarrow> daq_chain t d xs = daq_chain s d xs"
  by (induction xs arbitrary: d) auto

lemma daq_chain_unique: "daq_chain s d xs \<Longrightarrow> daq_chain s d ys \<Longrightarrow> xs = ys"
proof (induction xs arbitrary: d ys)
  case Nil
  then show ?case by (cases ys) auto
next
  case (Cons x xs)
  then show ?case by (cases ys) auto
qed

text \<open>The append loop: it stops at a list that is already linked, else it links behind the last one.\<close>

lemma link_daq_chain:
  assumes "daq_chain s d xs"
  shows "link_daq e daq link d s = Some (if daq \<in> set xs then s
    else set_daq_link e (if xs = [] then link else Some (last xs)) daq s)"
  using assms
proof (induction xs arbitrary: d link)
  case Nil
  then show ?case by (subst link_daq.simps) simp
next
  case (Cons x xs)
  then show ?case by (subst link_daq.simps) auto
qed

lemma daq_chain_append:
  assumes "daq_chain s d xs" "distinct xs" "xs \<noteq> []" "daq \<notin> set xs"
    and "DaqListNext s daq = XCP_UNDEFINED_DAQ_LIST" "daq < XCP_UNDEFINED_DAQ_LIST"
  shows "daq_chain (list_wr16 (last xs) 6 daq s) d (xs @ [daq])"
  using assms
proof (induction xs arbitrary: d)
  case (Cons x xs)
  let ?t = "list_wr16 (last (x # xs)) 6 daq s"
  have nx: "DaqListNext ?t i = (if i = last (x # xs) then daq else DaqListNext s i)" for i
    using Cons.prems(6) by (auto simp: DaqListNext_def list_rd16_wr16)
  show ?case
  proof (cases xs)
    case Nil
    then show ?thesis using Cons.prems nx by auto
  next
    case (Cons y ys)
    then have "x \<noteq> last xs" using Cons.prems(2) by auto
    then show ?thesis using Cons Cons.prems Cons.IH nx by auto
  qed
qed simp

definition chains_by :: "(nat \<Rightarrow> nat list) \<Rightarrow> 'a xcp_daq_scheme \<Rightarrow> bool" where
  "chains_by ch s \<longleftrightarrow>
     (\<forall>e < event_count s. daq_chain s (DaqListFirst s e) (ch e) \<and> distinct (ch e)
        \<and> (\<forall>d \<in> set (ch e). d < daq_count s \<and> DaqListEventChannel s d = e))
     \<and> (\<forall>d < daq_count s. (\<forall>e < event_count s. d \<notin> set (ch e)) \<longrightarrow> DaqListNext s d = XCP_UNDEFINED_DAQ_LIST)"

definition chains_ok :: "'a xcp_daq_scheme \<Rightarrow> bool" where
  "chains_ok s \<longleftrightarrow> (\<exists>ch. chains_by ch s)"

lemma chains_by_cong:
  assumes "chains_by ch s" "event_count t = event_count s" "daq_count t = daq_count s"
    and "\<And>e. e < event_count s \<Longrightarrow> DaqListFirst t e = DaqListFirst s e"
    and "\<And>d. d < daq_count s \<Longrightarrow> DaqListNext t d = DaqListNext s d"
    and "\<And>d e. d < daq_count s \<Longrightarrow> e < event_count s \<Longrightarrow> d \<in> set (ch e) \<Longrightarrow> DaqListEventChannel t d = e"
  shows "chains_by ch t"
proof -
  have "daq_chain t (DaqListFirst t e) (ch e) = daq_chain s (DaqListFirst s e) (ch e)"
    if "e < event_count s" for e
    using that assms(1,4,5) daq_chain_cong [of "ch e" t s] by (simp add: chains_by_def)
  with assms show ?thesis by (auto simp: chains_by_def)
qed

text \<open>The result of linking one list to an event.\<close>

lemma set_daq_link_chains:
  assumes ch: "chains_by ch s" and e: "e < event_count s" and d: "daq < daq_count s"
    and bound: "daq_count s < XCP_UNDEFINED_DAQ_LIST"
    and ev: "DaqListEventChannel s daq = e" and new: "daq \<notin> set (ch e)"
  shows "chains_by (ch(e := ch e @ [daq]))
    (set_daq_link e (if ch e = [] then None else Some (last (ch e))) daq s)"
proof -
  let ?t = "set_daq_link e (if ch e = [] then None else Some (last (ch e))) daq s"
  from ch e have c: "daq_chain s (DaqListFirst s e) (ch e)" "distinct (ch e)"
    and cd: "\<And>x. x \<in> set (ch e) \<Longrightarrow> x < daq_count s \<and> DaqListEventChannel s x = e"
    by (simp_all add: chains_by_def)
  have other: "daq \<notin> set (ch e')" if "e' < event_count s" for e'
    using ch that ev new by (auto simp: chains_by_def)
  then have nd: "DaqListNext s daq = XCP_UNDEFINED_DAQ_LIST" using ch d by (simp add: chains_by_def)
  have cnt: "event_count ?t = event_count s" "daq_count ?t = daq_count s"
    by (simp_all add: set_daq_link_def set_daq_first_def list_wr_frame)
  have ech: "DaqListEventChannel ?t x = DaqListEventChannel s x" for x
    by (simp add: set_daq_link_def set_daq_first_def DaqListEventChannel_def list_rd16_wr16)
      (simp add: list_rd16_def)
  have nx: "DaqListNext ?t x = (if ch e \<noteq> [] \<and> x = last (ch e) then daq else DaqListNext s x)" for x
    using d bound by (simp add: set_daq_link_def set_daq_first_def DaqListNext_def list_rd16_wr16)
      (simp add: list_rd16_def)
  have fst': "DaqListFirst ?t x = (if x = e \<and> ch e = [] then daq else DaqListFirst s x)" for x
    by (simp add: set_daq_link_def set_daq_first_def DaqListFirst_def list_wr_frame)
  have ce: "daq_chain ?t (DaqListFirst ?t e) (ch e @ [daq])"
  proof (cases "ch e = []")
    case True
    then show ?thesis using c nd fst' nx d bound by simp
  next
    case False
    then have "?t = list_wr16 (last (ch e)) 6 daq s" by (simp add: set_daq_link_def)
    then show ?thesis
      using daq_chain_append [OF c(1,2) False new nd] fst' False d bound by simp
  qed
  have co: "daq_chain ?t (DaqListFirst ?t e') (ch e')" if "e' < event_count s" "e' \<noteq> e" for e'
  proof -
    have "DaqListNext ?t x = DaqListNext s x" if "x \<in> set (ch e')" for x
      using nx that cd [of x] ch \<open>e' < _\<close> \<open>e' \<noteq> e\<close> by (auto simp: chains_by_def)
    then have "daq_chain ?t (DaqListFirst s e') (ch e') = daq_chain s (DaqListFirst s e') (ch e')"
      by (rule daq_chain_cong)
    then show ?thesis using ch that fst' by (simp add: chains_by_def)
  qed
  show ?thesis unfolding chains_by_def cnt
  proof (intro conjI allI impI)
    fix e' assume "e' < event_count s"
    then show "daq_chain ?t (DaqListFirst ?t e') ((ch(e := ch e @ [daq])) e')"
      "distinct ((ch(e := ch e @ [daq])) e')"
      using ce co new ch by (auto simp: chains_by_def)
    show "\<forall>x \<in> set ((ch(e := ch e @ [daq])) e'). x < daq_count s \<and> DaqListEventChannel ?t x = e'"
      using \<open>e' < _\<close> ch d ev ech by (auto simp: chains_by_def)
  next
    fix x assume x: "x < daq_count s" and "\<forall>e' < event_count s. x \<notin> set ((ch(e := ch e @ [daq])) e')"
    then have xn: "x \<notin> set (ch e')" if "e' < event_count s" for e' using that by (cases "e' = e") auto
    then have "\<not> (ch e \<noteq> [] \<and> x = last (ch e))" using e last_in_set by metis
    then show "DaqListNext ?t x = XCP_UNDEFINED_DAQ_LIST"
      using nx [of x] ch x xn by (auto simp: chains_by_def)
  qed
qed

end
