(* ===== verification/Xcp_Daq_Inv.thy ===== *)
theory Xcp_Daq_Inv
  imports Xcp_Daq_Cfg
begin

text \<open>
  The invariant \<open>daq_inv\<close> of a DAQ configuration and its preservation by every configuration
  operation, for clients that follow the order of the XCP standard: \<open>XcpAllocDaq\<close> only when no list is
  allocated (after \<^verbatim>\<open>FREE_DAQ\<close>), and no allocation between \<^verbatim>\<open>SET_DAQ_PTR\<close> and
  the next \<^verbatim>\<open>FREE_DAQ\<close>. The code does not enforce that order; \<^verbatim>\<open>alloc_in_order\<close>
  of \<^verbatim>\<open>Xcp_Command_Daq\<close> is the condition on the commands of a client that does.
\<close>

section \<open>The invariant\<close>

definition cursor_ok :: "'a xcp_daq_scheme \<Rightarrow> bool" where
  "cursor_ok s \<longleftrightarrow> write_daq_daq s = 65535 \<or> (write_daq_daq s < daq_count s \<and> (0 < odt_count s \<longrightarrow>
     DaqListFirstOdt s (write_daq_daq s) \<le> write_daq_odt s \<and> write_daq_odt s \<le> DaqListLastOdt s (write_daq_daq s)
     \<and> first_odt_entry s (write_daq_odt s) \<le> write_daq_odt_entry s))"

definition daq_inv :: "'a xcp_daq_scheme \<Rightarrow> bool" where
  "daq_inv s \<longleftrightarrow> daq_tables_ok s \<and> daq_fresh s \<and> daq_lists_sep s \<and> odt_sizes_ok s \<and> chains_ok s
     \<and> cursor_ok s \<and> (write_daq_daq s = 65535 \<longrightarrow> daq_unwritten s) \<and> event_count s \<le> XCP_MAX_EVENT_COUNT"

lemma daq_invI:
  assumes "daq_tables_ok s" "daq_fresh s" "daq_lists_sep s" "odt_sizes_ok s" "chains_ok s" "cursor_ok s"
    "write_daq_daq s = 65535 \<Longrightarrow> daq_unwritten s" "event_count s \<le> XCP_MAX_EVENT_COUNT"
  shows "daq_inv s"
  using assms by (simp add: daq_inv_def)

lemma daq_invD:
  assumes "daq_inv s"
  shows "daq_tables_ok s" "daq_fresh s" "daq_lists_sep s" "odt_sizes_ok s" "chains_ok s" "cursor_ok s"
    "write_daq_daq s = 65535 \<Longrightarrow> daq_unwritten s" "event_count s \<le> XCP_MAX_EVENT_COUNT"
  using assms by (simp_all add: daq_inv_def)

lemma daq_count_bound: "daq_tables_ok s \<Longrightarrow> daq_count s < 256"
  by (simp add: daq_tables_ok_def daq_top_def)

lemma odt_counts_bound: "daq_tables_ok s \<Longrightarrow> odt_count s < 384 \<and> odt_entry_count s < 512"
  by (simp add: daq_tables_ok_def daq_top_def)

lemma cursor_rd [simp]:
  "list_rd16 (s\<lparr>write_daq_odt_entry := v\<rparr>) i k = list_rd16 s i k"
  "list_rd16 (s\<lparr>write_daq_odt := v\<rparr>) i k = list_rd16 s i k"
  "list_rd16 (s\<lparr>write_daq_daq := v\<rparr>) i k = list_rd16 s i k"
  "odt_rd16 (s\<lparr>write_daq_odt_entry := v\<rparr>) i k = odt_rd16 s i k"
  "odt_rd16 (s\<lparr>write_daq_odt := v\<rparr>) i k = odt_rd16 s i k"
  "odt_rd16 (s\<lparr>write_daq_daq := v\<rparr>) i k = odt_rd16 s i k"
  by (simp_all add: list_rd16_def odt_rd16_def table_defs)

text \<open>No state component that the DAQ accessors do not read matters.\<close>

lemma daq_acc_cong:
  assumes "daq_mem t = daq_mem s" "daq_count t = daq_count s" "odt_count t = odt_count s"
    "odt_entry_count t = odt_entry_count s"
  shows "list_rd16 t i k = list_rd16 s i k" "list_rd8 t i k = list_rd8 s i k" "odt_rd16 t i k = odt_rd16 s i k"
    "odt_entry_addr t i = odt_entry_addr s i" "odt_entry_size t = odt_entry_size s"
    "odt_entry_addr_ext t i = odt_entry_addr_ext s i" "daq_top t = daq_top s"
    "DaqListOdtEntryAddrTable t = DaqListOdtEntryAddrTable s"
proof -
  show "odt_entry_size t = odt_entry_size s"
    by (rule ext) (simp add: entry_fields table_defs assms)
qed (simp_all add: list_rd16_def list_rd8_def odt_rd16_def entry_fields daq_top_def table_defs assms)

lemma daq_tables_cong:
  assumes "daq_mem t = daq_mem s" "daq_count t = daq_count s" "odt_count t = odt_count s"
    "odt_entry_count t = odt_entry_count s"
  shows "daq_tables_ok t = daq_tables_ok s" "daq_fresh t = daq_fresh s" "daq_lists_sep t = daq_lists_sep s"
    "odt_sizes_ok t = odt_sizes_ok s" "daq_unwritten t = daq_unwritten s"
  using daq_acc_cong [OF assms] assms
  by (simp_all add: daq_tables_ok_def daq_fresh_def daq_lists_sep_def odt_sizes_ok_def daq_unwritten_def
      list_fields odt_fields no_own_odt_def odt_private_def odt_entries_def)

lemma chains_cong:
  assumes "daq_mem t = daq_mem s" "daq_count t = daq_count s" "event_count t = event_count s"
    "\<And>e. daq_first (event t e) = daq_first (event s e)"
  shows "chains_ok t = chains_ok s"
proof -
  have f: "DaqListNext t d = DaqListNext s d" "DaqListEventChannel t d = DaqListEventChannel s d"
    "DaqListFirst t e = DaqListFirst s e" for d e
    by (simp_all add: assms list_fields list_rd16_def DaqListFirst_def)
  have "daq_chain t d xs = daq_chain s d xs" for d xs
    by (rule daq_chain_cong) (simp add: f)
  then have "chains_by ch t = chains_by ch s" for ch
    by (simp add: chains_by_def f assms(2,3))
  then show ?thesis by (simp add: chains_ok_def)
qed

lemma daq_inv_cong:
  assumes "daq_mem t = daq_mem s" "daq_count t = daq_count s" "odt_count t = odt_count s"
    "odt_entry_count t = odt_entry_count s" "event_count t = event_count s"
    "\<And>e. daq_first (event t e) = daq_first (event s e)" "write_daq_daq t = write_daq_daq s"
    "write_daq_odt t = write_daq_odt s" "write_daq_odt_entry t = write_daq_odt_entry s"
  shows "daq_inv t = daq_inv s"
  unfolding daq_inv_def cursor_ok_def
  using assms daq_tables_cong [OF assms(1-4)] chains_cong [OF assms(1,2,5,6)] daq_acc_cong [OF assms(1-4)]
  by (simp add: list_fields odt_fields)

section \<open>Clearing and allocating\<close>

lemma chains_ok_empty:
  assumes "\<forall>e < event_count s. DaqListFirst s e = XCP_UNDEFINED_DAQ_LIST"
    and "\<forall>d < daq_count s. DaqListNext s d = XCP_UNDEFINED_DAQ_LIST"
  shows "chains_ok s"
  unfolding chains_ok_def by (rule exI [of _ "\<lambda>_. []"]) (use assms in \<open>simp add: chains_by_def\<close>)

lemma XcpClearDaq_inv: "event_count s \<le> XCP_MAX_EVENT_COUNT \<Longrightarrow> daq_inv (XcpClearDaq s)"
  by (rule daq_invI) (simp_all add: cursor_ok_def chains_ok_empty XcpClearDaq_def DaqListFirst_def
      daq_tables_ok_def daq_fresh_def daq_lists_sep_def odt_sizes_ok_def daq_unwritten_def daq_top_def)

lemma chains_ok_by: "chains_by ch s \<Longrightarrow> chains_ok s"
  by (auto simp: chains_ok_def)

text \<open>With no list allocated every chain is empty.\<close>

lemma chains_no_lists:
  assumes "chains_ok s" "daq_count s = 0" "e < event_count s"
  shows "DaqListFirst s e = XCP_UNDEFINED_DAQ_LIST"
proof -
  from assms(1) obtain ch where ch: "chains_by ch s" by (auto simp: chains_ok_def)
  then have "daq_chain s (DaqListFirst s e) (ch e)" "ch e = []"
    using assms(2,3) by (auto simp: chains_by_def intro: ccontr)
  then show ?thesis by simp
qed

lemma XcpAllocDaq_frame:
  "event_count (snd (XcpAllocDaq n s)) = event_count s"
  "write_daq_daq (snd (XcpAllocDaq n s)) = write_daq_daq s \<or> write_daq_daq (snd (XcpAllocDaq n s)) = 65535"
  by (rule XcpAllocDaq_cases; simp)+

lemma XcpAllocDaq_daq_inv:
  assumes inv: "daq_inv s" and empty: "daq_count s = 0" and cur: "write_daq_daq s = 65535"
  shows "daq_inv (snd (XcpAllocDaq n s))"
proof -
  note ok = daq_invD [OF inv]
  note tables = XcpAllocDaq_inv [OF ok(1,2) ok(7) [OF cur] ok(3,4) empty]
  have w: "write_daq_daq (snd (XcpAllocDaq n s)) = 65535"
    using XcpAllocDaq_frame(2) cur by metis
  have "chains_ok (snd (XcpAllocDaq n s))"
  proof (rule XcpAllocDaq_cases)
    show "chains_ok (snd (CRC_CMD_OK, fold init_daq_list [0..<n] (s\<lparr>daq_count := n\<rparr>)))"
      using chains_no_lists [OF ok(5) empty]
      by (simp add: chains_ok_empty fold_init_daq_fields DaqListFirst_def)
    show "chains_ok (snd (CRC_MEMORY_OVERFLOW, XcpClearDaq (s\<lparr>daq_count := n\<rparr>)))"
      using XcpClearDaq_inv [of "s\<lparr>daq_count := n\<rparr>"] ok(8) by (simp add: daq_inv_def)
  qed (use ok in simp)
  then show ?thesis
    using tables w ok(8) by (simp add: daq_inv_def cursor_ok_def XcpAllocDaq_frame)
qed

text \<open>Allocating ODTs or entries changes neither the chains nor the lists' event channels.\<close>

lemma alloc_odt_chains:
  assumes "chains_ok s" "odt_count s + cnt \<le> 65536" "0 < cnt" "odt_count s < 65536"
  shows "chains_ok (alloc_odt_state daq cnt s)"
proof -
  from assms(1) obtain ch where "chains_by ch s" by (auto simp: chains_ok_def)
  then have "chains_by ch (alloc_odt_state daq cnt s)"
    by (rule chains_by_cong)
      (use assms \<open>chains_by ch s\<close> in \<open>auto simp: alloc_odt_lists DaqListFirst_def chains_by_def\<close>)
  then show ?thesis by (rule chains_ok_by)
qed

lemma alloc_entry_chains:
  assumes "chains_ok s"
  shows "chains_ok (alloc_entry_state j cnt s)"
proof -
  from assms(1) obtain ch where "chains_by ch s" by (auto simp: chains_ok_def)
  then have "chains_by ch (alloc_entry_state j cnt s)"
    by (rule chains_by_cong) (use \<open>chains_by ch s\<close> in \<open>auto simp: DaqListFirst_def chains_by_def\<close>)
  then show ?thesis by (rule chains_ok_by)
qed

lemma XcpAllocOdt_daq_inv:
  assumes inv: "daq_inv s" and cur: "write_daq_daq s = 65535"
  shows "daq_inv (snd (XcpAllocOdt daq cnt s))"
proof -
  note ok = daq_invD [OF inv]
  note tables = XcpAllocOdt_inv [OF ok(1,2) ok(7) [OF cur] ok(3,4), of daq cnt]
  have "chains_ok (snd (XcpAllocOdt daq cnt s)) \<and> event_count (snd (XcpAllocOdt daq cnt s)) = event_count s
      \<and> write_daq_daq (snd (XcpAllocOdt daq cnt s)) = 65535"
  proof (rule XcpAllocOdt_cases)
    assume "0 < cnt" and top: "daq_top (alloc_odt_state daq cnt s) < XCP_DAQ_MEM_SIZE"
    then show "chains_ok (snd (CRC_CMD_OK, alloc_odt_state daq cnt s))
        \<and> event_count (snd (CRC_CMD_OK, alloc_odt_state daq cnt s)) = event_count s
        \<and> write_daq_daq (snd (CRC_CMD_OK, alloc_odt_state daq cnt s)) = 65535"
      using cur by (simp add: alloc_odt_chains ok(5) daq_top_def)
  qed (use ok cur XcpClearDaq_inv [of "alloc_odt_state daq cnt s"] in \<open>simp_all add: daq_inv_def\<close>)
  then show ?thesis using tables ok(8) by (simp add: daq_inv_def cursor_ok_def)
qed

lemma XcpAllocOdtEntry_daq_inv:
  assumes inv: "daq_inv s" and cur: "write_daq_daq s = 65535"
  shows "daq_inv (snd (XcpAllocOdtEntry daq odt cnt s))"
proof -
  note ok = daq_invD [OF inv]
  let ?r = "snd (XcpAllocOdtEntry daq odt cnt s)" and ?a = "alloc_entry_state (DaqListFirstOdt s daq + odt) cnt s"
  have tables: "daq_tables_ok ?r" "daq_fresh ?r" "daq_lists_sep ?r" "daq_unwritten ?r"
    using XcpAllocOdtEntry_tables_ok [OF ok(1,2,3)] XcpAllocOdtEntry_unwritten [OF ok(1,2) ok(7) [OF cur]]
    by blast+
  have "chains_ok ?r \<and> event_count ?r = event_count s \<and> write_daq_daq ?r = 65535"
    by (rule XcpAllocOdtEntry_cases)
      (use ok cur XcpClearDaq_inv [of ?a] XcpClearDaq_inv [of s] in \<open>simp_all add: daq_inv_def alloc_entry_chains\<close>)
  then show ?thesis
    using tables ok(8) unwritten_sizes_ok [OF tables(1,4)] by (simp add: daq_inv_def cursor_ok_def)
qed

section \<open>The write cursor\<close>

lemma XcpSetDaqPtr_daq_inv:
  assumes inv: "daq_inv s"
  shows "daq_inv (snd (XcpSetDaqPtr daq odt idx s))"
proof (cases "daq < daq_count s \<and> int odt < DaqListOdtCount s daq \<and> \<not> isDaqRunning s
    \<and> int idx < DaqListOdtEntryCount s ((DaqListFirstOdt s daq + odt) mod 65536)")
  case False
  then have "snd (XcpSetDaqPtr daq odt idx s) = s"
    by (auto simp: XcpSetDaqPtr_def Let_def)
  then show ?thesis using inv by simp
next
  case True
  note ok = daq_invD [OF inv]
  let ?j = "(DaqListFirstOdt s daq + odt) mod 65536"
  let ?t = "s\<lparr>write_daq_odt_entry := (first_odt_entry s ?j + idx) mod 65536, write_daq_odt := ?j, write_daq_daq := daq\<rparr>"
  have t: "snd (XcpSetDaqPtr daq odt idx s) = ?t"
    using True by (simp add: XcpSetDaqPtr_def Let_def)
  have tab: "daq_tables_ok ?t = daq_tables_ok s" "daq_fresh ?t = daq_fresh s" "daq_lists_sep ?t = daq_lists_sep s"
    "odt_sizes_ok ?t = odt_sizes_ok s"
    by (rule daq_tables_cong; simp)+
  have "DaqListFirstOdt s daq \<le> ?j \<and> ?j \<le> DaqListLastOdt s daq
      \<and> first_odt_entry s ?j \<le> (first_odt_entry s ?j + idx) mod 65536" if O: "0 < odt_count s"
  proof -
    have j: "DaqListFirstOdt s daq + odt \<le> DaqListLastOdt s daq" "DaqListFirstOdt s daq + odt < odt_count s"
      using daq_list_odt_bound [OF ok(1) _ O] True by blast+
    then have J: "?j = DaqListFirstOdt s daq + odt" using odt_counts_bound [OF ok(1)] by simp
    have "first_odt_entry s ?j + idx \<le> last_odt_entry s ?j"
      using True by (simp add: DaqListOdtEntryCount_def)
    moreover have "last_odt_entry s ?j < 65536" by (simp add: odt_fields odt_rd16_def)
    ultimately have "(first_odt_entry s ?j + idx) mod 65536 = first_odt_entry s ?j + idx" by simp
    then show ?thesis using j J by simp
  qed
  then have "cursor_ok ?t"
    using True unfolding cursor_ok_def list_fields odt_fields by simp
  moreover have "daq \<noteq> 65535" using True daq_count_bound [OF ok(1)] by simp
  ultimately show ?thesis unfolding t
    using ok tab by (simp add: daq_inv_def chains_cong [of ?t s])
qed

section \<open>Writing ODT entries\<close>

definition add_entry_state :: "nat \<Rightarrow> nat \<Rightarrow> nat \<Rightarrow> nat \<Rightarrow> nat \<Rightarrow> nat \<Rightarrow> nat \<Rightarrow> nat
    \<Rightarrow> 'a xcp_daq_scheme \<Rightarrow> 'a xcp_daq_scheme" where
  "add_entry_state daq odt e base ext sz ev n s =
     (odt_entry_write e base ext sz (list_wr16 daq 4 ev (odt_wr16 odt 4 n s)))
       \<lparr>write_daq_odt_entry := (e + 1) mod 65536\<rparr>"

lemma add_entry_counts [simp]:
  "daq_count (add_entry_state daq odt e base ext sz ev n s) = daq_count s"
  "odt_count (add_entry_state daq odt e base ext sz ev n s) = odt_count s"
  "odt_entry_count (add_entry_state daq odt e base ext sz ev n s) = odt_entry_count s"
  "event (add_entry_state daq odt e base ext sz ev n s) = event s"
  "event_count (add_entry_state daq odt e base ext sz ev n s) = event_count s"
  "write_daq_daq (add_entry_state daq odt e base ext sz ev n s) = write_daq_daq s"
  "write_daq_odt (add_entry_state daq odt e base ext sz ev n s) = write_daq_odt s"
  "write_daq_odt_entry (add_entry_state daq odt e base ext sz ev n s) = (e + 1) mod 65536"
  by (simp_all add: add_entry_state_def daq_upd)

lemma add_entry_lists:
  assumes "i < daq_count s"
  shows "DaqListFirstOdt (add_entry_state daq odt e base ext sz ev n s) i = DaqListFirstOdt s i"
    "DaqListLastOdt (add_entry_state daq odt e base ext sz ev n s) i = DaqListLastOdt s i"
    "DaqListNext (add_entry_state daq odt e base ext sz ev n s) i = DaqListNext s i"
    "DaqListEventChannel (add_entry_state daq odt e base ext sz ev n s) i
      = (if i = daq then ev mod 65536 else DaqListEventChannel s i)"
  using assms by (auto simp: add_entry_state_def list_fields daq_upd)

lemma add_entry_odts:
  assumes "j < odt_count s" "daq < daq_count s"
  shows "first_odt_entry (add_entry_state daq odt e base ext sz ev n s) j = first_odt_entry s j"
    "last_odt_entry (add_entry_state daq odt e base ext sz ev n s) j = last_odt_entry s j"
    "odt_size (add_entry_state daq odt e base ext sz ev n s) j = (if j = odt then n mod 65536 else odt_size s j)"
  using assms by (auto simp: add_entry_state_def odt_fields daq_upd)

lemma add_entry_sizes:
  assumes "x < odt_entry_count s" "e < odt_entry_count s" "daq < daq_count s" "odt < odt_count s"
  shows "odt_entry_size (add_entry_state daq odt e base ext sz ev n s) x
    = (if x = e then sz mod 256 else odt_entry_size s x)"
proof -
  let ?u = "list_wr16 daq 4 ev (odt_wr16 odt 4 n s)"
  have "odt_entry_size (add_entry_state daq odt e base ext sz ev n s) x = odt_entry_size (odt_entry_write e base ext sz ?u) x"
    by (simp add: add_entry_state_def entry_fields table_defs)
  also have "\<dots> = (if x = e then sz mod 256 else odt_entry_size ?u x)"
    using assms by (simp add: entry_rd_entry_write daq_upd)
  also have "odt_entry_size ?u x = odt_entry_size s x"
    using assms by (simp add: daq_upd)
  finally show ?thesis .
qed

lemma add_entry_mem:
  assumes "e < odt_entry_count s" "daq < daq_count s" "odt < odt_count s" "daq_top s \<le> a"
  shows "daq_mem (add_entry_state daq odt e base ext sz ev n s) a = daq_mem s a"
  using assms by (simp add: add_entry_state_def odt_entry_write_def list_wr16_def odt_wr16_def
      wr16_at_other wr32_at_other table_defs daq_top_def)

text \<open>Replacing the size of one entry changes the sum of a list of distinct entries by the difference.\<close>

lemma sum_list_replace:
  assumes "distinct xs" "e \<in> set xs"
  shows "sum_list (map (\<lambda>x. if x = e then z else f x) xs) + f e = sum_list (map f xs) + (z :: nat)"
  using assms
proof (induction xs)
  case (Cons x xs)
  show ?case
  proof (cases "x = e")
    case True
    have eq: "map (\<lambda>x. if x = e then z else f x) xs = map f xs"
      using Cons.prems True by (intro map_cong) auto
    show ?thesis unfolding list.map sum_list.Cons eq using True by simp
  next
    case False
    then show ?thesis using Cons by simp
  qed
qed simp

lemma XcpAddOdtEntry_cases:
  assumes "\<And>base_offset event_id n. \<lbrakk>0 < sz; sz \<le> XCP_MAX_ODT_ENTRY_SIZE; 0 < odt_count s; 0 < odt_entry_count s;
      write_daq_daq s < daq_count s;
      int (write_daq_odt_entry s) - int (first_odt_entry s (write_daq_odt s)) < DaqListOdtEntryCount s (write_daq_odt s);
      odt_entry_target (DaqListEventChannel s (write_daq_daq s)) addr ext = Inr (base_offset, event_id);
      n = nat ((int (odt_size s (write_daq_odt s)) - int (odt_entry_size s (write_daq_odt_entry s)) + int sz) mod 65536);
      n \<le> XCPTL_MAX_DTO_SIZE - 4;
      (int (write_daq_odt s) - int (DaqListFirstOdt s (write_daq_daq s))) mod 65536 = 0 \<Longrightarrow> n \<le> XCPTL_MAX_DTO_SIZE - 8\<rbrakk>
      \<Longrightarrow> P (CRC_CMD_OK, add_entry_state (write_daq_daq s) (write_daq_odt s) (write_daq_odt_entry s)
            base_offset ext sz event_id n s)"
    and "\<And>c. c \<noteq> CRC_CMD_OK \<Longrightarrow> P (c, s)"
  shows "P (XcpAddOdtEntry addr ext sz s)"
proof (cases "\<exists>c. c \<noteq> CRC_CMD_OK \<and> XcpAddOdtEntry addr ext sz s = (c, s)")
  case True
  then show ?thesis using assms(2) by auto
next
  case False
  let ?n = "nat ((int (odt_size s (write_daq_odt s)) - int (odt_entry_size s (write_daq_odt_entry s)) + int sz) mod 65536)"
  have err: "odt_entry_target a b c = Inl x \<Longrightarrow> x \<noteq> CRC_CMD_OK" for a b c x
    by (auto simp: odt_entry_target_def split: if_splits)
  from False have g: "0 < sz" "sz \<le> XCP_MAX_ODT_ENTRY_SIZE" "0 < daq_count s" "0 < odt_count s" "0 < odt_entry_count s"
    "write_daq_daq s < daq_count s"
    "int (write_daq_odt_entry s) - int (first_odt_entry s (write_daq_odt s)) < DaqListOdtEntryCount s (write_daq_odt s)"
    "\<not> isDaqRunning s"
    by (auto simp: XcpAddOdtEntry_def not_le split: if_splits)
  from False g err obtain b ev where
    t: "odt_entry_target (DaqListEventChannel s (write_daq_daq s)) addr ext = Inr (b, ev)"
    by (cases "odt_entry_target (DaqListEventChannel s (write_daq_daq s)) addr ext")
      (auto simp: XcpAddOdtEntry_def Let_def)
  from False g t obtain s1 where s1: "XcpSetOdtSize (write_daq_daq s) (write_daq_odt s) ?n s = Some s1"
    by (cases "XcpSetOdtSize (write_daq_daq s) (write_daq_odt s) ?n s") (auto simp: XcpAddOdtEntry_def Let_def)
  then have sz: "?n \<le> XCPTL_MAX_DTO_SIZE - 4"
    "(int (write_daq_odt s) - int (DaqListFirstOdt s (write_daq_daq s))) mod 65536 = 0 \<Longrightarrow> ?n \<le> XCPTL_MAX_DTO_SIZE - 8"
    and "s1 = odt_wr16 (write_daq_odt s) 4 ?n s"
    by (auto simp: XcpSetOdtSize_def Let_def split: if_splits)
  then have "XcpAddOdtEntry addr ext sz s = (CRC_CMD_OK, add_entry_state (write_daq_daq s) (write_daq_odt s)
      (write_daq_odt_entry s) b ext sz ev ?n s)"
    using g t s1 by (simp add: XcpAddOdtEntry_def Let_def add_entry_state_def)
  then show ?thesis using assms(1) [OF g(1,2,4-7) t refl sz] by simp
qed

text \<open>The entry the cursor points to, and the size that \<open>XcpAddOdtEntry\<close> books for its ODT.\<close>

lemma cursor_entry:
  assumes inv: "daq_inv s" and w: "write_daq_daq s < daq_count s" and n0: "0 < odt_count s" "0 < odt_entry_count s"
    and g: "int (write_daq_odt_entry s) - int (first_odt_entry s (write_daq_odt s)) < DaqListOdtEntryCount s (write_daq_odt s)"
  shows "write_daq_odt s < odt_count s" "write_daq_odt_entry s \<in> set (odt_entries s (write_daq_odt s))"
    "write_daq_odt_entry s < odt_entry_count s"
proof -
  note ok = daq_invD [OF inv]
  have "write_daq_daq s \<noteq> 65535" using w daq_count_bound [OF ok(1)] by simp
  then have c: "write_daq_odt s \<le> DaqListLastOdt s (write_daq_daq s)"
    "first_odt_entry s (write_daq_odt s) \<le> write_daq_odt_entry s"
    using ok(6) n0 by (simp_all add: cursor_ok_def)
  then show j: "write_daq_odt s < odt_count s"
    using ok(1) w n0 by (fastforce simp: daq_tables_ok_def)
  show e: "write_daq_odt_entry s \<in> set (odt_entries s (write_daq_odt s))"
    using c g by (auto simp: odt_entries_def DaqListOdtEntryCount_def)
  then show "write_daq_odt_entry s < odt_entry_count s"
    using odt_entries_bound [OF ok(1) j n0(2)] by simp
qed

text \<open>The first ODT of a list is bounded by the smaller limit: an ODT that is first in some list is
  first in the list the cursor is in.\<close>

lemma cursor_first_odt:
  assumes inv: "daq_inv s" and w: "write_daq_daq s < daq_count s" and O: "0 < odt_count s"
    and i: "i < daq_count s" "DaqListFirstOdt s i = write_daq_odt s"
  shows "DaqListFirstOdt s (write_daq_daq s) = write_daq_odt s"
proof -
  note ok = daq_invD [OF inv]
  have "write_daq_daq s \<noteq> 65535" using w daq_count_bound [OF ok(1)] by simp
  then have c: "DaqListFirstOdt s (write_daq_daq s) \<le> write_daq_odt s"
    "write_daq_odt s \<le> DaqListLastOdt s (write_daq_daq s)"
    using ok(6) O by (simp_all add: cursor_ok_def)
  have fl: "DaqListFirstOdt s i \<le> DaqListLastOdt s i" using ok(1) i(1) unfolding daq_tables_ok_def by blast
  show ?thesis
  proof (cases "i = write_daq_daq s")
    case False
    then have "no_own_odt s i \<or> no_own_odt s (write_daq_daq s)"
      using ok(3) i w c fl by (fastforce simp: daq_lists_sep_def)
    then show ?thesis using c i by (auto simp: no_own_odt_def)
  qed (use i in simp)
qed

lemma odt_target_chan:
  assumes "odt_entry_target ev addr ext = Inr (b, ev')" "ev < 65536" "addr < 2 ^ 32"
  shows "ev' < 65536 \<and> (ev \<noteq> XCP_UNDEFINED_EVENT_ID \<longrightarrow> ev' = ev)"
  using assms by (auto simp: odt_entry_target_def XcpAddrDecodeDynEvent_def split: if_splits)

lemma add_entry_chains:
  assumes ch: "chains_ok s" and ec: "event_count s \<le> XCP_MAX_EVENT_COUNT" and ev: "ev < 65536"
    and keep: "DaqListEventChannel s daq \<noteq> XCP_UNDEFINED_EVENT_ID \<longrightarrow> ev = DaqListEventChannel s daq"
  shows "chains_ok (add_entry_state daq odt e base ext sz ev n s)"
proof -
  from ch obtain ch where c: "chains_by ch s" by (auto simp: chains_ok_def)
  then have "chains_by ch (add_entry_state daq odt e base ext sz ev n s)"
  proof (rule chains_by_cong)
    fix d e' assume "d < daq_count s" "e' < event_count s" "d \<in> set (ch e')"
    moreover from this have "DaqListEventChannel s d = e'" using c by (simp add: chains_by_def)
    ultimately show "DaqListEventChannel (add_entry_state daq odt e base ext sz ev n s) d = e'"
      using keep ev ec by (auto simp: add_entry_lists)
  qed (simp_all add: add_entry_lists DaqListFirst_def)
  then show ?thesis by (rule chains_ok_by)
qed

lemma XcpAddOdtEntry_daq_inv:
  assumes inv: "daq_inv s" and addr: "addr < 2 ^ 32"
  shows "daq_inv (snd (XcpAddOdtEntry addr ext sz s))"
proof (rule XcpAddOdtEntry_cases)
  fix base ev n
  let ?d = "write_daq_daq s" and ?j = "write_daq_odt s" and ?e = "write_daq_odt_entry s"
  let ?t = "add_entry_state ?d ?j ?e base ext sz ev n s"
  assume sz: "0 < sz" "sz \<le> XCP_MAX_ODT_ENTRY_SIZE" and n0: "0 < odt_count s" "0 < odt_entry_count s"
    and w: "?d < daq_count s"
    and g: "int ?e - int (first_odt_entry s ?j) < DaqListOdtEntryCount s ?j"
    and tgt: "odt_entry_target (DaqListEventChannel s ?d) addr ext = Inr (base, ev)"
    and n: "n = nat ((int (odt_size s ?j) - int (odt_entry_size s ?e) + int sz) mod 65536)"
    and n1: "n \<le> XCPTL_MAX_DTO_SIZE - 4"
    and n2: "(int ?j - int (DaqListFirstOdt s ?d)) mod 65536 = 0 \<Longrightarrow> n \<le> XCPTL_MAX_DTO_SIZE - 8"
  note ok = daq_invD [OF inv]
  note cur = cursor_entry [OF inv w n0 g]
  have ev: "ev < 65536 \<and> (DaqListEventChannel s ?d \<noteq> XCP_UNDEFINED_EVENT_ID \<longrightarrow> ev = DaqListEventChannel s ?d)"
    using odt_target_chan [OF tgt _ addr] by (simp add: list_fields list_rd16_def)
  have lists: "DaqListFirstOdt ?t i = DaqListFirstOdt s i" "DaqListLastOdt ?t i = DaqListLastOdt s i"
    if "i < daq_count s" for i using add_entry_lists [OF that] by simp_all
  have odts: "first_odt_entry ?t j = first_odt_entry s j" "last_odt_entry ?t j = last_odt_entry s j"
    "odt_size ?t j = (if j = ?j then n else odt_size s j)" if "j < odt_count s" for j
    using add_entry_odts [OF that w] n1 by simp_all
  have ents: "odt_entries ?t j = odt_entries s j" if "j < odt_count s" for j
    by (simp add: odt_entries_def odts [OF that])
  have esz: "odt_entry_size ?t x = (if x = ?e then sz else odt_entry_size s x)" if "x < odt_entry_count s" for x
    using add_entry_sizes [OF that cur(3) w cur(1)] sz by simp
  have t1: "daq_tables_ok ?t" using ok(1) lists odts by (simp add: daq_tables_ok_def daq_top_def)
  moreover have "daq_fresh ?t"
    using ok(2) add_entry_mem [OF cur(3) w cur(1)] by (simp add: daq_fresh_def daq_top_def)
  moreover have "daq_lists_sep ?t"
    using ok(3) lists by (simp add: daq_lists_sep_def no_own_odt_def)
  moreover have "odt_sizes_ok ?t"
  proof -
    have "odt_size ?t j = sum_list (map (odt_entry_size ?t) (odt_entries ?t j))"
      if j: "j < odt_count s" and p: "odt_private ?t j" for j
    proof -
      have ps: "odt_private s j" using p j ents by (simp add: odt_private_def)
      then have sum: "odt_size s j = sum_list (map (odt_entry_size s) (odt_entries s j))"
        using ok(4) j n0 by (simp add: odt_sizes_ok_def)
      have bnd: "x < odt_entry_count s" if "x \<in> set (odt_entries s j)" for x
        using odt_entries_bound [OF ok(1) j n0(2) that] .
      have m: "map (odt_entry_size ?t) (odt_entries s j)
          = map (\<lambda>x. if x = ?e then sz else odt_entry_size s x) (odt_entries s j)"
        using bnd esz by (intro map_cong) auto
      show ?thesis
      proof (cases "j = ?j")
        case True
        have r: "sum_list (map (\<lambda>x. if x = ?e then sz else odt_entry_size s x) (odt_entries s j))
            + odt_entry_size s ?e = odt_size s j + sz"
          unfolding sum by (rule sum_list_replace) (use True cur(2) in \<open>simp_all add: odt_entries_def\<close>)
        have "odt_size s ?j \<le> XCPTL_MAX_DTO_SIZE - 4" using ok(4) cur(1) by (simp add: odt_sizes_ok_def)
        moreover have "odt_entry_size s ?e \<le> odt_size s j"
          unfolding sum using True cur(2) by (simp add: member_le_sum_list)
        ultimately have "n + odt_entry_size s ?e = odt_size s j + sz"
          unfolding n using True sz by (simp add: nat_mod_as_int)
        then have "n = sum_list (map (\<lambda>x. if x = ?e then sz else odt_entry_size s x) (odt_entries s j))"
          using r by simp
        then show ?thesis using True unfolding ents [OF j] m odts(3) [OF j] by simp
      next
        case False
        then have "?e \<notin> set (odt_entries s j)"
          using ps cur by (fastforce simp: odt_private_def)
        then have m': "map (\<lambda>x. if x = ?e then sz else odt_entry_size s x) (odt_entries s j)
            = map (odt_entry_size s) (odt_entries s j)" by (intro map_cong) auto
        show ?thesis using False sum unfolding ents [OF j] m m' odts(3) [OF j] by simp
      qed
    qed
    moreover have "odt_size ?t j \<le> XCPTL_MAX_DTO_SIZE - 4" if "j < odt_count s" for j
      using ok(4) that odts n1 by (simp add: odt_sizes_ok_def)
    moreover have "odt_size ?t (DaqListFirstOdt ?t i) \<le> XCPTL_MAX_DTO_SIZE - 8" if i: "i < daq_count s" for i
    proof -
      have "DaqListFirstOdt s i < odt_count s" using ok(1) i n0 by (fastforce simp: daq_tables_ok_def)
      then show ?thesis
        using ok(4) i n0 n2 cursor_first_odt [OF inv w n0(1) i]
        by (cases "DaqListFirstOdt s i = ?j") (simp_all add: odt_sizes_ok_def lists odts)
    qed
    ultimately show ?thesis by (simp add: odt_sizes_ok_def)
  qed
  moreover have "chains_ok ?t"
    using add_entry_chains [OF ok(5,8)] ev by blast
  moreover have "?e + 1 < 65536" using cur(3) odt_counts_bound [OF ok(1)] by simp
  moreover have "write_daq_daq s \<noteq> 65535" using w daq_count_bound [OF ok(1)] by simp
  ultimately show "daq_inv (snd (CRC_CMD_OK, ?t))"
    using ok(6,8) w n0 cur(1) by (simp add: daq_inv_def cursor_ok_def lists odts)
qed (use inv in simp)

section \<open>Linking a list to its event\<close>

definition mode_state :: "nat \<Rightarrow> nat \<Rightarrow> nat \<Rightarrow> nat \<Rightarrow> 'a xcp_daq_scheme \<Rightarrow> 'a xcp_daq_scheme" where
  "mode_state daq ev mode prio s = list_wr8 daq 10 (of_nat prio) (list_wr8 daq 8 (of_nat mode) (list_wr16 daq 4 ev s))"

lemma mode_state_counts [simp]:
  "daq_count (mode_state daq ev mode prio s) = daq_count s" "odt_count (mode_state daq ev mode prio s) = odt_count s"
  "odt_entry_count (mode_state daq ev mode prio s) = odt_entry_count s"
  "event (mode_state daq ev mode prio s) = event s" "event_count (mode_state daq ev mode prio s) = event_count s"
  "write_daq_daq (mode_state daq ev mode prio s) = write_daq_daq s"
  "write_daq_odt (mode_state daq ev mode prio s) = write_daq_odt s"
  "write_daq_odt_entry (mode_state daq ev mode prio s) = write_daq_odt_entry s"
  by (simp_all add: mode_state_def daq_upd)

text \<open>Changes confined to the event, next, mode and priority fields of the lists keep the tables.\<close>

definition same_tables :: "'a xcp_daq_scheme \<Rightarrow> 'a xcp_daq_scheme \<Rightarrow> bool" where
  "same_tables t s \<longleftrightarrow> daq_count t = daq_count s \<and> odt_count t = odt_count s \<and> odt_entry_count t = odt_entry_count s
     \<and> event_count t = event_count s \<and> write_daq_daq t = write_daq_daq s \<and> write_daq_odt t = write_daq_odt s
     \<and> write_daq_odt_entry t = write_daq_odt_entry s
     \<and> (\<forall>a \<ge> 12 * daq_count s. daq_mem t a = daq_mem s a)
     \<and> (\<forall>i < daq_count s. DaqListFirstOdt t i = DaqListFirstOdt s i \<and> DaqListLastOdt t i = DaqListLastOdt s i)"

lemma same_tables_inv:
  assumes same: "same_tables t s" and inv: "daq_inv s" and ch: "chains_ok t"
  shows "daq_inv t"
proof -
  note ok = daq_invD [OF inv] and st = same [unfolded same_tables_def]
  have tab: "DaqListOdtTable t = DaqListOdtTable s" "DaqListOdtEntryAddrTable t = DaqListOdtEntryAddrTable s"
    "DaqListOdtEntrySizeTable t = DaqListOdtEntrySizeTable s" "daq_top t = daq_top s"
    "12 * daq_count s \<le> daq_top s"
    using st by (simp_all add: table_defs daq_top_def)
  have rd: "odt_rd16 t j k = odt_rd16 s j k" for j k
    using st tab(1) by (simp add: odt_rd16_def rd16_def table_defs)
  have odts: "first_odt_entry t j = first_odt_entry s j" "last_odt_entry t j = last_odt_entry s j"
    "odt_size t j = odt_size s j" for j by (simp_all add: odt_fields rd)
  have esz: "odt_entry_size t = odt_entry_size s"
    using st tab(3) by (intro ext) (simp add: odt_entry_size_def table_defs)
  have ents: "odt_entries t j = odt_entries s j" for j by (simp add: odt_entries_def odts)
  have "daq_tables_ok t" using ok(1) st odts tab(4) by (simp add: daq_tables_ok_def)
  moreover have "daq_fresh t" using ok(2) st tab(4,5) by (simp add: daq_fresh_def)
  moreover have "daq_lists_sep t" using ok(3) st by (simp add: daq_lists_sep_def no_own_odt_def)
  moreover have "odt_sizes_ok t" using ok(4) st odts ents esz by (simp add: odt_sizes_ok_def odt_private_def)
  moreover have "cursor_ok t" using ok(6) st odts by (auto simp: cursor_ok_def)
  moreover have "write_daq_daq t = 65535 \<Longrightarrow> daq_unwritten t"
    using ok(7) st odts tab(2) by (simp add: daq_unwritten_def table_defs)
  ultimately show ?thesis using ch st ok(8) by (simp add: daq_inv_def)
qed

lemma same_tables_refl [simp]: "same_tables s s"
  by (simp add: same_tables_def)

lemma same_tables_trans: "same_tables u t \<Longrightarrow> same_tables t s \<Longrightarrow> same_tables u s"
  by (simp add: same_tables_def)

lemma same_tables_wr:
  "i < daq_count s \<Longrightarrow> k = 4 \<or> k = 6 \<Longrightarrow> same_tables (list_wr16 i k v s) s"
  "i < daq_count s \<Longrightarrow> 8 \<le> k \<Longrightarrow> k < 12 \<Longrightarrow> same_tables (list_wr8 i k w s) s"
  "same_tables (set_daq_first e d s) s"
proof -
  assume i: "i < daq_count s"
  show "k = 4 \<or> k = 6 \<Longrightarrow> same_tables (list_wr16 i k v s) s"
    using i by (auto simp: same_tables_def list_wr_frame list_fields list_rd16_wr16)
      (simp_all add: list_wr16_def wr16_at_other)
  show "8 \<le> k \<Longrightarrow> k < 12 \<Longrightarrow> same_tables (list_wr8 i k w s) s"
    using i by (auto simp: same_tables_def list_wr_frame list_fields list_rd16_wr8) (simp_all add: list_wr8_def)
next
  show "same_tables (set_daq_first e d s) s"
    by (simp add: same_tables_def set_daq_first_def list_fields list_rd16_def)
qed

lemma mode_state_same: "daq < daq_count s \<Longrightarrow> same_tables (mode_state daq ev mode prio s) s"
  unfolding mode_state_def
  by (intro same_tables_trans [OF same_tables_wr(2) same_tables_trans [OF same_tables_wr(2) same_tables_wr(1)]])
    (simp_all add: daq_upd)

lemma mode_state_lists:
  "ev < 65536 \<Longrightarrow> DaqListEventChannel (mode_state daq ev mode prio s) i = (if i = daq then ev else DaqListEventChannel s i)"
  "DaqListNext (mode_state daq ev mode prio s) i = DaqListNext s i"
  "DaqListFirst (mode_state daq ev mode prio s) x = DaqListFirst s x"
  by (auto simp: mode_state_def list_fields daq_upd DaqListFirst_def)

lemma mode_state_chains:
  assumes ch: "chains_by ch s" and ec: "event_count s \<le> XCP_MAX_EVENT_COUNT" and ev: "ev < event_count s"
    and keep: "DaqListEventChannel s daq \<noteq> XCP_UNDEFINED_EVENT_ID \<longrightarrow> ev = DaqListEventChannel s daq"
  shows "chains_by ch (mode_state daq ev mode prio s)"
  using ch
proof (rule chains_by_cong)
  fix d e' assume "d < daq_count s" "e' < event_count s" "d \<in> set (ch e')"
  moreover from this have "DaqListEventChannel s d = e'" using ch by (simp add: chains_by_def)
  ultimately show "DaqListEventChannel (mode_state daq ev mode prio s) d = e'"
    using keep ev ec by (auto simp: mode_state_lists)
qed (simp_all add: mode_state_lists)

text \<open>On a configuration that satisfies the invariant the append loop returns, and it links the list to
  its event once.\<close>

lemma XcpSetDaqListMode_link:
  assumes ch: "chains_by ch s" and ec: "event_count s \<le> XCP_MAX_EVENT_COUNT"
    and D: "daq < daq_count s" "daq_count s < XCP_UNDEFINED_DAQ_LIST" and ev: "ev < event_count s"
    and keep: "DaqListEventChannel s daq \<noteq> XCP_UNDEFINED_EVENT_ID \<longrightarrow> ev = DaqListEventChannel s daq"
  shows "\<exists>t. link_daq ev daq None (DaqListFirst (mode_state daq ev mode prio s) ev) (mode_state daq ev mode prio s) = Some t
    \<and> chains_by (if daq \<in> set (ch ev) then ch else ch(ev := ch ev @ [daq])) t
    \<and> same_tables t s \<and> DaqListEventChannel t daq = ev"
proof -
  let ?m = "mode_state daq ev mode prio s"
  let ?l = "if ch ev = [] then None else Some (last (ch ev))"
  have cm: "chains_by ch ?m" using mode_state_chains [OF ch ec ev keep] .
  then have c: "daq_chain ?m (DaqListFirst ?m ev) (ch ev)" and mem: "\<And>d. d \<in> set (ch ev) \<Longrightarrow> d < daq_count s"
    using ev by (simp_all add: chains_by_def)
  have chan: "DaqListEventChannel ?m daq = ev" using ev ec by (simp add: mode_state_lists)
  have same: "same_tables ?m s" using mode_state_same D by blast
  show ?thesis
  proof (cases "daq \<in> set (ch ev)")
    case True
    then show ?thesis using link_daq_chain [OF c] cm same chan by auto
  next
    case False
    have "chains_by (ch(ev := ch ev @ [daq])) (set_daq_link ev ?l daq ?m)"
      by (rule set_daq_link_chains) (use cm ev D chan False in simp_all)
    moreover have "same_tables (set_daq_link ev ?l daq ?m) ?m"
      using mem last_in_set [of "ch ev"] by (auto simp: set_daq_link_def intro: same_tables_wr)
    moreover have "DaqListEventChannel (set_daq_link ev ?l daq ?m) daq = ev"
      using chan by (simp add: set_daq_link_def set_daq_first_def list_fields daq_upd) (simp add: list_rd16_def)
    ultimately show ?thesis
      using link_daq_chain [OF c] False same same_tables_trans by auto
  qed
qed

lemma XcpSetDaqListMode_cases:
  assumes inv: "daq_inv s"
    and ok: "\<And>t. daq < daq_count s \<Longrightarrow> event_id < event_count s \<Longrightarrow> isActivated s \<Longrightarrow> daq_inv t \<Longrightarrow>
      same_tables t s \<Longrightarrow> DaqListEventChannel t daq = event_id \<Longrightarrow> P (Some (CRC_CMD_OK, t))"
    and err: "\<And>c. c \<noteq> CRC_CMD_OK \<Longrightarrow> P (Some (c, s))"
  shows "P (XcpSetDaqListMode daq event_id mode prescaler prio s)"
proof (cases "daq < daq_count s \<and> prescaler \<le> 1 \<and> XcpGetEvent s event_id \<noteq> None
    \<and> (DaqListEventChannel s daq \<noteq> XCP_UNDEFINED_EVENT_ID \<longrightarrow> event_id = DaqListEventChannel s daq)")
  case True
  note i = daq_invD [OF inv]
  from True have e: "event_id < event_count s" "isActivated s" by (auto simp: XcpGetEvent_def split: if_splits)
  from i(5) obtain ch where ch: "chains_by ch s" by (auto simp: chains_ok_def)
  have D: "daq_count s < XCP_UNDEFINED_DAQ_LIST" using daq_count_bound [OF i(1)] by simp
  from XcpSetDaqListMode_link [OF ch i(8) _ D e(1), of daq mode prio] True obtain t where
    t: "link_daq event_id daq None (DaqListFirst (mode_state daq event_id mode prio s) event_id)
        (mode_state daq event_id mode prio s) = Some t"
      "chains_ok t" "same_tables t s" "DaqListEventChannel t daq = event_id"
    using chains_ok_by by blast
  have "XcpSetDaqListMode daq event_id mode prescaler prio s = Some (CRC_CMD_OK, t)"
    using True t(1) by (auto simp: XcpSetDaqListMode_def Let_def mode_state_def)
  then show ?thesis using ok [OF _ e same_tables_inv [OF t(3) inv t(2)] t(3,4)] True by simp
next
  case False
  then have "\<exists>c. c \<noteq> CRC_CMD_OK \<and> XcpSetDaqListMode daq event_id mode prescaler prio s = Some (c, s)"
    by (auto simp: XcpSetDaqListMode_def)
  then show ?thesis using err by auto
qed

end
