(* ===== verification/Xcp_Daq_Run.thy ===== *)
theory Xcp_Daq_Run
  imports Xcp_Daq_Inv
begin

text \<open>
  Starting and stopping: \<^verbatim>\<open>XcpStartDaq\<close>, \<^verbatim>\<open>XcpStopDaq\<close>, the functions for one
  and for all selected DAQ lists, and \<^verbatim>\<open>XcpIsDaqEventRunning\<close> (\<^verbatim>\<open>src/src/xcplite.c\<close>).
  The start and stop callbacks of the application do not touch the XCP state; the clock value is an
  argument. Loops over the lists are folds, in the order of the code.
\<close>

section \<open>Operations\<close>

abbreviation (input) DAQ_STATE_STOPPED_UNSELECTED :: u8 where "DAQ_STATE_STOPPED_UNSELECTED \<equiv> 0"
abbreviation (input) DAQ_STATE_SELECTED :: u8 where "DAQ_STATE_SELECTED \<equiv> 1"
abbreviation (input) DAQ_STATE_RUNNING :: u8 where "DAQ_STATE_RUNNING \<equiv> 2"
abbreviation (input) DAQ_STATE_OVERRUN :: u8 where "DAQ_STATE_OVERRUN \<equiv> 4"

definition set_list_state :: "nat \<Rightarrow> u8 \<Rightarrow> 'a xcp_daq_scheme \<Rightarrow> 'a xcp_daq_scheme" where
  "set_list_state daq v s = list_wr8 daq 9 v s"

definition list_selected :: "'a xcp_daq_scheme \<Rightarrow> nat \<Rightarrow> bool" where
  "list_selected s d \<longleftrightarrow> DaqListState s d AND DAQ_STATE_SELECTED \<noteq> 0"

definition list_running :: "'a xcp_daq_scheme \<Rightarrow> nat \<Rightarrow> bool" where
  "list_running s d \<longleftrightarrow> DaqListState s d AND DAQ_STATE_RUNNING \<noteq> 0"

definition XcpIsDaqEventRunning :: "nat \<Rightarrow> 'a xcp_daq_scheme \<Rightarrow> bool" where
  "XcpIsDaqEventRunning ev s \<longleftrightarrow> isDaqRunning s \<and>
     list_ex (\<lambda>d. list_running s d \<and> DaqListEventChannel s d = ev) [0..<daq_count s]"

definition XcpStartDaq :: "nat \<Rightarrow> 'a xcp_daq_scheme \<Rightarrow> 'a xcp_daq_scheme" where
  "XcpStartDaq clock s = (if isDaqRunning s then s
     else s\<lparr>daq_start_clock := clock, daq_overflow_count := 0,
            session_status := session_status s OR SS_DAQ, daq_running := True\<rparr>)"

definition XcpStopDaq :: "'a xcp_daq_scheme \<Rightarrow> 'a xcp_daq_scheme" where
  "XcpStopDaq s = fold (\<lambda>d. set_list_state d DAQ_STATE_STOPPED_UNSELECTED) [0..<daq_count s]
     (s\<lparr>session_status := session_status s AND NOT SS_DAQ, daq_running := False\<rparr>)"

definition XcpStartDaqList :: "nat \<Rightarrow> 'a xcp_daq_scheme \<Rightarrow> 'a xcp_daq_scheme" where
  "XcpStartDaqList daq s = set_list_state daq (DaqListState s daq OR DAQ_STATE_RUNNING) s"

definition XcpStartSelectedDaqLists :: "'a xcp_daq_scheme \<Rightarrow> 'a xcp_daq_scheme" where
  "XcpStartSelectedDaqLists s = fold (\<lambda>d t. if list_selected t d
       then XcpStartDaqList d (set_list_state d (DaqListState t d AND NOT DAQ_STATE_SELECTED) t) else t)
     [0..<daq_count s] s"

definition XcpStopDaqList :: "nat \<Rightarrow> 'a xcp_daq_scheme \<Rightarrow> 'a xcp_daq_scheme" where
  "XcpStopDaqList daq s =
     (let t = set_list_state daq (DaqListState s daq AND NOT (DAQ_STATE_OVERRUN OR DAQ_STATE_RUNNING)) s in
      if list_ex (list_running t) [0..<daq_count t] then t else XcpStopDaq t)"

definition XcpStopSelectedDaqLists :: "'a xcp_daq_scheme \<Rightarrow> 'a xcp_daq_scheme" where
  "XcpStopSelectedDaqLists s = fold (\<lambda>d t. if list_selected t d
       then set_list_state d DAQ_STATE_STOPPED_UNSELECTED (XcpStopDaqList d t) else t)
     [0..<daq_count s] s"

section \<open>Frames\<close>

lemma set_list_state_frame [simp]:
  "daq_count (set_list_state d v s) = daq_count s" "daq_running (set_list_state d v s) = daq_running s"
  "session_status (set_list_state d v s) = session_status s" "event (set_list_state d v s) = event s"
  "event_count (set_list_state d v s) = event_count s"
  by (simp_all add: set_list_state_def daq_upd)

lemma set_list_state_read [simp]:
  "DaqListState (set_list_state d v s) i = (if i = d then v else DaqListState s i)"
  "DaqListEventChannel (set_list_state d v s) i = DaqListEventChannel s i"
  "DaqListNext (set_list_state d v s) i = DaqListNext s i"
  by (auto simp: set_list_state_def list_fields daq_upd)

lemma set_list_state_same: "d < daq_count s \<Longrightarrow> same_tables (set_list_state d v s) s"
  by (simp add: set_list_state_def same_tables_wr)

lemma set_list_state_chains:
  assumes "chains_ok s"
  shows "chains_ok (set_list_state d v s)"
proof -
  from assms obtain ch where "chains_by ch s" by (auto simp: chains_ok_def)
  then have "chains_by ch (set_list_state d v s)"
    by (rule chains_by_cong) (use \<open>chains_by ch s\<close> in \<open>auto simp: DaqListFirst_def chains_by_def\<close>)
  then show ?thesis by (rule chains_ok_by)
qed

lemma set_list_state_inv: "daq_inv s \<Longrightarrow> d < daq_count s \<Longrightarrow> daq_inv (set_list_state d v s)"
  using same_tables_inv [OF set_list_state_same] set_list_state_chains daq_invD(5) by blast

text \<open>Folds of state changes over the lists below the count.\<close>

lemma fold_lists_inv:
  assumes "\<And>d t. d \<in> set ds \<Longrightarrow> daq_inv t \<Longrightarrow> daq_count t = n \<Longrightarrow> daq_inv (f d t) \<and> daq_count (f d t) = n"
    and "daq_inv s" "daq_count s = n"
  shows "daq_inv (fold f ds s) \<and> daq_count (fold f ds s) = n"
  using assms by (induction ds arbitrary: s) auto

lemma status_inv: "daq_inv (s\<lparr>session_status := a, daq_running := b\<rparr>) = daq_inv s"
  by (rule daq_inv_cong) simp_all

lemma XcpStopDaq_inv: "daq_inv s \<Longrightarrow> daq_inv (XcpStopDaq s) \<and> daq_count (XcpStopDaq s) = daq_count s"
  unfolding XcpStopDaq_def by (rule fold_lists_inv) (auto simp: set_list_state_inv status_inv)

lemma XcpStartDaq_inv: "daq_inv (XcpStartDaq clock s) = daq_inv s"
  by (rule daq_inv_cong) (simp_all add: XcpStartDaq_def)

lemma XcpStartDaqList_inv: "daq_inv s \<Longrightarrow> d < daq_count s \<Longrightarrow> daq_inv (XcpStartDaqList d s)"
  by (simp add: XcpStartDaqList_def set_list_state_inv)

lemma XcpStartSelected_inv:
  "daq_inv s \<Longrightarrow> daq_inv (XcpStartSelectedDaqLists s) \<and> daq_count (XcpStartSelectedDaqLists s) = daq_count s"
  unfolding XcpStartSelectedDaqLists_def
  by (rule fold_lists_inv) (auto simp: XcpStartDaqList_def set_list_state_inv)

lemma XcpStopDaqList_inv:
  "daq_inv s \<Longrightarrow> d < daq_count s \<Longrightarrow> daq_inv (XcpStopDaqList d s) \<and> daq_count (XcpStopDaqList d s) = daq_count s"
  by (simp add: XcpStopDaqList_def Let_def set_list_state_inv XcpStopDaq_inv)

lemma XcpStopSelected_inv:
  "daq_inv s \<Longrightarrow> daq_inv (XcpStopSelectedDaqLists s) \<and> daq_count (XcpStopSelectedDaqLists s) = daq_count s"
  unfolding XcpStopSelectedDaqLists_def
  by (rule fold_lists_inv) (auto simp: set_list_state_inv XcpStopDaqList_inv)

section \<open>Behaviour\<close>

lemma fold_set_list_state:
  "DaqListState (fold (\<lambda>d. set_list_state d v) ds s) i = (if i \<in> set ds then v else DaqListState s i)"
  by (induction ds arbitrary: s) auto

lemma fold_set_list_frame:
  "daq_count (fold (\<lambda>d. set_list_state d v) ds s) = daq_count s"
  "daq_running (fold (\<lambda>d. set_list_state d v) ds s) = daq_running s"
  "session_status (fold (\<lambda>d. set_list_state d v) ds s) = session_status s"
  by (induction ds arbitrary: s) auto

lemma XcpStopDaq_state:
  "\<not> daq_running (XcpStopDaq s)" "daq_count (XcpStopDaq s) = daq_count s"
  "i < daq_count s \<Longrightarrow> DaqListState (XcpStopDaq s) i = 0"
  "session_status (XcpStopDaq s) = session_status s AND NOT SS_DAQ"
  by (simp_all add: XcpStopDaq_def fold_set_list_state fold_set_list_frame)

lemma state_bits:
  "((v :: u8) AND NOT 1 OR 2) AND 2 \<noteq> 0" "((v :: u8) AND NOT 1 OR 2) AND 1 = 0"
proof -
  have "bit ((v AND NOT 1 OR 2) AND 2) 1"
    by (simp add: bit_and_iff bit_or_iff bit_not_iff bit_numeral_rec)
  then show "(v AND NOT 1 OR 2) AND 2 \<noteq> 0" by (metis bit_0_eq bot_apply bot_bool_def)
  show "(v AND NOT 1 OR 2) AND 1 = 0"
    by (rule bit_eqI) (auto simp: bit_and_iff bit_or_iff bit_not_iff bit_numeral_rec bit_1_iff split: nat.splits)
qed

text \<open>Starting the selected lists: exactly those become running, and none stays selected.\<close>

lemma fold_state_map:
  assumes step: "\<And>t d i. DaqListState (f d t) i = (if i = d then g (DaqListState t d) else DaqListState t i)"
    and "distinct ds"
  shows "DaqListState (fold f ds s) i = (if i \<in> set ds then g (DaqListState s i) else DaqListState s i)"
  using assms(2)
proof (induction ds arbitrary: s)
  case (Cons d ds)
  then show ?case using step [of d s i] by (cases "i = d") simp_all
qed simp

definition started_state :: "u8 \<Rightarrow> u8" where
  "started_state v = (if v AND DAQ_STATE_SELECTED \<noteq> 0 then v AND NOT DAQ_STATE_SELECTED OR DAQ_STATE_RUNNING else v)"

lemma XcpStartSelected_state:
  "i < daq_count s \<Longrightarrow> DaqListState (XcpStartSelectedDaqLists s) i
   = started_state (DaqListState s i)"
  unfolding XcpStartSelectedDaqLists_def
  by (subst fold_state_map [where g = started_state])
    (auto simp: started_state_def list_selected_def XcpStartDaqList_def)

text \<open>Stopping a list leaves event processing on exactly when another list still runs.\<close>

lemma state_stop_bits: "((v :: u8) AND NOT (4 OR 2)) AND 2 = 0"
  by (simp add: and.assoc)

lemma XcpStopDaqList_state:
  assumes "daq < daq_count s"
  shows "\<not> list_running (XcpStopDaqList daq s) daq"
    and "(\<exists>i < daq_count s. i \<noteq> daq \<and> list_running s i) \<Longrightarrow> daq_running (XcpStopDaqList daq s) = daq_running s"
    and "\<not> (\<exists>i < daq_count s. i \<noteq> daq \<and> list_running s i) \<Longrightarrow> \<not> daq_running (XcpStopDaqList daq s)"
proof -
  let ?t = "set_list_state daq (DaqListState s daq AND NOT (DAQ_STATE_OVERRUN OR DAQ_STATE_RUNNING)) s"
  have r: "list_running ?t i = (i \<noteq> daq \<and> list_running s i)" for i
    using state_stop_bits by (simp add: list_running_def)
  have e: "list_ex (list_running ?t) [0..<daq_count ?t] = (\<exists>i < daq_count s. i \<noteq> daq \<and> list_running s i)"
    unfolding list_ex_iff r by auto
  show "\<not> list_running (XcpStopDaqList daq s) daq"
    using assms r [of daq] by (auto simp: XcpStopDaqList_def Let_def list_running_def XcpStopDaq_state)
  show "(\<exists>i < daq_count s. i \<noteq> daq \<and> list_running s i) \<Longrightarrow> daq_running (XcpStopDaqList daq s) = daq_running s"
    unfolding XcpStopDaqList_def Let_def e by simp
  show "\<not> (\<exists>i < daq_count s. i \<noteq> daq \<and> list_running s i) \<Longrightarrow> \<not> daq_running (XcpStopDaqList daq s)"
    unfolding XcpStopDaqList_def Let_def e by (auto simp: XcpStopDaq_state)
qed

end
