(* ===== verification/Xcp_Cal.thy ===== *)
theory Xcp_Cal
  imports Xcp_Daq_Run
begin

text \<open>
  Calibration segments (\<^verbatim>\<open>src/src/cal.c\<close>, \<^verbatim>\<open>src/src/cal.h\<close>): the memory pool, the
  creation and lookup of segments, and the page hand-over of the default RCU (lock count); the operations of
  the client follow in \<^verbatim>\<open>Xcp_Cal_Ops\<close>. A segment lies in the pool at
  the offset that the segment list stores; its pages are addressed by offsets into its own data block
  \<open>seg_mem\<close> (reference page, then three RAM pages). Functions run one at a time here; the retry loop of
  \<^verbatim>\<open>CalSegPublish\<close> takes the reader operations that run between two attempts as an argument. A value \<open>None\<close> of the creation functions is the
  dereference of the null pointer that an exhausted pool returns.
\<close>

section \<open>State\<close>

abbreviation (input) XCP_MAX_CALSEG_COUNT :: nat where "XCP_MAX_CALSEG_COUNT \<equiv> 8"
abbreviation (input) XCP_MAX_CALSEG_NAME :: nat where "XCP_MAX_CALSEG_NAME \<equiv> 23"
abbreviation (input) XCP_CAL_MEM_SIZE :: nat where "XCP_CAL_MEM_SIZE \<equiv> 5120"
abbreviation (input) XCP_CALSEG_HEADER_SIZE :: nat where "XCP_CALSEG_HEADER_SIZE \<equiv> 64"
abbreviation (input) XCP_CALPAGE_ALIGNMENT :: nat where "XCP_CALPAGE_ALIGNMENT \<equiv> 8"
abbreviation (input) CALSEG_PAGE_COUNT :: nat where "CALSEG_PAGE_COUNT \<equiv> 4"
abbreviation (input) XCP_UNDEFINED_CALSEG :: nat where "XCP_UNDEFINED_CALSEG \<equiv> 0xFFFF"
abbreviation (input) XCP_UNDEFINED_CALSEG_NUM :: nat where "XCP_UNDEFINED_CALSEG_NUM \<equiv> 0xFF"
abbreviation (input) XCP_CALSEG_NO_PAGE :: nat where "XCP_CALSEG_NO_PAGE \<equiv> 0xFFFFFFFF"
abbreviation (input) XCP_CALPAGE_WORKING_PAGE :: nat where "XCP_CALPAGE_WORKING_PAGE \<equiv> 0"
abbreviation (input) XCP_CALPAGE_DEFAULT_PAGE :: nat where "XCP_CALPAGE_DEFAULT_PAGE \<equiv> 1"
abbreviation (input) XCP_CALPAGE_INVALID_PAGE :: nat where "XCP_CALPAGE_INVALID_PAGE \<equiv> 0xFF"
abbreviation (input) PAG_PROPERTY_FREEZE :: u8 where "PAG_PROPERTY_FREEZE \<equiv> 1"
abbreviation (input) PAG_PROPERTY_PRELOAD :: u8 where "PAG_PROPERTY_PRELOAD \<equiv> 2"
abbreviation (input) CAL_PAGE_MODE_ECU :: u8 where "CAL_PAGE_MODE_ECU \<equiv> 1"
abbreviation (input) CAL_PAGE_MODE_XCP :: u8 where "CAL_PAGE_MODE_XCP \<equiv> 2"
abbreviation (input) CAL_PAGE_MODE_ALL :: u8 where "CAL_PAGE_MODE_ALL \<equiv> 0x80"

record tXcpCalSeg =
  ecu_page_next :: nat
  free_page :: nat
  ecu_page :: nat
  xcp_page :: nat
  file_pos :: nat
  lock_count :: nat
  seg_bytes :: nat
  ecu_access :: nat
  xcp_access :: nat
  write_pending :: bool
  free_page_hazard :: bool
  calseg_number :: nat
  seg_mode :: u8
  calseg_name :: string
  seg_mem :: bytes

record xcp_cal = xcp_daq +
  calseg_offset :: "nat \<Rightarrow> nat"
  calseg_count :: nat
  memory_segment_count :: nat
  write_delayed :: bool
  cal_mem_used :: nat
  cal_pool :: "nat \<Rightarrow> tXcpCalSeg"

definition CalSegPtr :: "'a xcp_cal_scheme \<Rightarrow> nat \<Rightarrow> tXcpCalSeg" where
  "CalSegPtr s i = cal_pool s (calseg_offset s i)"

definition upd_calseg :: "nat \<Rightarrow> (tXcpCalSeg \<Rightarrow> tXcpCalSeg) \<Rightarrow> 'a xcp_cal_scheme \<Rightarrow> 'a xcp_cal_scheme" where
  "upd_calseg i f s = s\<lparr>cal_pool := (cal_pool s)(calseg_offset s i := f (CalSegPtr s i))\<rparr>"

definition CalSegAlignedPageSize :: "tXcpCalSeg \<Rightarrow> nat" where
  "CalSegAlignedPageSize c = align_up XCP_CALPAGE_ALIGNMENT (seg_bytes c)"

section \<open>Byte copies\<close>

definition mem_copy :: "nat \<Rightarrow> nat \<Rightarrow> nat \<Rightarrow> bytes \<Rightarrow> bytes" where
  "mem_copy dst src n m = mem_set dst (mem_get src n m) m"

lemma mem_get_copy [mem_simps]: "mem_get dst n (mem_copy dst src n m) = mem_get src n m"
  by (metis mem_copy_def mem_get_set_same mem_get_length)

lemma mem_get_copy_other [mem_simps]:
  "a + k \<le> dst \<or> dst + n \<le> a \<Longrightarrow> mem_get a k (mem_copy dst src n m) = mem_get a k m"
  by (simp add: mem_copy_def mem_get_set_other)

section \<open>The memory pool and the segment list\<close>

definition XcpCalMemAlloc :: "nat \<Rightarrow> 'a xcp_cal_scheme \<Rightarrow> nat option \<times> 'a xcp_cal_scheme" where
  "XcpCalMemAlloc sz s =
     (let new_used = (cal_mem_used s + sz) mod 2 ^ 32 in
      if XCP_CAL_MEM_SIZE < new_used then (None, s) else (Some (cal_mem_used s), s\<lparr>cal_mem_used := new_used\<rparr>))"

definition XcpInitCalSegList :: "'a xcp_cal_scheme \<Rightarrow> 'a xcp_cal_scheme" where
  "XcpInitCalSegList s = s\<lparr>calseg_count := 0, cal_mem_used := 0, memory_segment_count := 0, write_delayed := False\<rparr>"

definition XcpGetCalSegCount :: "'a xcp_cal_scheme \<Rightarrow> nat" where
  "XcpGetCalSegCount s = (if isActivated s then calseg_count s else 0)"

definition XcpGetMemSegCount :: "'a xcp_cal_scheme \<Rightarrow> nat" where
  "XcpGetMemSegCount s = (if isActivated s then memory_segment_count s mod 256 else XCP_UNDEFINED_CALSEG_NUM)"

definition find_calseg :: "(tXcpCalSeg \<Rightarrow> bool) \<Rightarrow> 'a xcp_cal_scheme \<Rightarrow> nat" where
  "find_calseg P s = (case filter (\<lambda>i. P (CalSegPtr s i)) [0..<XcpGetCalSegCount s] of
     [] \<Rightarrow> XCP_UNDEFINED_CALSEG | i # _ \<Rightarrow> i)"

definition XcpFindCalSeg :: "string \<Rightarrow> 'a xcp_cal_scheme \<Rightarrow> nat" where
  "XcpFindCalSeg name s = find_calseg (\<lambda>c. calseg_name c = name) s"

definition XcpGetCalSegIndex :: "nat \<Rightarrow> 'a xcp_cal_scheme \<Rightarrow> nat" where
  "XcpGetCalSegIndex number s = find_calseg (\<lambda>c. calseg_number c = number) s"

definition XcpGetCalSegNumber :: "nat \<Rightarrow> 'a xcp_cal_scheme \<Rightarrow> nat" where
  "XcpGetCalSegNumber i s =
     (if XcpGetCalSegCount s \<le> i then XCP_UNDEFINED_CALSEG_NUM else calseg_number (CalSegPtr s i))"

definition XcpGetCalSegName :: "nat \<Rightarrow> 'a xcp_cal_scheme \<Rightarrow> string option" where
  "XcpGetCalSegName i s = (if XcpGetCalSegCount s \<le> i then None else Some (calseg_name (CalSegPtr s i)))"

definition XcpGetCalSegSize :: "nat \<Rightarrow> 'a xcp_cal_scheme \<Rightarrow> nat" where
  "XcpGetCalSegSize i s = (if XcpGetCalSegCount s \<le> i then 0 else seg_bytes (CalSegPtr s i))"

definition XcpGetCalSegBaseAddress :: "nat \<Rightarrow> 'a xcp_cal_scheme \<Rightarrow> nat" where
  "XcpGetCalSegBaseAddress i s = (if XcpGetCalSegCount s \<le> i then 0 else XcpAddrEncodeSegNumber i 0)"

section \<open>RCU primitives (lock count and page hand-over)\<close>

definition CalSegRcuReset :: "tXcpCalSeg \<Rightarrow> tXcpCalSeg" where
  "CalSegRcuReset c = c\<lparr>xcp_page := XCP_CALSEG_NO_PAGE, ecu_page := XCP_CALSEG_NO_PAGE,
     free_page := XCP_CALSEG_NO_PAGE, free_page_hazard := False, ecu_page_next := XCP_CALSEG_NO_PAGE, lock_count := 0\<rparr>"

definition CalSegRcuInit :: "nat \<Rightarrow> tXcpCalSeg \<Rightarrow> tXcpCalSeg" where
  "CalSegRcuInit aligned c = c\<lparr>ecu_page := 2 * aligned, xcp_page := aligned, free_page := 3 * aligned,
     free_page_hazard := False, ecu_page_next := 2 * aligned, lock_count := 0,
     seg_mem := mem_copy aligned 0 (seg_bytes c) (mem_copy (2 * aligned) 0 (seg_bytes c) (seg_mem c))\<rparr>"

text \<open>The lock returns the offset of the page the reader may use; the reference page is at offset 0.\<close>

definition CalSegRcuLock :: "tXcpCalSeg \<Rightarrow> nat \<times> tXcpCalSeg" where
  "CalSegRcuLock c =
     (let c1 = c\<lparr>lock_count := (lock_count c + 1) mod 65536\<rparr>;
          c2 = (if lock_count c = 0
                then (if ecu_page c1 \<noteq> ecu_page_next c1
                      then c1\<lparr>free_page_hazard := True, ecu_page := ecu_page_next c1, free_page := ecu_page c1\<rparr>
                      else c1\<lparr>free_page_hazard := False\<rparr>)
                else c1)
      in (if ecu_access c2 \<noteq> XCP_CALPAGE_WORKING_PAGE then 0 else ecu_page c2, c2))"

definition CalSegRcuUnlock :: "tXcpCalSeg \<Rightarrow> tXcpCalSeg" where
  "CalSegRcuUnlock c = c\<lparr>lock_count := (lock_count c + 65535) mod 65536\<rparr>"

definition CalSegRcuTryPublish :: "tXcpCalSeg \<Rightarrow> bool \<times> tXcpCalSeg" where
  "CalSegRcuTryPublish c =
     (if free_page c = XCP_CALSEG_NO_PAGE \<or> free_page_hazard c then (False, c)
      else (True, c\<lparr>free_page := XCP_CALSEG_NO_PAGE,
              seg_mem := mem_copy (free_page c) (xcp_page c) (seg_bytes c) (seg_mem c),
              xcp_page := free_page c, ecu_page_next := xcp_page c\<rparr>))"

definition XcpLockCalSeg :: "nat \<Rightarrow> 'a xcp_cal_scheme \<Rightarrow> nat \<times> 'a xcp_cal_scheme" where
  "XcpLockCalSeg i s = (let (p, c) = CalSegRcuLock (CalSegPtr s i) in (p, upd_calseg i (\<lambda>_. c) s))"

definition XcpUnlockCalSeg :: "nat \<Rightarrow> 'a xcp_cal_scheme \<Rightarrow> 'a xcp_cal_scheme" where
  "XcpUnlockCalSeg i s = upd_calseg i CalSegRcuUnlock s"

section \<open>Creating segments\<close>

text \<open>Where the reference page comes from: memory of the caller, the persistence file (the bytes that can
  be read from it), or nowhere.\<close>

datatype page_source = PageData "u8 list" | PageFile "u8 list" | NoPage

definition aligned_page_size :: "nat \<Rightarrow> nat" where
  "aligned_page_size page_size = align_up XCP_CALPAGE_ALIGNMENT page_size mod 65536"

definition init_calseg :: "bool \<Rightarrow> string \<Rightarrow> nat \<Rightarrow> nat \<Rightarrow> u8 list \<Rightarrow> tXcpCalSeg \<Rightarrow> tXcpCalSeg" where
  "init_calseg active name number page_size page c =
     (let c1 = (CalSegRcuReset (c\<lparr>calseg_name := take (STRNLEN name XCP_MAX_CALSEG_NAME) name,
                  seg_bytes := page_size, calseg_number := number, seg_mem := mem_set 0 page (seg_mem c)\<rparr>))
                \<lparr>write_pending := False, xcp_access := XCP_CALPAGE_DEFAULT_PAGE, ecu_access := XCP_CALPAGE_DEFAULT_PAGE\<rparr>
      in if active then (CalSegRcuInit (aligned_page_size page_size) c1)
             \<lparr>xcp_access := XCP_CALPAGE_WORKING_PAGE, ecu_access := XCP_CALPAGE_WORKING_PAGE\<rparr>
         else c1)"

definition XcpInitCalSeg ::
  "nat \<Rightarrow> string \<Rightarrow> page_source \<Rightarrow> nat \<Rightarrow> bool \<Rightarrow> 'a xcp_cal_scheme \<Rightarrow> bool \<times> 'a xcp_cal_scheme" where
  "XcpInitCalSeg off name src page_size memory_segment s =
     (if memory_segment \<and> 0xFF \<le> memory_segment_count s then (False, s)
      else let number = (if memory_segment then memory_segment_count s else XCP_UNDEFINED_CALSEG_NUM);
               s1 = (if memory_segment then s\<lparr>memory_segment_count := memory_segment_count s + 1\<rparr> else s)
        in (case (case src of PageData d \<Rightarrow> Some (take page_size d)
                    | PageFile d \<Rightarrow> if length d < page_size then None else Some (take page_size d)
                    | NoPage \<Rightarrow> None) of
              None \<Rightarrow> (False, s1)
            | Some page \<Rightarrow> (True, s1\<lparr>cal_pool := (cal_pool s1)(off :=
                init_calseg (isActivated s) name number page_size page (cal_pool s1 off))\<rparr>)))"

definition XcpRegisterCalSeg :: "nat \<Rightarrow> 'a xcp_cal_scheme \<Rightarrow> nat \<times> 'a xcp_cal_scheme" where
  "XcpRegisterCalSeg off s =
     (let i = XcpGetCalSegCount s in
      if XCP_MAX_CALSEG_COUNT - 1 \<le> i then (XCP_UNDEFINED_CALSEG, s)
      else (i, s\<lparr>calseg_offset := (calseg_offset s)(i := off), calseg_count := i + 1\<rparr>))"

definition finish_calseg :: "nat \<Rightarrow> nat \<Rightarrow> 'a xcp_cal_scheme \<Rightarrow> nat \<times> 'a xcp_cal_scheme" where
  "finish_calseg page_size i s =
     (if page_size \<noteq> seg_bytes (CalSegPtr s i) then (XCP_UNDEFINED_CALSEG, s)
      else if seg_mode (CalSegPtr s i) AND PAG_PROPERTY_PRELOAD \<noteq> 0
        then (i, upd_calseg i (\<lambda>c. c\<lparr>seg_mode := 0\<rparr>) s)
      else (i, s))"

definition XcpCreateCalSeg_impl ::
  "string \<Rightarrow> bool \<Rightarrow> page_source \<Rightarrow> nat \<Rightarrow> bool \<Rightarrow> 'a xcp_cal_scheme \<Rightarrow> (nat \<times> 'a xcp_cal_scheme) option" where
  "XcpCreateCalSeg_impl name lookup src page_size memory_segment s =
     (let i = (if lookup then XcpFindCalSeg name s else XCP_UNDEFINED_CALSEG) in
      if i = XCP_UNDEFINED_CALSEG
      then (case XcpCalMemAlloc (XCP_CALSEG_HEADER_SIZE + CALSEG_PAGE_COUNT * aligned_page_size page_size) s of
              (None, _) \<Rightarrow> None
            | (Some off, s1) \<Rightarrow> (case XcpInitCalSeg off name src page_size memory_segment s1 of
                (False, s2) \<Rightarrow> Some (XCP_UNDEFINED_CALSEG, s2)
              | (True, s2) \<Rightarrow> (case XcpRegisterCalSeg off s2 of
                  (j, s3) \<Rightarrow> if j = XCP_UNDEFINED_CALSEG then Some (XCP_UNDEFINED_CALSEG, s3)
                             else Some (finish_calseg page_size j s3))))
      else Some (finish_calseg page_size i s))"

definition XcpCreateCalSeg ::
  "string \<Rightarrow> page_source \<Rightarrow> nat \<Rightarrow> 'a xcp_cal_scheme \<Rightarrow> (nat \<times> 'a xcp_cal_scheme) option" where
  "XcpCreateCalSeg name src page_size s = (if \<not> isActivated s then Some (XCP_UNDEFINED_CALSEG, s)
     else XcpCreateCalSeg_impl name True src page_size True s)"

definition XcpCreateCalBlk ::
  "string \<Rightarrow> page_source \<Rightarrow> nat \<Rightarrow> 'a xcp_cal_scheme \<Rightarrow> (nat \<times> 'a xcp_cal_scheme) option" where
  "XcpCreateCalBlk name src page_size s = (if \<not> isActivated s then Some (XCP_UNDEFINED_CALSEG, s)
     else XcpCreateCalSeg_impl name True src page_size False s)"

definition XcpCreateCalSegPreloaded ::
  "string \<Rightarrow> nat \<Rightarrow> nat \<Rightarrow> nat \<Rightarrow> u8 list \<Rightarrow> nat \<Rightarrow> 'a xcp_cal_scheme \<Rightarrow> (nat \<times> 'a xcp_cal_scheme) option" where
  "XcpCreateCalSegPreloaded name page_size index number file pos s =
     (case XcpCreateCalSeg_impl name False (PageFile file) page_size (number \<noteq> XCP_UNDEFINED_CALSEG_NUM) s of
        None \<Rightarrow> None
      | Some (i, s1) \<Rightarrow>
          if i \<noteq> index then Some (XCP_UNDEFINED_CALSEG, s1)
          else if calseg_number (CalSegPtr s1 i) \<noteq> number then Some (XCP_UNDEFINED_CALSEG, s1)
          else Some (i, upd_calseg i (\<lambda>c. c\<lparr>seg_mode := PAG_PROPERTY_PRELOAD, file_pos := pos\<rparr>) s1))"

end
