(* ===== verification/Xcp_Cal_Ops.thy ===== *)
theory Xcp_Cal_Ops
  imports Xcp_Cal
begin

text \<open>
  Client operations on calibration segments (\<^verbatim>\<open>src/src/cal.c\<close>): memory read and write, publishing
  with its wait loop, atomic transactions, page selection, page copy and the freeze mode. The readers that
  make progress while \<^verbatim>\<open>XcpCalSegPublish\<close> sleeps are given by a schedule: for every sleep the
  list of lock and unlock calls that other threads complete in it.
\<close>

section \<open>Readers that run while the server sleeps\<close>

datatype reader_op = ReaderLock nat | ReaderUnlock nat

fun run_reader :: "reader_op \<Rightarrow> 'a xcp_cal_scheme \<Rightarrow> 'a xcp_cal_scheme" where
  "run_reader (ReaderLock i) s = snd (XcpLockCalSeg i s)"
| "run_reader (ReaderUnlock i) s = XcpUnlockCalSeg i s"

definition run_readers :: "reader_op list \<Rightarrow> 'a xcp_cal_scheme \<Rightarrow> 'a xcp_cal_scheme" where
  "run_readers ops s = fold run_reader ops s"

type_synonym schedule = "nat \<Rightarrow> nat \<Rightarrow> reader_op list"

section \<open>Publishing\<close>

abbreviation (input) XCP_CALSEG_AQUIRE_FREE_PAGE_TIMEOUT :: nat where
  "XCP_CALSEG_AQUIRE_FREE_PAGE_TIMEOUT \<equiv> 500"

definition try_publish :: "nat \<Rightarrow> 'a xcp_cal_scheme \<Rightarrow> bool \<times> 'a xcp_cal_scheme" where
  "try_publish i s = (let (ok, c) = CalSegRcuTryPublish (CalSegPtr s i) in (ok, upd_calseg i (\<lambda>_. c) s))"

text \<open>The retry loop: at most \<open>n\<close> further attempts, each after a sleep; \<open>sched k\<close> is what the readers do in
  the \<open>k\<close>-th sleep counted from the end.\<close>

fun publish_retry :: "nat \<Rightarrow> (nat \<Rightarrow> reader_op list) \<Rightarrow> nat \<Rightarrow> 'a xcp_cal_scheme \<Rightarrow> bool \<times> 'a xcp_cal_scheme" where
  "publish_retry 0 sched i s = (False, s)"
| "publish_retry (Suc n) sched i s =
     (case try_publish i (run_readers (sched n) s) of
        (True, s1) \<Rightarrow> (True, s1) | (False, s1) \<Rightarrow> publish_retry n sched i s1)"

definition XcpCalSegPublish :: "(nat \<Rightarrow> reader_op list) \<Rightarrow> nat \<Rightarrow> bool \<Rightarrow> 'a xcp_cal_scheme \<Rightarrow> nat \<times> 'a xcp_cal_scheme" where
  "XcpCalSegPublish sched i wait s =
     (case (case try_publish i s of
              (True, s1) \<Rightarrow> (True, s1)
            | (False, s1) \<Rightarrow> if wait then publish_retry XCP_CALSEG_AQUIRE_FREE_PAGE_TIMEOUT sched i s1 else (False, s1)) of
        (True, s2) \<Rightarrow> (CRC_CMD_OK, upd_calseg i (\<lambda>c. c\<lparr>write_pending := False\<rparr>) s2)
      | (False, s2) \<Rightarrow> (if wait then CRC_ACCESS_DENIED else CRC_CMD_PENDING,
                       upd_calseg i (\<lambda>c. c\<lparr>write_pending := True\<rparr>) s2))"

text \<open>Segment 0 is the EPK segment (\<^verbatim>\<open>XCP_ENABLE_EPK_CALSEG\<close>); the loop starts at 1.\<close>

definition publish_one :: "schedule \<Rightarrow> bool \<Rightarrow> nat \<Rightarrow> nat \<times> 'a xcp_cal_scheme \<Rightarrow> nat \<times> 'a xcp_cal_scheme" where
  "publish_one sched wait i rs =
     (case rs of (res, s) \<Rightarrow>
        if write_pending (CalSegPtr s i)
        then (case XcpCalSegPublish (sched i) i wait s of (r, s1) \<Rightarrow> (if r = CRC_CMD_OK then res else r, s1))
        else (res, s))"

definition XcpCalSegPublishAll :: "schedule \<Rightarrow> bool \<Rightarrow> 'a xcp_cal_scheme \<Rightarrow> nat \<times> 'a xcp_cal_scheme" where
  "XcpCalSegPublishAll sched wait s =
     (if write_delayed s then (CRC_CMD_OK, s)
      else fold (publish_one sched wait) [1..<XcpGetCalSegCount s] (CRC_CMD_OK, s))"

section \<open>Client access\<close>

definition xcp_page_offset :: "tXcpCalSeg \<Rightarrow> nat" where
  "xcp_page_offset c = (if xcp_access c \<noteq> XCP_CALPAGE_WORKING_PAGE then 0 else xcp_page c)"

definition XcpCalSegReadMemory :: "nat \<Rightarrow> nat \<Rightarrow> 'a xcp_cal_scheme \<Rightarrow> nat + u8 list" where
  "XcpCalSegReadMemory src n s =
     (let i = XcpAddrDecodeSegNumber src; offset = XcpAddrDecodeSegOffset src; c = CalSegPtr s i in
      if XcpGetCalSegCount s \<le> i then Inl CRC_ACCESS_DENIED
      else if seg_bytes c < offset + n then Inl CRC_ACCESS_DENIED
      else Inr (mem_get (xcp_page_offset c + offset) n (seg_mem c)))"

definition write_page :: "nat \<Rightarrow> u8 list \<Rightarrow> tXcpCalSeg \<Rightarrow> tXcpCalSeg" where
  "write_page offset data c = c\<lparr>seg_mem := mem_set (xcp_page c + offset) data (seg_mem c)\<rparr>"

text \<open>The lazy-write variant: one attempt to publish, its result is ignored.\<close>

definition XcpCalSegWriteMemory :: "nat \<Rightarrow> u8 list \<Rightarrow> 'a xcp_cal_scheme \<Rightarrow> nat \<times> 'a xcp_cal_scheme" where
  "XcpCalSegWriteMemory dst data s =
     (let i = XcpAddrDecodeSegNumber dst; offset = XcpAddrDecodeSegOffset dst; c = CalSegPtr s i in
      if XcpGetCalSegCount s \<le> i then (CRC_ACCESS_DENIED, s)
      else if seg_bytes c < offset + length data then (CRC_ACCESS_DENIED, s)
      else if xcp_access c \<noteq> XCP_CALPAGE_WORKING_PAGE then (CRC_ACCESS_DENIED, s)
      else let s1 = upd_calseg i (write_page offset data) s in
        if write_delayed s1 then (CRC_CMD_OK, upd_calseg i (\<lambda>c. c\<lparr>write_pending := True\<rparr>) s1)
        else (CRC_CMD_OK, snd (XcpCalSegPublish (\<lambda>_. []) i False s1)))"

definition XcpCalSegBeginAtomicTransaction :: "'a xcp_cal_scheme \<Rightarrow> 'a xcp_cal_scheme" where
  "XcpCalSegBeginAtomicTransaction s = s\<lparr>write_delayed := True\<rparr>"

definition XcpCalSegEndAtomicTransaction :: "schedule \<Rightarrow> 'a xcp_cal_scheme \<Rightarrow> nat \<times> 'a xcp_cal_scheme" where
  "XcpCalSegEndAtomicTransaction sched s = XcpCalSegPublishAll sched True (s\<lparr>write_delayed := False\<rparr>)"

section \<open>Page selection, page copy, segment mode\<close>

definition XcpCalSegGetCalPage :: "nat \<Rightarrow> nat \<Rightarrow> 'a xcp_cal_scheme \<Rightarrow> nat" where
  "XcpCalSegGetCalPage number mode s =
     (let i = XcpGetCalSegIndex number s in
      if i = XCP_UNDEFINED_CALSEG then XCP_CALPAGE_INVALID_PAGE
      else if mode = unat CAL_PAGE_MODE_ECU then ecu_access (CalSegPtr s i)
      else if mode = unat CAL_PAGE_MODE_XCP then xcp_access (CalSegPtr s i)
      else XCP_CALPAGE_INVALID_PAGE)"

definition set_page :: "u8 \<Rightarrow> nat \<Rightarrow> tXcpCalSeg \<Rightarrow> tXcpCalSeg" where
  "set_page mode page c =
     (let c1 = (if mode AND CAL_PAGE_MODE_ECU \<noteq> 0 then c\<lparr>ecu_access := page\<rparr> else c)
      in (if mode AND CAL_PAGE_MODE_XCP \<noteq> 0 then c1\<lparr>xcp_access := page\<rparr> else c1))"

definition XcpCalSegSetCalPage :: "nat \<Rightarrow> nat \<Rightarrow> u8 \<Rightarrow> 'a xcp_cal_scheme \<Rightarrow> nat \<times> 'a xcp_cal_scheme" where
  "XcpCalSegSetCalPage number page mode s =
     (let i = XcpGetCalSegIndex number s in
      if i = XCP_UNDEFINED_CALSEG then (CRC_ACCESS_DENIED, s)
      else if 1 < page then (CRC_ACCESS_DENIED, s)
      else if mode AND CAL_PAGE_MODE_ALL \<noteq> 0
        then (CRC_CMD_OK, fold (\<lambda>j. upd_calseg j (set_page mode page)) [0..<XcpGetCalSegCount s] s)
      else (CRC_CMD_OK, upd_calseg i (set_page mode page) s))"

definition XcpCalSegCopyCalPage :: "nat \<Rightarrow> nat \<Rightarrow> nat \<Rightarrow> nat \<Rightarrow> 'a xcp_cal_scheme \<Rightarrow> nat \<times> 'a xcp_cal_scheme" where
  "XcpCalSegCopyCalPage src_num src_page dst_num dst_page s =
     (let i = XcpGetCalSegIndex dst_num s; c = CalSegPtr s i in
      if src_num \<noteq> dst_num \<or> i = XCP_UNDEFINED_CALSEG \<or> dst_page \<noteq> XCP_CALPAGE_WORKING_PAGE
         \<or> src_page \<noteq> XCP_CALPAGE_DEFAULT_PAGE then (CRC_WRITE_PROTECTED, s)
      else XcpCalSegWriteMemory (XcpAddrEncodeSegNumber i 0) (mem_get 0 (seg_bytes c) (seg_mem c)) s)"

definition XcpGetCalSegMode :: "nat \<Rightarrow> 'a xcp_cal_scheme \<Rightarrow> u8" where
  "XcpGetCalSegMode number s = (let i = XcpGetCalSegIndex number s in
     if i = XCP_UNDEFINED_CALSEG then 0 else seg_mode (CalSegPtr s i))"

definition XcpSetCalSegMode :: "nat \<Rightarrow> u8 \<Rightarrow> 'a xcp_cal_scheme \<Rightarrow> nat \<times> 'a xcp_cal_scheme" where
  "XcpSetCalSegMode number mode s = (let i = XcpGetCalSegIndex number s in
     if i = XCP_UNDEFINED_CALSEG then (CRC_OUT_OF_RANGE, s)
     else (CRC_CMD_OK, upd_calseg i (\<lambda>c. c\<lparr>seg_mode :=
       (if mode AND PAG_PROPERTY_FREEZE \<noteq> 0 then seg_mode c OR PAG_PROPERTY_FREEZE
        else seg_mode c AND NOT PAG_PROPERTY_FREEZE)\<rparr>) s))"

section \<open>Well-formed segments\<close>

definition seg_pages :: "tXcpCalSeg \<Rightarrow> nat set" where
  "seg_pages c = (let a = CalSegAlignedPageSize c in {a, 2 * a, 3 * a})"

definition seg_wf :: "tXcpCalSeg \<Rightarrow> bool" where
  "seg_wf c \<longleftrightarrow> 0 < seg_bytes c \<and> seg_bytes c \<le> 65528
     \<and> xcp_page c \<in> seg_pages c \<and> ecu_page c \<in> seg_pages c \<and> xcp_page c \<noteq> ecu_page c
     \<and> (ecu_page_next c = ecu_page c \<and> free_page c \<in> seg_pages c \<and> free_page c \<noteq> xcp_page c \<and> free_page c \<noteq> ecu_page c
        \<or> ecu_page_next c \<in> seg_pages c \<and> ecu_page_next c \<noteq> xcp_page c \<and> ecu_page_next c \<noteq> ecu_page c
          \<and> free_page c = XCP_CALSEG_NO_PAGE)"

definition page_data :: "tXcpCalSeg \<Rightarrow> nat \<Rightarrow> u8 list" where
  "page_data c p = mem_get p (seg_bytes c) (seg_mem c)"

text \<open>Without a pending write, the working page of the client is what the readers get next.\<close>

definition seg_synced :: "tXcpCalSeg \<Rightarrow> bool" where
  "seg_synced c \<longleftrightarrow> (\<not> write_pending c \<longrightarrow> page_data c (ecu_page_next c) = page_data c (xcp_page c))"


section \<open>Pages do not overlap\<close>

lemma aligned_ge: "seg_bytes c \<le> CalSegAlignedPageSize c"
  by (simp add: CalSegAlignedPageSize_def align_up_ge)

lemma seg_pages_apart:
  "p \<in> seg_pages c \<Longrightarrow> q \<in> seg_pages c \<Longrightarrow> p \<noteq> q \<Longrightarrow>
     p + CalSegAlignedPageSize c \<le> q \<or> q + CalSegAlignedPageSize c \<le> p"
  by (auto simp: seg_pages_def Let_def)

lemma seg_pages_disjoint:
  "p \<in> seg_pages c \<Longrightarrow> q \<in> seg_pages c \<Longrightarrow> p \<noteq> q \<Longrightarrow> p + seg_bytes c \<le> q \<or> q + seg_bytes c \<le> p"
  using seg_pages_apart [of p c q] aligned_ge [of c] by linarith

lemma seg_pages_ref: "p \<in> seg_pages c \<Longrightarrow> seg_bytes c \<le> p"
  using aligned_ge [of c] by (auto simp: seg_pages_def Let_def)

lemma seg_pages_real: "seg_bytes c \<le> 65528 \<Longrightarrow> p \<in> seg_pages c \<Longrightarrow> p < XCP_CALSEG_NO_PAGE"
  using align_up_less [of 8 "seg_bytes c"] by (auto simp: seg_pages_def Let_def CalSegAlignedPageSize_def)

text \<open>The fields that the page layout depends on.\<close>

lemma layout_simps [simp]:
  "seg_pages (c\<lparr>write_pending := b\<rparr>) = seg_pages c" "seg_pages (c\<lparr>seg_mode := m\<rparr>) = seg_pages c"
  "seg_pages (c\<lparr>ecu_access := n\<rparr>) = seg_pages c" "seg_pages (c\<lparr>xcp_access := n\<rparr>) = seg_pages c"
  "seg_pages (c\<lparr>seg_mem := mm\<rparr>) = seg_pages c" "seg_pages (c\<lparr>lock_count := n\<rparr>) = seg_pages c"
  "seg_pages (c\<lparr>ecu_page := n\<rparr>) = seg_pages c" "seg_pages (c\<lparr>free_page := n\<rparr>) = seg_pages c"
  "seg_pages (c\<lparr>free_page_hazard := b\<rparr>) = seg_pages c" "seg_pages (c\<lparr>xcp_page := n\<rparr>) = seg_pages c"
  "seg_pages (c\<lparr>ecu_page_next := n\<rparr>) = seg_pages c"
  by (simp_all add: seg_pages_def CalSegAlignedPageSize_def)

lemmas seg_defs = seg_wf_def seg_synced_def page_data_def

section \<open>The primitives keep segments well-formed\<close>

lemma rcu_lock_mem [simp]:
  "seg_mem (snd (CalSegRcuLock c)) = seg_mem c" "seg_bytes (snd (CalSegRcuLock c)) = seg_bytes c"
  "xcp_page (snd (CalSegRcuLock c)) = xcp_page c" "ecu_page_next (snd (CalSegRcuLock c)) = ecu_page_next c"
  "write_pending (snd (CalSegRcuLock c)) = write_pending c" "xcp_access (snd (CalSegRcuLock c)) = xcp_access c"
  "ecu_access (snd (CalSegRcuLock c)) = ecu_access c" "calseg_number (snd (CalSegRcuLock c)) = calseg_number c"
  by (simp_all add: CalSegRcuLock_def Let_def)

lemma rcu_unlock_mem [simp]:
  "seg_mem (CalSegRcuUnlock c) = seg_mem c" "seg_bytes (CalSegRcuUnlock c) = seg_bytes c"
  "xcp_page (CalSegRcuUnlock c) = xcp_page c" "ecu_page_next (CalSegRcuUnlock c) = ecu_page_next c"
  "ecu_page (CalSegRcuUnlock c) = ecu_page c" "free_page (CalSegRcuUnlock c) = free_page c"
  "write_pending (CalSegRcuUnlock c) = write_pending c" "xcp_access (CalSegRcuUnlock c) = xcp_access c"
  "ecu_access (CalSegRcuUnlock c) = ecu_access c" "calseg_number (CalSegRcuUnlock c) = calseg_number c"
  "seg_pages (CalSegRcuUnlock c) = seg_pages c"
  by (simp_all add: CalSegRcuUnlock_def)

lemma rcu_publish_mem [simp]:
  "seg_bytes (snd (CalSegRcuTryPublish c)) = seg_bytes c"
  "xcp_access (snd (CalSegRcuTryPublish c)) = xcp_access c"
  "ecu_access (snd (CalSegRcuTryPublish c)) = ecu_access c"
  "ecu_page (snd (CalSegRcuTryPublish c)) = ecu_page c"
  "calseg_number (snd (CalSegRcuTryPublish c)) = calseg_number c"
  by (simp_all add: CalSegRcuTryPublish_def)

lemma rcu_lock_cases:
  obtains "snd (CalSegRcuLock c) = c\<lparr>lock_count := (lock_count c + 1) mod 65536\<rparr>"
  | "ecu_page c = ecu_page_next c"
    "snd (CalSegRcuLock c) = c\<lparr>lock_count := (lock_count c + 1) mod 65536, free_page_hazard := False\<rparr>"
  | "ecu_page c \<noteq> ecu_page_next c"
    "snd (CalSegRcuLock c) = c\<lparr>lock_count := (lock_count c + 1) mod 65536, free_page_hazard := True,
       ecu_page := ecu_page_next c, free_page := ecu_page c\<rparr>"
  by (cases "lock_count c = 0"; cases "ecu_page c = ecu_page_next c") (simp_all add: CalSegRcuLock_def Let_def)

lemma seg_wf_lock:
  assumes "seg_wf c" shows "seg_wf (snd (CalSegRcuLock c))"
proof (cases rule: rcu_lock_cases [of c])
  case 3
  with assms have "ecu_page_next c \<in> seg_pages c" "ecu_page_next c \<noteq> xcp_page c" "ecu_page c \<in> seg_pages c"
    "xcp_page c \<noteq> ecu_page c" by (auto simp: seg_wf_def)
  with 3 assms show ?thesis by (simp add: seg_wf_def)
qed (use assms in \<open>simp_all add: seg_wf_def\<close>)

lemma seg_wf_unlock: "seg_wf c \<Longrightarrow> seg_wf (CalSegRcuUnlock c)"
  by (simp add: seg_wf_def)

lemma publish_free:
  assumes "seg_wf c" and "CalSegRcuTryPublish c = (True, c')"
  shows "free_page c \<in> seg_pages c" and "free_page c \<noteq> xcp_page c" and "free_page c \<noteq> ecu_page c"
    and "ecu_page_next c = ecu_page c"
    and "c' = c\<lparr>free_page := XCP_CALSEG_NO_PAGE,
              seg_mem := mem_copy (free_page c) (xcp_page c) (seg_bytes c) (seg_mem c),
              xcp_page := free_page c, ecu_page_next := xcp_page c\<rparr>"
  using assms by (auto simp: CalSegRcuTryPublish_def seg_wf_def split: if_splits)

lemma publish_wf: "seg_wf c \<Longrightarrow> seg_wf (snd (CalSegRcuTryPublish c))"
  by (auto simp: seg_wf_def CalSegRcuTryPublish_def)

lemma publish_ok_data:
  assumes wf: "seg_wf c" and p: "CalSegRcuTryPublish c = (True, c')"
  shows "page_data c' (ecu_page_next c') = page_data c (xcp_page c)"
    and "page_data c' (xcp_page c') = page_data c (xcp_page c)"
    and "page_data c' (ecu_page c') = page_data c (ecu_page c)"
    and "page_data c' 0 = page_data c 0"
proof -
  note f = publish_free [OF wf p]
  have x: "xcp_page c \<in> seg_pages c" "ecu_page c \<in> seg_pages c" using wf by (auto simp: seg_wf_def)
  show "page_data c' (ecu_page_next c') = page_data c (xcp_page c)"
    using seg_pages_disjoint [OF x(1) f(1)] f(2) by (auto simp: f(5) page_data_def mem_simps)
  show "page_data c' (xcp_page c') = page_data c (xcp_page c)"
    by (simp add: f(5) page_data_def mem_simps)
  show "page_data c' (ecu_page c') = page_data c (ecu_page c)"
    using seg_pages_disjoint [OF x(2) f(1)] f(3) by (auto simp: f(5) page_data_def mem_simps)
  show "page_data c' 0 = page_data c 0"
    using seg_pages_ref [OF f(1)] by (simp add: f(5) page_data_def mem_simps)
qed

lemma publish_fail: "CalSegRcuTryPublish c = (False, c') \<Longrightarrow> c' = c"
  by (simp add: CalSegRcuTryPublish_def split: if_splits)

lemma publish_ref: "seg_wf c \<Longrightarrow> page_data (snd (CalSegRcuTryPublish c)) 0 = page_data c 0"
  by (metis (full_types) prod.collapse publish_fail publish_ok_data(4))

lemma write_page_simps [simp]:
  "seg_bytes (write_page off d c) = seg_bytes c" "seg_pages (write_page off d c) = seg_pages c"
  "xcp_page (write_page off d c) = xcp_page c" "ecu_page (write_page off d c) = ecu_page c"
  "ecu_page_next (write_page off d c) = ecu_page_next c" "free_page (write_page off d c) = free_page c"
  "write_pending (write_page off d c) = write_pending c" "xcp_access (write_page off d c) = xcp_access c"
  "ecu_access (write_page off d c) = ecu_access c"
  by (simp_all add: write_page_def)

lemma write_page_wf: "seg_wf c \<Longrightarrow> seg_wf (write_page off d c)"
  by (simp add: seg_wf_def)

lemma write_page_other:
  assumes "seg_wf c" and "off + length d \<le> seg_bytes c" and "p = 0 \<or> p \<in> seg_pages c \<and> p \<noteq> xcp_page c"
  shows "page_data (write_page off d c) p = page_data c p"
proof -
  have x: "xcp_page c \<in> seg_pages c" using assms(1) by (simp add: seg_wf_def)
  have "p + seg_bytes c \<le> xcp_page c \<or> xcp_page c + seg_bytes c \<le> p"
    using assms(3) seg_pages_ref [OF x] seg_pages_disjoint [OF _ x, of p] by auto
  then show ?thesis using assms(2)
    by (auto simp: page_data_def write_page_def mem_get_set_other)
qed

lemma nth_mem_get: "k < n \<Longrightarrow> mem_get a n m ! k = m (a + k)"
  by (simp add: mem_get_def)

text \<open>Overwriting part of a list, the abstract effect of a client write.\<close>

definition patch :: "nat \<Rightarrow> 'b list \<Rightarrow> 'b list \<Rightarrow> 'b list" where
  "patch off d xs = take off xs @ d @ drop (off + length d) xs"

lemma write_page_data:
  assumes "off + length d \<le> seg_bytes c"
  shows "page_data (write_page off d c) (xcp_page c) = patch off d (page_data c (xcp_page c))"
proof (rule nth_equalityI)
  show "length (page_data (write_page off d c) (xcp_page c)) = length (patch off d (page_data c (xcp_page c)))"
    using assms by (simp add: page_data_def patch_def)
next
  fix k assume "k < length (page_data (write_page off d c) (xcp_page c))"
  then have k: "k < seg_bytes c" by (simp add: page_data_def)
  then show "page_data (write_page off d c) (xcp_page c) ! k = patch off d (page_data c (xcp_page c)) ! k"
    using assms by (auto simp: page_data_def nth_mem_get write_page_def mem_set_def patch_def nth_append
        min_def)
qed

lemma set_page_simps [simp]:
  "seg_bytes (set_page m p c) = seg_bytes c" "seg_mem (set_page m p c) = seg_mem c"
  "xcp_page (set_page m p c) = xcp_page c" "ecu_page (set_page m p c) = ecu_page c"
  "ecu_page_next (set_page m p c) = ecu_page_next c" "free_page (set_page m p c) = free_page c"
  "write_pending (set_page m p c) = write_pending c" "seg_pages (set_page m p c) = seg_pages c"
  by (simp_all add: set_page_def Let_def)

end
