(* ===== verification/Xcp_Cal_Inv.thy ===== *)
theory Xcp_Cal_Inv
  imports Xcp_Cal_Ops
begin

text \<open>
  Invariants of the calibration segments under every client operation and every reader. The locale
  \<open>seg_contract\<close> is the interface between the page primitives (\<^verbatim>\<open>CalSegRcuLock\<close>, \<^verbatim>\<open>CalSegRcuUnlock\<close>,
  \<^verbatim>\<open>CalSegRcuTryPublish\<close>, the write into the client's page) and the operations built from them: a
  property of one segment that the primitives keep is kept by reads, writes, publishing with its wait loop,
  transactions and page selection, whatever the readers do meanwhile. It is interpreted with well-formedness,
  publication consistency and the fixed content of the reference page.
\<close>

lemma offset_simps [simp]:
  "calseg_offset (upd_calseg i f s) = calseg_offset s" "calseg_count (upd_calseg i f s) = calseg_count s"
  "write_delayed (upd_calseg i f s) = write_delayed s" "XcpGetCalSegCount (upd_calseg i f s) = XcpGetCalSegCount s"
  "isActivated (upd_calseg i f s) = isActivated s"
  "memory_segment_count (upd_calseg i f s) = memory_segment_count s" "cal_mem_used (upd_calseg i f s) = cal_mem_used s"
  by (simp_all add: upd_calseg_def XcpGetCalSegCount_def isActivated_def)

lemma CalSegPtr_upd:
  "CalSegPtr (upd_calseg i f s) j = (if calseg_offset s j = calseg_offset s i then f (CalSegPtr s i) else CalSegPtr s j)"
  by (simp add: CalSegPtr_def upd_calseg_def)

lemma CalSegPtr_upd_same [simp]: "CalSegPtr (upd_calseg i f s) i = f (CalSegPtr s i)"
  by (simp add: CalSegPtr_upd)

text \<open>Operations that only change the pool leave the list alone.\<close>

definition same_list :: "'a xcp_cal_scheme \<Rightarrow> 'a xcp_cal_scheme \<Rightarrow> bool" where
  "same_list s s' \<longleftrightarrow> calseg_offset s' = calseg_offset s \<and> XcpGetCalSegCount s' = XcpGetCalSegCount s
     \<and> write_delayed s' = write_delayed s"

lemma same_list_refl [simp]: "same_list s s"
  by (simp add: same_list_def)

lemma same_list_trans [trans]: "same_list s t \<Longrightarrow> same_list t u \<Longrightarrow> same_list s u"
  by (simp add: same_list_def)

lemma same_list_upd [simp]: "same_list s (upd_calseg i f s)"
  by (simp add: same_list_def)

lemma run_reader_same: "same_list s (run_reader op s)"
  by (cases op) (simp_all add: XcpLockCalSeg_def XcpUnlockCalSeg_def split_beta)

lemma run_readers_same: "same_list s (run_readers ops s)"
  unfolding run_readers_def
proof (induction ops arbitrary: s)
  case (Cons op ops)
  then show ?case using run_reader_same same_list_trans by fastforce
qed simp

lemma try_publish_same: "same_list s (snd (try_publish i s))"
  by (simp add: try_publish_def split_beta)

lemma publish_retry_same: "same_list s (snd (publish_retry n sched i s))"
proof (induction n arbitrary: s)
  case (Suc n)
  have "same_list s (snd (try_publish i (run_readers (sched n) s)))"
    using run_readers_same try_publish_same same_list_trans by blast
  with Suc.IH show ?case
    by (auto split: prod.split bool.split) (metis same_list_trans snd_conv)
qed simp

lemma XcpCalSegPublish_same: "same_list s (snd (XcpCalSegPublish sched i wait s))"
proof -
  have a: "same_list s (snd (try_publish i s))" by (rule try_publish_same)
  have b: "same_list s (snd (publish_retry n sched i (snd (try_publish i s))))" for n
    using a publish_retry_same same_list_trans by blast
  have c: "same_list s t \<Longrightarrow> same_list s (upd_calseg i f t)" for t f
    using same_list_upd same_list_trans by blast
  show ?thesis using a b [of "XCP_CALSEG_AQUIRE_FREE_PAGE_TIMEOUT"] c
    by (auto simp: XcpCalSegPublish_def split: prod.split bool.split)
qed

lemma publish_one_same: "same_list s (snd (publish_one sched wait i (r, s)))"
  using XcpCalSegPublish_same [of s "sched i" i wait] by (auto simp: publish_one_def split: prod.split)

lemma publish_fold_same: "same_list s (snd rs) \<Longrightarrow> same_list s (snd (fold (publish_one sched wait) is rs))"
proof (induction "is" arbitrary: rs)
  case (Cons i "is")
  have "same_list (snd rs) (snd (publish_one sched wait i rs))"
    using publish_one_same [of "snd rs" sched wait i "fst rs"] by simp
  with Cons show ?case using same_list_trans by fastforce
qed simp

lemma XcpCalSegPublishAll_same: "same_list s (snd (XcpCalSegPublishAll sched wait s))"
  by (simp add: XcpCalSegPublishAll_def publish_fold_same)

lemma XcpCalSegWriteMemory_same: "same_list s (snd (XcpCalSegWriteMemory dst d s))"
  by (simp add: XcpCalSegWriteMemory_def Let_def) (meson same_list_trans same_list_upd XcpCalSegPublish_same)

section \<open>The contract of one segment\<close>

text \<open>\<open>P\<close> holds between operations, the weaker \<open>Q\<close> also between a write and its publication. Both may depend
  on the place of the segment in the pool.\<close>

definition seg_offsets :: "'a xcp_cal_scheme \<Rightarrow> nat set" where
  "seg_offsets s = calseg_offset s ` {..<XcpGetCalSegCount s}"

definition all_segs :: "(nat \<Rightarrow> tXcpCalSeg \<Rightarrow> bool) \<Rightarrow> 'a xcp_cal_scheme \<Rightarrow> bool" where
  "all_segs P s \<longleftrightarrow> (\<forall>p \<in> seg_offsets s. P p (cal_pool s p))"

definition all_but :: "(nat \<Rightarrow> tXcpCalSeg \<Rightarrow> bool) \<Rightarrow> (nat \<Rightarrow> tXcpCalSeg \<Rightarrow> bool) \<Rightarrow> nat \<Rightarrow> 'a xcp_cal_scheme \<Rightarrow> bool" where
  "all_but P Q i s \<longleftrightarrow> (\<forall>p \<in> seg_offsets s. (if p = calseg_offset s i then Q else P) p (cal_pool s p))"

lemma cal_pool_upd:
  "cal_pool (upd_calseg i f s) = (cal_pool s)(calseg_offset s i := f (cal_pool s (calseg_offset s i)))"
  by (simp add: upd_calseg_def CalSegPtr_def)

lemma seg_offsets_upd [simp]: "seg_offsets (upd_calseg i f s) = seg_offsets s"
  by (simp add: seg_offsets_def)

lemma all_segsD: "all_segs P s \<Longrightarrow> i < XcpGetCalSegCount s \<Longrightarrow> P (calseg_offset s i) (CalSegPtr s i)"
  by (simp add: all_segs_def seg_offsets_def CalSegPtr_def)

lemma all_segs_upd:
  "all_segs P s \<Longrightarrow> (\<And>p c. P p c \<Longrightarrow> P p (f c)) \<Longrightarrow> all_segs P (upd_calseg i f s)"
  by (simp add: all_segs_def cal_pool_upd)

lemma all_segs_upd_const:
  "all_segs P s \<Longrightarrow> (\<And>p. P p (CalSegPtr s i) \<Longrightarrow> P p c) \<Longrightarrow> all_segs P (upd_calseg i (\<lambda>_. c) s)"
  by (auto simp: all_segs_def cal_pool_upd CalSegPtr_def)

lemma all_but_upd:
  "all_but P Q i s \<Longrightarrow> (\<And>p. P p (CalSegPtr s j) \<Longrightarrow> P p (f (CalSegPtr s j))) \<Longrightarrow>
     (\<And>p. Q p (CalSegPtr s j) \<Longrightarrow> Q p (f (CalSegPtr s j))) \<Longrightarrow> all_but P Q i (upd_calseg j f s)"
  by (fastforce simp: all_but_def cal_pool_upd CalSegPtr_def split: if_splits)

lemma all_but_upd_same:
  "all_but P Q i s \<Longrightarrow> (\<And>p. Q p (CalSegPtr s i) \<Longrightarrow> Q p (f (CalSegPtr s i))) \<Longrightarrow> all_but P Q i (upd_calseg i f s)"
  by (fastforce simp: all_but_def cal_pool_upd CalSegPtr_def split: if_splits)

lemma all_but_close:
  "all_but P Q i s \<Longrightarrow> (\<And>p. Q p (CalSegPtr s i) \<Longrightarrow> P p (f (CalSegPtr s i))) \<Longrightarrow> all_segs P (upd_calseg i f s)"
  by (fastforce simp: all_but_def all_segs_def cal_pool_upd CalSegPtr_def split: if_splits)

lemma all_but_open: "all_segs P s \<Longrightarrow> (\<And>p c. P p c \<Longrightarrow> Q p c) \<Longrightarrow> all_but P Q i s"
  by (simp add: all_but_def all_segs_def)

locale publish_contract =
  fixes Q :: "nat \<Rightarrow> tXcpCalSeg \<Rightarrow> bool" and P :: "nat \<Rightarrow> tXcpCalSeg \<Rightarrow> bool"
  assumes P_Q: "P p c \<Longrightarrow> Q p c"
    and Q_lock: "Q p c \<Longrightarrow> Q p (snd (CalSegRcuLock c))"
    and Q_unlock: "Q p c \<Longrightarrow> Q p (CalSegRcuUnlock c)"
    and Q_publish: "Q p c \<Longrightarrow> Q p (snd (CalSegRcuTryPublish c))"
    and P_lock: "P p c \<Longrightarrow> P p (snd (CalSegRcuLock c))"
    and P_unlock: "P p c \<Longrightarrow> P p (CalSegRcuUnlock c)"
    and P_published: "Q p c \<Longrightarrow> CalSegRcuTryPublish c = (True, c') \<Longrightarrow> P p (c'\<lparr>write_pending := False\<rparr>)"
    and P_pending: "Q p c \<Longrightarrow> P p (c\<lparr>write_pending := True\<rparr>)"
begin

lemma P_reader: "all_segs P s \<Longrightarrow> all_segs P (run_reader op s)"
  by (cases op) (simp_all add: XcpLockCalSeg_def XcpUnlockCalSeg_def split_beta all_segs_upd_const P_lock
      all_segs_upd P_unlock)

lemma P_readers: "all_segs P s \<Longrightarrow> all_segs P (run_readers ops s)"
  unfolding run_readers_def by (induction ops arbitrary: s) (simp_all add: P_reader)

lemma but_reader: "all_but P Q i s \<Longrightarrow> all_but P Q i (run_reader op s)"
  by (cases op) (simp_all add: XcpLockCalSeg_def XcpUnlockCalSeg_def split_beta all_but_upd P_lock Q_lock P_unlock Q_unlock)

lemma but_readers: "all_but P Q i s \<Longrightarrow> all_but P Q i (run_readers ops s)"
  unfolding run_readers_def by (induction ops arbitrary: s) (simp_all add: but_reader)

lemma but_try: "all_but P Q i s \<Longrightarrow> all_but P Q i (snd (try_publish i s))"
  by (simp add: try_publish_def split_beta Let_def all_but_upd_same Q_publish)

lemma try_ok:
  assumes "all_but P Q i s" and "try_publish i s = (True, s')"
  shows "all_segs P (upd_calseg i (\<lambda>c. c\<lparr>write_pending := False\<rparr>) s')"
proof -
  obtain c' where c: "CalSegRcuTryPublish (CalSegPtr s i) = (True, c')" and s': "s' = upd_calseg i (\<lambda>_. c') s"
    using assms(2) by (auto simp: try_publish_def Let_def split: prod.splits)
  have "all_segs P (upd_calseg i (\<lambda>c. c'\<lparr>write_pending := False\<rparr>) s)"
    by (rule all_but_close [OF assms(1)]) (rule P_published [OF _ c])
  then show ?thesis by (simp add: s' upd_calseg_def CalSegPtr_def)
qed

lemma retry_inv:
  "all_but P Q i s \<Longrightarrow> publish_retry n sched i s = (ok, s') \<Longrightarrow>
     all_but P Q i s' \<and> (ok \<longrightarrow> all_segs P (upd_calseg i (\<lambda>c. c\<lparr>write_pending := False\<rparr>) s'))"
proof (induction n arbitrary: s)
  case (Suc n)
  define r where "r = run_readers (sched n) s"
  have r: "all_but P Q i r" using Suc.prems(1) by (simp add: r_def but_readers)
  obtain b t where e: "try_publish i r = (b, t)" by fastforce
  have t: "all_but P Q i t" using but_try [OF r] e by simp
  show ?case
  proof (cases b)
    case True
    with Suc.prems(2) e have "ok" "s' = t" by (simp_all add: r_def [symmetric])
    with t try_ok [OF r] e True show ?thesis by simp
  next
    case False
    with Suc.prems(2) e have "publish_retry n sched i t = (ok, s')" by (simp add: r_def [symmetric])
    then show ?thesis using Suc.IH [OF t] by blast
  qed
qed simp

lemma publish_inv:
  assumes "all_but P Q i s" shows "all_segs P (snd (XcpCalSegPublish sched i wait s))"
proof -
  obtain b t where e: "try_publish i s = (b, t)" by fastforce
  have t: "all_but P Q i t" using but_try [OF assms] e by simp
  have pend: "all_segs P (upd_calseg i (\<lambda>c. c\<lparr>write_pending := True\<rparr>) u)" if "all_but P Q i u" for u
    using that P_pending by (blast intro: all_but_close)
  show ?thesis
  proof (cases "b \<or> \<not> wait")
    case True
    then show ?thesis using try_ok [OF assms] pend [OF t] e
      by (cases b) (simp_all add: XcpCalSegPublish_def)
  next
    case False
    obtain ok u where r: "publish_retry XCP_CALSEG_AQUIRE_FREE_PAGE_TIMEOUT sched i t = (ok, u)" by fastforce
    from retry_inv [OF t r] pend False e r show ?thesis
      by (cases ok) (simp_all add: XcpCalSegPublish_def)
  qed
qed

lemma P_but: "all_segs P s \<Longrightarrow> all_but P Q i s"
  by (rule all_but_open) (simp_all add: P_Q)

lemma publish_one_inv: "all_segs P s \<Longrightarrow> all_segs P (snd (publish_one sched wait i (r, s)))"
  by (auto simp: publish_one_def split: prod.split) (metis P_but publish_inv snd_conv)

lemma publish_fold_inv: "all_segs P (snd rs) \<Longrightarrow> all_segs P (snd (fold (publish_one sched wait) is rs))"
proof (induction "is" arbitrary: rs)
  case (Cons i "is")
  then show ?case using publish_one_inv [of "snd rs" sched wait i "fst rs"] by simp
qed simp

lemma publish_all_inv: "all_segs P s \<Longrightarrow> all_segs P (snd (XcpCalSegPublishAll sched wait s))"
  by (simp add: XcpCalSegPublishAll_def publish_fold_inv)

lemma delayed_inv: "all_segs P s \<Longrightarrow> all_segs P (s\<lparr>write_delayed := b\<rparr>)"
  by (simp add: all_segs_def seg_offsets_def XcpGetCalSegCount_def isActivated_def)

lemma begin_inv: "all_segs P s \<Longrightarrow> all_segs P (XcpCalSegBeginAtomicTransaction s)"
  by (simp add: XcpCalSegBeginAtomicTransaction_def delayed_inv)

lemma end_inv: "all_segs P s \<Longrightarrow> all_segs P (snd (XcpCalSegEndAtomicTransaction sched s))"
  by (simp add: XcpCalSegEndAtomicTransaction_def publish_all_inv delayed_inv)

end

text \<open>With writes by the client, page selection and segment modes.\<close>

locale seg_contract = publish_contract +
  assumes Q_write: "Q p c \<Longrightarrow> off + length d \<le> seg_bytes c \<Longrightarrow> Q p (write_page off d c)"
    and P_select: "P p c \<Longrightarrow> P p (set_page m page c)"
    and P_mode: "P p c \<Longrightarrow> P p (c\<lparr>seg_mode := md\<rparr>)"
begin

lemma write_inv:
  assumes "all_segs P s" shows "all_segs P (snd (XcpCalSegWriteMemory dst d s))"
proof -
  define i off where "i = XcpAddrDecodeSegNumber dst" and "off = XcpAddrDecodeSegOffset dst"
  show ?thesis
  proof (cases "i < XcpGetCalSegCount s \<and> off + length d \<le> seg_bytes (CalSegPtr s i)
      \<and> xcp_access (CalSegPtr s i) = XCP_CALPAGE_WORKING_PAGE")
    case True
    have w: "all_but P Q i (upd_calseg i (write_page off d) s)"
      using P_but [OF assms] by (rule all_but_upd_same) (simp add: Q_write True)
    have "all_segs P (upd_calseg i (\<lambda>c. c\<lparr>write_pending := True\<rparr>) (upd_calseg i (write_page off d) s))"
      using all_but_close [OF w] P_pending by blast
    with publish_inv [OF w] True show ?thesis
      by (simp add: XcpCalSegWriteMemory_def Let_def i_def [symmetric] off_def [symmetric])
  next
    case False
    then show ?thesis using assms
      by (auto simp: XcpCalSegWriteMemory_def Let_def i_def [symmetric] off_def [symmetric])
  qed
qed

lemma select_inv: "all_segs P s \<Longrightarrow> all_segs P (snd (XcpCalSegSetCalPage number page mode s))"
proof -
  assume s: "all_segs P s"
  have "all_segs P (fold (\<lambda>j. upd_calseg j (set_page mode page)) js s)" for js
    using s by (induction js arbitrary: s) (simp_all add: all_segs_upd P_select)
  with s show ?thesis
    by (simp add: XcpCalSegSetCalPage_def Let_def all_segs_upd P_select)
qed

lemma copy_inv: "all_segs P s \<Longrightarrow> all_segs P (snd (XcpCalSegCopyCalPage a b c d s))"
  by (simp add: XcpCalSegCopyCalPage_def Let_def write_inv)

lemma mode_inv: "all_segs P s \<Longrightarrow> all_segs P (snd (XcpSetCalSegMode number mode s))"
  by (simp add: XcpSetCalSegMode_def Let_def all_segs_upd P_mode)

end

section \<open>The invariant of the segments\<close>

definition seg_ok :: "nat \<Rightarrow> tXcpCalSeg \<Rightarrow> bool" where
  "seg_ok p c \<longleftrightarrow> seg_wf c \<and> seg_synced c"

text \<open>The reference page of the segment at pool offset \<open>p\<close> holds \<open>ref p\<close>.\<close>

definition seg_ref :: "(nat \<Rightarrow> u8 list) \<Rightarrow> nat \<Rightarrow> tXcpCalSeg \<Rightarrow> bool" where
  "seg_ref ref p c \<longleftrightarrow> seg_wf c \<and> page_data c 0 = ref p"

lemma seg_wf_cong:
  "seg_wf (c\<lparr>write_pending := b\<rparr>) = seg_wf c" "seg_wf (c\<lparr>seg_mode := m\<rparr>) = seg_wf c" "seg_wf (set_page md pg c) = seg_wf c"
  by (simp_all add: seg_wf_def)

lemma page_data_cong [simp]:
  "page_data (c\<lparr>write_pending := b\<rparr>) = page_data c" "page_data (c\<lparr>seg_mode := m\<rparr>) = page_data c"
  "page_data (set_page md pg c) = page_data c" "page_data (snd (CalSegRcuLock c)) = page_data c"
  "page_data (CalSegRcuUnlock c) = page_data c"
  by (simp_all add: page_data_def fun_eq_iff)

lemma seg_ok_published:
  assumes "seg_wf c" and "CalSegRcuTryPublish c = (True, c')" shows "seg_ok p (c'\<lparr>write_pending := False\<rparr>)"
proof -
  have "seg_wf c'" using publish_wf [OF assms(1)] assms(2) by simp
  with publish_ok_data(1,2) [OF assms] show ?thesis by (simp add: seg_ok_def seg_synced_def seg_wf_cong)
qed

lemma seg_ref_published:
  assumes "seg_ref ref p c" and "CalSegRcuTryPublish c = (True, c')" shows "seg_ref ref p (c'\<lparr>write_pending := False\<rparr>)"
proof -
  have "seg_wf c" using assms(1) by (simp add: seg_ref_def)
  then have "seg_wf c'" using publish_wf assms(2) by fastforce
  with publish_ok_data(4) [OF \<open>seg_wf c\<close> assms(2)] assms(1) show ?thesis by (simp add: seg_ref_def seg_wf_cong)
qed

interpretation ok: seg_contract "\<lambda>_. seg_wf" seg_ok
  by unfold_locales (simp_all add: seg_ok_published,
    simp_all add: seg_ok_def seg_synced_def seg_wf_cong seg_wf_lock seg_wf_unlock publish_wf write_page_wf)

interpretation refs: seg_contract "seg_ref ref" "seg_ref ref" for ref
  by unfold_locales (simp_all add: seg_ref_published,
    simp_all add: seg_ref_def seg_wf_cong seg_wf_lock seg_wf_unlock publish_wf write_page_wf publish_ref write_page_other)

text \<open>What the client reads on the working page is not touched by readers and by publishing.\<close>

definition client_view :: "tXcpCalSeg \<Rightarrow> u8 list" where
  "client_view c = page_data c (xcp_page c)"

definition seg_view :: "(nat \<Rightarrow> u8 list) \<Rightarrow> nat \<Rightarrow> tXcpCalSeg \<Rightarrow> bool" where
  "seg_view v p c \<longleftrightarrow> seg_wf c \<and> client_view c = v p"

lemma publish_view: "seg_wf c \<Longrightarrow> client_view (snd (CalSegRcuTryPublish c)) = client_view c"
  by (metis (full_types) prod.collapse publish_fail publish_ok_data(2) client_view_def)

lemma seg_view_published:
  assumes "seg_view v p c" and "CalSegRcuTryPublish c = (True, c')" shows "seg_view v p (c'\<lparr>write_pending := False\<rparr>)"
proof -
  have "seg_wf c" using assms(1) by (simp add: seg_view_def)
  with publish_wf [of c] publish_view [of c] assms show ?thesis
    by (simp add: seg_view_def seg_wf_cong client_view_def)
qed

lemma client_view_cong [simp]:
  "client_view (c\<lparr>write_pending := b\<rparr>) = client_view c" "client_view (snd (CalSegRcuLock c)) = client_view c"
  "client_view (CalSegRcuUnlock c) = client_view c"
  by (simp_all add: client_view_def)

interpretation views: publish_contract "seg_view v" "seg_view v" for v
  by unfold_locales (simp_all add: seg_view_published,
    simp_all add: seg_view_def seg_wf_cong seg_wf_lock seg_wf_unlock publish_wf publish_view)

end
