(* ===== verification/Xcp_Cal_Spec.thy ===== *)
theory Xcp_Cal_Spec
  imports Xcp_Cal_Inv
begin

text \<open>
  What calibration promises its two sides, over the model of \<^verbatim>\<open>src/src/cal.c\<close>: the client reads what it
  wrote; a reader sees the working page as it was last published, never a page in change; a transaction
  becomes visible with its end and not before; a pending change reaches the readers as soon as they let go
  of the old page. The views of the two sides are \<open>client_view\<close> and \<open>reader_view\<close>.
\<close>

section \<open>The view of a reader\<close>

definition reader_view :: "tXcpCalSeg \<Rightarrow> u8 list" where
  "reader_view c = page_data c (if ecu_access c \<noteq> XCP_CALPAGE_WORKING_PAGE then 0
     else if lock_count c = 0 then ecu_page_next c else ecu_page c)"

lemma lock_reader_view: "page_data c (fst (CalSegRcuLock c)) = reader_view c"
  by (simp add: reader_view_def CalSegRcuLock_def Let_def)

lemma synced_view:
  "seg_synced c \<Longrightarrow> \<not> write_pending c \<Longrightarrow> lock_count c = 0 \<Longrightarrow> ecu_access c = XCP_CALPAGE_WORKING_PAGE \<Longrightarrow>
     reader_view c = client_view c"
  by (simp add: reader_view_def seg_synced_def client_view_def)

section \<open>Client writes\<close>

definition write_ok :: "nat \<Rightarrow> u8 list \<Rightarrow> 'a xcp_cal_scheme \<Rightarrow> bool" where
  "write_ok dst d s \<longleftrightarrow> (let i = XcpAddrDecodeSegNumber dst in i < XcpGetCalSegCount s
     \<and> XcpAddrDecodeSegOffset dst + length d \<le> seg_bytes (CalSegPtr s i)
     \<and> xcp_access (CalSegPtr s i) = XCP_CALPAGE_WORKING_PAGE)"

lemma write_ok_iff: "fst (XcpCalSegWriteMemory dst d s) = CRC_CMD_OK \<longleftrightarrow> write_ok dst d s"
  by (simp add: XcpCalSegWriteMemory_def write_ok_def Let_def linorder_not_le)

lemma write_rejected: "\<not> write_ok dst d s \<Longrightarrow> XcpCalSegWriteMemory dst d s = (CRC_ACCESS_DENIED, s)"
  by (auto simp: XcpCalSegWriteMemory_def write_ok_def Let_def)

lemma write_delayed_state:
  "write_ok dst d s \<Longrightarrow> write_delayed s \<Longrightarrow> snd (XcpCalSegWriteMemory dst d s) =
     upd_calseg (XcpAddrDecodeSegNumber dst)
       (\<lambda>c. (write_page (XcpAddrDecodeSegOffset dst) d c)\<lparr>write_pending := True\<rparr>) s"
  by (simp add: XcpCalSegWriteMemory_def write_ok_def Let_def) (simp add: upd_calseg_def CalSegPtr_def)

lemma try_publish_state: "try_publish i s = (fst (CalSegRcuTryPublish (CalSegPtr s i)),
    upd_calseg i (\<lambda>_. snd (CalSegRcuTryPublish (CalSegPtr s i))) s)"
  by (simp add: try_publish_def split_beta Let_def)

text \<open>A publication without waiting changes one segment only.\<close>

definition publish_once :: "tXcpCalSeg \<Rightarrow> tXcpCalSeg" where
  "publish_once c = (case CalSegRcuTryPublish c of (ok, c') \<Rightarrow> c'\<lparr>write_pending := \<not> ok\<rparr>)"

lemma publish_nowait:
  "XcpCalSegPublish sched i False s =
     (if fst (CalSegRcuTryPublish (CalSegPtr s i)) then CRC_CMD_OK else CRC_CMD_PENDING, upd_calseg i publish_once s)"
  by (auto simp: XcpCalSegPublish_def try_publish_state publish_once_def upd_calseg_def CalSegPtr_def
      split: prod.split bool.split)

lemma write_direct_state:
  "write_ok dst d s \<Longrightarrow> \<not> write_delayed s \<Longrightarrow> snd (XcpCalSegWriteMemory dst d s) =
     upd_calseg (XcpAddrDecodeSegNumber dst) (\<lambda>c. publish_once (write_page (XcpAddrDecodeSegOffset dst) d c)) s"
  by (simp add: XcpCalSegWriteMemory_def write_ok_def Let_def publish_nowait) (simp add: upd_calseg_def CalSegPtr_def)

lemma publish_once_view: "seg_wf c \<Longrightarrow> client_view (publish_once c) = client_view c"
  using publish_view [of c] by (simp add: publish_once_def split_beta)

lemma publish_once_access [simp]:
  "xcp_access (publish_once c) = xcp_access c" "seg_bytes (publish_once c) = seg_bytes c"
  "ecu_access (publish_once c) = ecu_access c"
  by (simp_all add: publish_once_def split_beta)

lemma write_seg:
  assumes "write_ok dst d s" and "all_segs (\<lambda>_. seg_wf) s"
  defines "i \<equiv> XcpAddrDecodeSegNumber dst"
  obtains f where "snd (XcpCalSegWriteMemory dst d s) = upd_calseg i f s"
    and "client_view (f (CalSegPtr s i)) = patch (XcpAddrDecodeSegOffset dst) d (client_view (CalSegPtr s i))"
    and "xcp_access (f (CalSegPtr s i)) = XCP_CALPAGE_WORKING_PAGE" and "seg_bytes (f (CalSegPtr s i)) = seg_bytes (CalSegPtr s i)"
proof -
  have i: "i < XcpGetCalSegCount s" and l: "XcpAddrDecodeSegOffset dst + length d \<le> seg_bytes (CalSegPtr s i)"
    and x: "xcp_access (CalSegPtr s i) = XCP_CALPAGE_WORKING_PAGE"
    using assms(1) by (auto simp: write_ok_def Let_def i_def)
  have wf: "seg_wf (write_page off d (CalSegPtr s i))" for off
    using all_segsD [OF assms(2) i] write_page_wf by blast
  have v: "client_view (write_page (XcpAddrDecodeSegOffset dst) d (CalSegPtr s i))
      = patch (XcpAddrDecodeSegOffset dst) d (client_view (CalSegPtr s i))"
    using write_page_data [OF l] by (simp add: client_view_def)
  show ?thesis
  proof (cases "write_delayed s")
    case True
    from that [OF write_delayed_state [OF assms(1) True, folded i_def]] v x show ?thesis by simp
  next
    case False
    from that [OF write_direct_state [OF assms(1) False, folded i_def]] v x publish_once_view [OF wf] show ?thesis by simp
  qed
qed

lemma read_working:
  "i = XcpAddrDecodeSegNumber a \<Longrightarrow> i < XcpGetCalSegCount s \<Longrightarrow> XcpAddrDecodeSegOffset a + n \<le> seg_bytes (CalSegPtr s i) \<Longrightarrow>
   xcp_access (CalSegPtr s i) = XCP_CALPAGE_WORKING_PAGE \<Longrightarrow>
   XcpCalSegReadMemory a n s = Inr (take n (drop (XcpAddrDecodeSegOffset a) (client_view (CalSegPtr s i))))"
  by (simp add: XcpCalSegReadMemory_def Let_def xcp_page_offset_def client_view_def page_data_def mem_get_def
      take_map drop_map min_def add.assoc [symmetric])
    (auto simp: list_eq_iff_nth_eq add.assoc)

lemma take_drop_patch: "off + length d \<le> length xs \<Longrightarrow> take (length d) (drop off (patch off d xs)) = d"
  by (simp add: patch_def)

lemma client_view_length [simp]: "length (client_view c) = seg_bytes c"
  by (simp add: client_view_def page_data_def)

lemma read_written:
  assumes "all_segs (\<lambda>_. seg_wf) s" and "XcpCalSegWriteMemory dst d s = (CRC_CMD_OK, s')"
  shows "XcpCalSegReadMemory dst (length d) s' = Inr d"
proof -
  have w: "write_ok dst d s" using write_ok_iff [of dst d s] assms(2) by simp
  obtain f where f: "snd (XcpCalSegWriteMemory dst d s) = upd_calseg (XcpAddrDecodeSegNumber dst) f s"
    "client_view (f (CalSegPtr s (XcpAddrDecodeSegNumber dst))) =
       patch (XcpAddrDecodeSegOffset dst) d (client_view (CalSegPtr s (XcpAddrDecodeSegNumber dst)))"
    "xcp_access (f (CalSegPtr s (XcpAddrDecodeSegNumber dst))) = XCP_CALPAGE_WORKING_PAGE"
    "seg_bytes (f (CalSegPtr s (XcpAddrDecodeSegNumber dst))) = seg_bytes (CalSegPtr s (XcpAddrDecodeSegNumber dst))"
    using write_seg [OF w assms(1)] by blast
  have s': "s' = upd_calseg (XcpAddrDecodeSegNumber dst) f s" using assms(2) f(1) by simp
  have l: "XcpAddrDecodeSegOffset dst + length d \<le> seg_bytes (CalSegPtr s (XcpAddrDecodeSegNumber dst))"
    and i: "XcpAddrDecodeSegNumber dst < XcpGetCalSegCount s" using w by (auto simp: write_ok_def Let_def)
  have "XcpCalSegReadMemory dst (length d) s' =
      Inr (take (length d) (drop (XcpAddrDecodeSegOffset dst) (client_view (CalSegPtr s' (XcpAddrDecodeSegNumber dst)))))"
    by (rule read_working [OF refl]) (simp_all add: s' i l f(3,4))
  then show ?thesis using l by (simp add: s' f(2) take_drop_patch)
qed

end
