(* ===== verification/Xcp_Cal_Visible.thy ===== *)
theory Xcp_Cal_Visible
  imports Xcp_Cal_Spec
begin

text \<open>
  When calibration changes reach the readers: completely after the end of a transaction, and for a change that could
  not be published at once after the readers have let go of the old page.
\<close>

section \<open>After the end of a transaction\<close>

lemma run_reader_pending: "write_pending (cal_pool (run_reader op s) p) = write_pending (cal_pool s p)"
  by (cases op) (simp_all add: XcpLockCalSeg_def XcpUnlockCalSeg_def split_beta cal_pool_upd CalSegPtr_def)

lemma run_readers_pending: "write_pending (cal_pool (run_readers ops s) p) = write_pending (cal_pool s p)"
  unfolding run_readers_def by (induction ops arbitrary: s) (simp_all add: run_reader_pending)

lemma try_publish_pending:
  "p \<noteq> calseg_offset s i \<Longrightarrow> write_pending (cal_pool (snd (try_publish i s)) p) = write_pending (cal_pool s p)"
  by (simp add: try_publish_state cal_pool_upd)

lemma same_list_offset: "same_list s s' \<Longrightarrow> calseg_offset s' = calseg_offset s"
  by (simp add: same_list_def)

lemma retry_pending:
  "p \<noteq> calseg_offset s i \<Longrightarrow> write_pending (cal_pool (snd (publish_retry n sched i s)) p) = write_pending (cal_pool s p)"
proof (induction n arbitrary: s)
  case (Suc n)
  define r where "r = run_readers (sched n) s"
  have o: "calseg_offset r = calseg_offset s" using run_readers_same [of s "sched n"] by (simp add: r_def same_list_def)
  have o': "calseg_offset (snd (try_publish i r)) = calseg_offset r" using try_publish_same [of r i] by (simp add: same_list_def)
  have "write_pending (cal_pool (snd (try_publish i r)) p) = write_pending (cal_pool s p)"
    using try_publish_pending [of p r i] Suc.prems run_readers_pending [of "sched n" s p] o by (simp add: r_def)
  with Suc.IH [of "snd (try_publish i r)"] Suc.prems show ?case
    by (auto simp: r_def [symmetric] o o' split: prod.split bool.split)
qed simp

lemma publish_pending_other:
  assumes "p \<noteq> calseg_offset s i"
  shows "write_pending (cal_pool (snd (XcpCalSegPublish sched i wait s)) p) = write_pending (cal_pool s p)"
proof -
  obtain b t where e: "try_publish i s = (b, t)" by fastforce
  have t: "write_pending (cal_pool t p) = write_pending (cal_pool s p)" and ot: "calseg_offset t = calseg_offset s"
    using try_publish_pending [OF assms] try_publish_same [of s i] e by (simp_all add: same_list_def)
  obtain b' u where r: "publish_retry XCP_CALSEG_AQUIRE_FREE_PAGE_TIMEOUT sched i t = (b', u)" by fastforce
  have u: "write_pending (cal_pool u p) = write_pending (cal_pool s p)" and ou: "calseg_offset u = calseg_offset s"
    using retry_pending [of p t i] publish_retry_same [of t] assms r t ot by (metis snd_conv, metis same_list_def snd_conv)
  show ?thesis using assms t u ot ou e r
    by (cases b; cases b'; cases wait) (simp_all add: XcpCalSegPublish_def cal_pool_upd)
qed

lemma publish_pending_self:
  assumes "XcpCalSegPublish sched i wait s = (r, s')"
  shows "write_pending (CalSegPtr s' i) = (r \<noteq> CRC_CMD_OK)"
  using assms by (auto simp: XcpCalSegPublish_def split: prod.splits bool.splits if_splits)

lemma publish_fold_ok:
  "fold (publish_one sched wait) is (r, s) = (CRC_CMD_OK, s') \<Longrightarrow>
     r = CRC_CMD_OK \<and> (\<forall>p. \<not> write_pending (cal_pool s p) \<longrightarrow> \<not> write_pending (cal_pool s' p))
     \<and> (\<forall>i \<in> set is. \<not> write_pending (CalSegPtr s' i))"
proof (induction "is" arbitrary: r s)
  case (Cons i "is")
  obtain r1 s1 where e: "publish_one sched wait i (r, s) = (r1, s1)" by fastforce
  with Cons.prems have f: "fold (publish_one sched wait) is (r1, s1) = (CRC_CMD_OK, s')" by simp
  note IH = Cons.IH [OF f]
  have o: "calseg_offset s1 = calseg_offset s" "calseg_offset s' = calseg_offset s1"
    using publish_one_same [of s sched wait i r] publish_fold_same [of s1 "(r1, s1)" sched wait "is"] e f
    by (simp_all add: same_list_def)
  have "r = CRC_CMD_OK \<and> \<not> write_pending (CalSegPtr s1 i)
      \<and> (\<forall>p. \<not> write_pending (cal_pool s p) \<longrightarrow> \<not> write_pending (cal_pool s1 p))"
  proof (cases "write_pending (CalSegPtr s i)")
    case True
    obtain q t where p: "XcpCalSegPublish (sched i) i wait s = (q, t)" by fastforce
    with e True have t: "s1 = t" "r1 = (if q = CRC_CMD_OK then r else q)" by (auto simp: publish_one_def)
    with IH have q: "q = CRC_CMD_OK" "r = CRC_CMD_OK" by (auto split: if_splits)
    have "\<not> write_pending (cal_pool s1 p')" if "\<not> write_pending (cal_pool s p')" for p'
      using publish_pending_other [of p' s i "sched i" wait] that True p t(1)
      by (cases "p' = calseg_offset s i") (simp_all add: CalSegPtr_def)
    with publish_pending_self [OF p] q t(1) show ?thesis by simp
  next
    case False
    with e IH show ?thesis by (auto simp: publish_one_def)
  qed
  with IH o show ?case by (auto simp: CalSegPtr_def)
qed simp

lemma publish_all_ok:
  assumes "XcpCalSegPublishAll sched wait s = (CRC_CMD_OK, s')" and "\<not> write_delayed s" and "0 < i" and "i < XcpGetCalSegCount s"
  shows "\<not> write_pending (CalSegPtr s' i)"
  using publish_fold_ok [of sched wait "[1..<XcpGetCalSegCount s]" CRC_CMD_OK s s'] assms
  by (simp add: XcpCalSegPublishAll_def)

lemma publish_all_view:
  assumes "all_segs (\<lambda>_. seg_wf) s" and "i < XcpGetCalSegCount s"
  shows "client_view (CalSegPtr (snd (XcpCalSegPublishAll sched wait s)) i) = client_view (CalSegPtr s i)"
proof -
  define v where "v p = client_view (cal_pool s p)" for p
  have "all_segs (seg_view v) s" using assms(1) by (simp add: all_segs_def seg_view_def v_def)
  then have "all_segs (seg_view v) (snd (XcpCalSegPublishAll sched wait s))" by (rule views.publish_all_inv)
  moreover have sl: "same_list s (snd (XcpCalSegPublishAll sched wait s))" by (rule XcpCalSegPublishAll_same)
  ultimately show ?thesis using assms(2)
    by (auto simp: same_list_def v_def CalSegPtr_def seg_view_def dest!: all_segsD [where i = i])
qed

text \<open>The end of a transaction that reports success: every segment with a number shows its readers, once they
  lock it anew, what the client wrote.\<close>

lemma count_delayed [simp]: "XcpGetCalSegCount (s\<lparr>write_delayed := b\<rparr>) = XcpGetCalSegCount s"
  "CalSegPtr (s\<lparr>write_delayed := b\<rparr>) = CalSegPtr s"
  by (simp_all add: XcpGetCalSegCount_def isActivated_def CalSegPtr_def fun_eq_iff)

lemma end_transaction_view:
  assumes ok: "all_segs seg_ok s" and e: "XcpCalSegEndAtomicTransaction sched s = (CRC_CMD_OK, s')"
    and i: "0 < i" "i < XcpGetCalSegCount s"
  shows "page_data (CalSegPtr s' i) (ecu_page_next (CalSegPtr s' i)) = client_view (CalSegPtr s i)"
proof -
  let ?t = "s\<lparr>write_delayed := False\<rparr>"
  have p: "XcpCalSegPublishAll sched True ?t = (CRC_CMD_OK, s')" using e by (simp add: XcpCalSegEndAtomicTransaction_def)
  have np: "\<not> write_pending (CalSegPtr s' i)" using publish_all_ok [OF p _ i(1)] i(2) by simp
  have t: "all_segs seg_ok ?t" by (rule ok.delayed_inv [OF ok])
  have s': "all_segs seg_ok s'" using ok.publish_all_inv [OF t, of sched True] p by simp
  have "i < XcpGetCalSegCount s'" using XcpCalSegPublishAll_same [of ?t sched True] p i(2) by (simp add: same_list_def)
  then have "seg_synced (CalSegPtr s' i)" using all_segsD [OF s'] by (simp add: seg_ok_def)
  moreover have "all_segs (\<lambda>_. seg_wf) ?t" using t by (simp add: all_segs_def seg_ok_def)
  from publish_all_view [OF this, of i sched True] p i(2) have "client_view (CalSegPtr s' i) = client_view (CalSegPtr s i)" by simp
  ultimately show ?thesis using np by (simp add: seg_synced_def client_view_def)
qed

section \<open>Pending changes are not lost\<close>

text \<open>Two complete lock sections of a reader, then one background publication.\<close>

definition reader_cycle :: "nat \<Rightarrow> reader_op list" where
  "reader_cycle i = [ReaderLock i, ReaderUnlock i]"

lemma cycle_state:
  assumes "lock_count c = 0"
  shows "CalSegRcuUnlock (snd (CalSegRcuLock c)) =
     (if ecu_page c \<noteq> ecu_page_next c
      then c\<lparr>free_page_hazard := True, ecu_page := ecu_page_next c, free_page := ecu_page c\<rparr>
      else c\<lparr>free_page_hazard := False\<rparr>)"
  using assms by (cases c) (simp add: CalSegRcuLock_def CalSegRcuUnlock_def Let_def)

lemma two_cycles:
  assumes "lock_count c = 0" and "seg_wf c"
  defines "c2 \<equiv> CalSegRcuUnlock (snd (CalSegRcuLock (CalSegRcuUnlock (snd (CalSegRcuLock c)))))"
  shows "\<not> free_page_hazard c2 \<and> free_page c2 \<noteq> XCP_CALSEG_NO_PAGE \<and> lock_count c2 = 0"
proof -
  have b: "seg_bytes c \<le> 65528" using assms(2) by (simp add: seg_wf_def)
  show ?thesis
  proof (cases "ecu_page c = ecu_page_next c")
    case True
    then have "free_page c \<in> seg_pages c" using assms(2) by (auto simp: seg_wf_def)
    from seg_pages_real [OF b this] True assms(1) show ?thesis by (auto simp: c2_def cycle_state)
  next
    case False
    then have "ecu_page c \<in> seg_pages c" using assms(2) by (auto simp: seg_wf_def)
    from seg_pages_real [OF b this] False assms(1) show ?thesis by (auto simp: c2_def cycle_state)
  qed
qed

lemma cycles_run:
  "run_readers (reader_cycle i @ reader_cycle i) s =
     upd_calseg i (\<lambda>c. CalSegRcuUnlock (snd (CalSegRcuLock (CalSegRcuUnlock (snd (CalSegRcuLock c)))))) s"
  by (simp add: run_readers_def reader_cycle_def XcpLockCalSeg_def XcpUnlockCalSeg_def split_beta upd_calseg_def CalSegPtr_def)

lemma publish_one_nowait:
  "snd (publish_one sched False i (r, s)) = (if write_pending (CalSegPtr s i) then upd_calseg i publish_once s else s)"
  by (simp add: publish_one_def publish_nowait)

lemma publish_fold_nowait:
  assumes "inj_on (calseg_offset s) (insert i (set is))" and "distinct is"
  shows "CalSegPtr (snd (fold (publish_one sched False) is (r, s))) i =
     (if i \<in> set is \<and> write_pending (CalSegPtr s i) then publish_once (CalSegPtr s i) else CalSegPtr s i)"
  using assms
proof (induction "is" arbitrary: r s)
  case (Cons j "is")
  obtain r1 s1 where e: "publish_one sched False j (r, s) = (r1, s1)" by fastforce
  then have s1: "s1 = (if write_pending (CalSegPtr s j) then upd_calseg j publish_once s else s)"
    using publish_one_nowait [of sched j r s] by simp
  then have o: "calseg_offset s1 = calseg_offset s" by simp
  have "inj_on (calseg_offset s1) (insert i (set is))" using Cons.prems(1) unfolding o
    by (rule inj_on_subset) auto
  with Cons.IH [of s1 r1] Cons.prems(2) have I: "CalSegPtr (snd (fold (publish_one sched False) is (r1, s1))) i =
     (if i \<in> set is \<and> write_pending (CalSegPtr s1 i) then publish_once (CalSegPtr s1 i) else CalSegPtr s1 i)" by simp
  have ne: "calseg_offset s i \<noteq> calseg_offset s j" if "i \<noteq> j"
    using Cons.prems(1) that by (auto simp: inj_on_def)
  show ?case using I Cons.prems(2) ne by (auto simp: e s1 CalSegPtr_upd)
qed simp

lemma publish_all_nowait:
  assumes "inj_on (calseg_offset s) {..<XcpGetCalSegCount s}" and "\<not> write_delayed s" and "0 < i" "i < XcpGetCalSegCount s"
  shows "CalSegPtr (snd (XcpCalSegPublishAll sched False s)) i =
     (if write_pending (CalSegPtr s i) then publish_once (CalSegPtr s i) else CalSegPtr s i)"
proof -
  have "insert i (set [1..<XcpGetCalSegCount s]) \<subseteq> {..<XcpGetCalSegCount s}" using assms(4) by auto
  then have "inj_on (calseg_offset s) (insert i (set [1..<XcpGetCalSegCount s]))" using assms(1) inj_on_subset by blast
  from publish_fold_nowait [OF this, where sched = sched and r = CRC_CMD_OK] assms(2-4) show ?thesis
    by (simp add: XcpCalSegPublishAll_def)
qed

lemma publish_once_ok:
  assumes "seg_wf c" and "\<not> free_page_hazard c" and "free_page c \<noteq> XCP_CALSEG_NO_PAGE"
  shows "page_data (publish_once c) (ecu_page_next (publish_once c)) = client_view c"
proof -
  obtain c' where c': "CalSegRcuTryPublish c = (True, c')" using assms(2,3) by (simp add: CalSegRcuTryPublish_def)
  with publish_ok_data(1) [OF assms(1) c'] show ?thesis by (simp add: publish_once_def client_view_def)
qed

lemma pending_delivered:
  assumes ok: "all_segs seg_ok s" and i: "0 < i" "i < XcpGetCalSegCount s" and nd: "\<not> write_delayed s"
    and inj: "inj_on (calseg_offset s) {..<XcpGetCalSegCount s}"
    and l: "lock_count (CalSegPtr s i) = 0" and w: "ecu_access (CalSegPtr s i) = XCP_CALPAGE_WORKING_PAGE"
  defines "s1 \<equiv> run_readers (reader_cycle i @ reader_cycle i) s"
  shows "reader_view (CalSegPtr (snd (XcpCalSegPublishAll sched False s1)) i) = client_view (CalSegPtr s i)"
proof -
  define c where "c = CalSegPtr s i"
  define c2 where "c2 = CalSegRcuUnlock (snd (CalSegRcuLock (CalSegRcuUnlock (snd (CalSegRcuLock c)))))"
  have s1: "s1 = upd_calseg i (\<lambda>_. c2) s" by (simp add: s1_def cycles_run c2_def c_def upd_calseg_def)
  have so: "seg_ok 0 c" using all_segsD [OF ok i(2)] by (simp add: c_def seg_ok_def)
  then have wf: "seg_wf c" "seg_wf c2" by (auto simp: seg_ok_def c2_def seg_wf_lock seg_wf_unlock)
  have t: "\<not> free_page_hazard c2" "free_page c2 \<noteq> XCP_CALSEG_NO_PAGE" "lock_count c2 = 0"
    using two_cycles [OF _ wf(1)] l by (auto simp: c2_def c_def)
  have v: "client_view c2 = client_view c" "ecu_access c2 = XCP_CALPAGE_WORKING_PAGE"
    using w by (simp_all add: c2_def c_def)
  have sy: "seg_synced c2" using so by (simp add: c2_def seg_ok_def seg_synced_def)
  have r: "CalSegPtr (snd (XcpCalSegPublishAll sched False s1)) i = (if write_pending c2 then publish_once c2 else c2)"
    using publish_all_nowait [of s1 i sched] inj nd i by (simp add: s1)
  have lp: "lock_count (publish_once c2) = 0"
    using t by (simp add: publish_once_def CalSegRcuTryPublish_def)
  show ?thesis
  proof (cases "write_pending c2")
    case True
    with r publish_once_ok [OF wf(2) t(1,2)] lp v show ?thesis by (simp add: reader_view_def c_def)
  next
    case False
    with r synced_view [OF sy False t(3) v(2)] v show ?thesis by (simp add: c_def)
  qed
qed

end
