(* ===== verification/Xcp_Cal_Create.thy ===== *)
theory Xcp_Cal_Create
  imports Xcp_Cal_Visible
begin

text \<open>
  The creation of calibration segments: blocks of the pool never overlap, a new segment starts with its
  working pages equal to the reference page, existing segments are left alone, and a name that is already
  registered gives back its segment - as long as it fits the 23 characters that are stored.
\<close>

definition block_size :: "nat \<Rightarrow> nat" where
  "block_size n = XCP_CALSEG_HEADER_SIZE + CALSEG_PAGE_COUNT * align_up XCP_CALPAGE_ALIGNMENT n"

definition pool_ok :: "'a xcp_cal_scheme \<Rightarrow> bool" where
  "pool_ok s \<longleftrightarrow> cal_mem_used s \<le> XCP_CAL_MEM_SIZE \<and> XcpGetCalSegCount s < XCP_MAX_CALSEG_COUNT
     \<and> (\<forall>i < XcpGetCalSegCount s. calseg_offset s i + block_size (seg_bytes (CalSegPtr s i)) \<le> cal_mem_used s)
     \<and> (\<forall>j < XcpGetCalSegCount s. \<forall>i < j.
          calseg_offset s i + block_size (seg_bytes (CalSegPtr s i)) \<le> calseg_offset s j)"

lemma block_size_pos: "0 < block_size n"
  by (simp add: block_size_def)

lemma pool_ok_inj:
  assumes "pool_ok s" shows "inj_on (calseg_offset s) {..<XcpGetCalSegCount s}"
proof -
  have lt: "calseg_offset s i < calseg_offset s j" if "i < j" "j < XcpGetCalSegCount s" for i j
    using assms that block_size_pos [of "seg_bytes (CalSegPtr s i)"] unfolding pool_ok_def
    by (meson add_lessD1 le_less_trans less_add_same_cancel1 linorder_not_le order_less_le_trans)
  then show ?thesis by (intro linorder_inj_onI) (auto simp: order_less_imp_not_eq)
qed

lemma aligned_page_size_small: "n \<le> 65528 \<Longrightarrow> aligned_page_size n = align_up XCP_CALPAGE_ALIGNMENT n"
proof -
  assume n: "n \<le> 65528"
  have "(n + 7) div 8 \<le> 8191" using n by (simp add: div_le_dividend less_mult_imp_div_less order.strict_implies_order)
  then have "align_up 8 n < 65536" by (simp add: align_up_def)
  then show ?thesis by (simp add: aligned_page_size_def)
qed

section \<open>The new segment\<close>

lemma init_calseg_access [simp]:
  "seg_bytes (init_calseg b name num n page c) = n" "calseg_number (init_calseg b name num n page c) = num"
  "write_pending (init_calseg b name num n page c) = False"
  "calseg_name (init_calseg b name num n page c) = take (STRNLEN name XCP_MAX_CALSEG_NAME) name"
  "seg_mode (init_calseg b name num n page c) = seg_mode c"
  by (simp_all add: init_calseg_def CalSegRcuInit_def CalSegRcuReset_def Let_def)

lemma init_calseg_ok:
  assumes n: "0 < n" "n \<le> 65528" and p: "length page = n" and c': "c' = init_calseg True name num n page c"
  shows "seg_wf c'" and "page_data c' 0 = page" and "client_view c' = page" and "reader_view c' = page"
proof -
  define a where "a = align_up 8 n"
  have a: "aligned_page_size n = a" "n \<le> a" "0 < a"
    using aligned_page_size_small [OF n(2)] align_up_ge [of 8 n] n by (auto simp: a_def)
  have f: "seg_bytes c' = n" "xcp_page c' = a" "ecu_page c' = 2 * a" "ecu_page_next c' = 2 * a" "free_page c' = 3 * a"
    "CalSegAlignedPageSize c' = a" "lock_count c' = 0" "ecu_access c' = 0"
    using a by (simp_all add: c' init_calseg_def CalSegRcuInit_def CalSegRcuReset_def Let_def
        CalSegAlignedPageSize_def a_def)
  have m: "seg_mem c' = mem_copy a 0 n (mem_copy (2 * a) 0 n (mem_set 0 page (seg_mem c)))"
    using a by (simp add: c' init_calseg_def CalSegRcuInit_def CalSegRcuReset_def Let_def)
  show "seg_wf c'" using n a by (simp add: seg_wf_def seg_pages_def f)
  have r: "mem_get 0 n (mem_set 0 page (seg_mem c)) = page" using mem_get_set_same [of 0 page] p by simp
  show d: "page_data c' 0 = page" using a r by (simp add: page_data_def f m mem_simps)
  show "client_view c' = page" using a r by (simp add: client_view_def page_data_def f m mem_simps)
  show "reader_view c' = page" using a r by (simp add: reader_view_def page_data_def f m mem_simps)
qed

section \<open>The creating functions\<close>

fun source_page :: "nat \<Rightarrow> page_source \<Rightarrow> u8 list option" where
  "source_page n (PageData d) = (if length d < n then None else Some (take n d))"
| "source_page n (PageFile d) = (if length d < n then None else Some (take n d))"
| "source_page n NoPage = None"

text \<open>A caller's page has at least the size it is announced with.\<close>

fun caller_page :: "nat \<Rightarrow> page_source \<Rightarrow> bool" where
  "caller_page n (PageData d) \<longleftrightarrow> n \<le> length d"
| "caller_page n (PageFile d) \<longleftrightarrow> True"
| "caller_page n NoPage \<longleftrightarrow> True"

lemma pool_upd_offsets: "seg_offsets (s\<lparr>cal_pool := f\<rparr>) = seg_offsets s"
  "seg_offsets (s\<lparr>cal_mem_used := n\<rparr>) = seg_offsets s" "seg_offsets (s\<lparr>memory_segment_count := n\<rparr>) = seg_offsets s"
  by (simp_all add: seg_offsets_def XcpGetCalSegCount_def isActivated_def)

lemma count_upd [simp]: "XcpGetCalSegCount (s\<lparr>cal_pool := f\<rparr>) = XcpGetCalSegCount s"
  "XcpGetCalSegCount (s\<lparr>cal_mem_used := n\<rparr>) = XcpGetCalSegCount s"
  "XcpGetCalSegCount (s\<lparr>memory_segment_count := n\<rparr>) = XcpGetCalSegCount s"
  "isActivated (s\<lparr>cal_pool := f\<rparr>) = isActivated s" "isActivated (s\<lparr>cal_mem_used := n\<rparr>) = isActivated s"
  "isActivated (s\<lparr>memory_segment_count := n\<rparr>) = isActivated s" "isActivated (s\<lparr>calseg_offset := g\<rparr>) = isActivated s"
  "isActivated (s\<lparr>calseg_count := n\<rparr>) = isActivated s"
  by (simp_all add: XcpGetCalSegCount_def isActivated_def)

text \<open>What the functions leave of the segments that were there before.\<close>

definition keeps_segs :: "'a xcp_cal_scheme \<Rightarrow> 'a xcp_cal_scheme \<Rightarrow> bool" where
  "keeps_segs s s' \<longleftrightarrow> isActivated s' = isActivated s \<and> XcpGetCalSegCount s \<le> XcpGetCalSegCount s'
     \<and> (\<forall>j < XcpGetCalSegCount s. calseg_offset s' j = calseg_offset s j \<and> CalSegPtr s' j = CalSegPtr s j)"

lemma keeps_segs_refl [simp]: "keeps_segs s s"
  by (simp add: keeps_segs_def)

lemma alloc_state:
  assumes "XcpCalMemAlloc (XCP_CALSEG_HEADER_SIZE + CALSEG_PAGE_COUNT * aligned_page_size n) s = (Some off, s1)"
    and "pool_ok s" and "n \<le> 65528"
  shows "off = cal_mem_used s" and "s1 = s\<lparr>cal_mem_used := cal_mem_used s + block_size n\<rparr>"
    and "cal_mem_used s + block_size n \<le> XCP_CAL_MEM_SIZE"
proof -
  have b: "XCP_CALSEG_HEADER_SIZE + CALSEG_PAGE_COUNT * aligned_page_size n = block_size n"
    using aligned_page_size_small [OF assms(3)] by (simp add: block_size_def)
  have "align_up 8 n < n + 8" by (rule align_up_less) simp
  then have s: "cal_mem_used s + block_size n < 2 ^ 32" using assms(2,3) by (simp add: block_size_def pool_ok_def)
  then have m: "(cal_mem_used s + block_size n) mod 2 ^ 32 = cal_mem_used s + block_size n" by simp
  have e: "XcpCalMemAlloc (block_size n) s = (Some off, s1)" using assms(1) b by simp
  have l: "cal_mem_used s + block_size n \<le> XCP_CAL_MEM_SIZE"
    using e m by (auto simp: XcpCalMemAlloc_def Let_def split: if_splits)
  then show "cal_mem_used s + block_size n \<le> XCP_CAL_MEM_SIZE" .
  show "off = cal_mem_used s" "s1 = s\<lparr>cal_mem_used := cal_mem_used s + block_size n\<rparr>"
    using e m l by (auto simp: XcpCalMemAlloc_def Let_def split: if_splits)
qed

lemma init_state:
  assumes "XcpInitCalSeg off name src n ms s = (ok, s2)" and "caller_page n src"
  obtains cnt where "\<not> ok" "s2 = s\<lparr>memory_segment_count := cnt\<rparr>"
  | cnt num page where "ok" "source_page n src = Some page" "length page = n"
    "s2 = s\<lparr>memory_segment_count := cnt, cal_pool := (cal_pool s)(off := init_calseg (isActivated s) name num n page (cal_pool s off))\<rparr>"
proof -
  have u: "s\<lparr>memory_segment_count := memory_segment_count s\<rparr> = s" by simp
  show thesis
  proof (cases "ms \<and> 0xFF \<le> memory_segment_count s")
    case True
    with assms(1) have "\<not> ok" "s2 = s\<lparr>memory_segment_count := memory_segment_count s\<rparr>"
      by (auto simp: XcpInitCalSeg_def)
    then show thesis by (rule that(1))
  next
    case False
    define cnt where "cnt = (if ms then memory_segment_count s + 1 else memory_segment_count s)"
    define num where "num = (if ms then memory_segment_count s else XCP_UNDEFINED_CALSEG_NUM)"
    have "XcpInitCalSeg off name src n ms s = (case source_page n src of
        None \<Rightarrow> (False, s\<lparr>memory_segment_count := cnt\<rparr>)
      | Some page \<Rightarrow> (True, s\<lparr>memory_segment_count := cnt,
          cal_pool := (cal_pool s)(off := init_calseg (isActivated s) name num n page (cal_pool s off))\<rparr>))"
      using False assms(2) by (cases src) (auto simp: XcpInitCalSeg_def cnt_def num_def Let_def)
    then show thesis using that assms(1)
      by (cases src) (auto split: if_splits)
  qed
qed

lemma seg_new_offset:
  assumes "pool_ok s" and "j < XcpGetCalSegCount s" shows "calseg_offset s j \<noteq> cal_mem_used s"
  using assms block_size_pos [of "seg_bytes (CalSegPtr s j)"] unfolding pool_ok_def by fastforce

lemma pool_ok_cong:
  assumes "pool_ok s" and "keeps_segs s s'" and "XcpGetCalSegCount s' = XcpGetCalSegCount s"
    and "cal_mem_used s \<le> cal_mem_used s'" and "cal_mem_used s' \<le> XCP_CAL_MEM_SIZE"
  shows "pool_ok s'"
  using assms unfolding pool_ok_def keeps_segs_def by (auto intro: le_trans)

lemma all_segs_keeps:
  assumes "all_segs P s" and "keeps_segs s s'" and "XcpGetCalSegCount s' = XcpGetCalSegCount s"
  shows "all_segs P s'"
  using assms by (auto simp: all_segs_def seg_offsets_def keeps_segs_def CalSegPtr_def)

lemma create_new:
  assumes ok: "isActivated s" "all_segs seg_ok s" "pool_ok s" and n: "0 < n" "n \<le> 65528" and src: "caller_page n src"
    and al: "XcpCalMemAlloc (XCP_CALSEG_HEADER_SIZE + CALSEG_PAGE_COUNT * aligned_page_size n) s = (Some off, s1)"
    and i: "XcpInitCalSeg off name src n ms s1 = (True, s2)" and r: "XcpRegisterCalSeg off s2 = (j, s3)"
    and j: "j \<noteq> XCP_UNDEFINED_CALSEG"
  shows "all_segs seg_ok s3 \<and> pool_ok s3 \<and> keeps_segs s s3 \<and> j = XcpGetCalSegCount s
    \<and> XcpGetCalSegCount s3 = Suc j \<and> source_page n src = Some (reader_view (CalSegPtr s3 j))
    \<and> calseg_name (CalSegPtr s3 j) = take (STRNLEN name XCP_MAX_CALSEG_NAME) name \<and> seg_bytes (CalSegPtr s3 j) = n"
proof -
  note a = alloc_state [OF al ok(3) n(2)]
  obtain cnt num page where page: "source_page n src = Some page" "length page = n"
    and s2: "s2 = s1\<lparr>memory_segment_count := cnt, cal_pool := (cal_pool s1)(off := init_calseg (isActivated s1) name num n page (cal_pool s1 off))\<rparr>"
    using init_state [OF i src] by blast
  have act: "isActivated s2" using ok(1) by (simp add: s2 a(2))
  have k: "XcpGetCalSegCount s2 = XcpGetCalSegCount s" by (simp add: s2 a(2))
  define c where "c = init_calseg True name num n page (cal_pool s off)"
  have cnt: "XcpGetCalSegCount s < XCP_MAX_CALSEG_COUNT - 1" and jj: "j = XcpGetCalSegCount s"
    and s3: "s3 = s2\<lparr>calseg_offset := (calseg_offset s2)(XcpGetCalSegCount s := off), calseg_count := XcpGetCalSegCount s + 1\<rparr>"
    using r j k by (auto simp: XcpRegisterCalSeg_def Let_def split: if_splits)
  have k3: "XcpGetCalSegCount s3 = Suc (XcpGetCalSegCount s)" using act by (simp add: s3 XcpGetCalSegCount_def isActivated_def)
  have pool: "cal_pool s3 = (cal_pool s)(off := c)" "cal_mem_used s3 = cal_mem_used s + block_size n"
    "calseg_offset s3 = (calseg_offset s)(j := off)"
    using ok(1) by (simp_all add: s3 s2 a(2) c_def jj)
  have old: "calseg_offset s3 i = calseg_offset s i \<and> CalSegPtr s3 i = CalSegPtr s i" if "i < j" for i
    using seg_new_offset [OF ok(3)] that a(1) by (simp add: pool jj CalSegPtr_def)
  have new: "CalSegPtr s3 j = c" "calseg_offset s3 j = off" by (simp_all add: pool CalSegPtr_def)
  note ini = init_calseg_ok [OF n page(2) c_def]
  have seg: "seg_ok off c"
    using ini(1,3,4) by (simp add: seg_ok_def seg_synced_def client_view_def reader_view_def c_def init_calseg_def
        CalSegRcuInit_def CalSegRcuReset_def Let_def)
  have "all_segs seg_ok s3"
    unfolding all_segs_def seg_offsets_def
  proof
    fix p assume "p \<in> calseg_offset s3 ` {..<XcpGetCalSegCount s3}"
    then obtain i where i': "i < Suc j" "p = calseg_offset s3 i" using k3 jj by auto
    show "seg_ok p (cal_pool s3 p)"
    proof (cases "i = j")
      case True
      then show ?thesis using i' new seg by (simp add: CalSegPtr_def)
    next
      case False
      then have "i < j" using i' by simp
      with old [of i] i' all_segsD [OF ok(2), of i] jj have "seg_ok (calseg_offset s3 i) (CalSegPtr s3 i)" by simp
      with i' show ?thesis by (simp add: CalSegPtr_def)
    qed
  qed
  moreover have "pool_ok s3"
  proof -
    have b: "calseg_offset s i + block_size (seg_bytes (CalSegPtr s i)) \<le> off" if "i < j" for i
      using ok(3) that a(1) by (simp add: pool_ok_def jj)
    have q: "i < j \<or> i = j" if "i < Suc j" for i using that by auto
    have bs: "seg_bytes c = n" by (simp add: c_def)
    show ?thesis unfolding pool_ok_def k3 jj [symmetric]
    proof (intro conjI allI impI)
      show "cal_mem_used s3 \<le> XCP_CAL_MEM_SIZE" using a(3) by (simp add: pool)
      show "Suc j < XCP_MAX_CALSEG_COUNT" using cnt jj by simp
    next
      fix i assume "i < Suc j"
      from q [OF this] show "calseg_offset s3 i + block_size (seg_bytes (CalSegPtr s3 i)) \<le> cal_mem_used s3"
        using old new b [of i] bs a(1) by (auto simp: pool(2) intro: le_trans)
    next
      fix i' i assume "i' < Suc j" "i < i'"
      moreover from this have "i < j" by simp
      moreover have "calseg_offset s i + block_size (seg_bytes (CalSegPtr s i)) \<le> calseg_offset s i'" if "i' < j"
        using ok(3) that \<open>i < i'\<close> by (simp add: pool_ok_def jj)
      ultimately show "calseg_offset s3 i + block_size (seg_bytes (CalSegPtr s3 i)) \<le> calseg_offset s3 i'"
        using old [of i] old [of i'] new b [of i] q [of i'] by auto
    qed
  qed
  moreover have "keeps_segs s s3" using old k3 act ok(1) by (simp add: keeps_segs_def jj s3)
  ultimately show ?thesis using jj k3 page ini(4) new by (simp add: c_def)
qed

text \<open>A failed creation may leave pool bytes and a segment number behind, but no segment changes.\<close>

lemma create_failed:
  assumes ok: "all_segs seg_ok s" "pool_ok s" and n: "n \<le> 65528" and src: "caller_page n src"
    and al: "XcpCalMemAlloc (XCP_CALSEG_HEADER_SIZE + CALSEG_PAGE_COUNT * aligned_page_size n) s = (Some off, s1)"
    and i: "XcpInitCalSeg off name src n ms s1 = (b, s2)"
  shows "all_segs seg_ok s2 \<and> pool_ok s2 \<and> keeps_segs s s2"
proof -
  note a = alloc_state [OF al ok(2) n]
  have o: "calseg_offset s j \<noteq> off" if "j < XcpGetCalSegCount s" for j
    using seg_new_offset [OF ok(2) that] a(1) by simp
  obtain cnt f where s2: "s2 = s1\<lparr>memory_segment_count := cnt, cal_pool := f\<rparr>" "\<And>p. p \<noteq> off \<Longrightarrow> f p = cal_pool s1 p"
  proof (rule init_state [OF i src])
    fix cnt assume "s2 = s1\<lparr>memory_segment_count := cnt\<rparr>"
    then show thesis using that [where cnt = cnt and f = "cal_pool s1"] by simp
  next
    fix cnt num page
    assume "s2 = s1\<lparr>memory_segment_count := cnt, cal_pool := (cal_pool s1)(off := init_calseg (isActivated s1) name num n page (cal_pool s1 off))\<rparr>"
    then show thesis by (rule that) simp
  qed
  have k: "XcpGetCalSegCount s2 = XcpGetCalSegCount s" by (simp add: s2 a(2))
  have ks: "keeps_segs s s2" using o by (simp add: keeps_segs_def s2 a(2) CalSegPtr_def)
  moreover have "cal_mem_used s2 = cal_mem_used s + block_size n" by (simp add: s2 a(2))
  ultimately show ?thesis
    using all_segs_keeps [OF ok(1) ks k] pool_ok_cong [OF ok(2) ks k] a(3) by simp
qed

lemma register_failed: "XcpRegisterCalSeg off s = (XCP_UNDEFINED_CALSEG, s') \<Longrightarrow> XcpGetCalSegCount s < 65535 \<Longrightarrow> s' = s"
  by (auto simp: XcpRegisterCalSeg_def Let_def split: if_splits)

text \<open>Existing segments only lose the preload mark.\<close>

definition same_pages :: "tXcpCalSeg \<Rightarrow> tXcpCalSeg \<Rightarrow> bool" where
  "same_pages c c' \<longleftrightarrow> c'\<lparr>seg_mode := seg_mode c\<rparr> = c"

lemma finish_ok:
  assumes "all_segs seg_ok s" and "pool_ok s" and "finish_calseg n i s = (j, s')"
  shows "all_segs seg_ok s' \<and> pool_ok s' \<and> isActivated s' = isActivated s \<and> XcpGetCalSegCount s' = XcpGetCalSegCount s
    \<and> (\<forall>k. calseg_offset s' k = calseg_offset s k \<and> same_pages (CalSegPtr s k) (CalSegPtr s' k))
    \<and> (j \<noteq> XCP_UNDEFINED_CALSEG \<longrightarrow> j = i \<and> seg_bytes (CalSegPtr s i) = n)"
proof -
  have r: "same_pages c c" for c by (simp add: same_pages_def)
  have m: "same_pages c (c\<lparr>seg_mode := 0\<rparr>)" for c by (simp add: same_pages_def)
  show ?thesis
  proof (cases "n = seg_bytes (CalSegPtr s i) \<and> seg_mode (CalSegPtr s i) AND PAG_PROPERTY_PRELOAD \<noteq> 0")
    case True
    with assms(3) have e: "j = i" "s' = upd_calseg i (\<lambda>c. c\<lparr>seg_mode := 0\<rparr>) s"
      by (auto simp: finish_calseg_def)
    have "seg_bytes (CalSegPtr s' k) = seg_bytes (CalSegPtr s k)" for k
      by (simp add: e CalSegPtr_upd) (simp add: CalSegPtr_def)
    then have "pool_ok s'" using assms(2) by (simp add: pool_ok_def e)
    moreover have "all_segs seg_ok s'" unfolding e
      by (rule all_segs_upd [OF assms(1)]) (simp add: seg_ok_def seg_wf_cong seg_synced_def)
    moreover have "same_pages (CalSegPtr s k) (CalSegPtr s' k)" for k
      using r m by (simp add: e CalSegPtr_upd) (simp add: CalSegPtr_def)
    ultimately show ?thesis using True e by simp
  next
    case False
    with assms(3) have "s' = s" "j \<noteq> XCP_UNDEFINED_CALSEG \<Longrightarrow> j = i \<and> seg_bytes (CalSegPtr s i) = n"
      by (auto simp: finish_calseg_def split: if_splits)
    with assms r show ?thesis by auto
  qed
qed

lemma same_pages_refl [simp]: "same_pages c c"
  by (simp add: same_pages_def)

lemma same_pages_fields:
  "same_pages c c' \<Longrightarrow> seg_bytes c' = seg_bytes c \<and> reader_view c' = reader_view c \<and> client_view c' = client_view c
     \<and> calseg_name c' = calseg_name c \<and> page_data c' p = page_data c p"
  unfolding same_pages_def by (cases c; cases c') (simp add: reader_view_def client_view_def page_data_def)

lemma find_calseg_bound: "find_calseg P s \<noteq> XCP_UNDEFINED_CALSEG \<Longrightarrow> find_calseg P s < XcpGetCalSegCount s \<and> P (CalSegPtr s (find_calseg P s))"
proof -
  assume a: "find_calseg P s \<noteq> XCP_UNDEFINED_CALSEG"
  then obtain i "is" where f: "filter (\<lambda>i. P (CalSegPtr s i)) [0..<XcpGetCalSegCount s] = i # is"
    by (auto simp: find_calseg_def split: list.splits)
  have "i \<in> set (filter (\<lambda>i. P (CalSegPtr s i)) [0..<XcpGetCalSegCount s])" by (subst f) simp
  then have "i < XcpGetCalSegCount s \<and> P (CalSegPtr s i)" by simp
  then show ?thesis using f by (simp add: find_calseg_def)
qed

lemma create_result:
  assumes ok: "isActivated s" "all_segs seg_ok s" "pool_ok s" and n: "0 < n" "n \<le> 65528" and src: "caller_page n src"
    and c: "XcpCreateCalSeg_impl name lookup src n ms s = Some (j, s')"
  shows "all_segs seg_ok s' \<and> pool_ok s' \<and> isActivated s' \<and> XcpGetCalSegCount s \<le> XcpGetCalSegCount s'
    \<and> (\<forall>k < XcpGetCalSegCount s. calseg_offset s' k = calseg_offset s k \<and> same_pages (CalSegPtr s k) (CalSegPtr s' k))
    \<and> (j \<noteq> XCP_UNDEFINED_CALSEG \<longrightarrow> j < XcpGetCalSegCount s' \<and> seg_bytes (CalSegPtr s' j) = n
        \<and> (XcpGetCalSegCount s \<le> j \<longrightarrow> source_page n src = Some (reader_view (CalSegPtr s' j))))
    \<and> (\<forall>k. XcpGetCalSegCount s \<le> k \<and> k < XcpGetCalSegCount s' \<longrightarrow>
        calseg_name (CalSegPtr s' k) = take (STRNLEN name XCP_MAX_CALSEG_NAME) name)"
proof -
  define i where "i = (if lookup then XcpFindCalSeg name s else XCP_UNDEFINED_CALSEG)"
  show ?thesis
  proof (cases "i = XCP_UNDEFINED_CALSEG")
    case False
    then have i: "i < XcpGetCalSegCount s" using find_calseg_bound [of "\<lambda>c. calseg_name c = name" s]
      by (auto simp: i_def XcpFindCalSeg_def split: if_splits)
    have "finish_calseg n i s = (j, s')" using c False by (simp add: XcpCreateCalSeg_impl_def i_def [symmetric] Let_def)
    from finish_ok [OF ok(2,3) this] i ok(1) same_pages_fields [of "CalSegPtr s i" "CalSegPtr s' i"] show ?thesis by auto
  next
    case True
    obtain a s1 where al: "XcpCalMemAlloc (XCP_CALSEG_HEADER_SIZE + CALSEG_PAGE_COUNT * aligned_page_size n) s = (a, s1)"
      by fastforce
    have "a \<noteq> None" using c True al
      by (cases a) (simp_all add: XcpCreateCalSeg_impl_def i_def [symmetric] Let_def)
    then obtain off where al: "XcpCalMemAlloc (XCP_CALSEG_HEADER_SIZE + CALSEG_PAGE_COUNT * aligned_page_size n) s = (Some off, s1)"
      using al by auto
    obtain b s2 where ini: "XcpInitCalSeg off name src n ms s1 = (b, s2)" by fastforce
    obtain r s3 where reg: "XcpRegisterCalSeg off s2 = (r, s3)" by fastforce
    note fail = create_failed [OF ok(2,3) n(2) src al ini]
    have "XcpGetCalSegCount s1 = XcpGetCalSegCount s" using alloc_state(2) [OF al ok(3) n(2)] by simp
    moreover have "XcpGetCalSegCount s2 = XcpGetCalSegCount s1" by (rule init_state [OF ini src]) simp_all
    ultimately have c2: "XcpGetCalSegCount s2 = XcpGetCalSegCount s" by simp
    have cnt: "XcpGetCalSegCount s2 < 65535" using fail by (auto simp: pool_ok_def)
    have e: "Some (j, s') = (if \<not> b then Some (XCP_UNDEFINED_CALSEG, s2)
        else if r = XCP_UNDEFINED_CALSEG then Some (XCP_UNDEFINED_CALSEG, s3) else Some (finish_calseg n r s3))"
      using c True al ini reg by (simp add: XcpCreateCalSeg_impl_def i_def [symmetric] Let_def split: bool.splits if_splits)
    consider "\<not> b" | "b" "r = XCP_UNDEFINED_CALSEG" | "b" "r \<noteq> XCP_UNDEFINED_CALSEG" by blast
    then show ?thesis
    proof cases
      case 1
      with e fail ok(1) c2 show ?thesis by (auto simp: keeps_segs_def)
    next
      case 2
      with e fail ok(1) register_failed [of off s2 s3] reg cnt c2 show ?thesis by (auto simp: keeps_segs_def)
    next
      case 3
      with ini have ini': "XcpInitCalSeg off name src n ms s1 = (True, s2)" by simp
      note new = create_new [OF ok n src al ini' reg 3(2)]
      from e 3 have f: "finish_calseg n r s3 = (j, s')" by simp
      note fin = finish_ok [OF _ _ f]
      have sp: "same_pages (CalSegPtr s3 k) (CalSegPtr s' k)" for k using fin new by blast
      have "same_pages (CalSegPtr s k) (CalSegPtr s' k)" if "k < XcpGetCalSegCount s" for k
        using sp [of k] new that by (simp add: keeps_segs_def)
      moreover have "calseg_name (CalSegPtr s' r) = take (STRNLEN name XCP_MAX_CALSEG_NAME) name"
        using new same_pages_fields [OF sp [of r]] by auto
      ultimately show ?thesis using fin new ok(1) same_pages_fields [OF sp, of j] same_pages_fields [OF sp, of r]
        by (auto simp: keeps_segs_def le_less_Suc_eq)
    qed
  qed
qed

section \<open>Long names\<close>

text \<open>The lookup compares the whole name with the stored prefix: a name of more than 23 characters is never
  found, so that the "create if not already exists" creates again.\<close>

lemma find_long_name:
  assumes "XCP_MAX_CALSEG_NAME < length name"
    and "\<forall>i < XcpGetCalSegCount s. length (calseg_name (CalSegPtr s i)) \<le> XCP_MAX_CALSEG_NAME"
  shows "XcpFindCalSeg name s = XCP_UNDEFINED_CALSEG"
proof (rule ccontr)
  assume "XcpFindCalSeg name s \<noteq> XCP_UNDEFINED_CALSEG"
  then show False
    using find_calseg_bound [of "\<lambda>c. calseg_name c = name" s] assms by (fastforce simp: XcpFindCalSeg_def)
qed

end
