(* ===== verification/Queue64v.thy ===== *)
theory Queue64v
  imports Xcp_Base
begin

text \<open>
  The lock-free transmit queue \<^verbatim>\<open>src/src/queue64v.c\<close>: many producers, one consumer, entries of
  variable size in one ring. \<open>head\<close> and \<open>tail\<close> are the 64 bit cursors (they do not wrap within the
  life of a process), an entry at cursor value \<open>p\<close> lies at offset \<open>p mod buffer_size\<close> and may run into
  the wrap-around space behind the ring. Each entry has a 32 bit header, 0 before it is initialised, its
  length while it is reserved, and \<open>0xCCCC\<close> in the high word once committed. This theory has the
  operations as the threads execute them one at a time; \<^verbatim>\<open>Queue64v_Conc\<close> interleaves their atomic
  steps.
\<close>

section \<open>State\<close>

abbreviation (input) QUEUE_ENTRY_USER_HEADER_SIZE :: nat where "QUEUE_ENTRY_USER_HEADER_SIZE \<equiv> 4"
abbreviation (input) QUEUE_ENTRY_HEADER_SIZE :: nat where "QUEUE_ENTRY_HEADER_SIZE \<equiv> 4"
abbreviation (input) QUEUE_ENTRY_USER_SIZE :: nat where "QUEUE_ENTRY_USER_SIZE \<equiv> 1028"
abbreviation (input) QUEUE_MAX_ENTRY_SIZE :: nat where "QUEUE_MAX_ENTRY_SIZE \<equiv> 1028"
abbreviation (input) ENTRY_COMMITTED :: nat where "ENTRY_COMMITTED \<equiv> 0xCCCC"
abbreviation (input) CACHE_LINE_SIZE :: nat where "CACHE_LINE_SIZE \<equiv> 64"

record queue64 =
  head :: nat
  tail :: nat
  packets_lost :: nat
  flush_offset :: nat
  cached_peek_index :: nat
  cached_peek_tail :: nat
  buffer_size :: nat
  qbuf :: bytes

definition clear_bytes :: "nat \<Rightarrow> nat \<Rightarrow> bytes \<Rightarrow> bytes" where
  "clear_bytes a n m = (\<lambda>b. if a \<le> b \<and> b < a + n then 0 else m b)"

section \<open>Initialisation\<close>

definition queue_data_size :: "nat \<Rightarrow> nat" where
  "queue_data_size mem_size =
     ((mem_size - CACHE_LINE_SIZE) - (QUEUE_MAX_ENTRY_SIZE + QUEUE_ENTRY_HEADER_SIZE)) div 4 * 4"

definition queueClear :: "queue64 \<Rightarrow> queue64" where
  "queueClear q = q\<lparr>head := 0, tail := 0, packets_lost := 0, flush_offset := 2 ^ 64 - 1,
     cached_peek_index := 0, cached_peek_tail := 0, qbuf := clear_bytes 0 (buffer_size q) (qbuf q)\<rparr>"

text \<open>The queue is allocated (\<open>None\<close>) or placed in the caller's memory and cleared; the third case of
  the code, attaching to an initialised queue, only checks the magic number.\<close>

definition queueInitFromMemory :: "nat \<Rightarrow> bool \<Rightarrow> queue64" where
  "queueInitFromMemory mem_size from_memory =
     (let sz = if from_memory then mem_size else align_up CACHE_LINE_SIZE mem_size in
      queueClear \<lparr>head = 0, tail = 0, packets_lost = 0, flush_offset = 0, cached_peek_index = 0,
        cached_peek_tail = 0, buffer_size = queue_data_size sz, qbuf = (\<lambda>_. 0)\<rparr>)"

definition queueInit :: "nat \<Rightarrow> queue64" where
  "queueInit queue_buffer_size = queueInitFromMemory (queue_buffer_size + CACHE_LINE_SIZE) False"

section \<open>Producer\<close>

definition entry_len_of :: "nat \<Rightarrow> nat" where
  "entry_len_of packet_len = align_up 4 (packet_len + QUEUE_ENTRY_USER_HEADER_SIZE)"

text \<open>The overrun test of the compare-and-swap loop, in 64 bit unsigned arithmetic.\<close>

definition queue_overrun :: "nat \<Rightarrow> nat \<Rightarrow> nat \<Rightarrow> nat \<Rightarrow> bool" where
  "queue_overrun bs t h len \<longleftrightarrow>
     t < h \<and> (int bs - int (len + QUEUE_ENTRY_HEADER_SIZE)) mod 2 ^ 64 < int (h - t)"

definition entry_at :: "queue64 \<Rightarrow> nat \<Rightarrow> nat" where
  "entry_at q pos = pos mod buffer_size q"

definition count_lost :: "queue64 \<Rightarrow> queue64" where
  "count_lost q = q\<lparr>packets_lost := (packets_lost q + 1) mod 2 ^ 32\<rparr>"

definition claim_entry :: "nat \<Rightarrow> nat \<Rightarrow> queue64 \<Rightarrow> queue64" where
  "claim_entry pos len q = q\<lparr>head := pos + (len + QUEUE_ENTRY_HEADER_SIZE)\<rparr>"

definition store_reserved :: "nat \<Rightarrow> nat \<Rightarrow> queue64 \<Rightarrow> queue64" where
  "store_reserved pos len q = q\<lparr>qbuf := wr32 (qbuf q) (entry_at q pos) len\<rparr>"

text \<open>A \<^verbatim>\<open>tQueueBuffer\<close> is the offset of the payload and its size.\<close>

definition queueAcquire :: "nat \<Rightarrow> queue64 \<Rightarrow> (nat \<times> nat) option \<times> queue64" where
  "queueAcquire packet_len q =
     (if \<not> (0 < packet_len \<and> packet_len \<le> XCPTL_MAX_DTO_SIZE) then (None, q)
      else let len = entry_len_of packet_len in
        if queue_overrun (buffer_size q) (tail q) (head q) len then (None, count_lost q)
        else (Some (entry_at q (head q) + QUEUE_ENTRY_HEADER_SIZE + QUEUE_ENTRY_USER_HEADER_SIZE,
                    len - QUEUE_ENTRY_USER_HEADER_SIZE),
              store_reserved (head q) len (claim_entry (head q) len q)))"

text \<open>The caller's stores into the buffer.\<close>

definition queue_put :: "nat \<times> nat \<Rightarrow> u8 list \<Rightarrow> queue64 \<Rightarrow> queue64" where
  "queue_put b xs q = q\<lparr>qbuf := mem_set (fst b) xs (qbuf q)\<rparr>"

definition queuePush :: "nat \<times> nat \<Rightarrow> bool \<Rightarrow> queue64 \<Rightarrow> queue64" where
  "queuePush b flush q =
     (let entry = fst b - QUEUE_ENTRY_HEADER_SIZE - QUEUE_ENTRY_USER_HEADER_SIZE;
          q1 = (if flush then q\<lparr>flush_offset := entry\<rparr> else q)
      in q1\<lparr>qbuf := wr32 (qbuf q1) entry (ENTRY_COMMITTED * 65536 + (snd b + QUEUE_ENTRY_USER_HEADER_SIZE))\<rparr>)"

section \<open>Consumer\<close>

definition queueLevel :: "queue64 \<Rightarrow> nat" where
  "queueLevel q = (if head q \<le> tail q then 0 else head q - tail q)"

definition entry_size_at :: "queue64 \<Rightarrow> nat \<Rightarrow> nat" where
  "entry_size_at q pos = rd32 (qbuf q) (entry_at q pos) mod 65536"

definition entry_state_at :: "queue64 \<Rightarrow> nat \<Rightarrow> nat" where
  "entry_state_at q pos = rd32 (qbuf q) (entry_at q pos) div 65536"

definition entry_ready :: "queue64 \<Rightarrow> nat \<Rightarrow> bool" where
  "entry_ready q pos \<longleftrightarrow> pos < head q \<and> entry_state_at q pos = ENTRY_COMMITTED
     \<and> 0 < entry_size_at q pos \<and> entry_size_at q pos \<le> QUEUE_ENTRY_USER_SIZE"

text \<open>The loop of \<^verbatim>\<open>queuePeek\<close>: from cursor \<open>pos\<close>, which is entry \<open>index\<close>, to entry \<open>peek_index\<close>.
  The result is the offset and size of the buffer, and the queue with the updated cache. An entry that is
  not committed (or inconsistent) ends the loop; the cache is written unless the entry is inconsistent.\<close>

function peek_loop :: "nat \<Rightarrow> nat \<Rightarrow> nat \<Rightarrow> queue64 \<Rightarrow> (nat \<times> nat) option \<times> queue64" where
  "peek_loop peek_index index pos q =
     (if head q \<le> pos \<or> entry_state_at q pos = 0
      then (None, q\<lparr>cached_peek_index := index, cached_peek_tail := pos\<rparr>)
      else if \<not> entry_ready q pos then (None, q)
      else if index = peek_index
        then (Some (entry_at q pos + QUEUE_ENTRY_HEADER_SIZE, entry_size_at q pos),
              q\<lparr>cached_peek_index := index + 1,
                cached_peek_tail := pos + (entry_size_at q pos + QUEUE_ENTRY_HEADER_SIZE)\<rparr>)
      else peek_loop peek_index (index + 1) (pos + (entry_size_at q pos + QUEUE_ENTRY_HEADER_SIZE)) q)"
  by pat_completeness auto
termination by (relation "measure (\<lambda>(_, _, pos, q). head q - pos)") auto

declare peek_loop.simps [simp del]

definition queuePeek :: "nat \<Rightarrow> queue64 \<Rightarrow> (nat \<times> nat) option \<times> nat \<times> bool \<times> queue64" where
  "queuePeek peek_index q =
     (let lost = packets_lost q; q1 = q\<lparr>packets_lost := 0\<rparr>;
          start = (if 0 < peek_index \<and> cached_peek_index q1 \<le> peek_index
                   then (cached_peek_index q1, cached_peek_tail q1) else (0, tail q1));
          (r, q2) = peek_loop peek_index (fst start) (snd start) q1
      in (r, lost, (case r of None \<Rightarrow> False | Some b \<Rightarrow> flush_offset q2 = fst b - QUEUE_ENTRY_HEADER_SIZE), q2))"

definition queueRelease :: "nat \<times> nat \<Rightarrow> queue64 \<Rightarrow> queue64" where
  "queueRelease b q = q\<lparr>qbuf := clear_bytes (fst b - QUEUE_ENTRY_HEADER_SIZE) (snd b + QUEUE_ENTRY_HEADER_SIZE) (qbuf q),
     tail := tail q + (snd b + QUEUE_ENTRY_HEADER_SIZE), cached_peek_index := 0, cached_peek_tail := 0\<rparr>"

section \<open>Memory laws\<close>

lemma clear_bytes_outside: "b < a \<or> a + n \<le> b \<Longrightarrow> clear_bytes a n m b = m b"
  by (auto simp: clear_bytes_def)

lemma rd32_cong: "(\<And>b. a \<le> b \<Longrightarrow> b < a + 4 \<Longrightarrow> m b = m' b) \<Longrightarrow> rd32 m a = rd32 m' a"
  by (simp add: rd32_def rd16_def)

lemma rd32_zero: "(\<And>b. a \<le> b \<Longrightarrow> b < a + 4 \<Longrightarrow> m b = 0) \<Longrightarrow> rd32 m a = 0"
  by (simp add: rd32_def rd16_def)

lemma entry_len_bounds:
  assumes "0 < n" "n \<le> XCPTL_MAX_DTO_SIZE"
  shows "8 \<le> entry_len_of n" "entry_len_of n \<le> QUEUE_ENTRY_USER_SIZE" "4 dvd entry_len_of n"
    "n + 4 \<le> entry_len_of n" "entry_len_of n < n + 8"
  using assms by (simp_all add: entry_len_of_def align_up_def)

section \<open>Regions of the ring\<close>

text \<open>Entries whose cursor ranges lie one behind the other within one lap of the ring occupy disjoint
  bytes of the buffer, also when one of them runs into the wrap-around space.\<close>

lemma ring_disjoint:
  assumes "t \<le> p" "p + l \<le> p'" "p' + l' \<le> t + bs" "0 < l'" "0 < (bs :: nat)"
  shows "p mod bs + l \<le> p' mod bs \<or> p' mod bs + l' \<le> p mod bs"
proof -
  have lt: "p' < p + bs" using assms by linarith
  show ?thesis
  proof (cases "p' div bs = p div bs")
    case True
    then have "p' = p div bs * bs + p' mod bs" by (metis div_mult_mod_eq)
    moreover have "p = p div bs * bs + p mod bs" by simp
    ultimately show ?thesis using assms by linarith
  next
    case False
    have "p div bs \<le> p' div bs" using assms by (intro div_le_mono) linarith
    moreover have "p' div bs \<le> p div bs + 1"
    proof -
      have "(p + bs) div bs = p div bs + 1" using assms(5) by (intro div_add_self2) simp
      then show ?thesis using lt div_le_mono [of p' "p + bs" bs] by linarith
    qed
    ultimately have d: "p' div bs = p div bs + 1" using False by linarith
    have "p' = (p div bs + 1) * bs + p' mod bs" using d by (metis div_mult_mod_eq)
    then have "p' = p div bs * bs + bs + p' mod bs" by simp
    moreover have "p = p div bs * bs + p mod bs" by simp
    ultimately have "p' mod bs + l' \<le> p mod bs" using assms by linarith
    then show ?thesis by simp
  qed
qed

end
