(* ===== verification/Xcp_Mta.thy ===== *)
theory Xcp_Mta
  imports Xcp_Cal_Create Xcp_Checksum Queue64v
begin

text \<open>
  The protocol layer state (\<^verbatim>\<open>src/src/xcplite.h\<close>, \<^verbatim>\<open>tXcpData\<close> and \<^verbatim>\<open>tXcpLocalData\<close>), the
  callbacks of the application (\<^verbatim>\<open>src/src/xcpappl.c\<close>) and the memory transfer address:
  \<^verbatim>\<open>XcpSetMta\<close>, \<^verbatim>\<open>XcpReadMta\<close>, \<^verbatim>\<open>XcpWriteMta\<close>, \<^verbatim>\<open>calcChecksum\<close>, and the file and
  identification services behind \<^verbatim>\<open>GET_ID\<close>.
\<close>

section \<open>State\<close>

text \<open>Where the MTA may point to as a C pointer: the memory of the application, or one of the library's own
  objects that a command offers for upload.\<close>

datatype cobj = ObjEpk | ObjSegName nat | ObjEventName nat | ObjClockInfo

datatype cptr = NullPtr | AppPtr nat | ObjPtr cobj nat

text \<open>\<open>obj_mem\<close> holds the bytes that a client wrote through a pointer into such an object; \<open>xcp_file\<close> is the
  open upload file with its read position; \<open>bin_files\<close> are the persistence files on the disk by name;
  \<open>tl_sent\<close> are the packets handed to \<^verbatim>\<open>XcpTlSendCrm\<close>,
  oldest first.\<close>

record xcp = xcp_cal +
  init_mode :: nat
  mta_ptr :: cptr
  mta_addr :: nat
  mta_ext :: nat
  project_name :: string
  epk :: string
  crm :: bytes
  crm_len :: nat
  cmd_pending :: bool
  cmd_pending_crm :: bytes
  cmd_pending_crm_len :: nat
  clock_info :: bytes
  app_mem :: bytes
  obj_mem :: "cobj \<Rightarrow> nat \<Rightarrow> u8 option"
  appl_write_delayed :: bool
  a2l_name :: string
  xcp_file :: "(u8 list \<times> nat) option"
  xcp_file_length :: nat
  bin_files :: "string \<Rightarrow> u8 list option"
  tl_sent :: "u8 list list"
  xcp_queue :: queue64

text \<open>The application and the platform: registered callbacks (\<^verbatim>\<open>None\<close> where the pointer is null), the
  clock, the file system, what the transmit thread does while a command waits for an empty queue, and what
  the reader threads do while the server sleeps.\<close>

record appl =
  base_addr :: nat
  cb_check :: "(nat \<Rightarrow> nat \<Rightarrow> nat \<Rightarrow> nat) option"
  cb_read :: "(nat \<Rightarrow> nat \<Rightarrow> nat + u8 list) option"
  cb_write :: "(nat \<Rightarrow> u8 list \<Rightarrow> bool \<Rightarrow> nat) option"
  cb_flush :: "nat option"
  cb_connect :: "(nat \<Rightarrow> bool) option"
  a2l_finalized :: "nat \<Rightarrow> bool"
  cb_prepare_daq :: "nat option"
  cb_clock_state :: "nat option"
  cb_grandmaster :: "(bytes \<Rightarrow> bool \<times> bytes) option"
  clock_now :: nat
  obj_tail :: "cobj \<Rightarrow> nat \<Rightarrow> u8"
  file_system :: "string \<Rightarrow> u8 list option"
  bin_writable :: bool
  drain_queue :: "queue64 \<Rightarrow> bool \<times> queue64"
  reader_sched :: schedule

section \<open>Memory behind a pointer\<close>

definition char_byte :: "char \<Rightarrow> u8" where
  "char_byte c = of_nat (of_char c)"

definition epk_size :: nat where
  "epk_size = 32"

text \<open>The C string of an object, with its terminating zero; the bytes after it are the environment's.\<close>

definition obj_string :: "'a xcp_scheme \<Rightarrow> cobj \<Rightarrow> u8 list" where
  "obj_string s ob = (case ob of
       ObjEpk \<Rightarrow> map char_byte (epk s) @ [0]
     | ObjSegName i \<Rightarrow> map char_byte (calseg_name (CalSegPtr s i)) @ [0]
     | ObjEventName e \<Rightarrow> (case XcpGetEventName s e of None \<Rightarrow> [] | Some n \<Rightarrow> map char_byte n @ [0])
     | ObjClockInfo \<Rightarrow> map (clock_info s) [0..<64])"

definition obj_read :: "appl \<Rightarrow> 'a xcp_scheme \<Rightarrow> cobj \<Rightarrow> nat \<Rightarrow> u8" where
  "obj_read ap s ob k = (case obj_mem s ob k of Some b \<Rightarrow> b
     | None \<Rightarrow> (if k < length (obj_string s ob) then obj_string s ob ! k else obj_tail ap ob k))"

fun ptr_add :: "cptr \<Rightarrow> nat \<Rightarrow> cptr" where
  "ptr_add NullPtr n = NullPtr"
| "ptr_add (AppPtr a) n = AppPtr (a + n)"
| "ptr_add (ObjPtr ob k) n = ObjPtr ob (k + n)"

fun ptr_read :: "appl \<Rightarrow> 'a xcp_scheme \<Rightarrow> cptr \<Rightarrow> nat \<Rightarrow> u8 list" where
  "ptr_read ap s NullPtr n = []"
| "ptr_read ap s (AppPtr a) n = mem_get a n (app_mem s)"
| "ptr_read ap s (ObjPtr ob k) n = map (\<lambda>i. obj_read ap s ob (k + i)) [0..<n]"

fun ptr_write :: "cptr \<Rightarrow> u8 list \<Rightarrow> 'a xcp_scheme \<Rightarrow> 'a xcp_scheme" where
  "ptr_write NullPtr d s = s"
| "ptr_write (AppPtr a) d s = s\<lparr>app_mem := mem_set a d (app_mem s)\<rparr>"
| "ptr_write (ObjPtr ob k) d s = s\<lparr>obj_mem := (obj_mem s)(ob := (\<lambda>i.
     if k \<le> i \<and> i < k + length d then Some (d ! (i - k)) else obj_mem s ob i))\<rparr>"

section \<open>Application callbacks\<close>

definition ApplXcpCheckMemory :: "appl \<Rightarrow> nat \<Rightarrow> nat \<Rightarrow> nat \<Rightarrow> nat" where
  "ApplXcpCheckMemory ap ext addr n = (case cb_check ap of None \<Rightarrow> CRC_CMD_OK | Some f \<Rightarrow> f ext addr n)"

definition ApplXcpReadMemory :: "appl \<Rightarrow> nat \<Rightarrow> nat \<Rightarrow> nat + u8 list" where
  "ApplXcpReadMemory ap src n = (case cb_read ap of None \<Rightarrow> Inl CRC_ACCESS_DENIED | Some f \<Rightarrow> f src n)"

definition ApplXcpWriteMemory :: "appl \<Rightarrow> nat \<Rightarrow> u8 list \<Rightarrow> 'a xcp_scheme \<Rightarrow> nat" where
  "ApplXcpWriteMemory ap dst d s =
     (case cb_write ap of None \<Rightarrow> CRC_ACCESS_DENIED | Some f \<Rightarrow> f dst d (appl_write_delayed s))"

definition ApplXcpConnect :: "appl \<Rightarrow> nat \<Rightarrow> 'a xcp_scheme \<Rightarrow> bool \<times> 'a xcp_scheme" where
  "ApplXcpConnect ap mode s =
     (let s1 = s\<lparr>appl_write_delayed := False\<rparr> in
      if \<not> a2l_finalized ap mode then (False, s1)
      else (case cb_connect ap of None \<Rightarrow> (True, s1) | Some f \<Rightarrow> (f mode, s1)))"

definition ApplXcpPrepareDaq :: "appl \<Rightarrow> bool" where
  "ApplXcpPrepareDaq ap = (case cb_prepare_daq ap of None \<Rightarrow> True | Some r \<Rightarrow> r \<noteq> 0)"

definition ApplXcpGetClockState :: "appl \<Rightarrow> nat" where
  "ApplXcpGetClockState ap = (case cb_clock_state ap of None \<Rightarrow> 7 | Some r \<Rightarrow> r)"

definition ApplXcpGetClockInfoGrandmaster :: "appl \<Rightarrow> bytes \<Rightarrow> bool \<times> bytes" where
  "ApplXcpGetClockInfoGrandmaster ap info = (case cb_grandmaster ap of None \<Rightarrow> (False, info) | Some f \<Rightarrow> f info)"

abbreviation (input) CRC_SUBCMD_UNKNOWN :: nat where "CRC_SUBCMD_UNKNOWN \<equiv> 52"

definition ApplXcpUserCommand :: "appl \<Rightarrow> nat \<Rightarrow> 'a xcp_scheme \<Rightarrow> nat \<times> 'a xcp_scheme" where
  "ApplXcpUserCommand ap cmd s =
     (if cmd = 1 then (CRC_CMD_OK, s\<lparr>appl_write_delayed := True\<rparr>)
      else if cmd = 2 then (case cb_flush ap of None \<Rightarrow> CRC_CMD_OK | Some r \<Rightarrow> r, s\<lparr>appl_write_delayed := False\<rparr>)
      else (CRC_SUBCMD_UNKNOWN, s))"

section \<open>The upload file\<close>

definition XcpSetA2lName :: "string \<Rightarrow> 'a xcp_scheme \<Rightarrow> 'a xcp_scheme" where
  "XcpSetA2lName name s =
     (let t = take 255 name in
      s\<lparr>a2l_name := (if CHR ''.'' \<in> set t then take (length t - Suc (length (takeWhile (\<lambda>c. c \<noteq> CHR ''.'') (rev t)))) t else t)\<rparr>)"

definition openFile :: "appl \<Rightarrow> string \<Rightarrow> 'a xcp_scheme \<Rightarrow> nat \<times> 'a xcp_scheme" where
  "openFile ap filename s =
     (if filename = [] then (0, s)
      else (case file_system ap filename of
          None \<Rightarrow> (0, s\<lparr>xcp_file := None\<rparr>)
        | Some d \<Rightarrow> (length d mod 2 ^ 32, s\<lparr>xcp_file := Some (d, 0), xcp_file_length := length d mod 2 ^ 32\<rparr>)))"

definition closeFile :: "'a xcp_scheme \<Rightarrow> 'a xcp_scheme" where
  "closeFile s = s\<lparr>xcp_file := None\<rparr>"

definition ApplXcpReadFile :: "nat \<Rightarrow> nat \<Rightarrow> 'a xcp_scheme \<Rightarrow> u8 list option \<times> 'a xcp_scheme" where
  "ApplXcpReadFile n addr s =
     (case xcp_file s of
        None \<Rightarrow> (None, s)
      | Some (d, pos) \<Rightarrow>
          if xcp_file_length s < (addr + n) mod 2 ^ 32 \<or> length d - pos < n then (None, closeFile s)
          else let s1 = s\<lparr>xcp_file := Some (d, pos + n)\<rparr> in
            (Some (take n (drop pos d)), if (addr + n) mod 2 ^ 32 = xcp_file_length s then closeFile s1 else s1))"

section \<open>The memory transfer address\<close>

definition advance_addr :: "nat \<Rightarrow> 'a xcp_scheme \<Rightarrow> 'a xcp_scheme" where
  "advance_addr n s = s\<lparr>mta_addr := (mta_addr s + n) mod 2 ^ 32\<rparr>"

definition XcpWriteMta :: "appl \<Rightarrow> u8 list \<Rightarrow> 'a xcp_scheme \<Rightarrow> nat \<times> 'a xcp_scheme" where
  "XcpWriteMta ap d s =
     (if XcpAddrIsSeg (mta_ext s)
        then (case XcpCalSegWriteMemory (mta_addr s) d s of (res, s1) \<Rightarrow> (res, advance_addr (length d) s1))
      else if XcpAddrIsApp (mta_ext s)
        then (ApplXcpWriteMemory ap (mta_addr s) d s, advance_addr (length d) s)
      else if mta_ext s = XCP_ADDR_EXT_PTR
        then (if mta_ptr s = NullPtr then (CRC_ACCESS_DENIED, s)
              else (CRC_CMD_OK, (ptr_write (mta_ptr s) d s)\<lparr>mta_ptr := ptr_add (mta_ptr s) (length d)\<rparr>))
      else (CRC_ACCESS_DENIED, s))"

definition XcpReadMta :: "appl \<Rightarrow> nat \<Rightarrow> 'a xcp_scheme \<Rightarrow> (nat + u8 list) \<times> 'a xcp_scheme" where
  "XcpReadMta ap n s =
     (if XcpAddrIsSeg (mta_ext s) then (XcpCalSegReadMemory (mta_addr s) n s, advance_addr n s)
      else if XcpAddrIsApp (mta_ext s) then (ApplXcpReadMemory ap (mta_addr s) n, advance_addr n s)
      else if mta_ext s = XCP_ADDR_EXT_PTR
        then (if mta_ptr s = NullPtr then (Inl CRC_ACCESS_DENIED, s)
              else (Inr (ptr_read ap s (mta_ptr s) n), s\<lparr>mta_ptr := ptr_add (mta_ptr s) n\<rparr>))
      else if mta_ext s = XCP_ADDR_EXT_FILE
        then (case ApplXcpReadFile n (mta_addr s) s of
            (None, s1) \<Rightarrow> (Inl CRC_ACCESS_DENIED, s1) | (Some d, s1) \<Rightarrow> (Inr d, advance_addr n s1))
      else (Inl CRC_ACCESS_DENIED, s))"

definition XcpSetMta :: "appl \<Rightarrow> nat \<Rightarrow> nat \<Rightarrow> 'a xcp_scheme \<Rightarrow> nat \<times> 'a xcp_scheme" where
  "XcpSetMta ap ext addr s =
     (let s1 = s\<lparr>mta_ext := ext, mta_addr := addr, mta_ptr := NullPtr\<rparr> in
      if XcpAddrIsDyn ext then (CRC_CMD_OK, s1)
      else if XcpAddrIsSeg ext
        then (CRC_CMD_OK, if addr < 0x80000000 then s1\<lparr>mta_ext := XCP_ADDR_EXT_ABS\<rparr> else s1)
      else if XcpAddrIsApp ext then (CRC_CMD_OK, s1)
      else if XcpAddrIsAbs ext
        then (ApplXcpCheckMemory ap XCP_ADDR_EXT_PTR addr 0,
              s1\<lparr>mta_ptr := AppPtr (base_addr ap + addr), mta_ext := XCP_ADDR_EXT_PTR\<rparr>)
      else (CRC_OUT_OF_RANGE, s1))"

fun checksum_loop :: "appl \<Rightarrow> nat \<Rightarrow> u16 \<Rightarrow> 'a xcp_scheme \<Rightarrow> (nat + u16) \<times> 'a xcp_scheme" where
  "checksum_loop ap 0 acc s = (Inr acc, s)"
| "checksum_loop ap (Suc n) acc s =
     (case XcpReadMta ap 1 s of
        (Inl e, s1) \<Rightarrow> (Inl e, s1)
      | (Inr d, s1) \<Rightarrow> checksum_loop ap n (crc_step acc (hd d)) s1)"

definition calcChecksum :: "appl \<Rightarrow> nat \<Rightarrow> 'a xcp_scheme \<Rightarrow> (nat + u16) \<times> 'a xcp_scheme" where
  "calcChecksum ap n s = checksum_loop ap n 0xFFFF s"

section \<open>Identification\<close>

definition XcpSetProjectName :: "string \<Rightarrow> 'a xcp_scheme \<Rightarrow> 'a xcp_scheme" where
  "XcpSetProjectName name s = s\<lparr>project_name := strncpy_z name 31\<rparr>"

definition XcpSetEpk :: "string \<Rightarrow> 'a xcp_scheme \<Rightarrow> 'a xcp_scheme" where
  "XcpSetEpk name s = s\<lparr>epk := map (\<lambda>c. if c = CHR '' '' \<or> c = CHR 0x09 \<or> c = CHR '':'' then CHR ''_'' else c)
     (strncpy_z name 31)\<rparr>"

definition XcpGetEcuEpk :: "'a xcp_scheme \<Rightarrow> string" where
  "XcpGetEcuEpk s = epk s"

abbreviation (input) IDT_ASCII :: nat where "IDT_ASCII \<equiv> 0"
abbreviation (input) IDT_ASAM_NAME :: nat where "IDT_ASAM_NAME \<equiv> 1"
abbreviation (input) IDT_ASAM_PATH :: nat where "IDT_ASAM_PATH \<equiv> 2"
abbreviation (input) IDT_ASAM_URL :: nat where "IDT_ASAM_URL \<equiv> 3"
abbreviation (input) IDT_ASAM_UPLOAD :: nat where "IDT_ASAM_UPLOAD \<equiv> 4"
abbreviation (input) IDT_ASAM_EPK :: nat where "IDT_ASAM_EPK \<equiv> 5"

text \<open>\<open>buf\<close> is the size of the response buffer, \<open>None\<close> for an upload. The result is the length, and the bytes
  stored into the buffer: \<^verbatim>\<open>strncpy\<close> fills it with zeros, \<^verbatim>\<open>snprintf\<close> stores one.\<close>

definition id_in_buffer :: "string \<Rightarrow> nat \<Rightarrow> nat \<times> u8 list" where
  "id_in_buffer name n = (if n - 1 \<le> length name then (0, [])
     else (length name, map char_byte name @ replicate (n - length name) 0))"

definition ApplXcpGetId :: "appl \<Rightarrow> nat \<Rightarrow> nat option \<Rightarrow> 'a xcp_scheme \<Rightarrow> nat \<times> u8 list \<times> 'a xcp_scheme" where
  "ApplXcpGetId ap idt buf s =
     (if idt = IDT_ASCII then (case buf of None \<Rightarrow> (length (project_name s), [], s)
        | Some n \<Rightarrow> (case id_in_buffer (project_name s) n of (l, d) \<Rightarrow> (l, d, s)))
      else if idt = IDT_ASAM_NAME then (if a2l_name s = [] then (0, [], s)
        else (case buf of None \<Rightarrow> (length (a2l_name s), [], s)
          | Some n \<Rightarrow> (case id_in_buffer (a2l_name s) n of (l, d) \<Rightarrow> (l, d, s))))
      else if idt = IDT_ASAM_PATH then (if a2l_name s = [] then (0, [], s)
        else let path = a2l_name s @ ''.a2l'' in (case buf of None \<Rightarrow> (length path, [], s)
          | Some n \<Rightarrow> (if n - 1 < length path then (0, [], s) else (length path, map char_byte path @ [0], s))))
      else if idt = IDT_ASAM_EPK then (case buf of None \<Rightarrow> (length (XcpGetEcuEpk s), [], s)
        | Some n \<Rightarrow> (if n - 1 < length (XcpGetEcuEpk s) then (0, [], s)
            else (length (XcpGetEcuEpk s), map char_byte (XcpGetEcuEpk s) @ replicate (n - length (XcpGetEcuEpk s)) 0, s)))
      else if idt = IDT_ASAM_UPLOAD then (if buf \<noteq> None then (0, [], s)
        else (case openFile ap (a2l_name s @ ''.a2l'') s of (l, s1) \<Rightarrow> (l, [], s1)))
      else (0, [], s))"

end
