(* ===== verification/Xcp_Persist.thy ===== *)
theory Xcp_Persist
  imports Xcp_Mta
begin

text \<open>
  The binary persistence file (\<^verbatim>\<open>src/src/persistence.c\<close>, local mode): its header, the
  event and segment descriptors of 256 bytes, \<^verbatim>\<open>XcpBinWrite\<close>, \<^verbatim>\<open>XcpBinLoad\<close>,
  \<^verbatim>\<open>XcpBinFreezeCalSeg\<close>, and the freeze commands of \<^verbatim>\<open>src/src/cal.c\<close> on top. Files are
  byte lists by name; a write of the C library to an open file succeeds, \<open>bin_writable\<close> says whether
  the file can be opened for writing. \<open>None\<close> is the null pointer access of an exhausted segment pool.
\<close>

section \<open>File format\<close>

definition zero_pad :: "nat \<Rightarrow> u8 list \<Rightarrow> u8 list" where
  "zero_pad n d = take n d @ replicate (n - length d) 0"

definition name_field :: "string \<Rightarrow> nat \<Rightarrow> u8 list" where
  "name_field name n = zero_pad n (map char_byte (takeWhile (\<lambda>c. c \<noteq> CHR 0x00) name))"

definition c_string :: "u8 list \<Rightarrow> string" where
  "c_string d = map (\<lambda>b. char_of (unat b)) (takeWhile (\<lambda>b. b \<noteq> 0) d)"

definition field_at :: "nat \<Rightarrow> nat \<Rightarrow> u8 list \<Rightarrow> u8 list" where
  "field_at a n d = take n (drop a d)"

abbreviation (input) BIN_SIGNATURE :: string where "BIN_SIGNATURE \<equiv> ''XCPLITE__BINARY''"
abbreviation (input) BIN_VERSION :: nat where "BIN_VERSION \<equiv> 0x0205"
abbreviation (input) XCP_EPK_MAX_LENGTH :: nat where "XCP_EPK_MAX_LENGTH \<equiv> 31"
abbreviation (input) BIN_RECORD :: nat where "BIN_RECORD \<equiv> 256"

definition writeHeader :: "string \<Rightarrow> nat \<Rightarrow> nat \<Rightarrow> nat \<Rightarrow> u8 list" where
  "writeHeader e event_cnt calseg_cnt app_cnt =
     name_field BIN_SIGNATURE 16 @ le_bytes 2 BIN_VERSION @ le_bytes 2 event_cnt @ le_bytes 2 calseg_cnt @ le_bytes 2 app_cnt
     @ replicate 104 0 @ zero_pad 128 (name_field (take XCP_EPK_MAX_LENGTH e) 32)"

definition writeEvent :: "'a xcp_events_scheme \<Rightarrow> nat \<Rightarrow> u8 list" where
  "writeEvent s i = (let e = event s i in
     le_bytes 2 i @ le_bytes 2 (XcpGetEventIndex s i) @ le_bytes 4 (cycle_time_ns e)
     @ [if ev_flags e AND XCP_DAQ_EVENT_FLAG_PRIORITY \<noteq> 0 then 0xFF else 0, 0] @ replicate 118 0
     @ zero_pad 128 (name_field (ev_name e) 16))"

definition calseg_record :: "'a xcp_cal_scheme \<Rightarrow> nat \<Rightarrow> u8 list" where
  "calseg_record s i = (let c = CalSegPtr s i in
     le_bytes 2 i @ le_bytes 2 (seg_bytes c) @ le_bytes 4 (XcpGetCalSegBaseAddress i s) @ [0, of_nat (calseg_number c)]
     @ replicate 118 0 @ zero_pad 128 (name_field (calseg_name c) 24))"

section \<open>Writing\<close>

text \<open>The descriptor and the reference page of segment \<open>i\<close> are appended; the position is remembered. The
  size of a segment is not zero, so that \<^verbatim>\<open>fwrite\<close> reports one element.\<close>

definition writeCalseg :: "u8 list \<Rightarrow> nat \<Rightarrow> 'a xcp_cal_scheme \<Rightarrow> bool \<times> u8 list \<times> 'a xcp_cal_scheme" where
  "writeCalseg f i s =
     (let c = CalSegPtr s i; pos = length f mod 2 ^ 32; s1 = upd_calseg i (\<lambda>c. c\<lparr>file_pos := pos\<rparr>) s in
      (0 < seg_bytes c, f @ calseg_record s i @ mem_get 0 (seg_bytes c) (seg_mem c), s1))"

fun write_calsegs :: "u8 list \<Rightarrow> nat list \<Rightarrow> 'a xcp_cal_scheme \<Rightarrow> bool \<times> u8 list \<times> 'a xcp_cal_scheme" where
  "write_calsegs f [] s = (True, f, s)"
| "write_calsegs f (i # is) s = (case writeCalseg f i s of
     (ok, f1, s1) \<Rightarrow> if \<not> ok then (False, f1, s1) else write_calsegs f1 is s1)"

definition XcpBinGetFilename :: "'a xcp_scheme \<Rightarrow> string" where
  "XcpBinGetFilename s = take 254 (project_name s @ ''_'' @ epk s @ ''.bin'')"

definition XcpBinWrite :: "appl \<Rightarrow> string \<Rightarrow> 'a xcp_scheme \<Rightarrow> bool \<times> 'a xcp_scheme" where
  "XcpBinWrite ap e s =
     (if \<not> isActivated s \<or> \<not> bin_writable ap then (False, s)
      else let head = writeHeader e (XcpGetEventCount s) (XcpGetCalSegCount s) 0
                 @ concat (map (writeEvent s) [0..<XcpGetEventCount s])
        in (case write_calsegs head [0..<XcpGetCalSegCount s] s of
              (ok, f, s1) \<Rightarrow> (ok, s1\<lparr>bin_files := (bin_files s1)(XcpBinGetFilename s := Some f)\<rparr>)))"

section \<open>Freezing\<close>

definition file_patch :: "nat \<Rightarrow> u8 list \<Rightarrow> u8 list \<Rightarrow> u8 list" where
  "file_patch pos d f = take pos f @ replicate (pos - length f) 0 @ d @ drop (pos + length d) f"

definition XcpBinFreezeCalSeg :: "nat \<Rightarrow> 'a xcp_scheme \<Rightarrow> bool \<times> 'a xcp_scheme" where
  "XcpBinFreezeCalSeg i s =
     (if XcpGetCalSegCount s \<le> i then (False, s)
      else (case bin_files s (XcpBinGetFilename s) of
          None \<Rightarrow> (False, s)
        | Some f \<Rightarrow>
            let c = CalSegPtr s i; pos = file_pos c + BIN_RECORD in
            (case XcpLockCalSeg i s of (p, s1) \<Rightarrow>
              let d = mem_get p (seg_bytes c) (seg_mem (CalSegPtr s1 i)) in
              (0 < seg_bytes c, (XcpUnlockCalSeg i s1)\<lparr>bin_files :=
                 (bin_files s1)(XcpBinGetFilename s := Some (if d = [] then f else file_patch pos d f))\<rparr>))))"

fun freeze_calsegs :: "bool \<Rightarrow> nat list \<Rightarrow> 'a xcp_scheme \<Rightarrow> nat \<times> 'a xcp_scheme" where
  "freeze_calsegs all [] s = (CRC_CMD_OK, s)"
| "freeze_calsegs all (i # is) s =
     (if seg_mode (CalSegPtr s i) AND PAG_PROPERTY_FREEZE \<noteq> 0 \<or> all
      then (case XcpBinFreezeCalSeg i s of
              (ok, s1) \<Rightarrow> if \<not> ok then (CRC_ACCESS_DENIED, s1) else freeze_calsegs all is s1)
      else freeze_calsegs all is s)"

definition XcpFreezeSelectedCalSegs :: "bool \<Rightarrow> 'a xcp_scheme \<Rightarrow> nat \<times> 'a xcp_scheme" where
  "XcpFreezeSelectedCalSegs all s = freeze_calsegs all [1..<XcpGetCalSegCount s] s"

definition XcpFreeze :: "'a xcp_scheme \<Rightarrow> bool \<times> 'a xcp_scheme" where
  "XcpFreeze s = (case XcpFreezeSelectedCalSegs True s of (r, s1) \<Rightarrow> (r = CRC_CMD_OK, s1))"

section \<open>Loading\<close>

text \<open>The loops read records at position \<open>pos\<close> of the file and count the entries that could not be
  created; \<open>ok\<close> is \<open>False\<close> for a file that ends early.\<close>

fun load_events :: "u8 list \<Rightarrow> nat \<Rightarrow> nat \<Rightarrow> nat \<Rightarrow> 'a xcp_events_scheme \<Rightarrow> bool \<times> nat \<times> nat \<times> 'a xcp_events_scheme" where
  "load_events f pos errs 0 s = (True, pos, errs, s)"
| "load_events f pos errs (Suc n) s =
     (if length f < pos + BIN_RECORD then (False, pos, errs, s)
      else let d = field_at pos BIN_RECORD f in
        (case XcpCreateIndexedEvent (c_string (drop 128 d)) (le_value (field_at 2 2 d)) (le_value (field_at 4 4 d))
                (le_value (field_at 8 1 d)) s of
           (e, s1) \<Rightarrow> load_events f (pos + BIN_RECORD)
             (if e = XCP_UNDEFINED_EVENT_ID \<or> e \<noteq> le_value (field_at 0 2 d) then errs + 1 else errs) n s1))"

fun load_calsegs :: "u8 list \<Rightarrow> nat \<Rightarrow> nat \<Rightarrow> nat \<Rightarrow> 'a xcp_cal_scheme \<Rightarrow> (bool \<times> nat \<times> 'a xcp_cal_scheme) option" where
  "load_calsegs f pos errs 0 s = Some (True, errs, s)"
| "load_calsegs f pos errs (Suc n) s =
     (if length f < pos + BIN_RECORD then Some (False, errs, s)
      else let d = field_at pos BIN_RECORD f; sz = le_value (field_at 2 2 d); number = le_value (field_at 9 1 d);
               rest = drop (pos + BIN_RECORD) f;
               consumed = (if number \<noteq> XCP_UNDEFINED_CALSEG_NUM \<and> 0xFF \<le> memory_segment_count s then 0
                           else min sz (length rest))
        in (case XcpCreateCalSegPreloaded (c_string (drop 128 d)) sz (le_value (field_at 0 2 d)) number rest (pos mod 2 ^ 32) s of
              None \<Rightarrow> None
            | Some (i, s1) \<Rightarrow> load_calsegs f (pos + BIN_RECORD + consumed)
                (if i = XCP_UNDEFINED_CALSEG then errs + 1 else errs) n s1))"

definition load_file :: "u8 list option \<Rightarrow> string option \<Rightarrow> 'a xcp_cal_scheme \<Rightarrow> (bool \<times> 'a xcp_cal_scheme) option" where
  "load_file file e s = (case file of
     None \<Rightarrow> Some (False, s)
   | Some f \<Rightarrow>
      if length f < BIN_RECORD \<or> c_string (field_at 0 16 f) \<noteq> BIN_SIGNATURE then Some (False, s)
      else if le_value (field_at 16 2 f) \<noteq> BIN_VERSION then Some (False, s)
      else if e \<noteq> None \<and> take XCP_EPK_MAX_LENGTH (c_string (field_at 128 32 f)) \<noteq> take XCP_EPK_MAX_LENGTH (the e) then Some (False, s)
      else if XcpGetEventCount s \<noteq> 0 then Some (False, s)
      else (case load_events f BIN_RECORD 0 (le_value (field_at 18 2 f)) s of
          (ok, pos, errs, s1) \<Rightarrow>
            if \<not> ok then Some (False, s1)
            else if XcpGetCalSegCount s1 \<noteq> 0 then Some (False, s1)
            else map_option (\<lambda>(ok, errs, s2). (ok \<and> errs = 0, s2))
                   (load_calsegs f pos errs (le_value (field_at 20 2 f)) s1)))"

definition XcpBinLoad :: "'a xcp_scheme \<Rightarrow> (bool \<times> 'a xcp_scheme) option" where
  "XcpBinLoad s = (if \<not> isActivated s then Some (False, s)
     else load_file (bin_files s (XcpBinGetFilename s)) None s)"

definition XcpBinDelete :: "'a xcp_scheme \<Rightarrow> 'a xcp_scheme" where
  "XcpBinDelete s = s\<lparr>bin_files := (bin_files s)(XcpBinGetFilename s := None)\<rparr>"

end
