(* ===== verification/Xcp_Daq_Trigger.thy ===== *)
theory Xcp_Daq_Trigger
  imports Xcp_Daq_Run
begin

text \<open>
  The event processor: \<^verbatim>\<open>XcpTriggerDaqList_\<close> and \<^verbatim>\<open>XcpTriggerDaqEvent_\<close> of
  \<^verbatim>\<open>src/src/xcplite.c\<close>. The transmit queue is an interface (\<^verbatim>\<open>queue.h\<close>): the
  functions take \<^verbatim>\<open>queueAcquire\<close>, the stores into the acquired buffer and
  \<^verbatim>\<open>queuePush\<close> as arguments \<open>acq\<close>, \<open>put\<close> and \<open>push\<close>; the locale \<open>dto_queue\<close> states what
  the event processor relies on, and the queue theories interpret it. \<open>mem\<close> is the memory of the
  process, \<open>bases\<close> the array of base pointers of the event. The C code writes the DTO field by field
  from the start of the buffer; \<open>dto_bytes\<close> is what it has written.
\<close>

section \<open>The DTO of an ODT\<close>

definition mem_block :: "(nat \<Rightarrow> u8) \<Rightarrow> nat \<Rightarrow> nat \<Rightarrow> u8 list" where
  "mem_block mem a n = map (\<lambda>k. mem ((a + k) mod 2 ^ 64)) [0..<n]"

lemma mem_block_length [simp]: "length (mem_block mem a n) = n"
  by (simp add: mem_block_def)

definition odt_entry_data :: "(nat \<Rightarrow> u8) \<Rightarrow> (nat \<Rightarrow> nat) \<Rightarrow> 'a xcp_daq_scheme \<Rightarrow> nat \<Rightarrow> u8 list" where
  "odt_entry_data mem bases s e =
     mem_block mem (bases (odt_entry_addr_ext s e) + odt_entry_addr s e) (odt_entry_size s e)"

definition dto_payload :: "(nat \<Rightarrow> u8) \<Rightarrow> (nat \<Rightarrow> nat) \<Rightarrow> 'a xcp_daq_scheme \<Rightarrow> nat \<Rightarrow> u8 list" where
  "dto_payload mem bases s odt = concat (map (odt_entry_data mem bases s) (odt_entries s odt))"

definition dto_header :: "'a xcp_daq_scheme \<Rightarrow> nat \<Rightarrow> nat \<Rightarrow> u8 list" where
  "dto_header s daq odt = [of_nat (odt - DaqListFirstOdt s daq), 0xAA] @ le_bytes 2 daq"

definition dto_bytes ::
  "(nat \<Rightarrow> u8) \<Rightarrow> (nat \<Rightarrow> nat) \<Rightarrow> nat \<Rightarrow> 'a xcp_daq_scheme \<Rightarrow> nat \<Rightarrow> nat \<Rightarrow> u8 list" where
  "dto_bytes mem bases clock s daq odt = dto_header s daq odt
     @ (if odt = DaqListFirstOdt s daq then le_bytes 4 clock else [])
     @ dto_payload mem bases s odt"

text \<open>The length that is requested from the queue.\<close>

definition dto_size :: "'a xcp_daq_scheme \<Rightarrow> nat \<Rightarrow> nat \<Rightarrow> nat" where
  "dto_size s daq odt = odt_size s odt + (if odt = DaqListFirstOdt s daq then 8 else 4)"

section \<open>Triggering\<close>

fun trigger_odts ::
  "(nat \<Rightarrow> 'q \<Rightarrow> 'b option \<times> 'q) \<Rightarrow> ('b \<Rightarrow> u8 list \<Rightarrow> 'q \<Rightarrow> 'q) \<Rightarrow> ('b \<Rightarrow> bool \<Rightarrow> 'q \<Rightarrow> 'q)
   \<Rightarrow> (nat \<Rightarrow> u8) \<Rightarrow> (nat \<Rightarrow> nat) \<Rightarrow> nat \<Rightarrow> 'a xcp_daq_scheme \<Rightarrow> nat \<Rightarrow> nat list \<Rightarrow> 'q \<Rightarrow> 'q" where
  "trigger_odts acq put push mem bases clock s daq [] q = q"
| "trigger_odts acq put push mem bases clock s daq (odt # odts) q =
     (case acq (dto_size s daq odt mod 65536) q of
        (None, q1) \<Rightarrow> q1
      | (Some b, q1) \<Rightarrow> trigger_odts acq put push mem bases clock s daq odts
          (push b (DaqListPriority s daq \<noteq> 0 \<and> odt = DaqListLastOdt s daq)
             (put b (dto_bytes mem bases clock s daq odt) q1)))"

definition XcpTriggerDaqList ::
  "(nat \<Rightarrow> 'q \<Rightarrow> 'b option \<times> 'q) \<Rightarrow> ('b \<Rightarrow> u8 list \<Rightarrow> 'q \<Rightarrow> 'q) \<Rightarrow> ('b \<Rightarrow> bool \<Rightarrow> 'q \<Rightarrow> 'q)
   \<Rightarrow> (nat \<Rightarrow> u8) \<Rightarrow> (nat \<Rightarrow> nat) \<Rightarrow> nat \<Rightarrow> 'a xcp_daq_scheme \<Rightarrow> nat \<Rightarrow> 'q \<Rightarrow> 'q" where
  "XcpTriggerDaqList acq put push mem bases clock s daq q =
     trigger_odts acq put push mem bases clock s daq [DaqListFirstOdt s daq..<DaqListLastOdt s daq + 1] q"

text \<open>The loop over the lists of the event; \<open>None\<close> is a cycle.\<close>

partial_function (option) trigger_lists ::
  "(nat \<Rightarrow> 'q \<Rightarrow> 'q) \<Rightarrow> 'a xcp_daq_scheme \<Rightarrow> nat \<Rightarrow> 'q \<Rightarrow> 'q option" where
  "trigger_lists f s daq q =
     (if daq = XCP_UNDEFINED_DAQ_LIST then Some q
      else trigger_lists f s (DaqListNext s daq) (if list_running s daq then f daq q else q))"

definition XcpTriggerDaqEvent ::
  "(nat \<Rightarrow> 'q \<Rightarrow> 'b option \<times> 'q) \<Rightarrow> ('b \<Rightarrow> u8 list \<Rightarrow> 'q \<Rightarrow> 'q) \<Rightarrow> ('b \<Rightarrow> bool \<Rightarrow> 'q \<Rightarrow> 'q)
   \<Rightarrow> (nat \<Rightarrow> u8) \<Rightarrow> (nat \<Rightarrow> nat) \<Rightarrow> nat \<Rightarrow> nat \<Rightarrow> 'a xcp_daq_scheme \<Rightarrow> nat \<Rightarrow> 'q \<Rightarrow> 'q option" where
  "XcpTriggerDaqEvent acq put push mem bases now clock0 s event_id q =
     (let clock = if clock0 = 0 then now else clock0 in
      if event_count s \<le> event_id then Some q
      else if ev_flags (event s event_id) AND XCP_DAQ_EVENT_FLAG_DISABLED \<noteq> 0 then Some q
      else trigger_lists (XcpTriggerDaqList acq put push mem bases clock s) s (DaqListFirst s event_id) q)"

section \<open>No overflow of the DTO buffer\<close>

lemma dto_payload_length:
  "length (dto_payload mem bases s odt) = sum_list (map (odt_entry_size s) (odt_entries s odt))"
  by (simp add: dto_payload_def length_concat odt_entry_data_def comp_def)

text \<open>A list is complete when each of its ODTs has entries of its own.\<close>

definition daq_list_complete :: "'a xcp_daq_scheme \<Rightarrow> nat \<Rightarrow> bool" where
  "daq_list_complete s daq \<longleftrightarrow>
     (\<forall>odt \<in> {DaqListFirstOdt s daq..DaqListLastOdt s daq}. odt < odt_count s \<and> odt_private s odt)"

lemma dto_bytes_length:
  assumes inv: "daq_inv s" and d: "daq < daq_count s" and E: "0 < odt_entry_count s"
    and c: "daq_list_complete s daq" and o: "odt \<in> {DaqListFirstOdt s daq..DaqListLastOdt s daq}"
  shows "length (dto_bytes mem bases clock s daq odt) = dto_size s daq odt"
    and "0 < dto_size s daq odt" "dto_size s daq odt \<le> XCPTL_MAX_DTO_SIZE"
proof -
  from c o have odt: "odt < odt_count s" "odt_private s odt" by (auto simp: daq_list_complete_def)
  note sz = daq_invD(4) [OF inv]
  have "odt_size s odt = sum_list (map (odt_entry_size s) (odt_entries s odt))"
    using sz odt E by (simp add: odt_sizes_ok_def)
  then show "length (dto_bytes mem bases clock s daq odt) = dto_size s daq odt"
    by (simp add: dto_bytes_def dto_header_def dto_size_def dto_payload_length)
  have "odt_size s odt \<le> XCPTL_MAX_DTO_SIZE - 4" using sz odt by (simp add: odt_sizes_ok_def)
  moreover have "odt = DaqListFirstOdt s daq \<Longrightarrow> odt_size s odt \<le> XCPTL_MAX_DTO_SIZE - 8"
    using sz odt d by (auto simp: odt_sizes_ok_def)
  ultimately show "dto_size s daq odt \<le> XCPTL_MAX_DTO_SIZE" by (simp add: dto_size_def)
  show "0 < dto_size s daq odt" by (simp add: dto_size_def)
qed

section \<open>The contract with the transmit queue\<close>

text \<open>\<open>sent\<close> lists the packets in the queue, oldest first, \<open>ok\<close> is the queue's invariant. A message may be
  longer than the packet: the queue rounds its size up.\<close>

definition padded :: "u8 list \<Rightarrow> u8 list \<Rightarrow> bool" where
  "padded p m \<longleftrightarrow> (\<exists>pad. m = p @ pad \<and> length pad < 4)"

locale dto_queue =
  fixes acq :: "nat \<Rightarrow> 'q \<Rightarrow> 'b option \<times> 'q"
    and put :: "'b \<Rightarrow> u8 list \<Rightarrow> 'q \<Rightarrow> 'q"
    and push :: "'b \<Rightarrow> bool \<Rightarrow> 'q \<Rightarrow> 'q"
    and ok :: "'q \<Rightarrow> bool"
    and sent :: "'q \<Rightarrow> u8 list list"
  assumes acq_full: "ok q \<Longrightarrow> acq n q = (None, q1) \<Longrightarrow> ok q1 \<and> sent q1 = sent q"
    and acq_send: "ok q \<Longrightarrow> 0 < n \<Longrightarrow> n \<le> XCPTL_MAX_DTO_SIZE \<Longrightarrow> acq n q = (Some b, q1) \<Longrightarrow> length p = n \<Longrightarrow>
      ok (push b f (put b p q1)) \<and> (\<exists>m. padded p m \<and> sent (push b f (put b p q1)) = sent q @ [m])"

end
