(* ===== verification/Xcp_Command.thy ===== *)
theory Xcp_Command
  imports Xcp_Persist Xcp_Daq_Trigger
begin

text \<open>
  The command processor (\<^verbatim>\<open>src/src/xcplite.c\<close>, \<^verbatim>\<open>XcpAsyncCommand\<close>) in the default
  configuration: one definition per command, in the order of the \<^verbatim>\<open>switch\<close>, the dispatcher, the
  responses, \<^verbatim>\<open>XcpDisconnect\<close> and the queue of one pending command that an event executes. Packets
  are byte buffers with the little-endian field accesses of \<^verbatim>\<open>src/src/xcp.h\<close>; the response buffer
  keeps its old bytes as the code does.
\<close>

section \<open>Packets\<close>

abbreviation (input) PID_RES :: nat where "PID_RES \<equiv> 0xFF"
abbreviation (input) PID_ERR :: nat where "PID_ERR \<equiv> 0xFE"
abbreviation (input) PID_EV :: nat where "PID_EV \<equiv> 0xFD"
abbreviation (input) PID_SERV :: nat where "PID_SERV \<equiv> 0xFC"

definition CRO_BYTE :: "bytes \<Rightarrow> nat \<Rightarrow> nat" where
  "CRO_BYTE cro k = unat (cro k)"

definition CRO_WORD :: "bytes \<Rightarrow> nat \<Rightarrow> nat" where
  "CRO_WORD cro k = rd16 cro (2 * k)"

definition CRO_DWORD :: "bytes \<Rightarrow> nat \<Rightarrow> nat" where
  "CRO_DWORD cro k = rd32 cro (4 * k)"

definition CRM_BYTE :: "nat \<Rightarrow> nat \<Rightarrow> 'a xcp_scheme \<Rightarrow> 'a xcp_scheme" where
  "CRM_BYTE k v s = s\<lparr>crm := (crm s)(k := of_nat v)\<rparr>"

definition CRM_WORD :: "nat \<Rightarrow> nat \<Rightarrow> 'a xcp_scheme \<Rightarrow> 'a xcp_scheme" where
  "CRM_WORD k v s = s\<lparr>crm := wr16 (crm s) (2 * k) v\<rparr>"

definition CRM_DWORD :: "nat \<Rightarrow> nat \<Rightarrow> 'a xcp_scheme \<Rightarrow> 'a xcp_scheme" where
  "CRM_DWORD k v s = s\<lparr>crm := wr32 (crm s) (4 * k) v\<rparr>"

definition CRM_DATA :: "nat \<Rightarrow> u8 list \<Rightarrow> 'a xcp_scheme \<Rightarrow> 'a xcp_scheme" where
  "CRM_DATA k d s = s\<lparr>crm := mem_set k d (crm s)\<rparr>"

definition CRM_LEN :: "nat \<Rightarrow> 'a xcp_scheme \<Rightarrow> 'a xcp_scheme" where
  "CRM_LEN n s = s\<lparr>crm_len := n\<rparr>"

text \<open>How a command ends: the jump labels of \<^verbatim>\<open>XcpAsyncCommand\<close>.\<close>

datatype reply = Respond | NegativeResponse nat | BusyResponse | NoResponse | Ignored

definition check_error :: "nat \<times> 'a xcp_scheme \<Rightarrow> reply \<times> 'a xcp_scheme" where
  "check_error r = (case r of (e, s) \<Rightarrow> if e \<noteq> 0 then (NegativeResponse e, s) else (Respond, s))"

definition check_len :: "nat \<Rightarrow> nat \<Rightarrow> reply \<times> 'a xcp_scheme \<Rightarrow> 'a xcp_scheme \<Rightarrow> reply \<times> 'a xcp_scheme" where
  "check_len n len k s = (if len < n then (NegativeResponse CRC_CMD_SYNTAX, s) else k)"

section \<open>Sending\<close>

definition crm_packet :: "'a xcp_scheme \<Rightarrow> u8 list" where
  "crm_packet s = mem_get 0 (crm_len s) (crm s)"

definition XcpSendResponse :: "bool \<Rightarrow> 'a xcp_scheme \<Rightarrow> 'a xcp_scheme" where
  "XcpSendResponse async s =
     (if \<not> async then s\<lparr>tl_sent := tl_sent s @ [crm_packet s]\<rparr>
      else (case queueAcquire (crm_len s) (xcp_queue s) of
          (None, q) \<Rightarrow> s\<lparr>xcp_queue := q\<rparr>
        | (Some b, q) \<Rightarrow> s\<lparr>xcp_queue := queuePush b True (queue_put b (crm_packet s) q)\<rparr>))"

definition XcpPushCommand :: "bytes \<Rightarrow> nat \<Rightarrow> 'a xcp_scheme \<Rightarrow> nat \<times> 'a xcp_scheme" where
  "XcpPushCommand cro len s =
     (if cmd_pending s then (CRC_CMD_BUSY, s)
      else (CRC_CMD_OK, s\<lparr>cmd_pending := True, cmd_pending_crm_len := len,
              cmd_pending_crm := mem_set 0 (mem_get 0 len cro) (cmd_pending_crm s)\<rparr>))"

text \<open>Stop of the measurement, flush of the transmit queue and of the pending calibration changes.\<close>

definition wait_queue_empty :: "appl \<Rightarrow> 'a xcp_scheme \<Rightarrow> bool \<times> 'a xcp_scheme" where
  "wait_queue_empty ap s = (case drain_queue ap (xcp_queue s) of (ok, q) \<Rightarrow> (ok, s\<lparr>xcp_queue := q\<rparr>))"

definition XcpDisconnect :: "appl \<Rightarrow> 'a xcp_scheme \<Rightarrow> 'a xcp_scheme" where
  "XcpDisconnect ap s =
     (if \<not> isStarted s then s
      else if \<not> isConnected s then s
      else let s1 = (if isDaqRunning s then snd (wait_queue_empty ap (XcpStopDaq s)) else s);
               s2 = snd (XcpCalSegPublishAll (reader_sched ap) True s1)
        in s2\<lparr>session_status := session_status s2 AND NOT SS_CONNECTED\<rparr>)"

section \<open>Session commands\<close>

definition cmd_connect :: "appl \<Rightarrow> bytes \<Rightarrow> 'a xcp_scheme \<Rightarrow> reply \<times> 'a xcp_scheme" where
  "cmd_connect ap cro s =
     (case ApplXcpConnect ap (CRO_BYTE cro 1) s of
        (False, s1) \<Rightarrow> (NoResponse, s1)
      | (True, s1) \<Rightarrow>
          let s2 = XcpClearDaq (s1\<lparr>session_status := SS_ACTIVATED OR SS_STARTED OR SS_CONNECTED OR SS_LEGACY_MODE\<rparr>)
          in (Respond, CRM_BYTE 2 0x80 (CRM_BYTE 1 5 (CRM_WORD 2 XCPTL_MAX_DTO_SIZE (CRM_BYTE 3 XCPTL_MAX_CTO_SIZE
               (CRM_BYTE 6 1 (CRM_BYTE 7 1 (CRM_LEN 8 s2))))))))"

definition cmd_user :: "appl \<Rightarrow> bytes \<Rightarrow> nat \<Rightarrow> 'a xcp_scheme \<Rightarrow> reply \<times> 'a xcp_scheme" where
  "cmd_user ap cro len s = check_len 4 len
     (let subcmd = CRO_BYTE cro 1 in
      if subcmd = 1 then (Respond, XcpCalSegBeginAtomicTransaction s)
      else if subcmd = 2 then check_error (XcpCalSegEndAtomicTransaction (reader_sched ap) s)
      else check_error (ApplXcpUserCommand ap subcmd s)) s"

definition cmd_synch :: "'a xcp_scheme \<Rightarrow> reply \<times> 'a xcp_scheme" where
  "cmd_synch s = (Respond, CRM_BYTE 1 0 (CRM_BYTE 0 PID_ERR (CRM_LEN 2 s)))"

definition cmd_get_comm_mode_info :: "'a xcp_scheme \<Rightarrow> reply \<times> 'a xcp_scheme" where
  "cmd_get_comm_mode_info s = (Respond, CRM_BYTE 5 0 (CRM_BYTE 4 0 (CRM_BYTE 6 0 (CRM_BYTE 2 0 (CRM_BYTE 7 0x23 (CRM_LEN 8 s))))))"

definition cmd_disconnect :: "appl \<Rightarrow> 'a xcp_scheme \<Rightarrow> reply \<times> 'a xcp_scheme" where
  "cmd_disconnect ap s = (Respond, XcpDisconnect ap s)"

definition cmd_get_id :: "appl \<Rightarrow> bytes \<Rightarrow> nat \<Rightarrow> 'a xcp_scheme \<Rightarrow> reply \<times> 'a xcp_scheme" where
  "cmd_get_id ap cro len s0 = check_len 2 len
     (let idt = CRO_BYTE cro 1; s = CRM_DWORD 1 0 (CRM_LEN 8 s0) in
      if idt \<in> {IDT_ASCII, IDT_ASAM_NAME, IDT_ASAM_PATH, IDT_ASAM_URL} then
        (case ApplXcpGetId ap idt (Some (XCPTL_MAX_CTO_SIZE - 8)) s of
           (l, d, s1) \<Rightarrow> (Respond, CRM_BYTE 1 1 (CRM_LEN ((8 + l) mod 256) (CRM_DWORD 1 l (CRM_DATA 8 d s1)))))
      else if idt = IDT_ASAM_EPK then
        (case ApplXcpGetId ap idt None (s\<lparr>mta_addr := 0x80000000, mta_ptr := ObjPtr ObjEpk 0, mta_ext := XCP_ADDR_EXT_PTR\<rparr>) of
           (l, d, s1) \<Rightarrow> (Respond, CRM_BYTE 1 0 (CRM_DWORD 1 l s1)))
      else if idt = IDT_ASAM_UPLOAD then
        (case ApplXcpGetId ap idt None (s\<lparr>mta_addr := 0, mta_ext := XCP_ADDR_EXT_FILE\<rparr>) of
           (l, d, s1) \<Rightarrow> (Respond, CRM_BYTE 1 0 (CRM_DWORD 1 l s1)))
      else (NegativeResponse CRC_OUT_OF_RANGE, s)) s0"

definition cmd_get_status :: "'a xcp_scheme \<Rightarrow> reply \<times> 'a xcp_scheme" where
  "cmd_get_status s = (Respond, CRM_WORD 2 0 (CRM_BYTE 2 0 (CRM_BYTE 1 (unat (session_status s) mod 256) (CRM_LEN 6 s))))"

definition cmd_set_request :: "bytes \<Rightarrow> nat \<Rightarrow> 'a xcp_scheme \<Rightarrow> reply \<times> 'a xcp_scheme" where
  "cmd_set_request cro len s0 = check_len 4 len
     (let s = CRM_LEN 1 s0 in
      if CRO_BYTE cro 1 = 1 then check_error (XcpFreezeSelectedCalSegs False s)
      else (NegativeResponse CRC_OUT_OF_RANGE, s)) s0"

section \<open>Memory access commands\<close>

definition cmd_set_mta :: "appl \<Rightarrow> bytes \<Rightarrow> nat \<Rightarrow> 'a xcp_scheme \<Rightarrow> reply \<times> 'a xcp_scheme" where
  "cmd_set_mta ap cro len s = check_len 8 len (check_error (XcpSetMta ap (CRO_BYTE cro 3) (CRO_DWORD cro 1) s)) s"

text \<open>Commands on dynamic addresses are queued for the event that knows the base address.\<close>

definition push_or_busy :: "bytes \<Rightarrow> nat \<Rightarrow> 'a xcp_scheme \<Rightarrow> reply \<times> 'a xcp_scheme" where
  "push_or_busy cro len s = (case XcpPushCommand cro len s of
     (r, s1) \<Rightarrow> (if r = CRC_CMD_BUSY then BusyResponse else NoResponse, s1))"

definition cmd_download :: "appl \<Rightarrow> bytes \<Rightarrow> nat \<Rightarrow> 'a xcp_scheme \<Rightarrow> reply \<times> 'a xcp_scheme" where
  "cmd_download ap cro len s = check_len 2 len
     (let n = CRO_BYTE cro 1 in
      if XCPTL_MAX_CTO_SIZE - 2 < n \<or> len - 2 < n then (NegativeResponse CRC_CMD_SYNTAX, s)
      else if XcpAddrIsDyn (mta_ext s) then push_or_busy cro len s
      else check_error (XcpWriteMta ap (mem_get 2 n cro) s)) s"

text \<open>Executed asynchronously, the commands with an address find the MTA already set by the event.\<close>

definition set_mta_unless :: "appl \<Rightarrow> bool \<Rightarrow> bytes \<Rightarrow> 'a xcp_scheme \<Rightarrow> nat \<times> 'a xcp_scheme" where
  "set_mta_unless ap async cro s = (if async then (CRC_CMD_OK, s) else XcpSetMta ap (CRO_BYTE cro 3) (CRO_DWORD cro 1) s)"

definition cmd_short_download :: "appl \<Rightarrow> bool \<Rightarrow> bytes \<Rightarrow> nat \<Rightarrow> 'a xcp_scheme \<Rightarrow> reply \<times> 'a xcp_scheme" where
  "cmd_short_download ap async cro len s0 = check_len 8 len
     (let n = CRO_BYTE cro 1 in
      if XCPTL_MAX_CTO_SIZE - 8 < n \<or> len - 8 < n then (NegativeResponse CRC_CMD_SYNTAX, s0)
      else (case set_mta_unless ap async cro s0 of (e, s) \<Rightarrow>
        if e \<noteq> 0 then (NegativeResponse e, s)
        else if XcpAddrIsDyn (mta_ext s) then push_or_busy cro len s
        else check_error (XcpWriteMta ap (mem_get 8 n cro) s))) s0"

definition upload_response :: "appl \<Rightarrow> nat \<Rightarrow> 'a xcp_scheme \<Rightarrow> reply \<times> 'a xcp_scheme" where
  "upload_response ap n s = (case XcpReadMta ap n s of
     (Inl e, s1) \<Rightarrow> (NegativeResponse e, s1)
   | (Inr d, s1) \<Rightarrow> (Respond, CRM_LEN ((1 + n) mod 256) (CRM_DATA 1 d s1)))"

definition cmd_upload :: "appl \<Rightarrow> bytes \<Rightarrow> nat \<Rightarrow> 'a xcp_scheme \<Rightarrow> reply \<times> 'a xcp_scheme" where
  "cmd_upload ap cro len s = check_len 2 len
     (let n = CRO_BYTE cro 1 in
      if XCPTL_MAX_CTO_SIZE - 1 < n then (NegativeResponse CRC_OUT_OF_RANGE, s)
      else if XcpAddrIsDyn (mta_ext s) then push_or_busy cro len s
      else upload_response ap n s) s"

definition cmd_short_upload :: "appl \<Rightarrow> bool \<Rightarrow> bytes \<Rightarrow> nat \<Rightarrow> 'a xcp_scheme \<Rightarrow> reply \<times> 'a xcp_scheme" where
  "cmd_short_upload ap async cro len s0 = check_len 8 len
     (let n = CRO_BYTE cro 1 in
      if XCPTL_MAX_CTO_SIZE - 1 < n then (NegativeResponse CRC_OUT_OF_RANGE, s0)
      else (case set_mta_unless ap async cro s0 of (e, s) \<Rightarrow>
        if e \<noteq> 0 then (NegativeResponse e, s)
        else if XcpAddrIsDyn (mta_ext s) then push_or_busy cro len s
        else upload_response ap n s)) s0"

definition cmd_build_checksum :: "appl \<Rightarrow> bytes \<Rightarrow> nat \<Rightarrow> 'a xcp_scheme \<Rightarrow> reply \<times> 'a xcp_scheme" where
  "cmd_build_checksum ap cro len s = check_len 8 len
     (if XcpAddrIsDyn (mta_ext s) then (NoResponse, snd (XcpPushCommand cro len s))
      else (case calcChecksum ap (CRO_DWORD cro 1) s of
          (Inl e, s1) \<Rightarrow> (NegativeResponse e, s1)
        | (Inr r, s1) \<Rightarrow> (Respond, CRM_LEN 8 (CRM_BYTE 1 8 (CRM_DWORD 1 (unat r) s1))))) s"

section \<open>Page commands\<close>

definition cmd_set_cal_page :: "bytes \<Rightarrow> nat \<Rightarrow> 'a xcp_scheme \<Rightarrow> reply \<times> 'a xcp_scheme" where
  "cmd_set_cal_page cro len s = check_len 4 len
     (check_error (XcpCalSegSetCalPage (CRO_BYTE cro 2) (CRO_BYTE cro 3) (cro 1) s)) s"

definition cmd_get_cal_page :: "bytes \<Rightarrow> nat \<Rightarrow> 'a xcp_scheme \<Rightarrow> reply \<times> 'a xcp_scheme" where
  "cmd_get_cal_page cro len s0 = check_len 3 len
     (let s = CRM_LEN 4 s0; page = XcpCalSegGetCalPage (CRO_BYTE cro 2) (CRO_BYTE cro 1) s in
      if page = 0xFF then (NegativeResponse CRC_SEGMENT_NOT_VALID, s) else (Respond, CRM_BYTE 3 page s)) s0"

definition cmd_copy_cal_page :: "bytes \<Rightarrow> 'a xcp_scheme \<Rightarrow> reply \<times> 'a xcp_scheme" where
  "cmd_copy_cal_page cro s0 = check_error (XcpCalSegCopyCalPage (CRO_BYTE cro 1) (CRO_BYTE cro 2)
     (CRO_BYTE cro 3) (CRO_BYTE cro 4) (CRM_LEN 1 s0))"

definition cmd_get_pag_processor_info :: "nat \<Rightarrow> 'a xcp_scheme \<Rightarrow> reply \<times> 'a xcp_scheme" where
  "cmd_get_pag_processor_info len s = check_len 1 len
     (Respond, CRM_BYTE 2 1 (CRM_BYTE 1 (XcpGetMemSegCount s) (CRM_LEN 3 s))) s"

definition cmd_set_segment_mode :: "bytes \<Rightarrow> nat \<Rightarrow> 'a xcp_scheme \<Rightarrow> reply \<times> 'a xcp_scheme" where
  "cmd_set_segment_mode cro len s = check_len 3 len (check_error (XcpSetCalSegMode (CRO_BYTE cro 2) (cro 1) s)) s"

definition cmd_get_segment_mode :: "bytes \<Rightarrow> nat \<Rightarrow> 'a xcp_scheme \<Rightarrow> reply \<times> 'a xcp_scheme" where
  "cmd_get_segment_mode cro len s = check_len 3 len
     (Respond, CRM_BYTE 2 (unat (XcpGetCalSegMode (CRO_BYTE cro 2) s)) (CRM_LEN 3 s)) s"

definition XcpGetSegInfo :: "nat \<Rightarrow> nat \<Rightarrow> nat \<Rightarrow> 'a xcp_scheme \<Rightarrow> nat \<times> 'a xcp_scheme" where
  "XcpGetSegInfo number mode seg_info s =
     (let i = XcpGetCalSegIndex number s; c = CalSegPtr s i in
      if i = XCP_UNDEFINED_CALSEG then (CRC_OUT_OF_RANGE, s)
      else if mode = 0 then (let s1 = CRM_LEN 8 s in
        if seg_info = 0 then (CRC_CMD_OK, CRM_DWORD 1 (XcpGetCalSegBaseAddress i s) s1)
        else if seg_info = 1 then (CRC_CMD_OK, CRM_DWORD 1 (seg_bytes c) s1)
        else if seg_info = 2 then (CRC_CMD_OK, (CRM_DWORD 1 (STRNLEN (calseg_name c) XCP_MAX_CALSEG_NAME) s1)
            \<lparr>mta_ptr := ObjPtr (ObjSegName i) 0, mta_ext := XCP_ADDR_EXT_PTR\<rparr>)
        else (CRC_OUT_OF_RANGE, s1))
      else if mode = 1 then (CRC_CMD_OK, CRM_BYTE 5 0 (CRM_BYTE 4 0 (CRM_BYTE 3 0 (CRM_BYTE 2 0 (CRM_BYTE 1 2 (CRM_LEN 6 s))))))
      else if mode = 2 then (CRC_OUT_OF_RANGE, s)
      else (CRC_CMD_SYNTAX, s))"

definition cmd_get_segment_info :: "bytes \<Rightarrow> nat \<Rightarrow> 'a xcp_scheme \<Rightarrow> reply \<times> 'a xcp_scheme" where
  "cmd_get_segment_info cro len s = check_len 5 len
     (check_error (XcpGetSegInfo (CRO_BYTE cro 2) (CRO_BYTE cro 1) (CRO_BYTE cro 3) s)) s"

definition XcpGetSegPageInfo :: "nat \<Rightarrow> nat \<Rightarrow> 'a xcp_scheme \<Rightarrow> nat \<times> 'a xcp_scheme" where
  "XcpGetSegPageInfo number page s =
     (if XcpGetCalSegIndex number s = XCP_UNDEFINED_CALSEG then (CRC_OUT_OF_RANGE, s)
      else let s1 = CRM_LEN 3 s in
        if 1 < page then (CRC_PAGE_NOT_VALID, s1)
        else (CRC_CMD_OK, CRM_BYTE 2 XCP_CALPAGE_DEFAULT_PAGE
               (CRM_BYTE 1 (if page = XCP_CALPAGE_WORKING_PAGE then 0x3F else 0x0F) s1)))"

definition cmd_get_page_info :: "bytes \<Rightarrow> nat \<Rightarrow> 'a xcp_scheme \<Rightarrow> reply \<times> 'a xcp_scheme" where
  "cmd_get_page_info cro len s = check_len 4 len (check_error (XcpGetSegPageInfo (CRO_BYTE cro 2) (CRO_BYTE cro 3) s)) s"

section \<open>DAQ commands\<close>

definition cmd_get_daq_processor_info :: "'a xcp_scheme \<Rightarrow> reply \<times> 'a xcp_scheme" where
  "cmd_get_daq_processor_info s = (Respond, CRM_BYTE 1 0x11 (CRM_BYTE 7 0xC0 (CRM_WORD 2 (XcpGetEventCount s)
     (CRM_WORD 1 (daq_count s) (CRM_BYTE 6 0 (CRM_LEN 8 s))))))"

definition cmd_get_daq_resolution_info :: "'a xcp_scheme \<Rightarrow> reply \<times> 'a xcp_scheme" where
  "cmd_get_daq_resolution_info s = (Respond, CRM_WORD 3 1 (CRM_BYTE 5 0x0C (CRM_BYTE 4 XCP_MAX_ODT_ENTRY_SIZE
     (CRM_BYTE 2 XCP_MAX_ODT_ENTRY_SIZE (CRM_BYTE 3 1 (CRM_BYTE 1 1 (CRM_LEN 8 s)))))))"

text \<open>The cycle time in nanoseconds becomes a byte and a power of ten.\<close>

fun time_cycle_unit :: "nat \<Rightarrow> nat \<times> nat" where
  "time_cycle_unit n = (if n < 256 then (n, 0) else (case time_cycle_unit (n div 10) of (c, u) \<Rightarrow> (c, u + 1)))"

declare time_cycle_unit.simps [simp del]

definition cmd_get_daq_event_info :: "bytes \<Rightarrow> nat \<Rightarrow> 'a xcp_scheme \<Rightarrow> reply \<times> 'a xcp_scheme" where
  "cmd_get_daq_event_info cro len s = check_len 4 len
     (let e = CRO_WORD cro 1 in
      (case XcpGetEventName s e of
         None \<Rightarrow> (NegativeResponse CRC_OUT_OF_RANGE, s)
       | Some name \<Rightarrow> (case time_cycle_unit (XcpGetEventCycleTime s e) of (c, u) \<Rightarrow>
           (Respond, (CRM_BYTE 6 (XcpGetEventPriority s e) (CRM_BYTE 5 u (CRM_BYTE 4 c
              (CRM_BYTE 3 (STRNLEN name XCP_MAX_EVENT_NAME) (CRM_BYTE 2 0xFF (CRM_BYTE 1 0x84 (CRM_LEN 7 s)))))))
              \<lparr>mta_ptr := ObjPtr (ObjEventName e) 0, mta_ext := XCP_ADDR_EXT_PTR\<rparr>)))) s"

definition cmd_free_daq :: "'a xcp_scheme \<Rightarrow> reply \<times> 'a xcp_scheme" where
  "cmd_free_daq s = (Respond, XcpClearDaq s)"

definition unless_running :: "'a xcp_scheme \<Rightarrow> reply \<times> 'a xcp_scheme \<Rightarrow> reply \<times> 'a xcp_scheme" where
  "unless_running s k = (if isDaqRunning s then (NegativeResponse CRC_DAQ_ACTIVE, s) else k)"

definition cmd_alloc_daq :: "bytes \<Rightarrow> nat \<Rightarrow> 'a xcp_scheme \<Rightarrow> reply \<times> 'a xcp_scheme" where
  "cmd_alloc_daq cro len s = check_len 4 len (unless_running s (check_error (XcpAllocDaq (CRO_WORD cro 1) s))) s"

definition cmd_alloc_odt :: "bytes \<Rightarrow> nat \<Rightarrow> 'a xcp_scheme \<Rightarrow> reply \<times> 'a xcp_scheme" where
  "cmd_alloc_odt cro len s = check_len 5 len
     (unless_running s (check_error (XcpAllocOdt (CRO_WORD cro 1) (CRO_BYTE cro 4) s))) s"

definition cmd_alloc_odt_entry :: "bytes \<Rightarrow> nat \<Rightarrow> 'a xcp_scheme \<Rightarrow> reply \<times> 'a xcp_scheme" where
  "cmd_alloc_odt_entry cro len s = check_len 6 len
     (unless_running s (check_error (XcpAllocOdtEntry (CRO_WORD cro 1) (CRO_BYTE cro 4) (CRO_BYTE cro 5) s))) s"

definition cmd_get_daq_list_mode :: "bytes \<Rightarrow> nat \<Rightarrow> 'a xcp_scheme \<Rightarrow> reply \<times> 'a xcp_scheme" where
  "cmd_get_daq_list_mode cro len s = check_len 4 len
     (let daq = CRO_WORD cro 1 in
      if daq_count s \<le> daq then (NegativeResponse CRC_OUT_OF_RANGE, s)
      else (Respond, CRM_BYTE 7 (unat (DaqListPriority s daq)) (CRM_WORD 2 (DaqListEventChannel s daq)
             (CRM_BYTE 6 1 (CRM_BYTE 1 (unat (DaqListMode s daq)) (CRM_LEN 8 s)))))) s"

definition cmd_set_daq_list_mode :: "bytes \<Rightarrow> nat \<Rightarrow> 'a xcp_scheme \<Rightarrow> (reply \<times> 'a xcp_scheme) option" where
  "cmd_set_daq_list_mode cro len s =
     (let daq = CRO_WORD cro 1; mode = cro 1 in
      if len < 8 then Some (NegativeResponse CRC_CMD_SYNTAX, s)
      else if isDaqRunning s then Some (NegativeResponse CRC_DAQ_ACTIVE, s)
      else if daq_count s \<le> daq then Some (NegativeResponse CRC_OUT_OF_RANGE, s)
      else if mode AND 0x2B \<noteq> 0 then Some (NegativeResponse CRC_OUT_OF_RANGE, s)
      else if mode AND 0x10 = 0 then Some (NegativeResponse CRC_CMD_SYNTAX, s)
      else map_option check_error
        (XcpSetDaqListMode daq (CRO_WORD cro 2) (unat mode) (CRO_BYTE cro 6) (CRO_BYTE cro 7) s))"

definition cmd_set_daq_ptr :: "bytes \<Rightarrow> nat \<Rightarrow> 'a xcp_scheme \<Rightarrow> reply \<times> 'a xcp_scheme" where
  "cmd_set_daq_ptr cro len s = check_len 6 len
     (check_error (XcpSetDaqPtr (CRO_WORD cro 1) (CRO_BYTE cro 4) (CRO_BYTE cro 5) s)) s"

definition cmd_write_daq :: "bytes \<Rightarrow> nat \<Rightarrow> 'a xcp_scheme \<Rightarrow> reply \<times> 'a xcp_scheme" where
  "cmd_write_daq cro len s = check_len 8 len
     (check_error (XcpAddOdtEntry (CRO_DWORD cro 1) (CRO_BYTE cro 3) (CRO_BYTE cro 2) s)) s"

text \<open>Entries \<open>i\<close> to \<open>i + k\<close> of a batch; the first entry that is refused clears the configuration.\<close>

fun write_daq_entries :: "bytes \<Rightarrow> nat \<Rightarrow> nat \<Rightarrow> 'a xcp_scheme \<Rightarrow> reply \<times> 'a xcp_scheme" where
  "write_daq_entries cro i 0 s = (Respond, s)"
| "write_daq_entries cro i (Suc k) s =
     (case XcpAddOdtEntry (CRO_DWORD cro (1 + 2 * i)) (CRO_BYTE cro (8 + 8 * i)) (CRO_BYTE cro (3 + 8 * i)) s of
        (r, s1) \<Rightarrow> if r \<noteq> CRC_CMD_OK then (NegativeResponse r, XcpClearDaq s1) else write_daq_entries cro (i + 1) k s1)"

definition cmd_write_daq_multiple :: "bytes \<Rightarrow> nat \<Rightarrow> 'a xcp_scheme \<Rightarrow> reply \<times> 'a xcp_scheme" where
  "cmd_write_daq_multiple cro len s = check_len 10 len
     (let n = CRO_BYTE cro 1 in check_len (2 + n * 8) len (unless_running s (write_daq_entries cro 0 n s)) s) s"

definition cmd_start_stop_daq_list :: "bytes \<Rightarrow> nat \<Rightarrow> 'a xcp_scheme \<Rightarrow> reply \<times> 'a xcp_scheme" where
  "cmd_start_stop_daq_list cro len s = check_len 4 len
     (let daq = CRO_WORD cro 1; mode = CRO_BYTE cro 1 in
      if daq_count s \<le> daq then (NegativeResponse CRC_OUT_OF_RANGE, s)
      else let s1 = CRM_BYTE 1 0 (CRM_LEN 2 s) in
        if mode = 2 then (Respond, set_list_state daq (DaqListState s1 daq OR DAQ_STATE_SELECTED) s1)
        else if mode = 1 then (NegativeResponse CRC_MODE_NOT_VALID, s1)
        else if mode = 0 then (Respond, XcpStopDaqList daq s1)
        else (NegativeResponse CRC_MODE_NOT_VALID, s1)) s"

definition cmd_start_stop_synch :: "appl \<Rightarrow> bool \<Rightarrow> bytes \<Rightarrow> nat \<Rightarrow> 'a xcp_scheme \<Rightarrow> reply \<times> 'a xcp_scheme" where
  "cmd_start_stop_synch ap async cro len s =
     (if daq_count s = 0 \<or> odt_count s = 0 \<or> odt_entry_count s = 0 then (NegativeResponse CRC_DAQ_CONFIG, s)
      else check_len 2 len
        (let mode = CRO_BYTE cro 1;
             checked = XcpCheckDaqLists (ApplXcpCheckMemory ap) DAQ_STATE_SELECTED XCP_UNDEFINED_EVENT_ID s in
         if mode = 3 then
           (if \<not> checked then (NegativeResponse CRC_DAQ_CONFIG, s)
            else if \<not> ApplXcpPrepareDaq ap then (NegativeResponse CRC_RESOURCE_TEMPORARY_NOT_ACCESSIBLE, s)
            else (Respond, s))
         else if mode = 2 then (Respond, XcpStopSelectedDaqLists s)
         else if mode = 1 then
           (if isDaqRunning s then (NegativeResponse CRC_DAQ_ACTIVE, s)
            else if \<not> checked then (NegativeResponse CRC_DAQ_CONFIG, s)
            else (NoResponse, XcpStartDaq (clock_now ap) (XcpStartSelectedDaqLists (XcpSendResponse async s))))
         else if mode = 0 then (Respond, snd (wait_queue_empty ap (XcpStopDaq s)))
         else (NegativeResponse CRC_MODE_NOT_VALID, s)) s)"

section \<open>Time and version commands\<close>

definition cmd_time_correlation_properties :: "appl \<Rightarrow> bytes \<Rightarrow> nat \<Rightarrow> 'a xcp_scheme \<Rightarrow> reply \<times> 'a xcp_scheme" where
  "cmd_time_correlation_properties ap cro len s = check_len 6 len
     (let props = cro 1;
          s1 = CRM_LEN 8 s;
          s2 = (if props AND 3 \<noteq> 0 then s1\<lparr>session_status := session_status s1 AND NOT SS_LEGACY_MODE\<rparr> else s1);
          s3 = CRM_WORD 3 0 s2 in
      if props AND 0x0C \<noteq> 0 then (NegativeResponse CRC_OUT_OF_RANGE, s3)
      else let s4 = CRM_BYTE 5 0 (CRM_BYTE 1 2 s3);
               (ptp, info) = ApplXcpGetClockInfoGrandmaster ap (clock_info s4);
               s5 = s4\<lparr>clock_info := info\<rparr>;
               s6 = (if ptp then CRM_BYTE 4 7 (CRM_BYTE 3 (ApplXcpGetClockState ap) (CRM_BYTE 2 5 s5))
                     else CRM_BYTE 4 1 (CRM_BYTE 3 7 (CRM_BYTE 2 0 s5)))
        in (Respond, if cro 2 AND 1 \<noteq> 0 then s6\<lparr>mta_ptr := ObjPtr ObjClockInfo 0, mta_ext := XCP_ADDR_EXT_PTR\<rparr> else s6)) s"

definition cmd_transport_layer :: "'a xcp_scheme \<Rightarrow> reply \<times> 'a xcp_scheme" where
  "cmd_transport_layer s = (NegativeResponse CRC_CMD_UNKNOWN, s)"

definition cmd_get_daq_clock :: "appl \<Rightarrow> 'a xcp_scheme \<Rightarrow> reply \<times> 'a xcp_scheme" where
  "cmd_get_daq_clock ap s =
     (let s1 = CRM_BYTE 2 0x18 (CRM_BYTE 1 0 s) in
      if \<not> isLegacyMode s
      then (Respond, CRM_BYTE 12 (ApplXcpGetClockState ap) (CRM_DWORD 2 (clock_now ap div 2 ^ 32)
             (CRM_DWORD 1 (clock_now ap) (CRM_BYTE 3 2 (CRM_LEN 13 s1)))))
      else (Respond, CRM_DWORD 1 (clock_now ap) (CRM_LEN 8 (CRM_BYTE 3 1 s1))))"

definition cmd_level_1 :: "bytes \<Rightarrow> 'a xcp_scheme \<Rightarrow> reply \<times> 'a xcp_scheme" where
  "cmd_level_1 cro s =
     (if CRO_BYTE cro 1 = 0
      then (Respond, CRM_BYTE 5 4 (CRM_BYTE 4 1 (CRM_BYTE 3 4 (CRM_BYTE 2 1 (CRM_BYTE 1 0 (CRM_LEN 6 s))))))
      else (NegativeResponse CRC_CMD_UNKNOWN, s))"

section \<open>The dispatcher\<close>

definition switch_command :: "appl \<Rightarrow> bool \<Rightarrow> bytes \<Rightarrow> nat \<Rightarrow> 'a xcp_scheme \<Rightarrow> (reply \<times> 'a xcp_scheme) option" where
  "switch_command ap async cro len s =
     (let c = CRO_BYTE cro 0 in
      if c = 0xF1 then Some (cmd_user ap cro len s)
      else if c = 0xFC then Some (cmd_synch s)
      else if c = 0xC1 then Some (NoResponse, s)
      else if c = 0xFB then Some (cmd_get_comm_mode_info s)
      else if c = 0xFE then Some (cmd_disconnect ap s)
      else if c = 0xFA then Some (cmd_get_id ap cro len s)
      else if c = 0xFD then Some (cmd_get_status s)
      else if c = 0xF6 then Some (cmd_set_mta ap cro len s)
      else if c = 0xF9 then Some (cmd_set_request cro len s)
      else if c = 0xF0 then Some (cmd_download ap cro len s)
      else if c = 0xED then Some (cmd_short_download ap async cro len s)
      else if c = 0xF5 then Some (cmd_upload ap cro len s)
      else if c = 0xF4 then Some (cmd_short_upload ap async cro len s)
      else if c = 0xEB then Some (cmd_set_cal_page cro len s)
      else if c = 0xEA then Some (cmd_get_cal_page cro len s)
      else if c = 0xE4 then Some (cmd_copy_cal_page cro s)
      else if c = 0xE9 then Some (cmd_get_pag_processor_info len s)
      else if c = 0xE6 then Some (cmd_set_segment_mode cro len s)
      else if c = 0xE5 then Some (cmd_get_segment_mode cro len s)
      else if c = 0xE8 then Some (cmd_get_segment_info cro len s)
      else if c = 0xE7 then Some (cmd_get_page_info cro len s)
      else if c = 0xF3 then Some (cmd_build_checksum ap cro len s)
      else if c = 0xDA then Some (cmd_get_daq_processor_info s)
      else if c = 0xD9 then Some (cmd_get_daq_resolution_info s)
      else if c = 0xD7 then Some (cmd_get_daq_event_info cro len s)
      else if c = 0xD6 then Some (cmd_free_daq s)
      else if c = 0xD5 then Some (cmd_alloc_daq cro len s)
      else if c = 0xD4 then Some (cmd_alloc_odt cro len s)
      else if c = 0xD3 then Some (cmd_alloc_odt_entry cro len s)
      else if c = 0xDF then Some (cmd_get_daq_list_mode cro len s)
      else if c = 0xE0 then cmd_set_daq_list_mode cro len s
      else if c = 0xE2 then Some (cmd_set_daq_ptr cro len s)
      else if c = 0xE1 then Some (cmd_write_daq cro len s)
      else if c = 0xC7 then Some (cmd_write_daq_multiple cro len s)
      else if c = 0xDE then Some (cmd_start_stop_daq_list cro len s)
      else if c = 0xDD then Some (cmd_start_stop_synch ap async cro len s)
      else if c = 0xC6 then Some (cmd_time_correlation_properties ap cro len s)
      else if c = 0xF2 then Some (cmd_transport_layer s)
      else if c = 0xDC then Some (cmd_get_daq_clock ap s)
      else if c = 0xC0 then Some (cmd_level_1 cro s)
      else Some (NegativeResponse CRC_CMD_UNKNOWN, s))"

definition run_command :: "appl \<Rightarrow> bool \<Rightarrow> bytes \<Rightarrow> nat \<Rightarrow> 'a xcp_scheme \<Rightarrow> (reply \<times> 'a xcp_scheme) option" where
  "run_command ap async cro len s0 =
     (let s = CRM_LEN 1 (CRM_BYTE 0 PID_RES s0) in
      if len = 2 \<and> CRO_BYTE cro 0 = 0xFF then Some (cmd_connect ap cro s)
      else if \<not> isConnected s \<and> CRO_BYTE cro 0 \<noteq> 0xF2 then Some (Ignored, s)
      else if len < 1 \<or> XCPTL_MAX_CTO_SIZE < len then Some (NegativeResponse CRC_CMD_SYNTAX, s)
      else switch_command ap async cro len s)"

definition finish_command :: "bool \<Rightarrow> reply \<times> 'a xcp_scheme \<Rightarrow> nat \<times> 'a xcp_scheme" where
  "finish_command async r = (case r of
     (Respond, s) \<Rightarrow> (CRC_CMD_OK, XcpSendResponse async s)
   | (NegativeResponse e, s) \<Rightarrow> (e, XcpSendResponse async (CRM_BYTE 1 e (CRM_BYTE 0 PID_ERR (CRM_LEN 2 s))))
   | (BusyResponse, s) \<Rightarrow> (CRC_CMD_BUSY, XcpSendResponse async (CRM_BYTE 1 CRC_CMD_BUSY (CRM_BYTE 0 PID_ERR (CRM_LEN 2 s))))
   | (NoResponse, s) \<Rightarrow> (CRC_CMD_OK, s)
   | (Ignored, s) \<Rightarrow> (CRC_CMD_IGNORED, s))"

definition XcpAsyncCommand :: "appl \<Rightarrow> bool \<Rightarrow> bytes \<Rightarrow> nat \<Rightarrow> 'a xcp_scheme \<Rightarrow> (nat \<times> 'a xcp_scheme) option" where
  "XcpAsyncCommand ap async cro len s = map_option (finish_command async) (run_command ap async cro len s)"

definition XcpCommand :: "appl \<Rightarrow> bytes \<Rightarrow> nat \<Rightarrow> 'a xcp_scheme \<Rightarrow> (nat \<times> 'a xcp_scheme) option" where
  "XcpCommand ap cro len s = XcpAsyncCommand ap False cro len s"

section \<open>Events\<close>

text \<open>\<open>bases\<close> are the base addresses that the instrumentation passes with the event. The pending command
  runs in the thread of the event; its buffer is the shared one.\<close>

definition XcpProcessPendingCommand :: "appl \<Rightarrow> nat \<Rightarrow> nat list \<Rightarrow> 'a xcp_scheme \<Rightarrow> 'a xcp_scheme option" where
  "XcpProcessPendingCommand ap e bases s =
     (if cmd_pending s \<and> XcpAddrIsDyn (mta_ext s) \<and> XcpAddrDecodeDynEvent (mta_addr s) = e
      then map_option snd (XcpAsyncCommand ap True (cmd_pending_crm s) (cmd_pending_crm_len s)
             (s\<lparr>cmd_pending := False,
                mta_ptr := AppPtr (bases ! mta_ext s + XcpAddrDecodeDynOffset (mta_addr s)), mta_ext := XCP_ADDR_EXT_PTR\<rparr>))
      else Some s)"

definition trigger_event :: "appl \<Rightarrow> nat \<Rightarrow> nat list \<Rightarrow> nat \<Rightarrow> 'a xcp_scheme \<Rightarrow> 'a xcp_scheme option" where
  "trigger_event ap e bases clock s =
     map_option (\<lambda>q. s\<lparr>xcp_queue := q\<rparr>)
       (XcpTriggerDaqEvent queueAcquire queue_put queuePush (app_mem s) (\<lambda>i. bases ! i) (clock_now ap) clock s e (xcp_queue s))"

definition XcpEventExtAt :: "appl \<Rightarrow> nat \<Rightarrow> nat list \<Rightarrow> nat \<Rightarrow> 'a xcp_scheme \<Rightarrow> 'a xcp_scheme option" where
  "XcpEventExtAt ap e bases clock s =
     (if \<not> isStarted s then Some s
      else Option.bind (XcpProcessPendingCommand ap e bases s)
        (\<lambda>s1. if \<not> isDaqRunning s1 then Some s1 else trigger_event ap e bases clock s1))"

definition XcpEventExt :: "appl \<Rightarrow> nat \<Rightarrow> nat list \<Rightarrow> 'a xcp_scheme \<Rightarrow> 'a xcp_scheme option" where
  "XcpEventExt ap e bases s = XcpEventExtAt ap e bases (clock_now ap) s"

definition XcpEventAt :: "appl \<Rightarrow> nat \<Rightarrow> nat \<Rightarrow> 'a xcp_scheme \<Rightarrow> 'a xcp_scheme option" where
  "XcpEventAt ap e clock s = (if \<not> isDaqRunning s then Some s
     else trigger_event ap e [0, base_addr ap] clock s)"

definition XcpEvent :: "appl \<Rightarrow> nat \<Rightarrow> 'a xcp_scheme \<Rightarrow> 'a xcp_scheme option" where
  "XcpEvent ap e s = XcpEventAt ap e (clock_now ap) s"

text \<open>The public entry points with one base address and with a list of base addresses.\<close>

definition XcpEventExt_base :: "appl \<Rightarrow> nat \<Rightarrow> nat \<Rightarrow> 'a xcp_scheme \<Rightarrow> 'a xcp_scheme option" where
  "XcpEventExt_base ap e base s = XcpEventExt ap e [0, base_addr ap, base] s"

definition XcpEventExtAt_base :: "appl \<Rightarrow> nat \<Rightarrow> nat \<Rightarrow> nat \<Rightarrow> 'a xcp_scheme \<Rightarrow> 'a xcp_scheme option" where
  "XcpEventExtAt_base ap e base clock s = XcpEventExtAt ap e [0, base_addr ap, base] clock s"

definition XcpEventExt_Var :: "appl \<Rightarrow> nat \<Rightarrow> nat list \<Rightarrow> 'a xcp_scheme \<Rightarrow> 'a xcp_scheme option" where
  "XcpEventExt_Var ap e args s = XcpEventExt ap e ([base_addr ap, base_addr ap] @ args) s"

definition XcpEventExtAt_Var :: "appl \<Rightarrow> nat \<Rightarrow> nat \<Rightarrow> nat list \<Rightarrow> 'a xcp_scheme \<Rightarrow> 'a xcp_scheme option" where
  "XcpEventExtAt_Var ap e clock args s = XcpEventExtAt ap e ([base_addr ap, base_addr ap] @ args) clock s"

definition queue_packet :: "u8 list \<Rightarrow> 'a xcp_scheme \<Rightarrow> 'a xcp_scheme" where
  "queue_packet p s = (case queueAcquire (length p) (xcp_queue s) of
     (None, q) \<Rightarrow> s\<lparr>xcp_queue := q\<rparr>
   | (Some b, q) \<Rightarrow> s\<lparr>xcp_queue := queuePush b True (queue_put b p q)\<rparr>)"

definition XcpSendEvent :: "nat \<Rightarrow> u8 list \<Rightarrow> 'a xcp_scheme \<Rightarrow> 'a xcp_scheme" where
  "XcpSendEvent evc d s = (if \<not> isConnected s then s else if XCPTL_MAX_CTO_SIZE - 2 \<le> length d then s
     else queue_packet (of_nat PID_EV # of_nat evc # d) s)"

definition XcpSendTerminateSessionEvent :: "'a xcp_scheme \<Rightarrow> 'a xcp_scheme" where
  "XcpSendTerminateSessionEvent s = XcpSendEvent 7 [] s"

definition XcpPrint :: "string \<Rightarrow> 'a xcp_scheme \<Rightarrow> 'a xcp_scheme" where
  "XcpPrint str s = (if \<not> isConnected s then s
     else queue_packet (of_nat PID_SERV # 1 # map char_byte (take (STRNLEN str (XCPTL_MAX_CTO_SIZE - 4)) str) @ [10, 0]) s)"

definition XcpResetAllCalSegs :: "appl \<Rightarrow> 'a xcp_scheme \<Rightarrow> 'a xcp_scheme" where
  "XcpResetAllCalSegs ap s =
     XcpDisconnect ap (fold (\<lambda>i. upd_calseg i (\<lambda>c. c\<lparr>ecu_access := XCP_CALPAGE_DEFAULT_PAGE\<rparr>)) [1..<XcpGetCalSegCount s] s)"

text \<open>The result of publishing is stored in a \<^verbatim>\<open>bool\<close>, so that \<^verbatim>\<open>CRC_CMD_PENDING\<close> and every other
  error compare equal to \<^verbatim>\<open>CRC_CMD_PENDING\<close>; only the publication itself has an effect.\<close>

definition XcpBackgroundTasks :: "'a xcp_scheme \<Rightarrow> 'a xcp_scheme" where
  "XcpBackgroundTasks s = (if \<not> isActivated s then s else snd (XcpCalSegPublishAll (\<lambda>_ _. []) False s))"

end
