(* ===== verification/Xcp_Init.thy ===== *)
theory Xcp_Init
  imports Xcp_Command
begin

text \<open>
  Initialisation, start and shutdown of the protocol layer (\<^verbatim>\<open>src/src/xcplite.c\<close>,
  \<^verbatim>\<open>XcpInit\<close>, \<^verbatim>\<open>XcpStart\<close>, \<^verbatim>\<open>XcpDeinit\<close>) for a library built without shared
  memory. What they establish is proved in \<^verbatim>\<open>Xcp_Start\<close>. The states of the application's own static variables
  (\<^verbatim>\<open>xcpappl.c\<close>, the disk, the memory, the transport) are not touched by \<^verbatim>\<open>XcpInit\<close>.
\<close>

abbreviation (input) XCP_MODE_DEACTIVATE :: nat where "XCP_MODE_DEACTIVATE \<equiv> 0"

text \<open>The mode flags: local mode is forced, the flags of the shared memory build are dropped
  (\<^verbatim>\<open>XCP_MODE_LOCAL\<close> 1, \<^verbatim>\<open>XCP_MODE_PERSISTENCE\<close> 2, the others 0x8C).\<close>

definition adjust_mode :: "u8 \<Rightarrow> u8" where
  "adjust_mode mode = (if mode = 0 then 0 else (mode OR 1) AND NOT 0x8C)"

definition zero_calseg :: tXcpCalSeg where
  "zero_calseg = \<lparr>ecu_page_next = 0, free_page = 0, ecu_page = 0, xcp_page = 0, file_pos = 0, lock_count = 0, seg_bytes = 0,
     ecu_access = 0, xcp_access = 0, write_pending = False, free_page_hazard = False, calseg_number = 0, seg_mode = 0,
     calseg_name = [], seg_mem = (\<lambda>_. 0)\<rparr>"

definition zero_event :: tXcpEvent where
  "zero_event = \<lparr>cycle_time_ns = 0, ev_index = 0, daq_first = 0, ev_flags = 0, ev_name = []\<rparr>"

text \<open>The two \<^verbatim>\<open>memset\<close> calls on \<^verbatim>\<open>gXcpLocalData\<close> and \<^verbatim>\<open>gXcpData\<close>.\<close>

definition clear_state :: "'a xcp_scheme \<Rightarrow> 'a xcp_scheme" where
  "clear_state s = s\<lparr>session_status := 0, event_count := 0, event := (\<lambda>_. zero_event),
     daq_running := False, odt_entry_count := 0, odt_count := 0, daq_count := 0, daq_mem := (\<lambda>_. 0),
     daq_overflow_count := 0, write_daq_odt_entry := 0, write_daq_odt := 0, write_daq_daq := 0, daq_start_clock := 0,
     calseg_offset := (\<lambda>_. 0), calseg_count := 0, memory_segment_count := 0, write_delayed := False,
     cal_mem_used := 0, cal_pool := (\<lambda>_. zero_calseg),
     init_mode := 0, mta_ptr := NullPtr, mta_addr := 0, mta_ext := 0, project_name := [], epk := [],
     crm := (\<lambda>_. 0), crm_len := 0, cmd_pending := False, cmd_pending_crm := (\<lambda>_. 0), cmd_pending_crm_len := 0,
     clock_info := (\<lambda>_. 0), obj_mem := (\<lambda>_ _. None)\<rparr>"

text \<open>The names are null-terminated; an empty one stands for a missing one as well. \<open>None\<close> is the null pointer
  access of an exhausted segment pool.\<close>

definition XcpInit :: "string \<Rightarrow> string \<Rightarrow> u8 \<Rightarrow> 'a xcp_scheme \<Rightarrow> (bool \<times> 'a xcp_scheme) option" where
  "XcpInit name ver mode0 s0 =
     (if isActivated s0 then Some (True, s0)
      else let mode = adjust_mode mode0; s = (clear_state s0)\<lparr>init_mode := unat mode\<rparr> in
        if name = [] then Some (False, s\<lparr>init_mode := XCP_MODE_DEACTIVATE\<rparr>)
        else if ver = [] then Some (False, (XcpSetProjectName name s)\<lparr>init_mode := XCP_MODE_DEACTIVATE\<rparr>)
        else let s1 = XcpSetEpk ver (XcpSetProjectName name s) in
          if mode AND 1 = 0 then Some (True, s1\<lparr>init_mode := XCP_MODE_DEACTIVATE\<rparr>)
          else let s2 = XcpInitEventList (XcpInitCalSegList (XcpClearDaq s1));
                   s3 = s2\<lparr>session_status := session_status s2 OR SS_ACTIVATED\<rparr>
            in Option.bind (if mode AND 2 \<noteq> 0 then map_option snd (XcpBinLoad s3) else Some s3)
                 (\<lambda>s4. map_option (\<lambda>(i, s5). (True, s5))
                    (XcpCreateCalSeg ''epk'' (PageData (name_field (XcpGetEcuEpk s4) epk_size)) epk_size s4)))"

text \<open>The static description of the server clock, at the offsets of \<^verbatim>\<open>T_CLOCK_INFO\<close>,
  \<^verbatim>\<open>T_CLOCK_INFO_GRANDMASTER\<close> and \<^verbatim>\<open>T_CLOCK_INFO_RELATION\<close>: ticks of 1 ns, 64 bit.\<close>

definition XCP_DAQ_CLOCK_UUID :: "u8 list" where
  "XCP_DAQ_CLOCK_UUID = [0xdc, 0xa6, 0x32, 0xFF, 0xFE, 0x7e, 0x66, 0xdc]"

definition default_clock_info :: "bytes \<Rightarrow> bytes" where
  "default_clock_info m =
     mem_set 48 (replicate 16 0) (mem_set 40 (replicate 8 0xFF) (mem_set 32 [1, 0, 0, 255, 8, 2]
       (mem_set 16 (replicate 8 0xFF) (mem_set 8 [1, 0, 0, 255, 8] (mem_set 0 XCP_DAQ_CLOCK_UUID m)))))"

definition XcpStart :: "appl \<Rightarrow> queue64 \<Rightarrow> 'a xcp_scheme \<Rightarrow> 'a xcp_scheme" where
  "XcpStart ap q s =
     (if \<not> isActivated s then s
      else s\<lparr>xcp_queue := q, clock_info := snd (ApplXcpGetClockInfoGrandmaster ap (default_clock_info (clock_info s))),
             session_status := session_status s OR SS_STARTED\<rparr>)"

definition XcpDeinit :: "'a xcp_scheme \<Rightarrow> 'a xcp_scheme" where
  "XcpDeinit s = (if \<not> isActivated s then s else s\<lparr>session_status := 0\<rparr>)"

end
