(* ===== verification/Xcp_Frames.thy ===== *)
theory Xcp_Frames
  imports Xcp_Init
begin

text \<open>
  What an operation leaves alone: the DAQ configuration (\<open>daq_part\<close>), the calibration segments
  (\<open>xcp_daq.more\<close> of a DAQ operation is unchanged), the session status and the packets already sent. The
  equations are rewrite rules, so that the frame of a command follows by simplification.
\<close>

definition daq_part :: "'a xcp_daq_scheme \<Rightarrow> bytes \<times> nat \<times> nat \<times> nat \<times> (nat \<Rightarrow> tXcpEvent) \<times> nat \<times> nat \<times> nat \<times> nat \<times> bool" where
  "daq_part s = (daq_mem s, daq_count s, odt_count s, odt_entry_count s, event s, event_count s,
     write_daq_daq s, write_daq_odt s, write_daq_odt_entry s, daq_running s)"

lemma daq_part_inv: "daq_part t = daq_part s \<Longrightarrow> daq_inv t = daq_inv s"
  by (rule daq_inv_cong) (simp_all add: daq_part_def)

section \<open>Calibration operations\<close>

lemma upd_calseg_frame [simp]:
  "daq_part (upd_calseg i f s) = daq_part s" "session_status (upd_calseg i f s) = session_status s"
  by (simp_all add: upd_calseg_def daq_part_def)

text \<open>A calibration operation changes the pool and the transaction flag, nothing else.\<close>

definition cal_frame :: "'a xcp_cal_scheme \<Rightarrow> 'a xcp_cal_scheme \<Rightarrow> bool" where
  "cal_frame s t \<longleftrightarrow> (\<exists>f b. t = s\<lparr>cal_pool := f, write_delayed := b\<rparr>)"

lemma cal_frame_intro:
  "cal_frame s (s\<lparr>cal_pool := f, write_delayed := b\<rparr>)" "cal_frame s (s\<lparr>write_delayed := b, cal_pool := f\<rparr>)"
proof -
  show "cal_frame s (s\<lparr>cal_pool := f, write_delayed := b\<rparr>)" by (auto simp only: cal_frame_def)
  moreover have "s\<lparr>write_delayed := b, cal_pool := f\<rparr> = s\<lparr>cal_pool := f, write_delayed := b\<rparr>" by (cases s) simp
  ultimately show "cal_frame s (s\<lparr>write_delayed := b, cal_pool := f\<rparr>)" by (simp only:)
qed

lemma cal_frameE:
  assumes "cal_frame s t" obtains f b where "t = s\<lparr>cal_pool := f, write_delayed := b\<rparr>"
  using assms unfolding cal_frame_def by blast

lemma cal_frame_refl [simp]: "cal_frame s s"
  unfolding cal_frame_def by (rule exI [of _ "cal_pool s"], rule exI [of _ "write_delayed s"]) simp

lemma cal_frame_trans: "cal_frame s t \<Longrightarrow> cal_frame t u \<Longrightarrow> cal_frame s u"
  by (elim cal_frameE) (simp add: cal_frame_intro)

lemma cal_frame_pool: "cal_frame s (t\<lparr>cal_pool := g\<rparr>) = cal_frame s t"
proof
  assume "cal_frame s (t\<lparr>cal_pool := g\<rparr>)"
  then obtain f b where "t\<lparr>cal_pool := g\<rparr> = s\<lparr>cal_pool := f, write_delayed := b\<rparr>" by (auto simp: cal_frame_def)
  then have "(t\<lparr>cal_pool := g\<rparr>)\<lparr>cal_pool := cal_pool t\<rparr> = s\<lparr>cal_pool := cal_pool t, write_delayed := b\<rparr>" by simp
  then have "t = s\<lparr>cal_pool := cal_pool t, write_delayed := b\<rparr>" by simp
  then show "cal_frame s t" unfolding cal_frame_def by blast
qed (elim cal_frameE, simp add: cal_frame_intro)

lemma cal_frame_upd [simp]: "cal_frame s (upd_calseg i f t) = cal_frame s t"
  unfolding upd_calseg_def by (rule cal_frame_pool)

lemma cal_frame_reader: "cal_frame s (run_reader op t) = cal_frame s t"
  by (cases op) (simp_all add: XcpLockCalSeg_def XcpUnlockCalSeg_def split_beta)

lemma cal_frame_readers [simp]: "cal_frame s (run_readers ops t) = cal_frame s t"
  unfolding run_readers_def by (induction ops arbitrary: t) (simp_all add: cal_frame_reader)

lemma cal_frame_try [simp]: "cal_frame s (snd (try_publish i t)) = cal_frame s t"
  by (simp add: try_publish_def split_beta)

lemma cal_frame_retry [simp]: "cal_frame s (snd (publish_retry n sched i t)) = cal_frame s t"
proof (induction n arbitrary: t)
  case (Suc n)
  obtain b u where e: "try_publish i (run_readers (sched n) t) = (b, u)" by fastforce
  then have "cal_frame s u = cal_frame s t" using cal_frame_try [of s i "run_readers (sched n) t"] by simp
  with Suc.IH [of u] e show ?case by (cases b) simp_all
qed simp

lemma cal_frame_publish [simp]: "cal_frame s (snd (XcpCalSegPublish sched i wait t)) = cal_frame s t"
proof -
  obtain b u where e: "try_publish i t = (b, u)" by fastforce
  have u: "cal_frame s u = cal_frame s t" using cal_frame_try [of s i t] e by simp
  obtain c v where f: "publish_retry XCP_CALSEG_AQUIRE_FREE_PAGE_TIMEOUT sched i u = (c, v)" by fastforce
  have "cal_frame s v = cal_frame s t" using cal_frame_retry [of s XCP_CALSEG_AQUIRE_FREE_PAGE_TIMEOUT sched i u] f u by simp
  with u e f show ?thesis by (cases b; cases c; cases wait) (simp_all add: XcpCalSegPublish_def)
qed

lemma cal_frame_publish_all [simp]: "cal_frame s (snd (XcpCalSegPublishAll sched wait t)) = cal_frame s t"
proof -
  have one: "cal_frame s (snd (publish_one sched wait i r)) = cal_frame s (snd r)" for i r
  proof -
    obtain x t where r: "r = (x, t)" by fastforce
    obtain y u where u: "XcpCalSegPublish (sched i) i wait t = (y, u)" by fastforce
    have "cal_frame s u = cal_frame s t" using cal_frame_publish [of s "sched i" i wait t] u by simp
    then show ?thesis by (simp add: publish_one_def r u)
  qed
  have "cal_frame s (snd (fold (publish_one sched wait) is r)) = cal_frame s (snd r)" for "is" r
    by (induction "is" arbitrary: r) (simp_all add: one)
  then show ?thesis by (simp add: XcpCalSegPublishAll_def)
qed

lemma cal_frame_delayed [simp]: "cal_frame s (t\<lparr>write_delayed := b\<rparr>) = cal_frame s t"
proof
  assume "cal_frame s (t\<lparr>write_delayed := b\<rparr>)"
  then obtain f b' where "t\<lparr>write_delayed := b\<rparr> = s\<lparr>cal_pool := f, write_delayed := b'\<rparr>" by (auto simp: cal_frame_def)
  then have "(t\<lparr>write_delayed := b\<rparr>)\<lparr>write_delayed := write_delayed t\<rparr> = s\<lparr>cal_pool := f, write_delayed := write_delayed t\<rparr>"
    by simp
  then have "t = s\<lparr>cal_pool := f, write_delayed := write_delayed t\<rparr>" by simp
  then show "cal_frame s t" unfolding cal_frame_def by blast
qed (elim cal_frameE, simp add: cal_frame_intro)

lemma cal_frame_ops [simp]:
  "cal_frame s (snd (XcpCalSegWriteMemory dst d s))"
  "cal_frame s (XcpCalSegBeginAtomicTransaction s)"
  "cal_frame s (snd (XcpCalSegEndAtomicTransaction sched s))"
  "cal_frame s (snd (XcpSetCalSegMode n m s))"
  by (simp_all add: XcpCalSegWriteMemory_def XcpCalSegBeginAtomicTransaction_def
      XcpCalSegEndAtomicTransaction_def XcpSetCalSegMode_def Let_def)

lemma cal_frame_copy [simp]: "cal_frame s (snd (XcpCalSegCopyCalPage a b c d s))"
  by (simp add: XcpCalSegCopyCalPage_def Let_def)

lemma cal_frame_page [simp]: "cal_frame s (snd (XcpCalSegSetCalPage n p m s))"
proof -
  have "cal_frame s (fold (\<lambda>j. upd_calseg j (set_page m p)) js t) = cal_frame s t" for js t
    by (induction js arbitrary: t) simp_all
  then show ?thesis by (simp add: XcpCalSegSetCalPage_def Let_def)
qed

lemma cal_frameD:
  assumes "cal_frame s t"
  shows "daq_part t = daq_part s" "session_status t = session_status s" "xcp_cal.more t = xcp_cal.more s"
    "calseg_offset t = calseg_offset s" "calseg_count t = calseg_count s"
    "memory_segment_count t = memory_segment_count s" "cal_mem_used t = cal_mem_used s"
  using assms by (auto simp: cal_frame_def daq_part_def)

text \<open>The fields of the protocol layer as selectors of the extension.\<close>

lemma xcp_more_eq:
  assumes "xcp_cal.more (t :: 'a xcp_scheme) = xcp_cal.more s"
  shows "tl_sent t = tl_sent s" "crm_len t = crm_len s" "crm t = crm s" "mta_ext t = mta_ext s" "mta_addr t = mta_addr s"
    "mta_ptr t = mta_ptr s" "cmd_pending t = cmd_pending s" "xcp_queue t = xcp_queue s" "bin_files t = bin_files s"
    "app_mem t = app_mem s" "project_name t = project_name s" "epk t = epk s"
  using assms by (cases s, cases t, simp)+

lemmas cal_frame_xcp = xcp_more_eq [OF cal_frameD(3)]

end
