(* ===== verification/Xcp_Command_Daq.thy ===== *)
theory Xcp_Command_Daq
  imports Xcp_Frames
begin

text \<open>
  The DAQ configuration under the commands of a client: every command keeps \<open>daq_inv\<close> and returns, as long
  as the three allocation commands come in the order that the standard prescribes (\<open>alloc_in_order\<close>:
  after \<^verbatim>\<open>FREE_DAQ\<close>, before the first \<^verbatim>\<open>SET_DAQ_PTR\<close>).
\<close>

section \<open>Frames of the response buffer and of the memory access\<close>

lemma CRM_daq [simp]:
  "daq_part (CRM_BYTE k v s) = daq_part s" "daq_part (CRM_WORD k v s) = daq_part s"
  "daq_part (CRM_DWORD k v s) = daq_part s" "daq_part (CRM_DATA k d s) = daq_part s" "daq_part (CRM_LEN n s) = daq_part s"
  by (simp_all add: daq_part_def CRM_BYTE_def CRM_WORD_def CRM_DWORD_def CRM_DATA_def CRM_LEN_def)

lemma mta_daq [simp]:
  "daq_part (s\<lparr>mta_ptr := p\<rparr>) = daq_part s" "daq_part (s\<lparr>mta_ext := n\<rparr>) = daq_part s"
  "daq_part (s\<lparr>mta_addr := n\<rparr>) = daq_part s" "daq_part (s\<lparr>session_status := w\<rparr>) = daq_part s"
  "daq_part (s\<lparr>clock_info := m\<rparr>) = daq_part s" "daq_part (s\<lparr>xcp_queue := q\<rparr>) = daq_part s"
  "daq_part (s\<lparr>appl_write_delayed := b\<rparr>) = daq_part s" "daq_part (s\<lparr>xcp_file := f\<rparr>) = daq_part s"
  "daq_part (s\<lparr>xcp_file_length := n\<rparr>) = daq_part s" "daq_part (s\<lparr>app_mem := m\<rparr>) = daq_part s"
  "daq_part (s\<lparr>obj_mem := om\<rparr>) = daq_part s" "daq_part (s\<lparr>bin_files := bf\<rparr>) = daq_part s"
  "daq_part (s\<lparr>tl_sent := ps\<rparr>) = daq_part s" "daq_part (s\<lparr>cmd_pending := b\<rparr>) = daq_part s"
  "daq_part (s\<lparr>cmd_pending_crm := m\<rparr>) = daq_part s" "daq_part (s\<lparr>cmd_pending_crm_len := n\<rparr>) = daq_part s"
  by (simp_all add: daq_part_def)

lemma reply_snd [simp]:
  "snd (check_error r) = snd r" "snd (check_len n len k s) = (if len < n then s else snd k)"
  "snd (unless_running s k) = (if isDaqRunning s then s else snd k)"
  by (auto simp: check_error_def check_len_def unless_running_def split: prod.split)

lemma ptr_write_daq [simp]: "daq_part (ptr_write p d s) = daq_part s"
  by (cases p) simp_all

lemma advance_daq [simp]: "daq_part (advance_addr n s) = daq_part s"
  by (simp add: advance_addr_def)

lemma cal_daq [simp]:
  "daq_part (snd (XcpCalSegWriteMemory dst d s)) = daq_part s"
  "daq_part (XcpCalSegBeginAtomicTransaction s) = daq_part s"
  "daq_part (snd (XcpCalSegEndAtomicTransaction sched s)) = daq_part s"
  "daq_part (snd (XcpSetCalSegMode n m s)) = daq_part s"
  "daq_part (snd (XcpCalSegCopyCalPage a b c e s)) = daq_part s"
  "daq_part (snd (XcpCalSegSetCalPage n p md s)) = daq_part s"
  "daq_part (snd (XcpCalSegPublishAll sched wait s)) = daq_part s"
  by (rule cal_frameD; simp)+

lemma readfile_daq [simp]: "daq_part (snd (ApplXcpReadFile n a s)) = daq_part s"
  by (auto simp: ApplXcpReadFile_def closeFile_def Let_def split: option.split prod.split)

lemma mta_access_daq [simp]:
  "daq_part (snd (XcpWriteMta ap d s)) = daq_part s" "daq_part (snd (XcpReadMta ap n s)) = daq_part s"
  "daq_part (snd (XcpSetMta ap e a s)) = daq_part s"
proof -
  have "daq_part (advance_addr n (snd (XcpCalSegWriteMemory a d s))) = daq_part s" for a n d by simp
  then show "daq_part (snd (XcpWriteMta ap d s)) = daq_part s"
    by (simp add: XcpWriteMta_def split_beta)
  show "daq_part (snd (XcpReadMta ap n s)) = daq_part s"
    using readfile_daq [of n "mta_addr s" s]
    by (auto simp: XcpReadMta_def split: prod.split option.split simp del: readfile_daq)
qed (simp add: XcpSetMta_def Let_def)

lemma checksum_daq [simp]: "daq_part (snd (checksum_loop ap n acc s)) = daq_part s"
proof (induction n arbitrary: acc s)
  case (Suc n)
  obtain r t where e: "XcpReadMta ap 1 s = (r, t)" by fastforce
  then have "daq_part t = daq_part s" using mta_access_daq(2) [of ap 1 s] by simp
  with Suc.IH e show ?case by (cases r) simp_all
qed simp

lemma getid_daq [simp]: "daq_part (snd (snd (ApplXcpGetId ap i b s))) = daq_part s"
  by (auto simp: ApplXcpGetId_def openFile_def Let_def split: option.split prod.split)

lemma user_daq [simp]: "daq_part (snd (ApplXcpUserCommand ap c s)) = daq_part s"
  by (simp add: ApplXcpUserCommand_def)

lemma push_daq [simp]: "daq_part (snd (XcpPushCommand cro len s)) = daq_part s"
  by (simp add: XcpPushCommand_def)

lemma push_busy_daq [simp]: "daq_part (snd (push_or_busy cro len s)) = daq_part s"
  using push_daq [of cro len s] by (simp add: push_or_busy_def split_beta)

lemma freeze_daq [simp]: "daq_part (snd (XcpBinFreezeCalSeg i s)) = daq_part s"
  by (simp add: XcpBinFreezeCalSeg_def XcpLockCalSeg_def XcpUnlockCalSeg_def split_beta Let_def split: option.split)

lemma freeze_all_daq [simp]: "daq_part (snd (XcpFreezeSelectedCalSegs all s)) = daq_part s"
proof -
  have "daq_part (snd (freeze_calsegs all is s)) = daq_part s" for "is" all
  proof (induction all "is" s rule: freeze_calsegs.induct)
    case (2 all i "is" s)
    obtain b t where e: "XcpBinFreezeCalSeg i s = (b, t)" by fastforce
    then have "daq_part t = daq_part s" using freeze_daq [of i s] by simp
    with 2 e show ?case by auto
  qed simp
  then show ?thesis by (simp add: XcpFreezeSelectedCalSegs_def)
qed

section \<open>Commands that leave the DAQ configuration alone\<close>

lemma upload_daq [simp]: "daq_part (snd (upload_response ap n s)) = daq_part s"
  using mta_access_daq(2) [of ap n s]
  by (auto simp: upload_response_def split: prod.split sum.split simp del: mta_access_daq)

lemma set_mta_unless_daq [simp]: "daq_part (snd (set_mta_unless ap async cro s)) = daq_part s"
  by (simp add: set_mta_unless_def)

lemma plain_commands_daq [simp]:
  "daq_part (snd (cmd_synch s)) = daq_part s" "daq_part (snd (cmd_get_comm_mode_info s)) = daq_part s"
  "daq_part (snd (cmd_get_status s)) = daq_part s" "daq_part (snd (cmd_user ap cro len s)) = daq_part s"
  "daq_part (snd (cmd_set_request cro len s)) = daq_part s" "daq_part (snd (cmd_set_mta ap cro len s)) = daq_part s"
  "daq_part (snd (cmd_download ap cro len s)) = daq_part s" "daq_part (snd (cmd_upload ap cro len s)) = daq_part s"
  "daq_part (snd (cmd_set_cal_page cro len s)) = daq_part s" "daq_part (snd (cmd_get_cal_page cro len s)) = daq_part s"
  "daq_part (snd (cmd_copy_cal_page cro s)) = daq_part s" "daq_part (snd (cmd_get_pag_processor_info len s)) = daq_part s"
  "daq_part (snd (cmd_set_segment_mode cro len s)) = daq_part s"
  "daq_part (snd (cmd_get_segment_mode cro len s)) = daq_part s"
  "daq_part (snd (cmd_get_daq_processor_info s)) = daq_part s"
  "daq_part (snd (cmd_get_daq_resolution_info s)) = daq_part s"
  "daq_part (snd (cmd_get_daq_list_mode cro len s)) = daq_part s"
  "daq_part (snd (cmd_transport_layer s)) = daq_part s" "daq_part (snd (cmd_get_daq_clock ap s)) = daq_part s"
  "daq_part (snd (cmd_level_1 cro s)) = daq_part s"
  by (simp_all add: cmd_synch_def cmd_get_comm_mode_info_def cmd_get_status_def cmd_user_def cmd_set_request_def
      cmd_set_mta_def cmd_download_def cmd_upload_def cmd_set_cal_page_def cmd_get_cal_page_def cmd_copy_cal_page_def
      cmd_get_pag_processor_info_def cmd_set_segment_mode_def cmd_get_segment_mode_def cmd_get_daq_processor_info_def
      cmd_get_daq_resolution_info_def cmd_get_daq_list_mode_def cmd_transport_layer_def cmd_get_daq_clock_def
      cmd_level_1_def Let_def)

lemma segment_info_daq [simp]:
  "daq_part (snd (cmd_get_segment_info cro len s)) = daq_part s" "daq_part (snd (cmd_get_page_info cro len s)) = daq_part s"
  by (simp_all add: cmd_get_segment_info_def cmd_get_page_info_def XcpGetSegInfo_def XcpGetSegPageInfo_def Let_def)

lemma event_info_daq [simp]: "daq_part (snd (cmd_get_daq_event_info cro len s)) = daq_part s"
  by (auto simp: cmd_get_daq_event_info_def Let_def split: option.split prod.split)

lemma short_commands_daq [simp]:
  "daq_part (snd (cmd_short_download ap async cro len s)) = daq_part s"
  "daq_part (snd (cmd_short_upload ap async cro len s)) = daq_part s"
  using set_mta_unless_daq [of ap async cro s]
  by (auto simp: cmd_short_download_def cmd_short_upload_def Let_def split_beta)

lemma checksum_cmd_daq [simp]: "daq_part (snd (cmd_build_checksum ap cro len s)) = daq_part s"
  using checksum_daq [where ap = ap and n = "CRO_DWORD cro 1" and acc = "0xFFFF" and s = s]
  by (auto simp: cmd_build_checksum_def calcChecksum_def split: prod.split sum.split simp del: checksum_daq)

lemma get_id_daq [simp]: "daq_part (snd (cmd_get_id ap cro len s)) = daq_part s"
  by (simp add: cmd_get_id_def Let_def split_beta)

lemma time_sync_daq [simp]: "daq_part (snd (cmd_time_correlation_properties ap cro len s)) = daq_part s"
  by (simp add: cmd_time_correlation_properties_def Let_def split_beta)

section \<open>Commands on the DAQ configuration\<close>

text \<open>The order of the allocation commands; the cursor is unset (65535) until the first \<^verbatim>\<open>SET_DAQ_PTR\<close>.\<close>

definition alloc_in_order :: "bytes \<Rightarrow> 'a xcp_daq_scheme \<Rightarrow> bool" where
  "alloc_in_order cro s \<longleftrightarrow>
     (CRO_BYTE cro 0 = 0xD5 \<longrightarrow> daq_count s = 0 \<and> write_daq_daq s = 65535)
     \<and> (CRO_BYTE cro 0 \<in> {0xD4, 0xD3} \<longrightarrow> write_daq_daq s = 65535)"

lemma CRO_DWORD_less: "CRO_DWORD cro k < 2 ^ 32"
  by (simp add: CRO_DWORD_def)


lemma daq_inv_CRM [simp]:
  "daq_inv (CRM_BYTE k v s) = daq_inv s" "daq_inv (CRM_WORD k v s) = daq_inv s"
  "daq_inv (CRM_LEN n s) = daq_inv s" "daq_inv (s\<lparr>session_status := w\<rparr>) = daq_inv s"
  "daq_inv (s\<lparr>xcp_queue := q\<rparr>) = daq_inv s" "daq_inv (s\<lparr>tl_sent := ps\<rparr>) = daq_inv s"
  by (rule daq_part_inv; simp)+

lemma CRM_counts [simp]:
  "daq_count (CRM_BYTE k v s) = daq_count s" "daq_count (CRM_LEN n s) = daq_count s"
  by (simp_all add: CRM_BYTE_def CRM_LEN_def)

lemma connect_inv:
  assumes "daq_inv s" shows "daq_inv (snd (cmd_connect ap cro s))"
proof -
  obtain b t where e: "ApplXcpConnect ap (CRO_BYTE cro 1) s = (b, t)" by fastforce
  then have t: "daq_part t = daq_part s"
    by (auto simp: ApplXcpConnect_def Let_def split: if_splits option.splits)
  then have i: "daq_inv t" using assms daq_part_inv by blast
  then have "event_count t \<le> XCP_MAX_EVENT_COUNT" by (rule daq_invD)
  then show ?thesis using e i by (cases b) (simp_all add: cmd_connect_def Let_def XcpClearDaq_inv)
qed

lemma disconnect_inv:
  assumes "daq_inv s" shows "daq_inv (XcpDisconnect ap s)"
proof -
  have q: "daq_part (snd (wait_queue_empty ap t)) = daq_part t" for t :: "'a xcp_scheme"
    by (simp add: wait_queue_empty_def split_beta)
  define s1 where "s1 = (if isDaqRunning s then snd (wait_queue_empty ap (XcpStopDaq s)) else s)"
  have "daq_inv s1" using assms XcpStopDaq_inv [of s] daq_part_inv [OF q [of "XcpStopDaq s"]] by (simp add: s1_def)
  then have "daq_inv (snd (XcpCalSegPublishAll (reader_sched ap) True s1))"
    using daq_part_inv [OF cal_daq(7)] by blast
  then show ?thesis using assms by (simp add: XcpDisconnect_def Let_def s1_def [symmetric])
qed

lemma write_entries_inv: "daq_inv s \<Longrightarrow> daq_inv (snd (write_daq_entries cro i k s))"
proof (induction cro i k s rule: write_daq_entries.induct)
  case (2 cro i k s)
  obtain r t where e: "XcpAddOdtEntry (CRO_DWORD cro (1 + 2 * i)) (CRO_BYTE cro (8 + 8 * i)) (CRO_BYTE cro (3 + 8 * i)) s = (r, t)"
    by fastforce
  then have t: "daq_inv t" using XcpAddOdtEntry_daq_inv [OF 2(2) CRO_DWORD_less] by (metis snd_conv)
  then have "event_count t \<le> XCP_MAX_EVENT_COUNT" by (rule daq_invD)
  with 2 e t show ?case by (simp add: XcpClearDaq_inv)
qed simp

lemma send_response_daq [simp]: "daq_part (XcpSendResponse async s) = daq_part s"
  by (auto simp: XcpSendResponse_def split: option.split prod.split)

lemma synch_inv:
  assumes "daq_inv s" shows "daq_inv (snd (cmd_start_stop_synch ap async cro len s))"
proof -
  have "daq_inv (XcpSendResponse async s)" using assms daq_part_inv [OF send_response_daq] by blast
  then have "daq_inv (XcpStartDaq (clock_now ap) (XcpStartSelectedDaqLists (XcpSendResponse async s)))"
    using XcpStartSelected_inv XcpStartDaq_inv by blast
  moreover have "daq_inv (XcpStopSelectedDaqLists s)" "daq_inv (XcpStopDaq s)"
    using assms XcpStopSelected_inv XcpStopDaq_inv by blast+
  moreover have "daq_inv (snd (wait_queue_empty ap (XcpStopDaq s))) = daq_inv (XcpStopDaq s)"
    by (simp add: wait_queue_empty_def split_beta)
  ultimately show ?thesis using assms by (simp add: cmd_start_stop_synch_def Let_def)
qed

lemma daq_commands_inv:
  assumes "daq_inv s"
  shows "daq_inv (snd (cmd_free_daq s))"
    "daq_inv (snd (cmd_disconnect ap s))" "daq_inv (snd (cmd_set_daq_ptr cro len s))"
    "daq_inv (snd (cmd_write_daq cro len s))" "daq_inv (snd (cmd_start_stop_daq_list cro len s))"
    "daq_inv (snd (cmd_write_daq_multiple cro len s))"
    "write_daq_daq s = 65535 \<Longrightarrow> daq_inv (snd (cmd_alloc_odt cro len s))"
    "write_daq_daq s = 65535 \<Longrightarrow> daq_inv (snd (cmd_alloc_odt_entry cro len s))"
    "write_daq_daq s = 65535 \<Longrightarrow> daq_count s = 0 \<Longrightarrow> daq_inv (snd (cmd_alloc_daq cro len s))"
proof -
  show "daq_inv (snd (cmd_free_daq s))" using daq_invD(8) [OF assms] by (simp add: cmd_free_daq_def XcpClearDaq_inv)
  show "daq_inv (snd (cmd_disconnect ap s))" using disconnect_inv [OF assms] by (simp add: cmd_disconnect_def)
  show "daq_inv (snd (cmd_set_daq_ptr cro len s))" using assms XcpSetDaqPtr_daq_inv [OF assms] by (simp add: cmd_set_daq_ptr_def)
  show "daq_inv (snd (cmd_write_daq cro len s))"
    using assms XcpAddOdtEntry_daq_inv [OF assms CRO_DWORD_less] by (simp add: cmd_write_daq_def)
  show "daq_inv (snd (cmd_start_stop_daq_list cro len s))"
    using assms XcpStopDaqList_inv [of "CRM_BYTE 1 0 (CRM_LEN 2 s)" "CRO_WORD cro 1"]
    by (auto simp: cmd_start_stop_daq_list_def Let_def set_list_state_inv)
  show "daq_inv (snd (cmd_write_daq_multiple cro len s))"
    using assms write_entries_inv [OF assms] by (simp add: cmd_write_daq_multiple_def Let_def)
  show "daq_inv (snd (cmd_alloc_odt cro len s))" if "write_daq_daq s = 65535"
    using assms XcpAllocOdt_daq_inv [OF assms that] by (simp add: cmd_alloc_odt_def)
  show "daq_inv (snd (cmd_alloc_odt_entry cro len s))" if "write_daq_daq s = 65535"
    using assms XcpAllocOdtEntry_daq_inv [OF assms that] by (simp add: cmd_alloc_odt_entry_def)
  show "daq_inv (snd (cmd_alloc_daq cro len s))" if "write_daq_daq s = 65535" "daq_count s = 0"
    using assms XcpAllocDaq_daq_inv [OF assms that(2,1)] by (simp add: cmd_alloc_daq_def)
qed

lemma set_mode_inv:
  assumes inv: "daq_inv s"
  shows "\<exists>r t. cmd_set_daq_list_mode cro len s = Some (r, t) \<and> daq_inv t"
proof -
  have "\<exists>r t. XcpSetDaqListMode daq e m p q s = Some (r, t) \<and> daq_inv t" for daq e m p q
    by (rule XcpSetDaqListMode_cases [OF inv]) (use inv in auto)
  then have "\<exists>r t. map_option check_error (XcpSetDaqListMode daq e m p q s) = Some (r, t) \<and> daq_inv t" for daq e m p q
    by (metis (no_types, lifting) map_option_eq_Some prod.collapse reply_snd(1) snd_conv)
  then show ?thesis using inv by (simp add: cmd_set_daq_list_mode_def Let_def)
qed

section \<open>The dispatcher\<close>

text \<open>The result is there and satisfies \<open>Q\<close>.\<close>

definition post :: "('r \<Rightarrow> 's \<Rightarrow> bool) \<Rightarrow> ('r \<times> 's) option \<Rightarrow> bool" where
  "post Q r \<longleftrightarrow> (\<exists>a s. r = Some (a, s) \<and> Q a s)"

lemma post_Some [simp]: "post Q (Some r) \<longleftrightarrow> Q (fst r) (snd r)"
  by (cases r) (simp add: post_def)

lemma post_if: "(b \<Longrightarrow> post Q x) \<Longrightarrow> (\<not> b \<Longrightarrow> post Q y) \<Longrightarrow> post Q (if b then x else y)"
  by simp

lemma post_map: "post Q (map_option f r) \<longleftrightarrow> post (\<lambda>a s. Q (fst (f (a, s))) (snd (f (a, s)))) r"
  by (auto simp: post_def) (metis prod.collapse)+

lemma switch_inv:
  assumes "daq_inv s" "alloc_in_order cro s"
  shows "post (\<lambda>_ t. daq_inv t) (switch_command ap async cro len s)"
proof -
  note same = daq_part_inv [OF plain_commands_daq(1)]
  have eq: "daq_part t = daq_part s \<Longrightarrow> daq_inv t" for t using assms(1) daq_part_inv by blast
  have "post (\<lambda>_ t. daq_inv t) (cmd_set_daq_list_mode cro len s)"
    using set_mode_inv [OF assms(1)] by (auto simp: post_def)
  then show ?thesis unfolding switch_command_def Let_def
    by (intro post_if)
      (use assms in \<open>simp_all add: daq_commands_inv synch_inv alloc_in_order_def eq\<close>)
qed

end
