(* ===== verification/Xcp_Command_Cal.thy ===== *)
theory Xcp_Command_Cal
  imports Xcp_Command_Daq
begin

text \<open>
  The calibration segments under the commands of a client. \<open>cal_part\<close> is what the segment list, the pool and
  its contents consist of; DAQ and session commands leave it alone. A property of a segment that satisfies the
  locale \<open>seg_contract\<close> is kept by every command (\<open>command_segs\<close>), whatever the client sends.
\<close>

section \<open>Frames\<close>

definition cal_part :: "'a xcp_cal_scheme \<Rightarrow> (nat \<Rightarrow> nat) \<times> nat \<times> nat \<times> bool \<times> nat \<times> (nat \<Rightarrow> tXcpCalSeg) \<times> bool" where
  "cal_part s = (calseg_offset s, calseg_count s, memory_segment_count s, write_delayed s, cal_mem_used s, cal_pool s,
     isActivated s)"

lemma cal_part_all: "cal_part t = cal_part s \<Longrightarrow> all_segs P s \<Longrightarrow> all_segs P t"
  by (simp add: cal_part_def all_segs_def seg_offsets_def XcpGetCalSegCount_def)

lemma cal_part_pool: "cal_part t = cal_part s \<Longrightarrow> pool_ok t = pool_ok s"
  by (simp add: cal_part_def pool_ok_def XcpGetCalSegCount_def CalSegPtr_def)

lemma base_cal [simp]:
  "cal_part (list_wr16 i k v s) = cal_part s" "cal_part (list_wr8 i k b s) = cal_part s"
  "cal_part (odt_wr16 i k v s) = cal_part s" "cal_part (odt_entry_write e a x z s) = cal_part s"
  "cal_part (set_daq_first e d s) = cal_part s" "cal_part (set_list_state d b s) = cal_part s"
  "cal_part (s\<lparr>daq_count := n\<rparr>) = cal_part s" "cal_part (s\<lparr>odt_count := n\<rparr>) = cal_part s"
  "cal_part (s\<lparr>odt_entry_count := n\<rparr>) = cal_part s" "cal_part (s\<lparr>write_daq_odt_entry := n\<rparr>) = cal_part s"
  "cal_part (s\<lparr>write_daq_odt := n\<rparr>) = cal_part s" "cal_part (s\<lparr>write_daq_daq := n\<rparr>) = cal_part s"
  by (simp_all add: cal_part_def isActivated_def list_wr16_def list_wr8_def odt_wr16_def odt_entry_write_def
      set_daq_first_def set_list_state_def)

lemma clear_daq_cal [simp]: "cal_part (XcpClearDaq s) = cal_part s"
  by (simp add: cal_part_def isActivated_def XcpClearDaq_def and.assoc)

lemma check_memory_cal [simp]: "cal_part (snd (XcpCheckMemory s)) = cal_part s"
  by (simp add: XcpCheckMemory_def)

lemma fold_cal: "(\<And>x t. cal_part (f x t) = cal_part t) \<Longrightarrow> cal_part (fold f xs s) = cal_part s"
  by (induction xs arbitrary: s) simp_all

lemma alloc_cal [simp]:
  "cal_part (snd (XcpAllocDaq n s)) = cal_part s" "cal_part (snd (XcpAllocOdt d n s)) = cal_part s"
  "cal_part (snd (XcpAllocOdtEntry d j n s)) = cal_part s"
proof -
  have "cal_part (fold init_daq_list ds t) = cal_part t" for ds and t :: "'a xcp_cal_scheme"
    by (rule fold_cal) (simp add: init_daq_list_def)
  then show "cal_part (snd (XcpAllocDaq n s)) = cal_part s"
    by (simp add: XcpAllocDaq_def Let_def split_beta)
qed (simp_all add: XcpAllocOdt_def XcpAllocOdtEntry_def Let_def)

lemma set_daq_ptr_cal [simp]: "cal_part (snd (XcpSetDaqPtr d j k s)) = cal_part s"
  by (simp add: XcpSetDaqPtr_def Let_def)

lemma add_entry_cal [simp]: "cal_part (snd (XcpAddOdtEntry a x z s)) = cal_part s"
  by (auto simp: XcpAddOdtEntry_def XcpSetOdtSize_def Let_def split: sum.split option.split prod.split)

lemma link_cal: "link_daq e daq link d s = Some t \<Longrightarrow> cal_part t = cal_part s"
  by (erule link_daq.raw_induct [rotated])
    (auto simp: set_daq_link_def split: if_splits option.splits)

lemma set_mode_cal: "XcpSetDaqListMode d e m p q s = Some (r, t) \<Longrightarrow> cal_part t = cal_part s"
  by (auto simp: XcpSetDaqListMode_def Let_def split: if_splits dest!: link_cal)

lemma run_daq_cal [simp]:
  "cal_part (XcpStartDaq c s) = cal_part s" "cal_part (XcpStopDaq s) = cal_part s"
  "cal_part (XcpStartDaqList d s) = cal_part s"
proof -
  have [simp]: "isActivated (s\<lparr>session_status := session_status s AND 0xFFBF\<rparr>) = isActivated s" by (simp add: isActivated_def and.assoc)
  have "cal_part (fold (\<lambda>d. set_list_state d v) ds t) = cal_part t" for v ds and t :: "'a xcp_cal_scheme"
    by (rule fold_cal) simp
  then show "cal_part (XcpStopDaq s) = cal_part s"
    by (simp add: XcpStopDaq_def) (simp add: cal_part_def isActivated_def and.assoc)
  show "cal_part (XcpStartDaq c s) = cal_part s"
    by (simp add: XcpStartDaq_def cal_part_def isActivated_def bit.conj_disj_distrib2)
  show "cal_part (XcpStartDaqList d s) = cal_part s" by (simp add: XcpStartDaqList_def)
qed

lemma stop_list_cal [simp]: "cal_part (XcpStopDaqList d s) = cal_part s"
  by (simp add: XcpStopDaqList_def Let_def)

lemma selected_cal [simp]:
  "cal_part (XcpStartSelectedDaqLists s) = cal_part s" "cal_part (XcpStopSelectedDaqLists s) = cal_part s"
  unfolding XcpStartSelectedDaqLists_def XcpStopSelectedDaqLists_def
  by (rule fold_cal; simp)+

section \<open>The protocol layer\<close>

lemma CRM_cal [simp]:
  "cal_part (CRM_BYTE k v s) = cal_part s" "cal_part (CRM_WORD k v s) = cal_part s"
  "cal_part (CRM_DWORD k v s) = cal_part s" "cal_part (CRM_DATA k d s) = cal_part s" "cal_part (CRM_LEN n s) = cal_part s"
  by (simp_all add: cal_part_def isActivated_def CRM_BYTE_def CRM_WORD_def CRM_DWORD_def CRM_DATA_def CRM_LEN_def)

lemma mta_cal [simp]:
  "cal_part (s\<lparr>mta_ptr := p\<rparr>) = cal_part s" "cal_part (s\<lparr>mta_ext := n\<rparr>) = cal_part s"
  "cal_part (s\<lparr>mta_addr := n\<rparr>) = cal_part s"
  "cal_part (s\<lparr>clock_info := m\<rparr>) = cal_part s" "cal_part (s\<lparr>xcp_queue := q\<rparr>) = cal_part s"
  "cal_part (s\<lparr>appl_write_delayed := b\<rparr>) = cal_part s" "cal_part (s\<lparr>xcp_file := f\<rparr>) = cal_part s"
  "cal_part (s\<lparr>xcp_file_length := n\<rparr>) = cal_part s" "cal_part (s\<lparr>app_mem := m\<rparr>) = cal_part s"
  "cal_part (s\<lparr>obj_mem := om\<rparr>) = cal_part s" "cal_part (s\<lparr>bin_files := bf\<rparr>) = cal_part s"
  "cal_part (s\<lparr>tl_sent := ps\<rparr>) = cal_part s" "cal_part (s\<lparr>cmd_pending := b\<rparr>) = cal_part s"
  "cal_part (s\<lparr>cmd_pending_crm := m\<rparr>) = cal_part s" "cal_part (s\<lparr>cmd_pending_crm_len := n\<rparr>) = cal_part s"
  by (simp_all add: cal_part_def isActivated_def)

lemma service_cal [simp]:
  "cal_part (ptr_write p d s) = cal_part s" "cal_part (advance_addr n s) = cal_part s"
  "cal_part (snd (ApplXcpReadFile n a s)) = cal_part s" "cal_part (snd (snd (ApplXcpGetId ap i b s))) = cal_part s"
  "cal_part (snd (ApplXcpUserCommand ap c s)) = cal_part s" "cal_part (snd (XcpPushCommand cro len s)) = cal_part s"
  "cal_part (snd (XcpSetMta ap x a s)) = cal_part s" "cal_part (XcpSendResponse async s) = cal_part s"
  "cal_part (snd (wait_queue_empty ap s)) = cal_part s" "cal_part (snd (ApplXcpConnect ap m s)) = cal_part s"
  by (cases p; simp)
    (auto simp: advance_addr_def ApplXcpReadFile_def closeFile_def ApplXcpGetId_def openFile_def ApplXcpUserCommand_def
      XcpPushCommand_def XcpSetMta_def XcpSendResponse_def wait_queue_empty_def ApplXcpConnect_def Let_def split_beta
      split: option.split prod.split)

lemma read_mta_cal [simp]: "cal_part (snd (XcpReadMta ap n s)) = cal_part s"
  using service_cal(3) [of n "mta_addr s" s]
  by (auto simp: XcpReadMta_def split: prod.split option.split simp del: service_cal(3))

lemma checksum_cal [simp]: "cal_part (snd (checksum_loop ap n acc s)) = cal_part s"
proof (induction n arbitrary: acc s)
  case (Suc n)
  obtain r t where e: "XcpReadMta ap 1 s = (r, t)" by fastforce
  then have "cal_part t = cal_part s" using read_mta_cal [of ap 1 s] by simp
  with Suc.IH e show ?case by (cases r) simp_all
qed simp

lemma push_busy_cal [simp]: "cal_part (snd (push_or_busy cro len s)) = cal_part s"
  using service_cal(6) [of cro len s] by (simp add: push_or_busy_def split_beta)

lemma mta_unless_cal [simp]: "cal_part (snd (set_mta_unless ap async cro s)) = cal_part s"
  by (simp add: set_mta_unless_def)

lemma upload_cal [simp]: "cal_part (snd (upload_response ap n s)) = cal_part s"
  using read_mta_cal [of ap n s]
  by (auto simp: upload_response_def split: prod.split sum.split simp del: read_mta_cal)

lemma write_entries_cal [simp]: "cal_part (snd (write_daq_entries cro i k s)) = cal_part s"
proof (induction cro i k s rule: write_daq_entries.induct)
  case (2 cro i k s)
  obtain r t where e: "XcpAddOdtEntry (CRO_DWORD cro (1 + 2 * i)) (CRO_BYTE cro (8 + 8 * i)) (CRO_BYTE cro (3 + 8 * i)) s = (r, t)"
    by fastforce
  then have "cal_part t = cal_part s" using add_entry_cal by (metis snd_conv)
  with 2 e show ?case by simp
qed simp


lemma disconnect_status_cal [simp]: "cal_part (s\<lparr>session_status := session_status s AND NOT SS_CONNECTED\<rparr>) = cal_part s"
  "cal_part (s\<lparr>session_status := session_status s AND NOT SS_LEGACY_MODE\<rparr>) = cal_part s"
  by (simp_all add: cal_part_def isActivated_def and.assoc)

declare disconnect_status_cal [simplified, simp]

text \<open>What a command outside the calibration group does to the segments: nothing.\<close>

lemma plain_commands_cal [simp]:
  "cal_part (snd (cmd_synch s)) = cal_part s" "cal_part (snd (cmd_get_comm_mode_info s)) = cal_part s"
  "cal_part (snd (cmd_get_status s)) = cal_part s" "cal_part (snd (cmd_set_mta ap cro len s)) = cal_part s"
  "cal_part (snd (cmd_upload ap cro len s)) = cal_part s"
  "cal_part (snd (cmd_get_cal_page cro len s)) = cal_part s"
  "cal_part (snd (cmd_get_pag_processor_info len s)) = cal_part s"
  "cal_part (snd (cmd_get_segment_mode cro len s)) = cal_part s"
  "cal_part (snd (cmd_get_daq_processor_info s)) = cal_part s"
  "cal_part (snd (cmd_get_daq_resolution_info s)) = cal_part s"
  "cal_part (snd (cmd_get_daq_list_mode cro len s)) = cal_part s"
  "cal_part (snd (cmd_transport_layer s)) = cal_part s" "cal_part (snd (cmd_get_daq_clock ap s)) = cal_part s"
  "cal_part (snd (cmd_level_1 cro s)) = cal_part s"
  by (simp_all add: cmd_synch_def cmd_get_comm_mode_info_def cmd_get_status_def
      cmd_set_mta_def cmd_upload_def cmd_get_cal_page_def
      cmd_get_pag_processor_info_def cmd_get_segment_mode_def cmd_get_daq_processor_info_def
      cmd_get_daq_resolution_info_def cmd_get_daq_list_mode_def cmd_transport_layer_def cmd_get_daq_clock_def
      cmd_level_1_def Let_def)

lemma info_commands_cal [simp]:
  "cal_part (snd (cmd_get_segment_info cro len s)) = cal_part s" "cal_part (snd (cmd_get_page_info cro len s)) = cal_part s"
  "cal_part (snd (cmd_get_id ap cro len s)) = cal_part s"
  "cal_part (snd (cmd_time_correlation_properties ap cro len s)) = cal_part s"
  by (simp_all add: cmd_get_segment_info_def cmd_get_page_info_def XcpGetSegInfo_def XcpGetSegPageInfo_def
      cmd_get_id_def cmd_time_correlation_properties_def Let_def split_beta)

lemma event_info_cal [simp]: "cal_part (snd (cmd_get_daq_event_info cro len s)) = cal_part s"
  by (auto simp: cmd_get_daq_event_info_def Let_def split: option.split prod.split)

lemma short_upload_cal [simp]: "cal_part (snd (cmd_short_upload ap async cro len s)) = cal_part s"
  using mta_unless_cal [of ap async cro s] by (auto simp: cmd_short_upload_def Let_def split_beta)

lemma checksum_cmd_cal [simp]: "cal_part (snd (cmd_build_checksum ap cro len s)) = cal_part s"
  using checksum_cal [where ap = ap and n = "CRO_DWORD cro 1" and acc = "0xFFFF" and s = s]
  by (auto simp: cmd_build_checksum_def calcChecksum_def split: prod.split sum.split simp del: checksum_cal)

lemma daq_commands_cal [simp]:
  "cal_part (snd (cmd_free_daq s)) = cal_part s" "cal_part (snd (cmd_alloc_daq cro len s)) = cal_part s"
  "cal_part (snd (cmd_alloc_odt cro len s)) = cal_part s" "cal_part (snd (cmd_alloc_odt_entry cro len s)) = cal_part s"
  "cal_part (snd (cmd_set_daq_ptr cro len s)) = cal_part s" "cal_part (snd (cmd_write_daq cro len s)) = cal_part s"
  "cal_part (snd (cmd_write_daq_multiple cro len s)) = cal_part s"
  "cal_part (snd (cmd_start_stop_daq_list cro len s)) = cal_part s"
  "cal_part (snd (cmd_start_stop_synch ap async cro len s)) = cal_part s"
  by (simp_all add: cmd_free_daq_def cmd_alloc_daq_def cmd_alloc_odt_def cmd_alloc_odt_entry_def cmd_set_daq_ptr_def
      cmd_write_daq_def cmd_write_daq_multiple_def cmd_start_stop_daq_list_def cmd_start_stop_synch_def Let_def)

lemma set_mode_cmd_cal:
  "cmd_set_daq_list_mode cro len s = Some (r, t) \<Longrightarrow> cal_part t = cal_part s"
  by (auto simp: cmd_set_daq_list_mode_def Let_def check_error_def split: if_splits prod.splits dest!: set_mode_cal)

lemma connect_cal [simp]: "isActivated s \<Longrightarrow> cal_part (snd (cmd_connect ap cro s)) = cal_part s"
proof -
  assume a: "isActivated s"
  obtain b t where e: "ApplXcpConnect ap (CRO_BYTE cro 1) s = (b, t)" by fastforce
  then have t: "cal_part t = cal_part s" using service_cal(10) [of ap "CRO_BYTE cro 1" s] by simp
  then have "isActivated t" using a by (simp add: cal_part_def)
  then have "cal_part (t\<lparr>session_status := SS_ACTIVATED OR SS_STARTED OR SS_CONNECTED OR SS_LEGACY_MODE\<rparr>) = cal_part t"
    by (simp add: cal_part_def isActivated_def)
  then show ?thesis using e t by (cases b) (simp_all add: cmd_connect_def Let_def)
qed

section \<open>A property of the segments under every command\<close>

text \<open>The result, if there is one, satisfies \<open>Q\<close>.\<close>

definition if_returns :: "('r \<Rightarrow> 's \<Rightarrow> bool) \<Rightarrow> ('r \<times> 's) option \<Rightarrow> bool" where
  "if_returns Q r \<longleftrightarrow> (\<forall>a s. r = Some (a, s) \<longrightarrow> Q a s)"

lemma if_returns_Some [simp]: "if_returns Q (Some r) \<longleftrightarrow> Q (fst r) (snd r)"
  by (cases r) (simp add: if_returns_def)

lemma if_returns_if: "(b \<Longrightarrow> if_returns Q x) \<Longrightarrow> (\<not> b \<Longrightarrow> if_returns Q y) \<Longrightarrow> if_returns Q (if b then x else y)"
  by simp

lemma if_returns_map: "if_returns Q (map_option f r) \<longleftrightarrow> if_returns (\<lambda>a s. Q (fst (f (a, s))) (snd (f (a, s)))) r"
  by (auto simp: if_returns_def)

lemma if_returns_mono: "if_returns Q r \<Longrightarrow> (\<And>a s. Q a s \<Longrightarrow> R a s) \<Longrightarrow> if_returns R r"
  by (auto simp: if_returns_def)

lemma post_returns: "post Q r \<Longrightarrow> if_returns R r \<Longrightarrow> post (\<lambda>a s. Q a s \<and> R a s) r"
  by (auto simp: post_def if_returns_def)

context seg_contract
begin

lemma same_segs: "cal_part t = cal_part s \<Longrightarrow> all_segs P s \<Longrightarrow> all_segs P t"
  by (rule cal_part_all)

lemma write_mta_segs: "all_segs P s \<Longrightarrow> all_segs P (snd (XcpWriteMta ap d s))"
proof -
  assume s: "all_segs P s"
  have "all_segs P (advance_addr n (snd (XcpCalSegWriteMemory a d s)))" for n a
    by (rule same_segs [OF _ write_inv [OF s]]) simp
  with s show ?thesis by (auto simp: XcpWriteMta_def split_beta intro: same_segs [OF _ s])
qed

lemma download_segs: "all_segs P s \<Longrightarrow> all_segs P (snd (cmd_download ap cro len s))"
  by (auto simp: cmd_download_def Let_def write_mta_segs intro: same_segs)

lemma short_download_segs: "all_segs P s \<Longrightarrow> all_segs P (snd (cmd_short_download ap async cro len s))"
proof -
  assume s: "all_segs P s"
  obtain e t where e: "set_mta_unless ap async cro s = (e, t)" by fastforce
  then have "all_segs P t" using same_segs [OF mta_unless_cal s] by (metis snd_conv)
  with s e show ?thesis by (auto simp: cmd_short_download_def Let_def write_mta_segs intro: same_segs)
qed

lemma user_segs: "all_segs P s \<Longrightarrow> all_segs P (snd (cmd_user ap cro len s))"
  using begin_inv [of s] end_inv [of s] by (auto simp: cmd_user_def Let_def intro: same_segs)

lemma disconnect_segs: "all_segs P s \<Longrightarrow> all_segs P (XcpDisconnect ap s)"
proof -
  assume s: "all_segs P s"
  define s1 where "s1 = (if isDaqRunning s then snd (wait_queue_empty ap (XcpStopDaq s)) else s)"
  have "all_segs P s1" by (rule same_segs [OF _ s]) (simp add: s1_def)
  then have "all_segs P (snd (XcpCalSegPublishAll (reader_sched ap) True s1))" by (rule publish_all_inv)
  then have "all_segs P ((snd (XcpCalSegPublishAll (reader_sched ap) True s1))
      \<lparr>session_status := session_status (snd (XcpCalSegPublishAll (reader_sched ap) True s1)) AND NOT SS_CONNECTED\<rparr>)"
    by (rule same_segs [rotated]) (rule disconnect_status_cal)
  with s show ?thesis unfolding XcpDisconnect_def Let_def s1_def [symmetric] by presburger
qed

lemma freeze_one_segs: "all_segs P s \<Longrightarrow> all_segs P (snd (XcpBinFreezeCalSeg i s))"
proof -
  assume s: "all_segs P s"
  obtain p t where l: "XcpLockCalSeg i s = (p, t)" by fastforce
  have "all_segs P t" using P_reader [OF s, of "ReaderLock i"] l by simp
  then have u: "all_segs P (XcpUnlockCalSeg i t)" using P_reader [of t "ReaderUnlock i"] by simp
  then have "all_segs P ((XcpUnlockCalSeg i t)\<lparr>bin_files := bf\<rparr>)" for bf by (rule same_segs [rotated]) simp
  with s l show ?thesis by (auto simp: XcpBinFreezeCalSeg_def Let_def split: option.split)
qed

lemma freeze_segs: "all_segs P s \<Longrightarrow> all_segs P (snd (freeze_calsegs all is s))"
proof (induction all "is" s rule: freeze_calsegs.induct)
  case (2 all i "is" s)
  obtain b t where e: "XcpBinFreezeCalSeg i s = (b, t)" by fastforce
  then have "all_segs P t" using freeze_one_segs [OF 2(3), of i] by simp
  with 2 e show ?case by auto
qed simp

lemma page_commands_segs:
  assumes s: "all_segs P s"
  shows "all_segs P (snd (cmd_set_cal_page cro len s))" "all_segs P (snd (cmd_copy_cal_page cro s))"
    "all_segs P (snd (cmd_set_segment_mode cro len s))" "all_segs P (snd (cmd_set_request cro len s))"
proof -
  have t: "all_segs P (CRM_LEN n s)" for n by (rule same_segs [OF _ s]) simp
  show "all_segs P (snd (cmd_set_cal_page cro len s))" using s by (simp add: cmd_set_cal_page_def select_inv)
  show "all_segs P (snd (cmd_copy_cal_page cro s))" using t by (simp add: cmd_copy_cal_page_def copy_inv)
  show "all_segs P (snd (cmd_set_segment_mode cro len s))" using s by (simp add: cmd_set_segment_mode_def mode_inv)
  show "all_segs P (snd (cmd_set_request cro len s))"
    using s t freeze_segs [OF t] by (simp add: cmd_set_request_def Let_def XcpFreezeSelectedCalSegs_def)
qed

lemma switch_segs:
  assumes s: "all_segs P s"
  shows "if_returns (\<lambda>_ t. all_segs P t) (switch_command ap async cro len s)"
proof -
  have same: "all_segs P t" if "cal_part t = cal_part s" for t :: "'a xcp_scheme" by (rule same_segs [OF that s])
  have "if_returns (\<lambda>_ t. all_segs P t) (cmd_set_daq_list_mode cro len s)"
    unfolding if_returns_def using same [OF set_mode_cmd_cal] by blast
  moreover have "all_segs P (snd (cmd_disconnect ap s))" using disconnect_segs [OF s] by (simp add: cmd_disconnect_def)
  ultimately show ?thesis unfolding switch_command_def Let_def
    by (intro if_returns_if)
      (simp_all add: same s page_commands_segs [OF s] download_segs [OF s] short_download_segs [OF s] user_segs [OF s])
qed

theorem command_segs:
  assumes s: "all_segs P s" and a: "isActivated s"
  shows "if_returns (\<lambda>_ t. all_segs P t) (XcpAsyncCommand ap async cro len s)"
proof -
  define s1 where "s1 = CRM_LEN 1 (CRM_BYTE 0 PID_RES s)"
  have s1: "cal_part s1 = cal_part s" by (simp add: s1_def)
  then have P1: "all_segs P s1" and a1: "isActivated s1" using same_segs [OF s1 s] a by (simp_all add: cal_part_def)
  have "all_segs P (snd (cmd_connect ap cro s1))" by (rule same_segs [OF connect_cal [OF a1] P1])
  with switch_segs [OF P1] P1 have "if_returns (\<lambda>_ t. all_segs P t) (run_command ap async cro len s)"
    unfolding run_command_def Let_def s1_def [symmetric] by (intro if_returns_if) simp_all
  then have "if_returns (\<lambda>a t. all_segs P (snd (finish_command async (a, t)))) (run_command ap async cro len s)"
  proof (rule if_returns_mono)
    fix a and t :: "'a xcp_scheme" assume t: "all_segs P t"
    have "cal_part (snd (finish_command async (a, t))) = cal_part t"
      by (auto simp: finish_command_def split: reply.split)
    then show "all_segs P (snd (finish_command async (a, t)))" using t by (rule same_segs)
  qed
  then show ?thesis unfolding XcpAsyncCommand_def if_returns_map .
qed

end

section \<open>The segment list under every command\<close>

definition cal_list :: "'a xcp_cal_scheme \<Rightarrow> (nat \<Rightarrow> nat) \<times> nat \<times> nat \<times> nat \<times> bool" where
  "cal_list s = (calseg_offset s, calseg_count s, memory_segment_count s, cal_mem_used s, isActivated s)"

lemma cal_part_list: "cal_part t = cal_part s \<Longrightarrow> cal_list t = cal_list s"
  by (simp add: cal_part_def cal_list_def)

lemma cal_frame_list: "cal_frame s t \<Longrightarrow> cal_list t = cal_list s"
  using cal_frameD [of s t] by (simp add: cal_list_def isActivated_def)

lemma cal_frame_freeze: "cal_list (snd (XcpBinFreezeCalSeg i s)) = cal_list s"
  by (simp add: XcpBinFreezeCalSeg_def XcpLockCalSeg_def XcpUnlockCalSeg_def split_beta Let_def cal_list_def
      isActivated_def upd_calseg_def split: option.split)

lemma freeze_list: "cal_list (snd (freeze_calsegs all is s)) = cal_list s"
proof (induction all "is" s rule: freeze_calsegs.induct)
  case (2 all i "is" s)
  obtain b t where e: "XcpBinFreezeCalSeg i s = (b, t)" by fastforce
  then have "cal_list t = cal_list s" using cal_frame_freeze [of i s] by simp
  with 2 e show ?case by auto
qed simp

lemma write_mta_list: "cal_list (snd (XcpWriteMta ap d s)) = cal_list s"
proof -
  have "cal_list (advance_addr n (snd (XcpCalSegWriteMemory a d s))) = cal_list s" for n a
    using cal_part_list [OF service_cal(2)] cal_frame_list [OF cal_frame_ops(1)] by metis
  then show ?thesis by (auto simp: XcpWriteMta_def split_beta intro: cal_part_list)
qed

lemma disconnect_list: "cal_list (XcpDisconnect ap s) = cal_list s"
proof -
  define s1 where "s1 = (if isDaqRunning s then snd (wait_queue_empty ap (XcpStopDaq s)) else s)"
  define s2 where "s2 = snd (XcpCalSegPublishAll (reader_sched ap) True s1)"
  have "cal_list s1 = cal_list s" by (rule cal_part_list) (simp add: s1_def)
  moreover have "cal_list s2 = cal_list s1" unfolding s2_def by (rule cal_frame_list) simp
  moreover have "cal_list (s2\<lparr>session_status := session_status s2 AND NOT SS_CONNECTED\<rparr>) = cal_list s2"
    by (rule cal_part_list) (rule disconnect_status_cal)
  ultimately show ?thesis unfolding XcpDisconnect_def Let_def s1_def [symmetric] s2_def [symmetric] by presburger
qed

lemma cal_commands_list:
  "cal_list (snd (cmd_user ap cro len s)) = cal_list s" "cal_list (snd (cmd_download ap cro len s)) = cal_list s"
  "cal_list (snd (cmd_short_download ap async cro len s)) = cal_list s"
  "cal_list (snd (cmd_set_cal_page cro len s)) = cal_list s" "cal_list (snd (cmd_copy_cal_page cro s)) = cal_list s"
  "cal_list (snd (cmd_set_segment_mode cro len s)) = cal_list s" "cal_list (snd (cmd_set_request cro len s)) = cal_list s"
  "cal_list (snd (cmd_disconnect ap s)) = cal_list s"
proof -
  have l: "cal_list (CRM_LEN n s) = cal_list s" for n by (rule cal_part_list) simp
  note ops = cal_frame_list [OF cal_frame_ops(2)] cal_frame_list [OF cal_frame_ops(3)] cal_frame_list [OF cal_frame_ops(4)]
    cal_frame_list [OF cal_frame_page] cal_frame_list [OF cal_frame_copy]
    cal_part_list [OF service_cal(5)] cal_part_list [OF push_busy_cal] write_mta_list freeze_list disconnect_list
  show "cal_list (snd (cmd_user ap cro len s)) = cal_list s" by (simp add: cmd_user_def Let_def ops)
  show "cal_list (snd (cmd_download ap cro len s)) = cal_list s" by (simp add: cmd_download_def Let_def ops)
  obtain e t where e: "set_mta_unless ap async cro s = (e, t)" by fastforce
  then have "cal_list t = cal_list s" using cal_part_list [OF mta_unless_cal] by (metis snd_conv)
  then show "cal_list (snd (cmd_short_download ap async cro len s)) = cal_list s"
    using e by (simp add: cmd_short_download_def Let_def ops)
  show "cal_list (snd (cmd_set_cal_page cro len s)) = cal_list s" "cal_list (snd (cmd_set_segment_mode cro len s)) = cal_list s"
    by (simp_all add: cmd_set_cal_page_def cmd_set_segment_mode_def ops)
  show "cal_list (snd (cmd_copy_cal_page cro s)) = cal_list s" by (simp add: cmd_copy_cal_page_def ops l)
  show "cal_list (snd (cmd_set_request cro len s)) = cal_list s"
    by (simp add: cmd_set_request_def Let_def XcpFreezeSelectedCalSegs_def ops l)
  show "cal_list (snd (cmd_disconnect ap s)) = cal_list s" by (simp add: cmd_disconnect_def ops)
qed

lemma switch_list: "if_returns (\<lambda>_ t. cal_list t = cal_list s) (switch_command ap async cro len s)"
proof -
  have mode: "if_returns (\<lambda>_ t. cal_list t = cal_list s) (cmd_set_daq_list_mode cro len s)"
    unfolding if_returns_def using cal_part_list [OF set_mode_cmd_cal] by blast
  have same: "cal_list t = cal_list s" if "cal_part t = cal_part s" for t :: "'a xcp_scheme"
    by (rule cal_part_list [OF that])
  show ?thesis unfolding switch_command_def Let_def
    by (intro if_returns_if) (auto intro!: same simp: cal_commands_list mode)
qed

lemma command_list:
  assumes a: "isActivated s"
  shows "if_returns (\<lambda>_ t. cal_list t = cal_list s) (XcpAsyncCommand ap async cro len s)"
proof -
  define s1 where "s1 = CRM_LEN 1 (CRM_BYTE 0 PID_RES s)"
  have s1: "cal_part s1 = cal_part s" by (simp add: s1_def)
  then have l1: "cal_list s1 = cal_list s" and a1: "isActivated s1" using a by (simp_all add: cal_part_def cal_list_def)
  have "cal_list (snd (cmd_connect ap cro s1)) = cal_list s1" by (rule cal_part_list [OF connect_cal [OF a1]])
  with switch_list [of s1] l1 have "if_returns (\<lambda>_ t. cal_list t = cal_list s) (run_command ap async cro len s)"
    unfolding run_command_def Let_def s1_def [symmetric] by (intro if_returns_if) simp_all
  then have "if_returns (\<lambda>a t. cal_list (snd (finish_command async (a, t))) = cal_list s) (run_command ap async cro len s)"
  proof (rule if_returns_mono)
    fix a and t :: "'a xcp_scheme" assume t: "cal_list t = cal_list s"
    have "cal_part (snd (finish_command async (a, t))) = cal_part t"
      by (auto simp: finish_command_def split: reply.split)
    then show "cal_list (snd (finish_command async (a, t))) = cal_list s" using t cal_part_list by fastforce
  qed
  then show ?thesis unfolding XcpAsyncCommand_def if_returns_map .
qed

text \<open>The sizes of the segments are one more property that every command keeps, so the blocks of the pool stay
  disjoint.\<close>

interpretation sizes: seg_contract "\<lambda>p c. seg_bytes c = sz p" "\<lambda>p c. seg_bytes c = sz p" for sz
  by unfold_locales (auto simp: set_page_def Let_def dest: arg_cong [of _ _ "\<lambda>x. seg_bytes (snd x)"])

lemma command_pool:
  assumes p: "pool_ok s" and a: "isActivated s"
  shows "if_returns (\<lambda>_ t. pool_ok t) (XcpAsyncCommand ap async cro len s)"
proof -
  define sz where "sz p = seg_bytes (cal_pool s p)" for p
  have "all_segs (\<lambda>p c. seg_bytes c = sz p) s" by (simp add: all_segs_def sz_def)
  from sizes.command_segs [OF this a, of ap async cro len] command_list [OF a, of ap async cro len]
  show ?thesis unfolding if_returns_def
  proof (intro allI impI)
    fix r t assume e: "XcpAsyncCommand ap async cro len s = Some (r, t)"
      and "\<forall>a t. XcpAsyncCommand ap async cro len s = Some (a, t) \<longrightarrow> all_segs (\<lambda>p c. seg_bytes c = sz p) t"
        "\<forall>a t. XcpAsyncCommand ap async cro len s = Some (a, t) \<longrightarrow> cal_list t = cal_list s"
    then have z: "all_segs (\<lambda>p c. seg_bytes c = sz p) t" and l: "cal_list t = cal_list s" by blast+
    then have n: "XcpGetCalSegCount t = XcpGetCalSegCount s" "calseg_offset t = calseg_offset s" "cal_mem_used t = cal_mem_used s"
      by (simp_all add: cal_list_def XcpGetCalSegCount_def)
    have "seg_bytes (CalSegPtr t i) = seg_bytes (CalSegPtr s i)" if "i < XcpGetCalSegCount s" for i
      using all_segsD [OF z, of i] that n by (simp add: sz_def CalSegPtr_def)
    with p n show "pool_ok t" by (simp add: pool_ok_def)
  qed
qed

end
