(* ===== verification/Xcp_Start.thy ===== *)
theory Xcp_Start
  imports Xcp_Command_Cal
begin

text \<open>
  What \<^verbatim>\<open>XcpInit\<close> and \<^verbatim>\<open>XcpStart\<close> establish. \<open>static_state\<close> is the state of the process before the
  first call: the C objects \<^verbatim>\<open>gXcpData\<close> and \<^verbatim>\<open>gXcpLocalData\<close> with their static initialisers, next to the
  memory of the application, the files on the disk and a queue that \<^verbatim>\<open>XcpStart\<close> replaces.
\<close>

definition static_state :: "bytes \<Rightarrow> (string \<Rightarrow> u8 list option) \<Rightarrow> queue64 \<Rightarrow> xcp" where
  "static_state mem files q = \<lparr>session_status = 0, event_count = 0, event = (\<lambda>_. zero_event),
     daq_running = False, odt_entry_count = 0, odt_count = 0, daq_count = 0, daq_mem = (\<lambda>_. 0),
     daq_overflow_count = 0, write_daq_odt_entry = 0, write_daq_odt = 0, write_daq_daq = 0, daq_start_clock = 0,
     calseg_offset = (\<lambda>_. 0), calseg_count = 0, memory_segment_count = 0, write_delayed = False,
     cal_mem_used = 0, cal_pool = (\<lambda>_. zero_calseg),
     init_mode = 0, mta_ptr = NullPtr, mta_addr = 0, mta_ext = 0, project_name = [], epk = [],
     crm = (\<lambda>_. 0), crm_len = 0, cmd_pending = False, cmd_pending_crm = (\<lambda>_. 0), cmd_pending_crm_len = 0,
     clock_info = (\<lambda>_. 0), app_mem = mem, obj_mem = (\<lambda>_ _. None), appl_write_delayed = False,
     a2l_name = [], xcp_file = None, xcp_file_length = 0, bin_files = files, tl_sent = [], xcp_queue = q\<rparr>"

section \<open>The invariant of the library's state\<close>

definition sys_inv :: "'a xcp_scheme \<Rightarrow> bool" where
  "sys_inv s \<longleftrightarrow> isActivated s \<and> daq_inv s \<and> events_wf s \<and> all_segs seg_ok s \<and> pool_ok s"

lemma sys_invI:
  assumes "isActivated s" "daq_inv s" "events_wf s" "all_segs seg_ok s" "pool_ok s" shows "sys_inv s"
  using assms by (simp add: sys_inv_def)

lemma sys_invD:
  assumes "sys_inv s"
  shows "isActivated s" "daq_inv s" "events_wf s" "all_segs seg_ok s" "pool_ok s"
  using assms by (simp_all add: sys_inv_def)

section \<open>Initialisation\<close>

text \<open>The state before the EPK segment is created.\<close>

definition bare :: "'a xcp_scheme \<Rightarrow> bool" where
  "bare s \<longleftrightarrow> isActivated s \<and> daq_inv s \<and> events_wf s \<and> calseg_count s = 0 \<and> cal_mem_used s = 0 \<and> memory_segment_count s = 0
     \<and> (\<forall>p. seg_mode (cal_pool s p) = 0)"

lemma bare_empty: "bare s \<Longrightarrow> all_segs P s \<and> pool_ok s"
  by (simp add: bare_def all_segs_def seg_offsets_def XcpGetCalSegCount_def pool_ok_def)

lemma bare_init:
  fixes s1 :: "'a xcp_scheme"
  assumes "\<forall>p. seg_mode (cal_pool s1 p) = 0"
  defines "s2 \<equiv> XcpInitEventList (XcpInitCalSegList (XcpClearDaq s1))"
  shows "bare (s2\<lparr>session_status := session_status s2 OR SS_ACTIVATED\<rparr>)" (is "bare ?s")
proof -
  have "daq_inv ?s"
    by (rule daq_invI) (simp_all add: s2_def cursor_ok_def chains_ok_empty XcpClearDaq_def XcpInitEventList_def
        XcpInitCalSegList_def daq_tables_ok_def daq_fresh_def daq_lists_sep_def odt_sizes_ok_def daq_unwritten_def daq_top_def)
  moreover have "isActivated ?s" by (simp add: isActivated_def bit.conj_disj_distrib2)
  moreover have "events_wf ?s" by (simp add: s2_def events_wf_def XcpInitEventList_def)
  ultimately show ?thesis using assms(1)
    by (simp add: bare_def s2_def XcpInitEventList_def XcpInitCalSegList_def XcpClearDaq_def)
qed

lemma first_segment:
  fixes s :: "'a xcp_scheme"
  assumes b: "bare s" and d: "length d = epk_size"
  obtains t where "XcpCreateCalSeg ''epk'' (PageData d) epk_size s = Some (0, t)" "sys_inv t"
    "XcpGetCalSegCount t = 1" "reader_view (CalSegPtr t 0) = d" "calseg_name (CalSegPtr t 0) = ''epk''"
    "daq_part t = daq_part s" "session_status t = session_status s" "xcp_cal.more t = xcp_cal.more s"
    "cal_mem_used t = 192" "memory_segment_count t = 1" "calseg_number (CalSegPtr t 0) = 0" "seg_bytes (CalSegPtr t 0) = epk_size"
proof -
  define t where "t = s\<lparr>cal_mem_used := 192, memory_segment_count := 1,
    cal_pool := (cal_pool s)(0 := init_calseg True ''epk'' 0 32 d (cal_pool s 0)),
    calseg_offset := (calseg_offset s)(0 := 0), calseg_count := 1\<rparr>"
  have s: "isActivated s" "calseg_count s = 0" "cal_mem_used s = 0" "memory_segment_count s = 0" "\<forall>p. seg_mode (cal_pool s p) = 0"
    using b by (simp_all add: bare_def)
  have c0: "XcpGetCalSegCount s = 0" using s by (simp add: XcpGetCalSegCount_def)
  have impl: "XcpCreateCalSeg_impl ''epk'' True (PageData d) epk_size True s = Some (0, t)"
    using s c0 d by (simp add: XcpCreateCalSeg_impl_def XcpFindCalSeg_def find_calseg_def XcpCalMemAlloc_def
        aligned_page_size_def align_up_def epk_size_def XcpInitCalSeg_def XcpRegisterCalSeg_def finish_calseg_def
        CalSegPtr_def t_def Let_def isActivated_def XcpGetCalSegCount_def)
  then have cr: "XcpCreateCalSeg ''epk'' (PageData d) epk_size s = Some (0, t)" using s by (simp add: XcpCreateCalSeg_def)
  have src: "caller_page epk_size (PageData d)" using d by simp
  have n: "0 < epk_size" "epk_size \<le> 65528" by (simp_all add: epk_size_def)
  note r = create_result [OF s(1) _ _ n src impl]
  have "daq_part t = daq_part s" by (simp add: t_def daq_part_def)
  then have "daq_inv t" using b daq_part_inv by (auto simp: bare_def)
  moreover have "events_wf t = events_wf s" by (rule events_wf_cong) (simp_all add: t_def)
  ultimately have inv: "sys_inv t"
    using r bare_empty [OF b] b by (auto intro!: sys_invI simp: bare_def)
  have cnt: "XcpGetCalSegCount t = 1" using s by (simp add: t_def XcpGetCalSegCount_def isActivated_def)
  have "reader_view (CalSegPtr t 0) = d" using r bare_empty [OF b] c0 d by auto
  moreover have "calseg_name (CalSegPtr t 0) = ''epk''"
    by (simp add: t_def CalSegPtr_def STRNLEN_def) 
  ultimately show thesis
    using that [OF cr inv cnt] by (simp add: t_def daq_part_def CalSegPtr_def epk_size_def)
qed

text \<open>A call of \<^verbatim>\<open>XcpInit\<close> in a process where no persistence file is to be loaded.\<close>

lemma clear_state_pool: "seg_mode (cal_pool (clear_state s) p) = 0"
  by (simp add: clear_state_def zero_calseg_def)

lemma adjust_mode_local: "mode \<noteq> 0 \<Longrightarrow> adjust_mode mode AND 1 \<noteq> 0"
  by (simp add: adjust_mode_def and.assoc bit.conj_disj_distrib2)

lemma adjust_mode_persistence: "mode \<noteq> 0 \<Longrightarrow> adjust_mode mode AND 2 = mode AND 2"
  by (simp add: adjust_mode_def and.assoc bit.conj_disj_distrib2)

lemma XcpInit_ok:
  fixes s0 :: "'a xcp_scheme"
  assumes a: "\<not> isActivated s0" and n: "name \<noteq> []" "ver \<noteq> []" and m: "mode \<noteq> 0" "mode AND 2 = 0"
  obtains t where "XcpInit name ver mode s0 = Some (True, t)" "sys_inv t" "\<not> isStarted t" "\<not> isConnected t"
    "XcpGetCalSegCount t = 1" "calseg_name (CalSegPtr t 0) = ''epk''"
    "reader_view (CalSegPtr t 0) = name_field (epk t) epk_size" "daq_count t = 0" "event_count t = 0"
    "\<not> cmd_pending t" "session_status t = SS_ACTIVATED" "cal_mem_used t = 192" "memory_segment_count t = 1"
    "calseg_number (CalSegPtr t 0) = 0" "seg_bytes (CalSegPtr t 0) = epk_size"
proof -
  define am where "am = adjust_mode mode"
  define s where "s = (clear_state s0)\<lparr>init_mode := unat am\<rparr>"
  define s1 where "s1 = XcpSetEpk ver (XcpSetProjectName name s)"
  define s2 where "s2 = XcpInitEventList (XcpInitCalSegList (XcpClearDaq s1))"
  define s3 where "s3 = s2\<lparr>session_status := session_status s2 OR SS_ACTIVATED\<rparr>"
  have am: "am AND 1 \<noteq> 0" "am AND 2 = 0"
    using adjust_mode_local [OF m(1)] adjust_mode_persistence [OF m(1)] m(2) by (simp_all add: am_def)
  have "\<forall>p. seg_mode (cal_pool s1 p) = 0"
    by (simp add: clear_state_pool s1_def s_def XcpSetEpk_def XcpSetProjectName_def)
  then have b: "bare s3" unfolding s3_def s2_def by (rule bare_init)
  have len: "length (name_field (XcpGetEcuEpk s3) epk_size) = epk_size"
    by (simp add: name_field_def zero_pad_def)
  obtain t where t: "XcpCreateCalSeg ''epk'' (PageData (name_field (XcpGetEcuEpk s3) epk_size)) epk_size s3 = Some (0, t)"
    "sys_inv t" "XcpGetCalSegCount t = 1" "reader_view (CalSegPtr t 0) = name_field (XcpGetEcuEpk s3) epk_size"
    "calseg_name (CalSegPtr t 0) = ''epk''" "daq_part t = daq_part s3" "session_status t = session_status s3"
    "xcp_cal.more t = xcp_cal.more s3" "cal_mem_used t = 192" "memory_segment_count t = 1"
    "calseg_number (CalSegPtr t 0) = 0" "seg_bytes (CalSegPtr t 0) = epk_size"
    by (rule first_segment [OF b len])
  have "XcpInit name ver mode s0 = Some (True, t)"
    using a n am(2) t(1) am(1)
    by (simp add: XcpInit_def Let_def am_def [symmetric] s_def [symmetric] s1_def [symmetric] s2_def [symmetric] s3_def [symmetric])
  moreover have "session_status s3 = SS_ACTIVATED"
    by (simp add: s3_def s2_def s1_def s_def XcpInitEventList_def XcpInitCalSegList_def XcpClearDaq_def XcpSetEpk_def
        XcpSetProjectName_def clear_state_def)
  moreover have "\<not> cmd_pending s3"
    by (simp add: s3_def s2_def s1_def s_def XcpInitEventList_def XcpInitCalSegList_def XcpClearDaq_def XcpSetEpk_def
        XcpSetProjectName_def clear_state_def)
  then have "\<not> cmd_pending t" using xcp_more_eq [OF t(8)] by simp
  moreover have "epk t = epk s3" using xcp_more_eq [OF t(8)] by simp
  moreover have "daq_count s3 = 0" "event_count s3 = 0"
    by (simp_all add: s3_def s2_def XcpInitEventList_def XcpInitCalSegList_def XcpClearDaq_def)
  ultimately show thesis using that t by (simp add: isStarted_def isConnected_def XcpGetEcuEpk_def daq_part_def)
qed


section \<open>What the invariant depends on\<close>

definition ev_part :: "'a xcp_events_scheme \<Rightarrow> nat \<times> (nat \<Rightarrow> string) \<times> (nat \<Rightarrow> nat)" where
  "ev_part s = (event_count s, (\<lambda>i. ev_name (event s i)), (\<lambda>i. ev_index (event s i)))"

lemma ev_part_wf: "ev_part t = ev_part s \<Longrightarrow> events_wf t = events_wf s"
  by (rule events_wf_cong) (simp_all add: ev_part_def fun_eq_iff)

lemma daq_part_ev: "daq_part t = daq_part s \<Longrightarrow> ev_part t = ev_part s"
  by (simp add: daq_part_def ev_part_def)

lemma sys_inv_parts:
  assumes "sys_inv s" "cal_part t = cal_part s" "daq_inv t" "ev_part t = ev_part s" shows "sys_inv t"
proof -
  note inv = sys_invD [OF assms(1)]
  show ?thesis
  proof (rule sys_invI)
    show "isActivated t" using inv(1) assms(2) by (simp add: cal_part_def)
    show "events_wf t" using inv(3) ev_part_wf [OF assms(4)] by simp
    show "all_segs seg_ok t" by (rule cal_part_all [OF assms(2) inv(4)])
    show "pool_ok t" using inv(5) cal_part_pool [OF assms(2)] by simp
  qed (rule assms(3))
qed

lemma sys_inv_same:
  assumes "sys_inv s" "cal_part t = cal_part s" "daq_part t = daq_part s" shows "sys_inv t"
  using sys_inv_parts [OF assms(1,2) _ daq_part_ev [OF assms(3)]] daq_part_inv [OF assms(3)] sys_invD(2) [OF assms(1)]
  by blast

section \<open>Start\<close>

lemma XcpStart_ok:
  assumes "sys_inv s"
  shows "sys_inv (XcpStart ap q s)" "isStarted (XcpStart ap q s)"
proof -
  note inv = sys_invD [OF assms]
  have "cal_part (XcpStart ap q s) = cal_part s" "daq_part (XcpStart ap q s) = daq_part s"
    using inv(1) by (simp_all add: XcpStart_def cal_part_def daq_part_def isActivated_def bit.conj_disj_distrib2)
  then show "sys_inv (XcpStart ap q s)" by (rule sys_inv_same [OF assms])
  show "isStarted (XcpStart ap q s)"
    using inv(1) by (simp add: XcpStart_def isStarted_def bit.conj_disj_distrib2)
qed

section \<open>What DAQ operations leave alone\<close>

definition outside :: "'a xcp_daq_scheme \<Rightarrow> nat \<times> (nat \<Rightarrow> string) \<times> (nat \<Rightarrow> nat) \<times> 'a" where
  "outside s = (event_count s, (\<lambda>i. ev_name (event s i)), (\<lambda>i. ev_index (event s i)), xcp_daq.more s)"

lemma outside_ev: "outside t = outside s \<Longrightarrow> ev_part t = ev_part s"
  by (simp add: outside_def ev_part_def)

lemma outside_more:
  assumes "outside (t :: 'a xcp_cal_scheme) = outside s" shows "xcp_cal.more t = xcp_cal.more s"
proof -
  have "xcp_daq.more t = xcp_daq.more s" using assms by (simp add: outside_def)
  then show ?thesis by (cases s, cases t, simp)
qed

lemma base_outside [simp]:
  "outside (list_wr16 i k v s) = outside s" "outside (list_wr8 i k b s) = outside s"
  "outside (odt_wr16 i k v s) = outside s" "outside (odt_entry_write e a x z s) = outside s"
  "outside (set_daq_first e d s) = outside s" "outside (set_list_state d b s) = outside s"
  "outside (s\<lparr>daq_count := n\<rparr>) = outside s" "outside (s\<lparr>odt_count := n\<rparr>) = outside s"
  "outside (s\<lparr>odt_entry_count := n\<rparr>) = outside s" "outside (s\<lparr>write_daq_odt_entry := n\<rparr>) = outside s"
  "outside (s\<lparr>write_daq_odt := n\<rparr>) = outside s" "outside (s\<lparr>write_daq_daq := n\<rparr>) = outside s"
  "outside (s\<lparr>session_status := w\<rparr>) = outside s" "outside (XcpClearDaq s) = outside s"
  by (simp_all add: outside_def list_wr16_def list_wr8_def odt_wr16_def odt_entry_write_def
      set_daq_first_def set_list_state_def XcpClearDaq_def fun_eq_iff)

lemma fold_outside: "(\<And>x t. outside (f x t) = outside t) \<Longrightarrow> outside (fold f xs s) = outside s"
  by (induction xs arbitrary: s) simp_all

lemma check_memory_outside [simp]: "outside (snd (XcpCheckMemory s)) = outside s"
  by (simp add: XcpCheckMemory_def)

lemma alloc_outside [simp]:
  "outside (snd (XcpAllocDaq n s)) = outside s" "outside (snd (XcpAllocOdt d n s)) = outside s"
  "outside (snd (XcpAllocOdtEntry d j n s)) = outside s"
proof -
  have "outside (fold init_daq_list ds t) = outside t" for ds and t :: "'a xcp_daq_scheme"
    by (rule fold_outside) (simp add: init_daq_list_def)
  then show "outside (snd (XcpAllocDaq n s)) = outside s"
    by (simp add: XcpAllocDaq_def Let_def split_beta)
qed (simp_all add: XcpAllocOdt_def XcpAllocOdtEntry_def Let_def)

lemma config_outside [simp]:
  "outside (snd (XcpSetDaqPtr d j k s)) = outside s" "outside (snd (XcpAddOdtEntry a x z s)) = outside s"
  by (auto simp: XcpSetDaqPtr_def XcpAddOdtEntry_def XcpSetOdtSize_def Let_def split: sum.split option.split prod.split)

lemma link_outside: "link_daq e daq link d s = Some t \<Longrightarrow> outside t = outside s"
  by (erule link_daq.raw_induct [rotated])
    (auto simp: set_daq_link_def split: if_splits option.splits)

lemma set_mode_outside: "XcpSetDaqListMode d e m p q s = Some (r, t) \<Longrightarrow> outside t = outside s"
  by (auto simp: XcpSetDaqListMode_def Let_def split: if_splits dest!: link_outside)

lemma run_daq_outside [simp]:
  "outside (XcpStartDaq c s) = outside s" "outside (XcpStopDaq s) = outside s"
  "outside (XcpStartDaqList d s) = outside s"
proof -
  have "outside (fold (\<lambda>d. set_list_state d v) ds t) = outside t" for v ds and t :: "'a xcp_daq_scheme"
    by (rule fold_outside) simp
  then show "outside (XcpStopDaq s) = outside s"
    by (simp add: XcpStopDaq_def) (simp add: outside_def)
qed (simp_all add: XcpStartDaq_def XcpStartDaqList_def, simp add: outside_def)

lemma selected_outside [simp]:
  "outside (XcpStopDaqList d s) = outside s"
  "outside (XcpStartSelectedDaqLists s) = outside s" "outside (XcpStopSelectedDaqLists s) = outside s"
proof -
  show stop: "outside (XcpStopDaqList d s) = outside s" for d and s :: "'a xcp_daq_scheme"
    by (simp add: XcpStopDaqList_def Let_def)
  show "outside (XcpStartSelectedDaqLists s) = outside s"
    unfolding XcpStartSelectedDaqLists_def by (rule fold_outside) simp
  show "outside (XcpStopSelectedDaqLists s) = outside s"
    unfolding XcpStopSelectedDaqLists_def by (rule fold_outside) (simp add: stop)
qed

lemma write_entries_outside [simp]: "outside (snd (write_daq_entries cro i k s)) = outside s"
proof (induction cro i k s rule: write_daq_entries.induct)
  case (2 cro i k s)
  obtain r t where e: "XcpAddOdtEntry (CRO_DWORD cro (1 + 2 * i)) (CRO_BYTE cro (8 + 8 * i)) (CRO_BYTE cro (3 + 8 * i)) s = (r, t)"
    by fastforce
  then have "outside t = outside s" using config_outside(2) by (metis snd_conv)
  with 2 e show ?case by simp
qed simp

section \<open>Every command keeps the invariant\<close>

lemma ev_status [simp]: "ev_part (s\<lparr>session_status := w\<rparr>) = ev_part s"
  by (simp add: ev_part_def)

lemma disconnect_ev [simp]: "ev_part (XcpDisconnect ap s) = ev_part s"
proof -
  define s1 where "s1 = (if isDaqRunning s then snd (wait_queue_empty ap (XcpStopDaq s)) else s)"
  have "ev_part (snd (wait_queue_empty ap t)) = ev_part t" for t :: "'a xcp_scheme"
    by (simp add: wait_queue_empty_def split_beta ev_part_def)
  then have "ev_part s1 = ev_part s" by (simp add: s1_def outside_ev [OF run_daq_outside(2)])
  moreover have "ev_part (snd (XcpCalSegPublishAll (reader_sched ap) True s1)) = ev_part s1"
    by (rule daq_part_ev) simp
  ultimately show ?thesis unfolding XcpDisconnect_def Let_def s1_def [symmetric] by simp
qed

lemma daq_commands_ev:
  "ev_part (snd (cmd_free_daq s)) = ev_part s" "ev_part (snd (cmd_alloc_daq cro len s)) = ev_part s"
  "ev_part (snd (cmd_alloc_odt cro len s)) = ev_part s" "ev_part (snd (cmd_alloc_odt_entry cro len s)) = ev_part s"
  "ev_part (snd (cmd_set_daq_ptr cro len s)) = ev_part s" "ev_part (snd (cmd_write_daq cro len s)) = ev_part s"
  "ev_part (snd (cmd_write_daq_multiple cro len s)) = ev_part s"
  "ev_part (snd (cmd_start_stop_daq_list cro len s)) = ev_part s"
  "ev_part (snd (cmd_start_stop_synch ap async cro len s)) = ev_part s"
  "ev_part (snd (cmd_connect ap cro s)) = ev_part s" "ev_part (snd (cmd_disconnect ap s)) = ev_part s"
proof -
  have [simp]: "ev_part (CRM_BYTE k v t) = ev_part t" "ev_part (CRM_WORD k v t) = ev_part t" "ev_part (CRM_LEN n t) = ev_part t"
    "ev_part (snd (wait_queue_empty ap t)) = ev_part t" "ev_part (XcpSendResponse async t) = ev_part t"
    "ev_part (snd (ApplXcpConnect ap m t)) = ev_part t" for k v n m and t :: "'a xcp_scheme"
    by (rule daq_part_ev; simp add: wait_queue_empty_def ApplXcpConnect_def split_beta Let_def split: option.split)+
  note ops = outside_ev [OF base_outside(14)] outside_ev [OF base_outside(6)] outside_ev [OF alloc_outside(1)] outside_ev [OF alloc_outside(2)]
    outside_ev [OF alloc_outside(3)] outside_ev [OF config_outside(1)] outside_ev [OF config_outside(2)]
    outside_ev [OF write_entries_outside] outside_ev [OF run_daq_outside(1)] outside_ev [OF run_daq_outside(2)]
    outside_ev [OF selected_outside(1)] outside_ev [OF selected_outside(2)] outside_ev [OF selected_outside(3)]
  show "ev_part (snd (cmd_free_daq s)) = ev_part s" "ev_part (snd (cmd_alloc_daq cro len s)) = ev_part s"
    "ev_part (snd (cmd_alloc_odt cro len s)) = ev_part s" "ev_part (snd (cmd_alloc_odt_entry cro len s)) = ev_part s"
    "ev_part (snd (cmd_set_daq_ptr cro len s)) = ev_part s" "ev_part (snd (cmd_write_daq cro len s)) = ev_part s"
    "ev_part (snd (cmd_write_daq_multiple cro len s)) = ev_part s"
    "ev_part (snd (cmd_start_stop_daq_list cro len s)) = ev_part s"
    "ev_part (snd (cmd_start_stop_synch ap async cro len s)) = ev_part s"
    by (simp_all add: cmd_free_daq_def cmd_alloc_daq_def cmd_alloc_odt_def cmd_alloc_odt_entry_def cmd_set_daq_ptr_def
      cmd_write_daq_def cmd_write_daq_multiple_def cmd_start_stop_daq_list_def cmd_start_stop_synch_def Let_def ops)
  show "ev_part (snd (cmd_disconnect ap s)) = ev_part s" by (simp add: cmd_disconnect_def)
  obtain b t where e: "ApplXcpConnect ap (CRO_BYTE cro 1) s = (b, t)" by fastforce
  then have "ev_part t = ev_part s" by (metis \<open>\<And>t m. ev_part (snd (ApplXcpConnect ap m t)) = ev_part t\<close> snd_conv)
  then show "ev_part (snd (cmd_connect ap cro s)) = ev_part s" using e by (cases b) (simp_all add: cmd_connect_def Let_def ops)
qed

lemma switch_ev: "if_returns (\<lambda>_ t. ev_part t = ev_part s) (switch_command ap async cro len s)"
proof -
  have mode: "if_returns (\<lambda>_ t. ev_part t = ev_part s) (cmd_set_daq_list_mode cro len s)"
    by (auto simp: if_returns_def cmd_set_daq_list_mode_def Let_def check_error_def
        split: if_splits prod.splits dest!: outside_ev [OF set_mode_outside])
  have same: "ev_part t = ev_part s" if "daq_part t = daq_part s" for t :: "'a xcp_scheme"
    by (rule daq_part_ev [OF that])
  show ?thesis unfolding switch_command_def Let_def
    by (intro if_returns_if) (auto intro!: same simp: daq_commands_ev mode)
qed

lemma finish_parts:
  "daq_part (snd (finish_command async r)) = daq_part (snd r)" "cal_part (snd (finish_command async r)) = cal_part (snd r)"
  by (auto simp: finish_command_def split: prod.split reply.split)

lemma command_ev: "if_returns (\<lambda>_ t. ev_part t = ev_part s) (XcpAsyncCommand ap async cro len s)"
proof -
  define s1 where "s1 = CRM_LEN 1 (CRM_BYTE 0 PID_RES s)"
  have s1: "ev_part s1 = ev_part s" by (rule daq_part_ev) (simp add: s1_def)
  have "if_returns (\<lambda>_ t. ev_part t = ev_part s) (run_command ap async cro len s)"
    unfolding run_command_def Let_def s1_def [symmetric]
    using switch_ev [of s1] s1 by (intro if_returns_if) (simp_all add: daq_commands_ev)
  then show ?thesis unfolding XcpAsyncCommand_def if_returns_map
    by (rule if_returns_mono) (metis daq_part_ev finish_parts(1) snd_conv)
qed

lemma command_daq:
  assumes "daq_inv s" "alloc_in_order cro s"
  shows "post (\<lambda>_ t. daq_inv t) (XcpAsyncCommand ap async cro len s)"
proof -
  define s1 where "s1 = CRM_LEN 1 (CRM_BYTE 0 PID_RES s)"
  have d: "daq_part s1 = daq_part s" by (simp add: s1_def)
  have s1: "daq_inv s1" using daq_part_inv [OF d] assms(1) by simp
  have o1: "alloc_in_order cro s1" using assms(2) d by (simp add: alloc_in_order_def daq_part_def)
  have "post (\<lambda>_ t. daq_inv t) (run_command ap async cro len s)"
    unfolding run_command_def Let_def s1_def [symmetric]
    using switch_inv [OF s1 o1] s1 connect_inv [OF s1] by (intro post_if) simp_all
  then show ?thesis unfolding XcpAsyncCommand_def post_map
    by (simp add: post_def daq_part_inv [OF finish_parts(1)])
qed

theorem command_inv:
  assumes s: "sys_inv s" and o: "alloc_in_order cro s"
  shows "post (\<lambda>_ t. sys_inv t) (XcpAsyncCommand ap async cro len s)"
proof -
  note inv = sys_invD [OF s]
  from command_daq [OF inv(2) o, of ap async len]
  obtain r t where c: "XcpAsyncCommand ap async cro len s = Some (r, t)" and d: "daq_inv t" by (auto simp: post_def)
  have "sys_inv t"
  proof (rule sys_invI)
    show "daq_inv t" by (rule d)
    show "isActivated t" using command_list [OF inv(1), of ap async cro len] inv(1) c by (simp add: cal_list_def)
    show "events_wf t" using command_ev [of s ap async cro len] inv(3) c ev_part_wf by auto
    show "all_segs seg_ok t" using ok.command_segs [OF inv(4,1), of ap async cro len] c by simp
    show "pool_ok t" using command_pool [OF inv(5,1), of ap async cro len] c by simp
  qed
  with c show ?thesis by simp
qed

end
