(* ===== verification/Xcp_Response.thy ===== *)
theory Xcp_Response
  imports Xcp_Start
begin

text \<open>
  The responses of the command processor. The functions that a command calls do not touch the response buffer,
  the packets sent and the pending command (\<open>io_part\<close>); a command sets the length between 1 and
  \<^verbatim>\<open>XCPTL_MAX_CTO_SIZE\<close> and never the first byte, except for \<^verbatim>\<open>SYNCH\<close>. So a client gets at most one packet per
  command, and that packet is a positive response or an error of two bytes.
\<close>

section \<open>The functions that commands call\<close>

definition io_part :: "'a xcp_scheme \<Rightarrow> u8 list list \<times> bool \<times> bytes \<times> nat \<times> bytes \<times> nat" where
  "io_part s = (tl_sent s, cmd_pending s, cmd_pending_crm s, cmd_pending_crm_len s, crm s, crm_len s)"

lemma io_partD:
  assumes "io_part t = io_part s"
  shows "tl_sent t = tl_sent s" "cmd_pending t = cmd_pending s" "cmd_pending_crm t = cmd_pending_crm s"
    "cmd_pending_crm_len t = cmd_pending_crm_len s" "crm t = crm s" "crm_len t = crm_len s"
  using assms by (simp_all add: io_part_def)

lemma more_io: assumes "xcp_cal.more (t :: 'a xcp_scheme) = xcp_cal.more s" shows "io_part t = io_part s"
  using assms by (cases s, cases t, simp add: io_part_def)

lemma outside_io: "outside (t :: 'a xcp_scheme) = outside s \<Longrightarrow> io_part t = io_part s"
  by (rule more_io) (rule outside_more)

lemma cal_frame_io: "cal_frame s (t :: 'a xcp_scheme) \<Longrightarrow> io_part t = io_part s"
  by (rule more_io) (rule cal_frameD(3))

lemma update_io [simp]:
  "io_part (s\<lparr>mta_ptr := p\<rparr>) = io_part s" "io_part (s\<lparr>mta_ext := n\<rparr>) = io_part s"
  "io_part (s\<lparr>mta_addr := n\<rparr>) = io_part s" "io_part (s\<lparr>session_status := w\<rparr>) = io_part s"
  "io_part (s\<lparr>clock_info := m\<rparr>) = io_part s" "io_part (s\<lparr>xcp_queue := q\<rparr>) = io_part s"
  "io_part (s\<lparr>appl_write_delayed := b\<rparr>) = io_part s" "io_part (s\<lparr>xcp_file := f\<rparr>) = io_part s"
  "io_part (s\<lparr>xcp_file_length := n\<rparr>) = io_part s" "io_part (s\<lparr>app_mem := m\<rparr>) = io_part s"
  "io_part (s\<lparr>obj_mem := om\<rparr>) = io_part s" "io_part (s\<lparr>bin_files := bf\<rparr>) = io_part s"
  by (simp_all add: io_part_def)

lemma daq_io [simp]:
  "io_part (XcpClearDaq s) = io_part s" "io_part (set_list_state d b s) = io_part s"
  "io_part (snd (XcpAllocDaq n s)) = io_part s" "io_part (snd (XcpAllocOdt d n s)) = io_part s"
  "io_part (snd (XcpAllocOdtEntry d j n s)) = io_part s" "io_part (snd (XcpSetDaqPtr d j k s)) = io_part s"
  "io_part (snd (XcpAddOdtEntry a x z s)) = io_part s" "io_part (snd (write_daq_entries cro i m s)) = io_part s"
  "io_part (XcpStartDaq c s) = io_part s" "io_part (XcpStopDaq s) = io_part s"
  "io_part (XcpStopDaqList d s) = io_part s" "io_part (XcpStartSelectedDaqLists s) = io_part s"
  "io_part (XcpStopSelectedDaqLists s) = io_part s"
  by (rule outside_io; simp)+

lemma cal_io [simp]:
  "io_part (snd (XcpCalSegWriteMemory a d s)) = io_part s" "io_part (XcpCalSegBeginAtomicTransaction s) = io_part s"
  "io_part (snd (XcpCalSegEndAtomicTransaction sched s)) = io_part s" "io_part (snd (XcpSetCalSegMode n m s)) = io_part s"
  "io_part (snd (XcpCalSegCopyCalPage f g h k s)) = io_part s" "io_part (snd (XcpCalSegSetCalPage n p m s)) = io_part s"
  "io_part (snd (XcpCalSegPublishAll sched w s)) = io_part s"
  by (rule cal_frame_io; simp)+

lemma upd_calseg_io [simp]: "io_part (upd_calseg i f s) = io_part s"
  by (simp add: upd_calseg_def io_part_def)

lemma service_io [simp]:
  "io_part (ptr_write p d s) = io_part s" "io_part (advance_addr n s) = io_part s"
  "io_part (snd (ApplXcpReadFile n a s)) = io_part s" "io_part (snd (snd (ApplXcpGetId ap i b s))) = io_part s"
  "io_part (snd (ApplXcpUserCommand ap c s)) = io_part s"
  "io_part (snd (XcpSetMta ap x a s)) = io_part s"
  "io_part (snd (wait_queue_empty ap s)) = io_part s" "io_part (snd (ApplXcpConnect ap m s)) = io_part s"
  by (cases p; simp)
    (auto simp: advance_addr_def ApplXcpReadFile_def closeFile_def ApplXcpGetId_def openFile_def ApplXcpUserCommand_def
      XcpSetMta_def wait_queue_empty_def ApplXcpConnect_def Let_def split_beta
      split: option.split prod.split)

lemma mta_io [simp]:
  "io_part (snd (XcpReadMta ap n s)) = io_part s" "io_part (snd (XcpWriteMta ap d s)) = io_part s"
proof -
  show "io_part (snd (XcpReadMta ap n s)) = io_part s"
    using service_io(3) [of n "mta_addr s" s]
    by (auto simp: XcpReadMta_def split: prod.split option.split simp del: service_io(3))
qed (auto simp: XcpWriteMta_def split_beta)

lemma checksum_io [simp]: "io_part (snd (checksum_loop ap n acc s)) = io_part s"
proof (induction n arbitrary: acc s)
  case (Suc n)
  obtain r t where e: "XcpReadMta ap 1 s = (r, t)" by fastforce
  then have "io_part t = io_part s" using mta_io(1) [of ap 1 s] by simp
  with Suc.IH e show ?case by (cases r) simp_all
qed simp

lemma freeze_io [simp]: "io_part (snd (freeze_calsegs all is s)) = io_part s"
proof (induction all "is" s rule: freeze_calsegs.induct)
  case (2 all i "is" s)
  obtain b t where e: "XcpBinFreezeCalSeg i s = (b, t)" by fastforce
  have "io_part (snd (XcpBinFreezeCalSeg i s)) = io_part s"
    by (simp add: XcpBinFreezeCalSeg_def XcpLockCalSeg_def XcpUnlockCalSeg_def split_beta Let_def split: option.split)
  then have "io_part t = io_part s" using e by simp
  with 2 e show ?case by auto
qed simp

lemma disconnect_io [simp]: "io_part (XcpDisconnect ap s) = io_part s"
  by (simp add: XcpDisconnect_def Let_def)

lemma set_mode_io: "XcpSetDaqListMode d e m p q s = Some (r, t) \<Longrightarrow> io_part t = io_part s"
  by (rule outside_io) (rule set_mode_outside)

section \<open>The response of a command\<close>

lemma CRM_sel [simp]:
  "crm (CRM_BYTE k v s) 0 = (if k = 0 then of_nat v else crm s 0)" "0 < k \<Longrightarrow> crm (CRM_WORD k v s) 0 = crm s 0"
  "0 < k \<Longrightarrow> crm (CRM_DWORD k v s) 0 = crm s 0" "0 < k \<Longrightarrow> crm (CRM_DATA k d s) 0 = crm s 0" "crm (CRM_LEN n s) = crm s"
  "crm_len (CRM_BYTE k v s) = crm_len s" "crm_len (CRM_WORD k v s) = crm_len s"
  "crm_len (CRM_DWORD k v s) = crm_len s" "crm_len (CRM_DATA k d s) = crm_len s" "crm_len (CRM_LEN n s) = n"
  "tl_sent (CRM_BYTE k v s) = tl_sent s" "tl_sent (CRM_WORD k v s) = tl_sent s"
  "tl_sent (CRM_DWORD k v s) = tl_sent s" "tl_sent (CRM_DATA k d s) = tl_sent s" "tl_sent (CRM_LEN n s) = tl_sent s"
  by (simp_all add: CRM_BYTE_def CRM_WORD_def CRM_DWORD_def CRM_DATA_def CRM_LEN_def wr16_def wr32_def mem_set_def)

lemmas io_sel [simp] =
  daq_io [THEN io_partD(1)] daq_io [THEN io_partD(5)] daq_io [THEN io_partD(6)]
  cal_io [THEN io_partD(1)] cal_io [THEN io_partD(5)] cal_io [THEN io_partD(6)]
  service_io [THEN io_partD(1)] service_io [THEN io_partD(5)] service_io [THEN io_partD(6)]
  mta_io [THEN io_partD(1)] mta_io [THEN io_partD(5)] mta_io [THEN io_partD(6)]
  checksum_io [THEN io_partD(1)] checksum_io [THEN io_partD(5)] checksum_io [THEN io_partD(6)]
  freeze_io [THEN io_partD(1)] freeze_io [THEN io_partD(5)] freeze_io [THEN io_partD(6)]
  disconnect_io [THEN io_partD(1)] disconnect_io [THEN io_partD(5)] disconnect_io [THEN io_partD(6)]

text \<open>What has been sent and what lies in the response buffer when a command ends. A command that has responded
  itself (\<^verbatim>\<open>START_STOP_SYNCH\<close> with mode 1) ends without another response.\<close>

definition answers :: "bool \<Rightarrow> 'a xcp_scheme \<Rightarrow> reply \<Rightarrow> 'a xcp_scheme \<Rightarrow> bool" where
  "answers async s rep t \<longleftrightarrow>
     (tl_sent t = tl_sent s \<or> rep = NoResponse \<and> \<not> async \<and> tl_sent t = tl_sent s @ [[0xFF]])
     \<and> (rep = Respond \<longrightarrow> crm t 0 \<in> {0xFF, 0xFE} \<and> 1 \<le> crm_len t \<and> crm_len t \<le> XCPTL_MAX_CTO_SIZE)"

text \<open>The state in which the dispatcher runs a command.\<close>

definition fresh_response :: "'a xcp_scheme \<Rightarrow> bool" where
  "fresh_response s \<longleftrightarrow> crm s 0 = 0xFF \<and> crm_len s = 1"

lemma answers_check [simp]:
  "answers async s (fst (check_error r)) (snd r) \<longleftrightarrow>
     tl_sent (snd r) = tl_sent s
     \<and> (fst r = 0 \<longrightarrow> crm (snd r) 0 \<in> {0xFF, 0xFE} \<and> 1 \<le> crm_len (snd r) \<and> crm_len (snd r) \<le> XCPTL_MAX_CTO_SIZE)"
  by (auto simp: check_error_def answers_def split: prod.split)

lemma answers_check_pair [simp]:
  "answers async s (fst (check_error (c, t))) t \<longleftrightarrow>
     tl_sent t = tl_sent s
     \<and> (c = 0 \<longrightarrow> crm t 0 \<in> {0xFF, 0xFE} \<and> 1 \<le> crm_len t \<and> crm_len t \<le> XCPTL_MAX_CTO_SIZE)"
  using answers_check [of async s "(c, t)"] by simp

lemma answers_refused [simp]: "answers async s (NegativeResponse c) t \<longleftrightarrow> tl_sent t = tl_sent s"
  by (simp add: answers_def)

lemma answers_len: "(\<not> len < n \<Longrightarrow> answers async s (fst k) (snd k)) \<Longrightarrow>
   answers async s (fst (check_len n len k s)) (snd (check_len n len k s))"
  by (simp add: check_len_def answers_def)

lemma push_busy_answers: "answers async s (fst (push_or_busy cro len s)) (snd (push_or_busy cro len s))"
  by (simp add: push_or_busy_def XcpPushCommand_def answers_def)

lemma upload_answers:
  assumes "fresh_response s" "n \<le> 247" shows "answers async s (fst (upload_response ap n s)) (snd (upload_response ap n s))"
proof -
  obtain r t where e: "XcpReadMta ap n s = (r, t)" by fastforce
  then have "io_part t = io_part s" using mta_io(1) [of ap n s] by simp
  with e assms io_partD [of t s] show ?thesis
    by (cases r) (simp_all add: upload_response_def answers_def fresh_response_def)
qed

lemma simple_answers:
  assumes f: "fresh_response s"
  shows "answers async s (fst (cmd_synch s)) (snd (cmd_synch s))"
    "answers async s (fst (cmd_user ap cro len s)) (snd (cmd_user ap cro len s))"
    "answers async s (fst (cmd_get_comm_mode_info s)) (snd (cmd_get_comm_mode_info s))"
    "answers async s (fst (cmd_get_status s)) (snd (cmd_get_status s))"
    "answers async s (fst (cmd_disconnect ap s)) (snd (cmd_disconnect ap s))"
    "answers async s (fst (cmd_set_request cro len s)) (snd (cmd_set_request cro len s))"
    "answers async s (fst (cmd_set_mta ap cro len s)) (snd (cmd_set_mta ap cro len s))"
    "answers async s (fst (cmd_get_daq_processor_info s)) (snd (cmd_get_daq_processor_info s))"
    "answers async s (fst (cmd_get_daq_resolution_info s)) (snd (cmd_get_daq_resolution_info s))"
    "answers async s (fst (cmd_get_daq_clock ap s)) (snd (cmd_get_daq_clock ap s))"
    "answers async s (fst (cmd_level_1 cro s)) (snd (cmd_level_1 cro s))"
    "answers async s (fst (cmd_transport_layer s)) (snd (cmd_transport_layer s))"
    "answers async s (fst (cmd_free_daq s)) (snd (cmd_free_daq s))"
  using f by (simp_all add: cmd_synch_def cmd_user_def cmd_get_comm_mode_info_def cmd_get_status_def cmd_disconnect_def
      cmd_set_request_def cmd_set_mta_def XcpFreezeSelectedCalSegs_def
      cmd_get_daq_processor_info_def cmd_get_daq_resolution_info_def cmd_get_daq_clock_def cmd_level_1_def
      cmd_transport_layer_def cmd_free_daq_def Let_def check_len_def answers_def fresh_response_def check_error_def split_beta)

lemma page_answers:
  assumes f: "fresh_response s"
  shows "answers async s (fst (cmd_set_cal_page cro len s)) (snd (cmd_set_cal_page cro len s))"
    "answers async s (fst (cmd_get_cal_page cro len s)) (snd (cmd_get_cal_page cro len s))"
    "answers async s (fst (cmd_copy_cal_page cro s)) (snd (cmd_copy_cal_page cro s))"
    "answers async s (fst (cmd_get_pag_processor_info len s)) (snd (cmd_get_pag_processor_info len s))"
    "answers async s (fst (cmd_set_segment_mode cro len s)) (snd (cmd_set_segment_mode cro len s))"
    "answers async s (fst (cmd_get_segment_mode cro len s)) (snd (cmd_get_segment_mode cro len s))"
    "answers async s (fst (cmd_get_segment_info cro len s)) (snd (cmd_get_segment_info cro len s))"
    "answers async s (fst (cmd_get_page_info cro len s)) (snd (cmd_get_page_info cro len s))"
  using f by (simp_all add: cmd_set_cal_page_def cmd_get_cal_page_def cmd_copy_cal_page_def cmd_get_pag_processor_info_def
      cmd_set_segment_mode_def cmd_get_segment_mode_def cmd_get_segment_info_def cmd_get_page_info_def XcpGetSegInfo_def
      XcpGetSegPageInfo_def Let_def check_len_def answers_def fresh_response_def check_error_def split_beta)

lemma daq_answers:
  assumes f: "fresh_response s"
  shows "answers async s (fst (cmd_alloc_daq cro len s)) (snd (cmd_alloc_daq cro len s))"
    "answers async s (fst (cmd_alloc_odt cro len s)) (snd (cmd_alloc_odt cro len s))"
    "answers async s (fst (cmd_alloc_odt_entry cro len s)) (snd (cmd_alloc_odt_entry cro len s))"
    "answers async s (fst (cmd_get_daq_list_mode cro len s)) (snd (cmd_get_daq_list_mode cro len s))"
    "answers async s (fst (cmd_set_daq_ptr cro len s)) (snd (cmd_set_daq_ptr cro len s))"
    "answers async s (fst (cmd_write_daq cro len s)) (snd (cmd_write_daq cro len s))"
    "answers async s (fst (cmd_start_stop_daq_list cro len s)) (snd (cmd_start_stop_daq_list cro len s))"
  using f by (simp_all add: cmd_alloc_daq_def cmd_alloc_odt_def cmd_alloc_odt_entry_def cmd_get_daq_list_mode_def
      cmd_set_daq_ptr_def cmd_write_daq_def cmd_start_stop_daq_list_def unless_running_def
      Let_def check_len_def answers_def fresh_response_def check_error_def split_beta)

lemma write_entries_reply: "fst (write_daq_entries cro i k s) \<in> range NegativeResponse \<union> {Respond}"
  by (induction cro i k s rule: write_daq_entries.induct) (auto split: prod.split)

lemma multiple_answers:
  assumes f: "fresh_response s"
  shows "answers async s (fst (cmd_write_daq_multiple cro len s)) (snd (cmd_write_daq_multiple cro len s))"
  using f by (simp add: cmd_write_daq_multiple_def unless_running_def Let_def check_len_def answers_def fresh_response_def)

lemma synch_cmd_answers:
  assumes f: "fresh_response s"
  shows "answers async s (fst (cmd_start_stop_synch ap async cro len s)) (snd (cmd_start_stop_synch ap async cro len s))"
proof -
  have p: "crm_packet s = [0xFF]" using f by (simp add: crm_packet_def fresh_response_def mem_get_def)
  have "tl_sent (XcpSendResponse async s) = (if async then tl_sent s else tl_sent s @ [[0xFF]])"
    by (simp add: XcpSendResponse_def p split: option.split prod.split)
  with f show ?thesis
    by (simp add: cmd_start_stop_synch_def Let_def check_len_def answers_def fresh_response_def)
qed

lemma set_mode_answers:
  assumes f: "fresh_response s" and r: "cmd_set_daq_list_mode cro len s = Some (rep, t)"
  shows "answers async s rep t"
proof -
  let ?m = "XcpSetDaqListMode (CRO_WORD cro 1) (CRO_WORD cro 2) (unat (cro 1)) (CRO_BYTE cro 6) (CRO_BYTE cro 7) s"
  consider (refused) e where "(rep, t) = (NegativeResponse e, s)" | (performed) c t' where "?m = Some (c, t')" "(rep, t) = check_error (c, t')"
    using r by (auto simp: cmd_set_daq_list_mode_def Let_def split: if_splits)
  then show ?thesis
  proof cases
    case refused
    then show ?thesis by (simp add: answers_def)
  next
    case performed
    from io_partD [OF set_mode_io [OF performed(1)]] f
    have "answers async s (fst (check_error (c, t'))) (snd (check_error (c, t')))" by (simp add: fresh_response_def)
    then show ?thesis using performed(2) by (metis fst_conv snd_conv)
  qed
qed

lemma download_answers:
  assumes f: "fresh_response s"
  shows "answers async s (fst (cmd_download ap cro len s)) (snd (cmd_download ap cro len s))"
    "answers async s (fst (cmd_upload ap cro len s)) (snd (cmd_upload ap cro len s))"
proof -
  show "answers async s (fst (cmd_download ap cro len s)) (snd (cmd_download ap cro len s))"
    unfolding cmd_download_def Let_def by (rule answers_len) (use f in \<open>simp add: push_busy_answers fresh_response_def\<close>)
  show "answers async s (fst (cmd_upload ap cro len s)) (snd (cmd_upload ap cro len s))"
    unfolding cmd_upload_def Let_def by (rule answers_len) (simp add: push_busy_answers upload_answers [OF f])
qed

text \<open>The commands with an address of their own set the MTA first.\<close>

lemma mta_unless_io: "set_mta_unless ap async cro s = (e, t) \<Longrightarrow> io_part t = io_part s"
proof -
  have "io_part (snd (set_mta_unless ap async cro s)) = io_part s" by (simp add: set_mta_unless_def)
  then show "set_mta_unless ap async cro s = (e, t) \<Longrightarrow> io_part t = io_part s" by (simp only: snd_conv)
qed

lemma answers_from: "io_part t = io_part s \<Longrightarrow> answers async t rep u = answers async s rep u"
  using io_partD [of t s] by (simp add: answers_def)

lemma short_answers:
  assumes f: "fresh_response s"
  shows "answers async s (fst (cmd_short_download ap async cro len s)) (snd (cmd_short_download ap async cro len s))"
    "answers async s (fst (cmd_short_upload ap async cro len s)) (snd (cmd_short_upload ap async cro len s))"
proof -
  obtain e t where e: "set_mta_unless ap async cro s = (e, t)" by fastforce
  note io = mta_unless_io [OF e]
  have ft: "fresh_response t" using f io_partD [OF io] by (simp add: fresh_response_def)
  define k where "k = (if e \<noteq> 0 then (NegativeResponse e, t) else if XcpAddrIsDyn (mta_ext t) then push_or_busy cro len t
    else check_error (XcpWriteMta ap (mem_get 8 (CRO_BYTE cro 1) cro) t))"
  have "answers async t (fst k) (snd k)"
    using ft by (simp add: k_def push_busy_answers fresh_response_def)
  then have k: "answers async s (fst k) (snd k)" unfolding answers_from [OF io] .
  have "cmd_short_download ap async cro len s = check_len 8 len (if 240 < CRO_BYTE cro 1 \<or> len - 8 < CRO_BYTE cro 1
      then (NegativeResponse CRC_CMD_SYNTAX, s) else k) s"
    by (simp add: cmd_short_download_def Let_def e k_def)
  then show "answers async s (fst (cmd_short_download ap async cro len s)) (snd (cmd_short_download ap async cro len s))"
    by (simp only:) (rule answers_len, simp add: k)
  define h where "h = (if e \<noteq> 0 then (NegativeResponse e, t) else if XcpAddrIsDyn (mta_ext t) then push_or_busy cro len t
    else upload_response ap (CRO_BYTE cro 1) t)"
  have "CRO_BYTE cro 1 \<le> 247 \<Longrightarrow> answers async t (fst h) (snd h)"
    by (simp add: h_def push_busy_answers upload_answers [OF ft])
  then have h: "CRO_BYTE cro 1 \<le> 247 \<Longrightarrow> answers async s (fst h) (snd h)" unfolding answers_from [OF io] .
  have "cmd_short_upload ap async cro len s = check_len 8 len (if 247 < CRO_BYTE cro 1
      then (NegativeResponse CRC_OUT_OF_RANGE, s) else h) s"
    by (simp add: cmd_short_upload_def Let_def e h_def)
  then show "answers async s (fst (cmd_short_upload ap async cro len s)) (snd (cmd_short_upload ap async cro len s))"
    by (simp only:) (rule answers_len, simp add: h)
qed


lemma id_length: "fst (ApplXcpGetId ap i (Some 240) s) \<le> 239"
  by (auto simp: ApplXcpGetId_def id_in_buffer_def Let_def split: prod.split option.split)

lemma id_answers:
  assumes f: "fresh_response s"
  shows "answers async s (fst (cmd_get_id ap cro len s)) (snd (cmd_get_id ap cro len s))"
proof -
  define i s1 where "i = CRO_BYTE cro 1" and "s1 = CRM_DWORD 1 0 (CRM_LEN 8 s)"
  obtain l d t where e: "ApplXcpGetId ap i (Some 240) s1 = (l, d, t)" by (metis prod_cases3)
  have io: "io_part t = io_part s1" using service_io(4) [of ap i "Some 240" s1] e by simp
  have l: "l \<le> 239" using id_length [of ap i s1] e by simp
  have c: "crm s1 0 = 0xFF" "tl_sent s1 = tl_sent s" "crm_len s1 = 8" using f by (simp_all add: s1_def fresh_response_def)
  then have t: "crm t 0 = 0xFF" "tl_sent t = tl_sent s" using io_partD [OF io] by simp_all
  show ?thesis unfolding cmd_get_id_def Let_def i_def [symmetric] s1_def [symmetric]
    by (rule answers_len) (use c l t in \<open>simp add: e answers_def split_beta\<close>)
qed

lemma event_answers:
  assumes f: "fresh_response s"
  shows "answers async s (fst (cmd_get_daq_event_info cro len s)) (snd (cmd_get_daq_event_info cro len s))"
  using f by (auto simp: cmd_get_daq_event_info_def Let_def check_len_def answers_def fresh_response_def
      split: option.split prod.split)

lemma time_answers:
  assumes f: "fresh_response s"
  shows "answers async s (fst (cmd_time_correlation_properties ap cro len s)) (snd (cmd_time_correlation_properties ap cro len s))"
  using f by (simp add: cmd_time_correlation_properties_def Let_def check_len_def answers_def fresh_response_def split_beta)

lemma checksum_answers:
  assumes f: "fresh_response s"
  shows "answers async s (fst (cmd_build_checksum ap cro len s)) (snd (cmd_build_checksum ap cro len s))"
proof -
  obtain r t where e: "calcChecksum ap (CRO_DWORD cro 1) s = (r, t)" by fastforce
  then have "io_part t = io_part s" using checksum_io [of ap "CRO_DWORD cro 1" "0xFFFF" s] by (simp add: calcChecksum_def)
  from io_partD [OF this] f have t: "crm t 0 = 0xFF" "tl_sent t = tl_sent s" by (simp_all add: fresh_response_def)
  show ?thesis unfolding cmd_build_checksum_def e
    by (rule answers_len) (use t in \<open>simp add: answers_def XcpPushCommand_def split: sum.split\<close>)
qed

lemma connect_answers:
  assumes f: "fresh_response s"
  shows "answers async s (fst (cmd_connect ap cro s)) (snd (cmd_connect ap cro s))"
proof -
  obtain b t where e: "ApplXcpConnect ap (CRO_BYTE cro 1) s = (b, t)" by fastforce
  then have "io_part t = io_part s" using service_io(8) [of ap "CRO_BYTE cro 1" s] by simp
  from io_partD [OF this] f e show ?thesis
    by (cases b) (simp_all add: cmd_connect_def Let_def answers_def fresh_response_def)
qed

lemma switch_answers:
  assumes f: "fresh_response s"
  shows "if_returns (answers async s) (switch_command ap async cro len s)"
proof -
  have mode: "if_returns (answers async s) (cmd_set_daq_list_mode cro len s)"
    unfolding if_returns_def using set_mode_answers [OF f] by blast
  have nop: "answers async s NoResponse s" by (simp add: answers_def)
  show ?thesis unfolding switch_command_def Let_def
    by (intro if_returns_if) (simp_all add: mode nop simple_answers [OF f] page_answers [OF f] daq_answers [OF f] multiple_answers [OF f]
      synch_cmd_answers [OF f] download_answers [OF f] short_answers [OF f] id_answers [OF f] event_answers [OF f] time_answers [OF f]
      checksum_answers [OF f])
qed

section \<open>What the client gets\<close>

text \<open>A well-formed response: positive, or an error code of two bytes.\<close>

definition response_ok :: "u8 list \<Rightarrow> bool" where
  "response_ok p \<longleftrightarrow> p \<noteq> [] \<and> length p \<le> XCPTL_MAX_CTO_SIZE \<and> hd p \<in> {0xFF, 0xFE}"

lemma crm_packet_ok: "crm t 0 \<in> {0xFF, 0xFE} \<Longrightarrow> 1 \<le> crm_len t \<Longrightarrow> crm_len t \<le> XCPTL_MAX_CTO_SIZE \<Longrightarrow> response_ok (crm_packet t)"
  by (auto simp: response_ok_def crm_packet_def mem_get_def hd_map)

theorem command_response:
  shows "if_returns (\<lambda>r t. \<exists>ps. tl_sent t = tl_sent s @ ps \<and> length ps \<le> 1 \<and> (\<forall>p \<in> set ps. response_ok p)
      \<and> (r \<notin> {CRC_CMD_OK, CRC_CMD_IGNORED} \<longrightarrow> ps = [[0xFE, of_nat r]]))
    (XcpCommand ap cro len s)"
proof -
  define s1 where "s1 = CRM_LEN 1 (CRM_BYTE 0 PID_RES s)"
  have f: "fresh_response s1" and t1: "tl_sent s1 = tl_sent s" by (simp_all add: s1_def fresh_response_def)
  have ign: "answers False s1 Ignored s1" by (simp add: answers_def)
  have r: "if_returns (answers False s1) (run_command ap False cro len s)"
    unfolding run_command_def Let_def s1_def [symmetric]
    by (intro if_returns_if) (simp_all add: connect_answers [OF f] switch_answers [OF f] ign)
  have send: "tl_sent (XcpSendResponse False u) = tl_sent u @ [crm_packet u]" for u :: "'a xcp_scheme"
    by (simp add: XcpSendResponse_def)
  have err: "crm_packet (CRM_BYTE 1 c (CRM_BYTE 0 PID_ERR (CRM_LEN 2 u))) = [0xFE, of_nat c]" for c and u :: "'a xcp_scheme"
    by (simp add: crm_packet_def mem_get_def CRM_BYTE_def CRM_LEN_def upt_rec)
  note err = err [unfolded One_nat_def]
  have errok: "response_ok [0xFE, w]" "response_ok [0xFF]" for w by (simp_all add: response_ok_def)
  show ?thesis
    unfolding XcpCommand_def XcpAsyncCommand_def if_returns_map
  proof (rule if_returns_mono [OF r])
    fix rep t assume a: "answers False s1 rep t"
    show "\<exists>ps. tl_sent (snd (finish_command False (rep, t))) = tl_sent s @ ps \<and> length ps \<le> 1 \<and> (\<forall>p \<in> set ps. response_ok p)
      \<and> (fst (finish_command False (rep, t)) \<notin> {CRC_CMD_OK, CRC_CMD_IGNORED} \<longrightarrow> ps = [[0xFE, of_nat (fst (finish_command False (rep, t)))]])"
    proof (cases rep)
      case Respond
      with a have "tl_sent t = tl_sent s" "response_ok (crm_packet t)" by (simp_all add: answers_def t1 crm_packet_ok)
      then show ?thesis using Respond by (simp add: finish_command_def send)
    next
      case (NegativeResponse c)
      then show ?thesis using a by (cases "c = CRC_CMD_OK \<or> c = CRC_CMD_IGNORED")
        (auto simp: finish_command_def send err t1 errok)
    next
      case BusyResponse
      then show ?thesis using a by (auto simp: answers_def finish_command_def send err t1 errok)
    next
      case NoResponse
      then show ?thesis using a errok by (auto simp: answers_def finish_command_def t1)
    next
      case Ignored
      then show ?thesis using a by (simp add: answers_def finish_command_def t1)
    qed
  qed
qed

end
