(* ===== verification/Xcp_Pending.thy ===== *)
theory Xcp_Pending
  imports Xcp_Response
begin

text \<open>
  The pending command: only memory transfer commands are ever queued for an event, so that the command that
  an event executes in the application's thread cannot be one of the allocation commands. The event processor
  then keeps the invariant of the library and returns.
\<close>

section \<open>Which commands become pending\<close>

definition memory_command :: "nat \<Rightarrow> bool" where
  "memory_command c \<longleftrightarrow> c \<in> {0xF0, 0xED, 0xF5, 0xF4, 0xF3}"

definition pending_ok :: "'a xcp_scheme \<Rightarrow> bool" where
  "pending_ok s \<longleftrightarrow> (cmd_pending s \<longrightarrow> memory_command (CRO_BYTE (cmd_pending_crm s) 0))"

definition pend_part :: "'a xcp_scheme \<Rightarrow> bool \<times> bytes" where
  "pend_part s = (cmd_pending s, cmd_pending_crm s)"

lemma pend_part_ok: "pend_part t = pend_part s \<Longrightarrow> pending_ok t = pending_ok s"
  by (simp add: pend_part_def pending_ok_def)

lemma io_pend: "io_part t = io_part s \<Longrightarrow> pend_part t = pend_part s"
  by (simp add: io_part_def pend_part_def)

lemma CRM_pend [simp]:
  "pend_part (CRM_BYTE k v s) = pend_part s" "pend_part (CRM_WORD k v s) = pend_part s"
  "pend_part (CRM_DWORD k v s) = pend_part s" "pend_part (CRM_DATA k d s) = pend_part s" "pend_part (CRM_LEN n s) = pend_part s"
  by (simp_all add: pend_part_def CRM_BYTE_def CRM_WORD_def CRM_DWORD_def CRM_DATA_def CRM_LEN_def)

lemmas pend_sel [simp] = update_io [THEN io_pend] daq_io [THEN io_pend] cal_io [THEN io_pend] service_io [THEN io_pend]
  mta_io [THEN io_pend] checksum_io [THEN io_pend] freeze_io [THEN io_pend] disconnect_io [THEN io_pend]

lemma send_pend [simp]: "pend_part (XcpSendResponse async s) = pend_part s"
  by (auto simp: XcpSendResponse_def pend_part_def split: option.split prod.split)

lemma set_mode_pend: "cmd_set_daq_list_mode cro len s = Some (r, t) \<Longrightarrow> pend_part t = pend_part s"
  by (auto simp: cmd_set_daq_list_mode_def Let_def check_error_def split: if_splits prod.splits
      dest!: io_pend [OF set_mode_io])

lemma connect_pend: "pend_part (snd (cmd_connect ap cro s)) = pend_part s"
proof -
  obtain b t where e: "ApplXcpConnect ap (CRO_BYTE cro 1) s = (b, t)" by fastforce
  then have "pend_part t = pend_part s" using pend_sel by (metis service_io(8) io_pend snd_conv)
  then show ?thesis using e by (cases b) (simp_all add: cmd_connect_def Let_def)
qed

text \<open>What a command leaves pending: what was pending before, or itself.\<close>

definition pends :: "bytes \<Rightarrow> 'a xcp_scheme \<Rightarrow> 'a xcp_scheme \<Rightarrow> bool" where
  "pends cro s t \<longleftrightarrow> pend_part t = pend_part s \<or> memory_command (CRO_BYTE cro 0) \<and> CRO_BYTE (cmd_pending_crm t) 0 = CRO_BYTE cro 0"

lemma pends_same: "pend_part t = pend_part s \<Longrightarrow> pends cro s t"
  by (simp add: pends_def)

lemma push_pends: "memory_command (CRO_BYTE cro 0) \<Longrightarrow> 0 < len \<Longrightarrow> pends cro s (snd (XcpPushCommand cro len s))"
  by (simp add: XcpPushCommand_def pends_def CRO_BYTE_def mem_set_def mem_get_def)

lemma push_busy_pends: "memory_command (CRO_BYTE cro 0) \<Longrightarrow> 0 < len \<Longrightarrow> pends cro s (snd (push_or_busy cro len s))"
  using push_pends [of cro len s] by (simp add: push_or_busy_def split_beta)

lemma pends_from: "pend_part t = pend_part s \<Longrightarrow> pends cro t u = pends cro s u"
  by (simp add: pends_def)

lemma upload_pend: "pend_part (snd (upload_response ap n s)) = pend_part s"
proof -
  obtain r t where e: "XcpReadMta ap n s = (r, t)" by fastforce
  then have "pend_part t = pend_part s" using io_pend [OF mta_io(1)] by (metis snd_conv)
  with e show ?thesis by (cases r) (simp_all add: upload_response_def)
qed

lemma memory_pends:
  assumes m: "memory_command (CRO_BYTE cro 0)"
  shows "pends cro s (snd (cmd_download ap cro len s))" "pends cro s (snd (cmd_upload ap cro len s))"
    "pends cro s (snd (cmd_short_download ap async cro len s))" "pends cro s (snd (cmd_short_upload ap async cro len s))"
    "pends cro s (snd (cmd_build_checksum ap cro len s))"
proof -
  show "pends cro s (snd (cmd_download ap cro len s))"
    using push_busy_pends [OF m, of len s] by (auto simp: cmd_download_def Let_def pends_same)
  show "pends cro s (snd (cmd_upload ap cro len s))"
    using push_busy_pends [OF m, of len s] by (auto simp: cmd_upload_def Let_def pends_same upload_pend)
  obtain e t where e: "set_mta_unless ap async cro s = (e, t)" by fastforce
  note t = io_pend [OF mta_unless_io [OF e]]
  show "pends cro s (snd (cmd_short_download ap async cro len s))"
    using push_busy_pends [OF m, of len t] t e
    by (auto simp: cmd_short_download_def Let_def pends_from [OF t, symmetric] pends_same)
  show "pends cro s (snd (cmd_short_upload ap async cro len s))"
    using push_busy_pends [OF m, of len t] t e
    by (auto simp: cmd_short_upload_def Let_def pends_from [OF t, symmetric] pends_same upload_pend)
  obtain r u where c: "calcChecksum ap (CRO_DWORD cro 1) s = (r, u)" by fastforce
  then have "pend_part u = pend_part s" using io_pend [OF checksum_io] by (metis calcChecksum_def snd_conv)
  then show "pends cro s (snd (cmd_build_checksum ap cro len s))"
    using push_pends [OF m, of len s] unfolding cmd_build_checksum_def c by (auto simp: pends_same split: sum.split)
qed

lemma plain_pend:
  "pend_part (snd (cmd_synch s)) = pend_part s" "pend_part (snd (cmd_get_comm_mode_info s)) = pend_part s"
  "pend_part (snd (cmd_get_status s)) = pend_part s" "pend_part (snd (cmd_user ap cro len s)) = pend_part s"
  "pend_part (snd (cmd_set_request cro len s)) = pend_part s" "pend_part (snd (cmd_set_mta ap cro len s)) = pend_part s"
  "pend_part (snd (cmd_disconnect ap s)) = pend_part s"
  "pend_part (snd (cmd_set_cal_page cro len s)) = pend_part s" "pend_part (snd (cmd_get_cal_page cro len s)) = pend_part s"
  "pend_part (snd (cmd_copy_cal_page cro s)) = pend_part s" "pend_part (snd (cmd_get_pag_processor_info len s)) = pend_part s"
  "pend_part (snd (cmd_set_segment_mode cro len s)) = pend_part s"
  "pend_part (snd (cmd_get_segment_mode cro len s)) = pend_part s"
  "pend_part (snd (cmd_get_segment_info cro len s)) = pend_part s"
  "pend_part (snd (cmd_get_page_info cro len s)) = pend_part s"
  "pend_part (snd (cmd_get_daq_processor_info s)) = pend_part s"
  "pend_part (snd (cmd_get_daq_resolution_info s)) = pend_part s"
  "pend_part (snd (cmd_get_daq_list_mode cro len s)) = pend_part s"
  "pend_part (snd (cmd_transport_layer s)) = pend_part s" "pend_part (snd (cmd_get_daq_clock ap s)) = pend_part s"
  "pend_part (snd (cmd_level_1 cro s)) = pend_part s"
  by (simp_all add: cmd_synch_def cmd_get_comm_mode_info_def cmd_get_status_def cmd_user_def cmd_set_request_def
      cmd_set_mta_def cmd_set_cal_page_def cmd_get_cal_page_def cmd_copy_cal_page_def cmd_disconnect_def
      cmd_get_segment_info_def cmd_get_page_info_def XcpGetSegInfo_def XcpGetSegPageInfo_def XcpFreezeSelectedCalSegs_def
      cmd_get_pag_processor_info_def cmd_set_segment_mode_def cmd_get_segment_mode_def cmd_get_daq_processor_info_def
      cmd_get_daq_resolution_info_def cmd_get_daq_list_mode_def cmd_transport_layer_def cmd_get_daq_clock_def
      cmd_level_1_def Let_def)

lemma daq_pend:
  "pend_part (snd (cmd_free_daq s)) = pend_part s" "pend_part (snd (cmd_alloc_daq cro len s)) = pend_part s"
  "pend_part (snd (cmd_alloc_odt cro len s)) = pend_part s" "pend_part (snd (cmd_alloc_odt_entry cro len s)) = pend_part s"
  "pend_part (snd (cmd_set_daq_ptr cro len s)) = pend_part s" "pend_part (snd (cmd_write_daq cro len s)) = pend_part s"
  "pend_part (snd (cmd_write_daq_multiple cro len s)) = pend_part s"
  "pend_part (snd (cmd_start_stop_daq_list cro len s)) = pend_part s"
  "pend_part (snd (cmd_start_stop_synch ap async cro len s)) = pend_part s"
  "pend_part (snd (cmd_get_id ap cro len s)) = pend_part s"
  "pend_part (snd (cmd_time_correlation_properties ap cro len s)) = pend_part s"
  "pend_part (snd (cmd_get_daq_event_info cro len s)) = pend_part s"
  by (auto simp: cmd_free_daq_def cmd_alloc_daq_def cmd_alloc_odt_def cmd_alloc_odt_entry_def cmd_set_daq_ptr_def
      cmd_write_daq_def cmd_write_daq_multiple_def cmd_start_stop_daq_list_def cmd_start_stop_synch_def
      cmd_get_id_def cmd_time_correlation_properties_def cmd_get_daq_event_info_def Let_def split_beta
      split: option.split prod.split)

lemma switch_pends: "if_returns (\<lambda>_ t. pends cro s t) (switch_command ap async cro len s)"
proof -
  have mode: "if_returns (\<lambda>_ t. pends cro s t) (cmd_set_daq_list_mode cro len s)"
    unfolding if_returns_def using pends_same [OF set_mode_pend] by blast
  show ?thesis unfolding switch_command_def Let_def
    by (intro if_returns_if) (simp_all add: mode pends_same plain_pend daq_pend memory_pends memory_command_def)
qed

theorem command_pending:
  assumes "pending_ok s"
  shows "if_returns (\<lambda>_ t. pending_ok t) (XcpAsyncCommand ap async cro len s)"
proof -
  define s1 where "s1 = CRM_LEN 1 (CRM_BYTE 0 PID_RES s)"
  have s1: "pend_part s1 = pend_part s" by (simp add: s1_def)
  have "if_returns (\<lambda>_ t. pends cro s1 t) (run_command ap async cro len s)"
    unfolding run_command_def Let_def s1_def [symmetric]
    by (intro if_returns_if) (simp_all add: switch_pends pends_same connect_pend)
  moreover have "pending_ok t" if "pends cro s1 t" for t
    using that assms s1 by (auto simp: pends_def pend_part_def pending_ok_def)
  moreover have "pend_part (snd (finish_command async r)) = pend_part (snd r)" for r :: "reply \<times> 'a xcp_scheme"
    by (auto simp: finish_command_def split: prod.split reply.split)
  ultimately show ?thesis unfolding XcpAsyncCommand_def if_returns_map
    by (auto simp: if_returns_def) (metis pend_part_ok snd_conv)
qed

end
