(* ===== verification/Xcp_System.thy ===== *)
theory Xcp_System
  imports Xcp_Pending
begin

text \<open>
  The library as a whole: one step relation over the commands of the client, the events of the application's
  threads (with the pending command that they execute), the creation of events, segments and blocks, the
  readers of the segments, the transmit thread, the background task and the disconnect. Operations are atomic
  here; the interleavings inside the transmit queue are the subject of \<^verbatim>\<open>Queue64v_Conc\<close>. The invariant of
  the library holds in every reachable state.
\<close>

section \<open>Operations outside the command processor\<close>

lemma sys_inv_segs:
  assumes s: "sys_inv s" and d: "daq_inv t" "ev_part t = ev_part s" and l: "cal_list t = cal_list s"
    and P: "\<And>P. seg_contract P P \<Longrightarrow> all_segs P s \<Longrightarrow> all_segs P t" and ok: "all_segs seg_ok t"
  shows "sys_inv t"
proof -
  note inv = sys_invD [OF s]
  define sz where "sz p = seg_bytes (cal_pool s p)" for p
  have "all_segs (\<lambda>p c. seg_bytes c = sz p) s" by (simp add: all_segs_def sz_def)
  from P [OF sizes.seg_contract_axioms this] have z: "all_segs (\<lambda>p c. seg_bytes c = sz p) t" .
  have n: "XcpGetCalSegCount t = XcpGetCalSegCount s" "calseg_offset t = calseg_offset s" "cal_mem_used t = cal_mem_used s"
    "isActivated t" using l inv(1) by (simp_all add: cal_list_def XcpGetCalSegCount_def)
  have "seg_bytes (CalSegPtr t i) = seg_bytes (CalSegPtr s i)" if "i < XcpGetCalSegCount s" for i
    using all_segsD [OF z, of i] that n by (simp add: sz_def CalSegPtr_def)
  then have "pool_ok t" using inv(5) n by (simp add: pool_ok_def)
  then show ?thesis using d ok n(4) inv(3) ev_part_wf [OF d(2)] by (intro sys_invI) simp_all
qed

lemma reader_inv: "sys_inv s \<Longrightarrow> sys_inv (run_reader op s)"
proof -
  assume s: "sys_inv s"
  have f: "cal_frame s (run_reader op s)" by (simp add: cal_frame_reader)
  show ?thesis
  proof (rule sys_inv_segs [OF s])
    show "daq_inv (run_reader op s)" using daq_part_inv [OF cal_frameD(1) [OF f]] sys_invD(2) [OF s] by simp
    show "ev_part (run_reader op s) = ev_part s" by (rule daq_part_ev [OF cal_frameD(1) [OF f]])
    show "cal_list (run_reader op s) = cal_list s" by (rule cal_frame_list [OF f])
    show "all_segs seg_ok (run_reader op s)" by (rule ok.P_reader [OF sys_invD(4) [OF s]])
    show "all_segs P (run_reader op s)" if "seg_contract P P" "all_segs P s" for P
      using that seg_contract.axioms(1) publish_contract.P_reader by blast
  qed
qed

lemma background_inv: "sys_inv s \<Longrightarrow> sys_inv (XcpBackgroundTasks s)"
proof -
  assume s: "sys_inv s"
  define t where "t = snd (XcpCalSegPublishAll (\<lambda>_ _. []) False s)"
  have f: "cal_frame s t" by (simp add: t_def)
  have "sys_inv t"
  proof (rule sys_inv_segs [OF s])
    show "daq_inv t" using daq_part_inv [OF cal_frameD(1) [OF f]] sys_invD(2) [OF s] by simp
    show "ev_part t = ev_part s" by (rule daq_part_ev [OF cal_frameD(1) [OF f]])
    show "cal_list t = cal_list s" by (rule cal_frame_list [OF f])
    show "all_segs seg_ok t" unfolding t_def by (rule ok.publish_all_inv [OF sys_invD(4) [OF s]])
    show "all_segs P t" if "seg_contract P P" "all_segs P s" for P
      unfolding t_def using that seg_contract.axioms(1) publish_contract.publish_all_inv by blast
  qed
  then show ?thesis using s by (simp add: XcpBackgroundTasks_def t_def)
qed

lemma disconnect_sys: "sys_inv s \<Longrightarrow> sys_inv (XcpDisconnect ap s)"
proof (rule sys_inv_segs)
  assume s: "sys_inv s"
  show "daq_inv (XcpDisconnect ap s)" by (rule disconnect_inv [OF sys_invD(2) [OF s]])
  show "all_segs seg_ok (XcpDisconnect ap s)" by (rule ok.disconnect_segs [OF sys_invD(4) [OF s]])
  show "all_segs P (XcpDisconnect ap s)" if "seg_contract P P" "all_segs P s" for P
    using that seg_contract.disconnect_segs by blast
qed (simp_all add: disconnect_list)

lemma freeze_sys: "sys_inv s \<Longrightarrow> sys_inv (snd (XcpFreezeSelectedCalSegs all s))"
proof (rule sys_inv_segs)
  assume s: "sys_inv s"
  let ?t = "snd (XcpFreezeSelectedCalSegs all s)"
  show "daq_inv ?t" using daq_part_inv [OF freeze_all_daq] sys_invD(2) [OF s] by blast
  show "ev_part ?t = ev_part s" by (rule daq_part_ev) simp
  show "cal_list ?t = cal_list s" by (simp add: XcpFreezeSelectedCalSegs_def freeze_list)
  show "all_segs seg_ok ?t" unfolding XcpFreezeSelectedCalSegs_def by (rule ok.freeze_segs [OF sys_invD(4) [OF s]])
  show "all_segs P ?t" if "seg_contract P P" "all_segs P s" for P
    unfolding XcpFreezeSelectedCalSegs_def using that seg_contract.freeze_segs by blast
qed

lemma queue_inv: "sys_inv (s\<lparr>xcp_queue := q\<rparr>) = sys_inv s"
  using sys_inv_same [of s "s\<lparr>xcp_queue := q\<rparr>"] sys_inv_same [of "s\<lparr>xcp_queue := q\<rparr>" s] by simp blast

section \<open>Events and segments of the application\<close>

lemma new_event_inv:
  assumes inv: "daq_inv s" and n: "event_count s < XCP_MAX_EVENT_COUNT" and t: "t = s\<lparr>event := (event s)(event_count s := x), event_count := event_count s + 1\<rparr>"
    and x: "daq_first x = XCP_UNDEFINED_DAQ_LIST"
  shows "daq_inv t"
proof -
  note d = daq_invD [OF inv]
  have eq: "daq_mem t = daq_mem s" "daq_count t = daq_count s" "odt_count t = odt_count s" "odt_entry_count t = odt_entry_count s"
    "write_daq_daq t = write_daq_daq s" "write_daq_odt t = write_daq_odt s" "write_daq_odt_entry t = write_daq_odt_entry s"
    by (simp_all add: t)
  note tab = daq_tables_cong [OF eq(1-4)] and acc = daq_acc_cong [OF eq(1-4)]
  have fld: "DaqListNext t = DaqListNext s" "DaqListEventChannel t = DaqListEventChannel s"
    by (simp_all add: fun_eq_iff list_fields acc)
  obtain ch where ch: "chains_by ch s" using d(5) by (auto simp: chains_ok_def)
  have chain: "daq_chain t a xs = daq_chain s a xs" for a xs by (rule daq_chain_cong) (simp add: fld)
  have old: "(\<forall>e < Suc (event_count s). i \<notin> set ((ch(event_count s := [])) e)) \<longleftrightarrow> (\<forall>e < event_count s. i \<notin> set (ch e))" for i
    by (auto simp: less_Suc_eq)
  have "chains_by (ch(event_count s := [])) t"
    using ch unfolding chains_by_def chain fld eq old by (auto simp: t DaqListFirst_def x less_Suc_eq old)
  then have "chains_ok t" by (rule chains_ok_by)
  moreover have "cursor_ok t" using d(6) by (simp add: cursor_ok_def eq list_fields odt_fields acc)
  ultimately show ?thesis using d tab n by (intro daq_invI) (simp_all add: eq t)
qed

lemma create_indexed_inv:
  assumes s: "sys_inv s" and wf: "events_wf (snd (XcpCreateIndexedEvent name index cycle prio s))"
  shows "sys_inv (snd (XcpCreateIndexedEvent name index cycle prio s))"
proof (cases "isActivated s \<and> length name \<le> XCP_MAX_EVENT_NAME \<and> event_count s < XCP_MAX_EVENT_COUNT")
  case True
  note inv = sys_invD [OF s]
  let ?t = "snd (XcpCreateIndexedEvent name index cycle prio s)"
  have e: "XcpCreateIndexedEvent name index cycle prio s =
    (event_count s, s\<lparr>event := (event s)(event_count s := \<lparr>cycle_time_ns = cycle, ev_index = index,
       daq_first = XCP_UNDEFINED_DAQ_LIST,
       ev_flags = (if 0 < prio then XCP_DAQ_EVENT_FLAG_PRIORITY else 0), ev_name = name\<rparr>),
       event_count := event_count s + 1\<rparr>)"
    using True by (intro XcpCreateIndexedEvent_Some) simp_all
  have "cal_part ?t = cal_part s" by (simp add: e cal_part_def isActivated_def)
  moreover have "daq_inv ?t" by (rule new_event_inv [OF inv(2) _ _ tXcpEvent.select_convs(3)]) (use True in \<open>simp_all add: e\<close>)
  ultimately show ?thesis using inv wf cal_part_all cal_part_pool [of ?t s]
    by (intro sys_invI) (auto simp: cal_part_def intro: cal_part_all [of ?t s])
next
  case False
  then show ?thesis using s XcpCreateIndexedEvent_None [OF False] by simp
qed

lemma create_event_inv:
  assumes "sys_inv s"
  shows "sys_inv (snd (XcpCreateEvent name cycle prio s))" "sys_inv (snd (XcpCreateEventInstance name cycle prio s))"
proof -
  note wf = sys_invD(3) [OF assms]
  show "sys_inv (snd (XcpCreateEvent name cycle prio s))"
    using XcpCreateEvent_wf [OF wf, of name cycle prio] assms create_indexed_inv [OF assms]
    by (auto simp: XcpCreateEvent_def Let_def split: if_splits)
  show "sys_inv (snd (XcpCreateEventInstance name cycle prio s))"
    using XcpCreateEventInstance_wf [OF wf, of name cycle prio] assms create_indexed_inv [OF assms]
    by (auto simp: XcpCreateEventInstance_def split: if_splits)
qed

lemma enable_inv: "sys_inv s \<Longrightarrow> sys_inv (XcpEventEnable e b s)"
proof -
  assume s: "sys_inv s"
  let ?t = "XcpEventEnable e b s"
  have "daq_inv ?t = daq_inv s" by (rule daq_inv_cong) (simp_all add: XcpEventEnable_def)
  moreover have "cal_part ?t = cal_part s" by (simp add: XcpEventEnable_def cal_part_def isActivated_def)
  moreover have "ev_part ?t = ev_part s" by (simp add: ev_part_def XcpEventEnable_frame fun_eq_iff)
  ultimately show ?thesis using sys_inv_parts [OF s] sys_invD(2) [OF s] by blast
qed

definition create_frame :: "'a xcp_cal_scheme \<Rightarrow> 'a xcp_cal_scheme \<Rightarrow> bool" where
  "create_frame s t \<longleftrightarrow> daq_part t = daq_part s \<and> xcp_cal.more t = xcp_cal.more s"

lemma create_frame_parts:
  "create_frame s (snd (XcpCalMemAlloc n s))" "create_frame s (snd (XcpInitCalSeg off name src n ms s))"
  "create_frame s (snd (XcpRegisterCalSeg off s))" "create_frame s (snd (finish_calseg n i s))"
  by (simp_all add: create_frame_def daq_part_def XcpCalMemAlloc_def XcpInitCalSeg_def XcpRegisterCalSeg_def finish_calseg_def
      upd_calseg_def Let_def split: option.split)

lemma create_impl_frame:
  assumes "XcpCreateCalSeg_impl name lookup src n ms s = Some (i, t)" shows "create_frame s t"
proof -
  have tr: "create_frame s u \<Longrightarrow> create_frame u v \<Longrightarrow> create_frame s v" for u v by (simp add: create_frame_def)
  define i0 where "i0 = (if lookup then XcpFindCalSeg name s else XCP_UNDEFINED_CALSEG)"
  obtain a s1 where al: "XcpCalMemAlloc (XCP_CALSEG_HEADER_SIZE + CALSEG_PAGE_COUNT * aligned_page_size n) s = (a, s1)" by fastforce
  show ?thesis
  proof (cases "i0 = XCP_UNDEFINED_CALSEG")
    case False
    then have "finish_calseg n i0 s = (i, t)" using assms by (simp add: XcpCreateCalSeg_impl_def i0_def [symmetric] Let_def)
    then show ?thesis using create_frame_parts(4) [of s n i0] by simp
  next
    case True
    obtain off where off: "a = Some off" using assms True al
      by (cases a) (simp_all add: XcpCreateCalSeg_impl_def i0_def [symmetric] Let_def)
    obtain b s2 where ini: "XcpInitCalSeg off name src n ms s1 = (b, s2)" by fastforce
    obtain r s3 where reg: "XcpRegisterCalSeg off s2 = (r, s3)" by fastforce
    obtain k s4 where fin: "finish_calseg n r s3 = (k, s4)" by fastforce
    have f2: "create_frame s s2" using create_frame_parts(1) [of s] create_frame_parts(2) [of s1] al ini tr by (metis snd_conv)
    have f3: "create_frame s s3" using f2 create_frame_parts(3) [of s2 off] reg tr by (metis snd_conv)
    have f4: "create_frame s s4" using f3 create_frame_parts(4) [of s3 n r] fin tr by (metis snd_conv)
    have "t \<in> {s2, s3, s4}" using assms True al off ini reg fin
      by (simp add: XcpCreateCalSeg_impl_def i0_def [symmetric] Let_def split: bool.splits if_splits)
    with f2 f3 f4 show ?thesis by blast
  qed
qed

lemma create_seg_inv:
  assumes s: "sys_inv s" and n: "0 < n" "n \<le> 65528" and src: "caller_page n src"
    and c: "XcpCreateCalSeg name src n s = Some (i, t) \<or> XcpCreateCalBlk name src n s = Some (i, t)"
  shows "sys_inv t"
proof -
  note inv = sys_invD [OF s]
  obtain ms where c: "XcpCreateCalSeg_impl name True src n ms s = Some (i, t)"
    using c inv(1) by (auto simp: XcpCreateCalSeg_def XcpCreateCalBlk_def)
  have f: "daq_part t = daq_part s" using create_impl_frame [OF c] by (simp add: create_frame_def)
  note r = create_result [OF inv(1,4,5) n src c]
  show ?thesis using r inv daq_part_inv [OF f] ev_part_wf [OF daq_part_ev [OF f]] by (intro sys_invI) simp_all
qed

section \<open>Events\<close>

lemma alloc_memory: "memory_command (CRO_BYTE cro 0) \<Longrightarrow> alloc_in_order cro s"
  by (auto simp: memory_command_def alloc_in_order_def)

lemma trigger_lists_total:
  assumes "daq_chain s d xs"
  shows "\<exists>q'. trigger_lists f s d q = Some q'"
  using assms
proof (induction xs arbitrary: d q)
  case Nil
  then show ?case by (subst trigger_lists.simps) simp
next
  case (Cons x xs)
  then show ?case by (subst trigger_lists.simps) auto
qed

lemma trigger_total: "daq_inv s \<Longrightarrow> \<exists>q. trigger_event ap e bases clock s = Some (s\<lparr>xcp_queue := q\<rparr>)"
proof -
  assume inv: "daq_inv s"
  have "\<exists>q'. XcpTriggerDaqEvent queueAcquire queue_put queuePush mem bs now clock s e q = Some q'" for mem bs now q
  proof (cases "e < event_count s")
    case True
    from daq_invD(5) [OF inv] obtain ch where "chains_by ch s" by (auto simp: chains_ok_def)
    then have "daq_chain s (DaqListFirst s e) (ch e)" using True by (auto simp: chains_by_def)
    then show ?thesis by (simp add: XcpTriggerDaqEvent_def Let_def trigger_lists_total)
  qed (simp add: XcpTriggerDaqEvent_def Let_def)
  then show ?thesis by (metis (no_types, lifting) option.simps(9) trigger_event_def)
qed

lemma pending_inv:
  assumes s: "sys_inv s" and p: "pending_ok s"
  shows "\<exists>t. XcpProcessPendingCommand ap e bases s = Some t \<and> sys_inv t \<and> pending_ok t"
proof (cases "cmd_pending s \<and> XcpAddrIsDyn (mta_ext s) \<and> XcpAddrDecodeDynEvent (mta_addr s) = e")
  case True
  define s1 where "s1 = s\<lparr>cmd_pending := False,
    mta_ptr := AppPtr (bases ! mta_ext s + XcpAddrDecodeDynOffset (mta_addr s)), mta_ext := XCP_ADDR_EXT_PTR\<rparr>"
  have "cal_part s1 = cal_part s" "daq_part s1 = daq_part s" by (simp_all add: s1_def)
  then have s1: "sys_inv s1" by (rule sys_inv_same [OF s])
  have p1: "pending_ok s1" by (simp add: s1_def pending_ok_def)
  have "memory_command (CRO_BYTE (cmd_pending_crm s) 0)" using True p by (simp add: pending_ok_def)
  then have o: "alloc_in_order (cmd_pending_crm s) s1" by (rule alloc_memory)
  from command_inv [OF s1 o, of ap True "cmd_pending_crm_len s"] obtain r t where
    c: "XcpAsyncCommand ap True (cmd_pending_crm s) (cmd_pending_crm_len s) s1 = Some (r, t)" and t: "sys_inv t"
    by (auto simp: post_def)
  from command_pending [OF p1] c have "pending_ok t" by (metis fst_conv if_returns_Some snd_conv)
  then show ?thesis using True t c by (simp add: XcpProcessPendingCommand_def s1_def [symmetric])
next
  case False
  then have "XcpProcessPendingCommand ap e bases s = Some s" unfolding XcpProcessPendingCommand_def by (simp only: if_False)
  then show ?thesis using s p by simp
qed

lemma queue_pending: "pending_ok (s\<lparr>xcp_queue := q\<rparr>) = pending_ok s"
  by (simp add: pending_ok_def)

theorem event_inv:
  assumes s: "sys_inv s" and p: "pending_ok s"
  shows "\<exists>t. XcpEventExtAt ap e bases clock s = Some t \<and> sys_inv t \<and> pending_ok t"
proof -
  obtain t where t: "XcpProcessPendingCommand ap e bases s = Some t" "sys_inv t" "pending_ok t" using pending_inv [OF s p] by blast
  obtain q where "trigger_event ap e bases clock t = Some (t\<lparr>xcp_queue := q\<rparr>)" using trigger_total [OF sys_invD(2) [OF t(2)]] by blast
  with t show ?thesis using s p by (simp add: XcpEventExtAt_def queue_inv queue_pending)
qed

theorem abs_event_inv:
  assumes s: "sys_inv s" and p: "pending_ok s"
  shows "\<exists>t. XcpEventAt ap e clock s = Some t \<and> sys_inv t \<and> pending_ok t"
proof -
  obtain q where "trigger_event ap e [0, base_addr ap] clock s = Some (s\<lparr>xcp_queue := q\<rparr>)"
    using trigger_total [OF sys_invD(2) [OF s]] by blast
  then show ?thesis using s p by (simp add: XcpEventAt_def queue_inv queue_pending)
qed

section \<open>Steps\<close>

inductive sys_step :: "appl \<Rightarrow> xcp \<Rightarrow> xcp \<Rightarrow> bool" for ap where
  s_command: "alloc_in_order cro s \<Longrightarrow> XcpCommand ap cro len s = Some (r, t) \<Longrightarrow> sys_step ap s t"
| s_event: "XcpEventExtAt ap e bases clock s = Some t \<Longrightarrow> sys_step ap s t"
| s_abs_event: "XcpEventAt ap e clock s = Some t \<Longrightarrow> sys_step ap s t"
| s_create_event: "sys_step ap s (snd (XcpCreateEvent name cycle prio s))"
| s_create_instance: "sys_step ap s (snd (XcpCreateEventInstance name cycle prio s))"
| s_enable: "sys_step ap s (XcpEventEnable e b s)"
| s_segment: "0 < n \<Longrightarrow> n \<le> 65528 \<Longrightarrow> caller_page n src \<Longrightarrow> XcpCreateCalSeg name src n s = Some (i, t) \<Longrightarrow> sys_step ap s t"
| s_block: "0 < n \<Longrightarrow> n \<le> 65528 \<Longrightarrow> caller_page n src \<Longrightarrow> XcpCreateCalBlk name src n s = Some (i, t) \<Longrightarrow> sys_step ap s t"
| s_reader: "sys_step ap s (run_reader op s)"
| s_background: "sys_step ap s (XcpBackgroundTasks s)"
| s_disconnect: "sys_step ap s (XcpDisconnect ap s)"
| s_reset: "sys_step ap s (XcpResetAllCalSegs ap s)"
| s_freeze: "sys_step ap s (snd (XcpFreeze s))"
| s_transmit: "queuePeek 0 (xcp_queue s) = (Some b, lost, f, q) \<Longrightarrow> sys_step ap s (s\<lparr>xcp_queue := queueRelease b q\<rparr>)"
| s_message: "sys_step ap s (XcpSendEvent evc d s)"
| s_print: "sys_step ap s (XcpPrint str s)"

inductive_cases sys_step_E: "sys_step ap s t"

inductive sys_reach :: "appl \<Rightarrow> xcp \<Rightarrow> bool" for ap where
  r_start: "name \<noteq> [] \<Longrightarrow> ver \<noteq> [] \<Longrightarrow> mode \<noteq> 0 \<Longrightarrow> mode AND 2 = 0 \<Longrightarrow>
    XcpInit name ver mode (static_state mem files q0) = Some (True, s) \<Longrightarrow> sys_reach ap (XcpStart ap (queueInit n) s)"
| r_step: "sys_reach ap s \<Longrightarrow> sys_step ap s t \<Longrightarrow> sys_reach ap t"

definition sys_ok :: "'a xcp_scheme \<Rightarrow> bool" where
  "sys_ok s \<longleftrightarrow> sys_inv s \<and> pending_ok s"

lemma more_pending: "xcp_cal.more (t :: 'a xcp_scheme) = xcp_cal.more s \<Longrightarrow> pending_ok t = pending_ok s"
  by (rule pend_part_ok [OF io_pend [OF more_io]])

lemma impl_pending:
  "XcpCreateCalSeg_impl name lookup src n ms (s :: 'a xcp_scheme) = Some (i, t) \<Longrightarrow> pending_ok t = pending_ok s"
  by (drule create_impl_frame, rule more_pending) (simp add: create_frame_def)

lemma create_pending:
  "pending_ok (snd (XcpCreateEvent name cycle prio s)) = pending_ok s"
  "pending_ok (snd (XcpCreateEventInstance name cycle prio s)) = pending_ok s"
  "pending_ok (XcpEventEnable e b s) = pending_ok s"
  by (simp_all add: XcpCreateEvent_def XcpCreateEventInstance_def XcpCreateIndexedEvent_def XcpEventEnable_def
      pending_ok_def Let_def)

lemma message_parts:
  "cal_part (XcpSendEvent evc d s) = cal_part s" "daq_part (XcpSendEvent evc d s) = daq_part s"
  "pending_ok (XcpSendEvent evc d s) = pending_ok s"
  "cal_part (XcpPrint str s) = cal_part s" "daq_part (XcpPrint str s) = daq_part s"
  "pending_ok (XcpPrint str s) = pending_ok s"
  by (auto simp: XcpSendEvent_def XcpPrint_def queue_packet_def pending_ok_def split: option.split prod.split)

lemma reset_sys: "sys_inv s \<Longrightarrow> sys_inv (XcpResetAllCalSegs ap s)"
proof -
  assume s: "sys_inv s"
  have page: "(\<lambda>c. c\<lparr>ecu_access := XCP_CALPAGE_DEFAULT_PAGE\<rparr>) = set_page 1 1"
    by (rule ext) (simp add: set_page_def)
  define t where "t = fold (\<lambda>i. upd_calseg i (set_page 1 1)) [1..<XcpGetCalSegCount s] s"
  have P: "all_segs P (fold (\<lambda>i. upd_calseg i (set_page 1 1)) is u)"
    if "seg_contract Q P" "all_segs P u" for P Q "is" and u :: "'a xcp_scheme"
    using that(2)
  proof (induction "is" arbitrary: u)
    case (Cons i "is")
    have "all_segs P (upd_calseg i (set_page 1 1) u)"
      by (rule all_segs_upd [OF Cons.prems]) (rule seg_contract.P_select [OF that(1)])
    then show ?case using Cons.IH by simp
  qed simp
  have f: "cal_frame s (fold (\<lambda>i. upd_calseg i (set_page 1 1)) is u) = cal_frame s u" for "is" u
    by (induction "is" arbitrary: u) simp_all
  then have f: "cal_frame s t" by (simp add: t_def)
  have "sys_inv t"
  proof (rule sys_inv_segs [OF s])
    show "daq_inv t" using daq_part_inv [OF cal_frameD(1) [OF f]] sys_invD(2) [OF s] by simp
    show "ev_part t = ev_part s" by (rule daq_part_ev [OF cal_frameD(1) [OF f]])
    show "cal_list t = cal_list s" by (rule cal_frame_list [OF f])
    show "all_segs seg_ok t" unfolding t_def by (rule P [OF ok.seg_contract_axioms sys_invD(4) [OF s]])
    show "all_segs P t" if "seg_contract P P" "all_segs P s" for P unfolding t_def by (rule P [OF that])
  qed
  then show ?thesis unfolding XcpResetAllCalSegs_def page t_def by (rule disconnect_sys)
qed

lemma reset_io: "io_part (XcpResetAllCalSegs ap s) = io_part s"
proof -
  have "io_part (fold (\<lambda>i. upd_calseg i (f i)) is u) = io_part u" for f "is" and u :: "'a xcp_scheme"
    by (induction "is" arbitrary: u) simp_all
  then show ?thesis by (simp add: XcpResetAllCalSegs_def)
qed

lemma reader_io: "io_part (run_reader op s) = io_part s"
  by (rule cal_frame_io) (simp add: cal_frame_reader)

lemma disconnect_pending: "pending_ok (XcpDisconnect ap s) = pending_ok s" "pending_ok (XcpResetAllCalSegs ap s) = pending_ok s"
  by (rule pend_part_ok [OF io_pend], simp add: reset_io)+

theorem step_ok:
  assumes "sys_step ap s t" "sys_ok s" shows "sys_ok t"
proof -
  have s: "sys_inv s" "pending_ok s" using assms(2) by (simp_all add: sys_ok_def)
  have io: "io_part t = io_part s \<Longrightarrow> pending_ok t" using pend_part_ok [OF io_pend] s(2) by blast
  from assms(1) show ?thesis
  proof (cases rule: sys_step.cases)
    case (s_command cro len r)
    then have "XcpAsyncCommand ap False cro len s = Some (r, t)" by (simp add: XcpCommand_def)
    with command_inv [OF s(1) s_command(1), of ap False len] command_pending [OF s(2), of ap False cro len]
    show ?thesis by (simp add: sys_ok_def)
  next
    case (s_event e bases clock)
    with event_inv [OF s, of ap e bases clock] show ?thesis by (simp add: sys_ok_def)
  next
    case (s_abs_event e clock)
    with abs_event_inv [OF s, of ap e clock] show ?thesis by (simp add: sys_ok_def)
  next
    case (s_segment n src name i)
    have "isActivated s" by (rule sys_invD(1) [OF s(1)])
    then have "pending_ok t = pending_ok s" using s_segment(4) by (auto simp: XcpCreateCalSeg_def dest: impl_pending)
    then have "pending_ok t" using s(2) by simp
    then show ?thesis using create_seg_inv [OF s(1) s_segment(1-3)] s_segment(4) by (auto simp: sys_ok_def)
  next
    case (s_block n src name i)
    have "isActivated s" by (rule sys_invD(1) [OF s(1)])
    then have "pending_ok t = pending_ok s" using s_block(4) by (auto simp: XcpCreateCalBlk_def dest: impl_pending)
    then have "pending_ok t" using s(2) by simp
    then show ?thesis using create_seg_inv [OF s(1) s_block(1-3)] s_block(4) by (auto simp: sys_ok_def)
  next
    case (s_reader op)
    have "pending_ok t" by (rule io) (simp add: s_reader reader_io)
    then show ?thesis using s_reader reader_inv [OF s(1)] by (simp add: sys_ok_def)
  next
    case s_background
    have "io_part (XcpBackgroundTasks s) = io_part s" by (simp add: XcpBackgroundTasks_def)
    then have "pending_ok t" using s_background by (intro io) simp
    then show ?thesis using s_background background_inv [OF s(1)] by (simp add: sys_ok_def)
  next
    case s_freeze
    have "snd (XcpFreeze s) = snd (XcpFreezeSelectedCalSegs True s)" by (simp add: XcpFreeze_def split_beta)
    moreover have "io_part (snd (XcpFreezeSelectedCalSegs True s)) = io_part s" by (simp add: XcpFreezeSelectedCalSegs_def)
    ultimately have e: "t = snd (XcpFreezeSelectedCalSegs True s)" and "pending_ok t" using s_freeze by (simp, intro io) simp
    then show ?thesis by (simp add: sys_ok_def freeze_sys [OF s(1)])
  next
    case (s_message evc d)
    then show ?thesis using sys_inv_same [OF s(1) message_parts(1,2)] s(2) by (simp add: sys_ok_def message_parts)
  next
    case (s_print str)
    then show ?thesis using sys_inv_same [OF s(1) message_parts(4,5)] s(2) by (simp add: sys_ok_def message_parts)
  qed (use s in \<open>simp_all add: sys_ok_def create_event_inv create_pending enable_inv disconnect_sys reset_sys disconnect_pending
      queue_inv queue_pending\<close>)
qed

lemma init_pending: "pending_ok (XcpStart ap q s) = pending_ok s"
  by (simp add: XcpStart_def pending_ok_def)

theorem reach_ok: "sys_reach ap s \<Longrightarrow> sys_ok s"
proof (induction rule: sys_reach.induct)
  case (r_start name ver mode mem files q0 s n)
  have a: "\<not> isActivated (static_state mem files q0)" by (simp add: static_state_def isActivated_def)
  obtain t where t: "XcpInit name ver mode (static_state mem files q0) = Some (True, t)" "sys_inv t" "\<not> cmd_pending t"
    by (rule XcpInit_ok [OF a r_start(1-4)])
  with r_start have "sys_inv s" "pending_ok s" by (simp_all add: pending_ok_def)
  then show ?case by (simp add: sys_ok_def XcpStart_ok init_pending)
qed (rule step_ok)

end
