(* ===== verification/Xcp_Examples.thy ===== *)
theory Xcp_Examples
  imports Xcp_System
begin

text \<open>
  Concrete states that the examples of the properties start from: a process that has called \<^verbatim>\<open>XcpInit\<close>
  (\<open>booted\<close>) and \<^verbatim>\<open>XcpStart\<close> (\<open>running\<close>), and the same process with a calibration segment of 16
  bytes of its own next to the EPK segment (\<open>with_seg\<close>). The application of the examples registers no
  callback.
\<close>

definition example_appl :: appl where
  "example_appl = \<lparr>base_addr = 65536, cb_check = None, cb_read = None, cb_write = None, cb_flush = None, cb_connect = None,
     a2l_finalized = (\<lambda>_. True), cb_prepare_daq = None, cb_clock_state = None, cb_grandmaster = None, clock_now = 1000,
     obj_tail = (\<lambda>_ _. 0), file_system = (\<lambda>_. None), bin_writable = True, drain_queue = (\<lambda>q. (True, q)),
     reader_sched = (\<lambda>_ _. [])\<rparr>"

definition cold :: xcp where
  "cold = static_state (\<lambda>_. 0) (\<lambda>_. None) (queueInit 4096)"

definition booted :: xcp where
  "booted = snd (the (XcpInit ''ecu'' ''v1'' 1 cold))"

definition running :: xcp where
  "running = XcpStart example_appl (queueInit 4096) booted"

lemma cold_inactive: "\<not> isActivated cold"
  by (simp add: cold_def static_state_def isActivated_def)

lemma booted:
  "XcpInit ''ecu'' ''v1'' 1 cold = Some (True, booted)" "sys_inv booted" "\<not> isStarted booted" "\<not> isConnected booted"
  "XcpGetCalSegCount booted = 1" "calseg_name (CalSegPtr booted 0) = ''epk''" "daq_count booted = 0"
  "event_count booted = 0" "\<not> cmd_pending booted" "session_status booted = SS_ACTIVATED" "cal_mem_used booted = 192"
  "memory_segment_count booted = 1" "calseg_number (CalSegPtr booted 0) = 0" "seg_bytes (CalSegPtr booted 0) = 32"
proof -
  obtain t where t: "XcpInit ''ecu'' ''v1'' 1 cold = Some (True, t)" "sys_inv t" "\<not> isStarted t" "\<not> isConnected t"
    "XcpGetCalSegCount t = 1" "calseg_name (CalSegPtr t 0) = ''epk''"
    "daq_count t = 0" "event_count t = 0" "\<not> cmd_pending t"
    "session_status t = SS_ACTIVATED" "cal_mem_used t = 192" "memory_segment_count t = 1" "calseg_number (CalSegPtr t 0) = 0" "seg_bytes (CalSegPtr t 0) = epk_size"
    by (rule XcpInit_ok [OF cold_inactive, of "''ecu''" "''v1''" 1]) simp_all
  then have "booted = t" by (simp add: booted_def)
  with t show "XcpInit ''ecu'' ''v1'' 1 cold = Some (True, booted)" "sys_inv booted" "\<not> isStarted booted" "\<not> isConnected booted"
    "XcpGetCalSegCount booted = 1" "calseg_name (CalSegPtr booted 0) = ''epk''" "daq_count booted = 0"
    "event_count booted = 0" "\<not> cmd_pending booted" "session_status booted = SS_ACTIVATED" "cal_mem_used booted = 192"
    "memory_segment_count booted = 1" "calseg_number (CalSegPtr booted 0) = 0" "seg_bytes (CalSegPtr booted 0) = 32"
    by (simp_all add: epk_size_def)
qed

lemma running_reach: "sys_reach example_appl running"
proof -
  have "sys_reach example_appl (XcpStart example_appl (queueInit 4096) booted)"
    by (rule r_start [of "''ecu''" "''v1''" 1]) (use booted(1) in \<open>simp_all add: cold_def\<close>)
  then show ?thesis by (simp add: running_def)
qed

lemma running_ok: "sys_inv running" "pending_ok running"
  using reach_ok [OF running_reach] by (simp_all add: sys_ok_def)

lemma running_parts: "isStarted running" "isActivated running" "\<not> isConnected running" "XcpGetCalSegCount running = 1"
  "calseg_name (CalSegPtr running 0) = ''epk''" "cal_mem_used running = 192" "memory_segment_count running = 1"
  "calseg_number (CalSegPtr running 0) = 0" "seg_bytes (CalSegPtr running 0) = 32" "event_count running = 0"
  using booted by (simp_all add: running_def XcpStart_def isConnected_def isStarted_def isActivated_def XcpGetCalSegCount_def CalSegPtr_def)

section \<open>A segment of the application\<close>

lemma create_succeeds:
  assumes p: "isActivated s" and n: "n \<le> 65528" "length d = n"
    and room: "XcpGetCalSegCount s < XCP_MAX_CALSEG_COUNT - 1" "cal_mem_used s + block_size n \<le> XCP_CAL_MEM_SIZE"
    and new: "XcpFindCalSeg name s = XCP_UNDEFINED_CALSEG" and ms: "memory_segment_count s < 255"
  shows "\<exists>t. XcpCreateCalSeg name (PageData d) n s = Some (XcpGetCalSegCount s, t)
    \<and> (\<exists>m. CalSegPtr t (XcpGetCalSegCount s) = (init_calseg True name (memory_segment_count s) n d (cal_pool s (cal_mem_used s)))\<lparr>seg_mode := m\<rparr>)
    \<and> write_delayed t = write_delayed s \<and> XcpGetCalSegCount t = Suc (XcpGetCalSegCount s)"
proof -
  have b: "XCP_CALSEG_HEADER_SIZE + CALSEG_PAGE_COUNT * aligned_page_size n = block_size n"
    using aligned_page_size_small [OF n(1)] by (simp add: block_size_def)
  have al: "XcpCalMemAlloc (block_size n) s = (Some (cal_mem_used s), s\<lparr>cal_mem_used := cal_mem_used s + block_size n\<rparr>)"
    using room(2) by (simp add: XcpCalMemAlloc_def Let_def)
  have a: "session_status s AND SS_ACTIVATED \<noteq> 0" using p(1) by (simp add: isActivated_def)
  have z: "c\<lparr>seg_mode := seg_mode c\<rparr> = c" for c :: tXcpCalSeg by simp
  have "calseg_count s = XcpGetCalSegCount s" using p by (simp add: XcpGetCalSegCount_def)
  then show ?thesis using p(1) new room(1) ms a al n
    by (auto intro: z [symmetric] simp: upd_calseg_def XcpCreateCalSeg_def XcpCreateCalSeg_impl_def b XcpInitCalSeg_def XcpRegisterCalSeg_def finish_calseg_def
        CalSegPtr_def Let_def isActivated_def XcpGetCalSegCount_def)
qed

definition example_page :: "u8 list" where
  "example_page = replicate 16 7"

definition with_seg :: xcp where
  "with_seg = snd (the (XcpCreateCalSeg ''params'' (PageData example_page) 16 running))"

lemma with_seg_created: "XcpCreateCalSeg ''params'' (PageData example_page) 16 running = Some (1, with_seg)"
  "\<exists>m. CalSegPtr with_seg (Suc 0) = (init_calseg True ''params'' 1 16 example_page (cal_pool running 192))\<lparr>seg_mode := m\<rparr>" "XcpGetCalSegCount with_seg = 2"
proof -
  have f: "XcpFindCalSeg ''params'' running = XCP_UNDEFINED_CALSEG"
    using running_parts(4,5) by (simp add: XcpFindCalSeg_def find_calseg_def)
  have "\<exists>t. XcpCreateCalSeg ''params'' (PageData example_page) 16 running = Some (XcpGetCalSegCount running, t)
    \<and> (\<exists>m. CalSegPtr t (XcpGetCalSegCount running) = (init_calseg True ''params'' (memory_segment_count running) 16 example_page
       (cal_pool running (cal_mem_used running)))\<lparr>seg_mode := m\<rparr>)
    \<and> write_delayed t = write_delayed running \<and> XcpGetCalSegCount t = Suc (XcpGetCalSegCount running)"
    by (rule create_succeeds) (simp_all add: running_parts f example_page_def block_size_def align_up_def)
  then show "XcpCreateCalSeg ''params'' (PageData example_page) 16 running = Some (1, with_seg)"
    "\<exists>m. CalSegPtr with_seg (Suc 0) = (init_calseg True ''params'' 1 16 example_page (cal_pool running 192))\<lparr>seg_mode := m\<rparr>" "XcpGetCalSegCount with_seg = 2"
    by (auto simp: running_parts with_seg_def)
qed

lemma example_page_caller: "caller_page 16 (PageData example_page)"
  by (simp add: example_page_def)

lemma with_seg_reach: "sys_reach example_appl with_seg"
  by (rule r_step [OF running_reach s_segment [OF _ _ example_page_caller with_seg_created(1)]]) simp_all

lemma with_seg_ok: "sys_inv with_seg" "pending_ok with_seg" "all_segs seg_ok with_seg" "all_segs (\<lambda>_. seg_wf) with_seg"
  "isActivated with_seg" "pool_ok with_seg"
  using reach_ok [OF with_seg_reach] sys_invD [of with_seg]
  by (auto simp: sys_ok_def all_segs_def seg_ok_def)

lemma with_seg_views: "client_view (CalSegPtr with_seg (Suc 0)) = example_page" "reader_view (CalSegPtr with_seg (Suc 0)) = example_page"
  "seg_bytes (CalSegPtr with_seg (Suc 0)) = 16" "xcp_access (CalSegPtr with_seg (Suc 0)) = XCP_CALPAGE_WORKING_PAGE"
  "lock_count (CalSegPtr with_seg (Suc 0)) = 0" "ecu_access (CalSegPtr with_seg (Suc 0)) = XCP_CALPAGE_WORKING_PAGE"
  "page_data (CalSegPtr with_seg (Suc 0)) 0 = example_page"
proof -
  let ?c = "init_calseg True ''params'' 1 16 example_page (cal_pool running 192)"
  obtain m where c: "CalSegPtr with_seg (Suc 0) = ?c\<lparr>seg_mode := m\<rparr>" using with_seg_created(2) by blast
  have "page_data ?c 0 = example_page" "client_view ?c = example_page" "reader_view ?c = example_page"
    by (rule init_calseg_ok [OF _ _ _ refl]; simp add: example_page_def)+
  then show "client_view (CalSegPtr with_seg (Suc 0)) = example_page" "reader_view (CalSegPtr with_seg (Suc 0)) = example_page"
    "seg_bytes (CalSegPtr with_seg (Suc 0)) = 16" "xcp_access (CalSegPtr with_seg (Suc 0)) = XCP_CALPAGE_WORKING_PAGE"
    "lock_count (CalSegPtr with_seg (Suc 0)) = 0" "ecu_access (CalSegPtr with_seg (Suc 0)) = XCP_CALPAGE_WORKING_PAGE"
    "page_data (CalSegPtr with_seg (Suc 0)) 0 = example_page"
    by (simp_all add: c client_view_def reader_view_def page_data_def init_calseg_def CalSegRcuInit_def CalSegRcuReset_def Let_def)
qed

lemma with_seg_first: "calseg_name (CalSegPtr with_seg 0) = ''epk''" "calseg_number (CalSegPtr with_seg 0) = 0"
  "seg_bytes (CalSegPtr with_seg 0) = 32"
proof -
  have impl: "XcpCreateCalSeg_impl ''params'' True (PageData example_page) 16 True running = Some (1, with_seg)"
    using with_seg_created(1) running_parts(2) by (simp add: XcpCreateCalSeg_def)
  note inv = sys_invD [OF running_ok(1)]
  have "same_pages (CalSegPtr running 0) (CalSegPtr with_seg 0)"
    using create_result [OF inv(1,4,5) _ _ example_page_caller impl] by (simp add: running_parts)
  then have e: "(CalSegPtr with_seg 0)\<lparr>seg_mode := seg_mode (CalSegPtr running 0)\<rparr> = CalSegPtr running 0"
    by (simp add: same_pages_def)
  have "calseg_name (CalSegPtr with_seg 0) = calseg_name (CalSegPtr running 0)"
    "calseg_number (CalSegPtr with_seg 0) = calseg_number (CalSegPtr running 0)"
    "seg_bytes (CalSegPtr with_seg 0) = seg_bytes (CalSegPtr running 0)"
    using arg_cong [OF e, of calseg_name] arg_cong [OF e, of calseg_number] arg_cong [OF e, of seg_bytes] by simp_all
  then show "calseg_name (CalSegPtr with_seg 0) = ''epk''" "calseg_number (CalSegPtr with_seg 0) = 0"
    "seg_bytes (CalSegPtr with_seg 0) = 32" by (simp_all add: running_parts)
qed

lemma with_seg_second: "calseg_name (CalSegPtr with_seg (Suc 0)) = ''params''" "calseg_number (CalSegPtr with_seg (Suc 0)) = 1"
  using with_seg_created(2) by (auto simp: STRNLEN_def)

section \<open>A connected client\<close>

definition connect_cro :: bytes where
  "connect_cro = (\<lambda>_. 0)(0 := 0xFF)"

definition connected :: xcp where
  "connected = snd (the (XcpCommand example_appl connect_cro 2 with_seg))"

lemma connect_runs: "XcpCommand example_appl connect_cro 2 with_seg = Some (CRC_CMD_OK, connected)"
  by (simp add: connected_def XcpCommand_def XcpAsyncCommand_def run_command_def cmd_connect_def connect_cro_def CRO_BYTE_def
      finish_command_def ApplXcpConnect_def example_appl_def Let_def)

lemma connected_ok: "isStarted connected" "isConnected connected" "sys_inv connected" "sys_reach example_appl connected"
proof -
  have o: "alloc_in_order connect_cro with_seg" by (simp add: alloc_in_order_def connect_cro_def CRO_BYTE_def)
  show r: "sys_reach example_appl connected" by (rule r_step [OF with_seg_reach s_command [OF o connect_runs]])
  show "sys_inv connected" using reach_ok [OF r] by (simp add: sys_ok_def)
  show "isStarted connected" "isConnected connected"
    by (simp_all add: connected_def XcpCommand_def XcpAsyncCommand_def run_command_def cmd_connect_def connect_cro_def CRO_BYTE_def
      finish_command_def ApplXcpConnect_def example_appl_def Let_def isStarted_def isConnected_def XcpSendResponse_def
      XcpClearDaq_def CRM_LEN_def CRM_BYTE_def CRM_WORD_def)
qed

lemma connected_cal: "cal_part connected = cal_part with_seg"
  using with_seg_ok(5)
  by (simp add: connected_def XcpCommand_def XcpAsyncCommand_def run_command_def cmd_connect_def connect_cro_def CRO_BYTE_def
      finish_command_def ApplXcpConnect_def example_appl_def Let_def cal_part_def isActivated_def XcpSendResponse_def
      XcpClearDaq_def CRM_LEN_def CRM_BYTE_def CRM_WORD_def)

definition memory_cro :: "nat \<Rightarrow> u8 list \<Rightarrow> bytes" where
  "memory_cro c d = mem_set 8 d ((\<lambda>_. 0)(0 := of_nat c, 1 := of_nat (length d), 6 := 1, 7 := 0x80, 4 := 4))"

lemma connected_count: "XcpGetCalSegCount connected = 2"
  using connected_cal with_seg_created(3) connected_ok(1) with_seg_ok(5)
  by (simp add: cal_part_def XcpGetCalSegCount_def isActivated_def isStarted_def split: if_splits)

end
