(* ===== verification/Props_Session.thy ===== *)
theory Props_Session
  imports Xcp_Examples
begin

text \<open>
  Properties of the library as a whole: initialisation, the invariant of every reachable state, that commands
  and events return, the discipline of responses, and the session states. The witnesses run the theorems
  on the states of \<^verbatim>\<open>Xcp_Examples\<close>.
\<close>

section \<open>Initialisation and reachable states\<close>

text \<open>C22. \<^verbatim>\<open>XcpInit\<close> in a process that has not activated XCP before, called with a project name, a version and
  a mode other than deactivated, without the persistence flag, succeeds: it leaves an activated session that
  is neither started nor connected, no events, no DAQ lists, and exactly one calibration segment, named
  \<^verbatim>\<open>epk\<close>, whose content is the version string padded to 32 bytes; all invariants of the library hold.\<close>

theorem init_establishes:
  assumes "\<not> isActivated s" and "name \<noteq> []" "ver \<noteq> []" and "mode \<noteq> 0" "mode AND 2 = 0"
  shows "\<exists>t. XcpInit name ver mode s = Some (True, t) \<and> sys_inv t \<and> session_status t = SS_ACTIVATED
    \<and> event_count t = 0 \<and> daq_count t = 0 \<and> XcpGetCalSegCount t = 1 \<and> calseg_name (CalSegPtr t 0) = ''epk''
    \<and> reader_view (CalSegPtr t 0) = name_field (epk t) epk_size \<and> \<not> cmd_pending t"
  by (rule XcpInit_ok [OF assms]) blast

lemma init_establishes_witness:
  "\<exists>t. XcpInit ''ecu'' ''v1'' 1 cold = Some (True, t) \<and> sys_inv t \<and> session_status t = SS_ACTIVATED
    \<and> event_count t = 0 \<and> daq_count t = 0 \<and> XcpGetCalSegCount t = 1 \<and> calseg_name (CalSegPtr t 0) = ''epk''
    \<and> reader_view (CalSegPtr t 0) = name_field (epk t) epk_size \<and> \<not> cmd_pending t"
  by (rule init_establishes) (simp_all add: cold_inactive)

text \<open>C1. In every state that the library reaches after \<^verbatim>\<open>XcpInit\<close> and \<^verbatim>\<open>XcpStart\<close> - by any
  sequence of client commands with the DAQ allocation in the order of the protocol, events of the application, creation
  of events, segments and blocks, readers of the segments, background publication, disconnects, freezes,
  transmissions and messages - the DAQ tables are well formed and inside their memory, the event chains are
  acyclic and complete, the event list has unique names, every calibration segment has its pages in order
  and in sync, the blocks of the calibration pool do not overlap, and a pending command is a memory access.\<close>

theorem reachable_invariant:
  assumes "sys_reach ap s"
  shows "isActivated s \<and> daq_inv s \<and> events_wf s \<and> all_segs seg_ok s \<and> pool_ok s \<and> pending_ok s"
  using reach_ok [OF assms] by (simp add: sys_ok_def sys_inv_def)

lemma reachable_invariant_witness:
  "isActivated with_seg \<and> daq_inv with_seg \<and> events_wf with_seg \<and> all_segs seg_ok with_seg \<and> pool_ok with_seg \<and> pending_ok with_seg"
  by (rule reachable_invariant [OF with_seg_reach])

text \<open>C2. The command processor returns: in every reachable state it processes every packet - of any length and
  content, except an allocation command out of order - to the end (the loops over event chains, ODTs and
  segments terminate and no null pointer is followed), and leads to a reachable state.\<close>

theorem command_returns:
  assumes "sys_reach ap s" and "alloc_in_order cro s"
  shows "\<exists>r t. XcpCommand ap cro len s = Some (r, t) \<and> sys_reach ap t"
proof -
  have "sys_inv s" using reach_ok [OF assms(1)] by (simp add: sys_ok_def)
  then obtain r t where "XcpCommand ap cro len s = Some (r, t)"
    using command_inv [OF _ assms(2)] by (fastforce simp: post_def XcpCommand_def)
  then show ?thesis using r_step [OF assms(1) s_command [OF assms(2)]] by blast
qed

lemma command_returns_witness:
  "\<exists>r t. XcpCommand example_appl ((\<lambda>_. 0)(0 := 0xFF)) 2 with_seg = Some (r, t) \<and> sys_reach example_appl t"
  by (rule command_returns [OF with_seg_reach]) (simp add: alloc_in_order_def CRO_BYTE_def)

text \<open>C23. Events return as well: in every reachable state \<^verbatim>\<open>XcpEventExtAt\<close>, with the pending command that it may
  execute, and \<^verbatim>\<open>XcpEventAt\<close> run to the end for every event number, and lead to reachable states.\<close>

theorem events_return:
  assumes "sys_reach ap s"
  shows "\<exists>t u. XcpEventExtAt ap e bases clock s = Some t \<and> sys_reach ap t
    \<and> XcpEventAt ap e clock s = Some u \<and> sys_reach ap u"
proof -
  have ok: "sys_inv s" "pending_ok s" using reach_ok [OF assms] by (simp_all add: sys_ok_def)
  obtain t u where "XcpEventExtAt ap e bases clock s = Some t" "XcpEventAt ap e clock s = Some u"
    using event_inv [OF ok] abs_event_inv [OF ok] by blast
  then show ?thesis using r_step [OF assms s_event] r_step [OF assms s_abs_event] by blast
qed

lemma events_return_witness:
  "\<exists>t u. XcpEventExtAt example_appl 0 [0, 65536, 100] 5 with_seg = Some t \<and> sys_reach example_appl t
    \<and> XcpEventAt example_appl 0 5 with_seg = Some u \<and> sys_reach example_appl u"
  by (rule events_return [OF with_seg_reach])

section \<open>Responses\<close>

text \<open>C24. One answer: a call of \<^verbatim>\<open>XcpCommand\<close> sends at most one packet, of 1 to 248 bytes, that starts with 0xFF
  (response) or 0xFE (error); when it returns an error code other than 'ignored', exactly one packet was sent, the error
  packet with that code.\<close>

theorem command_one_response:
  assumes "XcpCommand ap cro len s = Some (r, t)"
  shows "\<exists>ps. tl_sent t = tl_sent s @ ps \<and> length ps \<le> 1
    \<and> (\<forall>p \<in> set ps. p \<noteq> [] \<and> length p \<le> XCPTL_MAX_CTO_SIZE \<and> hd p \<in> {0xFF, 0xFE})
    \<and> (r \<notin> {CRC_CMD_OK, CRC_CMD_IGNORED} \<longrightarrow> ps = [[0xFE, of_nat r]])"
  using command_response [where ap = ap and cro = cro and len = len and s = s] assms by (simp add: if_returns_def response_ok_def)

lemma command_one_response_witness:
  "\<exists>ps. tl_sent connected = tl_sent with_seg @ ps \<and> length ps \<le> 1
    \<and> (\<forall>p \<in> set ps. p \<noteq> [] \<and> length p \<le> XCPTL_MAX_CTO_SIZE \<and> hd p \<in> {0xFF, 0xFE})
    \<and> (CRC_CMD_OK \<notin> {CRC_CMD_OK, CRC_CMD_IGNORED} \<longrightarrow> ps = [[0xFE, of_nat CRC_CMD_OK]])"
  by (rule command_one_response [OF connect_runs])

section \<open>Session states\<close>

text \<open>Without a connection only \<^verbatim>\<open>CONNECT\<close> and the transport layer command are processed: every other packet, whatever
  its length, is ignored; nothing is sent and only the scratch response buffer changes.\<close>

theorem unconnected_ignored:
  assumes "\<not> isConnected s" and "CRO_BYTE cro 0 \<noteq> 0xFF \<or> len \<noteq> 2" and "CRO_BYTE cro 0 \<noteq> 0xF2"
  shows "XcpCommand ap cro len s = Some (CRC_CMD_IGNORED, CRM_LEN 1 (CRM_BYTE 0 PID_RES s))"
proof -
  have "\<not> isConnected (CRM_LEN 1 (CRM_BYTE 0 PID_RES s))" using assms(1) by (simp add: isConnected_def CRM_LEN_def CRM_BYTE_def)
  then show ?thesis using assms(2,3)
    by (auto simp: XcpCommand_def XcpAsyncCommand_def run_command_def finish_command_def Let_def)
qed

lemma unconnected_ignored_witness:
  "XcpCommand example_appl ((\<lambda>_. 0)(0 := 0xFD)) 1 running = Some (CRC_CMD_IGNORED, CRM_LEN 1 (CRM_BYTE 0 PID_RES running))"
  by (rule unconnected_ignored) (simp_all add: running_parts CRO_BYTE_def)

text \<open>C25. \<^verbatim>\<open>CONNECT\<close>: an accepted connection starts from a clean measurement configuration - session state
  connected, started, active and legacy only, DAQ stopped, no lists, ODTs or entries, no event refers to a
  list - and is answered by the connect response with resources, sizes and versions.\<close>

theorem connect_resets:
  assumes "fst (ApplXcpConnect ap (CRO_BYTE cro 1) s)" and "CRO_BYTE cro 0 = 0xFF"
  shows "\<exists>t. XcpCommand ap cro 2 s = Some (CRC_CMD_OK, t) \<and> isConnected t \<and> \<not> isDaqRunning t
    \<and> daq_count t = 0 \<and> odt_count t = 0 \<and> odt_entry_count t = 0
    \<and> (\<forall>e < event_count t. DaqListFirst t e = XCP_UNDEFINED_DAQ_LIST)
    \<and> tl_sent t = tl_sent s @ [[0xFF, 5, 0x80, 248, 0, 4, 1, 1]]"
proof -
  obtain s1 where a: "ApplXcpConnect ap (CRO_BYTE cro 1) (CRM_LEN 1 (CRM_BYTE 0 PID_RES s)) = (True, s1)" "tl_sent s1 = tl_sent s"
      "crm s1 0 = 0xFF"
    using assms(1)
    by (cases "cb_connect ap") (auto simp: ApplXcpConnect_def Let_def CRM_LEN_def CRM_BYTE_def split: if_splits)
  then show ?thesis using assms(2)
    by (simp add: XcpCommand_def XcpAsyncCommand_def run_command_def finish_command_def cmd_connect_def Let_def wr16_def
        XcpSendResponse_def crm_packet_def mem_get_def isConnected_def isDaqRunning_def XcpClearDaq_def CRM_LEN_def CRM_BYTE_def CRM_WORD_def DaqListFirst_def upt_rec)
qed

lemma connect_accepted: "fst (ApplXcpConnect example_appl m s)"
  by (simp add: ApplXcpConnect_def example_appl_def Let_def)

lemma connect_resets_witness:
  "\<exists>t. XcpCommand example_appl connect_cro 2 with_seg = Some (CRC_CMD_OK, t) \<and> isConnected t \<and> \<not> isDaqRunning t
    \<and> daq_count t = 0 \<and> odt_count t = 0 \<and> odt_entry_count t = 0
    \<and> (\<forall>e < event_count t. DaqListFirst t e = XCP_UNDEFINED_DAQ_LIST)
    \<and> tl_sent t = tl_sent with_seg @ [[0xFF, 5, 0x80, 248, 0, 4, 1, 1]]"
  by (rule connect_resets [OF connect_accepted]) (simp add: connect_cro_def CRO_BYTE_def)

lemma stop_keeps_started: "session_status (XcpStopDaq s) AND SS_STARTED = session_status s AND SS_STARTED"
  by (simp add: XcpStopDaq_state and.assoc)

text \<open>What stopping the measurement does to the DAQ configuration.\<close>

definition config_part :: "'a xcp_daq_scheme \<Rightarrow> nat \<times> nat \<times> nat \<times> (nat \<Rightarrow> tXcpEvent) \<times> nat" where
  "config_part s = (daq_count s, odt_count s, odt_entry_count s, event s, event_count s)"

definition stopped_mem :: "'a xcp_daq_scheme \<Rightarrow> bytes" where
  "stopped_mem s = (\<lambda>a. if \<exists>i < daq_count s. a = 12 * i + 9 then DAQ_STATE_STOPPED_UNSELECTED else daq_mem s a)"

lemma fold_state_mem:
  "daq_mem (fold (\<lambda>d. set_list_state d v) ds s) = (\<lambda>a. if \<exists>i \<in> set ds. a = 12 * i + 9 then v else daq_mem s a)"
  "config_part (fold (\<lambda>d. set_list_state d v) ds s) = config_part s"
  "daq_running (fold (\<lambda>d. set_list_state d v) ds s) = daq_running s"
  by (induction ds arbitrary: s) (auto simp: set_list_state_def list_wr8_def config_part_def fun_eq_iff)

lemma stop_daq_config:
  "daq_mem (XcpStopDaq s) = stopped_mem s" "config_part (XcpStopDaq s) = config_part s" "\<not> daq_running (XcpStopDaq s)"
  by (auto simp: XcpStopDaq_def fold_state_mem stopped_mem_def fun_eq_iff) (simp add: config_part_def)

lemma queue_config: "config_part (s\<lparr>xcp_queue := q\<rparr>) = config_part s"
  by (simp add: config_part_def)

text \<open>C26. Disconnecting ends the session: after \<^verbatim>\<open>XcpDisconnect\<close> of a started, connected session the connection flag is cleared
  and no measurement runs; the started and activated flags, the DAQ configuration and the segments' client content are kept.
  The configuration is the whole DAQ memory - lists, ODTs, entries, the chains of the events - of which only the state byte of each list
  changes (at offset 9 of its 12 bytes: stopped and unselected, when a measurement was running), the counters and the events.\<close>

theorem disconnect_ends_session:
  assumes "isStarted s" and "isConnected s" and "sys_inv s"
  shows "\<not> isConnected (XcpDisconnect ap s) \<and> \<not> isDaqRunning (XcpDisconnect ap s)
    \<and> isStarted (XcpDisconnect ap s) \<and> isActivated (XcpDisconnect ap s)
    \<and> daq_mem (XcpDisconnect ap s) = (\<lambda>a. if isDaqRunning s \<and> (\<exists>i < daq_count s. a = 12 * i + 9)
        then DAQ_STATE_STOPPED_UNSELECTED else daq_mem s a)
    \<and> daq_count (XcpDisconnect ap s) = daq_count s \<and> odt_count (XcpDisconnect ap s) = odt_count s
    \<and> odt_entry_count (XcpDisconnect ap s) = odt_entry_count s
    \<and> event (XcpDisconnect ap s) = event s \<and> event_count (XcpDisconnect ap s) = event_count s
    \<and> (\<forall>i < XcpGetCalSegCount s. client_view (CalSegPtr (XcpDisconnect ap s) i) = client_view (CalSegPtr s i))"
proof -
  define s1 where "s1 = (if isDaqRunning s then snd (wait_queue_empty ap (XcpStopDaq s)) else s)"
  define s2 where "s2 = snd (XcpCalSegPublishAll (reader_sched ap) True s1)"
  have d: "XcpDisconnect ap s = s2\<lparr>session_status := session_status s2 AND NOT SS_CONNECTED\<rparr>"
    using assms by (simp add: XcpDisconnect_def s1_def s2_def Let_def)
  have c1: "cal_part s1 = cal_part s" by (simp add: s1_def)
  have wf: "all_segs (\<lambda>_. seg_wf) s1"
    by (rule cal_part_all [OF c1]) (use sys_invD(4) [OF assms(3)] in \<open>simp add: all_segs_def seg_ok_def\<close>)
  have f: "cal_frame s1 s2" by (simp add: s2_def)
  note fr = cal_frameD [OF f]
  have kept: "\<not> daq_running s1" "config_part s1 = config_part s" "daq_mem s1 = (if isDaqRunning s then stopped_mem s else daq_mem s)"
    using assms(1) by (simp_all add: s1_def wait_queue_empty_def split_beta stop_daq_config queue_config isDaqRunning_def)
  have st: "session_status s1 AND SS_STARTED \<noteq> 0"
    using assms(1) stop_keeps_started [of s] by (simp add: s1_def wait_queue_empty_def split_beta isStarted_def)
  have same: "CalSegPtr s1 i = CalSegPtr s i" "XcpGetCalSegCount s1 = XcpGetCalSegCount s" "isActivated s1" for i
    using c1 sys_invD(1) [OF assms(3)] by (simp_all add: cal_part_def CalSegPtr_def XcpGetCalSegCount_def)
  have view: "client_view (CalSegPtr s2 i) = client_view (CalSegPtr s i)" if "i < XcpGetCalSegCount s" for i
    unfolding s2_def using publish_all_view [OF wf, of i] that by (simp add: same)
  have "daq_part s2 = daq_part s1" by (rule fr(1))
  then have "config_part (XcpDisconnect ap s) = config_part s" "\<not> daq_running s2"
    "daq_mem (XcpDisconnect ap s) = (if isDaqRunning s then stopped_mem s else daq_mem s)"
    using kept by (simp_all add: daq_part_def config_part_def d)
  moreover have "CalSegPtr (XcpDisconnect ap s) i = CalSegPtr s2 i" for i by (simp add: d CalSegPtr_def)
  moreover have "\<not> isConnected (XcpDisconnect ap s) \<and> isStarted (XcpDisconnect ap s) \<and> isActivated (XcpDisconnect ap s)"
    using st same(3) fr(2) by (simp add: d isConnected_def isStarted_def isActivated_def and.assoc)
  moreover have "daq_running (XcpDisconnect ap s) = daq_running s2" by (simp add: d)
  ultimately show ?thesis using view by (simp add: config_part_def stopped_mem_def isDaqRunning_def cong: conj_cong)
qed

lemma disconnect_ends_session_witness:
  "\<not> isConnected (XcpDisconnect example_appl connected) \<and> \<not> isDaqRunning (XcpDisconnect example_appl connected)
    \<and> isStarted (XcpDisconnect example_appl connected) \<and> isActivated (XcpDisconnect example_appl connected)
    \<and> daq_mem (XcpDisconnect example_appl connected) = (\<lambda>a. if isDaqRunning connected \<and> (\<exists>i < daq_count connected. a = 12 * i + 9)
        then DAQ_STATE_STOPPED_UNSELECTED else daq_mem connected a)
    \<and> daq_count (XcpDisconnect example_appl connected) = daq_count connected
    \<and> odt_count (XcpDisconnect example_appl connected) = odt_count connected
    \<and> event (XcpDisconnect example_appl connected) = event connected
    \<and> client_view (CalSegPtr (XcpDisconnect example_appl connected) 1) = client_view (CalSegPtr connected 1)"
  using disconnect_ends_session [OF connected_ok(1-3), of example_appl] connected_count by simp

end
