(* ===== verification/Xcp_Lifetime.thy ===== *)
theory Xcp_Lifetime
  imports Xcp_System
begin

text \<open>
  What the segments keep over the steps of the library: every contract on the content of a segment that the
  client operations keep is kept by every step that does not create a segment, and the list of segments only grows.
\<close>

section \<open>Contracts along the steps\<close>

definition keeps :: "(nat \<Rightarrow> tXcpCalSeg \<Rightarrow> bool) \<Rightarrow> 'a xcp_scheme \<Rightarrow> 'a xcp_scheme \<Rightarrow> bool" where
  "keeps P s t \<longleftrightarrow> all_segs P t \<and> cal_list t = cal_list s"

lemma keeps_cal_part: "cal_part t = cal_part s \<Longrightarrow> all_segs P s \<Longrightarrow> keeps P s t"
  unfolding keeps_def using cal_part_all cal_part_list by blast

context seg_contract
begin

lemma reset_fold: "all_segs P u \<Longrightarrow> all_segs P (fold (\<lambda>i. upd_calseg i (set_page m p)) is u)"
  by (induction "is" arbitrary: u) (simp_all add: all_segs_upd P_select)

lemma keeps_command:
  assumes "all_segs P s" "isActivated s" "XcpAsyncCommand ap async cro len s = Some (r, t)" shows "keeps P s t"
  using command_segs [OF assms(1,2), of ap async cro len] command_list [OF assms(2), of ap async cro len] assms(3)
  by (simp add: keeps_def if_returns_def)

lemma keeps_pending:
  assumes p: "all_segs P s" "isActivated s" and c: "XcpProcessPendingCommand ap e bases s = Some t" shows "keeps P s t"
proof -
  define s1 where "s1 = s\<lparr>cmd_pending := False,
    mta_ptr := AppPtr (bases ! mta_ext s + XcpAddrDecodeDynOffset (mta_addr s)), mta_ext := XCP_ADDR_EXT_PTR\<rparr>"
  have c1: "cal_part s1 = cal_part s" by (simp add: s1_def)
  then have s1: "all_segs P s1" "isActivated s1" using p cal_part_all by (auto simp: cal_part_def)
  show ?thesis
  proof (cases "cmd_pending s \<and> XcpAddrIsDyn (mta_ext s) \<and> XcpAddrDecodeDynEvent (mta_addr s) = e")
    case True
    with c obtain r where "XcpAsyncCommand ap True (cmd_pending_crm s) (cmd_pending_crm_len s) s1 = Some (r, t)"
      by (auto simp: XcpProcessPendingCommand_def s1_def)
    then have "keeps P s1 t" by (rule keeps_command [OF s1])
    then show ?thesis using cal_part_list [OF c1] by (simp add: keeps_def)
  next
    case False
    then have "t = s" using c unfolding XcpProcessPendingCommand_def by (simp only: if_False option.inject)
    then show ?thesis using p by (simp add: keeps_def)
  qed
qed

lemma keeps_trigger: "all_segs P s \<Longrightarrow> trigger_event ap e bases clock s = Some t \<Longrightarrow> keeps P s t"
  by (rule keeps_cal_part) (auto simp: trigger_event_def)

lemma keeps_event:
  assumes p: "all_segs P s" "isActivated s" and c: "XcpEventExtAt ap e bases clock s = Some t" shows "keeps P s t"
proof (cases "isStarted s")
  case False
  then show ?thesis using p c by (simp add: XcpEventExtAt_def keeps_def)
next
  case True
  then obtain u where u: "XcpProcessPendingCommand ap e bases s = Some u"
      "t = u \<or> trigger_event ap e bases clock u = Some t"
    using c by (auto simp: XcpEventExtAt_def bind_eq_Some_conv split: if_splits)
  have k: "keeps P s u" by (rule keeps_pending [OF p u(1)])
  from u(2) show ?thesis
  proof
    assume t: "trigger_event ap e bases clock u = Some t"
    have "all_segs P u" using k by (simp add: keeps_def)
    then have "keeps P u t" by (rule keeps_trigger [OF _ t])
    with k show ?thesis by (simp add: keeps_def)
  qed (use k in simp)
qed

lemma keeps_disconnect: "all_segs P s \<Longrightarrow> keeps P s (XcpDisconnect ap s)"
  by (simp add: keeps_def disconnect_segs disconnect_list)

lemma keeps_reset:
  fixes s :: "'b xcp_scheme"
  assumes s: "all_segs P s" shows "keeps P s (XcpResetAllCalSegs ap s)"
proof -
  have page: "(\<lambda>c. c\<lparr>ecu_access := XCP_CALPAGE_DEFAULT_PAGE\<rparr>) = set_page 1 1"
    by (rule ext) (simp add: set_page_def)
  define t where "t = fold (\<lambda>i. upd_calseg i (set_page 1 1)) [1..<XcpGetCalSegCount s] s"
  have f: "cal_frame s (fold (\<lambda>i. upd_calseg i (set_page 1 1)) is u) = cal_frame s u" for "is" and u :: "'b xcp_scheme"
    by (induction "is" arbitrary: u) simp_all
  then have f: "cal_frame s t" by (simp add: t_def)
  have "keeps P t (XcpDisconnect ap t)" unfolding t_def by (rule keeps_disconnect [OF reset_fold [OF s]])
  then show ?thesis unfolding XcpResetAllCalSegs_def page t_def [symmetric] using cal_frame_list [OF f] by (simp add: keeps_def)
qed

lemma keeps_plain:
  assumes s: "all_segs P s"
  shows "keeps P s (run_reader op s)" "keeps P s (XcpBackgroundTasks s)" "keeps P s (snd (XcpFreeze s))"
proof -
  have r: "cal_frame s (run_reader op s)" by (simp add: cal_frame_reader)
  show "keeps P s (run_reader op s)" by (simp add: keeps_def P_reader [OF s] cal_frame_list [OF r])
  have b: "cal_frame s (snd (XcpCalSegPublishAll (\<lambda>_ _. []) False s))" by simp
  show "keeps P s (XcpBackgroundTasks s)" unfolding XcpBackgroundTasks_def
    using s publish_all_inv [OF s] cal_frame_list [OF b] by (simp add: keeps_def)
  have e: "snd (XcpFreeze s) = snd (freeze_calsegs True [1..<XcpGetCalSegCount s] s)"
    by (simp add: XcpFreeze_def XcpFreezeSelectedCalSegs_def split_beta)
  show "keeps P s (snd (XcpFreeze s))" by (simp add: keeps_def e freeze_segs [OF s] freeze_list)
qed

text \<open>A step keeps the contract, or it creates a segment or block.\<close>

lemma step_keeps:
  assumes s: "all_segs P s" "sys_ok s" and st: "sys_step ap s t"
  shows "keeps P s t \<or> (\<exists>name src n i. 0 < n \<and> n \<le> 65528 \<and> caller_page n src
    \<and> (XcpCreateCalSeg name src n s = Some (i, t) \<or> XcpCreateCalBlk name src n s = Some (i, t)))"
proof -
  have a: "isActivated s" using s(2) by (simp add: sys_ok_def sys_inv_def)
  note plain = keeps_plain [OF s(1)]
  from st show ?thesis
  proof (cases rule: sys_step.cases)
    case (s_command cro len r)
    then have "XcpAsyncCommand ap False cro len s = Some (r, t)" by (simp add: XcpCommand_def)
    then show ?thesis using keeps_command [OF s(1) a] by blast
  next
    case (s_event e bases clock)
    then show ?thesis using keeps_event [OF s(1) a] by blast
  next
    case (s_abs_event e clock)
    then have "t = s \<or> trigger_event ap e [0, base_addr ap] clock s = Some t" by (auto simp: XcpEventAt_def split: if_splits)
    then show ?thesis using keeps_trigger [OF s(1)] s(1) by (auto simp: keeps_def)
  next
    case (s_segment n src name i)
    then show ?thesis by blast
  next
    case (s_block n src name i)
    then show ?thesis by blast
  next
    case (s_create_event name cycle prio)
    have "cal_part t = cal_part s" unfolding s_create_event
      by (simp add: XcpCreateEvent_def XcpCreateIndexedEvent_def cal_part_def isActivated_def Let_def)
    then show ?thesis using keeps_cal_part s(1) by blast
  next
    case (s_create_instance name cycle prio)
    have "cal_part t = cal_part s" unfolding s_create_instance
      by (simp add: XcpCreateEventInstance_def XcpCreateIndexedEvent_def cal_part_def isActivated_def Let_def)
    then show ?thesis using keeps_cal_part s(1) by blast
  next
    case (s_enable e b)
    have "cal_part t = cal_part s" unfolding s_enable by (simp add: XcpEventEnable_def cal_part_def isActivated_def)
    then show ?thesis using keeps_cal_part s(1) by blast
  next
    case (s_transmit b lost f q)
    then show ?thesis using keeps_cal_part [OF _ s(1)] by simp
  next
    case (s_message evc d)
    then show ?thesis using keeps_cal_part [OF message_parts(1) s(1)] by simp
  next
    case (s_print str)
    then show ?thesis using keeps_cal_part [OF message_parts(4) s(1)] by simp
  qed (use plain keeps_disconnect [OF s(1)] keeps_reset [OF s(1)] in blast)+
qed

end

section \<open>What a segment keeps for life\<close>

interpretation names: seg_contract "\<lambda>p c. calseg_name c = nm p" "\<lambda>p c. calseg_name c = nm p" for nm
  by unfold_locales (auto simp: set_page_def Let_def CalSegRcuLock_def CalSegRcuUnlock_def CalSegRcuTryPublish_def write_page_def
      split: if_splits)

definition same_seg :: "'a xcp_cal_scheme \<Rightarrow> 'a xcp_cal_scheme \<Rightarrow> bool" where
  "same_seg s t \<longleftrightarrow> XcpGetCalSegCount s \<le> XcpGetCalSegCount t \<and>
     (\<forall>i < XcpGetCalSegCount s. calseg_offset t i = calseg_offset s i
        \<and> calseg_name (CalSegPtr t i) = calseg_name (CalSegPtr s i) \<and> seg_bytes (CalSegPtr t i) = seg_bytes (CalSegPtr s i)
        \<and> page_data (CalSegPtr t i) 0 = page_data (CalSegPtr s i) 0)"

lemma same_seg_refl: "same_seg s s"
  by (simp add: same_seg_def)

lemma same_seg_trans: "same_seg s t \<Longrightarrow> same_seg t u \<Longrightarrow> same_seg s u"
  by (simp add: same_seg_def)

lemma step_same_seg:
  assumes ok: "sys_ok s" and st: "sys_step ap s t" shows "same_seg s t"
proof -
  have s: "sys_inv s" using ok by (simp add: sys_ok_def)
  note inv = sys_invD [OF s]
  have wf: "seg_wf (CalSegPtr s i)" if "i < XcpGetCalSegCount s" for i
    using all_segsD [OF inv(4) that] by (simp add: seg_ok_def)
  have P: "all_segs (seg_ref (\<lambda>p. page_data (cal_pool s p) 0)) s" "all_segs (\<lambda>p c. seg_bytes c = seg_bytes (cal_pool s p)) s"
    "all_segs (\<lambda>p c. calseg_name c = calseg_name (cal_pool s p)) s"
    using inv(4) by (simp_all add: all_segs_def seg_ref_def seg_ok_def)
  note k = refs.step_keeps [OF P(1) ok st] sizes.step_keeps [OF P(2) ok st] names.step_keeps [OF P(3) ok st]
  show ?thesis
  proof (cases "\<exists>name src n i. 0 < n \<and> n \<le> 65528 \<and> caller_page n src
      \<and> (XcpCreateCalSeg name src n s = Some (i, t) \<or> XcpCreateCalBlk name src n s = Some (i, t))")
    case True
    then obtain name src n i ms where n: "0 < n" "n \<le> 65528" "caller_page n src"
        and c: "XcpCreateCalSeg_impl name True src n ms s = Some (i, t)"
      using inv(1) by (auto simp: XcpCreateCalSeg_def XcpCreateCalBlk_def)
    from create_result [OF inv(1,4,5) n c] show ?thesis by (auto simp: same_seg_def dest: same_pages_fields)
  next
    case False
    with k have k: "keeps (seg_ref (\<lambda>p. page_data (cal_pool s p) 0)) s t" "keeps (\<lambda>p c. seg_bytes c = seg_bytes (cal_pool s p)) s t"
      "keeps (\<lambda>p c. calseg_name c = calseg_name (cal_pool s p)) s t" by blast+
    then have "XcpGetCalSegCount t = XcpGetCalSegCount s" "calseg_offset t = calseg_offset s"
      by (simp_all add: keeps_def cal_list_def XcpGetCalSegCount_def)
    with k show ?thesis
      by (simp add: same_seg_def keeps_def all_segs_def seg_ref_def seg_offsets_def CalSegPtr_def)
  qed
qed

theorem steps_same_seg:
  assumes "(sys_step ap)\<^sup>*\<^sup>* s t" and "sys_ok s" shows "same_seg s t"
proof -
  from assms have "sys_ok t \<and> same_seg s t"
  proof (induction rule: rtranclp_induct)
    case (step t u)
    then show ?case using step_ok step_same_seg same_seg_trans by blast
  qed (simp add: same_seg_refl)
  then show ?thesis ..
qed

section \<open>Names are bounded\<close>

definition short_name :: "nat \<Rightarrow> tXcpCalSeg \<Rightarrow> bool" where
  "short_name p c \<longleftrightarrow> length (calseg_name c) \<le> XCP_MAX_CALSEG_NAME"

interpretation short: seg_contract short_name short_name
  by unfold_locales (auto simp: short_name_def set_page_def Let_def CalSegRcuLock_def CalSegRcuUnlock_def
      CalSegRcuTryPublish_def write_page_def split: if_splits)

lemma step_short_name:
  assumes ok: "sys_ok s" and n: "all_segs short_name s" and st: "sys_step ap s t" shows "all_segs short_name t"
proof -
  have s: "sys_inv s" using ok by (simp add: sys_ok_def)
  note inv = sys_invD [OF s]
  from short.step_keeps [OF n ok st] show ?thesis
  proof
    assume "\<exists>name src n i. 0 < n \<and> n \<le> 65528 \<and> caller_page n src
      \<and> (XcpCreateCalSeg name src n s = Some (i, t) \<or> XcpCreateCalBlk name src n s = Some (i, t))"
    then obtain name src n' i ms where n': "0 < n'" "n' \<le> 65528" "caller_page n' src"
        and c: "XcpCreateCalSeg_impl name True src n' ms s = Some (i, t)"
      using inv(1) by (auto simp: XcpCreateCalSeg_def XcpCreateCalBlk_def)
    note r = create_result [OF inv(1,4,5) n' c]
    have "length (calseg_name (CalSegPtr t k)) \<le> XCP_MAX_CALSEG_NAME" if k: "k < XcpGetCalSegCount t" for k
    proof (cases "k < XcpGetCalSegCount s")
      case True
      then have "calseg_name (CalSegPtr t k) = calseg_name (CalSegPtr s k)" using r same_pages_fields by blast
      then show ?thesis using all_segsD [OF n True] by (simp add: short_name_def)
    next
      case False
      with r k have "calseg_name (CalSegPtr t k) = take (STRNLEN name XCP_MAX_CALSEG_NAME) name" by simp
      then show ?thesis by (simp add: STRNLEN_def)
    qed
    then show ?thesis by (simp add: all_segs_def seg_offsets_def short_name_def CalSegPtr_def)
  qed (simp add: keeps_def)
qed

lemma reach_short_name: "sys_reach ap s \<Longrightarrow> all_segs short_name s"
proof (induction rule: sys_reach.induct)
  case (r_start name ver mode mem files q0 s n)
  have a: "\<not> isActivated (static_state mem files q0)" by (simp add: static_state_def isActivated_def)
  obtain t where t: "XcpInit name ver mode (static_state mem files q0) = Some (True, t)" "XcpGetCalSegCount t = 1"
      "calseg_name (CalSegPtr t 0) = ''epk''" "sys_inv t"
    by (rule XcpInit_ok [OF a r_start(1-4)])
  with r_start have "s = t" by simp
  then have c: "cal_part (XcpStart ap (queueInit n) s) = cal_part s"
    using sys_invD(1) [OF t(4)] XcpStart_ok(1) [OF t(4), of ap "queueInit n"] sys_invD(1) by (auto simp: XcpStart_def cal_part_def)
  have "all_segs short_name s" using \<open>s = t\<close> t by (simp add: all_segs_def seg_offsets_def short_name_def CalSegPtr_def)
  then show ?case by (rule cal_part_all [OF c])
qed (use reach_ok step_short_name in blast)

end
