(* ===== verification/Props_Cal.thy ===== *)
theory Props_Cal
  imports Xcp_Lifetime Props_Session
begin

text \<open>
  Properties of calibration: what the client writes and reads, what the readers of a segment see, transactions,
  delayed publication, and the life of a segment. The witnesses run on \<open>with_seg\<close>, a segment of 16 bytes with
  number 1, and on \<open>connected\<close>.
\<close>

section \<open>Writing and reading\<close>

text \<open>What an accepted write of the client puts into a segment is what the client reads back at the same
  address, at once, whatever the readers of the segment do and whether or not the new page could be published.\<close>

theorem client_reads_written:
  assumes "all_segs (\<lambda>_. seg_wf) s" and "XcpCalSegWriteMemory dst d s = (CRC_CMD_OK, t)"
  shows "XcpCalSegReadMemory dst (length d) t = Inr d"
  by (rule read_written [OF assms])

definition example_write :: nat where
  "example_write = XcpAddrEncodeSegNumber 1 4"

lemma example_write_addr: "XcpAddrDecodeSegNumber example_write = Suc 0" "XcpAddrDecodeSegOffset example_write = 4"
  by (simp_all add: example_write_def XcpAddrEncodeSegNumber_def XcpAddrDecodeSegNumber_def XcpAddrDecodeSegOffset_def)

lemma example_write_ok: "length d \<le> 12 \<Longrightarrow> write_ok example_write d with_seg"
  by (simp add: write_ok_def example_write_addr with_seg_created(3) with_seg_views)

lemma example_write_accepted: "\<exists>t. XcpCalSegWriteMemory example_write [1, 2] with_seg = (CRC_CMD_OK, t)"
  by (rule exI [of _ "snd (XcpCalSegWriteMemory example_write [1, 2] with_seg)"])
    (use write_ok_iff [of example_write "[1, 2]" with_seg] example_write_ok [of "[1, 2]"] in \<open>simp add: prod_eq_iff\<close>)

lemma client_reads_written_witness:
  "\<exists>t. XcpCalSegWriteMemory example_write [1, 2] with_seg = (CRC_CMD_OK, t)
    \<and> XcpCalSegReadMemory example_write (length [1, 2 :: u8]) t = Inr [1, 2]"
  using example_write_accepted client_reads_written [OF with_seg_ok(4)] by blast

text \<open>A write is accepted exactly when its address names an existing segment, the bytes lie inside the
  segment and the client's working page is selected; a write that is not accepted is answered with ACCESS DENIED
  and changes nothing.\<close>

theorem client_write_checked:
  "XcpCalSegWriteMemory dst d s =
     (if XcpAddrDecodeSegNumber dst < XcpGetCalSegCount s
         \<and> XcpAddrDecodeSegOffset dst + length d \<le> seg_bytes (CalSegPtr s (XcpAddrDecodeSegNumber dst))
         \<and> xcp_access (CalSegPtr s (XcpAddrDecodeSegNumber dst)) = XCP_CALPAGE_WORKING_PAGE
      then (CRC_CMD_OK, snd (XcpCalSegWriteMemory dst d s)) else (CRC_ACCESS_DENIED, s))"
  using write_ok_iff [of dst d s] write_rejected [of dst d s] by (simp add: write_ok_def Let_def prod_eq_iff)

section \<open>Transactions\<close>

text \<open>C6. The end of a transaction publishes everything: when \<^verbatim>\<open>XcpCalSegEndAtomicTransaction\<close> returns OK, then in
  every segment (other than the EPK segment) the page that the next reader takes holds exactly what the client has
  written, for every schedule of readers that ran while the publication waited.\<close>

theorem transaction_published:
  assumes "all_segs seg_ok s" and "XcpCalSegEndAtomicTransaction sched s = (CRC_CMD_OK, t)"
    and "0 < i" "i < XcpGetCalSegCount s"
  shows "page_data (CalSegPtr t i) (ecu_page_next (CalSegPtr t i)) = client_view (CalSegPtr s i)"
  by (rule end_transaction_view [OF assms])

definition written :: xcp where
  "written = snd (XcpCalSegWriteMemory example_write [1, 2] (XcpCalSegBeginAtomicTransaction with_seg))"

lemma written_state: "written = upd_calseg (Suc 0) (\<lambda>c. (write_page 4 [1, 2] c)\<lparr>write_pending := True\<rparr>) (with_seg\<lparr>write_delayed := True\<rparr>)"
proof -
  have "write_ok example_write [1, 2] (with_seg\<lparr>write_delayed := True\<rparr>)"
    using example_write_ok [of "[1, 2]"] by (simp add: write_ok_def)
  then show ?thesis
    using write_delayed_state [of example_write "[1, 2]" "with_seg\<lparr>write_delayed := True\<rparr>"]
    by (simp add: written_def XcpCalSegBeginAtomicTransaction_def example_write_addr)
qed

lemma written_ok: "all_segs seg_ok written" "XcpGetCalSegCount written = 2"
proof -
  have "all_segs seg_ok (XcpCalSegBeginAtomicTransaction with_seg)"
    using with_seg_ok(3) by (simp add: XcpCalSegBeginAtomicTransaction_def all_segs_def seg_offsets_def)
  then show "all_segs seg_ok written" unfolding written_def by (rule ok.write_inv)
  show "XcpGetCalSegCount written = 2" by (simp add: written_state with_seg_created(3))
qed

lemma written_publish: "\<exists>t. XcpCalSegEndAtomicTransaction (\<lambda>_ _. []) written = (CRC_CMD_OK, t)"
proof -
  obtain m where "CalSegPtr with_seg (Suc 0) = (init_calseg True ''params'' 1 16 example_page (cal_pool running 192))\<lparr>seg_mode := m\<rparr>"
    using with_seg_created(2) by blast
  then have f: "free_page (CalSegPtr with_seg (Suc 0)) = 48" "\<not> free_page_hazard (CalSegPtr with_seg (Suc 0))"
    by (simp_all add: init_calseg_def CalSegRcuInit_def CalSegRcuReset_def Let_def aligned_page_size_def align_up_def)
  have l: "[Suc 0..<2] = [Suc 0]" by (simp add: upt_rec)
  show ?thesis
    by (simp add: l XcpCalSegEndAtomicTransaction_def XcpCalSegPublishAll_def written_state with_seg_created(3) publish_one_def
        XcpCalSegPublish_def try_publish_def CalSegRcuTryPublish_def f write_page_def)
qed

lemma transaction_published_witness:
  "\<exists>t. XcpCalSegEndAtomicTransaction (\<lambda>_ _. []) written = (CRC_CMD_OK, t)
    \<and> page_data (CalSegPtr t (Suc 0)) (ecu_page_next (CalSegPtr t (Suc 0))) = client_view (CalSegPtr written (Suc 0))"
  using written_publish transaction_published [OF written_ok(1), of "\<lambda>_ _. []" _ "Suc 0"] by (auto simp: written_ok(2))

section \<open>Publication\<close>

text \<open>C8. A write that could not be published because of a reader is delivered later: whatever is pending in a segment
  that no reader holds at the moment, two further accesses of a reader and one run of the
  background task make the client's content the one that readers see.\<close>

theorem pending_write_delivered:
  assumes "sys_inv s" and "\<not> write_delayed s" and "0 < i" "i < XcpGetCalSegCount s"
    and "lock_count (CalSegPtr s i) = 0" and "ecu_access (CalSegPtr s i) = XCP_CALPAGE_WORKING_PAGE"
  shows "reader_view (CalSegPtr (XcpBackgroundTasks (run_readers (reader_cycle i @ reader_cycle i) s)) i)
    = client_view (CalSegPtr s i)"
proof -
  note inv = sys_invD [OF assms(1)]
  let ?r = "run_readers (reader_cycle i @ reader_cycle i) s"
  have "cal_frame s ?r" by simp
  from cal_frameD(2) [OF this] have "isActivated ?r" using inv(1) by (simp add: isActivated_def)
  then show ?thesis
    using pending_delivered [OF inv(4) assms(3,4,2) pool_ok_inj [OF inv(5)] assms(5,6), of "\<lambda>_ _. []"]
    by (simp add: XcpBackgroundTasks_def)
qed

lemma delayed_sys: "sys_inv (s\<lparr>write_delayed := b\<rparr>) = sys_inv s"
proof -
  have "daq_inv (s\<lparr>write_delayed := b\<rparr>) = daq_inv s" by (rule daq_inv_cong) simp_all
  moreover have "events_wf (s\<lparr>write_delayed := b\<rparr>) = events_wf s" by (rule events_wf_cong) simp_all
  ultimately show ?thesis by (simp add: sys_inv_def all_segs_def seg_offsets_def pool_ok_def isActivated_def)
qed

lemma write_sys: "sys_inv s \<Longrightarrow> sys_inv (snd (XcpCalSegWriteMemory dst d s))"
proof -
  assume s: "sys_inv s"
  have f: "cal_frame s (snd (XcpCalSegWriteMemory dst d s))" by simp
  show ?thesis
  proof (rule sys_inv_segs [OF s])
    show "daq_inv (snd (XcpCalSegWriteMemory dst d s))" using daq_part_inv [OF cal_frameD(1) [OF f]] sys_invD(2) [OF s] by simp
    show "ev_part (snd (XcpCalSegWriteMemory dst d s)) = ev_part s" by (rule daq_part_ev [OF cal_frameD(1) [OF f]])
    show "cal_list (snd (XcpCalSegWriteMemory dst d s)) = cal_list s" by (rule cal_frame_list [OF f])
    show "all_segs seg_ok (snd (XcpCalSegWriteMemory dst d s))" by (rule ok.write_inv [OF sys_invD(4) [OF s]])
  qed (rule seg_contract.write_inv)
qed

lemma pending_write_delivered_witness:
  "reader_view (CalSegPtr (XcpBackgroundTasks (run_readers (reader_cycle (Suc 0) @ reader_cycle (Suc 0))
      (written\<lparr>write_delayed := False\<rparr>))) (Suc 0)) = client_view (CalSegPtr (written\<lparr>write_delayed := False\<rparr>) (Suc 0))"
proof (rule pending_write_delivered)
  show "sys_inv (written\<lparr>write_delayed := False\<rparr>)"
    unfolding written_def XcpCalSegBeginAtomicTransaction_def delayed_sys by (rule write_sys) (simp add: delayed_sys with_seg_ok)
qed (simp_all add: written_state with_seg_views with_seg_created(3) write_page_def)

section \<open>The life of a segment\<close>

text \<open>C29. The identity and the reference page of a segment are fixed for life: over any number of steps of the library - commands
  of the client, page copies and page switches, writes, freezes, creation of other segments - the segment keeps its index, its place,
  its name, its size and the content of its reference page, and segments are never removed.\<close>

theorem segments_for_life:
  assumes "sys_ok s" and "(sys_step ap)\<^sup>*\<^sup>* s t" and "i < XcpGetCalSegCount s"
  shows "i < XcpGetCalSegCount t \<and> calseg_offset t i = calseg_offset s i
    \<and> calseg_name (CalSegPtr t i) = calseg_name (CalSegPtr s i) \<and> seg_bytes (CalSegPtr t i) = seg_bytes (CalSegPtr s i)
    \<and> page_data (CalSegPtr t i) 0 = page_data (CalSegPtr s i) 0"
  using steps_same_seg [OF assms(2,1)] assms(3) by (auto simp: same_seg_def)

lemma segments_for_life_witness:
  "Suc 0 < XcpGetCalSegCount connected \<and> calseg_offset connected (Suc 0) = calseg_offset with_seg (Suc 0)
    \<and> calseg_name (CalSegPtr connected (Suc 0)) = calseg_name (CalSegPtr with_seg (Suc 0))
    \<and> seg_bytes (CalSegPtr connected (Suc 0)) = seg_bytes (CalSegPtr with_seg (Suc 0))
    \<and> page_data (CalSegPtr connected (Suc 0)) 0 = page_data (CalSegPtr with_seg (Suc 0)) 0"
proof (rule segments_for_life)
  show "sys_ok with_seg" by (rule reach_ok [OF with_seg_reach])
  show "(sys_step example_appl)\<^sup>*\<^sup>* with_seg connected"
    using s_command [OF _ connect_runs] by (auto simp: alloc_in_order_def connect_cro_def CRO_BYTE_def)
qed (simp add: with_seg_created(3))

text \<open>C28. Creating a segment: a successful \<^verbatim>\<open>XcpCreateCalSeg\<close> of a page of 1 to 65528 bytes returns a valid index
  of a segment of that size; a segment that is new shows its readers exactly the default page of the caller, every older
  segment keeps its place and its content, the blocks of all segments stay disjoint inside the pool.\<close>

theorem create_segment:
  assumes "sys_inv s" and "0 < n" "n \<le> 65528" and "caller_page n src"
    and "XcpCreateCalSeg name src n s = Some (i, t)" and "i \<noteq> XCP_UNDEFINED_CALSEG"
  shows "i < XcpGetCalSegCount t \<and> seg_bytes (CalSegPtr t i) = n \<and> pool_ok t
    \<and> (XcpGetCalSegCount s \<le> i \<longrightarrow> source_page n src = Some (reader_view (CalSegPtr t i)))
    \<and> (\<forall>k < XcpGetCalSegCount s. calseg_offset t k = calseg_offset s k \<and> same_pages (CalSegPtr s k) (CalSegPtr t k))"
proof -
  note inv = sys_invD [OF assms(1)]
  have "XcpCreateCalSeg_impl name True src n True s = Some (i, t)" using assms(5) inv(1) by (simp add: XcpCreateCalSeg_def)
  from create_result [OF inv(1,4,5) assms(2,3,4) this] assms(6) show ?thesis by blast
qed

lemma create_segment_witness:
  "1 < XcpGetCalSegCount with_seg \<and> seg_bytes (CalSegPtr with_seg 1) = 16 \<and> pool_ok with_seg
    \<and> source_page 16 (PageData example_page) = Some (reader_view (CalSegPtr with_seg 1))
    \<and> calseg_offset with_seg 0 = calseg_offset running 0 \<and> same_pages (CalSegPtr running 0) (CalSegPtr with_seg 0)"
  using create_segment [OF running_ok(1) _ _ example_page_caller with_seg_created(1)] running_parts by simp

end
