(* ===== verification/Xcp_Transaction.thy ===== *)
theory Xcp_Transaction
  imports Xcp_Lifetime
begin

text \<open>
  An atomic transaction of the client, with everything else that runs meanwhile: further commands, the background
  task that the server runs after each of them, events with a pending command, readers, the end of the session. A run is
  labelled with the lock and unlock calls of the readers, so that it can be compared with the same readers running
  alone. What a reader can see of a segment is \<open>reader_part\<close>; every other step leaves it as it is while publication is
  delayed.
\<close>

section \<open>Runs inside a transaction\<close>

text \<open>Not in a transaction: the command that ends it, the selection of a page (which is to be seen at once), and the freeze
  request, which locks the segments like a reader.\<close>

definition inner_command :: "bytes \<Rightarrow> bool" where
  "inner_command cro \<longleftrightarrow> CRO_BYTE cro 0 \<noteq> 0xEB \<and> CRO_BYTE cro 0 \<noteq> 0xF9 \<and> \<not> (CRO_BYTE cro 0 = 0xF1 \<and> CRO_BYTE cro 1 = 2)"

inductive inner_step :: "appl \<Rightarrow> 'a xcp_scheme \<Rightarrow> reader_op list \<Rightarrow> 'a xcp_scheme \<Rightarrow> bool" for ap where
  t_command: "inner_command cro \<Longrightarrow> XcpCommand ap cro len s = Some (r, t) \<Longrightarrow> inner_step ap s [] t"
| t_event: "XcpEventExtAt ap e bases clock s = Some t \<Longrightarrow> inner_step ap s [] t"
| t_abs_event: "XcpEventAt ap e clock s = Some t \<Longrightarrow> inner_step ap s [] t"
| t_background: "inner_step ap s [] (XcpBackgroundTasks s)"
| t_disconnect: "inner_step ap s [] (XcpDisconnect ap s)"
| t_reader: "inner_step ap s [op] (run_reader op s)"

inductive transaction :: "appl \<Rightarrow> 'a xcp_scheme \<Rightarrow> reader_op list \<Rightarrow> 'a xcp_scheme \<Rightarrow> bool" for ap where
  t_begin: "transaction ap s [] (XcpCalSegBeginAtomicTransaction s)"
| t_step: "transaction ap s ops t \<Longrightarrow> inner_step ap t ops' u \<Longrightarrow> transaction ap s (ops @ ops') u"

section \<open>What readers can see of a segment\<close>

definition reader_part where
  "reader_part c = (seg_bytes c, ecu_access c, lock_count c, ecu_page c, ecu_page_next c,
     page_data c 0, page_data c (ecu_page c), page_data c (ecu_page_next c))"

lemma reader_part_view: "reader_part c = reader_part d \<Longrightarrow> reader_view c = reader_view d"
  by (auto simp: reader_part_def reader_view_def)

lemma reader_part_lock: "reader_part c = reader_part d \<Longrightarrow> reader_part (snd (CalSegRcuLock c)) = reader_part (snd (CalSegRcuLock d))"
  by (auto simp: reader_part_def CalSegRcuLock_def Let_def page_data_def)

lemma reader_part_unlock: "reader_part c = reader_part d \<Longrightarrow> reader_part (CalSegRcuUnlock c) = reader_part (CalSegRcuUnlock d)"
  by (auto simp: reader_part_def CalSegRcuUnlock_def page_data_def)

lemma reader_part_write:
  assumes wf: "seg_wf c" and l: "off + length d \<le> seg_bytes c"
  shows "reader_part ((write_page off d c)\<lparr>write_pending := b\<rparr>) = reader_part c"
proof -
  have "ecu_page_next c \<in> seg_pages c \<and> ecu_page_next c \<noteq> xcp_page c" "ecu_page c \<in> seg_pages c \<and> ecu_page c \<noteq> xcp_page c"
    using wf by (auto simp: seg_wf_def)
  moreover have "lock_count (write_page off d c) = lock_count c" by (simp add: write_page_def)
  ultimately show ?thesis using write_page_other [OF wf l] by (simp add: reader_part_def)
qed

text \<open>Two states show the readers the same segments.\<close>

definition same_readers :: "'a xcp_cal_scheme \<Rightarrow> 'b xcp_cal_scheme \<Rightarrow> bool" where
  "same_readers s t \<longleftrightarrow> calseg_offset t = calseg_offset s \<and> XcpGetCalSegCount t = XcpGetCalSegCount s
     \<and> (\<forall>p \<in> seg_offsets s. reader_part (cal_pool t p) = reader_part (cal_pool s p))"

lemma same_readers_refl [simp]: "same_readers s s"
  by (simp add: same_readers_def)

lemma same_readers_trans: "same_readers s t \<Longrightarrow> same_readers t u \<Longrightarrow> same_readers s u"
  by (simp add: same_readers_def seg_offsets_def)

lemma same_readers_view:
  "same_readers s t \<Longrightarrow> i < XcpGetCalSegCount s \<Longrightarrow> reader_view (CalSegPtr t i) = reader_view (CalSegPtr s i)"
  by (rule reader_part_view) (simp add: same_readers_def CalSegPtr_def seg_offsets_def)

lemma same_readers_reader:
  assumes s: "same_readers s t" shows "same_readers (run_reader op s) (run_reader op t)"
proof -
  have o: "calseg_offset t = calseg_offset s" and n: "XcpGetCalSegCount t = XcpGetCalSegCount s"
    and p: "\<And>p. p \<in> seg_offsets s \<Longrightarrow> reader_part (cal_pool t p) = reader_part (cal_pool s p)"
    using s by (simp_all add: same_readers_def)
  show ?thesis
    by (cases op) (auto simp: same_readers_def XcpLockCalSeg_def XcpUnlockCalSeg_def split_beta cal_pool_upd CalSegPtr_def o n p
        intro!: reader_part_lock reader_part_unlock)
qed

section \<open>Steps that readers do not see\<close>

definition unseen :: "'a xcp_cal_scheme \<Rightarrow> 'a xcp_cal_scheme \<Rightarrow> bool" where
  "unseen s t \<longleftrightarrow> same_readers s t \<and> write_delayed t"

lemma unseen_cal: "cal_part t = cal_part s \<Longrightarrow> write_delayed s \<Longrightarrow> unseen s t"
  by (simp add: unseen_def same_readers_def cal_part_def XcpGetCalSegCount_def)

lemma unseen_trans: "unseen s t \<Longrightarrow> unseen t u \<Longrightarrow> unseen s u"
  using same_readers_trans by (auto simp: unseen_def)

lemma unseen_begin: "unseen s (XcpCalSegBeginAtomicTransaction s)"
  by (simp add: unseen_def same_readers_def XcpCalSegBeginAtomicTransaction_def)

lemma unseen_write:
  assumes ok: "all_segs seg_ok s" and w: "write_delayed s"
  shows "unseen s (snd (XcpCalSegWriteMemory dst d s))"
proof (cases "write_ok dst d s")
  case True
  define i where "i = XcpAddrDecodeSegNumber dst"
  have i: "i < XcpGetCalSegCount s" "XcpAddrDecodeSegOffset dst + length d \<le> seg_bytes (CalSegPtr s i)"
    using True by (auto simp: write_ok_def Let_def i_def)
  have "seg_wf (CalSegPtr s i)" using all_segsD [OF ok i(1)] by (simp add: seg_ok_def)
  from reader_part_write [OF this i(2)] write_delayed_state [OF True w] w show ?thesis
    by (auto simp: i_def [symmetric] unseen_def same_readers_def cal_pool_upd CalSegPtr_def)
next
  case False
  then show ?thesis using write_rejected [OF False] w by (simp add: unseen_def)
qed

lemma publish_delayed [simp]: "write_delayed s \<Longrightarrow> XcpCalSegPublishAll sched wait s = (CRC_CMD_OK, s)"
  by (simp add: XcpCalSegPublishAll_def)

lemma unseen_mode: "write_delayed s \<Longrightarrow> unseen s (snd (XcpSetCalSegMode n m s))"
  by (simp add: XcpSetCalSegMode_def Let_def unseen_def same_readers_def cal_pool_upd reader_part_def)

section \<open>Commands in a transaction\<close>

lemma unseen_after: "unseen s t \<Longrightarrow> cal_part u = cal_part t \<Longrightarrow> unseen s u"
  using unseen_cal [of u t] unseen_trans [of s t u] by (simp add: unseen_def)

lemma unseen_before:
  assumes "cal_part t = cal_part s" "write_delayed s" "unseen t u" shows "unseen s u"
  using unseen_trans [OF unseen_cal [OF assms(1,2)] assms(3)] .

lemma in_same: "cal_part t = cal_part s \<Longrightarrow> all_segs seg_ok s \<Longrightarrow> write_delayed s \<Longrightarrow> all_segs seg_ok t \<and> write_delayed t"
  using cal_part_all [of t s seg_ok] by (simp add: cal_part_def)

lemma unseen_write_mta:
  assumes s: "all_segs seg_ok s" "write_delayed s" shows "unseen s (snd (XcpWriteMta ap d s))"
proof -
  have "unseen s (advance_addr n (snd (XcpCalSegWriteMemory a d s)))" for n a
    by (rule unseen_after [OF unseen_write [OF s]]) simp
  then show ?thesis using s(2) by (auto simp: XcpWriteMta_def split_beta intro: unseen_cal)
qed

lemma unseen_download:
  assumes s: "all_segs seg_ok s" "write_delayed s"
  shows "unseen s (snd (cmd_download ap cro len s))" "unseen s (snd (cmd_short_download ap async cro len s))"
proof -
  show "unseen s (snd (cmd_download ap cro len s))"
    using s(2) unseen_write_mta [OF s] by (auto simp: cmd_download_def Let_def intro: unseen_cal)
  obtain e t where e: "set_mta_unless ap async cro s = (e, t)" by fastforce
  then have t: "cal_part t = cal_part s" using mta_unless_cal by (metis snd_conv)
  then have "all_segs seg_ok t \<and> write_delayed t" using s by (rule in_same)
  then have "unseen t (snd (XcpWriteMta ap d t))" for d using unseen_write_mta by blast
  then have w: "unseen s (snd (XcpWriteMta ap d t))" for d by (rule unseen_before [OF t s(2)])
  show "unseen s (snd (cmd_short_download ap async cro len s))"
    using e s(2) t w by (auto simp: cmd_short_download_def Let_def intro: unseen_cal)
qed

lemma unseen_copy:
  assumes s: "all_segs seg_ok s" "write_delayed s" shows "unseen s (snd (cmd_copy_cal_page cro s))"
proof -
  have t: "cal_part (CRM_LEN 1 s) = cal_part s" by simp
  have "all_segs seg_ok (CRM_LEN 1 s) \<and> write_delayed (CRM_LEN 1 s)" by (rule in_same [OF t s])
  then have "unseen (CRM_LEN 1 s) (snd (XcpCalSegCopyCalPage a b c d (CRM_LEN 1 s)))" for a b c d
    using unseen_write [of "CRM_LEN 1 s"] unseen_cal [of "CRM_LEN 1 s" "CRM_LEN 1 s"] by (simp add: XcpCalSegCopyCalPage_def Let_def)
  from unseen_before [OF t s(2) this] show ?thesis by (simp add: cmd_copy_cal_page_def)
qed

lemma unseen_disconnect:
  assumes w: "write_delayed s" shows "unseen s (XcpDisconnect ap s)"
proof -
  define s1 where "s1 = (if isDaqRunning s then snd (wait_queue_empty ap (XcpStopDaq s)) else s)"
  have 1: "cal_part s1 = cal_part s" by (simp add: s1_def)
  then have "write_delayed s1" using w by (simp add: cal_part_def)
  then have "XcpDisconnect ap s = s \<or> XcpDisconnect ap s = s1\<lparr>session_status := session_status s1 AND NOT SS_CONNECTED\<rparr>"
    by (simp add: XcpDisconnect_def Let_def s1_def [symmetric])
  then show ?thesis using 1 w by (auto intro: unseen_cal)
qed

lemma unseen_switch:
  assumes s: "all_segs seg_ok s" "write_delayed s" and c: "inner_command cro"
  shows "if_returns (\<lambda>_ t. unseen s t) (switch_command ap async cro len s)"
proof -
  have same: "unseen s t" if "cal_part t = cal_part s" for t :: "'a xcp_scheme" by (rule unseen_cal [OF that s(2)])
  have "if_returns (\<lambda>_ t. unseen s t) (cmd_set_daq_list_mode cro len s)"
    unfolding if_returns_def using same [OF set_mode_cmd_cal] by blast
  moreover have "unseen s (snd (cmd_disconnect ap s))" using unseen_disconnect [OF s(2)] by (simp add: cmd_disconnect_def)
  moreover have "unseen s (snd (cmd_set_segment_mode cro len s))" using unseen_mode [OF s(2)] same [of s] by (simp add: cmd_set_segment_mode_def)
  moreover have "unseen s (snd (cmd_user ap cro len s))" if "CRO_BYTE cro 0 = 0xF1"
    using c that unseen_begin [of s] by (auto simp: inner_command_def cmd_user_def Let_def intro!: same)
  moreover have "CRO_BYTE cro 0 \<noteq> 0xEB" "CRO_BYTE cro 0 \<noteq> 0xF9" using c by (simp_all add: inner_command_def)
  ultimately show ?thesis unfolding switch_command_def Let_def
    by (intro if_returns_if) (simp_all add: same unseen_download [OF s] unseen_copy [OF s])
qed

lemma unseen_async:
  assumes s: "all_segs seg_ok s" "write_delayed s" "isActivated s" and c: "inner_command cro"
    and r: "XcpAsyncCommand ap async cro len s = Some (r, t)"
  shows "unseen s t"
proof -
  define s1 where "s1 = CRM_LEN 1 (CRM_BYTE 0 PID_RES s)"
  have s1: "cal_part s1 = cal_part s" by (simp add: s1_def)
  then have in1: "all_segs seg_ok s1" "write_delayed s1" "isActivated s1" using in_same [OF s1 s(1,2)] s(3) by (simp_all add: cal_part_def)
  have "unseen s1 (snd (cmd_connect ap cro s1))" by (rule unseen_cal [OF connect_cal [OF in1(3)] in1(2)])
  with unseen_switch [OF in1(1,2) c] unseen_cal [OF refl in1(2)]
  have "if_returns (\<lambda>_ t. unseen s1 t) (run_command ap async cro len s)"
    unfolding run_command_def Let_def s1_def [symmetric] by (intro if_returns_if) simp_all
  then have "if_returns (\<lambda>a t. unseen s (snd (finish_command async (a, t)))) (run_command ap async cro len s)"
  proof (rule if_returns_mono)
    fix a and t :: "'a xcp_scheme" assume t: "unseen s1 t"
    have "cal_part (snd (finish_command async (a, t))) = cal_part t"
      by (auto simp: finish_command_def split: reply.split)
    then show "unseen s (snd (finish_command async (a, t)))"
      using unseen_after [OF unseen_before [OF s1 s(2) t]] by blast
  qed
  then show ?thesis using r unfolding XcpAsyncCommand_def if_returns_def by auto
qed

section \<open>A whole run\<close>

definition in_transaction :: "'a xcp_scheme \<Rightarrow> bool" where
  "in_transaction s \<longleftrightarrow> all_segs seg_ok s \<and> isActivated s \<and> pending_ok s \<and> write_delayed s"

lemma in_transaction_cal: "cal_part t = cal_part s \<Longrightarrow> pending_ok t \<Longrightarrow> in_transaction s \<Longrightarrow> unseen s t \<and> in_transaction t"
  using in_same [of t s] by (auto simp: in_transaction_def cal_part_def intro: unseen_cal)

lemma in_transaction_keeps: "unseen s t \<Longrightarrow> keeps seg_ok s t \<Longrightarrow> pending_ok t \<Longrightarrow> in_transaction s \<Longrightarrow> in_transaction t"
  by (simp add: in_transaction_def unseen_def keeps_def cal_list_def)

lemma async_unseen:
  assumes i: "in_transaction s" and c: "inner_command cro" and r: "XcpAsyncCommand ap async cro len s = Some (r, t)"
  shows "unseen s t \<and> in_transaction t"
proof -
  have u: "unseen s t" using unseen_async [OF _ _ _ c r] i by (simp add: in_transaction_def)
  have k: "keeps seg_ok s t" using ok.keeps_command [OF _ _ r] i by (simp add: in_transaction_def)
  have "pending_ok t" using command_pending [of s ap async cro len] i r by (simp add: in_transaction_def if_returns_def)
  from in_transaction_keeps [OF u k this i] u show ?thesis by blast
qed

lemma trigger_unseen:
  assumes i: "in_transaction s" and t: "trigger_event ap e bases clock s = Some t" shows "unseen s t \<and> in_transaction t"
proof -
  from t have "cal_part t = cal_part s" "pending_ok t = pending_ok s" by (auto simp: trigger_event_def pending_ok_def)
  moreover have "pending_ok s" using i by (simp add: in_transaction_def)
  ultimately show ?thesis using in_transaction_cal [OF _ _ i] by blast
qed

lemma unseen_self: "in_transaction s \<Longrightarrow> unseen s s \<and> in_transaction s"
  by (simp add: in_transaction_def unseen_def)

lemma pending_unseen:
  assumes i: "in_transaction s" and p: "XcpProcessPendingCommand ap e bases s = Some t" shows "unseen s t \<and> in_transaction t"
proof -
  define s1 where "s1 = s\<lparr>cmd_pending := False,
    mta_ptr := AppPtr (bases ! mta_ext s + XcpAddrDecodeDynOffset (mta_addr s)), mta_ext := XCP_ADDR_EXT_PTR\<rparr>"
  have s1: "unseen s s1 \<and> in_transaction s1" by (rule in_transaction_cal [OF _ _ i]) (simp_all add: s1_def pending_ok_def)
  show ?thesis
  proof (cases "cmd_pending s \<and> XcpAddrIsDyn (mta_ext s) \<and> XcpAddrDecodeDynEvent (mta_addr s) = e")
    case True
    with p obtain r where r: "XcpAsyncCommand ap True (cmd_pending_crm s) (cmd_pending_crm_len s) s1 = Some (r, t)"
      by (auto simp: XcpProcessPendingCommand_def s1_def)
    have "inner_command (cmd_pending_crm s)"
      using i True by (auto simp: in_transaction_def pending_ok_def memory_command_def inner_command_def)
    from async_unseen [OF _ this r] s1 show ?thesis using unseen_trans by blast
  next
    case False
    then have "t = s" using p unfolding XcpProcessPendingCommand_def by (simp only: if_False option.inject)
    then show ?thesis using unseen_self [OF i] by simp
  qed
qed

lemma event_unseen:
  assumes i: "in_transaction s" and p: "XcpEventExtAt ap e bases clock s = Some t" shows "unseen s t \<and> in_transaction t"
proof (cases "isStarted s")
  case True
  then obtain u where u: "XcpProcessPendingCommand ap e bases s = Some u"
      "t = u \<or> trigger_event ap e bases clock u = Some t"
    using p by (auto simp: XcpEventExtAt_def bind_eq_Some_conv split: if_splits)
  from pending_unseen [OF i u(1)] u(2) show ?thesis using trigger_unseen unseen_trans by blast
next
  case False
  then show ?thesis using p unseen_self [OF i] by (simp add: XcpEventExtAt_def)
qed

lemma disconnect_unseen:
  assumes i: "in_transaction s" shows "unseen s (XcpDisconnect ap s) \<and> in_transaction (XcpDisconnect ap s)"
proof -
  have u: "unseen s (XcpDisconnect ap s)" using i by (intro unseen_disconnect) (simp add: in_transaction_def)
  have "keeps seg_ok s (XcpDisconnect ap s)" using i by (intro ok.keeps_disconnect) (simp add: in_transaction_def)
  moreover have "pending_ok (XcpDisconnect ap s)" using i by (simp add: in_transaction_def disconnect_pending)
  ultimately show ?thesis using in_transaction_keeps [OF u _ _ i] u by blast
qed

lemma reader_seen:
  assumes i: "in_transaction s" shows "in_transaction (run_reader op s)"
proof -
  have "keeps seg_ok s (run_reader op s)" using i by (intro ok.keeps_plain) (simp add: in_transaction_def)
  moreover have "pending_ok (run_reader op s)" using pend_part_ok [OF io_pend [OF reader_io [of op s]]] i by (simp add: in_transaction_def)
  moreover have "write_delayed (run_reader op s)" using run_reader_same [of s op] i by (simp add: in_transaction_def same_list_def)
  ultimately show ?thesis using i by (simp add: in_transaction_def keeps_def cal_list_def)
qed

lemma inner_step_seen:
  assumes "inner_step ap s ops t" and i: "in_transaction s"
  shows "same_readers (run_readers ops s) t \<and> in_transaction t"
proof -
  have quiet: "same_readers (run_readers [] s) u \<and> in_transaction u" if "unseen s u \<and> in_transaction u" for u
    using that by (simp add: unseen_def run_readers_def)
  from assms(1) show ?thesis
  proof cases
    case (t_command cro len r)
    then show ?thesis using quiet [OF async_unseen [OF i t_command(2)]] by (simp add: XcpCommand_def)
  next
    case (t_event e bases clock)
    then show ?thesis using quiet [OF event_unseen [OF i t_event(2)]] by simp
  next
    case (t_abs_event e clock)
    have "unseen s t \<and> in_transaction t"
    proof (cases "isDaqRunning s")
      case True
      then have "trigger_event ap e [0, base_addr ap] clock s = Some t" using t_abs_event(2) by (simp add: XcpEventAt_def)
      then show ?thesis by (rule trigger_unseen [OF i])
    next
      case False
      then show ?thesis using t_abs_event(2) unseen_self [OF i] by (simp add: XcpEventAt_def)
    qed
    then show ?thesis using quiet t_abs_event(1) by simp
  next
    case t_background
    have "t = s" using i t_background(2) by (simp add: in_transaction_def XcpBackgroundTasks_def)
    then show ?thesis using quiet [OF unseen_self [OF i]] t_background(1) by simp
  next
    case t_disconnect
    then show ?thesis using quiet [OF disconnect_unseen [OF i, of ap]] by simp
  next
    case (t_reader op)
    then show ?thesis using reader_seen [OF i, of op] by (simp add: run_readers_def)
  qed
qed

lemma same_readers_run: "same_readers s t \<Longrightarrow> same_readers (run_readers ops s) (run_readers ops t)"
  unfolding run_readers_def by (induction ops arbitrary: s t) (simp_all add: same_readers_reader)

lemma transaction_seen:
  assumes "transaction ap s ops t" and "all_segs seg_ok s" "isActivated s" "pending_ok s"
  shows "same_readers (run_readers ops s) t \<and> in_transaction t"
  using assms
proof (induction rule: transaction.induct)
  case (t_begin s)
  then show ?case using unseen_begin [of s] ok.begin_inv [of s]
    by (simp add: run_readers_def unseen_def in_transaction_def XcpCalSegBeginAtomicTransaction_def pending_ok_def isActivated_def)
next
  case (t_step s ops t ops' u)
  then have t: "same_readers (run_readers ops s) t" "in_transaction t" by simp_all
  have "same_readers (run_readers ops' t) u \<and> in_transaction u" by (rule inner_step_seen [OF t_step.hyps(2) t(2)])
  moreover have "run_readers (ops @ ops') s = run_readers ops' (run_readers ops s)" by (simp add: run_readers_def)
  ultimately show ?case using same_readers_run [OF t(1), of ops'] same_readers_trans by metis
qed

end
