(* ===== verification/Props_Cmd.thy ===== *)
theory Props_Cmd
  imports Props_Cal Xcp_Transaction
begin

text \<open>
  Properties of the command processor's memory access: what the packets of the client do from end to end, and what readers see
  of them during a transaction.
\<close>

section \<open>Short download and short upload\<close>

lemma crm_upload: "crm s 0 = 0xFF \<Longrightarrow> crm_packet (CRM_LEN (1 + length d) (CRM_DATA 1 d s)) = 0xFF # d"
proof -
  assume s: "crm s 0 = 0xFF"
  have "mem_get 0 (Suc (length d)) (mem_set (Suc 0) d (crm s)) = 0xFF # d"
    by (rule nth_equalityI) (simp, auto simp: mem_get_def mem_set_def s nth_Cons' simp del: upt_Suc)
  then show ?thesis by (simp add: crm_packet_def CRM_LEN_def CRM_DATA_def)
qed

lemma cal_read_cong: "cal_part t = cal_part s \<Longrightarrow> XcpCalSegReadMemory a n t = XcpCalSegReadMemory a n s"
  by (simp add: XcpCalSegReadMemory_def cal_part_def XcpGetCalSegCount_def CalSegPtr_def Let_def)

lemma seg_set_mta: "0x80000000 \<le> addr \<Longrightarrow> XcpSetMta ap XCP_ADDR_EXT_SEG addr s
   = (CRC_CMD_OK, s\<lparr>mta_ext := XCP_ADDR_EXT_SEG, mta_addr := addr, mta_ptr := NullPtr\<rparr>)"
  by (simp add: XcpSetMta_def addr_kind_defs Let_def)

lemma run_switch: "isConnected s \<Longrightarrow> 1 \<le> len \<Longrightarrow> len \<le> XCPTL_MAX_CTO_SIZE \<Longrightarrow> CRO_BYTE cro 0 \<noteq> 0xFF \<Longrightarrow>
   XcpCommand ap cro len s = map_option (finish_command False) (switch_command ap False cro len (CRM_LEN 1 (CRM_BYTE 0 PID_RES s)))"
  by (auto simp: XcpCommand_def XcpAsyncCommand_def run_command_def Let_def isConnected_def CRM_LEN_def CRM_BYTE_def)

lemma fresh_cal: "cal_part (CRM_LEN 1 (CRM_BYTE 0 PID_RES s)) = cal_part s"
  by simp

text \<open>C27. What a client downloads to a calibration segment with \<^verbatim>\<open>SHORT_DOWNLOAD\<close> it gets back with
  \<^verbatim>\<open>SHORT_UPLOAD\<close> of the same address and length: when the download packet is answered positively, then the upload
  packet is answered by one response that consists of 0xFF and exactly the downloaded bytes.\<close>

theorem download_then_upload:
  assumes s: "sys_inv s" "isConnected s" and addr: "0x80000000 \<le> addr"
    and cro: "CRO_BYTE cro 0 = 0xED" "CRO_BYTE cro 1 = length d" "CRO_BYTE cro 3 = XCP_ADDR_EXT_SEG" "CRO_DWORD cro 1 = addr"
      "mem_get 8 (length d) cro = d"
    and down: "XcpCommand ap cro (8 + length d) s = Some (CRC_CMD_OK, t)"
    and cro': "CRO_BYTE cro' 0 = 0xF4" "CRO_BYTE cro' 1 = length d" "CRO_BYTE cro' 3 = XCP_ADDR_EXT_SEG" "CRO_DWORD cro' 1 = addr"
  shows "\<exists>u. XcpCommand ap cro' 8 t = Some (CRC_CMD_OK, u) \<and> tl_sent u = tl_sent t @ [0xFF # d]"
proof -
  have n: "length d \<le> 240"
  proof (rule ccontr)
    assume "\<not> length d \<le> 240"
    then have "XcpCommand ap cro (8 + length d) s
        = Some (finish_command False (NegativeResponse CRC_CMD_SYNTAX, CRM_LEN 1 (CRM_BYTE 0 PID_RES s)))"
      using s(2) cro(1) by (auto simp: XcpCommand_def XcpAsyncCommand_def run_command_def Let_def isConnected_def CRM_LEN_def CRM_BYTE_def)
    then show False using down by (simp add: finish_command_def)
  qed
  define s1 where "s1 = CRM_LEN 1 (CRM_BYTE 0 PID_RES s)"
  define s2 where "s2 = s1\<lparr>mta_ext := XCP_ADDR_EXT_SEG, mta_addr := addr, mta_ptr := NullPtr\<rparr>"
  obtain r s3 where w: "XcpCalSegWriteMemory addr d s2 = (r, s3)" by fastforce
  have d: "XcpCommand ap cro (8 + length d) s = Some (finish_command False (check_error (r, advance_addr (length d) s3)))"
    using run_switch [OF s(2), of "8 + length d" cro ap] n addr cro w [unfolded s2_def s1_def]
    by (simp add: switch_command_def cmd_short_download_def check_len_def set_mta_unless_def seg_set_mta
        XcpWriteMta_def addr_kind_defs)
  then have r: "r = CRC_CMD_OK" using down by (auto simp: finish_command_def check_error_def split: if_splits)
  have t: "t = XcpSendResponse False (advance_addr (length d) s3)"
    using d down r by (simp add: finish_command_def check_error_def)
  have "cal_frame s2 (snd (XcpCalSegWriteMemory addr d s2))" by simp
  then have f: "cal_frame s2 s3" by (simp add: w)
  have wf: "all_segs (\<lambda>_. seg_wf) s2"
  proof -
    have "cal_part s2 = cal_part s" by (simp add: s2_def s1_def)
    moreover have "all_segs (\<lambda>_. seg_wf) s" using sys_invD(4) [OF s(1)] by (simp add: all_segs_def seg_ok_def)
    ultimately show ?thesis by (rule cal_part_all)
  qed
  have "XcpCalSegReadMemory addr (length d) s3 = Inr d" using read_written [OF wf] w r by simp
  moreover define t1 where "t1 = CRM_LEN 1 (CRM_BYTE 0 PID_RES t)"
  moreover define t2 where "t2 = t1\<lparr>mta_ext := XCP_ADDR_EXT_SEG, mta_addr := addr, mta_ptr := NullPtr\<rparr>"
  have "cal_part t2 = cal_part s3" by (simp add: t2_def t1_def t)
  ultimately have rd: "XcpCalSegReadMemory addr (length d) t2 = Inr d" using cal_read_cong by metis
  have con: "isConnected t" using s(2) cal_frameD(2) [OF f] by (simp add: t isConnected_def s2_def s1_def XcpSendResponse_def
      advance_addr_def CRM_LEN_def CRM_BYTE_def)
  have "crm (advance_addr (length d) t2) 0 = 0xFF"
    by (simp add: t2_def t1_def advance_addr_def CRM_LEN_def CRM_BYTE_def)
  note pk = crm_upload [OF this, of d, unfolded advance_addr_def]
  show ?thesis
    using run_switch [OF con, of 8 cro' ap] n addr cro' rd [unfolded t2_def t1_def] pk [unfolded t2_def t1_def]
    by (simp add: switch_command_def cmd_short_upload_def check_len_def set_mta_unless_def seg_set_mta upload_response_def
        XcpReadMta_def addr_kind_defs finish_command_def Let_def XcpSendResponse_def advance_addr_def)
qed

lemma memory_cro: "length d < 256 \<Longrightarrow> c < 256 \<Longrightarrow> CRO_BYTE (memory_cro c d) 0 = c \<and> CRO_BYTE (memory_cro c d) 1 = length d
    \<and> CRO_BYTE (memory_cro c d) 3 = XCP_ADDR_EXT_SEG \<and> CRO_DWORD (memory_cro c d) 1 = example_write
    \<and> mem_get 8 (length d) (memory_cro c d) = d"
  by (auto simp: memory_cro_def CRO_BYTE_def CRO_DWORD_def mem_set_def mem_get_def rd32_def rd16_def example_write_def
      XcpAddrEncodeSegNumber_def unat_of_nat intro!: nth_equalityI)

lemma example_high: "0x80000000 \<le> example_write"
  by (simp add: example_write_def XcpAddrEncodeSegNumber_def)

lemma write_ok_cal: "cal_part t = cal_part s \<Longrightarrow> write_ok a d t = write_ok a d s"
  by (simp add: write_ok_def cal_part_def CalSegPtr_def XcpGetCalSegCount_def)

lemma short_download_runs:
  assumes con: "isConnected s" and w: "write_ok example_write [1, 2, 3] s"
  shows "\<exists>t. XcpCommand example_appl (memory_cro 0xED [1, 2, 3]) 11 s = Some (CRC_CMD_OK, t)"
proof -
  let ?s = "CRM_LEN (Suc 0) (CRM_BYTE 0 255 s)\<lparr>mta_ext := XCP_ADDR_EXT_SEG, mta_addr := example_write, mta_ptr := NullPtr\<rparr>"
  have "cal_part ?s = cal_part s" by simp
  then have "write_ok example_write [1, 2, 3] ?s" using w write_ok_cal by blast
  then obtain u where "XcpCalSegWriteMemory example_write [1, 2, 3] ?s = (CRC_CMD_OK, u)"
    using write_ok_iff [of example_write "[1, 2, 3]" ?s] by (metis prod.collapse)
  then show ?thesis
    using run_switch [OF con, where len = 11 and cro = "memory_cro 0xED [1, 2, 3]" and ap = example_appl] memory_cro [where d = "[1, 2, 3]" and c = "0xED"]
    by (simp add: switch_command_def cmd_short_download_def check_len_def set_mta_unless_def seg_set_mta example_high
        XcpWriteMta_def addr_kind_defs finish_command_def check_error_def)
qed

lemma connected_write: "write_ok example_write [1, 2, 3] connected"
  using write_ok_cal [OF connected_cal] example_write_ok [of "[1, 2, 3]"] by simp

lemma download_then_upload_witness:
  "\<exists>t u. XcpCommand example_appl (memory_cro 0xED [1, 2, 3]) 11 connected = Some (CRC_CMD_OK, t)
    \<and> XcpCommand example_appl (memory_cro 0xF4 [1, 2, 3]) 8 t = Some (CRC_CMD_OK, u)
    \<and> tl_sent u = tl_sent t @ [[0xFF, 1, 2, 3]]"
  using short_download_runs [OF connected_ok(2) connected_write]
    download_then_upload [OF connected_ok(3,2), of example_write "memory_cro 0xED [1,2,3]" "[1,2,3]" example_appl _ "memory_cro 0xF4 [1,2,3]"]
    memory_cro [where d = "[1, 2, 3]" and c = "0xED"] memory_cro [where d = "[1, 2, 3]" and c = "0xF4"]
  by (auto simp: example_write_def XcpAddrEncodeSegNumber_def)

section \<open>Transactions\<close>

text \<open>C7. A transaction is invisible until it ends: after \<^verbatim>\<open>XcpCalSegBeginAtomicTransaction\<close>, whatever runs until
  the client ends the transaction - commands that write any segment or anything else (but for page selection and freeze requests), the
  background task after each of them, events with the pending command they execute, disconnects, and readers locking and unlocking in between, in
  any order - each segment looks to its readers at every moment exactly as if only the readers had run, and publication stays delayed.\<close>

theorem transaction_invisible:
  assumes "transaction ap s ops t" and "all_segs seg_ok s" and "isActivated s" and "pending_ok s" and "j < XcpGetCalSegCount s"
  shows "reader_view (CalSegPtr t j) = reader_view (CalSegPtr (run_readers ops s) j) \<and> write_delayed t"
proof -
  have r: "same_readers (run_readers ops s) t \<and> in_transaction t" by (rule transaction_seen [OF assms(1-4)])
  have "XcpGetCalSegCount (run_readers ops s) = XcpGetCalSegCount s" using run_readers_same [of s ops] by (simp add: same_list_def)
  then show ?thesis using same_readers_view [of "run_readers ops s" t j] r assms(5) by (simp add: in_transaction_def)
qed

lemma connected_reader: "reader_view (CalSegPtr (run_readers [ReaderLock 1, ReaderUnlock 1] connected) 1) = example_page"
proof -
  have c: "CalSegPtr connected 1 = CalSegPtr with_seg 1" using connected_cal by (simp add: cal_part_def CalSegPtr_def)
  obtain m where m: "CalSegPtr with_seg (Suc 0) = (init_calseg True ''params'' 1 16 example_page (cal_pool running 192))\<lparr>seg_mode := m\<rparr>"
    using with_seg_created(2) by blast
  then have l: "lock_count (CalSegPtr with_seg 1) = 0"
    by (simp add: init_calseg_def CalSegRcuInit_def CalSegRcuReset_def Let_def)
  have "run_readers [ReaderLock 1, ReaderUnlock 1] connected = upd_calseg 1 (\<lambda>c. CalSegRcuUnlock (snd (CalSegRcuLock c))) connected"
    by (simp add: run_readers_def XcpLockCalSeg_def XcpUnlockCalSeg_def split_beta upd_calseg_def CalSegPtr_def)
  then have "CalSegPtr (run_readers [ReaderLock 1, ReaderUnlock 1] connected) 1 = CalSegRcuUnlock (snd (CalSegRcuLock (CalSegPtr with_seg 1)))"
    using c by simp
  moreover have "reader_view (CalSegRcuUnlock (snd (CalSegRcuLock (CalSegPtr with_seg 1)))) = reader_view (CalSegPtr with_seg 1)"
    using l cycle_state [OF l] by (simp add: reader_view_def page_data_def)
  ultimately show ?thesis using with_seg_views(2) by simp
qed

lemma transaction_invisible_witness:
  "\<exists>u. XcpCommand example_appl (memory_cro 0xED [1, 2, 3]) 11 (XcpCalSegBeginAtomicTransaction connected) = Some (CRC_CMD_OK, u)
    \<and> reader_view (CalSegPtr (run_readers [ReaderLock 1, ReaderUnlock 1] (XcpBackgroundTasks u)) 1) = example_page"
proof -
  let ?b = "XcpCalSegBeginAtomicTransaction connected"
  have "isConnected ?b" using connected_ok(2) by (simp add: XcpCalSegBeginAtomicTransaction_def isConnected_def)
  moreover have "write_ok example_write [1, 2, 3] ?b"
    using connected_write by (simp add: XcpCalSegBeginAtomicTransaction_def write_ok_def)
  ultimately obtain u where u: "XcpCommand example_appl (memory_cro 0xED [1, 2, 3]) 11 ?b = Some (CRC_CMD_OK, u)"
    using short_download_runs by blast
  have "inner_command (memory_cro 0xED [1, 2, 3])" using memory_cro [where d = "[1, 2, 3]" and c = "0xED"] by (simp add: inner_command_def)
  from t_step [OF t_begin t_command [OF this u]] have "transaction example_appl connected [] u" by simp
  from t_step [OF this t_background] have "transaction example_appl connected [] (XcpBackgroundTasks u)" by simp
  from t_step [OF this t_reader [of _ _ "ReaderLock 1"]]
  have "transaction example_appl connected [ReaderLock 1] (run_reader (ReaderLock 1) (XcpBackgroundTasks u))" by simp
  from t_step [OF this t_reader [of _ _ "ReaderUnlock 1"]]
  have "transaction example_appl connected [ReaderLock 1, ReaderUnlock 1] (run_readers [ReaderLock 1, ReaderUnlock 1] (XcpBackgroundTasks u))"
    by (simp add: run_readers_def)
  from transaction_invisible [OF this, of 1] u connected_reader sys_invD(1,4) [OF connected_ok(3)] reach_ok [OF connected_ok(4)]
  show ?thesis by (auto simp: sys_ok_def connected_count)
qed

end
