(* ===== verification/Queue_Order.thy ===== *)
theory Queue_Order
  imports Xcp_Base
begin

text \<open>
  What the lock-free transmit queues share: where a thread is inside an operation, the states of an entry, and what
  every queue with many producers and one consumer promises about order. A run is observed from outside:
  its history records a reservation when its producer wins it, and the bytes of the entry when the producer commits
  it. The locale \<open>fifo_order\<close> is the contract between an algorithm and its abstraction, the list of entries that are
  reserved and not yet delivered; its theorem says that the consumer gets the beginning of the history.
\<close>

section \<open>Threads and entries\<close>

text \<open>Where a producer is: \<open>PTail\<close> has read \<open>tail\<close>, \<open>PLoaded\<close> also \<open>head\<close>, \<open>PClaimed\<close> has won the
  compare-and-swap at a cursor value, \<open>PReserved\<close> may write its buffer. \<open>PHead\<close> has lost the compare-and-swap, has
  the new \<open>head\<close> and will read \<open>tail\<close> again. The first argument is the length of the entry.\<close>

datatype producer = PIdle | PTail nat nat | PLoaded nat nat nat | PHead nat nat | PClaimed nat nat | PReserved nat nat

datatype consumer = CIdle | CCleared nat

text \<open>\<open>Claimed\<close>: the producer has moved \<open>head\<close> but not yet stored the header; \<open>Reserved\<close>: the header
  holds the length; \<open>Full\<close>: committed, with its bytes; \<open>Dead\<close>: cleared by the consumer, \<open>tail\<close> not yet
  moved. The first argument is the producer, the length excludes the entry header.\<close>

datatype slot = Claimed nat nat | Reserved nat nat | Full "u8 list" | Dead nat

fun slot_len :: "slot \<Rightarrow> nat" where
  "slot_len (Claimed p l) = l"
| "slot_len (Reserved p l) = l"
| "slot_len (Full d) = length d"
| "slot_len (Dead l) = l"

text \<open>The entries one behind the other, each with a header of four bytes, from a position on.\<close>

fun layout :: "nat \<Rightarrow> slot list \<Rightarrow> (nat \<times> slot) list" where
  "layout t [] = []"
| "layout t (x # xs) = (t, x) # layout (t + (slot_len x + 4)) xs"

fun extent :: "slot list \<Rightarrow> nat" where
  "extent [] = 0"
| "extent (x # xs) = slot_len x + 4 + extent xs"

lemma layout_append: "layout t (xs @ ys) = layout t xs @ layout (t + extent xs) ys"
  by (induction xs arbitrary: t) (simp_all add: algebra_simps)

lemma extent_append [simp]: "extent (xs @ ys) = extent xs + extent ys"
  by (induction xs) simp_all

lemma layout_bounds: "(p, x) \<in> set (layout t xs) \<Longrightarrow> t \<le> p \<and> p + slot_len x + 4 \<le> t + extent xs"
  by (induction xs arbitrary: t) fastforce+

lemma layout_slot: "(p, x) \<in> set (layout t xs) \<Longrightarrow> x \<in> set xs"
  by (induction xs arbitrary: t) auto

lemma layout_split:
  "(p, x) \<in> set (layout t xs) \<Longrightarrow> \<exists>us vs. xs = us @ x # vs \<and> p = t + extent us"
proof (induction xs arbitrary: t)
  case (Cons y xs)
  show ?case
  proof (cases "p = t \<and> x = y")
    case True
    then show ?thesis by (intro exI [of _ "[]"] exI [of _ xs]) simp
  next
    case False
    then have "(p, x) \<in> set (layout (t + (slot_len y + 4)) xs)" using Cons.prems by auto
    from Cons.IH [OF this] obtain us vs where "xs = us @ x # vs" "p = t + (slot_len y + 4) + extent us" by blast
    then show ?thesis by (intro exI [of _ "y # us"] exI [of _ vs]) simp
  qed
qed simp

lemma layout_obtain:
  assumes "(p, x) \<in> set (layout t xs)"
  obtains us vs where "xs = us @ x # vs" "p = t + extent us"
  using layout_split [OF assms] by blast

text \<open>Replacing a slot by one of the same length.\<close>

lemma layout_replace:
  assumes "slot_len y = slot_len x"
  shows "(p, z) \<in> set (layout t (us @ y # vs)) \<longleftrightarrow>
    (if p = t + extent us then z = y else (p, z) \<in> set (layout t (us @ x # vs)))"
proof -
  have a: "p < t + extent us" if "(p, z) \<in> set (layout t us)" using layout_bounds [OF that] by linarith
  have b: "t + extent us < p" if "(p, z) \<in> set (layout (t + extent us + (slot_len x + 4)) vs)"
    using layout_bounds [OF that] by linarith
  show ?thesis using a b assms by (auto simp: layout_append add.assoc)
qed

lemma layout_at: "(t + extent us, z) \<in> set (layout t (us @ x # vs)) \<longleftrightarrow> z = x"
  using layout_replace [of x x "t + extent us" z t us vs] by simp

section \<open>Histories\<close>

type_synonym history = "(nat \<times> u8 list option) list"

definition commit_entry :: "nat \<Rightarrow> u8 list \<Rightarrow> history \<Rightarrow> history" where
  "commit_entry pos d h = map (\<lambda>(p, x). if p = pos then (p, Some d) else (p, x)) h"

lemma commit_keys: "map fst (commit_entry pos d h) = map fst h"
  by (simp add: commit_entry_def comp_def split_def if_distrib)

lemma commit_other: "pos \<notin> fst ` set h \<Longrightarrow> commit_entry pos d h = h"
  by (induction h) (auto simp: commit_entry_def)

lemma commit_append: "commit_entry pos d (xs @ ys) = commit_entry pos d xs @ commit_entry pos d ys"
  by (simp add: commit_entry_def)

lemma commit_middle:
  assumes "pos \<notin> fst ` set us" "pos \<notin> fst ` set vs"
  shows "commit_entry pos d (us @ (pos, x) # vs) = us @ (pos, Some d) # vs"
  using commit_other [OF assms(1)] commit_other [OF assms(2)] commit_append [of pos d us "(pos, x) # vs"]
    commit_append [of pos d "[(pos, x)]" vs] by (simp add: commit_entry_def [of _ _ "[_]"])

text \<open>What an observer sees of a step.\<close>

datatype queue_event = Claims nat | Commits nat "u8 list" | Silent

inductive recorded :: "'c \<Rightarrow> ('c \<Rightarrow> queue_event \<Rightarrow> 'c \<Rightarrow> bool) \<Rightarrow> 'c \<Rightarrow> history \<Rightarrow> bool" for init step where
  rec_init: "recorded init step init []"
| rec_claims: "recorded init step c h \<Longrightarrow> step c (Claims k) c' \<Longrightarrow> recorded init step c' (h @ [(k, None)])"
| rec_commits: "recorded init step c h \<Longrightarrow> step c (Commits k d) c' \<Longrightarrow> recorded init step c' (commit_entry k d h)"
| rec_silent: "recorded init step c h \<Longrightarrow> step c Silent c' \<Longrightarrow> recorded init step c' h"

section \<open>The contract\<close>

text \<open>Entries that the consumer takes, all of them committed.\<close>

definition delivered :: "(nat \<times> u8 list) list \<Rightarrow> history" where
  "delivered ds = map (\<lambda>(k, d). (k, Some d)) ds"

lemma delivered_snd: "map snd (delivered ds) = map Some (map snd ds)"
  by (simp add: delivered_def split_def)

lemma delivered_at_most_one:
  assumes "R xs \<and> g' = g \<or> (\<exists>k d ys. xs = (k, Some d) # ys \<and> R ys \<and> g' = g @ [d])"
  shows "\<exists>ds ys. xs = delivered ds @ ys \<and> R ys \<and> g' = g @ map snd ds"
  using assms
proof (elim disjE exE conjE)
  assume "R xs" "g' = g"
  then show ?thesis by (intro exI [of _ "[]"] exI [of _ xs]) (simp add: delivered_def)
next
  fix k d ys
  assume "xs = (k, Some d) # ys" "R ys" "g' = g @ [d]"
  then show ?thesis by (intro exI [of _ "[(k, d)]"] exI [of _ ys]) (simp add: delivered_def)
qed

text \<open>\<open>rep c xs\<close>: the entries that are reserved and not yet delivered. \<open>end_pos\<close> is the cursor that the next
  reservation gets.\<close>

locale fifo_order =
  fixes step :: "'c \<Rightarrow> queue_event \<Rightarrow> 'c \<Rightarrow> bool" and got :: "'c \<Rightarrow> u8 list list"
    and end_pos :: "'c \<Rightarrow> nat" and rep :: "'c \<Rightarrow> history \<Rightarrow> bool"
  assumes claims: "rep c xs \<Longrightarrow> step c (Claims k) c' \<Longrightarrow>
      rep c' (xs @ [(k, None)]) \<and> got c' = got c \<and> k = end_pos c \<and> k < end_pos c'"
    and commits: "rep c xs \<Longrightarrow> step c (Commits k d) c' \<Longrightarrow>
      k \<in> fst ` set xs \<and> rep c' (commit_entry k d xs) \<and> got c' = got c \<and> end_pos c' = end_pos c"
    and silent: "rep c xs \<Longrightarrow> step c Silent c' \<Longrightarrow> end_pos c' = end_pos c
      \<and> (\<exists>ds ys. xs = delivered ds @ ys \<and> rep c' ys \<and> got c' = got c @ map snd ds)"
begin

definition explained :: "'c \<Rightarrow> history \<Rightarrow> bool" where
  "explained c h \<longleftrightarrow> (\<exists>dn xs. h = dn @ xs \<and> map snd dn = map Some (got c) \<and> rep c xs)
     \<and> distinct (map fst h) \<and> (\<forall>k \<in> fst ` set h. k < end_pos c)"

lemma explained_claims:
  assumes "explained c h" "step c (Claims k) c'"
  shows "explained c' (h @ [(k, None)])"
proof -
  from assms(1) obtain dn xs where h: "h = dn @ xs" "map snd dn = map Some (got c)" "rep c xs"
    and d: "distinct (map fst h)" "\<forall>j \<in> fst ` set h. j < end_pos c" unfolding explained_def by blast
  note c = claims [OF h(3) assms(2)]
  have "\<exists>dn xs'. h @ [(k, None)] = dn @ xs' \<and> map snd dn = map Some (got c') \<and> rep c' xs'"
    using h c [THEN conjunct1] c [THEN conjunct2, THEN conjunct1] by - (rule exI [of _ dn], rule exI [of _ "xs @ [(k, None)]"], simp)
  moreover have k: "k = end_pos c" "k < end_pos c'" using c by simp_all
  moreover have "distinct (map fst (h @ [(k, None)]))" using d k(1) by auto
  moreover have "\<forall>j \<in> fst ` set (h @ [(k, None)]). j < end_pos c'" using d(2) k by fastforce
  ultimately show ?thesis unfolding explained_def by (intro conjI)
qed

lemma explained_commits:
  assumes "explained c h" "step c (Commits k d) c'"
  shows "explained c' (commit_entry k d h)"
proof -
  from assms(1) obtain dn xs where h: "h = dn @ xs" "map snd dn = map Some (got c)" "rep c xs"
    and d: "distinct (map fst h)" "\<forall>j \<in> fst ` set h. j < end_pos c" unfolding explained_def by blast
  note c = commits [OF h(3) assms(2)]
  have "k \<notin> fst ` set dn" using c d(1) h(1) by auto
  then have e: "commit_entry k d h = dn @ commit_entry k d xs" using h(1) by (simp add: commit_append commit_other)
  have "fst ` set (commit_entry k d h) = fst ` set h" using commit_keys [of k d h] by (metis set_map)
  then show ?thesis using e h(2) c d commit_keys [of k d h] unfolding explained_def by auto
qed

lemma explained_silent:
  assumes "explained c h" "step c Silent c'"
  shows "explained c' h"
proof -
  from assms(1) obtain dn xs where h: "h = dn @ xs" "map snd dn = map Some (got c)" "rep c xs"
    and d: "distinct (map fst h)" "\<forall>j \<in> fst ` set h. j < end_pos c" unfolding explained_def by blast
  from silent [OF h(3) assms(2)] have "\<exists>dn xs. h = dn @ xs \<and> map snd dn = map Some (got c') \<and> rep c' xs"
  proof (elim conjE exE)
    fix ds ys
    assume "xs = delivered ds @ ys" "rep c' ys" "got c' = got c @ map snd ds"
    then show ?thesis using h by - (rule exI [of _ "dn @ delivered ds"], rule exI [of _ ys], simp add: delivered_snd)
  qed
  then show ?thesis using d silent [OF h(3) assms(2)] unfolding explained_def by simp
qed

lemma history_explained:
  assumes "recorded i step c h" "rep i []" "got i = []"
  shows "explained c h"
  using assms
proof (induction rule: recorded.induct)
  case rec_init
  then show ?case by (simp add: explained_def)
qed (simp_all add: explained_claims explained_commits explained_silent)

text \<open>First in, first out.\<close>

lemma in_order:
  assumes "recorded i step c h" "rep i []" "got i = []"
  shows "length (got c) \<le> length h \<and> map snd (take (length (got c)) h) = map Some (got c) \<and> distinct (map fst h)"
proof -
  from history_explained [OF assms] obtain dn xs where h: "h = dn @ xs" "map snd dn = map Some (got c)" "distinct (map fst h)"
    unfolding explained_def by blast
  then have "length dn = length (got c)" using map_eq_imp_length_eq by blast
  with h show ?thesis by simp
qed

lemma pending:
  assumes "recorded i step c h" "rep i []" "got i = []" "length (got c) < length h"
  shows "\<exists>k x xs. rep c ((k, x) # xs) \<and> h ! length (got c) = (k, x)"
proof -
  from history_explained [OF assms(1-3)] obtain dn xs where h: "h = dn @ xs" "map snd dn = map Some (got c)" "rep c xs"
    unfolding explained_def by blast
  then have "length dn = length (got c)" using map_eq_imp_length_eq by blast
  with h assms(4) show ?thesis by (cases xs) (auto simp: nth_append)
qed

end

end
