(* ===== verification/Queue64v_Ring.thy ===== *)
theory Queue64v_Ring
  imports Queue64v Queue_Order
begin

text \<open>
  What the ring memory of the lock-free queue holds: a sequence of slots from \<open>tail\<close> to \<open>head\<close>, each in
  one of the states an entry goes through, and zero bytes everywhere else. \<open>ring_update\<close> is the frame
  rule for a store inside one slot, \<open>ring_append\<close> and \<open>ring_drop\<close> for moving the cursors.
\<close>

section \<open>Memory of the ring\<close>

definition in_slot :: "nat \<Rightarrow> nat \<times> slot \<Rightarrow> nat \<Rightarrow> bool" where
  "in_slot bs px a \<longleftrightarrow> fst px mod bs \<le> a \<and> a < fst px mod bs + (slot_len (snd px) + 4)"

fun slot_mem :: "bytes \<Rightarrow> nat \<Rightarrow> slot \<Rightarrow> bool" where
  "slot_mem m off (Claimed p l) \<longleftrightarrow> (\<forall>a. off \<le> a \<and> a < off + (l + 4) \<longrightarrow> m a = 0)"
| "slot_mem m off (Reserved p l) \<longleftrightarrow> rd32 m off = l"
| "slot_mem m off (Full d) \<longleftrightarrow> rd32 m off = ENTRY_COMMITTED * 65536 + length d \<and> mem_get (off + 4) (length d) m = d"
| "slot_mem m off (Dead l) \<longleftrightarrow> (\<forall>a. off \<le> a \<and> a < off + (l + 4) \<longrightarrow> m a = 0)"

definition ring_wf :: "nat \<Rightarrow> nat \<Rightarrow> nat \<Rightarrow> slot list \<Rightarrow> bool" where
  "ring_wf bs t h xs \<longleftrightarrow> QUEUE_MAX_ENTRY_SIZE + 4 \<le> bs \<and> bs < 2 ^ 32 \<and> h = t + extent xs \<and> h \<le> t + bs
     \<and> (\<forall>x \<in> set xs. 4 < slot_len x \<and> slot_len x \<le> QUEUE_ENTRY_USER_SIZE)"

definition ring_mem :: "nat \<Rightarrow> nat \<Rightarrow> slot list \<Rightarrow> bytes \<Rightarrow> bool" where
  "ring_mem bs t xs m \<longleftrightarrow> (\<forall>(p, x) \<in> set (layout t xs). slot_mem m (p mod bs) x)
     \<and> (\<forall>a < bs + (QUEUE_MAX_ENTRY_SIZE + 4). (\<forall>px \<in> set (layout t xs). \<not> in_slot bs px a) \<longrightarrow> m a = 0)"

lemma slot_mem_cong:
  assumes "\<And>a. off \<le> a \<Longrightarrow> a < off + (slot_len x + 4) \<Longrightarrow> m' a = m a"
  shows "slot_mem m' off x = slot_mem m off x"
proof -
  have "rd32 m' off = rd32 m off" by (rule rd32_cong) (use assms in simp)
  moreover have "mem_get (off + 4) (slot_len x) m' = mem_get (off + 4) (slot_len x) m"
    by (rule mem_get_cong) (use assms in simp)
  ultimately show ?thesis using assms by (cases x) auto
qed

text \<open>Two different slots do not overlap.\<close>

lemma slots_disjoint:
  assumes wf: "ring_wf bs t h xs" and x: "(p, x) \<in> set (layout t xs)" and y: "(p', y) \<in> set (layout t xs)"
    and ne: "p \<noteq> p'" and a: "in_slot bs (p, x) a"
  shows "\<not> in_slot bs (p', y) a"
proof -
  from x obtain us vs where s: "xs = us @ x # vs" "p = t + extent us" by (rule layout_obtain)
  have bx: "t \<le> p" "p + (slot_len x + 4) \<le> t + bs" and by': "t \<le> p'" "p' + (slot_len y + 4) \<le> t + bs"
    using layout_bounds [OF x] layout_bounds [OF y] wf by (simp_all add: ring_wf_def)
  have "0 < bs" using wf by (simp add: ring_wf_def)
  from y consider "(p', y) \<in> set (layout t us)" | "p' = p" | "(p', y) \<in> set (layout (p + (slot_len x + 4)) vs)"
    by (auto simp: s layout_append)
  then show ?thesis
  proof cases
    case 1
    then have "p' + (slot_len y + 4) \<le> p" using layout_bounds [OF 1] s by simp
    from ring_disjoint [OF by'(1) this bx(2) _ \<open>0 < bs\<close>] show ?thesis using a by (auto simp: in_slot_def)
  next
    case 3
    then have "p + (slot_len x + 4) \<le> p'" using layout_bounds [OF 3] by simp
    from ring_disjoint [OF bx(1) this by'(2) _ \<open>0 < bs\<close>] show ?thesis using a by (auto simp: in_slot_def)
  qed (use ne in simp)
qed

lemma ring_update:
  assumes wf: "ring_wf bs t h (us @ x # vs)" and mem: "ring_mem bs t (us @ x # vs) m"
    and len: "slot_len y = slot_len x"
    and frame: "\<And>a. \<not> in_slot bs (t + extent us, x) a \<Longrightarrow> m' a = m a"
    and new: "slot_mem m' ((t + extent us) mod bs) y"
  shows "ring_mem bs t (us @ y # vs) m'"
  unfolding ring_mem_def
proof (intro conjI ballI allI impI)
  let ?p = "t + extent us"
  have x: "(?p, x) \<in> set (layout t (us @ x # vs))" by (simp add: layout_at)
  have other: "(p, z) \<in> set (layout t (us @ y # vs)) \<longleftrightarrow>
      (if p = ?p then z = y else (p, z) \<in> set (layout t (us @ x # vs)))" for p z
    by (rule layout_replace [OF len])
  fix pz assume pz: "pz \<in> set (layout t (us @ y # vs))"
  obtain p z where [simp]: "pz = (p, z)" by (cases pz)
  show "case pz of (p, z) \<Rightarrow> slot_mem m' (p mod bs) z"
  proof (cases "p = ?p")
    case True
    then show ?thesis using pz other [of p z] new by simp
  next
    case False
    then have o: "(p, z) \<in> set (layout t (us @ x # vs))" using pz other [of p z] by simp
    have "slot_mem m' (p mod bs) z = slot_mem m (p mod bs) z"
    proof (rule slot_mem_cong)
      fix a assume "p mod bs \<le> a" "a < p mod bs + (slot_len z + 4)"
      then have "in_slot bs (p, z) a" by (simp add: in_slot_def)
      from slots_disjoint [OF wf o x False this] show "m' a = m a" by (rule frame)
    qed
    then show ?thesis using mem o by (auto simp: ring_mem_def)
  qed
next
  let ?p = "t + extent us"
  have other: "(p, z) \<in> set (layout t (us @ y # vs)) \<longleftrightarrow>
      (if p = ?p then z = y else (p, z) \<in> set (layout t (us @ x # vs)))" for p z
    by (rule layout_replace [OF len])
  fix a assume a: "a < bs + (QUEUE_MAX_ENTRY_SIZE + 4)" "\<forall>px \<in> set (layout t (us @ y # vs)). \<not> in_slot bs px a"
  have "\<not> in_slot bs (p, z) a" if "(p, z) \<in> set (layout t (us @ x # vs))" for p z
  proof (cases "p = ?p")
    case True
    then have "z = x" using that by (simp add: layout_at)
    moreover have "\<not> in_slot bs (?p, y) a" using a(2) other [of ?p y] by auto
    ultimately show ?thesis using True len by (simp add: in_slot_def)
  next
    case False
    then show ?thesis using a(2) other [of p z] that by auto
  qed
  moreover from this have "m' a = m a" by (intro frame) (auto simp: layout_at)
  ultimately show "m' a = 0" using mem a(1) by (auto simp: ring_mem_def)
qed

text \<open>Free space is zero, so a claimed entry starts in the reserved state.\<close>

lemma ring_append:
  assumes wf: "ring_wf bs t h xs" and mem: "ring_mem bs t xs m"
    and l: "4 < l" "l \<le> QUEUE_ENTRY_USER_SIZE" and room: "h + (l + 4) \<le> t + bs"
  shows "ring_wf bs t (h + (l + 4)) (xs @ [Claimed p l])" "ring_mem bs t (xs @ [Claimed p l]) m"
proof -
  show wf': "ring_wf bs t (h + (l + 4)) (xs @ [Claimed p l])"
    using wf l room by (auto simp: ring_wf_def)
  have h: "h = t + extent xs" using wf by (simp add: ring_wf_def)
  have new: "(h, Claimed p l) \<in> set (layout t (xs @ [Claimed p l]))" by (simp add: layout_append h)
  have zero: "m a = 0" if a: "in_slot bs (h, Claimed p l) a" for a
  proof -
    have "\<not> in_slot bs (q, z) a" if "(q, z) \<in> set (layout t xs)" for q z
    proof (rule slots_disjoint [OF wf' new _ _ a])
      show "(q, z) \<in> set (layout t (xs @ [Claimed p l]))" using that by (simp add: layout_append)
      show "h \<noteq> q" using layout_bounds [OF that] h by linarith
    qed
    moreover have "h mod bs < bs" using wf by (intro mod_less_divisor) (simp add: ring_wf_def)
    then have "a < bs + (QUEUE_MAX_ENTRY_SIZE + 4)" using a l by (simp add: in_slot_def)
    ultimately show ?thesis using mem by (auto simp: ring_mem_def)
  qed
  have "slot_mem m (h mod bs) (Claimed p l)" using zero by (simp add: in_slot_def)
  then show "ring_mem bs t (xs @ [Claimed p l]) m"
    using mem h by (auto simp: ring_mem_def layout_append)
qed

lemma ring_drop:
  assumes wf: "ring_wf bs t h (Dead l # xs)" and mem: "ring_mem bs t (Dead l # xs) m"
  shows "ring_wf bs (t + (l + 4)) h xs" "ring_mem bs (t + (l + 4)) xs m"
proof -
  show "ring_wf bs (t + (l + 4)) h xs" using wf by (auto simp: ring_wf_def)
  have "m a = 0" if "a < bs + (QUEUE_MAX_ENTRY_SIZE + 4)" "\<forall>px \<in> set (layout (t + (l + 4)) xs). \<not> in_slot bs px a" for a
    using mem that by (cases "in_slot bs (t, Dead l) a") (auto simp: ring_mem_def in_slot_def)
  then show "ring_mem bs (t + (l + 4)) xs m" using mem by (auto simp: ring_mem_def)
qed

text \<open>An empty ring of zeroes.\<close>

lemma ring_empty:
  assumes "QUEUE_MAX_ENTRY_SIZE + 4 \<le> bs" "bs < 2 ^ 32" "\<And>a. m a = 0"
  shows "ring_wf bs t t [] \<and> ring_mem bs t [] m"
  using assms by (simp add: ring_wf_def ring_mem_def)

section \<open>The stores of the operations\<close>

lemma slot_mem_reserve:
  assumes "l < 65536"
  shows "slot_mem (wr32 m off l) off (Reserved p l)"
  using assms by (simp add: rd32_wr32_same)

lemma slot_mem_put:
  assumes "slot_mem m off (Reserved p l)" "off + 4 \<le> a"
  shows "slot_mem (mem_set a xs m) off (Reserved p l)"
proof -
  have "rd32 (mem_set a xs m) off = rd32 m off"
    by (rule rd32_cong) (use assms in \<open>simp add: mem_set_def\<close>)
  then show ?thesis using assms by simp
qed

lemma slot_mem_commit:
  assumes "l \<le> QUEUE_ENTRY_USER_SIZE"
  shows "slot_mem (wr32 m off (ENTRY_COMMITTED * 65536 + l)) off (Full (mem_get (off + 4) l m))"
proof -
  have "mem_get (off + 4) l (wr32 m off (ENTRY_COMMITTED * 65536 + l)) = mem_get (off + 4) l m"
    by (rule mem_get_cong) (simp add: wr32_at_other)
  then show ?thesis using assms by (simp add: rd32_wr32_same)
qed

lemma slot_mem_clear: "slot_mem (clear_bytes off (l + 4) m) off (Dead l)"
  by (simp add: clear_bytes_def)

lemma committed_word: "n < 65536 \<Longrightarrow> (3435921408 + n) div 65536 = 52428 \<and> (3435921408 + n) mod 65536 = (n :: nat)"
  using div_mult_self1 [of 65536 n 52428] mod_mult_self1 [of n 52428 65536] by (simp add: add.commute)

lemma slot_full_ready:
  assumes "slot_mem (qbuf q) (pos mod buffer_size q) (Full d)" "0 < length d" "length d \<le> QUEUE_ENTRY_USER_SIZE"
  shows "entry_state_at q pos = ENTRY_COMMITTED" "entry_size_at q pos = length d"
  using assms committed_word [of "length d"] by (simp_all add: entry_state_at_def entry_size_at_def entry_at_def)

lemma slot_open_not_ready:
  assumes "slot_mem (qbuf q) (pos mod buffer_size q) x" "slot_len x < 65536" "\<forall>d. x \<noteq> Full d"
  shows "entry_state_at q pos = 0"
  using assms rd32_zero [of "pos mod buffer_size q" "qbuf q"]
  by (cases x) (simp_all add: entry_state_at_def entry_at_def)

end
