(* ===== verification/Queue64v_Conc.thy ===== *)
theory Queue64v_Conc
  imports Queue64v_Ring
begin

text \<open>
  The lock-free queue under concurrency: any number of producer threads and the consumer interleave the
  atomic steps of \<^verbatim>\<open>queueAcquire\<close> (load \<open>tail\<close>, load \<open>head\<close>, compare-and-swap, header store),
  the stores into the buffer, \<^verbatim>\<open>queuePush\<close>, and \<^verbatim>\<open>queuePeek\<close> /
  \<^verbatim>\<open>queueRelease\<close> (clear, advance \<open>tail\<close>). Steps are sequentially consistent; the acquire and
  release orders of the code are what makes that a sound view of the header and cursor accesses. The
  specification is a FIFO sequence of items; \<open>conc_sim\<close> is the forward simulation.
\<close>

section \<open>Configurations and steps\<close>

record conf =
  cq :: queue64
  pc :: "nat \<Rightarrow> producer"
  cons :: consumer
  got :: "u8 list list"

definition payload_offset :: "queue64 \<Rightarrow> nat \<Rightarrow> nat" where
  "payload_offset q pos = entry_at q pos + QUEUE_ENTRY_HEADER_SIZE + QUEUE_ENTRY_USER_HEADER_SIZE"

inductive qstep :: "conf \<Rightarrow> conf \<Rightarrow> bool" where
  load_tail: "pc c p = PIdle \<Longrightarrow> 0 < n \<Longrightarrow> n \<le> XCPTL_MAX_DTO_SIZE \<Longrightarrow>
    qstep c (c\<lparr>pc := (pc c)(p := PTail (entry_len_of n) (tail (cq c)))\<rparr>)"
| load_head: "pc c p = PTail l t \<Longrightarrow> qstep c (c\<lparr>pc := (pc c)(p := PLoaded l t (head (cq c)))\<rparr>)"
| overrun: "pc c p = PLoaded l t h \<Longrightarrow> queue_overrun (buffer_size (cq c)) t h l \<Longrightarrow>
    qstep c (c\<lparr>pc := (pc c)(p := PIdle), cq := count_lost (cq c)\<rparr>)"
| cas_win: "pc c p = PLoaded l t h \<Longrightarrow> \<not> queue_overrun (buffer_size (cq c)) t h l \<Longrightarrow> head (cq c) = h \<Longrightarrow>
    qstep c (c\<lparr>pc := (pc c)(p := PClaimed l h), cq := claim_entry h l (cq c)\<rparr>)"
| cas_fail: "pc c p = PLoaded l t h \<Longrightarrow> \<not> queue_overrun (buffer_size (cq c)) t h l \<Longrightarrow>
    qstep c (c\<lparr>pc := (pc c)(p := PLoaded l t (head (cq c)))\<rparr>)"
| reserve: "pc c p = PClaimed l pos \<Longrightarrow>
    qstep c (c\<lparr>pc := (pc c)(p := PReserved l pos), cq := store_reserved pos l (cq c)\<rparr>)"
| put: "pc c p = PReserved l pos \<Longrightarrow> k + length xs \<le> l - QUEUE_ENTRY_USER_HEADER_SIZE \<Longrightarrow>
    qstep c (c\<lparr>cq := queue_put (payload_offset (cq c) pos + k, 0) xs (cq c)\<rparr>)"
| push: "pc c p = PReserved l pos \<Longrightarrow>
    qstep c (c\<lparr>pc := (pc c)(p := PIdle),
      cq := queuePush (payload_offset (cq c) pos, l - QUEUE_ENTRY_USER_HEADER_SIZE) f (cq c)\<rparr>)"
| clear: "cons c = CIdle \<Longrightarrow> queuePeek 0 (cq c) = (Some b, lost, f, q) \<Longrightarrow>
    qstep c (c\<lparr>cons := CCleared (snd b), got := got c @ [mem_get (fst b) (snd b) (qbuf q)],
      cq := q\<lparr>qbuf := clear_bytes (fst b - QUEUE_ENTRY_HEADER_SIZE) (snd b + QUEUE_ENTRY_HEADER_SIZE) (qbuf q)\<rparr>\<rparr>)"
| peek_none: "cons c = CIdle \<Longrightarrow> queuePeek 0 (cq c) = (None, lost, f, q) \<Longrightarrow> qstep c (c\<lparr>cq := q\<rparr>)"
| advance: "cons c = CCleared n \<Longrightarrow>
    qstep c (c\<lparr>cons := CIdle, cq := (cq c)\<lparr>tail := tail (cq c) + (n + QUEUE_ENTRY_HEADER_SIZE),
      cached_peek_index := 0, cached_peek_tail := 0\<rparr>\<rparr>)"

inductive_cases qstep_E: "qstep c c'"

definition conc_init :: "nat \<Rightarrow> conf" where
  "conc_init queue_buffer_size = \<lparr>cq = queueInit queue_buffer_size, pc = (\<lambda>_. PIdle), cons = CIdle, got = []\<rparr>"

inductive qreach :: "nat \<Rightarrow> conf \<Rightarrow> bool" for n where
  qinit: "qreach n (conc_init n)"
| qnext: "qreach n c \<Longrightarrow> qstep c c' \<Longrightarrow> qreach n c'"

section \<open>Specification\<close>

text \<open>A FIFO of items: a producer's reservation, in place, becomes the packet it commits.\<close>

datatype item = Pending nat | Ready "u8 list"

type_synonym fifo = "item list \<times> u8 list list"

inductive fstep :: "fifo \<Rightarrow> fifo \<Rightarrow> bool" where
  f_stay: "fstep a a"
| f_reserve: "fstep (xs, g) (xs @ [Pending p], g)"
| f_commit: "fstep (xs @ Pending p # ys, g) (xs @ Ready d # ys, g)"
| f_deliver: "fstep (Ready d # xs, g) (xs, g @ [d])"

inductive freach :: "fifo \<Rightarrow> bool" where
  finit: "freach ([], [])"
| fnext: "freach a \<Longrightarrow> fstep a a' \<Longrightarrow> freach a'"

fun slot_items :: "slot list \<Rightarrow> item list" where
  "slot_items [] = []"
| "slot_items (Claimed p l # xs) = Pending p # slot_items xs"
| "slot_items (Reserved p l # xs) = Pending p # slot_items xs"
| "slot_items (Full d # xs) = Ready d # slot_items xs"
| "slot_items (Dead l # xs) = slot_items xs"

lemma slot_items_append [simp]: "slot_items (xs @ ys) = slot_items xs @ slot_items ys"
  by (induction xs rule: slot_items.induct) simp_all

section \<open>Invariant\<close>

definition threads_ok :: "nat \<Rightarrow> (nat \<Rightarrow> producer) \<Rightarrow> slot list \<Rightarrow> bool" where
  "threads_ok t f xs \<longleftrightarrow>
     (\<forall>p l pos. f p = PClaimed l pos \<longleftrightarrow> (pos, Claimed p l) \<in> set (layout t xs))
     \<and> (\<forall>p l pos. f p = PReserved l pos \<longleftrightarrow> (pos, Reserved p l) \<in> set (layout t xs))
     \<and> (\<forall>p l u. f p = PTail l u \<longrightarrow> u \<le> t \<and> 4 < l \<and> l \<le> QUEUE_ENTRY_USER_SIZE)
     \<and> (\<forall>p l u h. f p = PLoaded l u h \<longrightarrow> u \<le> t \<and> 4 < l \<and> l \<le> QUEUE_ENTRY_USER_SIZE)"

definition cons_ok :: "consumer \<Rightarrow> slot list \<Rightarrow> bool" where
  "cons_ok c xs \<longleftrightarrow> (case c of CIdle \<Rightarrow> \<forall>l. Dead l \<notin> set xs
     | CCleared n \<Rightarrow> (\<exists>ys. xs = Dead n # ys \<and> (\<forall>l. Dead l \<notin> set ys)))"

definition conc_inv :: "conf \<Rightarrow> slot list \<Rightarrow> bool" where
  "conc_inv c xs \<longleftrightarrow> ring_wf (buffer_size (cq c)) (tail (cq c)) (head (cq c)) xs
     \<and> ring_mem (buffer_size (cq c)) (tail (cq c)) xs (qbuf (cq c))
     \<and> threads_ok (tail (cq c)) (pc c) xs \<and> cons_ok (cons c) xs"

text \<open>A store by a producer into its own slot.\<close>

lemma conc_replace:
  assumes inv: "conc_inv c xs" and s: "xs = us @ x # vs" and pos: "pos = tail (cq c) + extent us"
    and q: "buffer_size q = buffer_size (cq c)" "tail q = tail (cq c)" "head q = head (cq c)"
    and y: "slot_len y = slot_len x" "\<forall>l. y \<noteq> Dead l" "\<forall>l. x \<noteq> Dead l"
    and mem: "\<And>a. \<not> in_slot (buffer_size (cq c)) (pos, x) a \<Longrightarrow> qbuf q a = qbuf (cq c) a"
    and new: "slot_mem (qbuf q) (pos mod buffer_size (cq c)) y"
    and thr: "threads_ok (tail (cq c)) f (us @ y # vs)"
  shows "conc_inv (c\<lparr>pc := f, cq := q\<rparr>) (us @ y # vs)"
proof -
  have "ring_mem (buffer_size (cq c)) (tail (cq c)) (us @ y # vs) (qbuf q)"
    by (rule ring_update [where x = x and h = "head (cq c)"]) (use inv s pos mem new y in \<open>simp_all add: conc_inv_def\<close>)
  moreover have "ring_wf (buffer_size (cq c)) (tail (cq c)) (head (cq c)) (us @ y # vs)"
    using inv s y by (simp add: conc_inv_def ring_wf_def)
  moreover have "cons_ok (cons c) (us @ y # vs)"
    using inv s y by (cases us) (auto simp: conc_inv_def cons_ok_def split: consumer.splits)
  ultimately show ?thesis using q thr by (simp add: conc_inv_def)
qed

text \<open>The slots of the other producers stay where they are.\<close>

lemma threads_replace:
  assumes thr: "threads_ok t f (us @ x # vs)" and len: "slot_len y = slot_len x"
    and own: "x = Claimed p l \<or> x = Reserved p l"
    and y: "(y = Reserved p l \<and> st = PReserved l (t + extent us)) \<or> (y = Full d \<and> st = PIdle)"
  shows "threads_ok t (f(p := st)) (us @ y # vs)"
proof -
  have lay: "(pos, z) \<in> set (layout t (us @ y # vs)) \<longleftrightarrow>
      (if pos = t + extent us then z = y else (pos, z) \<in> set (layout t (us @ x # vs)))" for pos z
    by (rule layout_replace [OF len])
  have c: "\<And>q m pos. f q = PClaimed m pos \<longleftrightarrow> (pos, Claimed q m) \<in> set (layout t (us @ x # vs))"
    and r: "\<And>q m pos. f q = PReserved m pos \<longleftrightarrow> (pos, Reserved q m) \<in> set (layout t (us @ x # vs))"
    using thr by (simp_all add: threads_ok_def)
  have me: "f p = PClaimed l (t + extent us) \<and> x = Claimed p l \<or> f p = PReserved l (t + extent us) \<and> x = Reserved p l"
    using own c [of p l "t + extent us"] r [of p l "t + extent us"] by (auto simp: layout_at)
  have c': "(pos, Claimed q m) \<in> set (layout t (us @ y # vs)) \<longleftrightarrow> q \<noteq> p \<and> f q = PClaimed m pos" for pos q m
    using me y c [of q m pos] c [of p m pos] unfolding lay by (auto simp: layout_at)
  have r': "(pos, Reserved q m) \<in> set (layout t (us @ y # vs)) \<longleftrightarrow> (f(p := st)) q = PReserved m pos" for pos q m
    using me y r [of q m pos] r [of p m pos] unfolding lay by (auto simp: layout_at)
  show ?thesis
    using thr y unfolding threads_ok_def c' r' by auto
qed

lemma conc_inv_init:
  assumes "2064 + 64 \<le> n" "n < 2 ^ 31"
  shows "conc_inv (conc_init n) []"
proof -
  have al: "n + CACHE_LINE_SIZE \<le> align_up CACHE_LINE_SIZE (n + CACHE_LINE_SIZE)"
    "align_up CACHE_LINE_SIZE (n + CACHE_LINE_SIZE) < n + CACHE_LINE_SIZE + CACHE_LINE_SIZE"
    using align_up_ge [of 64 "n + 64"] align_up_less [of 64 "n + 64"] by simp_all
  define bs where "bs = queue_data_size (align_up CACHE_LINE_SIZE (n + CACHE_LINE_SIZE))"
  have "QUEUE_MAX_ENTRY_SIZE + 4 \<le> bs"
    unfolding bs_def queue_data_size_def using al assms by linarith
  moreover have "bs \<le> align_up CACHE_LINE_SIZE (n + CACHE_LINE_SIZE)"
    unfolding bs_def queue_data_size_def by (rule order_trans [OF div_times_less_eq_dividend]) simp
  then have "bs < 2 ^ 32" using al assms(2) by simp
  ultimately have "QUEUE_MAX_ENTRY_SIZE + 4 \<le> bs" "bs < 2 ^ 32" .
  from ring_empty [OF this, of "\<lambda>_. 0" 0] show ?thesis
    by (simp add: conc_inv_def conc_init_def queueInit_def queueInitFromMemory_def queueClear_def Let_def
        bs_def threads_ok_def cons_ok_def clear_bytes_def if_distrib cong: if_cong)
qed

text \<open>The head of a claimed entry never passes \<open>tail + buffer_size\<close>, although the test uses cursor
  values that may be out of date.\<close>

lemma no_overrun_room:
  assumes wf: "ring_wf bs t h xs" and u: "u \<le> t" and l: "l \<le> QUEUE_ENTRY_USER_SIZE"
    and n: "\<not> queue_overrun bs u h l"
  shows "h + (l + 4) \<le> t + bs"
proof -
  have h: "t \<le> h" "QUEUE_MAX_ENTRY_SIZE + 4 \<le> bs" "bs < 2 ^ 32" using wf by (simp_all add: ring_wf_def)
  have "(int bs - int (l + 4)) mod 2 ^ 64 = int (bs - (l + 4))" using h l by (simp add: of_nat_diff)
  then show ?thesis using n h u l by (auto simp: queue_overrun_def)
qed

section \<open>Simulation\<close>

lemma threads_other:
  assumes "threads_ok t f xs" "\<forall>l pos. f p \<noteq> PClaimed l pos" "\<forall>l pos. f p \<noteq> PReserved l pos"
    and "st = PIdle \<or> (\<exists>l u. u \<le> t \<and> 4 < l \<and> l \<le> QUEUE_ENTRY_USER_SIZE \<and> (st = PTail l u \<or> (\<exists>h. st = PLoaded l u h)))"
  shows "threads_ok t (f(p := st)) xs"
proof -
  have "(pos, Claimed p l) \<notin> set (layout t xs)" "(pos, Reserved p l) \<notin> set (layout t xs)" for l pos
    using assms(1-3) by (simp_all add: threads_ok_def)
  then show ?thesis using assms unfolding threads_ok_def by auto
qed

lemma threads_claim:
  assumes thr: "threads_ok t f xs" and idle: "\<forall>l pos. f p \<noteq> PClaimed l pos" "\<forall>l pos. f p \<noteq> PReserved l pos"
  shows "threads_ok t (f(p := PClaimed l (t + extent xs))) (xs @ [Claimed p l])"
proof -
  have no: "(pos, Claimed p m) \<notin> set (layout t xs)" "(pos, Reserved p m) \<notin> set (layout t xs)" for m pos
    using assms by (simp_all add: threads_ok_def)
  show ?thesis using thr no unfolding threads_ok_def by (auto simp: layout_append)
qed

lemma threads_loaded:
  "threads_ok t f xs \<Longrightarrow> f p = PLoaded l u h \<Longrightarrow> u \<le> t \<and> 4 < l \<and> l \<le> QUEUE_ENTRY_USER_SIZE"
  "threads_ok t f xs \<Longrightarrow> f p = PTail l u \<Longrightarrow> u \<le> t \<and> 4 < l \<and> l \<le> QUEUE_ENTRY_USER_SIZE"
  unfolding threads_ok_def by blast+

lemma threads_move:
  assumes "threads_ok t f xs" "t \<le> t'"
    and "\<And>pos p l. (pos, Claimed p l) \<in> set (layout t' ys) \<longleftrightarrow> (pos, Claimed p l) \<in> set (layout t xs)"
    and "\<And>pos p l. (pos, Reserved p l) \<in> set (layout t' ys) \<longleftrightarrow> (pos, Reserved p l) \<in> set (layout t xs)"
  shows "threads_ok t' f ys"
  using assms unfolding threads_ok_def by (meson order_trans)

text \<open>What \<open>queuePeek 0\<close> finds.\<close>

lemma queuePeek_0:
  "queuePeek 0 q = (r, lost, f, q') \<Longrightarrow>
    buffer_size q' = buffer_size q \<and> head q' = head q \<and> tail q' = tail q \<and> qbuf q' = qbuf q \<and>
    (r = None \<or> entry_ready q (tail q) \<and> r = Some (entry_at q (tail q) + QUEUE_ENTRY_HEADER_SIZE, entry_size_at q (tail q)))"
  by (subst (asm) queuePeek_def, subst (asm) peek_loop.simps)
    (auto simp: Let_def entry_ready_def entry_state_at_def entry_size_at_def entry_at_def split: if_splits)

lemma entry_ready_full:
  assumes wf: "ring_wf (buffer_size q) (tail q) (head q) xs"
    and mem: "ring_mem (buffer_size q) (tail q) xs (qbuf q)" and rd: "entry_ready q (tail q)"
  shows "\<exists>d ys. xs = Full d # ys \<and> entry_size_at q (tail q) = length d
    \<and> mem_get (entry_at q (tail q) + 4) (length d) (qbuf q) = d"
proof (cases xs)
  case Nil
  then show ?thesis using wf rd by (simp add: ring_wf_def entry_ready_def)
next
  case (Cons x ys)
  have sm: "slot_mem (qbuf q) (tail q mod buffer_size q) x" and len: "4 < slot_len x" "slot_len x \<le> 1028"
    using wf mem Cons by (simp_all add: ring_mem_def ring_wf_def)
  have "\<exists>d. x = Full d"
  proof (rule ccontr)
    assume "\<not> (\<exists>d. x = Full d)"
    then have "entry_state_at q (tail q) = 0" using slot_open_not_ready [OF sm] len by auto
    then show False using rd by (simp add: entry_ready_def)
  qed
  then obtain d where d: "x = Full d" by blast
  then have "entry_size_at q (tail q) = length d" using slot_full_ready [of q "tail q" d] sm len by fastforce
  then show ?thesis using Cons d sm by (simp add: entry_at_def)
qed

definition simulated :: "conf \<Rightarrow> fifo \<Rightarrow> bool" where
  "simulated c a \<longleftrightarrow> (\<exists>xs. conc_inv c xs \<and> a = (slot_items xs, got c))"

lemma simulatedI: "conc_inv c xs \<Longrightarrow> simulated c (slot_items xs, got c)"
  by (auto simp: simulated_def)

lemma conc_frame:
  assumes "conc_inv c xs" "threads_ok (tail (cq c)) f xs" "buffer_size q = buffer_size (cq c)"
    "tail q = tail (cq c)" "head q = head (cq c)" "qbuf q = qbuf (cq c)"
  shows "conc_inv (c\<lparr>pc := f, cq := q\<rparr>) xs"
  using assms by (simp add: conc_inv_def)

lemma own_slot:
  assumes "conc_inv c xs" "(pos, x) \<in> set (layout (tail (cq c)) xs)"
  obtains us vs where "xs = us @ x # vs" "pos = tail (cq c) + extent us" "4 < slot_len x" "slot_len x \<le> 1028"
  using assms layout_slot [OF assms(2)]
  by (metis layout_obtain conc_inv_def ring_wf_def)

lemma conc_payload_offset:
  "payload_offset q pos = pos mod buffer_size q + 8" "entry_at q pos = pos mod buffer_size q"
  by (simp_all add: payload_offset_def entry_at_def)

text \<open>The three stores of a producer that owns a slot.\<close>

lemma conc_reserve:
  assumes inv: "conc_inv c xs" and p: "pc c p = PClaimed l pos"
  shows "\<exists>us vs. xs = us @ Claimed p l # vs
    \<and> conc_inv (c\<lparr>pc := (pc c)(p := PReserved l pos), cq := store_reserved pos l (cq c)\<rparr>) (us @ Reserved p l # vs)"
proof -
  have "(pos, Claimed p l) \<in> set (layout (tail (cq c)) xs)" using inv p by (simp add: conc_inv_def threads_ok_def)
  from own_slot [OF inv this] obtain us vs where s: "xs = us @ Claimed p l # vs" "pos = tail (cq c) + extent us"
    and l: "4 < l" "l \<le> 1028" by auto
  have "conc_inv (c\<lparr>pc := (pc c)(p := PReserved l pos), cq := store_reserved pos l (cq c)\<rparr>) (us @ Reserved p l # vs)"
  proof (rule conc_replace [OF inv s])
    show "slot_mem (qbuf (store_reserved pos l (cq c))) (pos mod buffer_size (cq c)) (Reserved p l)"
      using l slot_mem_reserve [of l] by (simp add: store_reserved_def entry_at_def)
    show "threads_ok (tail (cq c)) ((pc c)(p := PReserved l pos)) (us @ Reserved p l # vs)"
      by (rule threads_replace [where x = "Claimed p l" and l = l]) (use inv s in \<open>simp_all add: conc_inv_def\<close>)
  qed (auto simp: store_reserved_def entry_at_def in_slot_def wr32_at_other)
  with s show ?thesis by blast
qed

lemma conc_push:
  assumes inv: "conc_inv c xs" and p: "pc c p = PReserved l pos"
  shows "\<exists>us vs d. xs = us @ Reserved p l # vs \<and> conc_inv (c\<lparr>pc := (pc c)(p := PIdle),
    cq := queuePush (payload_offset (cq c) pos, l - QUEUE_ENTRY_USER_HEADER_SIZE) f (cq c)\<rparr>) (us @ Full d # vs)
    \<and> d = mem_get (entry_at (cq c) pos + QUEUE_ENTRY_HEADER_SIZE) l (qbuf (cq c))"
proof -
  let ?q = "queuePush (payload_offset (cq c) pos, l - QUEUE_ENTRY_USER_HEADER_SIZE) f (cq c)"
  let ?off = "pos mod buffer_size (cq c)"
  let ?d = "mem_get (?off + 4) l (qbuf (cq c))"
  have "(pos, Reserved p l) \<in> set (layout (tail (cq c)) xs)" using inv p by (simp add: conc_inv_def threads_ok_def)
  from own_slot [OF inv this] obtain us vs where s: "xs = us @ Reserved p l # vs" "pos = tail (cq c) + extent us"
    and l: "4 < l" "l \<le> 1028" by auto
  have q: "qbuf ?q = wr32 (qbuf (cq c)) ?off (ENTRY_COMMITTED * 65536 + l)"
    using l by (simp add: queuePush_def Let_def conc_payload_offset)
  have "conc_inv (c\<lparr>pc := (pc c)(p := PIdle), cq := ?q\<rparr>) (us @ Full ?d # vs)"
  proof (rule conc_replace [OF inv s])
    show "slot_mem (qbuf ?q) ?off (Full ?d)"
      unfolding q by (rule slot_mem_commit) (use l in simp)
    show "threads_ok (tail (cq c)) ((pc c)(p := PIdle)) (us @ Full ?d # vs)"
      by (rule threads_replace [where x = "Reserved p l" and l = l]) (use inv s in \<open>simp_all add: conc_inv_def\<close>)
    show "qbuf ?q a = qbuf (cq c) a" if "\<not> in_slot (buffer_size (cq c)) (pos, Reserved p l) a" for a
      using that unfolding q by (auto simp: in_slot_def wr32_at_other)
  qed (simp_all add: queuePush_def Let_def)
  with s show ?thesis unfolding entry_at_def by blast
qed

lemma conc_put:
  assumes inv: "conc_inv c xs" and p: "pc c p = PReserved l pos" and k: "k + length ys \<le> l - QUEUE_ENTRY_USER_HEADER_SIZE"
  shows "conc_inv (c\<lparr>cq := queue_put (payload_offset (cq c) pos + k, 0) ys (cq c)\<rparr>) xs"
proof -
  let ?q = "queue_put (payload_offset (cq c) pos + k, 0) ys (cq c)"
  let ?off = "pos mod buffer_size (cq c)"
  have "(pos, Reserved p l) \<in> set (layout (tail (cq c)) xs)" using inv p by (simp add: conc_inv_def threads_ok_def)
  from own_slot [OF inv this] obtain us vs where s: "xs = us @ Reserved p l # vs" "pos = tail (cq c) + extent us"
    and l: "4 < l" "l \<le> 1028" by auto
  have sm: "slot_mem (qbuf (cq c)) ?off (Reserved p l)"
    using inv s layout_at [of "tail (cq c)" us "Reserved p l" "Reserved p l" vs]
    by (auto simp: conc_inv_def ring_mem_def)
  have q: "qbuf ?q = mem_set (?off + 8 + k) ys (qbuf (cq c))"
    by (simp add: queue_put_def conc_payload_offset)
  have "conc_inv (c\<lparr>pc := pc c, cq := ?q\<rparr>) (us @ Reserved p l # vs)"
  proof (rule conc_replace [OF inv s])
    show "slot_mem (qbuf ?q) ?off (Reserved p l)"
      unfolding q by (rule slot_mem_put [OF sm]) simp
    show "threads_ok (tail (cq c)) (pc c) (us @ Reserved p l # vs)" using inv s by (simp add: conc_inv_def)
    show "qbuf ?q a = qbuf (cq c) a" if "\<not> in_slot (buffer_size (cq c)) (pos, Reserved p l) a" for a
      unfolding q by (rule mem_set_outside) (use that k l in \<open>auto simp: in_slot_def\<close>)
  qed (simp_all add: queue_put_def)
  then show ?thesis using s by simp
qed

text \<open>The consumer clears the oldest entry after it has read it, then releases it.\<close>

lemma conc_clear:
  assumes inv: "conc_inv c xs" and idle: "cons c = CIdle" and pk: "queuePeek 0 (cq c) = (Some b, lost, f, q)"
  shows "\<exists>d ys. xs = Full d # ys \<and> mem_get (fst b) (snd b) (qbuf q) = d
    \<and> conc_inv (c\<lparr>cons := CCleared (snd b), got := got c @ [mem_get (fst b) (snd b) (qbuf q)],
      cq := q\<lparr>qbuf := clear_bytes (fst b - QUEUE_ENTRY_HEADER_SIZE) (snd b + QUEUE_ENTRY_HEADER_SIZE) (qbuf q)\<rparr>\<rparr>)
        (Dead (snd b) # ys)"
proof -
  note pk' = queuePeek_0 [OF pk]
  let ?t = "tail (cq c)" and ?bs = "buffer_size (cq c)"
  have wf: "ring_wf ?bs ?t (head (cq c)) xs" and mem: "ring_mem ?bs ?t xs (qbuf (cq c))"
    and thr: "threads_ok ?t (pc c) xs" and dead: "\<forall>l. Dead l \<notin> set xs"
    using inv idle by (simp_all add: conc_inv_def cons_ok_def)
  from entry_ready_full [OF wf mem] pk' obtain d ys where
    s: "xs = Full d # ys" "entry_size_at (cq c) ?t = length d"
      "mem_get (entry_at (cq c) ?t + 4) (length d) (qbuf (cq c)) = d" by auto
  have b: "fst b = ?t mod ?bs + 4" "snd b = length d" using pk' s by (auto simp: entry_at_def)
  let ?m = "clear_bytes (?t mod ?bs) (length d + 4) (qbuf (cq c))"
  have "ring_mem ?bs ?t ([] @ Dead (length d) # ys) ?m"
    by (rule ring_update [where x = "Full d" and y = "Dead (length d)" and us = "[]" and h = "head (cq c)"
        and m = "qbuf (cq c)"])
      (use wf mem s slot_mem_clear in \<open>auto simp: in_slot_def clear_bytes_def\<close>)
  moreover have "ring_wf ?bs ?t (head (cq c)) (Dead (length d) # ys)" using wf s by (simp add: ring_wf_def)
  moreover have "threads_ok ?t (pc c) (Dead (length d) # ys)"
    by (rule threads_move [OF thr]) (auto simp: s)
  moreover have "cons_ok (CCleared (length d)) (Dead (length d) # ys)" using dead s by (simp add: cons_ok_def)
  ultimately show ?thesis using s b pk' by (simp add: conc_inv_def entry_at_def)
qed

lemma conc_advance:
  assumes inv: "conc_inv c xs" and dead: "cons c = CCleared n"
  shows "\<exists>ys. xs = Dead n # ys \<and> conc_inv (c\<lparr>cons := CIdle, cq := (cq c)\<lparr>tail := tail (cq c) + (n + QUEUE_ENTRY_HEADER_SIZE),
      cached_peek_index := 0, cached_peek_tail := 0\<rparr>\<rparr>) ys"
proof -
  from inv dead obtain ys where ys: "xs = Dead n # ys" "\<forall>l. Dead l \<notin> set ys" by (auto simp: conc_inv_def cons_ok_def)
  let ?t = "tail (cq c)" and ?bs = "buffer_size (cq c)"
  have i: "ring_wf ?bs ?t (head (cq c)) (Dead n # ys)" "ring_mem ?bs ?t (Dead n # ys) (qbuf (cq c))"
    "threads_ok ?t (pc c) (Dead n # ys)" using inv ys by (simp_all add: conc_inv_def)
  have "threads_ok (?t + (n + 4)) (pc c) ys" by (rule threads_move [OF i(3)]) auto
  then show ?thesis using ring_drop [OF i(1,2)] ys by (simp add: conc_inv_def cons_ok_def)
qed

lemma conc_claim:
  assumes inv: "conc_inv c xs" and p: "pc c p = PLoaded l t (head (cq c))"
    and room: "\<not> queue_overrun (buffer_size (cq c)) t (head (cq c)) l"
  shows "conc_inv (c\<lparr>pc := (pc c)(p := PClaimed l (head (cq c))), cq := claim_entry (head (cq c)) l (cq c)\<rparr>)
    (xs @ [Claimed p l])"
proof -
  let ?t = "tail (cq c)" and ?bs = "buffer_size (cq c)" and ?h = "head (cq c)"
  have i: "ring_wf ?bs ?t ?h xs" "ring_mem ?bs ?t xs (qbuf (cq c))" "threads_ok ?t (pc c) xs" "cons_ok (cons c) xs"
    using inv by (simp_all add: conc_inv_def)
  have l: "t \<le> ?t" "4 < l" "l \<le> 1028" using threads_loaded(1) [OF i(3) p] by simp_all
  have "?h + (l + 4) \<le> ?t + ?bs" by (rule no_overrun_room [OF i(1) l(1) _ room]) (use l in simp)
  note ring = ring_append [OF i(1,2) l(2,3) this, of p]
  moreover have "?h = ?t + extent xs" using i(1) by (simp add: ring_wf_def)
  moreover from this have "threads_ok ?t ((pc c)(p := PClaimed l ?h)) (xs @ [Claimed p l])"
    using threads_claim [OF i(3), of p l] p by simp
  moreover have "cons_ok (cons c) (xs @ [Claimed p l])" using i(4) by (auto simp: cons_ok_def split: consumer.splits)
  ultimately show ?thesis by (simp add: conc_inv_def claim_entry_def)
qed

lemma fstep_eq: "fstep a b \<Longrightarrow> a = a' \<Longrightarrow> b = b' \<Longrightarrow> fstep a' b'"
  by simp

text \<open>A step that neither claims, reserves, commits, clears nor advances leaves the slots as they are.\<close>

lemma conc_quiet:
  assumes inv: "conc_inv c xs" and st: "qstep c c'"
    and q: "got c' = got c" "cons c' = cons c" "head (cq c') = head (cq c)"
      "\<forall>p l pos. pc c' p = PReserved l pos \<longleftrightarrow> pc c p = PReserved l pos"
  shows "conc_inv c' xs"
  using st
proof cases
  case (load_tail p n)
  have "threads_ok (tail (cq c)) ((pc c)(p := PTail (entry_len_of n) (tail (cq c)))) xs"
    using inv load_tail entry_len_bounds [of n] by (intro threads_other) (auto simp: conc_inv_def)
  then show ?thesis using conc_frame [OF inv, of _ "cq c"] load_tail by simp
next
  case (load_head p l t)
  have "t \<le> tail (cq c) \<and> 4 < l \<and> l \<le> 1028" using inv load_head threads_loaded(2) by (auto simp: conc_inv_def)
  then have "threads_ok (tail (cq c)) ((pc c)(p := PLoaded l t (head (cq c)))) xs"
    using inv load_head by (intro threads_other) (auto simp: conc_inv_def)
  then show ?thesis using conc_frame [OF inv, of _ "cq c"] load_head by simp
next
  case (overrun p l t h)
  have "threads_ok (tail (cq c)) ((pc c)(p := PIdle)) xs"
    using inv overrun by (intro threads_other) (auto simp: conc_inv_def)
  then show ?thesis using conc_frame [OF inv, of _ "count_lost (cq c)"] overrun by (simp add: count_lost_def)
next
  case (cas_fail p l t h)
  have "t \<le> tail (cq c) \<and> 4 < l \<and> l \<le> 1028" using inv cas_fail threads_loaded(1) by (auto simp: conc_inv_def)
  then have "threads_ok (tail (cq c)) ((pc c)(p := PLoaded l t (head (cq c)))) xs"
    using inv cas_fail by (intro threads_other) (auto simp: conc_inv_def)
  then show ?thesis using conc_frame [OF inv, of _ "cq c"] cas_fail by simp
next
  case (put p l pos k ys)
  then show ?thesis using conc_put [OF inv, of p l pos k ys] by simp
next
  case (peek_none lost f q)
  have "conc_inv (c\<lparr>pc := pc c, cq := q\<rparr>) xs"
    by (rule conc_frame [OF inv]) (use queuePeek_0 [OF peek_none(3)] inv in \<open>auto simp: conc_inv_def\<close>)
  then show ?thesis using peek_none by simp
next
  case (cas_win p l t h)
  then have "4 < l" using inv threads_loaded(1) by (fastforce simp: conc_inv_def)
  then show ?thesis using cas_win q(3) by (simp add: claim_entry_def)
next
  case (reserve p l pos)
  then show ?thesis using q(4) [rule_format, of p l pos] by simp
next
  case (push p l pos f)
  then show ?thesis using q(4) [rule_format, of p l pos] by simp
qed (use q in simp_all)

lemma conc_sim:
  assumes inv: "conc_inv c xs" and st: "qstep c c'"
  shows "\<exists>xs'. conc_inv c' xs' \<and> fstep (slot_items xs, got c) (slot_items xs', got c')"
proof (cases "got c' = got c \<and> cons c' = cons c \<and> head (cq c') = head (cq c)
    \<and> (\<forall>p l pos. pc c' p = PReserved l pos \<longleftrightarrow> pc c p = PReserved l pos)")
  case True
  then have "conc_inv c' xs" using conc_quiet [OF inv st] by blast
  then show ?thesis using True f_stay by auto
next
  case loud: False
  from st show ?thesis
  proof cases
    case (cas_win p l t h)
    then show ?thesis using conc_claim [OF inv, of p l t] f_reserve [of "slot_items xs" "got c" p]
      by (intro exI [of _ "xs @ [Claimed p l]"]) simp
  next
    case (reserve p l pos)
    then show ?thesis using conc_reserve [OF inv, of p l pos] f_stay by fastforce
  next
    case (push p l pos f)
    from conc_push [OF inv push(2), of f] obtain us vs d where "xs = us @ Reserved p l # vs" "conc_inv c' (us @ Full d # vs)"
      using push(1) by blast
    then show ?thesis using push(1) f_commit [of "slot_items us" p "slot_items vs" "got c" d]
      by (intro exI [of _ "us @ Full d # vs"]) simp
  next
    case (clear b lost f q)
    from conc_clear [OF inv clear(2,3)] obtain d ys where
      "xs = Full d # ys" "mem_get (fst b) (snd b) (qbuf q) = d" "conc_inv c' (Dead (snd b) # ys)"
      using clear(1) by blast
    then show ?thesis using clear(1) f_deliver [of d "slot_items ys" "got c"]
      by (intro exI [of _ "Dead (snd b) # ys"]) simp
  next
    case (advance n)
    from conc_advance [OF inv advance(2)] obtain ys where "xs = Dead n # ys" "conc_inv c' ys" using advance(1) by blast
    then show ?thesis using advance(1) f_stay [of "(slot_items ys, got c)"] by (intro exI [of _ ys]) simp
  next
    case (peek_none lost f q)
    then show ?thesis using loud queuePeek_0 [OF peek_none(3)] by simp
  qed (use loud in \<open>auto simp: count_lost_def queue_put_def split: if_splits\<close>)
qed

lemma qreach_sim:
  assumes "qreach n c" "2128 \<le> n" "n < 2 ^ 31"
  shows "\<exists>xs. conc_inv c xs \<and> freach (slot_items xs, got c)"
  using assms
proof (induction rule: qreach.induct)
  case qinit
  then show ?case using conc_inv_init [of n] finit by (intro exI [of _ "[]"]) (simp add: conc_init_def)
next
  case (qnext c c')
  then obtain xs where "conc_inv c xs" "freach (slot_items xs, got c)" by blast
  then show ?case using conc_sim [OF _ qnext.hyps(2)] fnext by blast
qed

end
