(* ===== verification/Queue64v_Dto.thy ===== *)
theory Queue64v_Dto
  imports Queue64v_Conc Xcp_Daq_Trigger
begin

text \<open>
  The lock-free queue keeps the contract \<open>dto_queue\<close> of the event processor: a packet that is acquired,
  filled and pushed by one thread is appended behind the packets that are in the queue, rounded up to a
  multiple of four bytes. \<open>queued\<close> reads the packets off the ring the way \<^verbatim>\<open>queuePeek\<close> walks it.
\<close>

section \<open>The packets in the queue\<close>

function queue_entries :: "queue64 \<Rightarrow> nat \<Rightarrow> u8 list list" where
  "queue_entries q pos = (if entry_ready q pos
     then mem_get (entry_at q pos + QUEUE_ENTRY_HEADER_SIZE) (entry_size_at q pos) (qbuf q)
       # queue_entries q (pos + (entry_size_at q pos + QUEUE_ENTRY_HEADER_SIZE))
     else [])"
  by pat_completeness auto
termination by (relation "measure (\<lambda>(q, pos). head q - pos)") (auto simp: entry_ready_def)

declare queue_entries.simps [simp del]

definition queued :: "queue64 \<Rightarrow> u8 list list" where
  "queued q = map (drop QUEUE_ENTRY_USER_HEADER_SIZE) (queue_entries q (tail q))"

lemma queue_entries_full:
  assumes wf: "ring_wf (buffer_size q) (tail q) (head q) (us @ map Full ds)"
    and mem: "ring_mem (buffer_size q) (tail q) (us @ map Full ds) (qbuf q)"
  shows "queue_entries q (tail q + extent us) = ds"
  using assms
proof (induction ds arbitrary: us)
  case Nil
  then show ?case by (subst queue_entries.simps) (simp add: entry_ready_def ring_wf_def)
next
  case (Cons d ds)
  let ?p = "tail q + extent us"
  have sm: "slot_mem (qbuf q) (?p mod buffer_size q) (Full d)"
    using Cons.prems(2) layout_at [of "tail q" us "Full d" "Full d" "map Full ds"]
    by (auto simp: ring_mem_def)
  have len: "0 < length d" "length d \<le> QUEUE_ENTRY_USER_SIZE" using Cons.prems(1) by (auto simp: ring_wf_def)
  note r = slot_full_ready [OF sm len]
  have "?p < head q" using Cons.prems(1) by (simp add: ring_wf_def)
  then have ready: "entry_ready q ?p" using r len unfolding entry_ready_def by presburger
  have "queue_entries q (tail q + extent (us @ [Full d])) = ds"
    using Cons.IH [of "us @ [Full d]"] Cons.prems by simp
  then show ?case
    using ready r sm by (subst queue_entries.simps) (simp add: entry_at_def add.assoc)
qed

section \<open>One thread\<close>

definition alone :: "queue64 \<Rightarrow> producer \<Rightarrow> conf" where
  "alone q st = \<lparr>cq = q, pc = (\<lambda>_. PIdle)(0 := st), cons = CIdle, got = []\<rparr>"

definition queue_ok :: "queue64 \<Rightarrow> bool" where
  "queue_ok q \<longleftrightarrow> (\<exists>ds. conc_inv (alone q PIdle) (map Full ds))"

lemma queue_okD:
  assumes "conc_inv (alone q PIdle) (map Full ds)"
  shows "queue_ok q" "queued q = map (drop QUEUE_ENTRY_USER_HEADER_SIZE) ds"
  using assms queue_entries_full [of q "[]" ds] by (auto simp: queue_ok_def queued_def conc_inv_def alone_def)

lemma alone_idle: "alone q PIdle = \<lparr>cq = q, pc = (\<lambda>_. PIdle), cons = CIdle, got = []\<rparr>"
  by (simp add: alone_def fun_upd_idem)

lemma queueInit_ok: "2128 \<le> n \<Longrightarrow> n < 2 ^ 31 \<Longrightarrow> queue_ok (queueInit n) \<and> queued (queueInit n) = []"
  using conc_inv_init [of n] queue_okD [of "queueInit n" "[]"] by (simp add: conc_init_def alone_idle)

lemma alone_upd [simp]: "(alone q st)\<lparr>pc := (pc (alone q st))(0 := st')\<rparr> = alone q st'"
  "(alone q st)\<lparr>pc := (pc (alone q st))(0 := st'), cq := q'\<rparr> = alone q' st'"
  "(alone q st)\<lparr>cq := q'\<rparr> = alone q' st" "cq (alone q st) = q" "pc (alone q st) 0 = st"
  by (auto simp: alone_def)

lemma queueAcquire_none:
  assumes "queue_ok q" "queueAcquire n q = (None, q')"
  shows "queue_ok q' \<and> queued q' = queued q"
proof -
  from assms(1) obtain ds where i: "conc_inv (alone q PIdle) (map Full ds)" by (auto simp: queue_ok_def)
  have "q' = q \<or> q' = count_lost q" using assms(2) by (auto simp: queueAcquire_def Let_def split: if_splits)
  then have "conc_inv (alone q' PIdle) (map Full ds)"
    using i by (auto simp: conc_inv_def count_lost_def alone_def)
  then show ?thesis using queue_okD i by metis
qed

text \<open>Acquiring runs the four steps of the compare-and-swap protocol without interference.\<close>

lemma last_open:
  assumes "map Full ds @ [x] = us @ x # vs" "\<forall>d. x \<noteq> Full d"
  shows "us = map Full ds \<and> vs = []"
proof (cases vs rule: rev_cases)
  case (snoc ys y)
  then have "map Full ds = us @ x # ys" using assms(1) by simp
  then have "x \<in> set (map Full ds)" by (metis in_set_conv_decomp)
  then show ?thesis using assms(2) by auto
qed (use assms in simp)

lemma queueAcquire_some:
  assumes i: "conc_inv (alone q PIdle) (map Full ds)" and n: "0 < n" "n \<le> XCPTL_MAX_DTO_SIZE"
    and a: "queueAcquire n q = (Some b, q')"
  shows "conc_inv (alone q' (PReserved (entry_len_of n) (head q))) (map Full ds @ [Reserved 0 (entry_len_of n)])"
    "b = (payload_offset q' (head q), entry_len_of n - QUEUE_ENTRY_USER_HEADER_SIZE)"
proof -
  let ?l = "entry_len_of n" and ?h = "head q"
  let ?q1 = "claim_entry ?h ?l q"
  note l = entry_len_bounds [OF n]
  from a n have ov: "\<not> queue_overrun (buffer_size q) (tail q) ?h ?l"
    and q': "q' = store_reserved ?h ?l ?q1" and b: "b = (entry_at q ?h + 4 + 4, ?l - 4)"
    by (auto simp: queueAcquire_def Let_def split: if_splits)
  have t: "threads_ok (tail q) (pc (alone q PIdle)) (map Full ds)" using i by (simp add: conc_inv_def)
  have "threads_ok (tail q) ((pc (alone q PIdle))(0 := PLoaded ?l (tail q) ?h)) (map Full ds)"
    by (rule threads_other [OF t]) (use l in auto)
  from conc_frame [OF i, of _ q, unfolded alone_upd, OF this]
  have "conc_inv (alone q (PLoaded ?l (tail q) ?h)) (map Full ds)" by simp
  from conc_claim [OF this, of 0 ?l "tail q"] ov
  have i1: "conc_inv (alone ?q1 (PClaimed ?l ?h)) (map Full ds @ [Claimed 0 ?l])" by simp
  from conc_reserve [OF this, of 0 ?l ?h] obtain us vs where
    s: "map Full ds @ [Claimed 0 ?l] = us @ Claimed 0 ?l # vs"
    and i2: "conc_inv (alone q' (PReserved ?l ?h)) (us @ Reserved 0 ?l # vs)" by (auto simp: q')
  from last_open [OF s] show "conc_inv (alone q' (PReserved ?l ?h)) (map Full ds @ [Reserved 0 ?l])"
    using i2 by simp
  show "b = (payload_offset q' ?h, ?l - QUEUE_ENTRY_USER_HEADER_SIZE)"
    by (simp add: b q' payload_offset_def entry_at_def store_reserved_def claim_entry_def)
qed

lemma queue_send:
  assumes ok: "queue_ok q" and n: "0 < n" "n \<le> XCPTL_MAX_DTO_SIZE"
    and a: "queueAcquire n q = (Some b, q1)" and p: "length p = n"
  shows "queue_ok (queuePush b f (queue_put b p q1)) \<and>
    (\<exists>m. padded p m \<and> queued (queuePush b f (queue_put b p q1)) = queued q @ [m])"
proof -
  from ok obtain ds where i: "conc_inv (alone q PIdle) (map Full ds)" by (auto simp: queue_ok_def)
  let ?l = "entry_len_of n" and ?h = "head q"
  let ?q2 = "queue_put b p q1"
  note l = entry_len_bounds [OF n]
  note acq = queueAcquire_some [OF i n a]
  have b2: "queue_put (payload_offset q1 ?h + 0, 0) p q1 = ?q2" by (simp add: queue_put_def acq(2))
  have i2: "conc_inv (alone ?q2 (PReserved ?l ?h)) (map Full ds @ [Reserved 0 ?l])"
    using conc_put [OF acq(1), of 0 ?l ?h 0 p] l p b2 by simp
  have po: "payload_offset ?q2 ?h = payload_offset q1 ?h" "entry_at ?q2 ?h = entry_at q1 ?h"
    by (simp_all add: payload_offset_def entry_at_def queue_put_def)
  have pb: "queuePush (payload_offset q1 ?h, ?l - 4) f ?q2 = queuePush b f ?q2" by (simp add: acq(2))
  from conc_push [OF i2, of 0 ?l ?h f] obtain us vs d where
    s: "map Full ds @ [Reserved 0 ?l] = us @ Reserved 0 ?l # vs"
    and i3: "conc_inv (alone (queuePush b f ?q2) PIdle) (us @ Full d # vs)"
    and d: "d = mem_get (entry_at q1 ?h + 4) ?l (qbuf ?q2)" by (auto simp: po pb)
  from last_open [OF s] have "us = map Full ds \<and> vs = []" by simp
  with i3 have i4: "conc_inv (alone (queuePush b f ?q2) PIdle) (map Full (ds @ [d]))" by simp
  define k where "k = ?l - 4 - n"
  have lk: "?l = 4 + (n + k)" "k < 4" using l by (simp_all add: k_def)
  have "mem_get (entry_at q1 ?h + 4 + 4) n (qbuf ?q2) = p"
    using mem_get_set_same [of "entry_at q1 ?h + 4 + 4" p "qbuf q1"] p
    by (simp add: queue_put_def acq(2) payload_offset_def add.assoc)
  then have "drop 4 d = p @ mem_get (entry_at q1 ?h + 4 + 4 + n) k (qbuf ?q2)"
    unfolding d lk(1) mem_get_split by simp
  then have "padded p (drop 4 d)" using lk(2) by (auto simp: padded_def)
  then show ?thesis using queue_okD [OF i4] queue_okD(2) [OF i] by auto
qed

interpretation q64: dto_queue queueAcquire queue_put queuePush queue_ok queued
  by unfold_locales (use queueAcquire_none queue_send in blast)+

end
