(* ===== verification/Queue64f.thy ===== *)
theory Queue64f
  imports Queue64v Queue_Order
begin

text \<open>
  The lock-free transmit queue with entries of fixed size (\<^verbatim>\<open>src/src/queue64f.c\<close>, the build with
  \<^verbatim>\<open>OPTION_QUEUE_64_FIX_SIZE\<close>, where a DTO has at most 248 bytes and an entry 256). Every entry has its atomic header at
  a place where no data is ever written, so the headers are a map of their own, by the offset of the entry in the
  buffer. The cursors are byte counts as in \<^verbatim>\<open>queue64v.c\<close>; the overrun test and the rounding of lengths are the
  same code.
\<close>

section \<open>State\<close>

abbreviation (input) MAX_DTO_FIX :: nat where "MAX_DTO_FIX \<equiv> 248"
abbreviation (input) ENTRY_USER_FIX :: nat where "ENTRY_USER_FIX \<equiv> 252"
abbreviation (input) QUEUE_ENTRY_SIZE :: nat where "QUEUE_ENTRY_SIZE \<equiv> 256"

record queue64f =
  f_head :: nat
  f_tail :: nat
  f_lost :: nat
  f_flush :: nat
  f_size :: nat
  entry_header :: "nat \<Rightarrow> nat"
  f_buf :: bytes

section \<open>Initialisation\<close>

definition queueClearF :: "queue64f \<Rightarrow> queue64f" where
  "queueClearF q = q\<lparr>f_head := 0, f_tail := 0, f_lost := 0, f_flush := 2 ^ 64 - 1,
     entry_header := (\<lambda>a. if a < f_size q \<and> a mod QUEUE_ENTRY_SIZE = 0 then 0 else entry_header q a),
     f_buf := (\<lambda>b. if b < f_size q then 0 else f_buf q b)\<rparr>"

text \<open>Allocated, or placed in the caller's memory and cleared; attaching to an initialised queue only checks the magic
  number.\<close>

definition queueInitFromMemoryF :: "nat \<Rightarrow> bool \<Rightarrow> queue64f" where
  "queueInitFromMemoryF mem_size from_memory =
     queueClearF \<lparr>f_head = 0, f_tail = 0, f_lost = 0, f_flush = 0,
       f_size = (if from_memory then mem_size - CACHE_LINE_SIZE else mem_size) div QUEUE_ENTRY_SIZE * QUEUE_ENTRY_SIZE,
       entry_header = (\<lambda>_. 0), f_buf = (\<lambda>_. 0)\<rparr>"

definition queueInitF :: "nat \<Rightarrow> queue64f" where
  "queueInitF queue_buffer_size = queueInitFromMemoryF (queue_buffer_size + CACHE_LINE_SIZE) False"

section \<open>Producer\<close>

definition entry_of :: "queue64f \<Rightarrow> nat \<Rightarrow> nat" where
  "entry_of q pos = pos mod f_size q"

definition count_lostF :: "queue64f \<Rightarrow> queue64f" where
  "count_lostF q = q\<lparr>f_lost := (f_lost q + 1) mod 2 ^ 32\<rparr>"

definition claim_slot :: "nat \<Rightarrow> queue64f \<Rightarrow> queue64f" where
  "claim_slot pos q = q\<lparr>f_head := pos + QUEUE_ENTRY_SIZE\<rparr>"

definition reserve_slot :: "nat \<Rightarrow> nat \<Rightarrow> queue64f \<Rightarrow> queue64f" where
  "reserve_slot pos len q = q\<lparr>entry_header := (entry_header q)(entry_of q pos := len)\<rparr>"

definition queueAcquireF :: "nat \<Rightarrow> queue64f \<Rightarrow> (nat \<times> nat) option \<times> queue64f" where
  "queueAcquireF packet_len q =
     (if \<not> (0 < packet_len \<and> packet_len \<le> MAX_DTO_FIX) then (None, q)
      else let len = entry_len_of packet_len in
        if queue_overrun (f_size q) (f_tail q) (f_head q) len then (None, count_lostF q)
        else (Some (entry_of q (f_head q) + QUEUE_ENTRY_HEADER_SIZE + QUEUE_ENTRY_USER_HEADER_SIZE,
                    len - QUEUE_ENTRY_USER_HEADER_SIZE),
              reserve_slot (f_head q) len (claim_slot (f_head q) q)))"

definition queue_putF :: "nat \<times> nat \<Rightarrow> u8 list \<Rightarrow> queue64f \<Rightarrow> queue64f" where
  "queue_putF b xs q = q\<lparr>f_buf := mem_set (fst b) xs (f_buf q)\<rparr>"

definition queuePushF :: "nat \<times> nat \<Rightarrow> bool \<Rightarrow> queue64f \<Rightarrow> queue64f" where
  "queuePushF b flush q =
     (let entry = fst b - QUEUE_ENTRY_USER_HEADER_SIZE - 4;
          q1 = (if flush then q\<lparr>f_flush := entry\<rparr> else q)
      in q1\<lparr>entry_header := (entry_header q1)
           (entry := ENTRY_COMMITTED * 65536 + (snd b + QUEUE_ENTRY_USER_HEADER_SIZE))\<rparr>)"

section \<open>Consumer\<close>

definition queueLevelF :: "queue64f \<Rightarrow> nat" where
  "queueLevelF q = (if f_head q < f_tail q then 0 else (f_head q - f_tail q) mod 2 ^ 32 div QUEUE_ENTRY_SIZE)"

definition queuePeekF :: "nat \<Rightarrow> queue64f \<Rightarrow> (nat \<times> nat) option \<times> nat \<times> bool \<times> queue64f" where
  "queuePeekF index q =
     (let lost = f_lost q; q1 = q\<lparr>f_lost := 0\<rparr>;
          pos = f_tail q1 + index * QUEUE_ENTRY_SIZE mod 2 ^ 32;
          entry = entry_of q1 pos;
          payload_length = entry_header q1 entry mod 65536;
          commit_state = entry_header q1 entry div 65536
      in if f_head q1 \<le> pos then (None, lost, False, q1)
         else if commit_state \<noteq> ENTRY_COMMITTED then (None, lost, False, q1)
         else if \<not> (0 < payload_length \<and> payload_length \<le> ENTRY_USER_FIX) then (None, lost, False, q1)
         else (Some (entry + 4, payload_length), lost, f_flush q1 = entry, q1))"

definition clear_slot :: "nat \<times> nat \<Rightarrow> queue64f \<Rightarrow> queue64f" where
  "clear_slot b q = q\<lparr>entry_header := (entry_header q)(fst b - 4 := 0)\<rparr>"

definition advance_slot :: "queue64f \<Rightarrow> queue64f" where
  "advance_slot q = q\<lparr>f_tail := f_tail q + QUEUE_ENTRY_SIZE\<rparr>"

definition queueReleaseF :: "nat \<times> nat \<Rightarrow> queue64f \<Rightarrow> queue64f" where
  "queueReleaseF b q = advance_slot (clear_slot b q)"

section \<open>Threads\<close>

text \<open>Any number of producers and the consumer interleave the atomic accesses, sequentially consistent. As in
  \<^verbatim>\<open>queue64v.c\<close> a producer loads \<open>tail\<close>, then \<open>head\<close>; after a lost compare-and-swap it has a new \<open>head\<close> and
  loads \<open>tail\<close> again.\<close>

record fconf =
  fq :: queue64f
  fpc :: "nat \<Rightarrow> producer"
  fcons :: consumer
  fgot :: "u8 list list"

definition payload_of :: "queue64f \<Rightarrow> nat \<Rightarrow> nat" where
  "payload_of q pos = entry_of q pos + QUEUE_ENTRY_HEADER_SIZE + QUEUE_ENTRY_USER_HEADER_SIZE"

inductive slot_step :: "fconf \<Rightarrow> fconf \<Rightarrow> bool" where
  f_load_tail: "fpc c p = PIdle \<Longrightarrow> 0 < n \<Longrightarrow> n \<le> MAX_DTO_FIX \<Longrightarrow>
    slot_step c (c\<lparr>fpc := (fpc c)(p := PTail (entry_len_of n) (f_tail (fq c)))\<rparr>)"
| f_load_head: "fpc c p = PTail l t \<Longrightarrow> slot_step c (c\<lparr>fpc := (fpc c)(p := PLoaded l t (f_head (fq c)))\<rparr>)"
| f_overrun: "fpc c p = PLoaded l t h \<Longrightarrow> queue_overrun (f_size (fq c)) t h l \<Longrightarrow>
    slot_step c (c\<lparr>fpc := (fpc c)(p := PIdle), fq := count_lostF (fq c)\<rparr>)"
| f_cas_win: "fpc c p = PLoaded l t h \<Longrightarrow> \<not> queue_overrun (f_size (fq c)) t h l \<Longrightarrow> f_head (fq c) = h \<Longrightarrow>
    slot_step c (c\<lparr>fpc := (fpc c)(p := PClaimed l h), fq := claim_slot h (fq c)\<rparr>)"
| f_cas_fail: "fpc c p = PLoaded l t h \<Longrightarrow> \<not> queue_overrun (f_size (fq c)) t h l \<Longrightarrow>
    slot_step c (c\<lparr>fpc := (fpc c)(p := PHead l (f_head (fq c)))\<rparr>)"
| f_reload_tail: "fpc c p = PHead l h \<Longrightarrow>
    slot_step c (c\<lparr>fpc := (fpc c)(p := PLoaded l (f_tail (fq c)) h)\<rparr>)"
| f_reserve: "fpc c p = PClaimed l pos \<Longrightarrow>
    slot_step c (c\<lparr>fpc := (fpc c)(p := PReserved l pos), fq := reserve_slot pos l (fq c)\<rparr>)"
| f_put: "fpc c p = PReserved l pos \<Longrightarrow> k + length xs \<le> l - QUEUE_ENTRY_USER_HEADER_SIZE \<Longrightarrow>
    slot_step c (c\<lparr>fq := queue_putF (payload_of (fq c) pos + k, 0) xs (fq c)\<rparr>)"
| f_push: "fpc c p = PReserved l pos \<Longrightarrow>
    slot_step c (c\<lparr>fpc := (fpc c)(p := PIdle),
      fq := queuePushF (payload_of (fq c) pos, l - QUEUE_ENTRY_USER_HEADER_SIZE) f (fq c)\<rparr>)"
| f_clear: "fcons c = CIdle \<Longrightarrow> queuePeekF 0 (fq c) = (Some b, lost, f, q) \<Longrightarrow>
    slot_step c (c\<lparr>fcons := CCleared (snd b), fgot := fgot c @ [mem_get (fst b) (snd b) (f_buf q)], fq := clear_slot b q\<rparr>)"
| f_peek: "fcons c = CIdle \<Longrightarrow> queuePeekF i (fq c) = (r, lost, f, q) \<Longrightarrow> slot_step c (c\<lparr>fq := q\<rparr>)"
| f_advance: "fcons c = CCleared n \<Longrightarrow> slot_step c (c\<lparr>fcons := CIdle, fq := advance_slot (fq c)\<rparr>)"

definition fixed_init :: "nat \<Rightarrow> fconf" where
  "fixed_init queue_buffer_size = \<lparr>fq = queueInitF queue_buffer_size, fpc = (\<lambda>_. PIdle), fcons = CIdle, fgot = []\<rparr>"

end
