(* ===== verification/Queue64f_Conc.thy ===== *)
theory Queue64f_Conc
  imports Queue64f
begin

text \<open>
  The fixed-size queue under every interleaving of its threads: the invariant between the entries from \<open>tail\<close> to
  \<open>head\<close> and the buffer, its preservation by each atomic step, and the interpretation of \<open>fifo_order\<close>. Every free entry
  has a zero header; that is what makes it safe for a producer to take it without looking.
\<close>

section \<open>Places\<close>

fun spots :: "nat \<Rightarrow> slot list \<Rightarrow> (nat \<times> slot) list" where
  "spots t [] = []"
| "spots t (x # xs) = (t, x) # spots (t + QUEUE_ENTRY_SIZE) xs"

lemma spots_append: "spots t (xs @ ys) = spots t xs @ spots (t + 256 * length xs) ys"
  by (induction t xs rule: spots.induct) (simp_all add: algebra_simps)

lemma spots_bounds: "(pos, x) \<in> set (spots t xs) \<Longrightarrow> t \<le> pos \<and> pos + 256 \<le> t + 256 * length xs \<and> 256 dvd pos - t"
proof (induction t xs rule: spots.induct)
  case (2 t y ys)
  show ?case
  proof (cases "pos = t")
    case False
    with 2 have b: "t + 256 \<le> pos \<and> pos + 256 \<le> t + 256 + 256 * length ys \<and> 256 dvd pos - (t + 256)" by auto
    then have "pos - t = (pos - (t + 256)) + 256" by simp
    then have "256 dvd pos - t" using b by (metis dvd_add dvd_refl)
    then show ?thesis using b by simp
  qed simp
qed simp

lemma spots_split:
  assumes "(pos, x) \<in> set (spots t xs)"
  obtains us vs where "xs = us @ x # vs" "pos = t + 256 * length us"
  using assms
proof (induction t xs arbitrary: thesis rule: spots.induct)
  case (2 t y ys)
  show ?case
  proof (cases "pos = t \<and> x = y")
    case True
    then show ?thesis using 2(2) [of "[]" ys] by simp
  next
    case False
    then have "(pos, x) \<in> set (spots (t + 256) ys)" using 2(3) by auto
    from 2(1) [OF _ this] obtain us vs where "ys = us @ x # vs" "pos = t + 256 + 256 * length us" by blast
    then show ?thesis using 2(2) [of "y # us" vs] by simp
  qed
qed simp

lemma spots_replace: "(pos, z) \<in> set (spots t (us @ y # vs)) \<longleftrightarrow>
    (if pos = t + 256 * length us then z = y else (pos, z) \<in> set (spots t (us @ x # vs)))"
proof -
  have "pos < t + 256 * length us" if "(pos, z) \<in> set (spots t us)" using spots_bounds [OF that] by linarith
  moreover have "t + 256 * length us < pos" if "(pos, z) \<in> set (spots (t + 256 * length us + 256) vs)"
    using spots_bounds [OF that] by linarith
  ultimately show ?thesis by (auto simp: spots_append)
qed

lemma spots_at: "(t + 256 * length us, z) \<in> set (spots t (us @ x # vs)) \<longleftrightarrow> z = x"
  using spots_replace [of "t + 256 * length us" z t us x vs x] by simp

section \<open>Invariant\<close>

definition slot_holds :: "queue64f \<Rightarrow> nat \<Rightarrow> slot \<Rightarrow> bool" where
  "slot_holds q pos x \<longleftrightarrow> 4 < slot_len x \<and> slot_len x \<le> ENTRY_USER_FIX \<and> (case x of
       Claimed p l \<Rightarrow> entry_header q (entry_of q pos) = 0
     | Reserved p l \<Rightarrow> entry_header q (entry_of q pos) = l
     | Full d \<Rightarrow> entry_header q (entry_of q pos) = ENTRY_COMMITTED * 65536 + length d
         \<and> mem_get (entry_of q pos + 4) (length d) (f_buf q) = d
     | Dead l \<Rightarrow> entry_header q (entry_of q pos) = 0)"

definition slots_ok :: "queue64f \<Rightarrow> slot list \<Rightarrow> bool" where
  "slots_ok q xs \<longleftrightarrow> 256 dvd f_size q \<and> 0 < f_size q \<and> f_size q < 2 ^ 32 \<and> 256 dvd f_tail q
     \<and> f_head q = f_tail q + 256 * length xs \<and> f_head q \<le> f_tail q + f_size q
     \<and> (\<forall>pos x. (pos, x) \<in> set (spots (f_tail q) xs) \<longrightarrow> slot_holds q pos x)
     \<and> (\<forall>pos. 256 dvd pos \<longrightarrow> f_head q \<le> pos \<longrightarrow> pos < f_tail q + f_size q \<longrightarrow> entry_header q (entry_of q pos) = 0)"

definition owners_ok :: "nat \<Rightarrow> (nat \<Rightarrow> producer) \<Rightarrow> slot list \<Rightarrow> bool" where
  "owners_ok t f xs \<longleftrightarrow>
     (\<forall>p l pos. f p = PClaimed l pos \<longleftrightarrow> (pos, Claimed p l) \<in> set (spots t xs))
     \<and> (\<forall>p l pos. f p = PReserved l pos \<longleftrightarrow> (pos, Reserved p l) \<in> set (spots t xs))
     \<and> (\<forall>p l u. f p = PTail l u \<longrightarrow> u \<le> t \<and> 4 < l \<and> l \<le> ENTRY_USER_FIX)
     \<and> (\<forall>p l u h. f p = PLoaded l u h \<longrightarrow> u \<le> t \<and> 4 < l \<and> l \<le> ENTRY_USER_FIX)
     \<and> (\<forall>p l h. f p = PHead l h \<longrightarrow> 4 < l \<and> l \<le> ENTRY_USER_FIX)"

definition reader_ok :: "consumer \<Rightarrow> slot list \<Rightarrow> bool" where
  "reader_ok c xs \<longleftrightarrow> (case c of CIdle \<Rightarrow> \<forall>l. Dead l \<notin> set xs
     | CCleared n \<Rightarrow> (\<exists>ys. xs = Dead n # ys \<and> (\<forall>l. Dead l \<notin> set ys)))"

definition finv :: "fconf \<Rightarrow> slot list \<Rightarrow> bool" where
  "finv c xs \<longleftrightarrow> slots_ok (fq c) xs \<and> owners_ok (f_tail (fq c)) (fpc c) xs \<and> reader_ok (fcons c) xs"

text \<open>Different entries within one lap lie apart in the buffer.\<close>

lemma entries_apart:
  fixes s t p p' :: nat
  assumes s: "256 dvd s" "0 < s" "256 dvd t" and p: "256 dvd p" "256 dvd p'" "p \<noteq> p'"
    and r: "t \<le> p" "p < t + s" "t \<le> p'" "p' < t + s"
  shows "p mod s + 256 \<le> p' mod s \<or> p' mod s + 256 \<le> p mod s"
proof -
  have step: "a + 256 \<le> b" if "256 dvd a" "256 dvd b" "a < b" for a b :: nat
  proof -
    from that(1,2) obtain i j where "a = 256 * i" "b = 256 * j" by (auto elim!: dvdE)
    with that(3) show ?thesis by simp
  qed
  have ts: "256 dvd t + s" using s by simp
  show ?thesis
  proof (cases "p < p'")
    case True
    show ?thesis using ring_disjoint [of t p 256 p' 256 s] step [OF p(1,2) True] step [OF p(2) ts r(4)] r s by simp
  next
    case False
    then have "p' < p" using p(3) by simp
    then show ?thesis using ring_disjoint [of t p' 256 p 256 s] step [OF p(2,1)] step [OF p(1) ts r(2)] r s by auto
  qed
qed

text \<open>A store inside one entry.\<close>

lemma slots_update:
  assumes ok: "slots_ok q (us @ x # vs)" and pos: "pos = f_tail q + 256 * length us"
    and q: "f_size q' = f_size q" "f_tail q' = f_tail q" "f_head q' = f_head q"
    and hdr: "\<And>a. a \<noteq> entry_of q pos \<Longrightarrow> entry_header q' a = entry_header q a"
    and buf: "\<And>b. b < entry_of q pos + 4 \<or> entry_of q pos + 256 \<le> b \<Longrightarrow> f_buf q' b = f_buf q b"
    and new: "slot_holds q' pos y"
  shows "slots_ok q' (us @ y # vs)"
proof -
  have g: "256 dvd f_size q" "0 < f_size q" "256 dvd f_tail q" "f_head q \<le> f_tail q + f_size q"
    "f_head q = f_tail q + 256 * length (us @ x # vs)" using ok by (simp_all add: slots_ok_def)
  have p: "256 dvd pos" "f_tail q \<le> pos" "pos + 256 \<le> f_head q" using g by (simp_all add: pos)
  have apart: "entry_of q z \<noteq> entry_of q pos \<and> (entry_of q z + 256 \<le> entry_of q pos + 4 \<or> entry_of q pos + 256 \<le> entry_of q z)"
    if "256 dvd z" "f_tail q \<le> z" "z < f_tail q + f_size q" "z \<noteq> pos" for z
    using entries_apart [OF g(1,2,3) that(1) p(1) that(4) that(2,3) p(2)] p(3) g(4) unfolding entry_of_def by linarith
  have e: "entry_of q' = entry_of q" by (intro ext) (simp add: entry_of_def q)
  have other: "slot_holds q' z w" if z: "(z, w) \<in> set (spots (f_tail q) (us @ y # vs))" "z \<noteq> pos" for z w
  proof -
    have zx: "(z, w) \<in> set (spots (f_tail q) (us @ x # vs))" using z spots_replace [of z w "f_tail q" us y vs x] pos by simp
    then have old: "slot_holds q z w" using ok by (simp add: slots_ok_def)
    have b: "f_tail q \<le> z" "z + 256 \<le> f_tail q + 256 * length (us @ x # vs)" "256 dvd z - f_tail q"
      using spots_bounds [OF zx] by simp_all
    have "z = (z - f_tail q) + f_tail q" using b(1) by simp
    then have "256 dvd z" using b(3) g(3) by (metis dvd_add)
    from apart [OF this b(1) _ z(2)] b(2) g(4,5) have a: "entry_of q z \<noteq> entry_of q pos"
      "entry_of q z + 256 \<le> entry_of q pos + 4 \<or> entry_of q pos + 256 \<le> entry_of q z" by auto
    have "mem_get (entry_of q z + 4) n (f_buf q') = mem_get (entry_of q z + 4) n (f_buf q)" if "n \<le> 252" for n
      by (rule mem_get_cong) (use a(2) that in \<open>auto intro!: buf\<close>)
    then show ?thesis using old hdr [OF a(1)] by (auto simp: slot_holds_def e split: slot.splits)
  qed
  have at: "w = y" if "(pos, w) \<in> set (spots (f_tail q) (us @ y # vs))" for w using that by (simp add: pos spots_at)
  have free: "entry_header q' (entry_of q z) = 0" if z: "256 dvd z" "f_head q \<le> z" "z < f_tail q + f_size q" for z
  proof -
    have "entry_of q z \<noteq> entry_of q pos" using apart [OF z(1) _ z(3)] z(2) p by auto
    then show ?thesis using hdr z ok by (simp add: slots_ok_def)
  qed
  show ?thesis
    unfolding slots_ok_def q e
  proof (intro conjI allI impI)
    fix z w
    assume "(z, w) \<in> set (spots (f_tail q) (us @ y # vs))"
    then show "slot_holds q' z w" using other at new by (cases "z = pos") auto
  qed (use g free ok in \<open>simp_all add: slots_ok_def\<close>)
qed

lemma owners_update:
  assumes thr: "owners_ok t f (us @ x # vs)" and own: "x = Claimed p l \<or> x = Reserved p l"
    and y: "(y = Reserved p l \<and> st = PReserved l (t + 256 * length us)) \<or> (y = Full d \<and> st = PIdle)"
  shows "owners_ok t (f(p := st)) (us @ y # vs)"
proof -
  note lay = spots_replace [of _ _ t us y vs x]
  have c: "\<And>q m pos. f q = PClaimed m pos \<longleftrightarrow> (pos, Claimed q m) \<in> set (spots t (us @ x # vs))"
    and r: "\<And>q m pos. f q = PReserved m pos \<longleftrightarrow> (pos, Reserved q m) \<in> set (spots t (us @ x # vs))"
    using thr by (simp_all add: owners_ok_def)
  have me: "f p = PClaimed l (t + 256 * length us) \<and> x = Claimed p l \<or> f p = PReserved l (t + 256 * length us) \<and> x = Reserved p l"
    using own c [of p l "t + 256 * length us"] r [of p l "t + 256 * length us"] by (auto simp: spots_at)
  have c': "(pos, Claimed q m) \<in> set (spots t (us @ y # vs)) \<longleftrightarrow> q \<noteq> p \<and> f q = PClaimed m pos" for pos q m
    using me y c [of q m pos] c [of p m pos] unfolding lay by (auto simp: spots_at)
  have r': "(pos, Reserved q m) \<in> set (spots t (us @ y # vs)) \<longleftrightarrow> (f(p := st)) q = PReserved m pos" for pos q m
    using me y r [of q m pos] r [of p m pos] unfolding lay by (auto simp: spots_at)
  show ?thesis
    using thr y unfolding owners_ok_def c' r' by auto
qed

section \<open>The steps of a producer\<close>

lemma owners_other:
  assumes "owners_ok t f xs" "\<forall>l pos. f p \<noteq> PClaimed l pos" "\<forall>l pos. f p \<noteq> PReserved l pos"
    and "st = PIdle \<or> (\<exists>l u h. u \<le> t \<and> 4 < l \<and> l \<le> ENTRY_USER_FIX \<and> (st = PTail l u \<or> st = PLoaded l u h \<or> st = PHead l h))"
  shows "owners_ok t (f(p := st)) xs"
proof -
  have "(pos, Claimed p l) \<notin> set (spots t xs)" "(pos, Reserved p l) \<notin> set (spots t xs)" for l pos
    using assms(1-3) by (simp_all add: owners_ok_def)
  then show ?thesis using assms unfolding owners_ok_def by auto
qed

lemma owners_lengths:
  "owners_ok t f xs \<Longrightarrow> f p = PLoaded l u h \<Longrightarrow> u \<le> t \<and> 4 < l \<and> l \<le> ENTRY_USER_FIX"
  "owners_ok t f xs \<Longrightarrow> f p = PTail l u \<Longrightarrow> u \<le> t \<and> 4 < l \<and> l \<le> ENTRY_USER_FIX"
  "owners_ok t f xs \<Longrightarrow> f p = PHead l h \<Longrightarrow> 4 < l \<and> l \<le> ENTRY_USER_FIX"
  unfolding owners_ok_def by blast+

lemma owners_places:
  assumes "owners_ok t f xs"
  shows "(pos, Claimed p l) \<in> set (spots t xs) \<longleftrightarrow> f p = PClaimed l pos"
    and "(pos, Reserved p l) \<in> set (spots t xs) \<longleftrightarrow> f p = PReserved l pos"
  using assms by (simp_all add: owners_ok_def)

lemma slot_holds_same:
  assumes "f_size q' = f_size q" "entry_header q' = entry_header q" "f_buf q' = f_buf q"
  shows "slot_holds q' = slot_holds q" and "entry_of q' = entry_of q"
proof -
  show e: "entry_of q' = entry_of q" by (intro ext) (simp add: entry_of_def assms)
  show "slot_holds q' = slot_holds q" by (intro ext) (unfold slot_holds_def e assms, rule refl)
qed

lemma finv_frame:
  assumes "finv c xs" "owners_ok (f_tail (fq c)) f xs" "f_size q = f_size (fq c)" "f_tail q = f_tail (fq c)"
    "f_head q = f_head (fq c)" "entry_header q = entry_header (fq c)" "f_buf q = f_buf (fq c)"
  shows "finv (c\<lparr>fpc := f, fq := q\<rparr>) xs"
  using assms slot_holds_same [of q "fq c"] by (simp add: finv_def slots_ok_def)

lemma entry_len_fix: "0 < n \<Longrightarrow> n \<le> MAX_DTO_FIX \<Longrightarrow> 4 < entry_len_of n \<and> entry_len_of n \<le> ENTRY_USER_FIX"
  using entry_len_bounds [of n] by (simp add: entry_len_of_def align_up_def)

text \<open>A won compare-and-swap has found room, although the test used a value of \<open>tail\<close> that may be old.\<close>

lemma finv_claim:
  assumes inv: "finv c xs" and p: "fpc c p = PLoaded l t (f_head (fq c))"
    and room: "\<not> queue_overrun (f_size (fq c)) t (f_head (fq c)) l"
  shows "finv (c\<lparr>fpc := (fpc c)(p := PClaimed l (f_head (fq c))), fq := claim_slot (f_head (fq c)) (fq c)\<rparr>) (xs @ [Claimed p l])"
proof -
  let ?q = "fq c"
  have ok: "slots_ok ?q xs" and thr: "owners_ok (f_tail ?q) (fpc c) xs" and rd: "reader_ok (fcons c) xs"
    using inv by (simp_all add: finv_def)
  have g: "256 dvd f_size ?q" "0 < f_size ?q" "f_size ?q < 2 ^ 32" "256 dvd f_tail ?q"
    "f_head ?q = f_tail ?q + 256 * length xs" "f_head ?q \<le> f_tail ?q + f_size ?q" using ok by (simp_all add: slots_ok_def)
  have l: "t \<le> f_tail ?q" "4 < l" "l \<le> 252" using owners_lengths(1) [OF thr p] by simp_all
  have ge: "256 \<le> f_size ?q" using g(1,2) by (rule dvd_imp_le)
  have "(int (f_size ?q) - int (l + 4)) mod 2 ^ 64 = int (f_size ?q - (l + 4))" using ge l g(3) by (simp add: of_nat_diff)
  then have "f_head ?q - f_tail ?q < f_size ?q"
    using room l g(2) ge unfolding queue_overrun_def by (cases "t < f_head ?q") auto
  then have lt: "f_head ?q < f_tail ?q + f_size ?q" using g(5) by simp
  have "f_head ?q + 256 \<le> f_tail ?q + f_size ?q"
  proof -
    obtain i j where "f_tail ?q = 256 * i" "f_size ?q = 256 * j" using g(1,4) by (auto elim!: dvdE)
    then show ?thesis using lt g(5) by simp
  qed
  moreover have "256 dvd f_head ?q" using g(4,5) by simp
  moreover from this have "entry_header ?q (entry_of ?q (f_head ?q)) = 0" using ok lt by (simp add: slots_ok_def)
  moreover have e: "entry_of (claim_slot (f_head ?q) ?q) = entry_of ?q" "slot_holds (claim_slot (f_head ?q) ?q) = slot_holds ?q"
    by (rule slot_holds_same; simp add: claim_slot_def)+
  ultimately have "slots_ok (claim_slot (f_head ?q) ?q) (xs @ [Claimed p l])"
    using ok l g(5) unfolding slots_ok_def e
    by (auto simp: claim_slot_def spots_append slot_holds_def)
  moreover have "owners_ok (f_tail ?q) ((fpc c)(p := PClaimed l (f_head ?q))) (xs @ [Claimed p l])"
  proof -
    have "(pos, Claimed p m) \<notin> set (spots (f_tail ?q) xs)" "(pos, Reserved p m) \<notin> set (spots (f_tail ?q) xs)" for m pos
      using p by (simp_all add: owners_places [OF thr])
    then show ?thesis using thr g(5) unfolding owners_ok_def by (auto simp: spots_append)
  qed
  moreover have "reader_ok (fcons c) (xs @ [Claimed p l])" using rd by (auto simp: reader_ok_def split: consumer.splits)
  ultimately show ?thesis by (simp add: finv_def claim_slot_def)
qed

text \<open>The stores of a producer that owns an entry.\<close>

lemma finv_store:
  assumes inv: "finv c (us @ x # vs)" and pos: "pos = f_tail (fq c) + 256 * length us"
    and q: "f_size q = f_size (fq c)" "f_tail q = f_tail (fq c)" "f_head q = f_head (fq c)"
    and hdr: "\<And>a. a \<noteq> entry_of (fq c) pos \<Longrightarrow> entry_header q a = entry_header (fq c) a"
    and buf: "\<And>b. b < entry_of (fq c) pos + 4 \<or> entry_of (fq c) pos + 256 \<le> b \<Longrightarrow> f_buf q b = f_buf (fq c) b"
    and new: "slot_holds q pos y" and y: "\<forall>l. y \<noteq> Dead l" "\<forall>l. x \<noteq> Dead l"
    and thr: "owners_ok (f_tail (fq c)) f (us @ y # vs)"
  shows "finv (c\<lparr>fpc := f, fq := q\<rparr>) (us @ y # vs)"
proof -
  have "slots_ok q (us @ y # vs)"
    by (rule slots_update [of "fq c" us x vs pos]) (use inv pos q hdr buf new in \<open>simp_all add: finv_def\<close>)
  moreover have "reader_ok (fcons c) (us @ y # vs)"
    using inv y by (cases us) (auto simp: finv_def reader_ok_def split: consumer.splits)
  ultimately show ?thesis using thr q by (simp add: finv_def)
qed

lemma finv_owned:
  assumes inv: "finv c xs" and x: "(pos, x) \<in> set (spots (f_tail (fq c)) xs)"
  obtains us vs where "xs = us @ x # vs" "pos = f_tail (fq c) + 256 * length us" "slot_holds (fq c) pos x"
proof -
  have "slot_holds (fq c) pos x" using inv x by (simp add: finv_def slots_ok_def)
  with spots_split [OF x] that show ?thesis by blast
qed

lemma finv_reserve:
  assumes inv: "finv c xs" and p: "fpc c p = PClaimed l pos"
  shows "\<exists>us vs. xs = us @ Claimed p l # vs
    \<and> finv (c\<lparr>fpc := (fpc c)(p := PReserved l pos), fq := reserve_slot pos l (fq c)\<rparr>) (us @ Reserved p l # vs)"
proof -
  have "(pos, Claimed p l) \<in> set (spots (f_tail (fq c)) xs)" using inv p by (simp add: finv_def owners_ok_def)
  from finv_owned [OF inv this] obtain us vs where s: "xs = us @ Claimed p l # vs" "pos = f_tail (fq c) + 256 * length us"
    and h: "slot_holds (fq c) pos (Claimed p l)" by blast
  have "finv (c\<lparr>fpc := (fpc c)(p := PReserved l pos), fq := reserve_slot pos l (fq c)\<rparr>) (us @ Reserved p l # vs)"
  proof (rule finv_store [OF inv [unfolded s(1)] s(2)])
    show "slot_holds (reserve_slot pos l (fq c)) pos (Reserved p l)"
      using h by (simp add: slot_holds_def reserve_slot_def entry_of_def)
    show "owners_ok (f_tail (fq c)) ((fpc c)(p := PReserved l pos)) (us @ Reserved p l # vs)"
      by (rule owners_update [where x = "Claimed p l" and l = l]) (use inv s in \<open>simp_all add: finv_def\<close>)
  qed (simp_all add: reserve_slot_def)
  with s show ?thesis by blast
qed

lemma finv_push:
  assumes inv: "finv c xs" and p: "fpc c p = PReserved l pos"
  shows "\<exists>us vs d. xs = us @ Reserved p l # vs \<and> finv (c\<lparr>fpc := (fpc c)(p := PIdle),
      fq := queuePushF (payload_of (fq c) pos, l - QUEUE_ENTRY_USER_HEADER_SIZE) f (fq c)\<rparr>) (us @ Full d # vs)
    \<and> d = mem_get (entry_of (fq c) pos + 4) l (f_buf (fq c)) \<and> pos = f_tail (fq c) + 256 * length us"
proof -
  let ?q = "queuePushF (payload_of (fq c) pos, l - QUEUE_ENTRY_USER_HEADER_SIZE) f (fq c)"
  let ?d = "mem_get (entry_of (fq c) pos + 4) l (f_buf (fq c))"
  have "(pos, Reserved p l) \<in> set (spots (f_tail (fq c)) xs)" using inv p by (simp add: finv_def owners_ok_def)
  from finv_owned [OF inv this] obtain us vs where s: "xs = us @ Reserved p l # vs" "pos = f_tail (fq c) + 256 * length us"
    and h: "slot_holds (fq c) pos (Reserved p l)" by blast
  have l: "4 < l" "l \<le> 252" using h by (simp_all add: slot_holds_def)
  have q: "f_size ?q = f_size (fq c)" "f_tail ?q = f_tail (fq c)" "f_head ?q = f_head (fq c)" "f_buf ?q = f_buf (fq c)"
    "entry_header ?q = (entry_header (fq c))(entry_of (fq c) pos := ENTRY_COMMITTED * 65536 + l)"
    using l by (simp_all add: queuePushF_def Let_def payload_of_def)
  have e: "entry_of ?q = entry_of (fq c)" by (intro ext) (simp add: entry_of_def q)
  have "finv (c\<lparr>fpc := (fpc c)(p := PIdle), fq := ?q\<rparr>) (us @ Full ?d # vs)"
  proof (rule finv_store [OF inv [unfolded s(1)] s(2)])
    show "slot_holds ?q pos (Full ?d)" using l by (simp add: slot_holds_def e q)
    show "owners_ok (f_tail (fq c)) ((fpc c)(p := PIdle)) (us @ Full ?d # vs)"
      by (rule owners_update [where x = "Reserved p l" and l = l]) (use inv s in \<open>simp_all add: finv_def\<close>)
  qed (simp_all add: q)
  with s show ?thesis by blast
qed

lemma finv_put:
  assumes inv: "finv c xs" and p: "fpc c p = PReserved l pos" and k: "k + length ys \<le> l - QUEUE_ENTRY_USER_HEADER_SIZE"
  shows "finv (c\<lparr>fq := queue_putF (payload_of (fq c) pos + k, 0) ys (fq c)\<rparr>) xs"
proof -
  let ?q = "queue_putF (payload_of (fq c) pos + k, 0) ys (fq c)"
  have "(pos, Reserved p l) \<in> set (spots (f_tail (fq c)) xs)" using inv p by (simp add: finv_def owners_ok_def)
  from finv_owned [OF inv this] obtain us vs where s: "xs = us @ Reserved p l # vs" "pos = f_tail (fq c) + 256 * length us"
    and h: "slot_holds (fq c) pos (Reserved p l)" by blast
  have l: "4 < l" "l \<le> 252" using h by (simp_all add: slot_holds_def)
  have q: "f_buf ?q = mem_set (entry_of (fq c) pos + 8 + k) ys (f_buf (fq c))" by (simp add: queue_putF_def payload_of_def ac_simps)
  have "finv (c\<lparr>fpc := fpc c, fq := ?q\<rparr>) (us @ Reserved p l # vs)"
  proof (rule finv_store [OF inv [unfolded s(1)] s(2)])
    show "slot_holds ?q pos (Reserved p l)" using h by (simp add: slot_holds_def queue_putF_def entry_of_def)
    show "f_buf ?q b = f_buf (fq c) b" if "b < entry_of (fq c) pos + 4 \<or> entry_of (fq c) pos + 256 \<le> b" for b
      unfolding q by (rule mem_set_outside) (use that k l in auto)
    show "owners_ok (f_tail (fq c)) (fpc c) (us @ Reserved p l # vs)" using inv s by (simp add: finv_def)
  qed (simp_all add: queue_putF_def)
  then show ?thesis using s by simp
qed

end
