(* ===== verification/Queue64f_Fifo.thy ===== *)
theory Queue64f_Fifo
  imports Queue64f_Conc Xcp_Daq_Trigger
begin

text \<open>
  The fixed-size queue keeps the two contracts of a transmit queue: \<open>fifo_order\<close> under every interleaving, and
  \<open>dto_queue\<close>, which the event processor needs, for a thread alone.
\<close>

section \<open>The consumer\<close>

lemma committed_header:
  assumes "n < 65536"
  shows "(ENTRY_COMMITTED * 65536 + n) mod 65536 = n" "(ENTRY_COMMITTED * 65536 + n) div 65536 = ENTRY_COMMITTED"
  unfolding mod_mult_self3 using assms div_mult_self3 [of 65536 ENTRY_COMMITTED n] by simp_all

lemma queuePeekF_same:
  "queuePeekF i q = (r, lost, f, q') \<Longrightarrow> q' = q\<lparr>f_lost := 0\<rparr>"
  by (auto simp: queuePeekF_def Let_def split: if_splits)

lemma queuePeekF_some:
  assumes "queuePeekF 0 q = (Some b, lost, f, q')"
  shows "f_tail q < f_head q \<and> entry_header q (entry_of q (f_tail q)) div 65536 = ENTRY_COMMITTED
    \<and> b = (entry_of q (f_tail q) + 4, entry_header q (entry_of q (f_tail q)) mod 65536)"
proof -
  have e: "entry_of (q\<lparr>f_lost := 0\<rparr>) = entry_of q" by (intro ext) (simp add: entry_of_def)
  show ?thesis using assms by (auto simp: queuePeekF_def Let_def e split: if_splits)
qed

lemma finv_peek:
  assumes inv: "finv c xs" and pk: "queuePeekF i (fq c) = (r, lost, f, q)"
  shows "finv (c\<lparr>fq := q\<rparr>) xs"
proof -
  have "finv (c\<lparr>fpc := fpc c, fq := q\<rparr>) xs"
    by (rule finv_frame [OF inv]) (use inv queuePeekF_same [OF pk] in \<open>auto simp: finv_def\<close>)
  then show ?thesis by simp
qed

lemma finv_clear:
  assumes inv: "finv c xs" and idle: "fcons c = CIdle" and pk: "queuePeekF 0 (fq c) = (Some b, lost, f, q)"
  shows "\<exists>d ys. xs = Full d # ys \<and> mem_get (fst b) (snd b) (f_buf q) = d
    \<and> finv (c\<lparr>fcons := CCleared (snd b), fgot := fgot c @ [mem_get (fst b) (snd b) (f_buf q)], fq := clear_slot b q\<rparr>)
        (Dead (snd b) # ys)"
proof -
  let ?t = "f_tail (fq c)"
  have ok: "slots_ok (fq c) xs" and thr: "owners_ok ?t (fpc c) xs" and dead: "\<forall>l. Dead l \<notin> set xs"
    using inv idle by (simp_all add: finv_def reader_ok_def)
  note pk1 = queuePeekF_some [OF pk] and q = queuePeekF_same [OF pk]
  have "xs \<noteq> []" using pk1 ok by (auto simp: slots_ok_def)
  then obtain x ys where xs: "xs = x # ys" by (cases xs) auto
  have h: "slot_holds (fq c) ?t x" using ok by (simp add: slots_ok_def xs)
  have "\<exists>d. x = Full d"
    using h pk1 dead xs by (cases x) (auto simp: slot_holds_def)
  then obtain d where d: "x = Full d" by blast
  have len: "4 < length d" "length d \<le> 252" and hd: "entry_header (fq c) (entry_of (fq c) ?t) = ENTRY_COMMITTED * 65536 + length d"
    and get: "mem_get (entry_of (fq c) ?t + 4) (length d) (f_buf (fq c)) = d" using h by (simp_all add: d slot_holds_def)
  have b: "b = (entry_of (fq c) ?t + 4, length d)" using pk1 committed_header(1) [of "length d"] len unfolding hd by simp
  have e: "entry_of (clear_slot b q) = entry_of (fq c)" by (intro ext) (simp add: entry_of_def clear_slot_def q)
  have "slots_ok (clear_slot b q) ([] @ Dead (length d) # ys)"
  proof (rule slots_update [where x = x and pos = ?t and q = "fq c"])
    show "slot_holds (clear_slot b q) ?t (Dead (length d))"
      using len by (simp add: slot_holds_def e) (simp add: clear_slot_def b)
  qed (use ok in \<open>simp_all add: xs clear_slot_def q b\<close>)
  moreover have "owners_ok ?t (fpc c) (Dead (length d) # ys)"
    using thr unfolding owners_ok_def by (simp add: xs d)
  moreover have "reader_ok (CCleared (length d)) (Dead (length d) # ys)" using dead xs by (simp add: reader_ok_def)
  ultimately have "finv (c\<lparr>fcons := CCleared (snd b), fgot := fgot c @ [mem_get (fst b) (snd b) (f_buf q)], fq := clear_slot b q\<rparr>)
      (Dead (snd b) # ys)" by (simp add: finv_def b clear_slot_def q)
  then show ?thesis using xs d get by (simp add: b q)
qed

lemma finv_advance:
  assumes inv: "finv c xs" and cl: "fcons c = CCleared n"
  shows "\<exists>ys. xs = Dead n # ys \<and> finv (c\<lparr>fcons := CIdle, fq := advance_slot (fq c)\<rparr>) ys"
proof -
  let ?q = "fq c" and ?q' = "advance_slot (fq c)"
  from inv cl obtain ys where xs: "xs = Dead n # ys" "\<forall>l. Dead l \<notin> set ys" by (auto simp: finv_def reader_ok_def)
  have ok: "slots_ok ?q xs" and thr: "owners_ok (f_tail ?q) (fpc c) xs" using inv by (simp_all add: finv_def)
  have e: "slot_holds ?q' = slot_holds ?q" "entry_of ?q' = entry_of ?q" by (rule slot_holds_same; simp add: advance_slot_def)+
  have free: "entry_header ?q (entry_of ?q pos) = 0"
    if "256 dvd pos" "f_head ?q \<le> pos" "pos < f_tail ?q + 256 + f_size ?q" for pos
  proof (cases "pos < f_tail ?q + f_size ?q")
    case True
    then show ?thesis using ok that by (simp add: slots_ok_def)
  next
    case False
    have g: "256 dvd f_size ?q" "256 dvd f_tail ?q" using ok by (simp_all add: slots_ok_def)
    from that(1) obtain i where i: "pos = 256 * i" by (rule dvdE)
    from g(1) obtain j where j: "f_size ?q = 256 * j" by (rule dvdE)
    from g(2) obtain k where k: "f_tail ?q = 256 * k" by (rule dvdE)
    have "256 * (k + j) \<le> 256 * i" "256 * i < 256 * (k + 1 + j)" using False that(3) unfolding i j k by simp_all
    then have "i = k + j" by simp
    then have "pos = f_tail ?q + f_size ?q" unfolding i j k by simp
    then have "entry_of ?q pos = entry_of ?q (f_tail ?q)" by (simp add: entry_of_def)
    moreover have "slot_holds ?q (f_tail ?q) (Dead n)" using ok by (simp add: slots_ok_def xs)
    ultimately show ?thesis by (simp add: slot_holds_def)
  qed
  have "slots_ok ?q' ys"
    unfolding slots_ok_def e using ok free by (auto simp: slots_ok_def xs advance_slot_def)
  moreover have "owners_ok (f_tail ?q') (fpc c) ys"
  proof -
    have "u \<le> f_tail ?q \<Longrightarrow> u \<le> f_tail ?q + 256" for u by simp
    then show ?thesis using thr unfolding owners_ok_def by (simp add: xs advance_slot_def) (meson trans_le_add1)
  qed
  ultimately show ?thesis using xs by (simp add: finv_def reader_ok_def)
qed

section \<open>Order\<close>

definition slot_silent :: "fconf \<Rightarrow> fconf \<Rightarrow> bool" where
  "slot_silent c c' \<longleftrightarrow> (\<forall>p l pos. (fpc c' p = PClaimed l pos \<longrightarrow> fpc c p = PClaimed l pos)
     \<and> (fpc c p = PReserved l pos \<longrightarrow> fpc c' p = PReserved l pos))"

definition slot_observed :: "fconf \<Rightarrow> queue_event \<Rightarrow> fconf \<Rightarrow> bool" where
  "slot_observed c e c' \<longleftrightarrow> slot_step c c' \<and> (case e of
       Claims pos \<Rightarrow> \<exists>p l t. fpc c p = PLoaded l t pos \<and> fpc c' p = PClaimed l pos
     | Commits pos d \<Rightarrow> \<exists>p l. fpc c p = PReserved l pos \<and> fpc c' p = PIdle
         \<and> d = mem_get (entry_of (fq c) pos + 4) l (f_buf (fq c))
     | Silent \<Rightarrow> slot_silent c c')"

fun slots_live :: "nat \<Rightarrow> slot list \<Rightarrow> history" where
  "slots_live t [] = []"
| "slots_live t (Claimed p l # xs) = (t, None) # slots_live (t + 256) xs"
| "slots_live t (Reserved p l # xs) = (t, None) # slots_live (t + 256) xs"
| "slots_live t (Full d # xs) = (t, Some d) # slots_live (t + 256) xs"
| "slots_live t (Dead l # xs) = slots_live (t + 256) xs"

lemma slots_live_append: "slots_live t (xs @ ys) = slots_live t xs @ slots_live (t + 256 * length xs) ys"
  by (induction t xs rule: slots_live.induct) (simp_all add: algebra_simps)

lemma slots_live_bounds: "k \<in> fst ` set (slots_live t xs) \<Longrightarrow> t \<le> k \<and> k < t + 256 * length xs"
  by (induction t xs rule: slots_live.induct) fastforce+

definition slot_rep :: "fconf \<Rightarrow> history \<Rightarrow> bool" where
  "slot_rep c ys \<longleftrightarrow> (\<exists>xs. finv c xs \<and> ys = slots_live (f_tail (fq c)) xs)"

lemma slot_repI: "finv c xs \<Longrightarrow> ys = slots_live (f_tail (fq c)) xs \<Longrightarrow> slot_rep c ys"
  unfolding slot_rep_def by blast

lemma slot_claims:
  assumes rep: "slot_rep c ys" and st: "slot_observed c (Claims pos) c'"
  shows "slot_rep c' (ys @ [(pos, None)]) \<and> fgot c' = fgot c \<and> pos = f_head (fq c) \<and> pos < f_head (fq c')"
proof -
  from rep obtain xs where inv: "finv c xs" and ys: "ys = slots_live (f_tail (fq c)) xs" unfolding slot_rep_def by blast
  from st obtain p l t where q: "slot_step c c'" and p: "fpc c p = PLoaded l t pos" "fpc c' p = PClaimed l pos"
    by (auto simp: slot_observed_def)
  from q show ?thesis
  proof (cases rule: slot_step.cases)
    case (f_cas_win p' l' t' h')
    then have e: "p' = p" "l' = l" "t' = t" "h' = pos" using p by (auto split: if_splits)
    have c': "finv c' (xs @ [Claimed p l])" using finv_claim [OF inv, of p l t] f_cas_win e by simp
    have h: "f_head (fq c') = pos + 256" "f_tail (fq c') = f_tail (fq c)" "pos = f_head (fq c)" "fgot c' = fgot c"
      using f_cas_win e by (simp_all add: claim_slot_def)
    have "f_head (fq c) = f_tail (fq c) + 256 * length xs" using inv by (simp add: finv_def slots_ok_def)
    then have "slot_rep c' (ys @ [(pos, None)])"
      using h by (intro slot_repI [OF c']) (simp add: ys slots_live_append)
    then show ?thesis using h by simp
  qed (use p in \<open>auto split: if_splits\<close>)
qed

lemma slot_commits:
  assumes rep: "slot_rep c ys" and st: "slot_observed c (Commits pos d) c'"
  shows "pos \<in> fst ` set ys \<and> slot_rep c' (commit_entry pos d ys) \<and> fgot c' = fgot c \<and> f_head (fq c') = f_head (fq c)"
proof -
  from rep obtain xs where inv: "finv c xs" and ys: "ys = slots_live (f_tail (fq c)) xs" unfolding slot_rep_def by blast
  from st obtain p l where q: "slot_step c c'" and p: "fpc c p = PReserved l pos" "fpc c' p = PIdle"
    and d: "d = mem_get (entry_of (fq c) pos + 4) l (f_buf (fq c))" by (auto simp: slot_observed_def)
  from q show ?thesis
  proof (cases rule: slot_step.cases)
    case (f_push p' l' pos' f)
    then have e: "p' = p" "l' = l" "pos' = pos" using p by (auto split: if_splits)
    from finv_push [OF inv p(1), of f] f_push e obtain us vs where
      xs: "xs = us @ Reserved p l # vs" "finv c' (us @ Full d # vs)" "pos = f_tail (fq c) + 256 * length us"
      unfolding d by blast
    have h: "ys = slots_live (f_tail (fq c)) us @ (pos, None) # slots_live (pos + 256) vs"
      by (simp add: ys xs slots_live_append)
    have "pos \<notin> fst ` set (slots_live (f_tail (fq c)) us)" "pos \<notin> fst ` set (slots_live (pos + 256) vs)"
      using slots_live_bounds [of pos "f_tail (fq c)" us] slots_live_bounds [of pos "pos + 256" vs] xs(3) by auto
    then have "commit_entry pos d ys = slots_live (f_tail (fq c)) us @ (pos, Some d) # slots_live (pos + 256) vs"
      unfolding h by (rule commit_middle)
    then have "commit_entry pos d ys = slots_live (f_tail (fq c)) (us @ Full d # vs)" using xs(3) by (simp add: slots_live_append)
    moreover have t: "f_tail (fq c') = f_tail (fq c)" "f_head (fq c') = f_head (fq c)" "fgot c' = fgot c"
      using f_push by (simp_all add: queuePushF_def Let_def)
    ultimately have "slot_rep c' (commit_entry pos d ys)" by (intro slot_repI [OF xs(2)]) simp
    then show ?thesis using t h by simp
  qed (use p in \<open>auto split: if_splits\<close>)
qed

lemma slot_silents:
  assumes rep: "slot_rep c ys" and st: "slot_observed c Silent c'"
  shows "f_head (fq c') = f_head (fq c) \<and> (slot_rep c' ys \<and> fgot c' = fgot c
    \<or> (\<exists>k d zs. ys = (k, Some d) # zs \<and> slot_rep c' zs \<and> fgot c' = fgot c @ [d]))"
proof -
  from rep obtain xs where inv: "finv c xs" and ys: "ys = slots_live (f_tail (fq c)) xs" unfolding slot_rep_def by blast
  have thr: "owners_ok (f_tail (fq c)) (fpc c) xs" using inv by (simp add: finv_def)
  from st have q: "slot_step c c'" and sl: "slot_silent c c'" by (simp_all add: slot_observed_def)
  have same: "f_head (fq c') = f_head (fq c) \<and> (slot_rep c' ys \<and> fgot c' = fgot c
      \<or> (\<exists>k d zs. ys = (k, Some d) # zs \<and> slot_rep c' zs \<and> fgot c' = fgot c @ [d]))"
    if "finv c' xs" "fgot c' = fgot c" "f_head (fq c') = f_head (fq c)" "f_tail (fq c') = f_tail (fq c)"
    using that slot_repI [OF that(1)] ys by simp
  from q show ?thesis
  proof (cases rule: slot_step.cases)
    case (f_load_tail p n)
    have "owners_ok (f_tail (fq c)) ((fpc c)(p := PTail (entry_len_of n) (f_tail (fq c)))) xs"
      using f_load_tail entry_len_fix [of n] by (intro owners_other [OF thr]) auto
    then show ?thesis using finv_frame [OF inv, of _ "fq c"] f_load_tail by (intro same) simp_all
  next
    case (f_load_head p l t)
    have "owners_ok (f_tail (fq c)) ((fpc c)(p := PLoaded l t (f_head (fq c)))) xs"
      using f_load_head owners_lengths(2) [OF thr f_load_head(2)] by (intro owners_other [OF thr]) auto
    then show ?thesis using finv_frame [OF inv, of _ "fq c"] f_load_head by (intro same) simp_all
  next
    case (f_overrun p l t h)
    have "owners_ok (f_tail (fq c)) ((fpc c)(p := PIdle)) xs" using f_overrun by (intro owners_other [OF thr]) auto
    then show ?thesis using finv_frame [OF inv, of _ "count_lostF (fq c)"] f_overrun by (intro same) (simp_all add: count_lostF_def)
  next
    case (f_cas_win p l t h)
    then show ?thesis using sl [unfolded slot_silent_def, rule_format, of p l h] by simp
  next
    case (f_cas_fail p l t h)
    have "owners_ok (f_tail (fq c)) ((fpc c)(p := PHead l (f_head (fq c)))) xs"
      using f_cas_fail owners_lengths(1) [OF thr f_cas_fail(2)] by (intro owners_other [OF thr]) auto
    then show ?thesis using finv_frame [OF inv, of _ "fq c"] f_cas_fail by (intro same) simp_all
  next
    case (f_reload_tail p l h)
    have "owners_ok (f_tail (fq c)) ((fpc c)(p := PLoaded l (f_tail (fq c)) h)) xs"
      using f_reload_tail owners_lengths(3) [OF thr f_reload_tail(2)] by (intro owners_other [OF thr]) auto
    then show ?thesis using finv_frame [OF inv, of _ "fq c"] f_reload_tail by (intro same) simp_all
  next
    case (f_reserve p l pos)
    from finv_reserve [OF inv f_reserve(2)] obtain us vs where
      xs: "xs = us @ Claimed p l # vs" "finv c' (us @ Reserved p l # vs)" using f_reserve(1) by blast
    have "slot_rep c' ys" by (rule slot_repI [OF xs(2)]) (simp add: f_reserve(1) xs ys reserve_slot_def slots_live_append)
    then show ?thesis using f_reserve by (simp add: reserve_slot_def)
  next
    case (f_put p l pos k bs)
    then show ?thesis using finv_put [OF inv, of p l pos k bs] by (intro same) (simp_all add: queue_putF_def)
  next
    case (f_push p l pos f)
    then show ?thesis using sl [unfolded slot_silent_def, rule_format, of p l pos] by simp
  next
    case (f_clear b lost f q')
    from finv_clear [OF inv f_clear(2,3)] obtain d zs where
      xs: "xs = Full d # zs" "mem_get (fst b) (snd b) (f_buf q') = d" "finv c' (Dead (snd b) # zs)"
      using f_clear(1) by blast
    have t: "f_tail (fq c') = f_tail (fq c)" "f_head (fq c') = f_head (fq c)" "fgot c' = fgot c @ [d]"
      using f_clear queuePeekF_same [OF f_clear(3)] xs(2) by (simp_all add: clear_slot_def)
    have "slot_rep c' (slots_live (f_tail (fq c) + 256) zs)" by (rule slot_repI [OF xs(3)]) (simp add: t)
    then show ?thesis using t by (auto simp: ys xs(1))
  next
    case (f_peek i r lost f q')
    then show ?thesis using finv_peek [OF inv f_peek(3)] queuePeekF_same [OF f_peek(3)] by (intro same) simp_all
  next
    case (f_advance n)
    from finv_advance [OF inv f_advance(2)] obtain zs where xs: "xs = Dead n # zs" "finv c' zs" using f_advance(1) by blast
    have "slot_rep c' ys" by (rule slot_repI [OF xs(2)]) (simp add: ys f_advance(1) xs(1) advance_slot_def)
    then show ?thesis by (simp add: f_advance(1) advance_slot_def)
  qed
qed

interpretation slots: fifo_order slot_observed fgot "\<lambda>c. f_head (fq c)" slot_rep
proof unfold_locales
  fix c xs c'
  assume a: "slot_rep c xs" "slot_observed c Silent c'"
  show "f_head (fq c') = f_head (fq c) \<and> (\<exists>ds ys. xs = delivered ds @ ys \<and> slot_rep c' ys \<and> fgot c' = fgot c @ map snd ds)"
    using slot_silents [OF a] delivered_at_most_one [of "slot_rep c'" xs "fgot c'" "fgot c"] by blast
qed (use slot_claims slot_commits in blast)+

text \<open>The initial queue: room for at least one entry, a size that fits 32 bits.\<close>

lemma finv_init:
  assumes "192 \<le> n" "n < 2 ^ 31"
  shows "finv (fixed_init n) []"
proof -
  define s where "s = (n + 64) div 256 * 256"
  have "1 \<le> (n + 64) div 256" using assms(1) by (simp add: less_eq_div_iff_mult_less_eq)
  then have "256 \<le> s" unfolding s_def by simp
  moreover have "s \<le> n + 64" unfolding s_def by (rule div_times_less_eq_dividend)
  then have "s < 2 ^ 32" using assms(2) by simp
  moreover have "f_size (queueInitF n) = s" by (simp add: queueInitF_def queueInitFromMemoryF_def queueClearF_def s_def)
  ultimately show ?thesis
    by (auto simp: finv_def fixed_init_def slots_ok_def owners_ok_def reader_ok_def s_def)
      (auto simp: queueInitF_def queueInitFromMemoryF_def queueClearF_def)
qed

lemma slot_rep_init: "192 \<le> n \<Longrightarrow> n < 2 ^ 31 \<Longrightarrow> slot_rep (fixed_init n) []"
  using finv_init [of n] by (intro slot_repI [of _ "[]"]) simp_all

lemma fgot_init [simp]: "fgot (fixed_init n) = []"
  by (simp add: fixed_init_def)

lemma fixed_in_order:
  assumes "recorded (fixed_init n) slot_observed c h" "192 \<le> n" "n < 2 ^ 31"
  shows "length (fgot c) \<le> length h \<and> map snd (take (length (fgot c)) h) = map Some (fgot c) \<and> distinct (map fst h)"
  by (rule slots.in_order [OF assms(1) slot_rep_init [OF assms(2,3)] fgot_init])

end
