(* ===== verification/Queue64f_Dto.thy ===== *)
theory Queue64f_Dto
  imports Queue64f_Fifo
begin

text \<open>
  One thread with the fixed-size queue: what is acquired, filled and pushed is what the queue holds at its end
  (\<open>dto_queue\<close>), and what the consumer can take when no producer is busy.
\<close>

section \<open>The packets in the queue\<close>

definition committed_at :: "queue64f \<Rightarrow> nat \<Rightarrow> bool" where
  "committed_at q pos \<longleftrightarrow> pos < f_head q \<and> entry_header q (entry_of q pos) div 65536 = ENTRY_COMMITTED"

function fixed_entries :: "queue64f \<Rightarrow> nat \<Rightarrow> u8 list list" where
  "fixed_entries q pos = (if committed_at q pos
     then mem_get (entry_of q pos + 4) (entry_header q (entry_of q pos) mod 65536) (f_buf q) # fixed_entries q (pos + QUEUE_ENTRY_SIZE)
     else [])"
  by pat_completeness auto
termination by (relation "measure (\<lambda>(q, pos). f_head q - pos)") (auto simp: committed_at_def)

declare fixed_entries.simps [simp del]

definition fixed_queued :: "queue64f \<Rightarrow> u8 list list" where
  "fixed_queued q = map (drop QUEUE_ENTRY_USER_HEADER_SIZE) (fixed_entries q (f_tail q))"

lemma fixed_entries_full:
  assumes "slots_ok q (us @ map Full ds)"
  shows "fixed_entries q (f_tail q + 256 * length us) = ds"
  using assms
proof (induction ds arbitrary: us)
  case Nil
  then show ?case by (subst fixed_entries.simps) (simp add: committed_at_def slots_ok_def)
next
  case (Cons d ds)
  let ?p = "f_tail q + 256 * length us"
  have "(?p, Full d) \<in> set (spots (f_tail q) (us @ map Full (d # ds)))" by (simp add: spots_append)
  then have h: "slot_holds q ?p (Full d)" using Cons.prems unfolding slots_ok_def by blast
  then have hd: "entry_header q (entry_of q ?p) = ENTRY_COMMITTED * 65536 + length d" "length d < 65536"
    "mem_get (entry_of q ?p + 4) (length d) (f_buf q) = d" by (simp_all add: slot_holds_def)
  have "?p < f_head q" using Cons.prems by (simp add: slots_ok_def)
  then have "committed_at q ?p" unfolding committed_at_def hd(1) using committed_header(2) [OF hd(2)] by blast
  moreover have "fixed_entries q (?p + 256) = ds" using Cons.IH [of "us @ [Full d]"] Cons.prems by (simp add: add.commute add.left_commute)
  ultimately show ?case by (subst fixed_entries.simps) (simp only: hd(1) committed_header(1) [OF hd(2)] hd(3) if_True)
qed

section \<open>One thread\<close>

definition one_thread :: "queue64f \<Rightarrow> producer \<Rightarrow> fconf" where
  "one_thread q st = \<lparr>fq = q, fpc = (\<lambda>_. PIdle)(0 := st), fcons = CIdle, fgot = []\<rparr>"

lemma one_thread_simps [simp]:
  "(one_thread q st)\<lparr>fpc := (fpc (one_thread q st))(0 := st')\<rparr> = one_thread q st'"
  "(one_thread q st)\<lparr>fpc := (fpc (one_thread q st))(0 := st'), fq := q'\<rparr> = one_thread q' st'"
  "(one_thread q st)\<lparr>fq := q'\<rparr> = one_thread q' st" "fq (one_thread q st) = q" "fpc (one_thread q st) 0 = st"
  by (auto simp: one_thread_def)

definition fixed_ok :: "queue64f \<Rightarrow> bool" where
  "fixed_ok q \<longleftrightarrow> (\<exists>ds. finv (one_thread q PIdle) (map Full ds))"

lemma fixed_okD:
  assumes "finv (one_thread q PIdle) (map Full ds)"
  shows "fixed_ok q" "fixed_queued q = map (drop QUEUE_ENTRY_USER_HEADER_SIZE) ds"
  using assms fixed_entries_full [of q "[]" ds] by (auto simp: fixed_ok_def fixed_queued_def finv_def)

lemma queueInitF_ok: "192 \<le> n \<Longrightarrow> n < 2 ^ 31 \<Longrightarrow> fixed_ok (queueInitF n) \<and> fixed_queued (queueInitF n) = []"
  using finv_init [of n] fixed_okD [of "queueInitF n" "[]"]
  by (simp add: fixed_init_def one_thread_def fun_upd_idem)

lemma queueAcquireF_none:
  assumes "fixed_ok q" "queueAcquireF n q = (None, q')"
  shows "fixed_ok q' \<and> fixed_queued q' = fixed_queued q"
proof -
  from assms(1) obtain ds where i: "finv (one_thread q PIdle) (map Full ds)" by (auto simp: fixed_ok_def)
  have "q' = q \<or> q' = count_lostF q" using assms(2) by (auto simp: queueAcquireF_def Let_def split: if_splits)
  then have "finv (one_thread q' PIdle) (map Full ds)"
  proof
    assume "q' = count_lostF q"
    then show ?thesis using finv_frame [OF i, of "fpc (one_thread q PIdle)" q'] i
      by (simp add: finv_def count_lostF_def one_thread_def)
  qed (use i in simp)
  then show ?thesis using fixed_okD i by metis
qed

lemma last_slot:
  assumes "map Full ds @ [x] = us @ x # vs" "\<forall>d. x \<noteq> Full d"
  shows "us = map Full ds \<and> vs = []"
proof (cases vs rule: rev_cases)
  case (snoc ys y)
  then have "map Full ds = us @ x # ys" using assms(1) by simp
  then have "x \<in> set (map Full ds)" by (metis in_set_conv_decomp)
  then show ?thesis using assms(2) by auto
qed (use assms in simp)

lemma queueAcquireF_some:
  assumes i: "finv (one_thread q PIdle) (map Full ds)" and a: "queueAcquireF n q = (Some b, q')"
  shows "finv (one_thread q' (PReserved (entry_len_of n) (f_head q))) (map Full ds @ [Reserved 0 (entry_len_of n)])"
    "b = (payload_of q' (f_head q), entry_len_of n - QUEUE_ENTRY_USER_HEADER_SIZE)" "0 < n" "n \<le> MAX_DTO_FIX"
proof -
  let ?l = "entry_len_of n" and ?h = "f_head q"
  let ?q1 = "claim_slot ?h q"
  from a show n: "0 < n" "n \<le> MAX_DTO_FIX" by (auto simp: queueAcquireF_def Let_def split: if_splits)
  have l: "4 < ?l" "?l \<le> 252" using entry_len_fix [OF n] by simp_all
  from a n have ov: "\<not> queue_overrun (f_size q) (f_tail q) ?h ?l"
    and q': "q' = reserve_slot ?h ?l ?q1" and b: "b = (entry_of q ?h + 4 + 4, ?l - 4)"
    by (auto simp: queueAcquireF_def Let_def split: if_splits)
  have t: "owners_ok (f_tail q) (fpc (one_thread q PIdle)) (map Full ds)" using i by (simp add: finv_def)
  have "owners_ok (f_tail q) ((fpc (one_thread q PIdle))(0 := PLoaded ?l (f_tail q) ?h)) (map Full ds)"
    by (rule owners_other [OF t]) (use l in auto)
  from finv_frame [OF i, of _ q, unfolded one_thread_simps, OF this]
  have "finv (one_thread q (PLoaded ?l (f_tail q) ?h)) (map Full ds)" by simp
  from finv_claim [OF this, of 0 ?l "f_tail q"] ov
  have i1: "finv (one_thread ?q1 (PClaimed ?l ?h)) (map Full ds @ [Claimed 0 ?l])" by simp
  from finv_reserve [OF this, of 0 ?l ?h] obtain us vs where
    s: "map Full ds @ [Claimed 0 ?l] = us @ Claimed 0 ?l # vs"
    and i2: "finv (one_thread q' (PReserved ?l ?h)) (us @ Reserved 0 ?l # vs)" by (auto simp: q')
  from last_slot [OF s] show "finv (one_thread q' (PReserved ?l ?h)) (map Full ds @ [Reserved 0 ?l])"
    using i2 by simp
  show "b = (payload_of q' ?h, ?l - QUEUE_ENTRY_USER_HEADER_SIZE)"
    by (simp add: b q' payload_of_def entry_of_def reserve_slot_def claim_slot_def)
qed

lemma queue_sendF:
  assumes ok: "fixed_ok q" and a: "queueAcquireF n q = (Some b, q1)" and p: "length p = n"
  shows "fixed_ok (queuePushF b f (queue_putF b p q1)) \<and>
    (\<exists>m. padded p m \<and> fixed_queued (queuePushF b f (queue_putF b p q1)) = fixed_queued q @ [m])"
proof -
  from ok obtain ds where i: "finv (one_thread q PIdle) (map Full ds)" by (auto simp: fixed_ok_def)
  let ?l = "entry_len_of n" and ?h = "f_head q"
  let ?q2 = "queue_putF b p q1"
  note acq = queueAcquireF_some [OF i a]
  have l: "n + 4 \<le> ?l" "?l < n + 8" using entry_len_bounds [of n] acq(3,4) by simp_all
  have b2: "queue_putF (payload_of q1 ?h + 0, 0) p q1 = ?q2" by (simp add: queue_putF_def acq(2))
  have i2: "finv (one_thread ?q2 (PReserved ?l ?h)) (map Full ds @ [Reserved 0 ?l])"
    using finv_put [OF acq(1), of 0 ?l ?h 0 p] l p b2 by simp
  have po: "payload_of ?q2 ?h = payload_of q1 ?h" "entry_of ?q2 ?h = entry_of q1 ?h"
    by (simp_all add: payload_of_def entry_of_def queue_putF_def)
  have pb: "queuePushF (payload_of q1 ?h, ?l - 4) f ?q2 = queuePushF b f ?q2" by (simp add: acq(2))
  from finv_push [OF i2, of 0 ?l ?h f] obtain us vs d where
    s: "map Full ds @ [Reserved 0 ?l] = us @ Reserved 0 ?l # vs"
    and i3: "finv (one_thread (queuePushF b f ?q2) PIdle) (us @ Full d # vs)"
    and d: "d = mem_get (entry_of q1 ?h + 4) ?l (f_buf ?q2)" by (auto simp: po pb)
  from last_slot [OF s] have "us = map Full ds \<and> vs = []" by simp
  with i3 have i4: "finv (one_thread (queuePushF b f ?q2) PIdle) (map Full (ds @ [d]))" by simp
  define k where "k = ?l - 4 - n"
  have lk: "?l = 4 + (n + k)" "k < 4" using l by (simp_all add: k_def)
  have "mem_get (entry_of q1 ?h + 4 + 4) n (f_buf ?q2) = p"
    using mem_get_set_same [of "entry_of q1 ?h + 4 + 4" p "f_buf q1"] p
    by (simp add: queue_putF_def acq(2) payload_of_def add.assoc)
  then have "drop 4 d = p @ mem_get (entry_of q1 ?h + 4 + 4 + n) k (f_buf ?q2)"
    unfolding d lk(1) mem_get_split by simp
  then have "padded p (drop 4 d)" using lk(2) by (auto simp: padded_def)
  then show ?thesis using fixed_okD [OF i4] fixed_okD(2) [OF i] by auto
qed

interpretation qf: dto_queue queueAcquireF queue_putF queuePushF fixed_ok fixed_queued
  by unfold_locales (use queueAcquireF_none queue_sendF in blast)+

section \<open>Nothing gets stuck\<close>

lemma fixed_slots_idle:
  assumes "finv c xs" "\<forall>p. fpc c p = PIdle" "fcons c = CIdle" "x \<in> set xs"
  shows "\<exists>d. x = Full d"
proof -
  from assms(4) obtain us vs where xs: "xs = us @ x # vs" by (meson split_list)
  have "(f_tail (fq c) + 256 * length us, x) \<in> set (spots (f_tail (fq c)) xs)" by (simp add: xs spots_append)
  then show ?thesis using assms by (cases x) (auto simp: finv_def owners_ok_def reader_ok_def)
qed

lemma fixed_consumer_delivers:
  assumes h: "recorded (fixed_init n) slot_observed c h" "192 \<le> n" "n < 2 ^ 31" and idle: "\<forall>p. fpc c p = PIdle" "fcons c = CIdle"
    and more: "length (fgot c) < length h"
  shows "\<exists>b lost f q c' d. queuePeekF 0 (fq c) = (Some b, lost, f, q) \<and> slot_step\<^sup>*\<^sup>* c c' \<and> fq c' = queueReleaseF b q
    \<and> fgot c' = fgot c @ [d] \<and> snd (h ! length (fgot c)) = Some d"
proof -
  from slots.pending [OF h(1) slot_rep_init [OF h(2,3)] fgot_init more] obtain k x ys xs where
    inv: "finv c xs" and y: "(k, x) # ys = slots_live (f_tail (fq c)) xs" and hk: "h ! length (fgot c) = (k, x)"
    unfolding slot_rep_def by blast
  from y obtain s zs where xs: "xs = s # zs" by (cases xs) auto
  then obtain d where s: "s = Full d" using fixed_slots_idle [OF inv idle, of s] by auto
  have x: "x = Some d" using y by (simp add: xs s)
  have ok: "slots_ok (fq c) xs" using inv by (simp add: finv_def)
  have hold: "slot_holds (fq c) (f_tail (fq c)) (Full d)" using ok by (simp add: slots_ok_def xs s)
  let ?e = "entry_of (fq c) (f_tail (fq c))" and ?q = "(fq c)\<lparr>f_lost := 0\<rparr>"
  have hd: "entry_header (fq c) ?e = ENTRY_COMMITTED * 65536 + length d" "length d < 65536" "0 < length d" "length d \<le> 252"
    "mem_get (?e + 4) (length d) (f_buf (fq c)) = d" using hold by (auto simp: slot_holds_def)
  have lt: "f_tail (fq c) < f_head (fq c)" using ok by (simp add: slots_ok_def xs)
  have e: "entry_of ?q = entry_of (fq c)" by (intro ext) (simp add: entry_of_def)
  define b where "b = (?e + 4, length d)"
  have pk: "queuePeekF 0 (fq c) = (Some b, f_lost (fq c), f_flush (fq c) = ?e, ?q)"
    unfolding queuePeekF_def Let_def e b_def
    using lt hd(3,4) committed_header [OF hd(2)] by (simp add: hd(1) e)
  define m where "m = c\<lparr>fcons := CCleared (snd b), fgot := fgot c @ [mem_get (fst b) (snd b) (f_buf ?q)], fq := clear_slot b ?q\<rparr>"
  have 1: "slot_step c m" unfolding m_def by (rule slot_step.f_clear [OF idle(2) pk])
  have 2: "slot_step m (m\<lparr>fcons := CIdle, fq := advance_slot (fq m)\<rparr>)" by (rule slot_step.f_advance) (simp add: m_def)
  have "slot_step\<^sup>*\<^sup>* c (m\<lparr>fcons := CIdle, fq := advance_slot (fq m)\<rparr>)"
    using 1 2 by (meson r_into_rtranclp rtranclp.rtrancl_into_rtrancl)
  then show ?thesis using pk hd(5) hk x
    by (intro exI [of _ b] exI [of _ "f_lost (fq c)"] exI [of _ "f_flush (fq c) = ?e"] exI [of _ ?q]
        exI [of _ "m\<lparr>fcons := CIdle, fq := advance_slot (fq m)\<rparr>"] exI [of _ d])
      (simp add: m_def queueReleaseF_def b_def)
qed

end
