(* ===== verification/Queue32.thy ===== *)
theory Queue32
  imports Queue64v
begin

text \<open>
  The mutex based transmit queue \<^verbatim>\<open>src/src/queue32.c\<close>: a ring of segments (UDP payloads) in
  which messages are accumulated. A message has a 16 bit length and a 16 bit counter in front of its
  packet; the counter marks the message as reserved or committed until the consumer numbers it. Every
  operation holds the mutex, so it is one step. A segment is addressed by its index in the array.
\<close>

section \<open>State\<close>

abbreviation (input) SIZEOF_SEGMENT :: nat where "SIZEOF_SEGMENT \<equiv> 1480"
abbreviation (input) MSG_RESERVED :: nat where "MSG_RESERVED \<equiv> 0xEEEE"
abbreviation (input) MSG_COMMITTED :: nat where "MSG_COMMITTED \<equiv> 0xCCCC"

record segment =
  uncommitted :: nat
  seg_size :: nat
  msg_buffer :: bytes

record queue32 =
  queue_buffer_size :: nat
  queue_size :: nat
  queue :: "nat \<Rightarrow> segment"
  queue_rp :: nat
  queue_len :: nat
  msg_ptr :: "nat option"
  packets_lost32 :: nat

definition seg_index :: "queue32 \<Rightarrow> nat \<Rightarrow> nat" where
  "seg_index q k = (let i = queue_rp q + k in if queue_size q \<le> i then i - queue_size q else i)"

definition upd_segment :: "nat \<Rightarrow> (segment \<Rightarrow> segment) \<Rightarrow> queue32 \<Rightarrow> queue32" where
  "upd_segment i f q = q\<lparr>queue := (queue q)(i := f (queue q i))\<rparr>"

definition newSegmentBuffer :: "queue32 \<Rightarrow> queue32" where
  "newSegmentBuffer q = (if queue_size q \<le> queue_len q then q\<lparr>msg_ptr := None\<rparr>
     else let i = seg_index q (queue_len q) in
       (upd_segment i (\<lambda>b. b\<lparr>seg_size := 0, uncommitted := 0\<rparr>) q)
         \<lparr>msg_ptr := Some i, queue_len := queue_len q + 1\<rparr>)"

definition clearQueue32 :: "queue32 \<Rightarrow> queue32" where
  "clearQueue32 q = q\<lparr>queue_rp := 0, queue_len := 0, msg_ptr := None\<rparr>"

definition queueInit32 :: "nat \<Rightarrow> queue32" where
  "queueInit32 buffer_bytes =
     (let entries = buffer_bytes div SIZEOF_SEGMENT + 1;
          bs = align_up CACHE_LINE_SIZE (entries * SIZEOF_SEGMENT)
      in newSegmentBuffer \<lparr>queue_buffer_size = bs, queue_size = bs div SIZEOF_SEGMENT,
           queue = (\<lambda>_. \<lparr>uncommitted = 0, seg_size = 0, msg_buffer = (\<lambda>_. 0)\<rparr>),
           queue_rp = 0, queue_len = 0, msg_ptr = None, packets_lost32 = 0\<rparr>)"

section \<open>Producer\<close>

text \<open>A buffer is the segment, the offset of the packet in it, and the size.\<close>

definition msg_room :: "queue32 \<Rightarrow> nat \<Rightarrow> bool" where
  "msg_room q msg_size \<longleftrightarrow> (case msg_ptr q of None \<Rightarrow> False
     | Some i \<Rightarrow> (seg_size (queue q i) + msg_size) mod 65536 \<le> XCPTL_MAX_SEGMENT_SIZE)"

definition queueAcquire32 :: "nat \<Rightarrow> queue32 \<Rightarrow> (nat \<times> nat \<times> nat) option \<times> queue32" where
  "queueAcquire32 packet_size0 q =
     (if \<not> (0 < packet_size0 \<and> packet_size0 \<le> XCPTL_MAX_DTO_SIZE) then (None, q)
      else let packet_size = align_up 4 packet_size0; msg_size = packet_size + 4;
               q1 = (if msg_room q msg_size then q else newSegmentBuffer q)
        in (case msg_ptr q1 of
              None \<Rightarrow> (None, q1\<lparr>packets_lost32 := (packets_lost32 q1 + 1) mod 2 ^ 32\<rparr>)
            | Some i \<Rightarrow> let off = seg_size (queue q1 i) in
                (Some (i, off + 4, packet_size),
                 upd_segment i (\<lambda>b. b\<lparr>msg_buffer := wr16 (wr16 (msg_buffer b) (off + 2) MSG_RESERVED) off packet_size,
                    seg_size := (off + msg_size) mod 65536, uncommitted := (uncommitted b + 1) mod 65536\<rparr>) q1)))"

definition queue_put32 :: "nat \<times> nat \<times> nat \<Rightarrow> u8 list \<Rightarrow> queue32 \<Rightarrow> queue32" where
  "queue_put32 b xs q = (case b of (i, off, sz) \<Rightarrow>
     upd_segment i (\<lambda>g. g\<lparr>msg_buffer := mem_set off xs (msg_buffer g)\<rparr>) q)"

definition queuePush32 :: "nat \<times> nat \<times> nat \<Rightarrow> bool \<Rightarrow> queue32 \<Rightarrow> queue32" where
  "queuePush32 b flush q = (case b of (i, off, sz) \<Rightarrow>
     (let q1 = upd_segment i (\<lambda>g. g\<lparr>uncommitted := (uncommitted g + 65535) mod 65536,
            msg_buffer := wr16 (msg_buffer g) (off - 4 + 2) MSG_COMMITTED\<rparr>) q
      in if flush \<and> (case msg_ptr q1 of None \<Rightarrow> False | Some k \<Rightarrow> 0 < seg_size (queue q1 k))
         then newSegmentBuffer q1 else q1))"

section \<open>Consumer\<close>

definition queueLevel32 :: "queue32 \<Rightarrow> nat" where
  "queueLevel32 q = (if 1 < queue_len q \<or> (queue_len q = 1 \<and>
     (case msg_ptr q of None \<Rightarrow> False | Some i \<Rightarrow> 0 < seg_size (queue q i))) then queue_len q else 0)"

text \<open>Numbering the messages of a segment; \<open>ctr\<close> is the transport layer counter that
  \<^verbatim>\<open>XcpTlGetCtr\<close> hands out.\<close>

function number_messages :: "nat \<Rightarrow> nat \<Rightarrow> nat \<Rightarrow> bytes \<Rightarrow> bytes \<times> nat" where
  "number_messages p sz ctr m = (if p + 4 < sz
     then number_messages (p + (rd16 m p + 4)) sz ((ctr + 1) mod 65536) (wr16 m (p + 2) ctr)
     else (m, ctr))"
  by pat_completeness auto
termination by (relation "measure (\<lambda>(p, sz, _, _). sz - p)") auto

declare number_messages.simps [simp del]

definition queuePop32 :: "bool \<Rightarrow> nat \<Rightarrow> queue32 \<Rightarrow> (nat \<times> nat) option \<times> nat \<times> nat \<times> queue32" where
  "queuePop32 flush ctr q =
     (let lost = packets_lost32 q; q0 = q\<lparr>packets_lost32 := 0\<rparr>; i = queue_rp q in
      if queue_len q0 = 0 then (None, lost, ctr, q0)
      else let q1 = (if queue_len q0 = 1 \<and> 0 < seg_size (queue q0 i) \<and> flush then newSegmentBuffer q0 else q0)
        in if 1 < queue_len q1 \<and> uncommitted (queue q1 i) = 0 \<and> 0 < seg_size (queue q1 i)
           then (let (m, ctr') = number_messages 0 (seg_size (queue q1 i)) ctr (msg_buffer (queue q1 i))
                 in (Some (i, seg_size (queue q1 i)), lost, ctr', upd_segment i (\<lambda>b. b\<lparr>msg_buffer := m\<rparr>) q1))
           else (None, lost, ctr, q1))"

definition queueRelease32 :: "queue32 \<Rightarrow> queue32" where
  "queueRelease32 q = q\<lparr>queue_rp := (if queue_size q \<le> queue_rp q + 1 then 0 else queue_rp q + 1),
     queue_len := queue_len q - 1\<rparr>"

section \<open>The messages of a segment\<close>

function messages :: "bytes \<Rightarrow> nat \<Rightarrow> nat \<Rightarrow> u8 list list option" where
  "messages m p sz = (if p = sz then Some []
     else if p + 4 < sz then map_option (Cons (mem_get (p + 4) (rd16 m p) m)) (messages m (p + (rd16 m p + 4)) sz)
     else None)"
  by pat_completeness auto
termination by (relation "measure (\<lambda>(m, p, sz). sz - p)") auto

declare messages.simps [simp del]

lemma messages_cong:
  assumes "\<And>a. p \<le> a \<Longrightarrow> a < sz \<Longrightarrow> m' a = m a" "messages m p sz = Some ms"
  shows "messages m' p sz = Some ms"
  using assms
proof (induction m p sz arbitrary: ms rule: messages.induct)
  case (1 m p sz)
  show ?case
  proof (cases "p = sz")
    case False
    then have lt: "p + 4 < sz" using "1.prems"(2) by (subst (asm) messages.simps) (auto split: if_splits)
    from False lt "1.prems"(2) obtain ns where ns: "messages m (p + (rd16 m p + 4)) sz = Some ns"
      "ms = mem_get (p + 4) (rd16 m p) m # ns" by (subst (asm) messages.simps) auto
    have "p + (rd16 m p + 4) \<le> sz"
      using ns(1) by (subst (asm) messages.simps) (auto split: if_splits)
    moreover have "rd16 m' p = rd16 m p" using "1.prems"(1) lt by (simp add: rd16_def)
    moreover from calculation have "mem_get (p + 4) (rd16 m p) m' = mem_get (p + 4) (rd16 m p) m"
      by (intro mem_get_cong) (use "1.prems"(1) in simp)
    moreover have "messages m' (p + (rd16 m p + 4)) sz = Some ns"
      using "1.IH" [OF False lt _ ns(1)] "1.prems"(1) by simp
    ultimately show ?thesis using False lt ns by (subst messages.simps) simp
  qed (use "1.prems" in \<open>simp add: messages.simps\<close>)
qed

lemma messages_snoc:
  assumes "messages m p sz = Some ms" "0 < rd16 m sz"
  shows "messages m p (sz + (rd16 m sz + 4)) = Some (ms @ [mem_get (sz + 4) (rd16 m sz) m])"
  using assms
proof (induction m p sz arbitrary: ms rule: messages.induct)
  case (1 m p sz)
  show ?case
  proof (cases "p = sz")
    case True
    then have "ms = []" using "1.prems" by (simp add: messages.simps)
    then show ?thesis using True "1.prems"(2)
      by (subst messages.simps) (simp add: messages.simps [of m "sz + (rd16 m sz + 4)"])
  next
    case False
    then have lt: "p + 4 < sz" using "1.prems"(1) by (subst (asm) messages.simps) (auto split: if_splits)
    from False lt "1.prems"(1) obtain ns where ns: "messages m (p + (rd16 m p + 4)) sz = Some ns"
      "ms = mem_get (p + 4) (rd16 m p) m # ns" by (subst (asm) messages.simps) auto
    from "1.IH" [OF False lt ns(1) "1.prems"(2)] lt ns show ?thesis
      by (subst messages.simps) simp
  qed
qed

end
