(* ===== verification/Queue32_Dto.thy ===== *)
theory Queue32_Dto
  imports Queue32 Xcp_Daq_Trigger
begin

text \<open>
  The segment queue keeps the contract \<open>dto_queue\<close> as well: the messages of its segments, oldest segment
  first, are the packets that were sent, each padded to a multiple of four bytes.
\<close>

section \<open>Invariant\<close>

definition segment_ok :: "segment \<Rightarrow> bool" where
  "segment_ok g \<longleftrightarrow> seg_size g \<le> XCPTL_MAX_SEGMENT_SIZE \<and> uncommitted g = 0
     \<and> messages (msg_buffer g) 0 (seg_size g) \<noteq> None"

definition seg_messages :: "segment \<Rightarrow> u8 list list" where
  "seg_messages g = the (messages (msg_buffer g) 0 (seg_size g))"

definition queue32_ok :: "queue32 \<Rightarrow> bool" where
  "queue32_ok q \<longleftrightarrow> queue_rp q < queue_size q \<and> queue_len q \<le> queue_size q
     \<and> (\<forall>i. msg_ptr q = Some i \<longrightarrow> 0 < queue_len q \<and> i = seg_index q (queue_len q - 1))
     \<and> (\<forall>k < queue_len q. segment_ok (queue q (seg_index q k)))"

definition queued32 :: "queue32 \<Rightarrow> u8 list list" where
  "queued32 q = concat (map (\<lambda>k. seg_messages (queue q (seg_index q k))) [0..<queue_len q])"

lemma seg_index_inj:
  assumes "queue_rp q < queue_size q" "j < queue_size q" "k < queue_size q" "seg_index q j = seg_index q k"
  shows "j = k"
  using assms by (auto simp: seg_index_def Let_def split: if_splits)

lemma seg_index_less:
  "queue_rp q < queue_size q \<Longrightarrow> k < queue_size q \<Longrightarrow> seg_index q k < queue_size q"
  by (auto simp: seg_index_def Let_def)

lemma upd_segment_frame [simp]:
  "queue_size (upd_segment i f q) = queue_size q" "queue_rp (upd_segment i f q) = queue_rp q"
  "queue_len (upd_segment i f q) = queue_len q" "msg_ptr (upd_segment i f q) = msg_ptr q"
  "seg_index (upd_segment i f q) k = seg_index q k"
  "queue (upd_segment i f q) j = (if j = i then f (queue q i) else queue q j)"
  by (simp_all add: upd_segment_def seg_index_def Let_def)

lemma upd_segment_twice: "upd_segment i f (upd_segment i g q) = upd_segment i (\<lambda>b. f (g b)) q"
  by (simp add: upd_segment_def)

lemma upd_segment_const: "f (queue q i) = g \<Longrightarrow> upd_segment i f q = upd_segment i (\<lambda>_. g) q"
  by (simp add: upd_segment_def)

lemma queued32_cong:
  assumes "queue_len t = queue_len q"
    and "\<And>k. k < queue_len q \<Longrightarrow> queue t (seg_index t k) = queue q (seg_index q k)"
  shows "queued32 t = queued32 q"
proof -
  have eq: "map (\<lambda>k. seg_messages (queue t (seg_index t k))) [0..<queue_len q]
      = map (\<lambda>k. seg_messages (queue q (seg_index q k))) [0..<queue_len q]"
    using assms(2) by (intro map_cong) auto
  show ?thesis unfolding queued32_def assms(1) eq ..
qed

lemma newSegment_ok:
  assumes ok: "queue32_ok q"
  shows "queue32_ok (newSegmentBuffer q)" "queued32 (newSegmentBuffer q) = queued32 q"
    "msg_ptr (newSegmentBuffer q) = Some i \<Longrightarrow> seg_size (queue (newSegmentBuffer q) i) = 0"
proof -
  let ?t = "newSegmentBuffer q" and ?i = "seg_index q (queue_len q)"
  have all: "queue32_ok ?t \<and> queued32 ?t = queued32 q \<and> (\<forall>i. msg_ptr ?t = Some i \<longrightarrow> seg_size (queue ?t i) = 0)"
  proof (cases "queue_size q \<le> queue_len q")
    case True
    then have t: "?t = q\<lparr>msg_ptr := None\<rparr>" by (simp add: newSegmentBuffer_def)
    have "seg_index (q\<lparr>msg_ptr := None\<rparr>) k = seg_index q k" for k by (simp add: seg_index_def Let_def)
    then show ?thesis using ok by (simp add: t queue32_ok_def queued32_def)
  next
    case False
    let ?u = "upd_segment ?i (\<lambda>b. b\<lparr>seg_size := 0, uncommitted := 0\<rparr>) q"
    have t: "?t = ?u\<lparr>msg_ptr := Some ?i, queue_len := queue_len q + 1\<rparr>"
      using False by (simp add: newSegmentBuffer_def Let_def)
    have ix: "seg_index ?t k = seg_index q k" for k by (simp add: t seg_index_def Let_def)
    have old: "queue ?t (seg_index q k) = queue q (seg_index q k)" if "k < queue_len q" for k
    proof -
      have "seg_index q k \<noteq> ?i" using seg_index_inj [of q k "queue_len q"] ok that False
        by (auto simp: queue32_ok_def)
      then show ?thesis by (simp add: t)
    qed
    have new: "seg_size (queue ?t ?i) = 0" "uncommitted (queue ?t ?i) = 0" by (simp_all add: t)
    then have "messages (msg_buffer (queue ?t ?i)) 0 (seg_size (queue ?t ?i)) = Some []"
      by (subst messages.simps) simp
    with new have m: "segment_ok (queue ?t ?i)" "seg_messages (queue ?t ?i) = []"
      by (simp_all add: segment_ok_def seg_messages_def)
    have len: "queue_len ?t = queue_len q + 1" "msg_ptr ?t = Some ?i" "queue_size ?t = queue_size q"
      "queue_rp ?t = queue_rp q" by (simp_all add: t)
    have "queue32_ok ?t"
      using ok False m(1) old unfolding queue32_ok_def ix len by (auto simp: less_Suc_eq)
    moreover have "queued32 ?t = queued32 q"
    proof -
      have eq: "map (\<lambda>k. seg_messages (queue ?t (seg_index q k))) [0..<queue_len q]
          = map (\<lambda>k. seg_messages (queue q (seg_index q k))) [0..<queue_len q]"
        using old by (intro map_cong) auto
      show ?thesis
        unfolding queued32_def ix len Suc_eq_plus1 [symmetric] upt_Suc_append [OF le0] map_append concat_append eq
        using m(2) by simp
    qed
    ultimately show ?thesis using new(1) len(2) by simp
  qed
  then show "queue32_ok ?t" "queued32 ?t = queued32 q"
    "msg_ptr ?t = Some i \<Longrightarrow> seg_size (queue ?t i) = 0" by blast+
qed

lemma align4: "n \<le> align_up 4 n" "align_up 4 n < n + 4" "4 dvd align_up 4 n"
  using align_up_ge [of 4 n] align_up_less [of 4 n] by simp_all

section \<open>Sending one packet\<close>

text \<open>Filling the last segment with one message: the three stores leave the older messages alone.\<close>

lemma message_stored:
  assumes m: "messages m 0 sz = Some ms" and p: "length p = n" "0 < n" "n \<le> XCPTL_MAX_DTO_SIZE"
  defines "m' \<equiv> wr16 (mem_set (sz + 4) p (wr16 (wr16 m (sz + 2) MSG_RESERVED) sz (align_up 4 n))) (sz + 2) MSG_COMMITTED"
  shows "\<exists>x. padded p x \<and> messages m' 0 (sz + (align_up 4 n + 4)) = Some (ms @ [x])"
proof -
  note al = align4 [of n]
  have below: "m' a = m a" if "a < sz" for a
    using that by (simp add: m'_def wr16_at_other mem_set_outside)
  have "messages m' 0 sz = Some ms" by (rule messages_cong [OF _ m]) (use below in simp)
  moreover have dlc: "rd16 m' sz = align_up 4 n"
  proof -
    have "m' sz = wr16 (wr16 m (sz + 2) MSG_RESERVED) sz (align_up 4 n) sz"
      "m' (sz + 1) = wr16 (wr16 m (sz + 2) MSG_RESERVED) sz (align_up 4 n) (sz + 1)"
      by (simp_all add: m'_def wr16_at_other mem_set_outside)
    then have "rd16 m' sz = rd16 (wr16 (wr16 m (sz + 2) MSG_RESERVED) sz (align_up 4 n)) sz"
      by (simp add: rd16_def)
    then show ?thesis using al p by (simp add: rd16_wr16_same)
  qed
  ultimately have "messages m' 0 (sz + (align_up 4 n + 4)) = Some (ms @ [mem_get (sz + 4) (align_up 4 n) m'])"
    using messages_snoc [of m' 0 sz ms] al p by simp
  moreover have "padded p (mem_get (sz + 4) (align_up 4 n) m')"
  proof -
    define k where "k = align_up 4 n - n"
    have k: "align_up 4 n = n + k" "k < 4" using al by (simp_all add: k_def)
    have "mem_get (sz + 4) n m' = mem_get (sz + 4) n
        (mem_set (sz + 4) p (wr16 (wr16 m (sz + 2) MSG_RESERVED) sz (align_up 4 n)))"
      by (rule mem_get_cong) (simp add: m'_def wr16_at_other)
    also have "\<dots> = p" using mem_get_set_same p(1) by metis
    finally show ?thesis using k unfolding padded_def k(1) mem_get_split by auto
  qed
  ultimately show ?thesis by blast
qed

lemma queue_send32_last:
  assumes ok: "queue32_ok q" and i: "msg_ptr q = Some i"
    and g: "segment_ok g" "seg_messages g = seg_messages (queue q i) @ [x]"
  shows "queue32_ok (upd_segment i (\<lambda>_. g) q)" "queued32 (upd_segment i (\<lambda>_. g) q) = queued32 q @ [x]"
proof -
  let ?t = "upd_segment i (\<lambda>_. g) q"
  have len: "0 < queue_len q" and ii: "i = seg_index q (queue_len q - 1)" using ok i by (simp_all add: queue32_ok_def)
  show "queue32_ok ?t" using ok g(1) by (auto simp: queue32_ok_def)
  obtain n where n: "queue_len q = Suc n" using len by (cases "queue_len q") auto
  have old: "queue ?t (seg_index q k) = queue q (seg_index q k)" if "k < n" for k
  proof -
    have "seg_index q k \<noteq> i" using seg_index_inj [of q k n] ok that n ii by (auto simp: queue32_ok_def)
    then show ?thesis by simp
  qed
  have eq: "map (\<lambda>k. seg_messages (queue ?t (seg_index q k))) [0..<n]
      = map (\<lambda>k. seg_messages (queue q (seg_index q k))) [0..<n]"
    using old by (intro map_cong) auto
  show "queued32 ?t = queued32 q @ [x]"
    unfolding queued32_def upd_segment_frame(3,5) n upt_Suc_append [OF le0] map_append concat_append eq
    using g(2) n ii by simp
qed

lemma acquire_ready:
  assumes ok: "queue32_ok q" and n: "0 < n" "n \<le> XCPTL_MAX_DTO_SIZE"
  defines "q1 \<equiv> (if msg_room q (align_up 4 n + 4) then q else newSegmentBuffer q)"
  shows "queue32_ok q1" "queued32 q1 = queued32 q"
    "msg_ptr q1 = Some i \<Longrightarrow> seg_size (queue q1 i) + (align_up 4 n + 4) \<le> XCPTL_MAX_SEGMENT_SIZE"
proof -
  show ok1: "queue32_ok q1" "queued32 q1 = queued32 q" using ok newSegment_ok by (simp_all add: q1_def)
  assume i: "msg_ptr q1 = Some i"
  have al: "align_up 4 n + 4 \<le> 1032" using align4 [of n] n by linarith
  show "seg_size (queue q1 i) + (align_up 4 n + 4) \<le> XCPTL_MAX_SEGMENT_SIZE"
  proof (cases "msg_room q (align_up 4 n + 4)")
    case True
    then have i': "msg_ptr q = Some i" using i by (simp add: q1_def)
    then have "segment_ok (queue q i)" using ok by (auto simp: queue32_ok_def)
    then show ?thesis using True i' al by (simp add: q1_def msg_room_def segment_ok_def)
  next
    case False
    then show ?thesis using i newSegment_ok(3) [OF ok] al by (simp add: q1_def)
  qed
qed

lemma queueAcquire32_none:
  assumes ok: "queue32_ok q" and a: "queueAcquire32 n q = (None, q')"
  shows "queue32_ok q' \<and> queued32 q' = queued32 q"
proof (cases "0 < n \<and> n \<le> XCPTL_MAX_DTO_SIZE")
  case True
  let ?q1 = "if msg_room q (align_up 4 n + 4) then q else newSegmentBuffer q"
  have q': "q' = ?q1\<lparr>packets_lost32 := (packets_lost32 ?q1 + 1) mod 2 ^ 32\<rparr>"
    using True a by (auto simp: queueAcquire32_def Let_def split: option.splits)
  have "seg_index q' k = seg_index ?q1 k" for k by (simp add: q' seg_index_def Let_def)
  then show ?thesis using acquire_ready(1,2) [OF ok, of n] True
    by (simp add: q' queue32_ok_def queued32_def)
next
  case False
  then show ?thesis using ok a by (auto simp: queueAcquire32_def)
qed

lemma queue_send32:
  assumes ok: "queue32_ok q" and n: "0 < n" "n \<le> XCPTL_MAX_DTO_SIZE"
    and a: "queueAcquire32 n q = (Some b, q')" and p: "length p = n"
  shows "queue32_ok (queuePush32 b f (queue_put32 b p q')) \<and>
    (\<exists>m. padded p m \<and> queued32 (queuePush32 b f (queue_put32 b p q')) = queued32 q @ [m])"
proof -
  let ?q1 = "if msg_room q (align_up 4 n + 4) then q else newSegmentBuffer q"
  note r = acquire_ready [OF ok n]
  from n a obtain i where i: "msg_ptr ?q1 = Some i"
    by (auto simp: queueAcquire32_def Let_def split: option.splits)
  let ?g = "queue ?q1 i"
  let ?off = "seg_size ?g"
  define m' where "m' = wr16 (mem_set (?off + 4) p (wr16 (wr16 (msg_buffer ?g) (?off + 2) MSG_RESERVED) ?off
    (align_up 4 n))) (?off + 2) MSG_COMMITTED"
  define g' where "g' = \<lparr>uncommitted = 0, seg_size = ?off + (align_up 4 n + 4), msg_buffer = m'\<rparr>"
  have room: "?off + (align_up 4 n + 4) \<le> XCPTL_MAX_SEGMENT_SIZE" using r(3) [OF i] .
  have gok: "segment_ok ?g" using r(1) i by (auto simp: queue32_ok_def)
  then obtain ms where ms: "messages (msg_buffer ?g) 0 ?off = Some ms" by (auto simp: segment_ok_def)
  from message_stored [OF ms p n] obtain x where
    x: "padded p x" "messages m' 0 (?off + (align_up 4 n + 4)) = Some (ms @ [x])" by (auto simp: m'_def)
  have b: "b = (i, ?off + 4, align_up 4 n)" using n a i by (auto simp: queueAcquire32_def Let_def)
  have q': "q' = upd_segment i (\<lambda>b. b\<lparr>msg_buffer := wr16 (wr16 (msg_buffer b) (?off + 2) MSG_RESERVED) ?off (align_up 4 n),
      seg_size := (?off + (align_up 4 n + 4)) mod 65536, uncommitted := (uncommitted b + 1) mod 65536\<rparr>) ?q1"
    using n a i by (auto simp: queueAcquire32_def Let_def)
  let ?t = "upd_segment i (\<lambda>_. g') ?q1"
  have unc: "uncommitted ?g = 0" using gok by (simp add: segment_ok_def)
  have upd: "upd_segment i (\<lambda>g. g\<lparr>uncommitted := (uncommitted g + 65535) mod 65536,
        msg_buffer := wr16 (msg_buffer g) (?off + 4 - 4 + 2) MSG_COMMITTED\<rparr>) (queue_put32 b p q') = ?t"
    unfolding queue_put32_def b q' prod.case upd_segment_twice
    by (rule upd_segment_const) (use room unc in \<open>simp add: g'_def m'_def\<close>)
  have push: "queuePush32 b f (queue_put32 b p q') = (if f \<and> 0 < seg_size g' then newSegmentBuffer ?t else ?t)"
    unfolding queuePush32_def Let_def
    by (subst b, simp only: prod.case upd) (use i in simp)
  have "segment_ok g'" using room x by (simp add: segment_ok_def g'_def)
  moreover have "seg_messages g' = seg_messages ?g @ [x]" using x ms by (simp add: seg_messages_def g'_def)
  ultimately have "queue32_ok ?t" "queued32 ?t = queued32 q @ [x]"
    using queue_send32_last [OF r(1) i] r(2) by simp_all
  then show ?thesis using x(1) newSegment_ok(1,2) unfolding push by auto
qed

interpretation q32: dto_queue queueAcquire32 queue_put32 queuePush32 queue32_ok queued32
  by unfold_locales (use queueAcquire32_none queue_send32 in blast)+

end
