(* ===== verification/Xcp_Daq_Order.thy ===== *)
theory Xcp_Daq_Order
  imports Queue64v_Dto Queue64f_Dto Queue32_Dto
begin

text \<open>
  What an event sends, down to the packet: the running lists of its chain one after the other, of each list the DTOs in
  the order of the ODTs up to the first one the queue has no room for. \<open>fitting\<close> computes these packets from the room
  in the queue alone; the locale \<open>roomy_queue\<close> adds to the contract of the queue when a packet is accepted and what
  room is left. The three queues of the code differ in this: the ring of \<^verbatim>\<open>queue64v.c\<close> counts bytes,
  \<^verbatim>\<open>queue64f.c\<close> counts entries, the segments of \<^verbatim>\<open>queue32.c\<close> are filled up one by one and closed by a flush.
\<close>

section \<open>The packets of a list\<close>

text \<open>A packet is the DTO and its flush flag: the last ODT of a list with priority asks for it.\<close>

definition daq_packets ::
  "(nat \<Rightarrow> u8) \<Rightarrow> (nat \<Rightarrow> nat) \<Rightarrow> nat \<Rightarrow> 'a xcp_daq_scheme \<Rightarrow> nat \<Rightarrow> (u8 list \<times> bool) list" where
  "daq_packets mem bases clock s d = map (\<lambda>odt. (dto_bytes mem bases clock s d odt,
       DaqListPriority s d \<noteq> 0 \<and> odt = DaqListLastOdt s d)) [DaqListFirstOdt s d..<DaqListLastOdt s d + 1]"

text \<open>\<open>fit n f r\<close> says whether a packet of \<open>n\<close> bytes with flush flag \<open>f\<close> is accepted when the room is \<open>r\<close>, and the
  room afterwards.\<close>

fun fitting :: "(nat \<Rightarrow> bool \<Rightarrow> 'r \<Rightarrow> bool \<times> 'r) \<Rightarrow> (u8 list \<times> bool) list \<Rightarrow> 'r \<Rightarrow> u8 list list \<times> 'r" where
  "fitting fit [] r = ([], r)"
| "fitting fit ((p, f) # ps) r =
     (let (accepted, r1) = fit (length p) f r in
      if accepted then let (ms, r2) = fitting fit ps r1 in (p # ms, r2) else ([], r1))"

fun event_fitting :: "(nat \<Rightarrow> bool \<Rightarrow> 'r \<Rightarrow> bool \<times> 'r) \<Rightarrow> (u8 list \<times> bool) list list \<Rightarrow> 'r \<Rightarrow> u8 list list \<times> 'r" where
  "event_fitting fit [] r = ([], r)"
| "event_fitting fit (ps # pss) r =
     (let (ms, r1) = fitting fit ps r; (ms', r2) = event_fitting fit pss r1 in (ms @ ms', r2))"

section \<open>Queues with a known room\<close>

locale roomy_queue = dto_queue acq put push ok sent
  for acq :: "nat \<Rightarrow> 'q \<Rightarrow> 'b option \<times> 'q"
    and put :: "'b \<Rightarrow> u8 list \<Rightarrow> 'q \<Rightarrow> 'q"
    and push :: "'b \<Rightarrow> bool \<Rightarrow> 'q \<Rightarrow> 'q"
    and ok :: "'q \<Rightarrow> bool"
    and sent :: "'q \<Rightarrow> u8 list list" +
  fixes room :: "'q \<Rightarrow> 'r"
    and fit :: "nat \<Rightarrow> bool \<Rightarrow> 'r \<Rightarrow> bool \<times> 'r"
  assumes refused: "ok q \<Longrightarrow> 0 < n \<Longrightarrow> n \<le> XCPTL_MAX_DTO_SIZE \<Longrightarrow> acq n q = (None, q1) \<Longrightarrow>
      fit n f (room q) = (False, room q1)"
    and accepted: "ok q \<Longrightarrow> 0 < n \<Longrightarrow> n \<le> XCPTL_MAX_DTO_SIZE \<Longrightarrow> acq n q = (Some b, q1) \<Longrightarrow> length p = n \<Longrightarrow>
      fit n f (room q) = (True, room (push b f (put b p q1)))"
begin

definition sends :: "'q \<Rightarrow> u8 list list \<times> 'r \<Rightarrow> 'q \<Rightarrow> bool" where
  "sends q r q' \<longleftrightarrow> ok q' \<and> (\<exists>ms. sent q' = sent q @ ms \<and> list_all2 padded (fst r) ms) \<and> room q' = snd r"

lemma sends_none: "ok q' \<Longrightarrow> sent q' = sent q \<Longrightarrow> sends q ([], room q') q'"
  by (simp add: sends_def)

lemma sends_append:
  assumes "sends q (ms, r) q1" "sends q1 (ms', r') q2"
  shows "sends q (ms @ ms', r') q2"
proof -
  from assms obtain xs ys where "sent q1 = sent q @ xs" "list_all2 padded ms xs" "sent q2 = sent q1 @ ys" "list_all2 padded ms' ys"
    unfolding sends_def by auto
  then have "sent q2 = sent q @ (xs @ ys) \<and> list_all2 padded (ms @ ms') (xs @ ys)" by (simp add: list_all2_appendI)
  then show ?thesis using assms(2) unfolding sends_def by auto
qed

lemma trigger_odts_sends:
  assumes "ok q" and "\<forall>odt \<in> set odts. length (dto_bytes mem bases clock s daq odt) = dto_size s daq odt
      \<and> 0 < dto_size s daq odt \<and> dto_size s daq odt \<le> XCPTL_MAX_DTO_SIZE"
  shows "sends q (fitting fit (map (\<lambda>odt. (dto_bytes mem bases clock s daq odt,
      DaqListPriority s daq \<noteq> 0 \<and> odt = DaqListLastOdt s daq)) odts) (room q))
    (trigger_odts acq put push mem bases clock s daq odts q)"
  using assms
proof (induction odts arbitrary: q)
  case Nil
  then show ?case by (simp add: sends_none)
next
  case (Cons odt odts)
  define p where "p = dto_bytes mem bases clock s daq odt"
  define f where "f \<longleftrightarrow> DaqListPriority s daq \<noteq> 0 \<and> odt = DaqListLastOdt s daq"
  have n: "length p = dto_size s daq odt" "0 < dto_size s daq odt" "dto_size s daq odt \<le> XCPTL_MAX_DTO_SIZE"
    using Cons.prems(2) by (simp_all add: p_def)
  obtain a q1 where a: "acq (dto_size s daq odt) q = (a, q1)" by fastforce
  have mod_id: "dto_size s daq odt mod 65536 = dto_size s daq odt" using n by simp
  show ?case
  proof (cases a)
    case None
    then have "fit (dto_size s daq odt) f (room q) = (False, room q1)" "ok q1" "sent q1 = sent q"
      using a refused [OF Cons.prems(1) n(2,3)] acq_full [OF Cons.prems(1)] by simp_all
    then show ?thesis using a None mod_id n(1) by (simp add: p_def [symmetric] f_def [symmetric] sends_none)
  next
    case (Some b)
    let ?q = "push b f (put b p q1)"
    have fit: "fit (dto_size s daq odt) f (room q) = (True, room ?q)"
      using a Some accepted [OF Cons.prems(1) n(2,3) _ n(1)] by simp
    from acq_send [OF Cons.prems(1) n(2,3) _ n(1), of b q1 f] a Some
    have 1: "sends q ([p], room ?q) ?q" by (auto simp: sends_def)
    from 1 have "ok ?q" by (simp add: sends_def)
    from Cons.IH [OF this] Cons.prems(2) have
      "sends ?q (fitting fit (map (\<lambda>odt. (dto_bytes mem bases clock s daq odt,
          DaqListPriority s daq \<noteq> 0 \<and> odt = DaqListLastOdt s daq)) odts) (room ?q))
        (trigger_odts acq put push mem bases clock s daq odts ?q)" by simp
    from sends_append [OF 1, of "fst (fitting fit (map (\<lambda>odt. (dto_bytes mem bases clock s daq odt,
          DaqListPriority s daq \<noteq> 0 \<and> odt = DaqListLastOdt s daq)) odts) (room ?q))" "snd (fitting fit (map (\<lambda>odt. (dto_bytes mem bases clock s daq odt,
          DaqListPriority s daq \<noteq> 0 \<and> odt = DaqListLastOdt s daq)) odts) (room ?q))"] this
    show ?thesis using a Some mod_id n(1) fit
      by (simp add: p_def [symmetric] f_def [symmetric] case_prod_beta Let_def)
  qed
qed

lemma trigger_list_sends:
  assumes inv: "daq_inv s" and d: "daq < daq_count s" and E: "0 < odt_entry_count s"
    and c: "daq_list_complete s daq" and q: "ok q"
  shows "sends q (fitting fit (daq_packets mem bases clock s daq) (room q)) (XcpTriggerDaqList acq put push mem bases clock s daq q)"
  unfolding XcpTriggerDaqList_def daq_packets_def
proof (rule trigger_odts_sends [OF q], rule ballI)
  fix odt assume "odt \<in> set [DaqListFirstOdt s daq..<DaqListLastOdt s daq + 1]"
  then have "odt \<in> {DaqListFirstOdt s daq..DaqListLastOdt s daq}" by auto
  then show "length (dto_bytes mem bases clock s daq odt) = dto_size s daq odt
      \<and> 0 < dto_size s daq odt \<and> dto_size s daq odt \<le> XCPTL_MAX_DTO_SIZE"
    using dto_bytes_length [OF inv d E c] by blast
qed

lemma trigger_lists_sends:
  assumes inv: "daq_inv s" and E: "0 < odt_entry_count s"
    and c: "\<forall>d < daq_count s. list_running s d \<longrightarrow> daq_list_complete s d"
    and ch: "daq_chain s d xs" "\<forall>x \<in> set xs. x < daq_count s" and q: "ok q"
  shows "\<exists>q'. trigger_lists (XcpTriggerDaqList acq put push mem bases clock s) s d q = Some q' \<and>
    sends q (event_fitting fit (map (daq_packets mem bases clock s) (filter (list_running s) xs)) (room q)) q'"
  using ch q
proof (induction xs arbitrary: d q)
  case Nil
  then show ?case by (subst trigger_lists.simps) (simp add: sends_none)
next
  case (Cons x xs)
  let ?f = "XcpTriggerDaqList acq put push mem bases clock s"
  have d: "d = x" "x \<noteq> XCP_UNDEFINED_DAQ_LIST" "daq_chain s (DaqListNext s x) xs" "x < daq_count s" using Cons.prems by auto
  note IH = Cons.IH [OF d(3)]
  show ?case
  proof (cases "list_running s x")
    case True
    obtain ms r where r: "fitting fit (daq_packets mem bases clock s x) (room q) = (ms, r)" by fastforce
    from trigger_list_sends [OF inv d(4) E _ Cons.prems(3), of mem bases clock] c True d(4) r
    have 1: "sends q (ms, r) (?f x q)" by simp
    then have ok: "ok (?f x q)" "room (?f x q) = r" by (simp_all add: sends_def)
    from IH [OF _ ok(1)] Cons.prems(2) ok(2) obtain q' where
      q': "trigger_lists ?f s (DaqListNext s x) (?f x q) = Some q'"
      "sends (?f x q) (event_fitting fit (map (daq_packets mem bases clock s) (filter (list_running s) xs)) r) q'" by auto
    obtain ms' r' where r': "event_fitting fit (map (daq_packets mem bases clock s) (filter (list_running s) xs)) r = (ms', r')"
      by fastforce
    from sends_append [OF 1] q'(2) r' have "sends q (ms @ ms', r') q'" by simp
    then show ?thesis using d q'(1) True r r' by (subst trigger_lists.simps) simp
  next
    case False
    then show ?thesis using IH [OF _ Cons.prems(3)] Cons.prems(2) d by (subst trigger_lists.simps) auto
  qed
qed

lemma event_sends:
  assumes inv: "daq_inv s" and E: "0 < odt_entry_count s"
    and c: "\<forall>d < daq_count s. list_running s d \<longrightarrow> daq_list_complete s d" and q: "ok q"
    and e: "e < event_count s" "ev_flags (event s e) AND XCP_DAQ_EVENT_FLAG_DISABLED = 0"
  shows "\<exists>q' xs ps ms. XcpTriggerDaqEvent acq put push mem bases now clock s e q = Some q' \<and> ok q'
    \<and> daq_chain s (DaqListFirst s e) xs
    \<and> event_fitting fit (map (daq_packets mem bases (if clock = 0 then now else clock) s) (filter (list_running s) xs)) (room q)
        = (ps, room q')
    \<and> sent q' = sent q @ ms \<and> list_all2 padded ps ms"
proof -
  from daq_invD(5) [OF inv] obtain ch where "chains_by ch s" by (auto simp: chains_ok_def)
  then have ch: "daq_chain s (DaqListFirst s e) (ch e)" "\<forall>x \<in> set (ch e). x < daq_count s" using e by (auto simp: chains_by_def)
  let ?r = "event_fitting fit (map (daq_packets mem bases (if clock = 0 then now else clock) s) (filter (list_running s) (ch e))) (room q)"
  from trigger_lists_sends [OF inv E c ch q, of mem bases "if clock = 0 then now else clock"] obtain q' where
    q': "XcpTriggerDaqEvent acq put push mem bases now clock s e q = Some q'" "sends q ?r q'"
    using e by (auto simp: XcpTriggerDaqEvent_def Let_def)
  then show ?thesis using ch(1) unfolding sends_def by (metis prod.collapse)
qed

end

section \<open>The ring\<close>

text \<open>The room in the ring is the number of free bytes; a packet costs its entry with the two headers. The second
  component is the number of lost packets.\<close>

definition ring_room :: "queue64 \<Rightarrow> nat \<times> nat" where
  "ring_room q = (buffer_size q - (head q - tail q), packets_lost q)"

definition ring_fit :: "nat \<Rightarrow> bool \<Rightarrow> nat \<times> nat \<Rightarrow> bool \<times> nat \<times> nat" where
  "ring_fit n f = (\<lambda>(free, lost). let c = align_up 4 (n + 4) + 4 in
     if c \<le> free then (True, free - c, lost) else (False, free, (lost + 1) mod 2 ^ 32))"

lemma queue_ok_space:
  assumes "queue_ok q"
  shows "QUEUE_MAX_ENTRY_SIZE + 4 \<le> buffer_size q" "buffer_size q < 2 ^ 32" "tail q \<le> head q" "head q \<le> tail q + buffer_size q"
  using assms by (auto simp: queue_ok_def conc_inv_def ring_wf_def alone_def)

lemma overrun_iff:
  assumes q: "queue_ok q" and n: "0 < n" "n \<le> XCPTL_MAX_DTO_SIZE"
  shows "queue_overrun (buffer_size q) (tail q) (head q) (entry_len_of n)
      \<longleftrightarrow> \<not> entry_len_of n + 4 \<le> buffer_size q - (head q - tail q)"
proof -
  note l = entry_len_bounds(2) [OF n] and s = queue_ok_space [OF q]
  have "(int (buffer_size q) - int (entry_len_of n + 4)) mod 2 ^ 64 = int (buffer_size q - (entry_len_of n + 4))"
    using l s by (simp add: of_nat_diff)
  then show ?thesis using l s by (auto simp: queue_overrun_def)
qed

lemma ring_refused:
  assumes "queue_ok q" "0 < n" "n \<le> XCPTL_MAX_DTO_SIZE" "queueAcquire n q = (None, q1)"
  shows "ring_fit n f (ring_room q) = (False, ring_room q1)"
  using assms overrun_iff [OF assms(1-3)]
  by (auto simp: queueAcquire_def ring_fit_def ring_room_def entry_len_of_def Let_def count_lost_def split: if_splits)

lemma ring_accepted:
  assumes q: "queue_ok q" and n: "0 < n" "n \<le> XCPTL_MAX_DTO_SIZE" and a: "queueAcquire n q = (Some b, q1)"
  shows "ring_fit n f (ring_room q) = (True, ring_room (queuePush b f (queue_put b p q1)))"
proof -
  from a n have fits: "entry_len_of n + 4 \<le> buffer_size q - (head q - tail q)"
    and q1: "q1 = store_reserved (head q) (entry_len_of n) (claim_entry (head q) (entry_len_of n) q)"
    using overrun_iff [OF q n] by (auto simp: queueAcquire_def Let_def split: if_splits)
  have "ring_room (queuePush b f (queue_put b p q1)) = (buffer_size q - (head q + (entry_len_of n + 4) - tail q), packets_lost q)"
    by (simp add: ring_room_def queuePush_def queue_put_def q1 store_reserved_def claim_entry_def Let_def)
  also have "\<dots> = (buffer_size q - (head q - tail q) - (entry_len_of n + 4), packets_lost q)"
    using fits queue_ok_space(3) [OF q] by simp
  finally show ?thesis using fits by (simp add: ring_fit_def ring_room_def entry_len_of_def Let_def)
qed

text \<open>With room for all packets nothing is cut.\<close>

definition ring_cost :: "(u8 list \<times> bool) list \<Rightarrow> nat" where
  "ring_cost ps = sum_list (map (\<lambda>(p, f). align_up 4 (length p + 4) + 4) ps)"

lemma ring_fitting_all:
  assumes "ring_cost ps \<le> fst r"
  shows "fitting ring_fit ps r = (map fst ps, fst r - ring_cost ps, snd r)"
  using assms by (induction ps arbitrary: r) (auto simp: ring_cost_def ring_fit_def case_prod_beta Let_def)

lemma ring_event_all:
  assumes "ring_cost (concat pss) \<le> fst r"
  shows "event_fitting ring_fit pss r = (map fst (concat pss), fst r - ring_cost (concat pss), snd r)"
  using assms
proof (induction pss arbitrary: r)
  case (Cons ps pss)
  have c: "ring_cost (concat (ps # pss)) = ring_cost ps + ring_cost (concat pss)" by (simp add: ring_cost_def)
  then have "fitting ring_fit ps r = (map fst ps, fst r - ring_cost ps, snd r)" using Cons.prems by (intro ring_fitting_all) simp
  then show ?case using Cons.IH [of "(fst r - ring_cost ps, snd r)"] Cons.prems c by simp
qed (simp add: ring_cost_def)

interpretation r64: roomy_queue queueAcquire queue_put queuePush queue_ok queued ring_room ring_fit
  by unfold_locales (use ring_refused ring_accepted in blast)+

section \<open>The ring of fixed entries\<close>

definition slots_room :: "queue64f \<Rightarrow> nat \<times> nat" where
  "slots_room q = ((f_size q - (f_head q - f_tail q)) div QUEUE_ENTRY_SIZE, f_lost q)"

text \<open>A packet that is longer than the entries of this build is refused without being counted.\<close>

definition slots_fit :: "nat \<Rightarrow> bool \<Rightarrow> nat \<times> nat \<Rightarrow> bool \<times> nat \<times> nat" where
  "slots_fit n f = (\<lambda>(free, lost). if MAX_DTO_FIX < n then (False, free, lost)
     else if 0 < free then (True, free - 1, lost) else (False, free, (lost + 1) mod 2 ^ 32))"

lemma fixed_ok_space:
  assumes "fixed_ok q"
  shows "\<exists>k. f_size q - (f_head q - f_tail q) = QUEUE_ENTRY_SIZE * k" "f_tail q \<le> f_head q" "f_head q \<le> f_tail q + f_size q"
    "f_size q < 2 ^ 32" "QUEUE_ENTRY_SIZE \<le> f_size q"
proof -
  from assms obtain xs where "slots_ok q xs" by (auto simp: fixed_ok_def finv_def one_thread_def)
  then have s: "256 dvd f_size q" "0 < f_size q" "f_size q < 2 ^ 32" "f_head q = f_tail q + 256 * length xs"
    "f_head q \<le> f_tail q + f_size q" by (simp_all add: slots_ok_def)
  from s(1) obtain m where "f_size q = 256 * m" by (auto simp: dvd_def)
  then have "f_size q - (f_head q - f_tail q) = 256 * (m - length xs)" using s(4) by (simp add: diff_mult_distrib2)
  then show "\<exists>k. f_size q - (f_head q - f_tail q) = 256 * k" by blast
  show "256 \<le> f_size q" using s(1,2) by (auto dest: dvd_imp_le)
qed (use assms in \<open>auto simp: fixed_ok_def finv_def one_thread_def slots_ok_def\<close>)

lemma fixed_overrun_iff:
  assumes q: "fixed_ok q" and n: "0 < n" "n \<le> MAX_DTO_FIX"
  shows "queue_overrun (f_size q) (f_tail q) (f_head q) (entry_len_of n) \<longleftrightarrow> fst (slots_room q) = 0"
proof -
  have l: "entry_len_of n \<le> 252" "4 < entry_len_of n" using entry_len_fix [OF n] by simp_all
  note s = fixed_ok_space [OF q]
  from s(1) obtain k where k: "f_size q - (f_head q - f_tail q) = 256 * k" by blast
  have "(int (f_size q) - int (entry_len_of n + 4)) mod 2 ^ 64 = int (f_size q - (entry_len_of n + 4))"
    using l s by (simp add: of_nat_diff)
  then have "queue_overrun (f_size q) (f_tail q) (f_head q) (entry_len_of n) \<longleftrightarrow> 256 * k < entry_len_of n + 4"
    using l s k unfolding queue_overrun_def by auto
  also have "\<dots> \<longleftrightarrow> k = 0" using l by (cases k) auto
  finally show ?thesis by (simp add: slots_room_def k)
qed

lemma slots_refused:
  assumes "fixed_ok q" "0 < n" "queueAcquireF n q = (None, q1)"
  shows "slots_fit n f (slots_room q) = (False, slots_room q1)"
proof (cases "n \<le> MAX_DTO_FIX")
  case True
  then show ?thesis using assms fixed_overrun_iff [OF assms(1,2) True]
    by (auto simp: queueAcquireF_def slots_fit_def slots_room_def Let_def count_lostF_def split: if_splits)
qed (use assms in \<open>simp add: queueAcquireF_def slots_fit_def slots_room_def\<close>)

lemma slots_accepted:
  assumes q: "fixed_ok q" and n: "0 < n" and a: "queueAcquireF n q = (Some b, q1)"
  shows "slots_fit n f (slots_room q) = (True, slots_room (queuePushF b f (queue_putF b p q1)))"
proof -
  from a have m: "n \<le> MAX_DTO_FIX" by (auto simp: queueAcquireF_def split: if_splits)
  from a n m have fits: "fst (slots_room q) \<noteq> 0" and q1: "q1 = reserve_slot (f_head q) (entry_len_of n) (claim_slot (f_head q) q)"
    using fixed_overrun_iff [OF q n m] by (auto simp: queueAcquireF_def Let_def split: if_splits)
  have "slots_room (queuePushF b f (queue_putF b p q1)) = ((f_size q - (f_head q + 256 - f_tail q)) div 256, f_lost q)"
    by (simp add: slots_room_def queuePushF_def queue_putF_def q1 reserve_slot_def claim_slot_def Let_def)
  also have "f_size q - (f_head q + 256 - f_tail q) = f_size q - (f_head q - f_tail q) - 256"
    using fixed_ok_space(2) [OF q] by simp
  also have "(f_size q - (f_head q - f_tail q) - 256) div 256 = fst (slots_room q) - 1"
    using fixed_ok_space(1) [OF q] by (auto simp: slots_room_def)
  finally show ?thesis using fits m by (auto simp: slots_fit_def slots_room_def)
qed

interpretation rf: roomy_queue queueAcquireF queue_putF queuePushF fixed_ok fixed_queued slots_room slots_fit
  by unfold_locales (use slots_refused slots_accepted in blast)+

section \<open>The segments\<close>

text \<open>The room is what is left in the segment being filled, the number of free segments, and the lost packets. A message
  that does not fit opens the next segment; a flush closes the segment, which opens the next one as well.\<close>

definition segment_room :: "queue32 \<Rightarrow> nat \<times> nat \<times> nat" where
  "segment_room q = ((case msg_ptr q of None \<Rightarrow> 0 | Some i \<Rightarrow> XCPTL_MAX_SEGMENT_SIZE - seg_size (queue q i)),
     queue_size q - queue_len q, packets_lost32 q)"

fun open_segment :: "nat \<times> nat \<times> nat \<Rightarrow> nat \<times> nat \<times> nat" where
  "open_segment (left, segments, lost) =
     (if segments = 0 then (0, 0, lost) else (XCPTL_MAX_SEGMENT_SIZE, segments - 1, lost))"

definition segment_fit :: "nat \<Rightarrow> bool \<Rightarrow> nat \<times> nat \<times> nat \<Rightarrow> bool \<times> nat \<times> nat \<times> nat" where
  "segment_fit n f r = (let c = align_up 4 n + 4; (left, segments, lost) = (if c \<le> fst r then r else open_segment r) in
     if c \<le> left then (True, if f then open_segment (left - c, segments, lost) else (left - c, segments, lost))
     else (False, left, segments, (lost + 1) mod 2 ^ 32))"

lemma newSegment_room: "segment_room (newSegmentBuffer q) = open_segment (segment_room q)"
  by (auto simp: newSegmentBuffer_def segment_room_def Let_def upd_segment_def)

lemma msg_room_iff:
  assumes "queue32_ok q" "0 < n" "n \<le> XCPTL_MAX_DTO_SIZE"
  shows "msg_room q (align_up 4 n + 4) \<longleftrightarrow> align_up 4 n + 4 \<le> fst (segment_room q)"
proof (cases "msg_ptr q")
  case (Some i)
  then have "segment_ok (queue q i)" using assms(1) by (auto simp: queue32_ok_def)
  then show ?thesis using Some align4(2) [of n] assms(3) by (auto simp: msg_room_def segment_room_def segment_ok_def)
qed (simp add: msg_room_def segment_room_def)

text \<open>The room after \<^verbatim>\<open>queueAcquire\<close> has made sure of a segment.\<close>

lemma acquire_room:
  assumes "queue32_ok q" "0 < n" "n \<le> XCPTL_MAX_DTO_SIZE"
  shows "segment_room (if msg_room q (align_up 4 n + 4) then q else newSegmentBuffer q)
    = (if align_up 4 n + 4 \<le> fst (segment_room q) then segment_room q else open_segment (segment_room q))"
  using msg_room_iff [OF assms] by (simp add: newSegment_room)

lemma segment_refused:
  assumes q: "queue32_ok q" "0 < n" "n \<le> XCPTL_MAX_DTO_SIZE" and a: "queueAcquire32 n q = (None, q')"
  shows "segment_fit n f (segment_room q) = (False, segment_room q')"
proof -
  define q1 where "q1 = (if msg_room q (align_up 4 n + 4) then q else newSegmentBuffer q)"
  have r: "segment_room q1 = (if align_up 4 n + 4 \<le> fst (segment_room q) then segment_room q else open_segment (segment_room q))"
    unfolding q1_def by (rule acquire_room [OF q])
  from a q have p: "msg_ptr q1 = None" "q' = q1\<lparr>packets_lost32 := (packets_lost32 q1 + 1) mod 2 ^ 32\<rparr>"
    by (auto simp: queueAcquire32_def Let_def q1_def split: option.splits)
  then have "segment_room q1 = (0, queue_size q1 - queue_len q1, packets_lost32 q1)"
    "segment_room q' = (0, queue_size q1 - queue_len q1, (packets_lost32 q1 + 1) mod 2 ^ 32)"
    by (simp_all add: segment_room_def)
  then show ?thesis unfolding segment_fit_def Let_def r [symmetric] by simp
qed

lemma segment_accepted:
  assumes q: "queue32_ok q" "0 < n" "n \<le> XCPTL_MAX_DTO_SIZE" and a: "queueAcquire32 n q = (Some b, q')"
  shows "segment_fit n f (segment_room q) = (True, segment_room (queuePush32 b f (queue_put32 b p q')))"
proof -
  define c where "c = align_up 4 n + 4"
  define q1 where "q1 = (if msg_room q c then q else newSegmentBuffer q)"
  have r: "segment_room q1 = (if c \<le> fst (segment_room q) then segment_room q else open_segment (segment_room q))"
    unfolding q1_def c_def by (rule acquire_room [OF q])
  from a q obtain i where i: "msg_ptr q1 = Some i"
    by (auto simp: queueAcquire32_def Let_def q1_def c_def split: option.splits)
  define off where "off = seg_size (queue q1 i)"
  have room: "off + c \<le> XCPTL_MAX_SEGMENT_SIZE"
    using acquire_ready(3) [OF q, of i] i by (simp add: q1_def c_def off_def)
  have b: "b = (i, off + 4, align_up 4 n)" using a q i by (auto simp: queueAcquire32_def Let_def q1_def c_def off_def)
  have q': "q' = upd_segment i (\<lambda>b. b\<lparr>msg_buffer := wr16 (wr16 (msg_buffer b) (off + 2) MSG_RESERVED) off (align_up 4 n),
      seg_size := (off + c) mod 65536, uncommitted := (uncommitted b + 1) mod 65536\<rparr>) q1"
    using a q i by (auto simp: queueAcquire32_def Let_def q1_def c_def off_def)
  define x where "x = queue_put32 b p q'"
  define t where "t = upd_segment i (\<lambda>g. g\<lparr>uncommitted := (uncommitted g + 65535) mod 65536,
        msg_buffer := wr16 (msg_buffer g) (off + 4 - 4 + 2) MSG_COMMITTED\<rparr>) x"
  have t: "msg_ptr t = Some i" "seg_size (queue t i) = off + c" "queue_size t = queue_size q1" "queue_len t = queue_len q1"
    "packets_lost32 t = packets_lost32 q1"
    using i room by (simp_all add: t_def x_def queue_put32_def b q' upd_segment_def)
  have "0 < c" by (simp add: c_def)
  then have "queuePush32 (i, off + 4, align_up 4 n) f x = (if f then newSegmentBuffer t else t)"
    unfolding queuePush32_def prod.case Let_def t_def [symmetric] using t(1,2) by simp
  then have push: "queuePush32 b f (queue_put32 b p q') = (if f then newSegmentBuffer t else t)" by (simp only: b x_def)
  have r1: "segment_room q1 = (XCPTL_MAX_SEGMENT_SIZE - off, queue_size q1 - queue_len q1, packets_lost32 q1)"
    using i by (simp add: segment_room_def off_def)
  have rt: "segment_room t = (XCPTL_MAX_SEGMENT_SIZE - off - c, queue_size q1 - queue_len q1, packets_lost32 q1)"
    using t by (simp add: segment_room_def)
  show ?thesis unfolding segment_fit_def Let_def c_def [symmetric] r [symmetric] push
    using room by (simp add: r1 rt newSegment_room)
qed

interpretation r32: roomy_queue queueAcquire32 queue_put32 queuePush32 queue32_ok queued32 segment_room segment_fit
  by unfold_locales (use segment_refused segment_accepted in blast)+

text \<open>Each packet uses up at most one segment: as many free segments as packets are enough.\<close>

definition segments_left :: "nat \<times> nat \<times> nat \<Rightarrow> nat" where
  "segments_left r = fst (snd r) + (if 1032 \<le> fst r then 1 else 0)"

lemma segment_fit_left:
  assumes "n \<le> XCPTL_MAX_DTO_SIZE" "0 < segments_left r"
  shows "fst (segment_fit n f r)" "segments_left r \<le> segments_left (snd (segment_fit n f r)) + 1"
proof -
  obtain a k l where r: "r = (a, k, l)" by (rule prod_cases3)
  define c where "c = align_up 4 n + 4"
  have c: "c \<le> 1032" using align4 [of n] assms(1) by (simp add: c_def)
  show "fst (segment_fit n f r)" "segments_left r \<le> segments_left (snd (segment_fit n f r)) + 1"
    unfolding segment_fit_def Let_def c_def [symmetric] r using assms(2) c by (auto simp: r segments_left_def split: if_splits)
qed

lemma segment_fitting_all:
  assumes "\<forall>(p, f) \<in> set ps. length p \<le> XCPTL_MAX_DTO_SIZE" "length ps \<le> segments_left r"
  shows "fst (fitting segment_fit ps r) = map fst ps
    \<and> segments_left r \<le> segments_left (snd (fitting segment_fit ps r)) + length ps"
  using assms
proof (induction ps arbitrary: r)
  case (Cons pf ps)
  obtain p f where pf: "pf = (p, f)" by fastforce
  have n: "length p \<le> XCPTL_MAX_DTO_SIZE" "0 < segments_left r" using Cons.prems pf by auto
  note fit = segment_fit_left [OF n, of f]
  let ?r = "snd (segment_fit (length p) f r)"
  have "length ps \<le> segments_left ?r" using fit(2) Cons.prems(2) by simp
  from Cons.IH [OF _ this] Cons.prems(1) have "fst (fitting segment_fit ps ?r) = map fst ps
    \<and> segments_left ?r \<le> segments_left (snd (fitting segment_fit ps ?r)) + length ps" by simp
  then show ?case using fit pf by (simp add: case_prod_beta Let_def)
qed simp

lemma segment_event_all:
  assumes "\<forall>(p, f) \<in> set (concat pss). length p \<le> XCPTL_MAX_DTO_SIZE" "length (concat pss) \<le> segments_left r"
  shows "fst (event_fitting segment_fit pss r) = map fst (concat pss)"
  using assms
proof (induction pss arbitrary: r)
  case (Cons ps pss)
  have 1: "fst (fitting segment_fit ps r) = map fst ps"
    "segments_left r \<le> segments_left (snd (fitting segment_fit ps r)) + length ps"
    using segment_fitting_all [of ps r] Cons.prems by auto
  then have "length (concat pss) \<le> segments_left (snd (fitting segment_fit ps r))" using Cons.prems(2) by simp
  moreover have "\<forall>(p, f) \<in> set (concat pss). length p \<le> XCPTL_MAX_DTO_SIZE" using Cons.prems(1) by auto
  ultimately show ?case using Cons.IH 1(1) by (simp add: case_prod_beta Let_def)
qed simp

lemma running_packets_size:
  assumes inv: "daq_inv s" and E: "0 < odt_entry_count s"
    and c: "\<forall>d < daq_count s. list_running s d \<longrightarrow> daq_list_complete s d"
    and ch: "daq_chain s (DaqListFirst s e) xs" "e < event_count s"
  shows "\<forall>(p, f) \<in> set (concat (map (daq_packets mem bases clock s) (filter (list_running s) xs))). length p \<le> XCPTL_MAX_DTO_SIZE"
proof -
  from daq_invD(5) [OF inv] obtain ch' where "chains_by ch' s" by (auto simp: chains_ok_def)
  then have "daq_chain s (DaqListFirst s e) (ch' e)" "\<forall>x \<in> set (ch' e). x < daq_count s" using ch(2) by (auto simp: chains_by_def)
  then have xs: "\<forall>x \<in> set xs. x < daq_count s" using daq_chain_unique [OF ch(1)] by simp
  have "length (dto_bytes mem bases clock s d odt) \<le> XCPTL_MAX_DTO_SIZE"
    if "d \<in> set xs" "list_running s d" "odt \<in> {DaqListFirstOdt s d..DaqListLastOdt s d}" for d odt
    using dto_bytes_length [OF inv _ E _ that(3)] c xs that(1,2) by metis
  then show ?thesis by (fastforce simp: daq_packets_def)
qed

end
