(* ===== verification/Xcp_Daq_Examples.thy ===== *)
theory Xcp_Daq_Examples
  imports Xcp_Daq_Cfg Xcp_Daq_Run Xcp_Daq_Trigger
begin

text \<open>
  A measurement configured step by step: one event, one DAQ list with one ODT of one entry of four bytes at the
  absolute address 16, linked to the event and running. Every intermediate state is written out, so that the
  operations are seen to compute it.
\<close>

definition cfg :: "bytes \<Rightarrow> nat \<Rightarrow> nat \<Rightarrow> nat \<Rightarrow> nat \<Rightarrow> nat \<Rightarrow> xcp_daq" where
  "cfg m cursor first n_odt n_entry n_daq = \<lparr>session_status = 0x7000, event_count = 1,
     event = (\<lambda>e. \<lparr>cycle_time_ns = 0, ev_index = 0, daq_first = (if e = 0 then first else 65535), ev_flags = 0, ev_name = ''task''\<rparr>),
     daq_running = False, odt_entry_count = n_entry, odt_count = n_odt, daq_count = n_daq, daq_mem = m,
     daq_overflow_count = 0, write_daq_odt_entry = 0, write_daq_odt = 0, write_daq_daq = cursor, daq_start_clock = 0\<rparr>"

lemmas cfg_simps = daq_fields table_defs list_rd16_def list_rd8_def odt_rd16_def list_wr16_def list_wr8_def odt_wr16_def
  rd16_def wr16_def rd32_def wr32_def cfg_def Let_def

definition mem1 :: bytes where
  "mem1 = (\<lambda>_. 0)(4 := 255, 5 := 255, 11 := 255, 6 := 255, 7 := 255)"

definition mem2 :: bytes where
  "mem2 = mem1(16 := 4, 20 := 16, 24 := 4, 25 := 1)"

definition mem3 :: bytes where
  "mem3 = mem2(4 := 0, 5 := 0, 8 := 16)"

lemma alloc_example: "XcpAllocDaq 1 (cfg (\<lambda>_. 0) 65535 65535 0 0 0) = (CRC_CMD_OK, cfg mem1 65535 65535 0 0 1)"
  by (simp add: XcpAllocDaq_def XcpCheckMemory_def daq_top_def init_daq_list_def cfg_simps mem1_def) (simp add: fun_eq_iff)

lemma odt_example: "XcpAllocOdt 0 1 (cfg mem1 65535 65535 0 0 1) = (CRC_CMD_OK, cfg mem1 65535 65535 1 0 1)"
  by (simp add: XcpAllocOdt_def XcpCheckMemory_def daq_top_def cfg_simps mem1_def) (simp add: fun_eq_iff)

lemma entry_example: "XcpAllocOdtEntry 0 0 1 (cfg mem1 65535 65535 1 0 1) = (CRC_CMD_OK, cfg mem1 65535 65535 1 1 1)"
  by (simp add: XcpAllocOdtEntry_def DaqListOdtCount_def XcpCheckMemory_def daq_top_def cfg_simps mem1_def) (simp add: fun_eq_iff)

lemma ptr_example: "XcpSetDaqPtr 0 0 0 (cfg mem1 65535 65535 1 1 1) = (CRC_CMD_OK, cfg mem1 0 65535 1 1 1)"
  by (simp add: XcpSetDaqPtr_def DaqListOdtCount_def DaqListOdtEntryCount_def isDaqRunning_def cfg_simps mem1_def)

lemma write_example: "XcpAddOdtEntry 16 1 4 (cfg mem1 0 65535 1 1 1)
   = (CRC_CMD_OK, (cfg mem2 0 65535 1 1 1)\<lparr>write_daq_odt_entry := 1\<rparr>)"
proof -
  have r: "\<not> isDaqRunning (cfg mem1 0 65535 1 1 1)" by (simp add: isDaqRunning_def cfg_def)
  have t: "odt_entry_target 65535 16 (Suc 0) = Inr (16, 65535)" by (simp add: odt_entry_target_def addr_kind_defs)
  show ?thesis using r [unfolded cfg_def mem1_def]
    by (simp add: XcpAddOdtEntry_def DaqListOdtCount_def DaqListOdtEntryCount_def XcpSetOdtSize_def odt_entry_write_def
        cfg_simps mem1_def mem2_def t) (simp add: fun_eq_iff)
qed

definition daq_pointed :: xcp_daq where
  "daq_pointed = cfg mem1 0 65535 1 1 1"

definition daq_written :: xcp_daq where
  "daq_written = (cfg mem2 0 65535 1 1 1)\<lparr>write_daq_odt_entry := 1\<rparr>"

definition daq_linked :: xcp_daq where
  "daq_linked = (cfg mem3 0 0 1 1 1)\<lparr>write_daq_odt_entry := 1\<rparr>"

lemma mode_example: "XcpSetDaqListMode 0 0 16 1 0 daq_written = Some (CRC_CMD_OK, daq_linked)"
proof -
  have l: "link_daq 0 0 None 65535 s = Some (set_daq_first 0 0 s)" for s :: xcp_daq
    by (subst link_daq.simps) (simp add: set_daq_link_def)
  show ?thesis
    by (simp add: XcpSetDaqListMode_def XcpGetEvent_def isActivated_def DaqListFirst_def daq_written_def daq_linked_def l
        set_daq_first_def cfg_simps mem1_def mem2_def mem3_def) (simp add: fun_eq_iff)
qed

definition daq_started :: xcp_daq where
  "daq_started = XcpStartDaq 5 (XcpStartDaqList 0 daq_linked)"

lemma clear_example: "XcpClearDaq (cfg (\<lambda>_. 0) 65535 65535 0 0 0) = cfg (\<lambda>_. 0) 65535 65535 0 0 0"
  by (simp add: XcpClearDaq_def cfg_def fun_eq_iff)

lemma daq_linked_inv: "daq_inv daq_written" "daq_inv daq_linked" "daq_inv daq_pointed"
proof -
  have "daq_inv (XcpClearDaq (cfg (\<lambda>_. 0) 65535 65535 0 0 0))" by (rule XcpClearDaq_inv) (simp add: cfg_def)
  then have 0: "daq_inv (cfg (\<lambda>_. 0) 65535 65535 0 0 0)" by (simp add: clear_example)
  have 1: "daq_inv (cfg mem1 65535 65535 0 0 1)"
    using XcpAllocDaq_daq_inv [OF 0, of 1] alloc_example by (simp add: cfg_def)
  have 2: "daq_inv (cfg mem1 65535 65535 1 0 1)"
    using XcpAllocOdt_daq_inv [OF 1, of 0 1] odt_example by (simp add: cfg_def)
  have 3: "daq_inv (cfg mem1 65535 65535 1 1 1)"
    using XcpAllocOdtEntry_daq_inv [OF 2, of 0 0 1] entry_example by (simp add: cfg_def)
  have 4: "daq_inv (cfg mem1 0 65535 1 1 1)" using XcpSetDaqPtr_daq_inv [OF 3, of 0 0 0] ptr_example by simp
  show 5: "daq_inv daq_written" using XcpAddOdtEntry_daq_inv [OF 4, of 16 1 4] write_example by (simp add: daq_written_def)
  show "daq_inv daq_pointed" using 4 by (simp add: daq_pointed_def)
  show "daq_inv daq_linked"
    by (rule XcpSetDaqListMode_cases [OF 5, of 0 0 "\<lambda>r. r = Some (CRC_CMD_OK, daq_linked) \<longrightarrow> daq_inv daq_linked" 16 1 0, unfolded mode_example, rule_format])
      simp_all
qed

lemma daq_started_facts:
  "daq_inv daq_started" "daq_count daq_started = 1" "odt_entry_count daq_started = 1" "event_count daq_started = 1"
  "list_running daq_started 0" "daq_list_complete daq_started 0" "isDaqRunning daq_started"
  "ev_flags (event daq_started 0) = 0" "DaqListFirst daq_started 0 = 0"
  "DaqListFirstOdt daq_started 0 = 0" "DaqListLastOdt daq_started 0 = 0" "DaqListNext daq_started 0 = XCP_UNDEFINED_DAQ_LIST"
  "DaqListPriority daq_started 0 = 0" "odt_entries daq_started 0 = [0]" "odt_entry_size daq_started 0 = 4"
proof -
  have "daq_inv (XcpStartDaqList 0 daq_linked)"
    by (rule XcpStartDaqList_inv [OF daq_linked_inv(2)]) (simp add: daq_linked_def cfg_def)
  then show "daq_inv daq_started" by (simp add: daq_started_def XcpStartDaq_inv)
qed (auto simp: daq_started_def daq_linked_def XcpStartDaq_def XcpStartDaqList_def set_list_state_def isDaqRunning_def isStarted_def
      list_running_def daq_list_complete_def odt_private_def odt_entries_def DaqListFirst_def cfg_simps mem1_def mem2_def mem3_def)

end
