(* ===== verification/Props_Daq.thy ===== *)
theory Props_Daq
  imports Xcp_Daq_Order Xcp_Daq_Examples
begin

text \<open>
  Properties of measurement: configuration of the DAQ lists, their start and stop, and what an event puts into the
  transmit queue. The witnesses run on \<open>daq_written\<close> (a list with one entry, not linked yet),
  \<open>daq_linked\<close> and \<open>daq_started\<close> of \<^verbatim>\<open>Xcp_Daq_Examples\<close>.
\<close>

section \<open>Event processing\<close>

text \<open>C4. An event sends its measurement data and nothing else, on the lock-free queue: an enabled event walks its chain of DAQ
  lists and appends, list after list in chain order and for the running lists only, the DTOs of the ODTs in their order. Which DTOs
  these are is determined by the free bytes of the ring: of each list, all up to the first one whose entry does not fit (this list is cut there
  and counted as one lost packet, the next list starts again), and all of them when the ring has room for them. Each message in the
  queue is the DTO with at most three bytes of alignment, and messages that were queued before stay unchanged.\<close>

theorem event_sends_dtos:
  assumes "daq_inv s" and "0 < odt_entry_count s"
    and "\<forall>d < daq_count s. list_running s d \<longrightarrow> daq_list_complete s d" and "queue_ok q"
    and "e < event_count s" and "ev_flags (event s e) AND XCP_DAQ_EVENT_FLAG_DISABLED = 0"
  shows "\<exists>q' xs pss ps ms. XcpTriggerDaqEvent queueAcquire queue_put queuePush mem bases now clock s e q = Some q' \<and> queue_ok q'
    \<and> daq_chain s (DaqListFirst s e) xs
    \<and> pss = map (daq_packets mem bases (if clock = 0 then now else clock) s) (filter (list_running s) xs)
    \<and> event_fitting ring_fit pss (ring_room q) = (ps, ring_room q')
    \<and> (ring_cost (concat pss) \<le> fst (ring_room q) \<longrightarrow> ps = map fst (concat pss))
    \<and> queued q' = queued q @ ms \<and> list_all2 padded ps ms"
  using r64.event_sends [OF assms, of mem bases now clock] ring_event_all by (metis fst_conv)

lemma started_chain:
  assumes "daq_chain daq_started (DaqListFirst daq_started 0) xs"
  shows "filter (list_running daq_started) xs = [0]"
proof -
  have "daq_chain daq_started (DaqListFirst daq_started 0) [0]"
    unfolding daq_chain.simps daq_started_facts(9,12) by simp
  from daq_chain_unique [OF assms this] show ?thesis using daq_started_facts(5) by simp
qed

lemma started_packets: "daq_packets (\<lambda>_. 7) (\<lambda>_. 0) 5 daq_started 0 = [([0, 0xAA, 0, 0, 5, 0, 0, 0, 7, 7, 7, 7], False)]"
proof -
  have "le_bytes 4 5 = [5, 0, 0, 0]" "le_bytes 2 0 = [0, 0]" by (simp_all add: le_bytes_def upt_rec)
  moreover have "mem_block (\<lambda>_. 7) a 4 = [7, 7, 7, 7]" for a by (simp add: mem_block_def upt_rec)
  ultimately show ?thesis
    unfolding daq_packets_def daq_started_facts(10,11,13) dto_bytes_def dto_header_def dto_payload_def odt_entry_data_def
    by (simp add: daq_started_facts(14,15))
qed

lemma event_sends_dtos_witness:
  "\<exists>q' m. XcpTriggerDaqEvent queueAcquire queue_put queuePush (\<lambda>_. 7) (\<lambda>_. 0) 9 5 daq_started 0 (queueInit 4096) = Some q'
    \<and> queue_ok q' \<and> queued q' = [m] \<and> padded [0, 0xAA, 0, 0, 5, 0, 0, 0, 7, 7, 7, 7] m"
proof -
  have q: "queue_ok (queueInit 4096)" "queued (queueInit 4096) = []" using queueInit_ok [of 4096] by simp_all
  from event_sends_dtos [of daq_started "queueInit 4096" 0 "\<lambda>_. 7" "\<lambda>_. 0" 9 5] q obtain q' xs ps ms where
    r: "XcpTriggerDaqEvent queueAcquire queue_put queuePush (\<lambda>_. 7) (\<lambda>_. 0) 9 5 daq_started 0 (queueInit 4096) = Some q'" "queue_ok q'"
      "daq_chain daq_started (DaqListFirst daq_started 0) xs" "queued q' = ms" "list_all2 padded ps ms"
    and all: "ring_cost (concat (map (daq_packets (\<lambda>_. 7) (\<lambda>_. 0) 5 daq_started) (filter (list_running daq_started) xs)))
        \<le> fst (ring_room (queueInit 4096)) \<longrightarrow>
      ps = map fst (concat (map (daq_packets (\<lambda>_. 7) (\<lambda>_. 0) 5 daq_started) (filter (list_running daq_started) xs)))"
    by (auto simp: daq_started_facts)
  have "fst (ring_room (queueInit 4096)) = 3064"
    by (simp add: ring_room_def queueInit_def queueInitFromMemory_def queueClear_def queue_data_size_def align_up_def)
  then have "ps = [[0, 0xAA, 0, 0, 5, 0, 0, 0, 7, 7, 7, 7]]"
    using all by (simp add: started_chain [OF r(3)] started_packets ring_cost_def align_up_def)
  then show ?thesis using r by (auto simp: list_all2_Cons1)
qed

text \<open>C30. The same on the mutex queue, whose segments are filled one by one: a message that does not fit opens the next segment, the
  last DTO of a list with priority closes its segment, and a list is cut when no segment is free. All DTOs are sent when as
  many segments are free as there are DTOs.\<close>

theorem event_sends_dtos_mutex:
  assumes "daq_inv s" and "0 < odt_entry_count s"
    and "\<forall>d < daq_count s. list_running s d \<longrightarrow> daq_list_complete s d" and "queue32_ok q"
    and "e < event_count s" and "ev_flags (event s e) AND XCP_DAQ_EVENT_FLAG_DISABLED = 0"
  shows "\<exists>q' xs pss ps ms. XcpTriggerDaqEvent queueAcquire32 queue_put32 queuePush32 mem bases now clock s e q = Some q' \<and> queue32_ok q'
    \<and> daq_chain s (DaqListFirst s e) xs
    \<and> pss = map (daq_packets mem bases (if clock = 0 then now else clock) s) (filter (list_running s) xs)
    \<and> event_fitting segment_fit pss (segment_room q) = (ps, segment_room q')
    \<and> (length (concat pss) \<le> segments_left (segment_room q) \<longrightarrow> ps = map fst (concat pss))
    \<and> queued32 q' = queued32 q @ ms \<and> list_all2 padded ps ms"
proof -
  let ?pss = "\<lambda>xs. map (daq_packets mem bases (if clock = 0 then now else clock) s) (filter (list_running s) xs)"
  from r32.event_sends [OF assms, of mem bases now clock] obtain q' xs ps ms where
    r: "XcpTriggerDaqEvent queueAcquire32 queue_put32 queuePush32 mem bases now clock s e q = Some q'" "queue32_ok q'"
      "daq_chain s (DaqListFirst s e) xs" "event_fitting segment_fit (?pss xs) (segment_room q) = (ps, segment_room q')"
      "queued32 q' = queued32 q @ ms" "list_all2 padded ps ms" by blast
  have "length (concat (?pss xs)) \<le> segments_left (segment_room q) \<longrightarrow> ps = map fst (concat (?pss xs))"
    using segment_event_all [OF running_packets_size [OF assms(1,2,3) r(3) assms(5)]] r(4) by (metis fst_conv)
  with r show ?thesis by blast
qed

lemma queueInit32_ok: "queue32_ok (queueInit32 n) \<and> queued32 (queueInit32 n) = []"
proof -
  define bs where "bs = align_up CACHE_LINE_SIZE ((n div SIZEOF_SEGMENT + 1) * SIZEOF_SEGMENT)"
  define q where "q = \<lparr>queue_buffer_size = bs, queue_size = bs div SIZEOF_SEGMENT,
     queue = (\<lambda>_. \<lparr>uncommitted = 0, seg_size = 0, msg_buffer = (\<lambda>_. 0)\<rparr>), queue_rp = 0, queue_len = 0, msg_ptr = None, packets_lost32 = 0\<rparr>"
  have "SIZEOF_SEGMENT \<le> bs" by (simp add: bs_def align_up_def)
  then have "0 < bs div SIZEOF_SEGMENT" by (simp add: div_greater_zero_iff)
  then have "queue32_ok q" "queued32 q = []" by (simp_all add: q_def queue32_ok_def queued32_def)
  moreover have "queueInit32 n = newSegmentBuffer q" by (simp add: queueInit32_def q_def bs_def Let_def)
  ultimately show ?thesis using newSegment_ok [of q] by simp
qed

lemma event_sends_dtos_mutex_witness:
  "\<exists>q' m. XcpTriggerDaqEvent queueAcquire32 queue_put32 queuePush32 (\<lambda>_. 7) (\<lambda>_. 0) 9 5 daq_started 0 (queueInit32 4096) = Some q'
    \<and> queue32_ok q' \<and> queued32 q' = [m] \<and> padded [0, 0xAA, 0, 0, 5, 0, 0, 0, 7, 7, 7, 7] m"
proof -
  have q: "queue32_ok (queueInit32 4096)" "queued32 (queueInit32 4096) = []" using queueInit32_ok [of 4096] by simp_all
  from event_sends_dtos_mutex [of daq_started "queueInit32 4096" 0 "\<lambda>_. 7" "\<lambda>_. 0" 9 5] q obtain q' xs ps ms where
    r: "XcpTriggerDaqEvent queueAcquire32 queue_put32 queuePush32 (\<lambda>_. 7) (\<lambda>_. 0) 9 5 daq_started 0 (queueInit32 4096) = Some q'" "queue32_ok q'"
      "daq_chain daq_started (DaqListFirst daq_started 0) xs" "queued32 q' = ms" "list_all2 padded ps ms"
    and all: "length (concat (map (daq_packets (\<lambda>_. 7) (\<lambda>_. 0) 5 daq_started) (filter (list_running daq_started) xs)))
        \<le> segments_left (segment_room (queueInit32 4096)) \<longrightarrow>
      ps = map fst (concat (map (daq_packets (\<lambda>_. 7) (\<lambda>_. 0) 5 daq_started) (filter (list_running daq_started) xs)))"
    by (auto simp: daq_started_facts)
  have "segments_left (segment_room (queueInit32 4096)) = 3"
    by (simp add: segments_left_def segment_room_def queueInit32_def newSegmentBuffer_def align_up_def upd_segment_def seg_index_def Let_def)
  then have "ps = [[0, 0xAA, 0, 0, 5, 0, 0, 0, 7, 7, 7, 7]]"
    using all by (simp add: started_chain [OF r(3)] started_packets)
  then show ?thesis using r by (auto simp: list_all2_Cons1)
qed

text \<open>C21. A DTO fits its buffer: for a running list whose ODTs are its own, the bytes that the event writes - header, timestamp in the first
  ODT, and the entries - are exactly as many as were requested from the queue, and never more than a DTO may have.\<close>

theorem dto_fits:
  assumes "daq_inv s" and "daq < daq_count s" and "0 < odt_entry_count s" and "daq_list_complete s daq"
    and "odt \<in> {DaqListFirstOdt s daq..DaqListLastOdt s daq}"
  shows "length (dto_bytes mem bases clock s daq odt) = dto_size s daq odt
    \<and> 0 < dto_size s daq odt \<and> dto_size s daq odt \<le> XCPTL_MAX_DTO_SIZE"
  using dto_bytes_length [OF assms] by blast

lemma dto_fits_witness:
  "length (dto_bytes (\<lambda>_. 7) (\<lambda>_. 0) 5 daq_started 0 (DaqListFirstOdt daq_started 0)) = dto_size daq_started 0 (DaqListFirstOdt daq_started 0)
    \<and> 0 < dto_size daq_started 0 (DaqListFirstOdt daq_started 0)
    \<and> dto_size daq_started 0 (DaqListFirstOdt daq_started 0) \<le> XCPTL_MAX_DTO_SIZE"
  by (rule dto_fits) (use daq_started_facts(1) in \<open>simp_all add: daq_started_facts\<close>)

section \<open>Configuration\<close>

text \<open>C20. Writing an ODT entry keeps every invariant of the tables and is all or nothing: it is accepted only for a size of 1 to 248
  at a valid cursor, within the DTO limits; then the entry has the size given, the cursor moves on and the ODT has grown
  by the difference; a refused entry changes nothing.\<close>

theorem add_odt_entry_safe:
  assumes "daq_inv s" and "addr < 2 ^ 32"
  shows "daq_inv (snd (XcpAddOdtEntry addr ext sz s))
    \<and> (fst (XcpAddOdtEntry addr ext sz s) \<noteq> CRC_CMD_OK \<longrightarrow> snd (XcpAddOdtEntry addr ext sz s) = s)
    \<and> (fst (XcpAddOdtEntry addr ext sz s) = CRC_CMD_OK \<longrightarrow>
        0 < sz \<and> sz \<le> XCP_MAX_ODT_ENTRY_SIZE
        \<and> odt_entry_size (snd (XcpAddOdtEntry addr ext sz s)) (write_daq_odt_entry s) = sz
        \<and> odt_size (snd (XcpAddOdtEntry addr ext sz s)) (write_daq_odt s) \<le> XCPTL_MAX_DTO_SIZE - 4)"
proof -
  have "daq_inv (snd (XcpAddOdtEntry addr ext sz s))" by (rule XcpAddOdtEntry_daq_inv [OF assms])
  moreover have "(fst r \<noteq> CRC_CMD_OK \<longrightarrow> snd r = s) \<and> (fst r = CRC_CMD_OK \<longrightarrow> 0 < sz \<and> sz \<le> XCP_MAX_ODT_ENTRY_SIZE
      \<and> odt_entry_size (snd r) (write_daq_odt_entry s) = sz \<and> odt_size (snd r) (write_daq_odt s) \<le> XCPTL_MAX_DTO_SIZE - 4)"
    if "r = XcpAddOdtEntry addr ext sz s" for r
    unfolding that
  proof (rule XcpAddOdtEntry_cases [of sz s addr ext])
    fix b ev n
    assume a: "0 < sz" "sz \<le> XCP_MAX_ODT_ENTRY_SIZE" "0 < odt_count s" "0 < odt_entry_count s" "write_daq_daq s < daq_count s"
      "int (write_daq_odt_entry s) - int (first_odt_entry s (write_daq_odt s)) < DaqListOdtEntryCount s (write_daq_odt s)"
      "n \<le> XCPTL_MAX_DTO_SIZE - 4"
    note c = cursor_entry [OF assms(1) a(5,3,4,6)]
    show "(fst (CRC_CMD_OK, add_entry_state (write_daq_daq s) (write_daq_odt s) (write_daq_odt_entry s) b ext sz ev n s) \<noteq> CRC_CMD_OK
        \<longrightarrow> snd (CRC_CMD_OK, add_entry_state (write_daq_daq s) (write_daq_odt s) (write_daq_odt_entry s) b ext sz ev n s) = s)
      \<and> (fst (CRC_CMD_OK, add_entry_state (write_daq_daq s) (write_daq_odt s) (write_daq_odt_entry s) b ext sz ev n s) = CRC_CMD_OK
        \<longrightarrow> 0 < sz \<and> sz \<le> XCP_MAX_ODT_ENTRY_SIZE
        \<and> odt_entry_size (snd (CRC_CMD_OK, add_entry_state (write_daq_daq s) (write_daq_odt s) (write_daq_odt_entry s) b ext sz ev n s))
            (write_daq_odt_entry s) = sz
        \<and> odt_size (snd (CRC_CMD_OK, add_entry_state (write_daq_daq s) (write_daq_odt s) (write_daq_odt_entry s) b ext sz ev n s))
            (write_daq_odt s) \<le> XCPTL_MAX_DTO_SIZE - 4)"
      using a c by (simp add: add_entry_sizes add_entry_odts)
  qed simp
  ultimately show ?thesis by blast
qed

lemma pointed_write: "XcpAddOdtEntry 16 1 4 daq_pointed = (CRC_CMD_OK, daq_written)"
  using write_example by (simp add: daq_pointed_def daq_written_def)

lemma add_odt_entry_safe_witness:
  "XcpAddOdtEntry 16 1 4 daq_pointed = (CRC_CMD_OK, daq_written) \<and> daq_inv daq_written
    \<and> odt_entry_size daq_written 0 = 4 \<and> odt_size daq_written 0 \<le> XCPTL_MAX_DTO_SIZE - 4"
  using add_odt_entry_safe [OF daq_linked_inv(3), of 16 1 4] pointed_write by (simp add: daq_pointed_def cfg_def)

text \<open>\<^verbatim>\<open>SET_DAQ_LIST_MODE\<close> binds a list to an event: the walk along the chain ends, an accepted call leaves the list on the chain of
  exactly this event with all invariants (each list at most once, no cycles, nothing lost), a refused call changes nothing; binding
  it to a second event is refused.\<close>

theorem set_list_mode_links:
  assumes "daq_inv s"
  shows "\<exists>r t. XcpSetDaqListMode daq e mode prescaler prio s = Some (r, t) \<and> daq_inv t
    \<and> (r \<noteq> CRC_CMD_OK \<longrightarrow> t = s)
    \<and> (r = CRC_CMD_OK \<longrightarrow> daq < daq_count t \<and> e < event_count t \<and> DaqListEventChannel t daq = e
        \<and> (DaqListEventChannel s daq = XCP_UNDEFINED_EVENT_ID \<or> DaqListEventChannel s daq = e)
        \<and> (\<exists>xs. daq_chain t (DaqListFirst t e) xs \<and> distinct xs \<and> daq \<in> set xs))"
proof (cases "daq < daq_count s \<and> prescaler \<le> 1 \<and> XcpGetEvent s e \<noteq> None
    \<and> (DaqListEventChannel s daq \<noteq> XCP_UNDEFINED_EVENT_ID \<longrightarrow> e = DaqListEventChannel s daq)")
  case True
  note i = daq_invD [OF assms]
  from True have e: "e < event_count s" by (auto simp: XcpGetEvent_def split: if_splits)
  from i(5) obtain ch where ch: "chains_by ch s" by (auto simp: chains_ok_def)
  have D: "daq_count s < XCP_UNDEFINED_DAQ_LIST" using daq_count_bound [OF i(1)] by simp
  define ch' where "ch' = (if daq \<in> set (ch e) then ch else ch(e := ch e @ [daq]))"
  from XcpSetDaqListMode_link [OF ch i(8) _ D e, of daq mode prio] True obtain t where
    t: "link_daq e daq None (DaqListFirst (mode_state daq e mode prio s) e) (mode_state daq e mode prio s) = Some t"
      "chains_by ch' t" "same_tables t s" "DaqListEventChannel t daq = e"
    unfolding ch'_def by blast
  have r: "XcpSetDaqListMode daq e mode prescaler prio s = Some (CRC_CMD_OK, t)"
    using True t(1) by (auto simp: XcpSetDaqListMode_def Let_def mode_state_def)
  have n: "daq_count t = daq_count s" "event_count t = event_count s" using t(3) by (simp_all add: same_tables_def)
  have "daq \<in> set (ch' e)" by (simp add: ch'_def)
  then have "daq_chain t (DaqListFirst t e) (ch' e)" "distinct (ch' e)" "daq \<in> set (ch' e)"
    using t(2) e n by (auto simp: chains_by_def)
  then show ?thesis using r True t(4) e n same_tables_inv [OF t(3) assms chains_ok_by [OF t(2)]] by auto
next
  case False
  then have "\<exists>c. c \<noteq> CRC_CMD_OK \<and> XcpSetDaqListMode daq e mode prescaler prio s = Some (c, s)"
    by (auto simp: XcpSetDaqListMode_def)
  then show ?thesis using assms by auto
qed

lemma set_list_mode_links_witness:
  "XcpSetDaqListMode 0 0 16 1 0 daq_written = Some (CRC_CMD_OK, daq_linked) \<and> daq_inv daq_linked
    \<and> DaqListEventChannel daq_linked 0 = 0
    \<and> (\<exists>xs. daq_chain daq_linked (DaqListFirst daq_linked 0) xs \<and> distinct xs \<and> 0 \<in> set xs)"
  using set_list_mode_links [OF daq_linked_inv(1), of 0 0 16 1 0] mode_example by simp

text \<open>Starting and stopping: starting the selected lists turns exactly the selected ones into running ones and keeps the others as they are; stopping the
  measurement puts every list into the state stopped and unselected and clears the running flag.\<close>

theorem start_stop_states:
  assumes "i < daq_count s"
  shows "DaqListState (XcpStartSelectedDaqLists s) i
      = (if list_selected s i then DaqListState s i AND NOT DAQ_STATE_SELECTED OR DAQ_STATE_RUNNING else DaqListState s i)
    \<and> DaqListState (XcpStopDaq s) i = DAQ_STATE_STOPPED_UNSELECTED \<and> \<not> daq_running (XcpStopDaq s)"
  using XcpStartSelected_state [OF assms] XcpStopDaq_state(1) [of s] XcpStopDaq_state(3) [OF assms] assms
  by (simp add: started_state_def list_selected_def)

lemma start_stop_states_witness:
  "DaqListState (XcpStartSelectedDaqLists daq_linked) 0
      = (if list_selected daq_linked 0 then DaqListState daq_linked 0 AND NOT DAQ_STATE_SELECTED OR DAQ_STATE_RUNNING
         else DaqListState daq_linked 0)
    \<and> DaqListState (XcpStopDaq daq_linked) 0 = DAQ_STATE_STOPPED_UNSELECTED \<and> \<not> daq_running (XcpStopDaq daq_linked)"
  by (rule start_stop_states) (simp add: daq_linked_def cfg_def)

text \<open>Stopping one list stops this list, and the whole measurement exactly when no other list is running any more.\<close>

theorem stop_list_state:
  assumes "daq < daq_count s"
  shows "\<not> list_running (XcpStopDaqList daq s) daq
    \<and> daq_running (XcpStopDaqList daq s) = (daq_running s \<and> (\<exists>i < daq_count s. i \<noteq> daq \<and> list_running s i))"
  using XcpStopDaqList_state [OF assms] by blast

lemma stop_list_state_witness:
  "\<not> list_running (XcpStopDaqList 0 daq_started) 0
    \<and> daq_running (XcpStopDaqList 0 daq_started) = (daq_running daq_started \<and> (\<exists>i < daq_count daq_started. i \<noteq> 0 \<and> list_running daq_started i))"
  by (rule stop_list_state) (simp add: daq_started_facts)

end
