(* ===== verification/Queue64v_Fifo.thy ===== *)
theory Queue64v_Fifo
  imports Queue64v_Conc Queue_Order
begin

text \<open>
  First in, first out, byte for byte: the lock-free queue keeps the contract \<open>fifo_order\<close>. Its history records every
  reservation at the moment its thread wins the compare-and-swap, and the bytes of the entry at the moment its thread
  commits it. What the consumer gets is the history's beginning, for every interleaving of the producers and the
  consumer.
\<close>

section \<open>Histories\<close>

text \<open>A step in which no thread wins an entry and none commits one.\<close>

definition silent :: "conf \<Rightarrow> conf \<Rightarrow> bool" where
  "silent c c' \<longleftrightarrow> (\<forall>p l pos. (pc c' p = PClaimed l pos \<longrightarrow> pc c p = PClaimed l pos)
     \<and> (pc c p = PReserved l pos \<longrightarrow> pc c' p = PReserved l pos))"

definition observed :: "conf \<Rightarrow> queue_event \<Rightarrow> conf \<Rightarrow> bool" where
  "observed c e c' \<longleftrightarrow> qstep c c' \<and> (case e of
       Claims pos \<Rightarrow> \<exists>p l t. pc c p = PLoaded l t pos \<and> pc c' p = PClaimed l pos
     | Commits pos d \<Rightarrow> \<exists>p l. pc c p = PReserved l pos \<and> pc c' p = PIdle
         \<and> d = mem_get (entry_at (cq c) pos + QUEUE_ENTRY_HEADER_SIZE) l (qbuf (cq c))
     | Silent \<Rightarrow> silent c c')"

definition hreach :: "nat \<Rightarrow> conf \<Rightarrow> history \<Rightarrow> bool" where
  "hreach n = recorded (conc_init n) observed"

lemma h_init: "hreach n (conc_init n) []"
  unfolding hreach_def by (rule rec_init)

lemma h_claim: "hreach n c h \<Longrightarrow> qstep c c' \<Longrightarrow> pc c p = PLoaded l t pos \<Longrightarrow> pc c' p = PClaimed l pos \<Longrightarrow>
    hreach n c' (h @ [(pos, None)])"
  unfolding hreach_def by (rule rec_claims) (auto simp: observed_def)

lemma h_commit: "hreach n c h \<Longrightarrow> qstep c c' \<Longrightarrow> pc c p = PReserved l pos \<Longrightarrow> pc c' p = PIdle \<Longrightarrow>
    hreach n c' (commit_entry pos (mem_get (entry_at (cq c) pos + QUEUE_ENTRY_HEADER_SIZE) l (qbuf (cq c))) h)"
  unfolding hreach_def by (rule rec_commits) (auto simp: observed_def)

lemma h_silent: "hreach n c h \<Longrightarrow> qstep c c' \<Longrightarrow> silent c c' \<Longrightarrow> hreach n c' h"
  unfolding hreach_def by (rule rec_silent) (auto simp: observed_def)

text \<open>Every run has a history.\<close>

lemma step_kinds:
  assumes "qstep c c'"
  shows "(\<exists>p l t pos. pc c p = PLoaded l t pos \<and> pc c' p = PClaimed l pos)
    \<or> (\<exists>p l pos. pc c p = PReserved l pos \<and> pc c' p = PIdle) \<or> silent c c'"
  using assms
proof (cases rule: qstep.cases)
  case (cas_win p l t h)
  then have "pc c p = PLoaded l t h \<and> pc c' p = PClaimed l h" by simp
  then show ?thesis by blast
next
  case (push p l pos f)
  then have "pc c p = PReserved l pos \<and> pc c' p = PIdle" by simp
  then show ?thesis by blast
qed (simp_all add: silent_def)

lemma history_exists: "qreach n c \<Longrightarrow> \<exists>h. hreach n c h"
proof (induction rule: qreach.induct)
  case (qnext c c')
  then show ?case using step_kinds [OF qnext.hyps(2)] h_claim h_commit h_silent by metis
qed (blast intro: h_init)

section \<open>The entries of the ring\<close>

fun live :: "nat \<Rightarrow> slot list \<Rightarrow> history" where
  "live t [] = []"
| "live t (Claimed p l # xs) = (t, None) # live (t + (l + 4)) xs"
| "live t (Reserved p l # xs) = (t, None) # live (t + (l + 4)) xs"
| "live t (Full d # xs) = (t, Some d) # live (t + (length d + 4)) xs"
| "live t (Dead l # xs) = live (t + (l + 4)) xs"

lemma live_append: "live t (xs @ ys) = live t xs @ live (t + extent xs) ys"
  by (induction t xs rule: live.induct) (simp_all add: algebra_simps)

lemma live_bounds: "p \<in> fst ` set (live t xs) \<Longrightarrow> t \<le> p \<and> p < t + extent xs"
  by (induction t xs rule: live.induct) fastforce+

definition ring_rep :: "conf \<Rightarrow> history \<Rightarrow> bool" where
  "ring_rep c ys \<longleftrightarrow> (\<exists>xs. conc_inv c xs \<and> ys = live (tail (cq c)) xs)"

lemma ring_repI: "conc_inv c xs \<Longrightarrow> ys = live (tail (cq c)) xs \<Longrightarrow> ring_rep c ys"
  unfolding ring_rep_def by blast

lemma conc_head: "conc_inv c xs \<Longrightarrow> head (cq c) = tail (cq c) + extent xs"
  by (simp add: conc_inv_def ring_wf_def)

lemma own_position:
  assumes "conc_inv c (us @ Reserved p l # vs)" and "pc c p = PReserved l pos"
  shows "pos = tail (cq c) + extent us"
proof -
  have "(tail (cq c) + extent us, Reserved p l) \<in> set (layout (tail (cq c)) (us @ Reserved p l # vs))"
    by (simp add: layout_append)
  then have "pc c p = PReserved l (tail (cq c) + extent us)" using assms(1) by (auto simp: conc_inv_def threads_ok_def)
  with assms(2) show ?thesis by simp
qed

section \<open>The steps\<close>

lemma ring_claims:
  assumes rep: "ring_rep c ys" and st: "observed c (Claims pos) c'"
  shows "ring_rep c' (ys @ [(pos, None)]) \<and> got c' = got c \<and> pos = head (cq c) \<and> pos < head (cq c')"
proof -
  from rep obtain xs where inv: "conc_inv c xs" and ys: "ys = live (tail (cq c)) xs" unfolding ring_rep_def by blast
  from st obtain p l t where q: "qstep c c'" and p: "pc c p = PLoaded l t pos" "pc c' p = PClaimed l pos"
    by (auto simp: observed_def)
  from q show ?thesis
  proof (cases rule: qstep.cases)
    case (cas_win p' l' t' h')
    then have e: "p' = p" "l' = l" "t' = t" "h' = pos" using p by (auto split: if_splits)
    have c': "conc_inv c' (xs @ [Claimed p l])" using conc_claim [OF inv, of p l t] cas_win e by simp
    have h: "head (cq c') = pos + (l + 4)" "tail (cq c') = tail (cq c)" "pos = head (cq c)" "got c' = got c"
      using cas_win e by (simp_all add: claim_entry_def)
    have "ring_rep c' (ys @ [(pos, None)])"
      using conc_head [OF inv] h by (intro ring_repI [OF c']) (simp add: ys live_append)
    then show ?thesis using h by simp
  qed (use p in \<open>auto split: if_splits\<close>)
qed

lemma ring_commits:
  assumes rep: "ring_rep c ys" and st: "observed c (Commits pos d) c'"
  shows "pos \<in> fst ` set ys \<and> ring_rep c' (commit_entry pos d ys) \<and> got c' = got c \<and> head (cq c') = head (cq c)"
proof -
  from rep obtain xs where inv: "conc_inv c xs" and ys: "ys = live (tail (cq c)) xs" unfolding ring_rep_def by blast
  from st obtain p l where q: "qstep c c'" and p: "pc c p = PReserved l pos" "pc c' p = PIdle"
    and d: "d = mem_get (entry_at (cq c) pos + QUEUE_ENTRY_HEADER_SIZE) l (qbuf (cq c))" by (auto simp: observed_def)
  from q show ?thesis
  proof (cases rule: qstep.cases)
    case (push p' l' pos' f)
    then have e: "p' = p" "l' = l" "pos' = pos" using p by (auto split: if_splits)
    from conc_push [OF inv p(1), of f] push e obtain us vs where
      xs: "xs = us @ Reserved p l # vs" "conc_inv c' (us @ Full d # vs)" unfolding d by blast
    have pos: "pos = tail (cq c) + extent us" using own_position inv p(1) xs(1) by blast
    have l: "length d = l" by (simp add: d)
    have h: "ys = live (tail (cq c)) us @ (pos, None) # live (pos + (l + 4)) vs"
      using xs(1) pos by (simp add: ys live_append)
    have "pos \<notin> fst ` set (live (tail (cq c)) us)" "pos \<notin> fst ` set (live (pos + (l + 4)) vs)"
      using live_bounds [of pos "tail (cq c)" us] live_bounds [of pos "pos + (l + 4)" vs] pos by auto
    then have "commit_entry pos d ys = live (tail (cq c)) us @ (pos, Some d) # live (pos + (l + 4)) vs"
      unfolding h by (rule commit_middle)
    then have "commit_entry pos d ys = live (tail (cq c)) (us @ Full d # vs)" using pos l by (simp add: live_append)
    moreover have t: "tail (cq c') = tail (cq c)" "head (cq c') = head (cq c)" "got c' = got c"
      using push by (simp_all add: queuePush_def Let_def)
    ultimately have "ring_rep c' (commit_entry pos d ys)" by (intro ring_repI [OF xs(2)]) simp
    then show ?thesis using t h by simp
  qed (use p in \<open>auto split: if_splits\<close>)
qed

lemma ring_silent:
  assumes rep: "ring_rep c ys" and st: "observed c Silent c'"
  shows "head (cq c') = head (cq c) \<and> (ring_rep c' ys \<and> got c' = got c
    \<or> (\<exists>k d zs. ys = (k, Some d) # zs \<and> ring_rep c' zs \<and> got c' = got c @ [d]))"
proof -
  from rep obtain xs where inv: "conc_inv c xs" and ys: "ys = live (tail (cq c)) xs" unfolding ring_rep_def by blast
  from st have q: "qstep c c'" and sl: "silent c c'" by (simp_all add: observed_def)
  show ?thesis
  proof (cases "got c' = got c \<and> cons c' = cons c \<and> head (cq c') = head (cq c) \<and> tail (cq c') = tail (cq c)
      \<and> (\<forall>p l pos. pc c' p = PReserved l pos \<longleftrightarrow> pc c p = PReserved l pos)")
    case True
    then have "conc_inv c' xs" using conc_quiet [OF inv q] by blast
    then show ?thesis using True ring_repI [of c' xs ys] ys by simp
  next
    case loud: False
    from q show ?thesis
    proof (cases rule: qstep.cases)
      case (cas_win p l t h')
      then show ?thesis using sl [unfolded silent_def, rule_format, of p l h'] by simp
    next
      case (push p l pos f)
      then show ?thesis using sl [unfolded silent_def, rule_format, of p l pos] by simp
    next
      case (reserve p l pos)
      from conc_reserve [OF inv reserve(2)] obtain us vs where
        xs: "xs = us @ Claimed p l # vs" "conc_inv c' (us @ Reserved p l # vs)" using reserve(1) by blast
      have "ring_rep c' ys" by (rule ring_repI [OF xs(2)]) (simp add: reserve xs ys store_reserved_def live_append)
      then show ?thesis using reserve by (simp add: store_reserved_def)
    next
      case (clear b lost f q')
      from conc_clear [OF inv clear(2,3)] obtain d zs where
        xs: "xs = Full d # zs" "mem_get (fst b) (snd b) (qbuf q') = d" "conc_inv c' (Dead (snd b) # zs)"
        using clear(1) by blast
      have l: "snd b = length d" using xs(2) by auto
      have t: "tail (cq c') = tail (cq c)" "head (cq c') = head (cq c)" "got c' = got c @ [d]"
        using clear queuePeek_0 [OF clear(3)] xs(2) by simp_all
      have "ring_rep c' (live (tail (cq c) + (length d + 4)) zs)"
        by (rule ring_repI [OF xs(3)]) (simp add: t l)
      then show ?thesis using t by (auto simp: ys xs(1))
    next
      case (peek_none lost f q')
      then show ?thesis using loud queuePeek_0 [OF peek_none(3)] by simp
    next
      case (advance n)
      from conc_advance [OF inv advance(2)] obtain zs where xs: "xs = Dead n # zs" "conc_inv c' zs" using advance(1) by blast
      have "ring_rep c' ys" by (rule ring_repI [OF xs(2)]) (simp add: ys advance xs(1))
      then show ?thesis by (simp add: advance)
    qed (use loud in \<open>auto simp: count_lost_def queue_put_def split: if_splits\<close>)
  qed
qed

interpretation ring: fifo_order observed got "\<lambda>c. head (cq c)" ring_rep
proof unfold_locales
  fix c xs c'
  assume a: "ring_rep c xs" "observed c Silent c'"
  show "head (cq c') = head (cq c) \<and> (\<exists>ds ys. xs = delivered ds @ ys \<and> ring_rep c' ys \<and> got c' = got c @ map snd ds)"
    using ring_silent [OF a] delivered_at_most_one [of "ring_rep c'" xs "got c'" "got c"] by blast
qed (use ring_claims ring_commits in blast)+

lemma ring_rep_init: "2128 \<le> n \<Longrightarrow> n < 2 ^ 31 \<Longrightarrow> ring_rep (conc_init n) []"
  using conc_inv_init [of n] by (intro ring_repI [of _ "[]"]) simp_all

lemma got_init [simp]: "got (conc_init n) = []"
  by (simp add: conc_init_def)

theorem delivered_in_order:
  assumes "hreach n c h" "2128 \<le> n" "n < 2 ^ 31"
  shows "length (got c) \<le> length h \<and> map snd (take (length (got c)) h) = map Some (got c) \<and> distinct (map fst h)"
  by (rule ring.in_order [OF assms(1) [unfolded hreach_def] ring_rep_init [OF assms(2,3)] got_init])

section \<open>Nothing gets stuck\<close>

lemma slots_idle:
  assumes "conc_inv c xs" "\<forall>p. pc c p = PIdle" "cons c = CIdle"
  shows "\<exists>ds. xs = map Full ds"
proof -
  have "\<exists>d. x = Full d" if x: "x \<in> set xs" for x
  proof -
    from x obtain us vs where "xs = us @ x # vs" by (meson split_list)
    then have "(tail (cq c) + extent us, x) \<in> set (layout (tail (cq c)) xs)" by (simp add: layout_append)
    then show ?thesis using assms x by (cases x) (auto simp: conc_inv_def threads_ok_def cons_ok_def)
  qed
  then have "\<forall>x \<in> set xs. x = Full (THE d. x = Full d)" by fastforce
  then have "map (\<lambda>x. Full (THE d. x = Full d)) xs = xs" by (simp add: map_idI)
  then have "xs = map Full (map (\<lambda>x. THE d. x = Full d) xs)" by (simp add: comp_def)
  then show ?thesis by blast
qed

theorem consumer_not_stuck:
  assumes h: "hreach n c h" "2128 \<le> n" "n < 2 ^ 31" and idle: "\<forall>p. pc c p = PIdle" "cons c = CIdle"
    and more: "length (got c) < length h"
  shows "fst (queuePeek 0 (cq c)) \<noteq> None"
proof -
  from ring.pending [OF h(1) [unfolded hreach_def] ring_rep_init [OF h(2,3)] got_init more] obtain k x ys xs where
    inv: "conc_inv c xs" and y: "(k, x) # ys = live (tail (cq c)) xs" unfolding ring_rep_def by blast
  from slots_idle [OF inv idle] obtain ds where xs: "xs = map Full ds" by blast
  with y obtain b bs where ds: "ds = b # bs" by (cases ds) auto
  have wf: "ring_wf (buffer_size (cq c)) (tail (cq c)) (head (cq c)) (map Full ds)"
    and mem: "ring_mem (buffer_size (cq c)) (tail (cq c)) (map Full ds) (qbuf (cq c))" using inv xs by (simp_all add: conc_inv_def)
  have sm: "slot_mem (qbuf (cq c)) (tail (cq c) mod buffer_size (cq c)) (Full b)" using mem ds by (simp add: ring_mem_def)
  have len: "0 < length b" "length b \<le> QUEUE_ENTRY_USER_SIZE" using wf ds by (auto simp: ring_wf_def)
  note r = slot_full_ready [OF sm len]
  have "tail (cq c) < head (cq c)" using wf ds by (simp add: ring_wf_def)
  then have "entry_ready (cq c) (tail (cq c))" using r len unfolding entry_ready_def by presburger
  then show ?thesis
    by (simp add: queuePeek_def Let_def peek_loop.simps [of 0] entry_ready_def entry_state_at_def entry_size_at_def entry_at_def)
qed

text \<open>The two steps of the consumer, clearing an entry and advancing the tail, are \<^verbatim>\<open>queueRelease\<close>.\<close>

lemma consumer_releases:
  assumes idle: "cons c = CIdle" and pk: "queuePeek 0 (cq c) = (Some b, lost, f, q)"
  defines "m \<equiv> c\<lparr>cons := CCleared (snd b), got := got c @ [mem_get (fst b) (snd b) (qbuf q)],
      cq := q\<lparr>qbuf := clear_bytes (fst b - QUEUE_ENTRY_HEADER_SIZE) (snd b + QUEUE_ENTRY_HEADER_SIZE) (qbuf q)\<rparr>\<rparr>"
  shows "qstep c m" "qstep m (m\<lparr>cons := CIdle, cq := queueRelease b q\<rparr>)"
proof -
  show "qstep c m" unfolding m_def by (rule qstep.clear [OF idle pk])
  have "qstep m (m\<lparr>cons := CIdle, cq := (cq m)\<lparr>tail := tail (cq m) + (snd b + QUEUE_ENTRY_HEADER_SIZE),
      cached_peek_index := 0, cached_peek_tail := 0\<rparr>\<rparr>)"
    by (rule qstep.advance) (simp add: m_def)
  then show "qstep m (m\<lparr>cons := CIdle, cq := queueRelease b q\<rparr>)"
    by (simp add: m_def queueRelease_def)
qed

theorem consumer_delivers:
  assumes h: "hreach n c h" "2128 \<le> n" "n < 2 ^ 31" and idle: "\<forall>p. pc c p = PIdle" "cons c = CIdle"
    and more: "length (got c) < length h"
  shows "\<exists>b lost f q c' d. queuePeek 0 (cq c) = (Some b, lost, f, q) \<and> qstep\<^sup>*\<^sup>* c c' \<and> cq c' = queueRelease b q
    \<and> got c' = got c @ [d] \<and> snd (h ! length (got c)) = Some d"
proof -
  from consumer_not_stuck [OF assms] obtain b lost f q where pk: "queuePeek 0 (cq c) = (Some b, lost, f, q)"
    by (metis option.exhaust prod.exhaust_sel)
  note st = consumer_releases [OF idle(2) pk]
  let ?d = "mem_get (fst b) (snd b) (qbuf q)"
  let ?m = "c\<lparr>cons := CCleared (snd b), got := got c @ [?d],
      cq := q\<lparr>qbuf := clear_bytes (fst b - QUEUE_ENTRY_HEADER_SIZE) (snd b + QUEUE_ENTRY_HEADER_SIZE) (qbuf q)\<rparr>\<rparr>"
  have "hreach n ?m h" by (rule h_silent [OF h(1) st(1)]) (simp add: silent_def)
  from delivered_in_order [OF this h(2,3)] have "map snd (take (Suc (length (got c))) h) = map Some (got c @ [?d])" by simp
  then have "snd (h ! length (got c)) = Some ?d" using more
    by (simp add: take_Suc_conv_app_nth)
  moreover have "qstep\<^sup>*\<^sup>* c (?m\<lparr>cons := CIdle, cq := queueRelease b q\<rparr>)"
    using st by (meson r_into_rtranclp rtranclp.rtrancl_into_rtrancl)
  ultimately show ?thesis using pk
    by (intro exI [of _ b] exI [of _ lost] exI [of _ f] exI [of _ q]
        exI [of _ "?m\<lparr>cons := CIdle, cq := queueRelease b q\<rparr>"] exI [of _ ?d]) simp
qed

end
