(* ===== verification/Queue32_Segs.thy ===== *)
theory Queue32_Segs
  imports Queue32_Dto Queue_Order
begin

text \<open>
  The segments of the mutex based queue while several producers are busy: a segment holds committed messages, and
  messages whose producer has the room but has not committed yet. The abstraction is the list of segments, oldest first, each the list of its
  messages; a message has a number, its place in the order of the reservations.
\<close>

section \<open>Places of messages\<close>

text \<open>Segment index, offset of the packet, number, message.\<close>

type_synonym placed = "nat \<times> nat \<times> nat \<times> slot"

fun seg_places :: "nat \<Rightarrow> nat \<Rightarrow> nat \<Rightarrow> slot list \<Rightarrow> placed list" where
  "seg_places i off b [] = []"
| "seg_places i off b (x # xs) = (i, off, b, x) # seg_places i (off + (slot_len x + 4)) (b + 1) xs"

fun all_places :: "(nat \<Rightarrow> nat) \<Rightarrow> nat \<Rightarrow> nat \<Rightarrow> slot list list \<Rightarrow> placed list" where
  "all_places ix j b [] = []"
| "all_places ix j b (xs # segs) = seg_places (ix j) 4 b xs @ all_places ix (j + 1) (b + length xs) segs"

lemma seg_places_append:
  "seg_places i off b (us @ vs) = seg_places i off b us @ seg_places i (off + extent us) (b + length us) vs"
  by (induction us arbitrary: off b) (simp_all add: algebra_simps)

lemma all_places_append:
  "all_places ix j b (A @ B) = all_places ix j b A @ all_places ix (j + length A) (b + length (concat A)) B"
  by (induction A arbitrary: j b) (simp_all add: algebra_simps)

lemma seg_places_keys: "(i', off', k, x) \<in> set (seg_places i off b xs) \<Longrightarrow> b \<le> k \<and> k < b + length xs"
  by (induction xs arbitrary: off b) fastforce+

lemma all_places_keys: "(i', off', k, x) \<in> set (all_places ix j b segs) \<Longrightarrow> b \<le> k \<and> k < b + length (concat segs)"
proof (induction ix j b segs rule: all_places.induct)
  case (2 ix j b xs segs)
  then show ?case using seg_places_keys [of i' off' k x "ix j" 4 b xs] by auto
qed simp

lemma seg_places_split:
  assumes "(i', off', k, x) \<in> set (seg_places i off b xs)"
  shows "\<exists>us vs. xs = us @ x # vs \<and> i' = i \<and> off' = off + extent us \<and> k = b + length us"
  using assms
proof (induction xs arbitrary: off b)
  case (Cons y ys)
  show ?case
  proof (cases "(i', off', k, x) = (i, off, b, y)")
    case True
    then show ?thesis by (intro exI [of _ "[]"] exI [of _ ys]) simp
  next
    case False
    then have "(i', off', k, x) \<in> set (seg_places i (off + (slot_len y + 4)) (b + 1) ys)" using Cons.prems by auto
    from Cons.IH [OF this] obtain us vs where "ys = us @ x # vs" "i' = i" "off' = off + (slot_len y + 4) + extent us"
      "k = b + 1 + length us" by blast
    then show ?thesis by (intro exI [of _ "y # us"] exI [of _ vs]) simp
  qed
qed simp

lemma all_places_split:
  assumes "(i, off, k, x) \<in> set (all_places ix j b segs)"
  shows "\<exists>A us vs B. segs = A @ (us @ x # vs) # B \<and> i = ix (j + length A) \<and> off = 4 + extent us
    \<and> k = b + length (concat A) + length us"
  using assms
proof (induction ix j b segs rule: all_places.induct)
  case (2 ix j b xs segs)
  show ?case
  proof (cases "(i, off, k, x) \<in> set (seg_places (ix j) 4 b xs)")
    case True
    from seg_places_split [OF this] show ?thesis by (metis append_Nil concat.simps(1) list.size(3) add_0_right)
  next
    case False
    then have "(i, off, k, x) \<in> set (all_places ix (j + 1) (b + length xs) segs)" using "2.prems" by simp
    from "2.IH" [OF this] obtain A us vs B where "segs = A @ (us @ x # vs) # B" "i = ix (j + 1 + length A)"
      "off = 4 + extent us" "k = b + length xs + length (concat A) + length us" by blast
    then show ?thesis by (intro exI [of _ "xs # A"] exI [of _ us] exI [of _ vs] exI [of _ B]) simp
  qed
qed simp

lemma all_places_at: "(ix (j + length A), 4 + extent us, b + length (concat A) + length us, x)
    \<in> set (all_places ix j b (A @ (us @ x # vs) # B))"
  by (simp add: all_places_append seg_places_append)

text \<open>Replacing a message by one of the same length.\<close>

lemma all_places_replace:
  assumes "slot_len y = slot_len x"
  shows "(i, off, k, z) \<in> set (all_places ix j b (A @ (us @ y # vs) # B)) \<longleftrightarrow>
    (if k = b + length (concat A) + length us then (i, off, z) = (ix (j + length A), 4 + extent us, y)
     else (i, off, k, z) \<in> set (all_places ix j b (A @ (us @ x # vs) # B)))"
proof -
  let ?k = "b + length (concat A) + length us"
  have "k < ?k" if "(i, off, k, z) \<in> set (all_places ix j b A)" using all_places_keys [OF that] by linarith
  moreover have "k < ?k" if "(i, off, k, z) \<in> set (seg_places (ix (j + length A)) 4 (b + length (concat A)) us)"
    using seg_places_keys [OF that] by linarith
  moreover have "?k < k" if "(i, off, k, z) \<in> set (seg_places (ix (j + length A)) off' (?k + 1) vs)" for off'
    using seg_places_keys [OF that] by linarith
  moreover have "?k < k" if "(i, off, k, z) \<in> set (all_places ix j' (?k + 1 + length vs) B)" for j'
    using all_places_keys [OF that] by linarith
  ultimately show ?thesis
    using assms by (auto simp: all_places_append seg_places_append algebra_simps)
qed

section \<open>Invariant\<close>

text \<open>Who owns an uncommitted message: \<open>Opening\<close> has the room, \<open>Holds\<close> has also stored the header. Segment index, offset
  of the packet, length, number.\<close>

datatype holder = Idle32 | Opening nat nat nat nat | Holds nat nat nat nat

fun open_slots :: "slot list \<Rightarrow> nat" where
  "open_slots [] = 0"
| "open_slots (Full d # xs) = open_slots xs"
| "open_slots (x # xs) = open_slots xs + 1"

lemma open_slots_append [simp]: "open_slots (us @ vs) = open_slots us + open_slots vs"
  by (induction us rule: open_slots.induct) simp_all

text \<open>The counter of a message in a segment is not looked at before the consumer sets it.\<close>

fun msg_at :: "bytes \<Rightarrow> nat \<Rightarrow> slot \<Rightarrow> bool" where
  "msg_at m off (Claimed p l) \<longleftrightarrow> 0 < l \<and> l \<le> XCPTL_MAX_DTO_SIZE"
| "msg_at m off (Reserved p l) \<longleftrightarrow> 0 < l \<and> l \<le> XCPTL_MAX_DTO_SIZE \<and> rd16 m off = l"
| "msg_at m off (Full d) \<longleftrightarrow> 0 < length d \<and> length d \<le> XCPTL_MAX_DTO_SIZE \<and> rd16 m off = length d \<and> mem_get (off + 4) (length d) m = d"
| "msg_at m off (Dead l) \<longleftrightarrow> False"

definition seg_holds :: "segment \<Rightarrow> slot list \<Rightarrow> bool" where
  "seg_holds g xs \<longleftrightarrow> seg_size g = extent xs \<and> extent xs \<le> XCPTL_MAX_SEGMENT_SIZE \<and> uncommitted g = open_slots xs
     \<and> (\<forall>off x. (off, x) \<in> set (layout 0 xs) \<longrightarrow> msg_at (msg_buffer g) off x)"

text \<open>Only the last segment can be empty, and only while messages go into it.\<close>

definition segs_ok :: "queue32 \<Rightarrow> slot list list \<Rightarrow> bool" where
  "segs_ok q segs \<longleftrightarrow> queue_rp q < queue_size q \<and> queue_len q \<le> queue_size q \<and> length segs = queue_len q
     \<and> (\<forall>i. msg_ptr q = Some i \<longrightarrow> 0 < queue_len q \<and> i = seg_index q (queue_len q - 1))
     \<and> [] \<notin> set (butlast segs) \<and> (msg_ptr q = None \<longrightarrow> [] \<notin> set segs)
     \<and> (\<forall>j < queue_len q. seg_holds (queue q (seg_index q j)) (segs ! j))"

definition holders_ok :: "(nat \<Rightarrow> nat) \<Rightarrow> (nat \<Rightarrow> holder) \<Rightarrow> nat \<Rightarrow> slot list list \<Rightarrow> bool" where
  "holders_ok ix f b segs \<longleftrightarrow> (\<forall>p i off l k.
      (f p = Opening i off l k \<longleftrightarrow> (i, off, k, Claimed p l) \<in> set (all_places ix 0 b segs))
    \<and> (f p = Holds i off l k \<longleftrightarrow> (i, off, k, Reserved p l) \<in> set (all_places ix 0 b segs)))"

lemma msg_at_cong:
  assumes "msg_at m off x" "m' off = m off" "m' (off + 1) = m (off + 1)"
    and "\<And>a. off + 4 \<le> a \<Longrightarrow> a < off + 4 + slot_len x \<Longrightarrow> m' a = m a"
  shows "msg_at m' off x"
proof -
  have r: "rd16 m' off = rd16 m off" using assms(2,3) by (simp add: rd16_def)
  have "mem_get (off + 4) (slot_len x) m' = mem_get (off + 4) (slot_len x) m" by (rule mem_get_cong) (use assms(4) in simp)
  then show ?thesis using assms(1) r by (cases x) simp_all
qed

lemma layout_at_slots: "x \<in> set xs \<Longrightarrow> \<exists>off. (off, x) \<in> set (layout t xs)"
  by (induction xs arbitrary: t) auto

lemma seg_holds_slot: "seg_holds g xs \<Longrightarrow> x \<in> set xs \<Longrightarrow> \<exists>off. msg_at (msg_buffer g) off x"
  using layout_at_slots [of x xs 0] by (auto simp: seg_holds_def)

lemma seg_holds_at:
  assumes "seg_holds g (us @ x # vs)"
  shows "msg_at (msg_buffer g) (extent us) x"
proof -
  have "(extent us, x) \<in> set (layout 0 (us @ x # vs))" using layout_at [of 0 us x x vs] by simp
  then show ?thesis using assms unfolding seg_holds_def by blast
qed

lemma open_slots_full: "open_slots xs = 0 \<Longrightarrow> x \<in> set xs \<Longrightarrow> \<exists>d. x = Full d"
  by (induction xs rule: open_slots.induct) auto

lemma all_full: "open_slots xs = 0 \<Longrightarrow> \<exists>ds. xs = map Full ds"
proof (induction xs rule: open_slots.induct)
  case (2 d xs)
  then obtain ds where "xs = map Full ds" by auto
  then show ?case by (intro exI [of _ "d # ds"]) simp
qed simp_all

lemma open_slots_none: "open_slots (map Full ds) = 0"
  by (induction ds) simp_all

text \<open>A change of one message of a segment.\<close>

lemma seg_holds_update:
  assumes g: "seg_holds g (us @ x # vs)" and len: "slot_len y = slot_len x"
    and size: "seg_size g' = seg_size g" and unc: "uncommitted g' = open_slots (us @ y # vs)"
    and mem: "\<And>a. a < extent us \<or> extent us + (slot_len x + 4) \<le> a \<Longrightarrow> msg_buffer g' a = msg_buffer g a"
    and new: "msg_at (msg_buffer g') (extent us) y"
  shows "seg_holds g' (us @ y # vs)"
proof -
  have "msg_at (msg_buffer g') off z" if z: "(off, z) \<in> set (layout 0 (us @ y # vs))" for off z
  proof (cases "off = extent us")
    case True
    then have "z = y" using z layout_at [of 0 us z y vs] by simp
    then show ?thesis using new True by simp
  next
    case False
    then have zx: "(off, z) \<in> set (layout 0 (us @ x # vs))" using z layout_replace [OF len, of off z 0 us vs] by simp
    then have old: "msg_at (msg_buffer g) off z" using g by (simp add: seg_holds_def)
    have "off + slot_len z + 4 \<le> extent us \<or> extent us + (slot_len x + 4) \<le> off"
    proof -
      from zx False have "(off, z) \<in> set (layout 0 us) \<or> (off, z) \<in> set (layout (extent us + (slot_len x + 4)) vs)"
        by (auto simp: layout_append)
      then show ?thesis using layout_bounds [of off z 0 us] layout_bounds [of off z "extent us + (slot_len x + 4)" vs] by auto
    qed
    then show ?thesis by (intro msg_at_cong [OF old] mem) auto
  qed
  then show ?thesis using g len size unc by (simp add: seg_holds_def)
qed

lemma seg_holds_snoc:
  assumes g: "seg_holds g xs" and l: "0 < l" "l \<le> XCPTL_MAX_DTO_SIZE" and room: "extent xs + (l + 4) \<le> XCPTL_MAX_SEGMENT_SIZE"
  shows "seg_holds (g\<lparr>seg_size := seg_size g + (l + 4), uncommitted := uncommitted g + 1\<rparr>) (xs @ [Claimed p l])"
  using assms by (auto simp: seg_holds_def layout_append)

text \<open>Changing one segment, the others stay.\<close>

lemma segs_ok_at:
  assumes "segs_ok q (A @ xs # B)"
  shows "length A < queue_len q" "queue_len q \<le> queue_size q" "queue_rp q < queue_size q"
    "seg_holds (queue q (seg_index q (length A))) xs"
proof -
  show "length A < queue_len q" "queue_len q \<le> queue_size q" "queue_rp q < queue_size q" using assms by (auto simp: segs_ok_def)
  moreover have "\<forall>j < queue_len q. seg_holds (queue q (seg_index q j)) ((A @ xs # B) ! j)" using assms by (simp add: segs_ok_def)
  ultimately have "seg_holds (queue q (seg_index q (length A))) ((A @ xs # B) ! length A)" by blast
  then show "seg_holds (queue q (seg_index q (length A))) xs" by simp
qed

lemma segs_ok_update:
  assumes ok: "segs_ok q (A @ xs # B)" and g: "seg_holds (f (queue q (seg_index q (length A)))) ys" and ne: "ys \<noteq> []"
  shows "segs_ok (upd_segment (seg_index q (length A)) f q) (A @ ys # B)"
proof -
  note len = segs_ok_at [OF ok]
  let ?t = "upd_segment (seg_index q (length A)) f q"
  have "seg_holds (queue ?t (seg_index q j)) ((A @ ys # B) ! j)" if j: "j < queue_len q" for j
  proof (cases "j = length A")
    case True
    then show ?thesis using g by simp
  next
    case False
    then have "seg_index q j \<noteq> seg_index q (length A)" using len(1-3) j seg_index_inj [of q j "length A"] by auto
    moreover have "(A @ ys # B) ! j = (A @ xs # B) ! j" using False by (simp add: nth_append nth_Cons split: nat.split)
    ultimately show ?thesis using ok j by (simp add: segs_ok_def)
  qed
  moreover have "[] \<notin> set (butlast (A @ ys # B))" "msg_ptr q = None \<longrightarrow> [] \<notin> set (A @ ys # B)"
    using ok ne by (auto simp: segs_ok_def butlast_append split: if_splits)
  ultimately show ?thesis using ok by (simp add: segs_ok_def)
qed

text \<open>Opening a segment adds an empty one at the end, when there is room.\<close>

lemma newSegment_segs:
  assumes ok: "segs_ok q segs" and ne: "[] \<notin> set segs"
  shows "\<exists>segs'. segs_ok (newSegmentBuffer q) segs' \<and> (segs' = segs \<or> segs' = segs @ [[]])
    \<and> seg_index (newSegmentBuffer q) = seg_index q \<and> (msg_ptr (newSegmentBuffer q) \<noteq> None \<or> queue_len q < queue_size q \<longrightarrow> segs' = segs @ [[]])"
proof (cases "queue_size q \<le> queue_len q")
  case True
  have "seg_index (q\<lparr>msg_ptr := None\<rparr>) = seg_index q" by (intro ext) (simp add: seg_index_def Let_def)
  then show ?thesis using ok ne True by (intro exI [of _ segs]) (simp add: newSegmentBuffer_def segs_ok_def)
next
  case False
  let ?i = "seg_index q (queue_len q)"
  let ?t = "newSegmentBuffer q"
  have t: "?t = (upd_segment ?i (\<lambda>b. b\<lparr>seg_size := 0, uncommitted := 0\<rparr>) q)\<lparr>msg_ptr := Some ?i, queue_len := queue_len q + 1\<rparr>"
    using False by (simp add: newSegmentBuffer_def Let_def)
  have ix: "seg_index ?t = seg_index q" by (intro ext) (simp add: t seg_index_def Let_def)
  have "seg_holds (queue ?t (seg_index q j)) ((segs @ [[]]) ! j)" if j: "j < queue_len q + 1" for j
  proof (cases "j = queue_len q")
    case True
    then show ?thesis using ok by (simp add: t segs_ok_def seg_holds_def nth_append)
  next
    case neq: False
    then have "seg_index q j \<noteq> ?i" using ok False j seg_index_inj [of q j "queue_len q"] by (auto simp: segs_ok_def)
    then show ?thesis using ok j neq by (simp add: t segs_ok_def nth_append)
  qed
  then have "segs_ok ?t (segs @ [[]])" using ok False ne unfolding segs_ok_def ix by (simp add: t butlast_append)
  then show ?thesis using ix by blast
qed

lemma holders_new: "holders_ok ix f b segs \<Longrightarrow> segs' = segs \<or> segs' = segs @ [[]] \<Longrightarrow>
    holders_ok ix f b segs' \<and> concat segs' = concat segs"
  by (auto simp: holders_ok_def all_places_append)

section \<open>Owners\<close>

lemma holders_claim:
  assumes h: "holders_ok ix f b (A @ [xs])" and p: "f p = Idle32"
  shows "holders_ok ix (f(p := Opening (ix (length A)) (4 + extent xs) l (b + length (concat (A @ [xs]))))) b
    (A @ [xs @ [Claimed p l]])"
proof -
  have 1: "\<And>q i off m k. f q = Opening i off m k \<longleftrightarrow> (i, off, k, Claimed q m) \<in> set (all_places ix 0 b (A @ [xs]))"
    and 2: "\<And>q i off m k. f q = Holds i off m k \<longleftrightarrow> (i, off, k, Reserved q m) \<in> set (all_places ix 0 b (A @ [xs]))"
    using h by (simp_all add: holders_ok_def)
  have "(i, off, k, Claimed p m) \<notin> set (all_places ix 0 b (A @ [xs]))" "(i, off, k, Reserved p m) \<notin> set (all_places ix 0 b (A @ [xs]))"
    for i off k m using p 1 [of p] 2 [of p] by simp_all
  then show ?thesis using 1 2 unfolding holders_ok_def by (auto simp: all_places_append seg_places_append)
qed

lemma holders_update:
  assumes h: "holders_ok ix f b (A @ (us @ x # vs) # B)" and x: "x = Claimed p l \<or> x = Reserved p l"
    and y: "(y = Reserved p l \<and> st = Holds (ix (length A)) (4 + extent us) l (b + length (concat A) + length us))
      \<or> (y = Full d \<and> length d = l \<and> st = Idle32)"
  shows "holders_ok ix (f(p := st)) b (A @ (us @ y # vs) # B)"
proof -
  let ?S = "A @ (us @ x # vs) # B" and ?k = "b + length (concat A) + length us"
  have len: "slot_len y = slot_len x" using x y by auto
  note rep = all_places_replace [OF len, of _ _ _ _ ix 0 b A us vs B]
  have 1: "\<And>q i off m k. f q = Opening i off m k \<longleftrightarrow> (i, off, k, Claimed q m) \<in> set (all_places ix 0 b ?S)"
    and 2: "\<And>q i off m k. f q = Holds i off m k \<longleftrightarrow> (i, off, k, Reserved q m) \<in> set (all_places ix 0 b ?S)"
    using h by (simp_all add: holders_ok_def)
  have at: "(ix (length A), 4 + extent us, ?k, x) \<in> set (all_places ix 0 b ?S)"
    using all_places_at [of ix 0 A us b x vs B] by simp
  have me: "f p = Opening (ix (length A)) (4 + extent us) l ?k \<and> x = Claimed p l
      \<or> f p = Holds (ix (length A)) (4 + extent us) l ?k \<and> x = Reserved p l" using at x 1 2 by auto
  have only: "k = ?k \<Longrightarrow> (i, off, k, z) \<in> set (all_places ix 0 b ?S) \<Longrightarrow> z = x" for i off k z
    using all_places_replace [OF refl, of i off k z ix 0 b A us x vs B] by simp
  have c: "(i, off, k, Claimed q m) \<in> set (all_places ix 0 b (A @ (us @ y # vs) # B)) \<longleftrightarrow> q \<noteq> p \<and> f q = Opening i off m k"
    for i off k q m using me y 1 [of q i off m k] 1 [of p i off m k] only [of k i off "Claimed q m"] unfolding rep by auto
  have r: "(i, off, k, Reserved q m) \<in> set (all_places ix 0 b (A @ (us @ y # vs) # B)) \<longleftrightarrow> (f(p := st)) q = Holds i off m k"
    for i off k q m using me y 2 [of q i off m k] 2 [of p i off m k] only [of k i off "Reserved q m"] unfolding rep by auto
  show ?thesis using y unfolding holders_ok_def c r by auto
qed

lemma holders_place:
  assumes "holders_ok ix f b segs" and "f p = Opening i off l k \<and> x = Claimed p l \<or> f p = Holds i off l k \<and> x = Reserved p l"
  obtains A us vs B where "segs = A @ (us @ x # vs) # B" "i = ix (length A)" "off = 4 + extent us"
    "k = b + length (concat A) + length us"
proof -
  have "(i, off, k, x) \<in> set (all_places ix 0 b segs)" using assms by (auto simp: holders_ok_def)
  from all_places_split [OF this] that show ?thesis by fastforce
qed

text \<open>The oldest segment goes, when all its messages are committed.\<close>

lemma all_places_shift: "all_places ix (Suc j) b segs = all_places (\<lambda>n. ix (Suc n)) j b segs"
  by (induction segs arbitrary: j b) simp_all

lemma seg_places_full: "(i, off, k, x) \<in> set (seg_places j o' b (map Full ds)) \<Longrightarrow> \<exists>d. x = Full d"
  by (induction ds arbitrary: o' b) auto

lemma holders_release:
  assumes "holders_ok ix f b (map Full ds # segs)"
  shows "holders_ok (\<lambda>n. ix (Suc n)) f (b + length ds) segs"
  using assms unfolding holders_ok_def by (auto simp: all_places_shift dest: seg_places_full)

lemma all_places_cong: "(\<And>n. j \<le> n \<Longrightarrow> n < j + length segs \<Longrightarrow> ix n = iy n) \<Longrightarrow> all_places ix j b segs = all_places iy j b segs"
  by (induction segs arbitrary: j b) auto

lemma release_index:
  assumes "queue_rp q < queue_size q" "j < queue_size q"
  shows "seg_index (queueRelease32 q) j = seg_index q (Suc j)"
  using assms by (auto simp: seg_index_def queueRelease32_def Let_def)

lemma release_segs:
  assumes ok: "segs_ok q (xs # segs)" and more: "segs \<noteq> []"
  shows "segs_ok (queueRelease32 q) segs"
proof -
  let ?t = "queueRelease32 q"
  have rp: "queue_rp q < queue_size q" and len: "queue_len q = Suc (length segs)" "length segs < queue_size q"
    using ok by (auto simp: segs_ok_def)
  have ix: "seg_index ?t j = seg_index q (Suc j)" if "j < queue_size q" for j by (rule release_index [OF rp that])
  have f: "queue ?t = queue q" "queue_len ?t = length segs" "queue_size ?t = queue_size q" "msg_ptr ?t = msg_ptr q"
    "queue_rp ?t < queue_size q" using rp len by (simp_all add: queueRelease32_def)
  have "seg_holds (queue q (seg_index ?t j)) (segs ! j)" if "j < length segs" for j
    using ok that len by (auto simp: segs_ok_def ix)
  moreover have "Suc (length segs - 1) = length segs" using more by simp
  then have "msg_ptr q = Some i \<longrightarrow> i = seg_index ?t (length segs - 1)" for i
    using ok len ix [of "length segs - 1"] by (auto simp: segs_ok_def)
  ultimately show ?thesis using ok more len f(5) unfolding segs_ok_def f by auto
qed

lemma holders_released:
  assumes h: "holders_ok (seg_index q) f b (map Full ds # segs)" and ok: "segs_ok q (map Full ds # segs)"
  shows "holders_ok (seg_index (queueRelease32 q)) f (b + length ds) segs"
proof -
  have "queue_rp q < queue_size q" "length segs < queue_size q" using ok by (auto simp: segs_ok_def)
  then have "all_places (seg_index (queueRelease32 q)) 0 (b + length ds) segs = all_places (\<lambda>n. seg_index q (Suc n)) 0 (b + length ds) segs"
    by (intro all_places_cong release_index) simp_all
  then show ?thesis using holders_release [OF h] by (simp add: holders_ok_def)
qed

end
