(* ===== verification/Queue32m.thy ===== *)
theory Queue32m
  imports Queue32
begin

text \<open>
  The segment queue as its threads see it. \<^verbatim>\<open>src/src/queue32m.c\<close>, the variant for real-time operating systems,
  is the queue of \<^verbatim>\<open>src/src/queue32.c\<close> with static memory and shorter critical sections: a producer stores the
  header of its message only after it has left the critical section. In both files the consumer numbers the messages of a segment
  outside of it. Newly named here are the critical sections; the rest is shared with \<open>Queue32\<close>.
\<close>

section \<open>Initialisation\<close>

text \<open>The memory of the segments is static, its size is the configuration constant \<^verbatim>\<open>OPTION_QUEUE_32_SIZE\<close>.\<close>

definition queueInit32m :: "nat \<Rightarrow> queue32" where
  "queueInit32m option_queue_32_size = newSegmentBuffer
     \<lparr>queue_buffer_size = option_queue_32_size, queue_size = option_queue_32_size div SIZEOF_SEGMENT,
      queue = (\<lambda>_. \<lparr>uncommitted = 0, seg_size = 0, msg_buffer = (\<lambda>_. 0)\<rparr>),
      queue_rp = 0, queue_len = 0, msg_ptr = None, packets_lost32 = 0\<rparr>"

section \<open>Producer\<close>

definition claim_message :: "nat \<Rightarrow> nat \<Rightarrow> queue32 \<Rightarrow> queue32" where
  "claim_message i msg_size = upd_segment i
     (\<lambda>b. b\<lparr>seg_size := (seg_size b + msg_size) mod 65536, uncommitted := (uncommitted b + 1) mod 65536\<rparr>)"

definition store_message_header :: "nat \<times> nat \<times> nat \<Rightarrow> queue32 \<Rightarrow> queue32" where
  "store_message_header b q = (case b of (i, off, sz) \<Rightarrow>
     upd_segment i (\<lambda>g. g\<lparr>msg_buffer := wr16 (wr16 (msg_buffer g) (off - 4 + 2) MSG_RESERVED) (off - 4) sz\<rparr>) q)"

text \<open>What \<^verbatim>\<open>queueAcquire\<close> does in its critical section.\<close>

definition acquire_locked :: "nat \<Rightarrow> queue32 \<Rightarrow> (nat \<times> nat \<times> nat) option \<times> queue32" where
  "acquire_locked packet_size0 q =
     (if \<not> (0 < packet_size0 \<and> packet_size0 \<le> XCPTL_MAX_DTO_SIZE) then (None, q)
      else let packet_size = align_up 4 packet_size0; msg_size = packet_size + 4;
               q1 = (if msg_room q msg_size then q else newSegmentBuffer q)
        in (case msg_ptr q1 of
              None \<Rightarrow> (None, q1\<lparr>packets_lost32 := (packets_lost32 q1 + 1) mod 2 ^ 32\<rparr>)
            | Some i \<Rightarrow> (Some (i, seg_size (queue q1 i) + 4, packet_size), claim_message i msg_size q1)))"

definition queueAcquire32m :: "nat \<Rightarrow> queue32 \<Rightarrow> (nat \<times> nat \<times> nat) option \<times> queue32" where
  "queueAcquire32m n q = (case acquire_locked n q of (None, q1) \<Rightarrow> (None, q1) | (Some b, q1) \<Rightarrow> (Some b, store_message_header b q1))"

text \<open>The two files agree on what an acquire does when no other thread runs.\<close>

lemma segment_fields: "(g :: segment)\<lparr>seg_size := n, uncommitted := u, msg_buffer := m\<rparr> = g\<lparr>msg_buffer := m, seg_size := n, uncommitted := u\<rparr>"
  by simp

lemma queueAcquire32m_same: "queueAcquire32m = queueAcquire32"
  by (intro ext) (auto simp: queueAcquire32m_def queueAcquire32_def acquire_locked_def Let_def claim_message_def
    store_message_header_def upd_segment_def segment_fields split: option.splits)

section \<open>Consumer\<close>

text \<open>The critical section of \<^verbatim>\<open>queuePop\<close>.\<close>

definition pick_segment :: "bool \<Rightarrow> queue32 \<Rightarrow> (nat \<times> nat) option \<times> queue32" where
  "pick_segment flush q =
     (let i = queue_rp q in
      if queue_len q = 0 then (None, q)
      else let q1 = (if queue_len q = 1 \<and> 0 < seg_size (queue q i) \<and> flush then newSegmentBuffer q else q)
        in if 1 < queue_len q1 \<and> uncommitted (queue q1 i) = 0 \<and> 0 < seg_size (queue q1 i)
           then (Some (i, seg_size (queue q1 i)), q1) else (None, q1))"

definition number_segment :: "nat \<times> nat \<Rightarrow> nat \<Rightarrow> queue32 \<Rightarrow> queue32 \<times> nat" where
  "number_segment b ctr q = (case b of (i, sz) \<Rightarrow>
     (let (m, ctr') = number_messages 0 sz ctr (msg_buffer (queue q i))
      in (upd_segment i (\<lambda>g. g\<lparr>msg_buffer := m\<rparr>) q, ctr')))"

lemma queuePop32_split: "queuePop32 flush ctr q =
    (case pick_segment flush (q\<lparr>packets_lost32 := 0\<rparr>) of
       (None, q1) \<Rightarrow> (None, packets_lost32 q, ctr, q1)
     | (Some b, q1) \<Rightarrow> (case number_segment b ctr q1 of (q2, ctr') \<Rightarrow> (Some b, packets_lost32 q, ctr', q2)))"
  by (simp add: queuePop32_def pick_segment_def number_segment_def Let_def split_def)

end
