(* ===== verification/Queue32_Conc.thy ===== *)
theory Queue32_Conc
  imports Queue32_Segs Queue32m
begin

text \<open>
  The segment queue with many producers and one consumer: the critical sections of \<^verbatim>\<open>src/src/queue32.c\<close> and
  \<^verbatim>\<open>src/src/queue32m.c\<close> and what threads do between them, in any order. A producer fills its buffer between
  \<^verbatim>\<open>queueAcquire\<close> and \<^verbatim>\<open>queuePush\<close>; the consumer numbers the messages of the segment that it has picked and
  releases it after sending. The flag of the relation tells the two files apart: when it is set, the header of a message
  is stored in a step of its own, as in \<^verbatim>\<open>queue32m.c\<close>.
\<close>

section \<open>Steps\<close>

text \<open>\<open>Picked\<close>: the consumer has chosen a segment, index and size; \<open>Popped\<close>: its messages are numbered.\<close>

datatype reader32 = Waiting | Picked nat nat | Popped nat nat

record conf32 =
  mq :: queue32
  mpc :: "nat \<Rightarrow> holder"
  mcons :: reader32
  mgot :: "u8 list list"
  mnext :: nat

inductive mutex_step :: "bool \<Rightarrow> conf32 \<Rightarrow> conf32 \<Rightarrow> bool" for late where
  m_acquire: "mpc c p = Idle32 \<Longrightarrow> (if late then acquire_locked n (mq c) else queueAcquire32 n (mq c)) = (Some (i, off, l), q) \<Longrightarrow>
    mutex_step late c (c\<lparr>mpc := (mpc c)(p := if late then Opening i off l (mnext c) else Holds i off l (mnext c)),
      mq := q, mnext := mnext c + 1\<rparr>)"
| m_refused: "mpc c p = Idle32 \<Longrightarrow> (if late then acquire_locked n (mq c) else queueAcquire32 n (mq c)) = (None, q) \<Longrightarrow>
    mutex_step late c (c\<lparr>mq := q\<rparr>)"
| m_header: "mpc c p = Opening i off l k \<Longrightarrow>
    mutex_step late c (c\<lparr>mpc := (mpc c)(p := Holds i off l k), mq := store_message_header (i, off, l) (mq c)\<rparr>)"
| m_put: "mpc c p = Holds i off l k \<Longrightarrow> j + length xs \<le> l \<Longrightarrow>
    mutex_step late c (c\<lparr>mq := queue_put32 (i, off + j, 0) xs (mq c)\<rparr>)"
| m_push: "mpc c p = Holds i off l k \<Longrightarrow>
    mutex_step late c (c\<lparr>mpc := (mpc c)(p := Idle32), mq := queuePush32 (i, off, l) f (mq c)\<rparr>)"
| m_lost: "mcons c = Waiting \<Longrightarrow> mutex_step late c (c\<lparr>mq := (mq c)\<lparr>packets_lost32 := 0\<rparr>\<rparr>)"
| m_pick: "mcons c = Waiting \<Longrightarrow> pick_segment f (mq c) = (Some (i, sz), q) \<Longrightarrow>
    mutex_step late c (c\<lparr>mcons := Picked i sz, mq := q\<rparr>)"
| m_pick_none: "mcons c = Waiting \<Longrightarrow> pick_segment f (mq c) = (None, q) \<Longrightarrow> mutex_step late c (c\<lparr>mq := q\<rparr>)"
| m_number: "mcons c = Picked i sz \<Longrightarrow>
    mutex_step late c (c\<lparr>mcons := Popped i sz, mq := fst (number_segment (i, sz) ctr (mq c))\<rparr>)"
| m_release: "mcons c = Popped i sz \<Longrightarrow>
    mutex_step late c (c\<lparr>mcons := Waiting, mgot := mgot c @ the (messages (msg_buffer (queue (mq c) i)) 0 sz),
      mq := queueRelease32 (mq c)\<rparr>)"

inductive_cases mutex_stepE: "mutex_step late c c'"

definition mutex_init :: "queue32 \<Rightarrow> conf32" where
  "mutex_init q = \<lparr>mq = q, mpc = (\<lambda>_. Idle32), mcons = Waiting, mgot = [], mnext = 0\<rparr>"

section \<open>Invariant\<close>

definition picked :: "queue32 \<Rightarrow> slot list list \<Rightarrow> nat \<Rightarrow> nat \<Rightarrow> bool" where
  "picked q segs i sz \<longleftrightarrow> i = seg_index q 0 \<and> (\<exists>ds B. segs = map Full ds # B \<and> B \<noteq> [] \<and> sz = extent (map Full ds))"

definition reader_at :: "queue32 \<Rightarrow> slot list list \<Rightarrow> reader32 \<Rightarrow> bool" where
  "reader_at q segs r \<longleftrightarrow> (case r of Waiting \<Rightarrow> True | Picked i sz \<Rightarrow> picked q segs i sz | Popped i sz \<Rightarrow> picked q segs i sz)"

definition minv :: "conf32 \<Rightarrow> nat \<Rightarrow> slot list list \<Rightarrow> bool" where
  "minv c b segs \<longleftrightarrow> segs_ok (mq c) segs \<and> holders_ok (seg_index (mq c)) (mpc c) b segs \<and> mnext c = b + length (concat segs)
     \<and> reader_at (mq c) segs (mcons c)"

lemma reader_grow:
  assumes "reader_at q segs r" "segs' = segs \<or> segs' = segs @ [[]]" "seg_index q' = seg_index q"
  shows "reader_at q' segs' r"
  using assms unfolding reader_at_def picked_def by (auto split: reader32.splits)

lemma reader_change:
  assumes "reader_at q (A @ xs # B) r" "seg_index q' = seg_index q" "B = [] \<or> open_slots xs \<noteq> 0"
  shows "reader_at q' (A @ ys # B) r"
proof (cases A)
  case Nil
  then show ?thesis using assms unfolding reader_at_def picked_def by (auto simp: open_slots_none split: reader32.splits)
next
  case (Cons a as)
  then show ?thesis using assms unfolding reader_at_def picked_def by (auto split: reader32.splits)
qed

text \<open>A step that leaves the segments as they are.\<close>

lemma minv_frame:
  assumes inv: "minv c b segs" and q: "queue_size q = queue_size (mq c)" "queue q = queue (mq c)" "queue_rp q = queue_rp (mq c)"
    "queue_len q = queue_len (mq c)" "msg_ptr q = msg_ptr (mq c)"
  shows "minv (c\<lparr>mq := q\<rparr>) b segs"
proof -
  have ix: "seg_index q = seg_index (mq c)" by (intro ext) (simp add: seg_index_def Let_def q)
  have "segs_ok q segs" using inv unfolding minv_def segs_ok_def by (simp add: ix q)
  moreover have "reader_at q segs (mcons c)" using reader_grow [of "mq c" segs "mcons c" segs q] inv ix by (simp add: minv_def)
  ultimately show ?thesis using inv by (simp add: minv_def ix)
qed

text \<open>A step that opens a segment.\<close>

lemma minv_new:
  assumes inv: "minv c b segs" and ne: "[] \<notin> set segs"
  shows "\<exists>segs'. minv (c\<lparr>mq := newSegmentBuffer (mq c)\<rparr>) b segs' \<and> concat segs' = concat segs
    \<and> (segs' = segs \<or> segs' = segs @ [[]])
    \<and> (msg_ptr (newSegmentBuffer (mq c)) \<noteq> None \<or> queue_len (mq c) < queue_size (mq c) \<longrightarrow> segs' = segs @ [[]])"
proof -
  have s: "segs_ok (mq c) segs" using inv by (simp add: minv_def)
  from newSegment_segs [OF s ne] obtain segs' where
    n: "segs_ok (newSegmentBuffer (mq c)) segs'" "segs' = segs \<or> segs' = segs @ [[]]"
      "seg_index (newSegmentBuffer (mq c)) = seg_index (mq c)"
      "msg_ptr (newSegmentBuffer (mq c)) \<noteq> None \<or> queue_len (mq c) < queue_size (mq c) \<longrightarrow> segs' = segs @ [[]]" by blast
  note h = holders_new [OF _ n(2), of "seg_index (mq c)" "mpc c" b]
  have "reader_at (newSegmentBuffer (mq c)) segs' (mcons c)" 
    using reader_grow [OF _ n(2,3)] inv by (simp add: minv_def)
  then have "minv (c\<lparr>mq := newSegmentBuffer (mq c)\<rparr>) b segs' \<and> concat segs' = concat segs"
    using inv n h by (simp add: minv_def)
  then show ?thesis using n by blast
qed

text \<open>A step of the owner of a message.\<close>

lemma minv_owned:
  assumes inv: "minv c b (A @ (us @ x # vs) # B)" and x: "x = Claimed p l \<or> x = Reserved p l" and len: "slot_len y = slot_len x"
    and size: "\<And>g. seg_size (f g) = seg_size g" and unc: "uncommitted (f (queue (mq c) (seg_index (mq c) (length A)))) = open_slots (us @ y # vs)"
    and mem: "\<And>g a. a < extent us \<or> extent us + (slot_len x + 4) \<le> a \<Longrightarrow> msg_buffer (f g) a = msg_buffer g a"
    and new: "msg_at (msg_buffer (f (queue (mq c) (seg_index (mq c) (length A))))) (extent us) y"
    and own: "holders_ok (seg_index (mq c)) h b (A @ (us @ y # vs) # B)"
  shows "minv (c\<lparr>mpc := h, mq := upd_segment (seg_index (mq c) (length A)) f (mq c)\<rparr>) b (A @ (us @ y # vs) # B)"
proof -
  let ?q = "upd_segment (seg_index (mq c) (length A)) f (mq c)"
  have ok: "segs_ok (mq c) (A @ (us @ x # vs) # B)" using inv by (simp add: minv_def)
  have "segs_ok ?q (A @ (us @ y # vs) # B)"
    by (rule segs_ok_update [OF ok]) (rule seg_holds_update [OF segs_ok_at(4) [OF ok] len size unc mem new], simp_all)
  moreover have ix: "seg_index ?q = seg_index (mq c)" by (intro ext) simp
  moreover have "reader_at ?q (A @ (us @ y # vs) # B) (mcons c)"
    by (rule reader_change [OF _ ix, of A "us @ x # vs"]) (use inv x in \<open>auto simp: minv_def\<close>)
  ultimately show ?thesis using inv own by (simp add: minv_def)
qed

section \<open>Producers\<close>

lemma last_segment:
  assumes ok: "segs_ok q segs" and i: "msg_ptr q = Some i"
  shows "\<exists>A xs. segs = A @ [xs] \<and> i = seg_index q (length A) \<and> seg_holds (queue q i) xs \<and> [] \<notin> set A"
proof -
  have n: "length segs = queue_len q" "0 < queue_len q" "i = seg_index q (queue_len q - 1)" "[] \<notin> set (butlast segs)"
    using ok i by (simp_all add: segs_ok_def)
  then obtain A xs where s: "segs = A @ [xs]" by (cases segs rule: rev_cases) auto
  then have "length A = queue_len q - 1" using n(1) by simp
  then have "i = seg_index q (length A)" using n(3) by simp
  then show ?thesis using s n(4) segs_ok_at(4) [of q A xs "[]"] ok by auto
qed

lemma no_empty_segment:
  assumes ok: "segs_ok q segs" and i: "msg_ptr q = Some i" "0 < seg_size (queue q i)"
  shows "[] \<notin> set segs"
proof -
  from last_segment [OF ok i(1)] obtain A xs where s: "segs = A @ [xs]" "seg_holds (queue q i) xs" "[] \<notin> set A" by blast
  have "xs \<noteq> []" using s(2) i(2) by (auto simp: seg_holds_def)
  then show ?thesis using s by auto
qed

lemma open_slots_le: "open_slots xs \<le> extent xs"
  by (induction xs rule: open_slots.induct) auto

lemma minv_room:
  assumes inv: "minv c b segs" and n: "n \<le> XCPTL_MAX_DTO_SIZE"
  defines "q \<equiv> (if msg_room (mq c) (align_up 4 n + 4) then mq c else newSegmentBuffer (mq c))"
  shows "\<exists>segs'. minv (c\<lparr>mq := q\<rparr>) b segs' \<and> concat segs' = concat segs \<and> (\<forall>i. msg_ptr q = Some i \<longrightarrow>
    (\<exists>A xs. segs' = A @ [xs] \<and> i = seg_index q (length A) \<and> extent xs + (align_up 4 n + 4) \<le> XCPTL_MAX_SEGMENT_SIZE))"
proof (cases "msg_room (mq c) (align_up 4 n + 4)")
  case True
  then obtain i where i: "msg_ptr (mq c) = Some i" "(seg_size (queue (mq c) i) + (align_up 4 n + 4)) mod 65536 \<le> XCPTL_MAX_SEGMENT_SIZE"
    by (auto simp: msg_room_def split: option.splits)
  have "segs_ok (mq c) segs" using inv by (simp add: minv_def)
  from last_segment [OF this i(1)] obtain A xs where
    s: "segs = A @ [xs]" "i = seg_index (mq c) (length A)" "seg_holds (queue (mq c) i) xs" by blast
  have "extent xs + (align_up 4 n + 4) < 65536" "seg_size (queue (mq c) i) = extent xs"
    using s(3) align4(2) [of n] n by (simp_all add: seg_holds_def)
  then have "extent xs + (align_up 4 n + 4) \<le> XCPTL_MAX_SEGMENT_SIZE" using i(2) by simp
  then show ?thesis using True inv s i(1) by (intro exI [of _ segs]) (simp add: q_def)
next
  case False
  have ok: "segs_ok (mq c) segs" using inv by (simp add: minv_def)
  have "[] \<notin> set segs"
  proof (cases "msg_ptr (mq c)")
    case None
    then show ?thesis using ok by (simp add: segs_ok_def)
  next
    case (Some i)
    have "0 < seg_size (queue (mq c) i)" using False Some align4(2) [of n] n by (cases "seg_size (queue (mq c) i) = 0") (auto simp: msg_room_def)
    then show ?thesis by (rule no_empty_segment [OF ok Some])
  qed
  from minv_new [OF inv this] obtain segs' where
    n': "minv (c\<lparr>mq := newSegmentBuffer (mq c)\<rparr>) b segs'" "concat segs' = concat segs"
      "msg_ptr (newSegmentBuffer (mq c)) \<noteq> None \<longrightarrow> segs' = segs @ [[]]" by blast
  have "\<exists>A xs. segs' = A @ [xs] \<and> i = seg_index q (length A) \<and> extent xs + (align_up 4 n + 4) \<le> XCPTL_MAX_SEGMENT_SIZE"
    if i: "msg_ptr q = Some i" for i
  proof -
    have q: "q = newSegmentBuffer (mq c)" using False by (simp add: q_def)
    have "segs_ok q segs'" using n'(1) by (simp add: minv_def q)
    from last_segment [OF this i] obtain A xs where s: "segs' = A @ [xs]" "i = seg_index q (length A)" by blast
    then have "xs = []" using n'(3) i by (simp add: q)
    then show ?thesis using s align4(2) [of n] n by auto
  qed
  then show ?thesis using n' False by (intro exI [of _ segs']) (simp add: q_def)
qed

lemma minv_claim:
  assumes inv: "minv c b (A @ [xs])" and p: "mpc c p = Idle32" and l: "0 < l" "l \<le> XCPTL_MAX_DTO_SIZE"
    and room: "extent xs + (l + 4) \<le> XCPTL_MAX_SEGMENT_SIZE"
  shows "minv (c\<lparr>mpc := (mpc c)(p := Opening (seg_index (mq c) (length A)) (4 + extent xs) l (mnext c)),
    mq := claim_message (seg_index (mq c) (length A)) (l + 4) (mq c), mnext := mnext c + 1\<rparr>) b (A @ [xs @ [Claimed p l]])"
proof -
  let ?i = "seg_index (mq c) (length A)"
  let ?q = "claim_message ?i (l + 4) (mq c)"
  have ok: "segs_ok (mq c) (A @ [xs])" using inv by (simp add: minv_def)
  have g: "seg_holds (queue (mq c) ?i) xs" by (rule segs_ok_at(4) [OF ok])
  then have "seg_size (queue (mq c) ?i) = extent xs" "uncommitted (queue (mq c) ?i) = open_slots xs" by (simp_all add: seg_holds_def)
  then have "seg_holds ((\<lambda>b. b\<lparr>seg_size := (seg_size b + (l + 4)) mod 65536, uncommitted := (uncommitted b + 1) mod 65536\<rparr>)
      (queue (mq c) ?i)) (xs @ [Claimed p l])"
    using seg_holds_snoc [OF g l room, of p] room open_slots_le [of xs] by simp
  then have "segs_ok ?q (A @ [xs @ [Claimed p l]])" unfolding claim_message_def by (rule segs_ok_update [OF ok]) simp
  moreover have ix: "seg_index ?q = seg_index (mq c)" by (intro ext) (simp add: claim_message_def)
  moreover have "reader_at ?q (A @ [xs @ [Claimed p l]]) (mcons c)"
    using reader_change [of "mq c" A xs "[]" "mcons c"] inv ix by (simp add: minv_def)
  moreover have "holders_ok (seg_index (mq c)) ((mpc c)(p := Opening ?i (4 + extent xs) l (mnext c))) b (A @ [xs @ [Claimed p l]])"
    using holders_claim [of "seg_index (mq c)" "mpc c" b A xs p l] inv p by (simp add: minv_def)
  ultimately show ?thesis using inv by (simp add: minv_def)
qed

lemma minv_acquire:
  assumes inv: "minv c b segs" and p: "mpc c p = Idle32" and a: "acquire_locked n (mq c) = (Some (i, off, l), q)"
  shows "\<exists>segs'. minv (c\<lparr>mpc := (mpc c)(p := Opening i off l (mnext c)), mq := q, mnext := mnext c + 1\<rparr>) b segs'
    \<and> concat segs' = concat segs @ [Claimed p l]"
proof -
  let ?q = "if msg_room (mq c) (align_up 4 n + 4) then mq c else newSegmentBuffer (mq c)"
  from a have n: "0 < n" "n \<le> XCPTL_MAX_DTO_SIZE" by (auto simp: acquire_locked_def split: if_splits)
  from a n have i: "msg_ptr ?q = Some i" and r: "off = seg_size (queue ?q i) + 4" "l = align_up 4 n" "q = claim_message i (l + 4) ?q"
    by (auto simp: acquire_locked_def Let_def split: option.splits)
  from minv_room [OF inv n(2)] obtain A xs where
    s: "minv (c\<lparr>mq := ?q\<rparr>) b (A @ [xs])" "concat (A @ [xs]) = concat segs" "i = seg_index ?q (length A)"
      "extent xs + (align_up 4 n + 4) \<le> XCPTL_MAX_SEGMENT_SIZE" using i by blast
  have off: "off = 4 + extent xs"
    using segs_ok_at(4) [of ?q A xs "[]"] s(1,3) r(1) by (simp add: minv_def seg_holds_def)
  have "0 < l" "l \<le> XCPTL_MAX_DTO_SIZE"
  proof -
    show "0 < l" using align4(1) [of n] n r(2) by simp
    have "4 dvd l" "l < 1028" using align4 [of n] n r(2) by simp_all
    then obtain k where "l = 4 * k" by (auto elim: dvdE)
    then show "l \<le> XCPTL_MAX_DTO_SIZE" using \<open>l < 1028\<close> by simp
  qed
  from minv_claim [OF s(1) _ this] p s(3,4) r(2) have
    "minv (c\<lparr>mpc := (mpc c)(p := Opening i off l (mnext c)), mq := q, mnext := mnext c + 1\<rparr>) b (A @ [xs @ [Claimed p l]])"
    by (simp add: off r(3))
  then show ?thesis using s(2) by (intro exI [of _ "A @ [xs @ [Claimed p l]]"]) simp
qed

lemma minv_refused:
  assumes inv: "minv c b segs" and a: "acquire_locked n (mq c) = (None, q)"
  shows "\<exists>segs'. minv (c\<lparr>mq := q\<rparr>) b segs' \<and> concat segs' = concat segs"
proof (cases "0 < n \<and> n \<le> XCPTL_MAX_DTO_SIZE")
  case True
  let ?q = "if msg_room (mq c) (align_up 4 n + 4) then mq c else newSegmentBuffer (mq c)"
  have q: "q = ?q\<lparr>packets_lost32 := (packets_lost32 ?q + 1) mod 2 ^ 32\<rparr>"
    using True a by (auto simp: acquire_locked_def Let_def split: option.splits)
  from True have "n \<le> XCPTL_MAX_DTO_SIZE" by simp
  from minv_room [OF inv this] obtain segs' where s: "minv (c\<lparr>mq := ?q\<rparr>) b segs'" "concat segs' = concat segs"
    by (elim exE conjE) (rule that)
  from minv_frame [OF s(1), of q] s(2) show ?thesis by (auto simp: q)
next
  case False
  then show ?thesis using inv a by (auto simp: acquire_locked_def)
qed

lemma minv_header:
  assumes inv: "minv c b segs" and p: "mpc c p = Opening i off l k"
  shows "\<exists>A us vs B. segs = A @ (us @ Claimed p l # vs) # B \<and> k = b + length (concat A) + length us
    \<and> minv (c\<lparr>mpc := (mpc c)(p := Holds i off l k), mq := store_message_header (i, off, l) (mq c)\<rparr>) b (A @ (us @ Reserved p l # vs) # B)"
proof -
  have "holders_ok (seg_index (mq c)) (mpc c) b segs" using inv by (simp add: minv_def)
  from holders_place [OF this, of p i off l k "Claimed p l"] p obtain A us vs B where
    s: "segs = A @ (us @ Claimed p l # vs) # B" "i = seg_index (mq c) (length A)" "off = 4 + extent us"
      "k = b + length (concat A) + length us" by blast
  have g: "seg_holds (queue (mq c) i) (us @ Claimed p l # vs)"
    using segs_ok_at(4) [of "mq c" A "us @ Claimed p l # vs" B] inv s by (simp add: minv_def)
  have "msg_at (msg_buffer (queue (mq c) i)) (extent us) (Claimed p l)"
    by (rule seg_holds_at [OF g])
  then have l: "0 < l" "l \<le> XCPTL_MAX_DTO_SIZE" by simp_all
  have q: "store_message_header (i, off, l) (mq c) = upd_segment (seg_index (mq c) (length A))
      (\<lambda>g. g\<lparr>msg_buffer := wr16 (wr16 (msg_buffer g) (extent us + 2) MSG_RESERVED) (extent us) l\<rparr>) (mq c)"
    by (simp add: store_message_header_def s)
  have "minv (c\<lparr>mpc := (mpc c)(p := Holds i off l k), mq := store_message_header (i, off, l) (mq c)\<rparr>) b (A @ (us @ Reserved p l # vs) # B)"
    unfolding q
  proof (rule minv_owned [OF inv [unfolded s(1)], where p = p and l = l])
    show "holders_ok (seg_index (mq c)) ((mpc c)(p := Holds i off l k)) b (A @ (us @ Reserved p l # vs) # B)"
      by (rule holders_update [where x = "Claimed p l" and l = l]) (use inv s in \<open>simp_all add: minv_def\<close>)
    show "uncommitted ((queue (mq c) (seg_index (mq c) (length A)))
        \<lparr>msg_buffer := wr16 (wr16 (msg_buffer (queue (mq c) (seg_index (mq c) (length A)))) (extent us + 2) MSG_RESERVED) (extent us) l\<rparr>)
      = open_slots (us @ Reserved p l # vs)" using g s(2) by (simp add: seg_holds_def)
  qed (use l in \<open>auto simp: rd16_wr16_same wr16_at_other\<close>)
  then show ?thesis using s(1,4) by blast
qed

lemma minv_put:
  assumes inv: "minv c b segs" and p: "mpc c p = Holds i off l k" and j: "j + length bs \<le> l"
  shows "minv (c\<lparr>mq := queue_put32 (i, off + j, 0) bs (mq c)\<rparr>) b segs"
proof -
  have h: "holders_ok (seg_index (mq c)) (mpc c) b segs" using inv by (simp add: minv_def)
  from holders_place [OF h, of p i off l k "Reserved p l"] p obtain A us vs B where
    s: "segs = A @ (us @ Reserved p l # vs) # B" "i = seg_index (mq c) (length A)" "off = 4 + extent us"
      "k = b + length (concat A) + length us" by blast
  have g: "seg_holds (queue (mq c) i) (us @ Reserved p l # vs)"
    using segs_ok_at(4) [of "mq c" A "us @ Reserved p l # vs" B] inv s by (simp add: minv_def)
  have at: "msg_at (msg_buffer (queue (mq c) i)) (extent us) (Reserved p l)"
    by (rule seg_holds_at [OF g])
  have q: "queue_put32 (i, off + j, 0) bs (mq c) = upd_segment (seg_index (mq c) (length A))
      (\<lambda>g. g\<lparr>msg_buffer := mem_set (extent us + 4 + j) bs (msg_buffer g)\<rparr>) (mq c)"
    by (simp add: queue_put32_def s ac_simps)
  have "minv (c\<lparr>mpc := mpc c, mq := queue_put32 (i, off + j, 0) bs (mq c)\<rparr>) b (A @ (us @ Reserved p l # vs) # B)"
    unfolding q
  proof (rule minv_owned [OF inv [unfolded s(1)], where p = p and l = l])
    show "msg_at (msg_buffer ((queue (mq c) (seg_index (mq c) (length A)))
        \<lparr>msg_buffer := mem_set (extent us + 4 + j) bs (msg_buffer (queue (mq c) (seg_index (mq c) (length A))))\<rparr>)) (extent us) (Reserved p l)"
      using at s(2) by (simp add: rd16_def mem_set_outside)
  qed (use g h s j in \<open>auto simp: seg_holds_def mem_set_outside\<close>)
  then show ?thesis by (simp add: s(1))
qed

lemma minv_push:
  assumes inv: "minv c b segs" and p: "mpc c p = Holds i off l k"
  shows "\<exists>A us vs B d segs'. segs = A @ (us @ Reserved p l # vs) # B \<and> d = mem_get off l (msg_buffer (queue (mq c) i))
    \<and> k = b + length (concat A) + length us \<and> concat segs' = concat (A @ (us @ Full d # vs) # B)
    \<and> minv (c\<lparr>mpc := (mpc c)(p := Idle32), mq := queuePush32 (i, off, l) f (mq c)\<rparr>) b segs'"
proof -
  have h: "holders_ok (seg_index (mq c)) (mpc c) b segs" using inv by (simp add: minv_def)
  from holders_place [OF h, of p i off l k "Reserved p l"] p obtain A us vs B where
    s: "segs = A @ (us @ Reserved p l # vs) # B" "i = seg_index (mq c) (length A)" "off = 4 + extent us"
      "k = b + length (concat A) + length us" by blast
  define d where "d = mem_get off l (msg_buffer (queue (mq c) i))"
  have g: "seg_holds (queue (mq c) i) (us @ Reserved p l # vs)"
    using segs_ok_at(4) [of "mq c" A "us @ Reserved p l # vs" B] inv s by (simp add: minv_def)
  have at: "msg_at (msg_buffer (queue (mq c) i)) (extent us) (Reserved p l)"
    by (rule seg_holds_at [OF g])
  let ?f = "\<lambda>g. g\<lparr>uncommitted := (uncommitted g + 65535) mod 65536, msg_buffer := wr16 (msg_buffer g) (extent us + 2) MSG_COMMITTED\<rparr>"
  let ?q = "upd_segment (seg_index (mq c) (length A)) ?f (mq c)"
  let ?c = "c\<lparr>mpc := (mpc c)(p := Idle32), mq := ?q\<rparr>" and ?S = "A @ (us @ Full d # vs) # B"
  have i1: "minv ?c b ?S"
  proof (rule minv_owned [OF inv [unfolded s(1)], where p = p and l = l])
    have "mem_get (extent us + 4) l (wr16 (msg_buffer (queue (mq c) i)) (extent us + 2) MSG_COMMITTED) = d"
      unfolding d_def s(3) by (subst add.commute [of 4]) (rule mem_get_cong, simp add: wr16_at_other)
    then show "msg_at (msg_buffer (?f (queue (mq c) (seg_index (mq c) (length A))))) (extent us) (Full d)"
      using at s(2) by (simp add: d_def mem_simps)
    have u: "uncommitted (queue (mq c) i) = open_slots us + open_slots vs + 1" using g by (simp add: seg_holds_def)
    have "open_slots us + open_slots vs + 1 \<le> extent (us @ Reserved p l # vs)"
      using open_slots_le [of us] open_slots_le [of vs] by simp
    then have "open_slots us + open_slots vs < 65536" using g by (simp add: seg_holds_def)
    then show "uncommitted (?f (queue (mq c) (seg_index (mq c) (length A)))) = open_slots (us @ Full d # vs)"
      using u s(2) by (simp add: mod_add_self2 [of _ 65536, simplified])
    show "holders_ok (seg_index (mq c)) ((mpc c)(p := Idle32)) b ?S"
      by (rule holders_update [where x = "Reserved p l" and l = l and d = d]) (use inv s in \<open>simp_all add: minv_def d_def\<close>)
  qed (auto simp: d_def wr16_at_other)
  define t where "t = ?q"
  have q: "queuePush32 (i, off, l) f (mq c) = (if f \<and> (case msg_ptr t of None \<Rightarrow> False | Some k \<Rightarrow> 0 < seg_size (queue t k))
      then newSegmentBuffer t else t)"
  proof -
    have "off - 4 + 2 = extent us + 2" by (simp add: s)
    then show ?thesis unfolding queuePush32_def Let_def prod.case s(2) t_def by (simp only:)
  qed
  have it: "minv (c\<lparr>mpc := (mpc c)(p := Idle32), mq := t\<rparr>) b ?S" using i1 by (simp add: t_def)
  have "\<exists>segs'. concat segs' = concat ?S \<and> minv (c\<lparr>mpc := (mpc c)(p := Idle32), mq := queuePush32 (i, off, l) f (mq c)\<rparr>) b segs'"
  proof (cases "f \<and> (case msg_ptr t of None \<Rightarrow> False | Some k \<Rightarrow> 0 < seg_size (queue t k))")
    case True
    then obtain k where k: "msg_ptr t = Some k" "0 < seg_size (queue t k)" by (auto split: option.splits)
    have ok: "segs_ok t ?S" using it by (simp add: minv_def)
    from no_empty_segment [OF ok k] minv_new [OF it] obtain segs' where
      "minv (c\<lparr>mpc := (mpc c)(p := Idle32), mq := newSegmentBuffer t\<rparr>) b segs'" "concat segs' = concat ?S" by auto
    then show ?thesis using True unfolding q by auto
  next
    case False
    then have "queuePush32 (i, off, l) f (mq c) = t" unfolding q by (simp only: if_False)
    then show ?thesis using it by (intro exI [of _ ?S]) simp
  qed
  then show ?thesis using s unfolding d_def [symmetric] by blast
qed

end
