(* ===== verification/Queue32_Fifo.thy ===== *)
theory Queue32_Fifo
  imports Queue32_Conc
begin

text \<open>
  The consumer of the segment queue and the contract \<open>fifo_order\<close>: what it gets, segment by segment, are the
  messages in the order of their reservations, for both implementations.
\<close>

section \<open>The messages of a segment\<close>

lemma messages_full:
  assumes "\<forall>off x. (off, x) \<in> set (layout p (map Full ds)) \<longrightarrow> msg_at m off x"
  shows "messages m p (p + extent (map Full ds)) = Some ds"
  using assms
proof (induction ds arbitrary: p)
  case Nil
  then show ?case by (simp add: messages.simps)
next
  case (Cons d ds)
  have at: "msg_at m p (Full d)" using Cons.prems by simp
  have "messages m (p + (length d + 4)) (p + (length d + 4) + extent (map Full ds)) = Some ds"
    by (rule Cons.IH) (use Cons.prems in simp)
  then show ?case using at by (subst messages.simps) (simp add: ac_simps)
qed

text \<open>Numbering writes the counters and nothing else.\<close>

lemma number_full:
  assumes "\<forall>off x. (off, x) \<in> set (layout p (map Full ds)) \<longrightarrow> msg_at m off x"
    and "number_messages p (p + extent (map Full ds)) ctr m = (m', ctr')"
  shows "(\<forall>off x. (off, x) \<in> set (layout p (map Full ds)) \<longrightarrow> msg_at m' off x)
    \<and> (\<forall>a. a < p \<or> p + extent (map Full ds) \<le> a \<longrightarrow> m' a = m a)"
  using assms
proof (induction ds arbitrary: p ctr m)
  case Nil
  then show ?case by (simp add: number_messages.simps)
next
  case (Cons d ds)
  let ?p = "p + (length d + 4)" and ?m = "wr16 m (p + 2) ctr"
  have at: "msg_at m p (Full d)" using Cons.prems(1) by simp
  then have d: "0 < length d" "rd16 m p = length d" by simp_all
  have sz: "p + extent (map Full (d # ds)) = ?p + extent (map Full ds)" by simp
  have "number_messages p (p + extent (map Full (d # ds))) ctr m
      = number_messages ?p (?p + extent (map Full ds)) ((ctr + 1) mod 65536) ?m"
    unfolding sz by (subst number_messages.simps) (use d in simp)
  then have n: "number_messages ?p (?p + extent (map Full ds)) ((ctr + 1) mod 65536) ?m = (m', ctr')" using Cons.prems(2) by simp
  have "msg_at ?m off x" if x: "(off, x) \<in> set (layout ?p (map Full ds))" for off x
  proof (rule msg_at_cong [of m])
    show "msg_at m off x" using Cons.prems(1) x by simp
  qed (use layout_bounds [OF x] in \<open>simp_all add: wr16_at_other\<close>)
  from Cons.IH [OF _ n] this have ih: "\<forall>off x. (off, x) \<in> set (layout ?p (map Full ds)) \<longrightarrow> msg_at m' off x"
    "\<forall>a. a < ?p \<or> ?p + extent (map Full ds) \<le> a \<longrightarrow> m' a = ?m a" by blast+
  have "msg_at m' p (Full d)"
    by (rule msg_at_cong [OF at]) (use ih(2) d in \<open>simp_all add: wr16_at_other\<close>)
  moreover have "\<forall>a. a < p \<or> p + extent (map Full (d # ds)) \<le> a \<longrightarrow> m' a = m a"
    using ih(2) by (simp add: wr16_at_other)
  ultimately show ?case using ih(1) by simp
qed

section \<open>The consumer\<close>

lemma minv_pick:
  assumes inv: "minv c b segs" and w: "mcons c = Waiting" and pk: "pick_segment f (mq c) = (r, q)"
  shows "\<exists>segs'. concat segs' = concat segs \<and> minv (c\<lparr>mq := q\<rparr>) b segs'
    \<and> (\<forall>i sz. r = Some (i, sz) \<longrightarrow> picked q segs' i sz)"
proof (cases "queue_len (mq c) = 0")
  case True
  then show ?thesis using inv pk by (auto simp: pick_segment_def)
next
  case False
  let ?i = "queue_rp (mq c)"
  let ?new = "queue_len (mq c) = 1 \<and> 0 < seg_size (queue (mq c) ?i) \<and> f"
  let ?q = "if ?new then newSegmentBuffer (mq c) else mq c"
  have ok: "segs_ok (mq c) segs" using inv by (simp add: minv_def)
  have rp: "seg_index t 0 = queue_rp t" if "queue_rp t < queue_size t" for t using that by (simp add: seg_index_def)
  have "\<exists>segs'. concat segs' = concat segs \<and> minv (c\<lparr>mq := ?q\<rparr>) b segs'"
  proof (cases ?new)
    case True
    then obtain xs where s: "segs = [xs]" using ok by (auto simp: segs_ok_def length_Suc_conv)
    have "seg_holds (queue (mq c) ?i) xs" 
      using segs_ok_at(4) [of "mq c" "[]" xs "[]"] ok rp [of "mq c"] segs_ok_at(3) [of "mq c" "[]" xs "[]"] s by simp
    then have "[] \<notin> set segs" using True s by (auto simp: seg_holds_def)
    from minv_new [OF inv this] True show ?thesis by auto
  qed (use inv in auto)
  then obtain segs' where s: "concat segs' = concat segs" "minv (c\<lparr>mq := ?q\<rparr>) b segs'" by blast
  have q: "q = ?q" "queue_rp ?q = ?i" using pk False
    by (auto simp: pick_segment_def Let_def newSegmentBuffer_def split: if_splits)
  have "picked q segs' i sz" if r: "r = Some (i, sz)" for i sz
  proof -
    have k: "1 < queue_len ?q" "uncommitted (queue ?q ?i) = 0" "i = ?i" "sz = seg_size (queue ?q ?i)"
      using pk False r by (auto simp: pick_segment_def Let_def split: if_splits)
    have ok': "segs_ok ?q segs'" using s(2) by (simp add: minv_def)
    then have "1 < length segs'" using k(1) by (simp add: segs_ok_def)
    then obtain xs B where x: "segs' = xs # B" "B \<noteq> []" by (cases segs'; cases "tl segs'") auto
    have i0: "seg_index ?q 0 = ?i" using rp [of ?q] ok' q(2) by (simp add: segs_ok_def)
    have g: "seg_holds (queue ?q ?i) xs" using segs_ok_at(4) [of ?q "[]" xs B] ok' x(1) i0 by simp
    then obtain ds where "xs = map Full ds" using all_full [of xs] k(2) by (auto simp: seg_holds_def)
    then show ?thesis using x g k i0 q(1) by (auto simp: picked_def seg_holds_def)
  qed
  then show ?thesis using s q(1) by blast
qed

lemma picked_segment:
  assumes ok: "segs_ok q segs" and pk: "picked q segs i sz"
  obtains ds B where "segs = map Full ds # B" "B \<noteq> []" "ds \<noteq> []" "i = seg_index q 0" "sz = extent (map Full ds)"
    "seg_holds (queue q i) (map Full ds)" "messages (msg_buffer (queue q i)) 0 sz = Some ds"
proof -
  from pk obtain ds B where s: "segs = map Full ds # B" "B \<noteq> []" "i = seg_index q 0" "sz = extent (map Full ds)"
    by (auto simp: picked_def)
  have g: "seg_holds (queue q i) (map Full ds)" using segs_ok_at(4) [of q "[]" "map Full ds" B] ok s by simp
  then have "messages (msg_buffer (queue q i)) 0 sz = Some ds"
    using messages_full [of 0 ds "msg_buffer (queue q i)"] s(4) by (simp add: seg_holds_def)
  moreover have "ds \<noteq> []" using ok s by (auto simp: segs_ok_def)
  ultimately show ?thesis using that s g by blast
qed

lemma minv_number:
  assumes inv: "minv c b segs" and r: "mcons c = Picked i sz"
  shows "minv (c\<lparr>mcons := Popped i sz, mq := fst (number_segment (i, sz) ctr (mq c))\<rparr>) b segs"
proof -
  have ok: "segs_ok (mq c) segs" and pk: "picked (mq c) segs i sz" using inv r by (simp_all add: minv_def reader_at_def)
  from picked_segment [OF ok pk] obtain ds B where
    s: "segs = map Full ds # B" "B \<noteq> []" "ds \<noteq> []" "i = seg_index (mq c) 0" "sz = extent (map Full ds)"
      "seg_holds (queue (mq c) i) (map Full ds)" by metis
  obtain m' ctr' where n: "number_messages 0 sz ctr (msg_buffer (queue (mq c) i)) = (m', ctr')" by (rule prod.exhaust)
  let ?q = "upd_segment (seg_index (mq c) (length ([] :: slot list list))) (\<lambda>g. g\<lparr>msg_buffer := m'\<rparr>) (mq c)"
  have q: "fst (number_segment (i, sz) ctr (mq c)) = ?q" using n s(4) by (simp add: number_segment_def)
  have "\<forall>off x. (off, x) \<in> set (layout 0 (map Full ds)) \<longrightarrow> msg_at m' off x"
    using number_full [of 0 ds "msg_buffer (queue (mq c) i)" ctr m' ctr'] n s(5,6) by (simp add: seg_holds_def)
  then have "seg_holds ((queue (mq c) (seg_index (mq c) (length ([] :: slot list list))))\<lparr>msg_buffer := m'\<rparr>) (map Full ds)"
    using s(4,6) by (simp add: seg_holds_def)
  then have "segs_ok ?q ([] @ map Full ds # B)"
    by (intro segs_ok_update [where xs = "map Full ds"]) (use ok s in simp_all)
  moreover have ix: "seg_index ?q = seg_index (mq c)" by (intro ext) simp
  ultimately show ?thesis using inv pk unfolding q by (simp add: minv_def reader_at_def picked_def s(1) ix)
qed

lemma minv_release:
  assumes inv: "minv c b segs" and r: "mcons c = Popped i sz"
  shows "\<exists>ds B. segs = map Full ds # B \<and> messages (msg_buffer (queue (mq c) i)) 0 sz = Some ds
    \<and> minv (c\<lparr>mcons := Waiting, mgot := g, mq := queueRelease32 (mq c)\<rparr>) (b + length ds) B"
proof -
  have ok: "segs_ok (mq c) segs" and pk: "picked (mq c) segs i sz" using inv r by (simp_all add: minv_def reader_at_def)
  from picked_segment [OF ok pk] obtain ds B where
    s: "segs = map Full ds # B" "B \<noteq> []" "messages (msg_buffer (queue (mq c) i)) 0 sz = Some ds" by metis
  have "segs_ok (queueRelease32 (mq c)) B" using release_segs [of "mq c" "map Full ds" B] ok s by simp
  moreover have "holders_ok (seg_index (queueRelease32 (mq c))) (mpc c) (b + length ds) B"
    using holders_released [of "mq c" "mpc c" b ds B] inv ok s by (simp add: minv_def)
  ultimately have "minv (c\<lparr>mcons := Waiting, mgot := g, mq := queueRelease32 (mq c)\<rparr>) (b + length ds) B"
    using inv s(1) by (simp add: minv_def reader_at_def)
  then show ?thesis using s by blast
qed

section \<open>Order\<close>

definition mutex_silent :: "conf32 \<Rightarrow> conf32 \<Rightarrow> bool" where
  "mutex_silent c c' \<longleftrightarrow> mnext c' = mnext c \<and> (\<forall>p i off l k. mpc c p = Holds i off l k \<longrightarrow> mpc c' p = Holds i off l k)"

definition mutex_observed :: "bool \<Rightarrow> conf32 \<Rightarrow> queue_event \<Rightarrow> conf32 \<Rightarrow> bool" where
  "mutex_observed late c e c' \<longleftrightarrow> mutex_step late c c' \<and> (case e of
       Claims k \<Rightarrow> k = mnext c \<and> mnext c' = k + 1
     | Commits k d \<Rightarrow> \<exists>p i off l. mpc c p = Holds i off l k \<and> mpc c' p = Idle32
         \<and> d = mem_get off l (msg_buffer (queue (mq c) i))
     | Silent \<Rightarrow> mutex_silent c c')"

fun content :: "slot \<Rightarrow> u8 list option" where
  "content (Full d) = Some d"
| "content _ = None"

fun numbering :: "nat \<Rightarrow> slot list \<Rightarrow> history" where
  "numbering b [] = []"
| "numbering b (x # xs) = (b, content x) # numbering (b + 1) xs"

lemma numbering_append: "numbering b (xs @ ys) = numbering b xs @ numbering (b + length xs) ys"
  by (induction b xs rule: numbering.induct) simp_all

lemma numbering_keys: "k \<in> fst ` set (numbering b xs) \<Longrightarrow> b \<le> k \<and> k < b + length xs"
  by (induction b xs rule: numbering.induct) fastforce+

lemma numbering_full: "\<exists>es. numbering b (map Full ds) = delivered es \<and> map snd es = ds"
proof (induction ds arbitrary: b)
  case (Cons d ds)
  from Cons [of "b + 1"] obtain es where "numbering (b + 1) (map Full ds) = delivered es" "map snd es = ds" by blast
  then show ?case by (intro exI [of _ "(b, d) # es"]) (simp add: delivered_def)
qed (simp add: delivered_def)

definition mutex_rep :: "conf32 \<Rightarrow> history \<Rightarrow> bool" where
  "mutex_rep c ys \<longleftrightarrow> (\<exists>b segs. minv c b segs \<and> ys = numbering b (concat segs))"

lemma mutex_repI: "minv c b segs \<Longrightarrow> ys = numbering b (concat segs) \<Longrightarrow> mutex_rep c ys"
  unfolding mutex_rep_def by blast

text \<open>A reservation, in one step or in two.\<close>

lemma minv_reserve:
  assumes inv: "minv c b segs" and p: "mpc c p = Idle32"
    and a: "(if late then acquire_locked n (mq c) else queueAcquire32 n (mq c)) = (Some (i, off, l), q)"
  shows "\<exists>segs' x. minv (c\<lparr>mpc := (mpc c)(p := if late then Opening i off l (mnext c) else Holds i off l (mnext c)),
      mq := q, mnext := mnext c + 1\<rparr>) b segs' \<and> concat segs' = concat segs @ [x] \<and> content x = None"
proof (cases late)
  case True
  then show ?thesis using minv_acquire [OF inv p, of n i off l q] a by fastforce
next
  case False
  from a False have "queueAcquire32m n (mq c) = (Some (i, off, l), q)" by (simp add: queueAcquire32m_same)
  then obtain q1 where q: "acquire_locked n (mq c) = (Some (i, off, l), q1)" "q = store_message_header (i, off, l) q1"
    by (auto simp: queueAcquire32m_def split: prod.splits option.splits)
  let ?c = "c\<lparr>mpc := (mpc c)(p := Opening i off l (mnext c)), mq := q1, mnext := mnext c + 1\<rparr>"
  from minv_acquire [OF inv p q(1)] obtain segs' where s: "minv ?c b segs'" "concat segs' = concat segs @ [Claimed p l]" by blast
  from minv_header [OF s(1), of p i off l "mnext c"] obtain A us vs B where
    h: "segs' = A @ (us @ Claimed p l # vs) # B" "mnext c = b + length (concat A) + length us"
      "minv (?c\<lparr>mpc := (mpc ?c)(p := Holds i off l (mnext c)), mq := q\<rparr>) b (A @ (us @ Reserved p l # vs) # B)"
    using q(2) by auto
  have e: "?c\<lparr>mpc := (mpc ?c)(p := Holds i off l (mnext c)), mq := q\<rparr>
      = c\<lparr>mpc := (mpc c)(p := Holds i off l (mnext c)), mq := q, mnext := mnext c + 1\<rparr>" by simp
  have "concat (A @ (us @ Reserved p l # vs) # B) = concat segs @ [Reserved p l]"
  proof -
    have "concat segs @ [Claimed p l] = (concat A @ us) @ Claimed p l # (vs @ concat B)" using s(2) h(1) by simp
    moreover have "length (concat segs) = length (concat A @ us)" using h(2) inv by (simp add: minv_def)
    ultimately have "concat segs = concat A @ us \<and> [Claimed p l] = Claimed p l # (vs @ concat B)"
      by (subst (asm) append_eq_append_conv) simp_all
    then show ?thesis by simp
  qed
  then show ?thesis using h(3) False unfolding e by (intro exI [of _ "A @ (us @ Reserved p l # vs) # B"] exI [of _ "Reserved p l"]) simp
qed

lemma minv_no_room:
  assumes inv: "minv c b segs" and a: "(if late then acquire_locked n (mq c) else queueAcquire32 n (mq c)) = (None, q)"
  shows "\<exists>segs'. minv (c\<lparr>mq := q\<rparr>) b segs' \<and> concat segs' = concat segs"
proof -
  have "acquire_locked n (mq c) = (None, q)"
    using a by (auto simp: queueAcquire32m_same [symmetric] queueAcquire32m_def split: if_splits prod.splits option.splits)
  then show ?thesis by (rule minv_refused [OF inv])
qed

lemma mutex_claims:
  assumes rep: "mutex_rep c ys" and st: "mutex_observed late c (Claims k) c'"
  shows "mutex_rep c' (ys @ [(k, None)]) \<and> mgot c' = mgot c \<and> k = mnext c \<and> k < mnext c'"
proof -
  from rep obtain b segs where inv: "minv c b segs" and ys: "ys = numbering b (concat segs)" unfolding mutex_rep_def by blast
  from st have q: "mutex_step late c c'" and k: "k = mnext c" "mnext c' = k + 1" by (simp_all add: mutex_observed_def)
  from q show ?thesis
  proof (cases rule: mutex_step.cases)
    case (m_acquire p n i off l q)
    from minv_reserve [OF inv m_acquire(2,3)] obtain segs' x where
      s: "minv c' b segs'" "concat segs' = concat segs @ [x]" "content x = None" using m_acquire(1) by blast
    have "k = b + length (concat segs)" using inv k by (simp add: minv_def)
    then have "mutex_rep c' (ys @ [(k, None)])" using s ys by (intro mutex_repI [OF s(1)]) (simp add: numbering_append)
    then show ?thesis using m_acquire k by simp
  qed (use k in simp_all)
qed

lemma mutex_commits:
  assumes rep: "mutex_rep c ys" and st: "mutex_observed late c (Commits k d) c'"
  shows "k \<in> fst ` set ys \<and> mutex_rep c' (commit_entry k d ys) \<and> mgot c' = mgot c \<and> mnext c' = mnext c"
proof -
  from rep obtain b segs where inv: "minv c b segs" and ys: "ys = numbering b (concat segs)" unfolding mutex_rep_def by blast
  from st obtain p i off l where q: "mutex_step late c c'" and p: "mpc c p = Holds i off l k" "mpc c' p = Idle32"
    and d: "d = mem_get off l (msg_buffer (queue (mq c) i))" by (auto simp: mutex_observed_def)
  from q show ?thesis
  proof (cases rule: mutex_step.cases)
    case (m_push p' i' off' l' k' f)
    then have e: "p' = p" "i' = i" "off' = off" "l' = l" "k' = k" using p by (auto split: if_splits)
    from minv_push [OF inv p(1), of f] obtain A us vs B segs' where
      s: "segs = A @ (us @ Reserved p l # vs) # B" "k = b + length (concat A) + length us"
        "concat segs' = concat (A @ (us @ Full d # vs) # B)" "minv c' b segs'"
      unfolding d m_push(1) e by blast
    let ?u = "concat A @ us" and ?v = "vs @ concat B"
    have k: "k = b + length ?u" using s(2) by simp
    have y: "ys = numbering b ?u @ (k, None) # numbering (k + 1) ?v" unfolding ys s(1) k
      using numbering_append [of b ?u "Reserved p l # ?v"] by simp
    have "k \<notin> fst ` set (numbering b ?u)" "k \<notin> fst ` set (numbering (k + 1) ?v)"
      using numbering_keys [of k b ?u] numbering_keys [of k "k + 1" ?v] k by auto
    then have c: "commit_entry k d ys = numbering b ?u @ (k, Some d) # numbering (k + 1) ?v"
      unfolding y by (rule commit_middle)
    have "numbering b (concat segs') = numbering b ?u @ (k, Some d) # numbering (k + 1) ?v"
      unfolding s(3) k using numbering_append [of b ?u "Full d # ?v"] by simp
    then have "commit_entry k d ys = numbering b (concat segs')" unfolding c by (rule sym)
    then have "mutex_rep c' (commit_entry k d ys)" by (rule mutex_repI [OF s(4)])
    then show ?thesis using m_push y by simp
  qed (use p in \<open>auto split: if_splits\<close>)
qed

lemma mutex_silents:
  assumes rep: "mutex_rep c ys" and st: "mutex_observed late c Silent c'"
  shows "mnext c' = mnext c \<and> (\<exists>ds zs. ys = delivered ds @ zs \<and> mutex_rep c' zs \<and> mgot c' = mgot c @ map snd ds)"
proof -
  from rep obtain b segs where inv: "minv c b segs" and ys: "ys = numbering b (concat segs)" unfolding mutex_rep_def by blast
  from st have q: "mutex_step late c c'" and sl: "mutex_silent c c'" by (simp_all add: mutex_observed_def)
  have same: ?thesis if "minv c' b segs'" "concat segs' = concat segs" "mgot c' = mgot c" for segs'
    using mutex_repI [OF that(1)] that ys sl
    by (intro conjI exI [of _ "[]"] exI [of _ ys]) (simp_all add: delivered_def mutex_silent_def)
  have waiting: "minv (c\<lparr>mq := t\<rparr>) b xs \<Longrightarrow> minv (c\<lparr>mcons := r, mq := t\<rparr>) b xs" if "reader_at t xs r" for t xs r
    using that by (simp add: minv_def)
  from q show ?thesis
  proof (cases rule: mutex_step.cases)
    case (m_acquire p n i off l q)
    then show ?thesis using sl by (simp add: mutex_silent_def)
  next
    case (m_refused p n q)
    then show ?thesis using minv_no_room [OF inv m_refused(3)] same by auto
  next
    case (m_header p i off l k)
    from minv_header [OF inv m_header(2)] obtain A us vs B where
      s: "segs = A @ (us @ Claimed p l # vs) # B" "minv c' b (A @ (us @ Reserved p l # vs) # B)"
      unfolding m_header(1) by blast
    have "mutex_rep c' ys" by (rule mutex_repI [OF s(2)]) (simp add: ys s(1) numbering_append)
    then show ?thesis using m_header by (intro conjI exI [of _ "[]"] exI [of _ ys]) (simp_all add: delivered_def)
  next
    case (m_put p i off l k j xs)
    then show ?thesis using minv_put [OF inv m_put(2,3)] same by auto
  next
    case (m_push p i off l k f)
    then have "mpc c' p = Idle32" by simp
    then show ?thesis using sl m_push(2) unfolding mutex_silent_def by fastforce
  next
    case m_lost
    then show ?thesis using minv_frame [OF inv, of "(mq c)\<lparr>packets_lost32 := 0\<rparr>"] same by auto
  next
    case (m_pick f i sz q)
    from minv_pick [OF inv m_pick(2,3)] obtain segs' where
      "concat segs' = concat segs" "minv (c\<lparr>mq := q\<rparr>) b segs'" "picked q segs' i sz" by blast
    then show ?thesis using m_pick waiting [of q segs' "Picked i sz"] by (intro same [of segs']) (simp_all add: reader_at_def)
  next
    case (m_pick_none f q)
    then show ?thesis using minv_pick [OF inv m_pick_none(2,3)] same by auto
  next
    case (m_number i sz ctr)
    then show ?thesis using minv_number [OF inv m_number(2), of ctr] same by auto
  next
    case (m_release i sz)
    from minv_release [OF inv m_release(2)] obtain ds B where
      s: "segs = map Full ds # B" "messages (msg_buffer (queue (mq c) i)) 0 sz = Some ds" "minv c' (b + length ds) B"
      unfolding m_release(1) by blast
    from numbering_full [of b ds] obtain es where e: "numbering b (map Full ds) = delivered es" "map snd es = ds" by blast
    have "mutex_rep c' (numbering (b + length ds) (concat B))" by (rule mutex_repI [OF s(3) refl])
    then show ?thesis using m_release e s(2)
      by (intro conjI exI [of _ es] exI [of _ "numbering (b + length ds) (concat B)"]) (simp_all add: ys s(1) numbering_append)
  qed
qed

interpretation segment_queue: fifo_order "mutex_observed late" mgot mnext mutex_rep for late
  by unfold_locales (use mutex_claims mutex_commits mutex_silents in blast)+

section \<open>The initial queue\<close>

lemma minv_init:
  assumes "0 < n div SIZEOF_SEGMENT"
  shows "minv (mutex_init (queueInit32m n)) 0 [[]]"
proof -
  define q where "q = \<lparr>queue_buffer_size = n, queue_size = n div SIZEOF_SEGMENT,
      queue = (\<lambda>_. \<lparr>uncommitted = 0, seg_size = 0, msg_buffer = (\<lambda>_. 0)\<rparr>),
      queue_rp = 0, queue_len = 0, msg_ptr = None, packets_lost32 = 0\<rparr>"
  have "minv (mutex_init q) 0 []" using assms
    by (simp add: minv_def mutex_init_def q_def segs_ok_def holders_ok_def reader_at_def)
  from minv_new [OF this] assms have "minv ((mutex_init q)\<lparr>mq := newSegmentBuffer q\<rparr>) 0 [[]]"
    by (auto simp: mutex_init_def q_def)
  then show ?thesis by (simp add: mutex_init_def queueInit32m_def q_def)
qed

lemma queueInit32_as_m: "queueInit32 n = queueInit32m (align_up CACHE_LINE_SIZE ((n div SIZEOF_SEGMENT + 1) * SIZEOF_SEGMENT))"
  by (simp add: queueInit32_def queueInit32m_def Let_def)

lemma queueInit32_segments: "0 < align_up CACHE_LINE_SIZE ((n div SIZEOF_SEGMENT + 1) * SIZEOF_SEGMENT) div SIZEOF_SEGMENT"
proof -
  have "SIZEOF_SEGMENT \<le> align_up CACHE_LINE_SIZE ((n div SIZEOF_SEGMENT + 1) * SIZEOF_SEGMENT)"
    using align_up_ge [of CACHE_LINE_SIZE "(n div SIZEOF_SEGMENT + 1) * SIZEOF_SEGMENT"] by simp
  then show ?thesis by (simp add: div_greater_zero_iff)
qed

lemma mutex_rep_init: "0 < n div SIZEOF_SEGMENT \<Longrightarrow> mutex_rep (mutex_init (queueInit32m n)) []"
  using minv_init by (intro mutex_repI [of _ 0 "[[]]"]) simp_all

lemma mgot_init [simp]: "mgot (mutex_init q) = []"
  by (simp add: mutex_init_def)

lemma mutex_in_order:
  assumes "recorded (mutex_init (queueInit32m n)) (mutex_observed late) c h" "0 < n div SIZEOF_SEGMENT"
  shows "length (mgot c) \<le> length h \<and> map snd (take (length (mgot c)) h) = map Some (mgot c) \<and> distinct (map fst h)"
  by (rule segment_queue.in_order [OF assms(1) mutex_rep_init [OF assms(2)] mgot_init])

section \<open>Nothing gets stuck\<close>

lemma newSegment_size: "queue_size (newSegmentBuffer q) = queue_size q"
  by (simp add: newSegmentBuffer_def Let_def)

lemma acquire_size: "acquire_locked n q = (r, q') \<Longrightarrow> queue_size q' = queue_size q"
  by (auto simp: acquire_locked_def Let_def claim_message_def newSegment_size split: if_splits option.splits)

lemma acquire32_size: "queueAcquire32 n q = (r, q') \<Longrightarrow> queue_size q' = queue_size q"
  by (auto simp: queueAcquire32_def Let_def newSegment_size split: if_splits option.splits)

lemma pick_size: "pick_segment f q = (r, q') \<Longrightarrow> queue_size q' = queue_size q"
  by (auto simp: pick_segment_def Let_def newSegment_size split: if_splits)

lemma step_size: "mutex_step late c c' \<Longrightarrow> queue_size (mq c') = queue_size (mq c)"
  by (induction rule: mutex_step.induct)
    (auto simp: store_message_header_def queue_put32_def queuePush32_def number_segment_def queueRelease32_def Let_def
      newSegment_size split_def split: if_splits dest: acquire_size acquire32_size pick_size)

lemma recorded_size: "recorded c0 (mutex_observed late) c h \<Longrightarrow> queue_size (mq c) = queue_size (mq c0)"
  by (induction rule: recorded.induct) (auto simp: mutex_observed_def dest: step_size)

text \<open>No producer is between \<^verbatim>\<open>queueAcquire\<close> and \<^verbatim>\<open>queuePush\<close> with a message of the oldest segment.\<close>

definition oldest_committed :: "conf32 \<Rightarrow> bool" where
  "oldest_committed c \<longleftrightarrow> (\<forall>p off l k. mpc c p \<noteq> Opening (queue_rp (mq c)) off l k \<and> mpc c p \<noteq> Holds (queue_rp (mq c)) off l k)"

lemma idle_segments:
  assumes inv: "minv c b segs" and idle: "oldest_committed c" and more: "concat segs \<noteq> []"
  shows "\<exists>xs B. segs = xs # B \<and> xs \<noteq> [] \<and> open_slots xs = 0"
proof -
  have ok: "segs_ok (mq c) segs" using inv by (simp add: minv_def)
  from more obtain xs B where s: "segs = xs # B" by (cases segs) auto
  have ne: "xs \<noteq> []" using ok more s by (cases B) (auto simp: segs_ok_def)
  have i0: "seg_index (mq c) 0 = queue_rp (mq c)" using ok by (simp add: segs_ok_def seg_index_def)
  have "\<exists>d. x = Full d" if x: "x \<in> set xs" for x
  proof -
    from x obtain us vs where u: "xs = us @ x # vs" by (meson split_list)
    have at: "(seg_index (mq c) 0, 4 + extent us, b + length us, x) \<in> set (all_places (seg_index (mq c)) 0 b segs)"
      using all_places_at [of "seg_index (mq c)" 0 "[]" us b x vs B] by (simp add: s u)
    have "msg_at (msg_buffer (queue (mq c) (seg_index (mq c) 0))) (extent us) x"
      by (rule seg_holds_at) (use segs_ok_at(4) [of "mq c" "[]" xs B] ok s u in simp)
    then show ?thesis using at inv idle unfolding i0 by (cases x) (auto simp: minv_def holders_ok_def oldest_committed_def)
  qed
  then have "open_slots xs = 0" by (induction xs rule: open_slots.induct) auto
  then show ?thesis using s ne by blast
qed

lemma pick_ready:
  assumes inv: "minv c b segs" and s: "segs = xs # B" "xs \<noteq> []" "open_slots xs = 0" and two: "1 < queue_size (mq c)"
  shows "\<exists>i sz q. pick_segment True (mq c) = (Some (i, sz), q)"
proof -
  let ?i = "queue_rp (mq c)"
  have ok: "segs_ok (mq c) segs" using inv by (simp add: minv_def)
  have i0: "seg_index t 0 = queue_rp t" if "segs_ok t zs" for t zs using that by (simp add: segs_ok_def seg_index_def)
  have size: "0 < extent xs" using s(2) by (cases xs) simp_all
  have g: "seg_holds (queue (mq c) ?i) xs" using segs_ok_at(4) [of "mq c" "[]" xs B] ok s i0 [OF ok] by simp
  show ?thesis
  proof (cases "queue_len (mq c) = 1")
    case True
    then have one: "segs = [xs]" using ok s by (auto simp: segs_ok_def)
    then have "[] \<notin> set segs" using s(2) by simp
    from minv_new [OF inv this] True two have "minv (c\<lparr>mq := newSegmentBuffer (mq c)\<rparr>) b (segs @ [[]])" by auto
    then have ok': "segs_ok (newSegmentBuffer (mq c)) ([] @ xs # [[]])" by (simp add: minv_def one)
    have "queue_rp (newSegmentBuffer (mq c)) = ?i" by (simp add: newSegmentBuffer_def Let_def)
    then have "seg_holds (queue (newSegmentBuffer (mq c)) ?i) xs" "queue_len (newSegmentBuffer (mq c)) = 2"
      using segs_ok_at(4) [OF ok'] i0 [OF ok'] ok' by (simp_all add: segs_ok_def)
    then show ?thesis using True g size s(3) by (simp add: pick_segment_def seg_holds_def)
  next
    case False
    then have "1 < queue_len (mq c)" using ok s(1) by (auto simp: segs_ok_def)
    then show ?thesis using g size s(3) by (simp add: pick_segment_def seg_holds_def Let_def)
  qed
qed

text \<open>With at least two segments, the steps of \<^verbatim>\<open>queuePop\<close> and \<^verbatim>\<open>queueRelease\<close> deliver the next messages.\<close>

lemma mutex_consumer_delivers:
  assumes h: "recorded (mutex_init (queueInit32m n)) (mutex_observed late) c h" and two: "1 < n div SIZEOF_SEGMENT"
    and idle: "oldest_committed c" "mcons c = Waiting" and more: "length (mgot c) < length h"
  shows "\<exists>b lost ctr' q c' d ds. queuePop32 True ctr (mq c) = (Some b, lost, ctr', q) \<and> (mutex_step late)\<^sup>*\<^sup>* c c'
    \<and> mq c' = queueRelease32 q \<and> mgot c' = mgot c @ d # ds
    \<and> length (mgot c') \<le> length h \<and> map snd (take (length (mgot c')) h) = map Some (mgot c')"
proof -
  have pos: "0 < n div SIZEOF_SEGMENT" using two by linarith
  from segment_queue.pending [OF h mutex_rep_init [OF pos] mgot_init more] obtain k x ys where
    rep: "mutex_rep c ((k, x) # ys)" by blast
  then obtain b segs where inv: "minv c b segs" and ys: "(k, x) # ys = numbering b (concat segs)" unfolding mutex_rep_def by blast
  define c1 where "c1 = c\<lparr>mq := (mq c)\<lparr>packets_lost32 := 0\<rparr>\<rparr>"
  have inv1: "minv c1 b segs" unfolding c1_def by (rule minv_frame [OF inv]) simp_all
  have 1: "mutex_step late c c1" unfolding c1_def by (rule m_lost [OF idle(2)])
  have "concat segs \<noteq> []" using ys by (cases "concat segs") (simp_all del: concat_eq_Nil_conv)
  from idle_segments [OF inv1 _ this] idle(1) obtain xs B where s: "segs = xs # B" "xs \<noteq> []" "open_slots xs = 0"
    by (auto simp: c1_def oldest_committed_def)
  have "queue_size (mq c1) = n div SIZEOF_SEGMENT"
    using recorded_size [OF h] by (simp add: c1_def mutex_init_def queueInit32m_def newSegment_size)
  from pick_ready [OF inv1 s] two this obtain i sz q where pk: "pick_segment True (mq c1) = (Some (i, sz), q)" by auto
  define c2 where "c2 = c1\<lparr>mcons := Picked i sz, mq := q\<rparr>"
  have w1: "mcons c1 = Waiting" by (simp add: c1_def idle)
  have 2: "mutex_step late c1 c2" unfolding c2_def by (rule m_pick [OF w1 pk])
  define c3 where "c3 = c2\<lparr>mcons := Popped i sz, mq := fst (number_segment (i, sz) ctr (mq c2))\<rparr>"
  have 3: "mutex_step late c2 c3" unfolding c3_def by (rule m_number) (simp add: c2_def)
  define c4 where "c4 = c3\<lparr>mcons := Waiting, mgot := mgot c3 @ the (messages (msg_buffer (queue (mq c3) i)) 0 sz), mq := queueRelease32 (mq c3)\<rparr>"
  have w3: "mcons c3 = Popped i sz" by (simp add: c3_def)
  have 4: "mutex_step late c3 c4" unfolding c4_def by (rule m_release [OF w3])
  have sil: "mutex_observed late c Silent c1" "mutex_observed late c1 Silent c2" "mutex_observed late c2 Silent c3"
    "mutex_observed late c3 Silent c4"
    using 1 2 3 4 by (simp_all add: mutex_observed_def mutex_silent_def c1_def c2_def c3_def c4_def)
  have h4: "recorded (mutex_init (queueInit32m n)) (mutex_observed late) c4 h"
    by (rule rec_silent [OF rec_silent [OF rec_silent [OF rec_silent [OF h sil(1)] sil(2)] sil(3)] sil(4)])
  from minv_pick [OF inv1 w1 pk] obtain zs where z: "minv (c1\<lparr>mq := q\<rparr>) b zs" "picked q zs i sz" by blast
  then have inv2: "minv c2 b zs" by (simp add: minv_def c2_def reader_at_def)
  have inv3: "minv c3 b zs" unfolding c3_def by (rule minv_number [OF inv2]) (simp add: c2_def)
  have "segs_ok (mq c3) zs" "picked (mq c3) zs i sz" using inv3 w3 by (simp_all add: minv_def reader_at_def)
  then obtain ds where d: "messages (msg_buffer (queue (mq c3) i)) 0 sz = Some ds" "ds \<noteq> []" by (rule picked_segment) blast
  then obtain e es where "ds = e # es" by (cases ds) auto
  then have got: "mgot c4 = mgot c @ e # es" using d(1) by (simp add: c4_def) (simp add: c3_def c2_def c1_def)
  have "queuePop32 True ctr (mq c) = (Some (i, sz), packets_lost32 (mq c), snd (number_segment (i, sz) ctr q), fst (number_segment (i, sz) ctr q))"
    unfolding queuePop32_split using pk by (simp add: c1_def split_def)
  moreover have "mq c4 = queueRelease32 (fst (number_segment (i, sz) ctr q))" by (simp add: c4_def c3_def c2_def)
  moreover have "(mutex_step late)\<^sup>*\<^sup>* c c4" using 1 2 3 4 by (meson rtranclp.rtrancl_into_rtrancl rtranclp.rtrancl_refl)
  ultimately show ?thesis using got mutex_in_order [OF h4 pos] by blast
qed

text \<open>With a single segment nothing is ever delivered: the consumer only takes a segment when a newer one exists.\<close>

lemma one_segment_stuck:
  assumes "segs_ok q segs" "queue_size q = 1"
  shows "fst (pick_segment f q) = None"
  using assms by (auto simp: pick_segment_def newSegmentBuffer_def segs_ok_def Let_def)

lemma queueInit32_one_segment: "n < SIZEOF_SEGMENT \<Longrightarrow> queue_size (queueInit32 n) = 1"
  by (simp add: queueInit32_def Let_def newSegment_size align_up_def)

text \<open>Both ways to create a queue.\<close>

definition segment_queue_init :: "bool \<Rightarrow> nat \<Rightarrow> queue32" where
  "segment_queue_init late n = (if late then queueInit32m n else queueInit32 n)"

lemma segment_queue_init_as_m:
  assumes "2 * SIZEOF_SEGMENT \<le> n"
  shows "\<exists>k. segment_queue_init late n = queueInit32m k \<and> 1 < k div SIZEOF_SEGMENT"
proof (cases late)
  case True
  have "2 \<le> n div SIZEOF_SEGMENT" using assms by (simp add: less_eq_div_iff_mult_less_eq)
  then show ?thesis using True by (intro exI [of _ n]) (simp add: segment_queue_init_def)
next
  case False
  define k where "k = align_up CACHE_LINE_SIZE ((n div SIZEOF_SEGMENT + 1) * SIZEOF_SEGMENT)"
  have "2 \<le> n div SIZEOF_SEGMENT" using assms by (simp add: less_eq_div_iff_mult_less_eq)
  then have "2 * SIZEOF_SEGMENT \<le> (n div SIZEOF_SEGMENT + 1) * SIZEOF_SEGMENT" by simp
  also have "\<dots> \<le> k" unfolding k_def by (rule align_up_ge) simp
  finally have "2 \<le> k div SIZEOF_SEGMENT" by (simp add: less_eq_div_iff_mult_less_eq)
  then show ?thesis using False by (intro exI [of _ k]) (simp add: segment_queue_init_def queueInit32_as_m k_def)
qed

lemma segment_queue_delivers:
  assumes h: "recorded (mutex_init (segment_queue_init late n)) (mutex_observed late) c h" and n: "2 * SIZEOF_SEGMENT \<le> n"
  shows "length (mgot c) \<le> length h \<and> map snd (take (length (mgot c)) h) = map Some (mgot c) \<and> distinct (map fst h)"
    and "oldest_committed c \<Longrightarrow> mcons c = Waiting \<Longrightarrow> length (mgot c) < length h \<Longrightarrow>
      \<exists>b lost ctr' q c' d ds. queuePop32 True ctr (mq c) = (Some b, lost, ctr', q) \<and> (mutex_step late)\<^sup>*\<^sup>* c c'
        \<and> mq c' = queueRelease32 q \<and> mgot c' = mgot c @ d # ds
        \<and> length (mgot c') \<le> length h \<and> map snd (take (length (mgot c')) h) = map Some (mgot c')"
proof -
  from segment_queue_init_as_m [OF n] obtain k where
    k: "segment_queue_init late n = queueInit32m k" "1 < k div SIZEOF_SEGMENT" by blast
  have pos: "0 < k div SIZEOF_SEGMENT" using k(2) by linarith
  note h' = h [unfolded k(1)]
  show "length (mgot c) \<le> length h \<and> map snd (take (length (mgot c)) h) = map Some (mgot c) \<and> distinct (map fst h)"
    by (rule mutex_in_order [OF h' pos])
  show "oldest_committed c \<Longrightarrow> mcons c = Waiting \<Longrightarrow> length (mgot c) < length h \<Longrightarrow>
      \<exists>b lost ctr' q c' d ds. queuePop32 True ctr (mq c) = (Some b, lost, ctr', q) \<and> (mutex_step late)\<^sup>*\<^sup>* c c'
        \<and> mq c' = queueRelease32 q \<and> mgot c' = mgot c @ d # ds
        \<and> length (mgot c') \<le> length h \<and> map snd (take (length (mgot c')) h) = map Some (mgot c')"
    by (rule mutex_consumer_delivers [OF h' k(2)])
qed

end
