(* ===== verification/Props_Queue.thy ===== *)
theory Props_Queue
  imports Queue64v_Fifo Queue64v_Dto Queue64f_Dto Queue32_Fifo
begin

text \<open>
  Properties of the lock-free transmit queues
  (\<^verbatim>\<open>src/src/queue64v.c\<close>, \<^verbatim>\<open>src/src/queue64f.c\<close>)
  and of the segment queue (\<^verbatim>\<open>src/src/queue32.c\<close>, \<^verbatim>\<open>src/src/queue32m.c\<close>)
  under every interleaving of any number of producer threads with the consumer. The witnesses follow one producer
  through a complete entry.
\<close>

section \<open>A run\<close>

definition run1 :: conf where
  "run1 = (conc_init 4096)\<lparr>pc := (\<lambda>_. PIdle)(1 := PTail (entry_len_of 8) (tail (cq (conc_init 4096))))\<rparr>"

definition run2 :: conf where
  "run2 = run1\<lparr>pc := (pc run1)(1 := PLoaded (entry_len_of 8) (tail (cq run1)) (head (cq run1)))\<rparr>"

definition run3 :: conf where
  "run3 = run2\<lparr>pc := (pc run2)(1 := PClaimed (entry_len_of 8) (head (cq run2))), cq := claim_entry (head (cq run2)) (entry_len_of 8) (cq run2)\<rparr>"

definition run4 :: conf where
  "run4 = run3\<lparr>pc := (pc run3)(1 := PReserved (entry_len_of 8) (head (cq run2))),
     cq := store_reserved (head (cq run2)) (entry_len_of 8) (cq run3)\<rparr>"

definition run5 :: conf where
  "run5 = run4\<lparr>pc := (pc run4)(1 := PIdle),
     cq := queuePush (payload_offset (cq run4) (head (cq run2)), entry_len_of 8 - QUEUE_ENTRY_USER_HEADER_SIZE) False (cq run4)\<rparr>"

lemmas run_defs = run1_def run2_def run3_def run4_def run5_def conc_init_def

definition run_bytes :: "u8 list" where
  "run_bytes = mem_get (entry_at (cq run4) (head (cq run2)) + QUEUE_ENTRY_HEADER_SIZE) (entry_len_of 8) (qbuf (cq run4))"

lemma run_history: "hreach 4096 run5 [(head (queueInit 4096), Some run_bytes)]"
proof -
  have 1: "hreach 4096 run1 []"
    by (rule h_silent [OF h_init])
      (use qstep.load_tail [of "conc_init 4096" 1 8] in \<open>simp_all add: run1_def conc_init_def silent_def\<close>)
  have 2: "hreach 4096 run2 []"
    by (rule h_silent [OF 1]) (use qstep.load_head [of run1 1] in \<open>simp_all add: run2_def run1_def silent_def\<close>)
  have o: "\<not> queue_overrun (buffer_size (cq run2)) (tail (cq run1)) (head (cq run1)) (entry_len_of 8)"
    by (simp add: run_defs queue_overrun_def queueInit_def queueInitFromMemory_def queueClear_def entry_len_of_def align_up_def Let_def)
  have p2: "pc run2 1 = PLoaded (entry_len_of 8) (tail (cq run1)) (head (cq run2))" by (simp add: run2_def)
  have s3: "qstep run2 run3" unfolding run3_def by (rule qstep.cas_win [OF p2]) (use o in \<open>simp_all add: run2_def\<close>)
  have h2: "head (cq run2) = head (queueInit 4096)" by (simp add: run_defs)
  have 3: "hreach 4096 run3 [(head (cq run2), None)]"
    using h_claim [OF 2 s3, of 1 "entry_len_of 8" "tail (cq run1)" "head (cq run2)"] by (simp add: run2_def run3_def)
  have 4: "hreach 4096 run4 [(head (cq run2), None)]"
    by (rule h_silent [OF 3]) (use qstep.reserve [of run3 1] in \<open>simp_all add: run4_def run3_def silent_def\<close>)
  have p4: "pc run4 1 = PReserved (entry_len_of 8) (head (cq run2))" by (simp add: run4_def)
  have s5: "qstep run4 run5" unfolding run5_def by (rule qstep.push [OF p4])
  have "hreach 4096 run5 (commit_entry (head (cq run2)) run_bytes [(head (cq run2), None)])"
    unfolding run_bytes_def by (rule h_commit [OF 4 s5 p4]) (simp add: run5_def)
  then show ?thesis by (simp add: commit_entry_def h2)
qed

section \<open>Delivery\<close>

text \<open>C3. First in, first out, byte for byte: in every run of the queue - any interleaving of the atomic steps of any number of
  producers (loads of the cursors, compare-and-swap won or lost, header stores, stores into the buffer, pushes) with the
  peeks and releases of the consumer, with wrap-around of the buffer and full queues - the packets that the consumer has received are exactly
  the first reservations in the order in which they were won, each with the bytes that it had when its producer committed it; no packet
  is lost, duplicated, reordered or overwritten.\<close>

theorem queue_fifo:
  assumes "hreach n c h" and "2128 \<le> n" "n < 2 ^ 31"
  shows "length (got c) \<le> length h \<and> map snd (take (length (got c)) h) = map Some (got c) \<and> distinct (map fst h)"
  by (rule delivered_in_order [OF assms])

lemma queue_fifo_witness:
  "length (got run5) \<le> length [(head (queueInit 4096), Some run_bytes)]
    \<and> map snd (take (length (got run5)) [(head (queueInit 4096), Some run_bytes)]) = map Some (got run5)
    \<and> distinct (map fst [(head (queueInit 4096), Some run_bytes)])"
  by (rule queue_fifo [OF run_history]) simp_all

text \<open>C19. The consumer is not held up: whenever no producer is inside an operation and a reserved packet has not been received yet,
  \<^verbatim>\<open>queuePeek\<close> finds an entry, and the consumer's two steps - which together are \<^verbatim>\<open>queueRelease\<close> - deliver the packet
  of the oldest reservation not yet received.\<close>

theorem queue_progress:
  assumes "hreach n c h" and "2128 \<le> n" "n < 2 ^ 31" and "\<forall>p. pc c p = PIdle" and "cons c = CIdle"
    and "length (got c) < length h"
  shows "\<exists>b lost f q c' d. queuePeek 0 (cq c) = (Some b, lost, f, q) \<and> qstep\<^sup>*\<^sup>* c c' \<and> cq c' = queueRelease b q
    \<and> got c' = got c @ [d] \<and> snd (h ! length (got c)) = Some d"
  by (rule consumer_delivers [OF assms])

lemma queue_progress_witness:
  "\<exists>b lost f q c' d. queuePeek 0 (cq run5) = (Some b, lost, f, q) \<and> qstep\<^sup>*\<^sup>* run5 c' \<and> cq c' = queueRelease b q
    \<and> got c' = got run5 @ [d] \<and> snd ([(head (queueInit 4096), Some run_bytes)] ! length (got run5)) = Some d"
  by (rule queue_progress [OF run_history]) (simp_all add: run_defs)

text \<open>The cursors stay in order and inside the buffer: in every reachable configuration \<open>tail \<le> head \<le> tail + size\<close>, so that no
  producer overwrites what the consumer has not released, and the items between the cursors are what the abstract
  FIFO holds.\<close>

theorem queue_refines_fifo:
  assumes "qreach n c" and "2128 \<le> n" "n < 2 ^ 31"
  shows "tail (cq c) \<le> head (cq c) \<and> head (cq c) \<le> tail (cq c) + buffer_size (cq c)
    \<and> (\<exists>xs. head (cq c) = tail (cq c) + extent xs \<and> freach (slot_items xs, got c))"
  using qreach_sim [OF assms] by (auto simp: conc_inv_def ring_wf_def)

lemma queue_refines_fifo_witness:
  "tail (cq (conc_init 4096)) \<le> head (cq (conc_init 4096))
    \<and> head (cq (conc_init 4096)) \<le> tail (cq (conc_init 4096)) + buffer_size (cq (conc_init 4096))
    \<and> (\<exists>xs. head (cq (conc_init 4096)) = tail (cq (conc_init 4096)) + extent xs \<and> freach (slot_items xs, got (conc_init 4096)))"
  by (rule queue_refines_fifo [OF qreach.qinit]) simp_all

text \<open>One producer at a time: what is acquired, filled and pushed is what the queue holds at its end, padded to a multiple of four
  bytes; a refused acquire leaves the content as it was.\<close>

theorem queue_acquire_push:
  assumes "queue_ok q" and "0 < length p" "length p \<le> XCPTL_MAX_DTO_SIZE"
  shows "case queueAcquire (length p) q of
      (None, q1) \<Rightarrow> queue_ok q1 \<and> queued q1 = queued q
    | (Some b, q1) \<Rightarrow> queue_ok (queuePush b f (queue_put b p q1))
        \<and> (\<exists>m. padded p m \<and> queued (queuePush b f (queue_put b p q1)) = queued q @ [m])"
  using queueAcquire_none [OF assms(1)] queue_send [OF assms(1), of "length p"] assms(2,3)
  by (auto split: prod.split option.split)

lemma queue_acquire_push_witness:
  "case queueAcquire (length [1 :: u8, 2, 3]) (queueInit 4096) of
      (None, q1) \<Rightarrow> queue_ok q1 \<and> queued q1 = queued (queueInit 4096)
    | (Some b, q1) \<Rightarrow> queue_ok (queuePush b True (queue_put b [1, 2, 3] q1))
        \<and> (\<exists>m. padded [1, 2, 3] m \<and> queued (queuePush b True (queue_put b [1, 2, 3] q1)) = queued (queueInit 4096) @ [m])"
  by (rule queue_acquire_push) (use queueInit_ok [of 4096] in simp_all)

section \<open>The queue of fixed-size entries\<close>

definition frun1 :: fconf where
  "frun1 = (fixed_init 4096)\<lparr>fpc := (\<lambda>_. PIdle)(1 := PTail (entry_len_of 8) (f_tail (fq (fixed_init 4096))))\<rparr>"

definition frun2 :: fconf where
  "frun2 = frun1\<lparr>fpc := (fpc frun1)(1 := PLoaded (entry_len_of 8) (f_tail (fq frun1)) (f_head (fq frun1)))\<rparr>"

definition frun3 :: fconf where
  "frun3 = frun2\<lparr>fpc := (fpc frun2)(1 := PClaimed (entry_len_of 8) (f_head (fq frun2))), fq := claim_slot (f_head (fq frun2)) (fq frun2)\<rparr>"

definition frun4 :: fconf where
  "frun4 = frun3\<lparr>fpc := (fpc frun3)(1 := PReserved (entry_len_of 8) (f_head (fq frun2))),
     fq := reserve_slot (f_head (fq frun2)) (entry_len_of 8) (fq frun3)\<rparr>"

definition frun5 :: fconf where
  "frun5 = frun4\<lparr>fpc := (fpc frun4)(1 := PIdle),
     fq := queuePushF (payload_of (fq frun4) (f_head (fq frun2)), entry_len_of 8 - QUEUE_ENTRY_USER_HEADER_SIZE) False (fq frun4)\<rparr>"

lemmas frun_defs = frun1_def frun2_def frun3_def frun4_def frun5_def fixed_init_def

definition frun_bytes :: "u8 list" where
  "frun_bytes = mem_get (entry_of (fq frun4) (f_head (fq frun2)) + 4) (entry_len_of 8) (f_buf (fq frun4))"

lemma frun_history: "recorded (fixed_init 4096) slot_observed frun5 [(f_head (queueInitF 4096), Some frun_bytes)]"
proof -
  have 1: "recorded (fixed_init 4096) slot_observed frun1 []"
    by (rule rec_silent [OF rec_init])
      (use slot_step.f_load_tail [of "fixed_init 4096" 1 8] in \<open>simp add: frun1_def fixed_init_def slot_observed_def slot_silent_def\<close>)
  have 2: "recorded (fixed_init 4096) slot_observed frun2 []"
    by (rule rec_silent [OF 1])
      (use slot_step.f_load_head [of frun1 1] in \<open>simp add: frun2_def frun1_def slot_observed_def slot_silent_def\<close>)
  have o: "\<not> queue_overrun (f_size (fq frun2)) (f_tail (fq frun1)) (f_head (fq frun2)) (entry_len_of 8)"
    by (simp add: frun_defs queue_overrun_def queueInitF_def queueInitFromMemoryF_def queueClearF_def Let_def)
  have p2: "fpc frun2 1 = PLoaded (entry_len_of 8) (f_tail (fq frun1)) (f_head (fq frun2))" by (simp add: frun2_def)
  have s3: "slot_step frun2 frun3" unfolding frun3_def by (rule slot_step.f_cas_win [OF p2 o refl])
  have h2: "f_head (fq frun2) = f_head (queueInitF 4096)" by (simp add: frun_defs)
  have p3: "fpc frun3 1 = PClaimed (entry_len_of 8) (f_head (fq frun2))" by (simp add: frun3_def)
  have "slot_observed frun2 (Claims (f_head (fq frun2))) frun3"
    unfolding slot_observed_def using s3 p2 p3 by auto
  from rec_claims [OF 2 this] have 3: "recorded (fixed_init 4096) slot_observed frun3 [(f_head (fq frun2), None)]" by simp
  have 4: "recorded (fixed_init 4096) slot_observed frun4 [(f_head (fq frun2), None)]"
    by (rule rec_silent [OF 3])
      (use slot_step.f_reserve [OF p3] in \<open>simp add: frun4_def p3 [unfolded One_nat_def] slot_observed_def slot_silent_def\<close>)
  have p4: "fpc frun4 1 = PReserved (entry_len_of 8) (f_head (fq frun2))" by (simp add: frun4_def)
  have s5: "slot_step frun4 frun5" unfolding frun5_def by (rule slot_step.f_push [OF p4])
  have p5: "fpc frun5 1 = PIdle" by (simp add: frun5_def)
  have "slot_observed frun4 (Commits (f_head (fq frun2)) frun_bytes) frun5"
    unfolding slot_observed_def frun_bytes_def using s5 p4 p5 by auto
  from rec_commits [OF 4 this] show ?thesis by (simp add: commit_entry_def h2)
qed

text \<open>C17. The queue of fixed-size entries keeps the same promise: in every interleaving of its atomic steps the consumer has received
  exactly the first reservations in the order in which they were won, each with the bytes that it had when its producer committed it;
  and whenever no producer is inside an operation and a packet is outstanding, \<^verbatim>\<open>queuePeek\<close> finds an entry and the two steps
  of \<^verbatim>\<open>queueRelease\<close> deliver the oldest one.\<close>

theorem fixed_queue_fifo:
  assumes "recorded (fixed_init n) slot_observed c h" and "192 \<le> n" "n < 2 ^ 31"
  shows "length (fgot c) \<le> length h \<and> map snd (take (length (fgot c)) h) = map Some (fgot c) \<and> distinct (map fst h)
    \<and> ((\<forall>p. fpc c p = PIdle) \<and> fcons c = CIdle \<and> length (fgot c) < length h \<longrightarrow>
        (\<exists>b lost f q c' d. queuePeekF 0 (fq c) = (Some b, lost, f, q) \<and> slot_step\<^sup>*\<^sup>* c c' \<and> fq c' = queueReleaseF b q
          \<and> fgot c' = fgot c @ [d] \<and> snd (h ! length (fgot c)) = Some d))"
  using fixed_in_order [OF assms] fixed_consumer_delivers [OF assms] by blast

lemma fixed_queue_fifo_witness:
  "\<exists>b lost f q c' d. queuePeekF 0 (fq frun5) = (Some b, lost, f, q) \<and> slot_step\<^sup>*\<^sup>* frun5 c' \<and> fq c' = queueReleaseF b q
    \<and> fgot c' = fgot frun5 @ [d] \<and> snd ([(f_head (queueInitF 4096), Some frun_bytes)] ! length (fgot frun5)) = Some d"
  using fixed_queue_fifo [OF frun_history] by (simp add: frun_defs)

section \<open>The queue of segments\<close>

definition srun1 :: conf32 where
  "srun1 = (mutex_init (segment_queue_init False 4096))\<lparr>mpc := (\<lambda>_. Idle32)(1 := Holds 0 4 8 0),
     mq := snd (queueAcquire32 8 (segment_queue_init False 4096)), mnext := 1\<rparr>"

definition srun2 :: conf32 where
  "srun2 = srun1\<lparr>mpc := (mpc srun1)(1 := Idle32), mq := queuePush32 (0, 4, 8) False (mq srun1)\<rparr>"

definition srun_bytes :: "u8 list" where
  "srun_bytes = mem_get 4 8 (msg_buffer (queue (mq srun1) 0))"

lemma srun_history: "recorded (mutex_init (segment_queue_init False 4096)) (mutex_observed False) srun2 [(0, Some srun_bytes)]"
proof -
  let ?i = "mutex_init (segment_queue_init False 4096)"
  have a: "queueAcquire32 8 (mq ?i) = (Some (0, 4, 8), mq srun1)"
    by (simp add: srun1_def mutex_init_def segment_queue_init_def queueInit32_def newSegmentBuffer_def queueAcquire32_def
        msg_room_def upd_segment_def seg_index_def Let_def)
      (simp add: align_up_def)
  have "mutex_step False ?i srun1"
    using m_acquire [of ?i 1 False 8 0 4 8 "mq srun1"] a by (simp add: srun1_def mutex_init_def)
  then have "mutex_observed False ?i (Claims 0) srun1" by (simp add: mutex_observed_def srun1_def mutex_init_def)
  from rec_claims [OF rec_init [of ?i "mutex_observed False"] this] have 1: "recorded ?i (mutex_observed False) srun1 [(0, None)]" by simp
  have p: "mpc srun1 1 = Holds 0 4 8 0" by (simp add: srun1_def)
  have "mutex_step False srun1 srun2" unfolding srun2_def by (rule m_push [OF p])
  moreover have "mpc srun2 1 = Idle32" by (simp add: srun2_def)
  ultimately have "mutex_observed False srun1 (Commits 0 srun_bytes) srun2"
    using p unfolding mutex_observed_def srun_bytes_def by auto
  from rec_commits [OF 1 this] show ?thesis by (simp add: commit_entry_def)
qed

text \<open>C18. The queue of segments, in both versions (\<^verbatim>\<open>queue32.c\<close>, \<^verbatim>\<open>queue32m.c\<close>): in every interleaving of the critical
  sections of any number of producers, of what they do outside of them (filling buffers, and in \<^verbatim>\<open>queue32m.c\<close> storing headers), and of
  the consumer, the messages of the segments that the consumer has released are exactly the first reservations in order, each with the bytes that it had when it
  was committed, and untouched until the release. For a buffer of at least two segments: whenever a message is outstanding, the consumer is not holding a segment and no producer
  is between acquiring and committing a message of the oldest segment (whatever producers do in newer ones), \<^verbatim>\<open>queuePop\<close>
  with flush returns a segment, and releasing it has delivered at least one message more.\<close>

theorem segment_queue_fifo:
  assumes "recorded (mutex_init (segment_queue_init late n)) (mutex_observed late) c h" and "2 * SIZEOF_SEGMENT \<le> n"
  shows "length (mgot c) \<le> length h \<and> map snd (take (length (mgot c)) h) = map Some (mgot c) \<and> distinct (map fst h)
    \<and> (oldest_committed c \<and> mcons c = Waiting \<and> length (mgot c) < length h \<longrightarrow>
        (\<exists>b lost ctr' q c' d ds. queuePop32 True ctr (mq c) = (Some b, lost, ctr', q) \<and> (mutex_step late)\<^sup>*\<^sup>* c c'
          \<and> mq c' = queueRelease32 q \<and> mgot c' = mgot c @ d # ds
          \<and> length (mgot c') \<le> length h \<and> map snd (take (length (mgot c')) h) = map Some (mgot c')))"
  using segment_queue_delivers [OF assms] by blast

lemma segment_queue_fifo_witness:
  "\<exists>b lost ctr' q c' d ds. queuePop32 True 7 (mq srun2) = (Some b, lost, ctr', q) \<and> (mutex_step False)\<^sup>*\<^sup>* srun2 c'
    \<and> mq c' = queueRelease32 q \<and> mgot c' = mgot srun2 @ d # ds
    \<and> length (mgot c') \<le> length [(0 :: nat, Some srun_bytes)]
    \<and> map snd (take (length (mgot c')) [(0 :: nat, Some srun_bytes)]) = map Some (mgot c')"
  using segment_queue_fifo [OF srun_history, of 7] by (simp add: oldest_committed_def srun2_def srun1_def mutex_init_def)

end
