(* ===== verification/Xcp_Persist_Round.thy ===== *)
theory Xcp_Persist_Round
  imports Xcp_Persist Xcp_Cal_Create
begin

text \<open>
  The persistence file is a faithful image: what \<^verbatim>\<open>XcpBinWrite\<close> writes, \<^verbatim>\<open>XcpBinLoad\<close> reads back -
  events with name, index, cycle time and priority, segments with name, number, size and reference page - into a
  freshly initialised library. First the fields, then the event records, the segment records, and the whole file.
\<close>

section \<open>Fields\<close>

lemma char_byte_back: "char_of (unat (char_byte c)) = c"
proof -
  have "(of_char c :: nat) < 256" by simp
  then have "unat (char_byte c) = of_char c" by (simp add: char_byte_def unat_of_nat)
  then show ?thesis by simp
qed

lemma char_byte_zero: "char_byte c = 0 \<longleftrightarrow> c = CHR 0x00"
proof
  assume "char_byte c = 0"
  then have "c = char_of (0 :: nat)" using char_byte_back [of c] by (simp only: unat_0)
  then show "c = CHR 0x00" by (simp add: char_of_def)
qed (simp add: char_byte_def)

lemma c_string_pad:
  assumes "CHR 0x00 \<notin> set name"
  shows "c_string (map char_byte name @ replicate k 0 @ r) = (if k = 0 then name @ c_string r else name)"
proof -
  have nz: "\<forall>b \<in> set (map char_byte name). b \<noteq> 0" using assms by (auto simp: char_byte_zero)
  have t: "takeWhile (\<lambda>b. b \<noteq> 0) (map char_byte name @ xs) = map char_byte name @ takeWhile (\<lambda>b. b \<noteq> 0) xs" for xs
    by (rule takeWhile_append2) (use nz in blast)
  have m: "map ((\<lambda>b. char_of (unat b)) \<circ> char_byte) name = name" by (simp add: map_idI char_byte_back)
  show ?thesis by (cases k) (simp_all add: c_string_def t m)
qed

lemma name_field_pad: "CHR 0x00 \<notin> set name \<Longrightarrow> length name \<le> n \<Longrightarrow>
   name_field name n = map char_byte name @ replicate (n - length name) 0"
proof -
  assume a: "CHR 0x00 \<notin> set name" "length name \<le> n"
  then have t: "takeWhile (\<lambda>c. c \<noteq> CHR 0x00) name = name" by (subst takeWhile_eq_all_conv) blast
  show ?thesis unfolding name_field_def t using a(2) by (simp add: zero_pad_def)
qed

lemma length_zero_pad [simp]: "length (zero_pad n d) = n"
  by (simp add: zero_pad_def)

lemma length_name_field [simp]: "length (name_field s n) = n"
  by (simp add: name_field_def)

lemma stored_name:
  assumes "CHR 0x00 \<notin> set name" "length name < n" "n \<le> 128"
  shows "c_string (zero_pad 128 (name_field name n)) = name"
proof -
  have "zero_pad 128 (name_field name n) = map char_byte name @ replicate (128 - length name) 0 @ []"
    using assms by (simp add: name_field_pad zero_pad_def flip: replicate_add)
  then show ?thesis using c_string_pad [OF assms(1), of "128 - length name" "[]"] assms by simp
qed

lemma field_skip: "field_at (length a + k) n (a @ b) = field_at k n b"
  by (simp add: field_at_def)

lemma field_here: "length b = n \<Longrightarrow> field_at (length a) n (a @ b @ c) = b"
  by (simp add: field_at_def)

section \<open>Events\<close>

definition event_storable :: "tXcpEvent \<Rightarrow> bool" where
  "event_storable e \<longleftrightarrow> length (ev_name e) \<le> XCP_MAX_EVENT_NAME \<and> CHR 0x00 \<notin> set (ev_name e)
     \<and> ev_index e < 65536 \<and> cycle_time_ns e < 2 ^ 32"

definition restored :: "tXcpEvent \<Rightarrow> tXcpEvent" where
  "restored e = \<lparr>cycle_time_ns = cycle_time_ns e, ev_index = ev_index e, daq_first = XCP_UNDEFINED_DAQ_LIST,
     ev_flags = (if ev_flags e AND XCP_DAQ_EVENT_FLAG_PRIORITY \<noteq> 0 then XCP_DAQ_EVENT_FLAG_PRIORITY else 0),
     ev_name = ev_name e\<rparr>"

lemma writeEvent_length [simp]: "length (writeEvent s i) = 256"
  by (simp add: writeEvent_def Let_def)

lemma event_fields:
  assumes e: "event_storable (event s i)" and i: "isActivated s" "i < event_count s" "i < 65536"
  defines "d \<equiv> writeEvent s i"
  shows "c_string (drop 128 d) = ev_name (event s i)" "le_value (field_at 2 2 d) = ev_index (event s i)"
    "le_value (field_at 4 4 d) = cycle_time_ns (event s i)" "le_value (field_at 0 2 d) = i"
    "0 < le_value (field_at 8 1 d) \<longleftrightarrow> ev_flags (event s i) AND XCP_DAQ_EVENT_FLAG_PRIORITY \<noteq> 0"
proof -
  let ?e = "event s i"
  have d: "d = le_bytes 2 i @ le_bytes 2 (ev_index ?e) @ le_bytes 4 (cycle_time_ns ?e)
     @ [if ev_flags ?e AND XCP_DAQ_EVENT_FLAG_PRIORITY \<noteq> 0 then 0xFF else 0, 0] @ replicate 118 0
     @ zero_pad 128 (name_field (ev_name ?e) 16)"
    using i by (simp add: d_def writeEvent_def Let_def XcpGetEventIndex_def)
  have "c_string (drop 128 d) = c_string (zero_pad 128 (name_field (ev_name ?e) 16))" by (simp add: d)
  then show "c_string (drop 128 d) = ev_name (event s i)"
    using stored_name [of "ev_name ?e" 16] e by (simp add: event_storable_def)
  show "le_value (field_at 0 2 d) = i" using i(3) by (simp add: d field_at_def le_value_bytes)
  show "le_value (field_at 2 2 d) = ev_index (event s i)"
    using e by (simp add: d field_at_def le_value_bytes event_storable_def)
  show "le_value (field_at 4 4 d) = cycle_time_ns (event s i)"
    using e by (simp add: d field_at_def le_value_bytes event_storable_def)
  show "0 < le_value (field_at 8 1 d) \<longleftrightarrow> ev_flags (event s i) AND XCP_DAQ_EVENT_FLAG_PRIORITY \<noteq> 0"
    by (simp add: d field_at_def)
qed

definition load_upto :: "'a xcp_events_scheme \<Rightarrow> nat \<Rightarrow> 'b xcp_events_scheme \<Rightarrow> 'b xcp_events_scheme" where
  "load_upto s0 k s = s\<lparr>event := (\<lambda>i. if event_count s \<le> i \<and> i < k then restored (event s0 i) else event s i), event_count := k\<rparr>"

lemma load_events_ok:
  assumes s: "isActivated s0" "isActivated s" "event_count s + n = event_count s0" "event_count s0 \<le> XCP_MAX_EVENT_COUNT"
    and e: "\<forall>i < event_count s0. event_storable (event s0 i)"
  shows "load_events (pre @ concat (map (writeEvent s0) [event_count s..<event_count s0]) @ rest) (length pre) errs n s
    = (True, length pre + 256 * n, errs, load_upto s0 (event_count s0) s)"
  using s
proof (induction n arbitrary: pre s)
  case 0
  have "(\<lambda>i. if event_count s \<le> i \<and> i < event_count s then x i else event s i) = event s" for x
    by (rule ext) auto
  with 0 show ?case by (simp add: load_upto_def)
next
  case (Suc n)
  let ?k = "event_count s"
  let ?d = "writeEvent s0 ?k"
  have up: "[?k..<event_count s0] = ?k # [Suc ?k..<event_count s0]" using Suc.prems(3) by (simp add: upt_conv_Cons)
  let ?f = "pre @ ?d @ concat (map (writeEvent s0) [Suc ?k..<event_count s0]) @ rest"
  have f: "pre @ concat (map (writeEvent s0) [?k..<event_count s0]) @ rest = ?f" by (simp add: up)
  have fd: "field_at (length pre) BIN_RECORD ?f = ?d" by (simp add: field_at_def)
  have k: "?k < event_count s0" "?k < 65536" using Suc.prems(3,4) by simp_all
  note fl = event_fields [OF _ Suc.prems(1) k, of, OF e [rule_format, OF k(1)]]
  let ?s1 = "s\<lparr>event := (event s)(?k := restored (event s0 ?k)), event_count := ?k + 1\<rparr>"
  have st: "event_storable (event s0 ?k)" using e k(1) by blast
  have c: "XcpCreateIndexedEvent (ev_name (event s0 ?k)) (ev_index (event s0 ?k)) (cycle_time_ns (event s0 ?k)) p s = (?k, ?s1)"
    if "0 < p \<longleftrightarrow> ev_flags (event s0 ?k) AND XCP_DAQ_EVENT_FLAG_PRIORITY \<noteq> 0" for p
    using Suc.prems st that by (simp add: XcpCreateIndexedEvent_def restored_def event_storable_def STRNLEN_def strncpy_z_def Let_def)
  have IH: "load_events ((pre @ ?d) @ concat (map (writeEvent s0) [event_count ?s1..<event_count s0]) @ rest) (length (pre @ ?d)) errs n ?s1
    = (True, length (pre @ ?d) + 256 * n, errs, load_upto s0 (event_count s0) ?s1)"
    by (rule Suc.IH) (use Suc.prems in \<open>simp_all add: isActivated_def\<close>)
  have u: "load_upto s0 (event_count s0) ?s1 = load_upto s0 (event_count s0) s"
    using k by (auto simp: load_upto_def fun_eq_iff)
  have "?k \<noteq> XCP_UNDEFINED_EVENT_ID" using k Suc.prems(4) by simp
  then show ?case unfolding f using IH c [OF fl(5)] u
    by (simp add: fd [simplified] fl Let_def add.commute)
qed

section \<open>Segments\<close>

definition seg_storable :: "tXcpCalSeg \<Rightarrow> bool" where
  "seg_storable c \<longleftrightarrow> length (calseg_name c) \<le> XCP_MAX_CALSEG_NAME \<and> CHR 0x00 \<notin> set (calseg_name c)
     \<and> 0 < seg_bytes c \<and> seg_bytes c \<le> 65528 \<and> calseg_number c < 256"

text \<open>What is stored of a segment.\<close>

definition seg_image :: "'a xcp_cal_scheme \<Rightarrow> nat \<Rightarrow> u8 list" where
  "seg_image s i = calseg_record s i @ page_data (CalSegPtr s i) 0"

lemma record_length [simp]: "length (calseg_record s i) = 256"
  by (simp add: calseg_record_def Let_def)

lemma record_fields:
  assumes c: "seg_storable (CalSegPtr s i)" and i: "i < 65536"
  defines "d \<equiv> calseg_record s i"
  shows "c_string (drop 128 d) = calseg_name (CalSegPtr s i)" "le_value (field_at 2 2 d) = seg_bytes (CalSegPtr s i)"
    "le_value (field_at 9 1 d) = calseg_number (CalSegPtr s i)" "le_value (field_at 0 2 d) = i"
proof -
  let ?c = "CalSegPtr s i"
  have d: "d = le_bytes 2 i @ le_bytes 2 (seg_bytes ?c) @ le_bytes 4 (XcpGetCalSegBaseAddress i s) @ [0, of_nat (calseg_number ?c)]
     @ replicate 118 0 @ zero_pad 128 (name_field (calseg_name ?c) 24)"
    by (simp add: d_def calseg_record_def Let_def)
  have "c_string (drop 128 d) = c_string (zero_pad 128 (name_field (calseg_name ?c) 24))" by (simp add: d)
  then show "c_string (drop 128 d) = calseg_name ?c"
    using stored_name [of "calseg_name ?c" 24] c by (simp add: seg_storable_def)
  show "le_value (field_at 0 2 d) = i" using i by (simp add: d field_at_def le_value_bytes)
  show "le_value (field_at 2 2 d) = seg_bytes ?c" using c by (simp add: d field_at_def le_value_bytes seg_storable_def)
  show "le_value (field_at 9 1 d) = calseg_number ?c"
    using c by (simp add: d field_at_def seg_storable_def unat_of_nat)
qed

text \<open>Writing changes only the remembered file positions.\<close>

lemma write_calsegs_image:
  assumes "\<forall>i \<in> set is. 0 < seg_bytes (CalSegPtr s i)"
  shows "\<exists>s1. write_calsegs f is s = (True, f @ concat (map (seg_image s) is), s1)"
proof -
  have same: "seg_image (upd_calseg j (\<lambda>c. c\<lparr>file_pos := n\<rparr>) t) i = seg_image t i"
    "seg_bytes (CalSegPtr (upd_calseg j (\<lambda>c. c\<lparr>file_pos := n\<rparr>) t) i) = seg_bytes (CalSegPtr t i)" for i j n and t :: "'a xcp_cal_scheme"
    by (auto simp: seg_image_def calseg_record_def upd_calseg_def CalSegPtr_def XcpGetCalSegBaseAddress_def Let_def page_data_def)
  then have img: "seg_image (upd_calseg j (\<lambda>c. c\<lparr>file_pos := n\<rparr>) t) = seg_image t" for j n and t :: "'a xcp_cal_scheme" by blast
  show ?thesis using assms
  proof (induction "is" arbitrary: f s)
    case (Cons i "is")
    let ?s = "upd_calseg i (\<lambda>c. c\<lparr>file_pos := length f mod 2 ^ 32\<rparr>) s"
    from Cons.IH [of ?s "f @ seg_image s i"] Cons.prems obtain s1 where
      "write_calsegs (f @ seg_image s i) is ?s = (True, (f @ seg_image s i) @ concat (map (seg_image ?s) is), s1)"
      unfolding img by (auto simp: same)
    then show ?case using Cons.prems by (simp add: writeCalseg_def Let_def seg_image_def [of s i] page_data_def img)
  qed simp
qed

text \<open>What a load gives for segment \<open>i\<close>.\<close>

definition seg_restored :: "tXcpCalSeg \<Rightarrow> tXcpCalSeg \<Rightarrow> bool" where
  "seg_restored c c' \<longleftrightarrow> calseg_name c' = calseg_name c \<and> calseg_number c' = calseg_number c \<and> seg_bytes c' = seg_bytes c
     \<and> page_data c' 0 = page_data c 0 \<and> reader_view c' = page_data c 0 \<and> client_view c' = page_data c 0"

text \<open>The numbers of memory segments count up, blocks have number 255.\<close>

definition memory_below :: "'a xcp_cal_scheme \<Rightarrow> nat \<Rightarrow> nat" where
  "memory_below s i = length (filter (\<lambda>k. calseg_number (CalSegPtr s k) \<noteq> XCP_UNDEFINED_CALSEG_NUM) [0..<i])"

definition numbered :: "'a xcp_cal_scheme \<Rightarrow> bool" where
  "numbered s \<longleftrightarrow> (\<forall>i < XcpGetCalSegCount s. calseg_number (CalSegPtr s i) \<in> {XCP_UNDEFINED_CALSEG_NUM, memory_below s i})
     \<and> XcpGetCalSegCount s < XCP_MAX_CALSEG_COUNT"

definition blocks_upto :: "'a xcp_cal_scheme \<Rightarrow> nat \<Rightarrow> nat" where
  "blocks_upto s i = sum_list (map (\<lambda>k. block_size (seg_bytes (CalSegPtr s k))) [0..<i])"

lemma preloaded:
  assumes s: "isActivated s" "calseg_count s = i" "i < XCP_MAX_CALSEG_COUNT - 1"
    and n: "0 < n" "n \<le> 65528" "length d = n" and room: "cal_mem_used s + block_size n \<le> XCP_CAL_MEM_SIZE"
    and num: "number = XCP_UNDEFINED_CALSEG_NUM \<or> number = memory_segment_count s" "number < 256"
    and name: "length name \<le> XCP_MAX_CALSEG_NAME" and c: "c = init_calseg True name number n d (cal_pool s (cal_mem_used s))"
  shows "XcpCreateCalSegPreloaded name n i number (d @ r) pos s = Some (i,
    s\<lparr>cal_mem_used := cal_mem_used s + block_size n,
      memory_segment_count := (if number \<noteq> XCP_UNDEFINED_CALSEG_NUM then memory_segment_count s + 1 else memory_segment_count s),
      cal_pool := (cal_pool s)(cal_mem_used s := c\<lparr>seg_mode := PAG_PROPERTY_PRELOAD, file_pos := pos\<rparr>),
      calseg_offset := (calseg_offset s)(i := cal_mem_used s), calseg_count := i + 1\<rparr>)"
proof -
  have b: "XCP_CALSEG_HEADER_SIZE + CALSEG_PAGE_COUNT * aligned_page_size n = block_size n"
    using aligned_page_size_small [OF n(2)] by (simp add: block_size_def)
  have al: "XcpCalMemAlloc (block_size n) s = (Some (cal_mem_used s), s\<lparr>cal_mem_used := cal_mem_used s + block_size n\<rparr>)"
    using room by (simp add: XcpCalMemAlloc_def Let_def)
  have a: "session_status s AND SS_ACTIVATED \<noteq> 0" using s(1) by (simp add: isActivated_def)
  let ?m = "if number \<noteq> XCP_UNDEFINED_CALSEG_NUM then memory_segment_count s + 1 else memory_segment_count s"
  define s3 where "s3 = s\<lparr>cal_mem_used := cal_mem_used s + block_size n, memory_segment_count := ?m,
      cal_pool := (cal_pool s)(cal_mem_used s := c), calseg_offset := (calseg_offset s)(i := cal_mem_used s), calseg_count := i + 1\<rparr>"
  have impl: "XcpCreateCalSeg_impl name False (PageFile (d @ r)) n (number \<noteq> XCP_UNDEFINED_CALSEG_NUM) s = Some (finish_calseg n i s3)"
    using s a n num by (auto simp: XcpCreateCalSeg_impl_def b al XcpInitCalSeg_def XcpRegisterCalSeg_def Let_def
        isActivated_def XcpGetCalSegCount_def c s3_def)
  have ptr: "CalSegPtr s3 i = c" by (simp add: s3_def CalSegPtr_def)
  have "finish_calseg n i s3 = (i, s3) \<or> finish_calseg n i s3 = (i, upd_calseg i (\<lambda>c. c\<lparr>seg_mode := 0\<rparr>) s3)"
    by (simp add: finish_calseg_def ptr c)
  then show ?thesis
  proof
    assume "finish_calseg n i s3 = (i, s3)"
    then show ?thesis using impl num by (simp add: XcpCreateCalSegPreloaded_def ptr upd_calseg_def) (simp add: s3_def c)
  next
    assume "finish_calseg n i s3 = (i, upd_calseg i (\<lambda>c. c\<lparr>seg_mode := 0\<rparr>) s3)"
    then show ?thesis using impl num
      by (simp add: XcpCreateCalSegPreloaded_def ptr upd_calseg_def) (simp add: s3_def c CalSegPtr_def)
  qed
qed

definition loaded :: "'a xcp_cal_scheme \<Rightarrow> nat \<Rightarrow> 'b xcp_cal_scheme \<Rightarrow> bool" where
  "loaded s0 i s \<longleftrightarrow> isActivated s \<and> calseg_count s = i \<and> cal_mem_used s = blocks_upto s0 i
     \<and> memory_segment_count s = memory_below s0 i
     \<and> (\<forall>k < i. calseg_offset s k = blocks_upto s0 k \<and> seg_restored (CalSegPtr s0 k) (CalSegPtr s k))"

definition persistable :: "'a xcp_cal_scheme \<Rightarrow> bool" where
  "persistable s0 \<longleftrightarrow> numbered s0 \<and> (\<forall>i < XcpGetCalSegCount s0. seg_storable (CalSegPtr s0 i))
     \<and> blocks_upto s0 (XcpGetCalSegCount s0) \<le> XCP_CAL_MEM_SIZE"

lemma blocks_mono: "j \<le> i \<Longrightarrow> blocks_upto s j \<le> blocks_upto s i"
  by (induction i) (auto simp: blocks_upto_def le_Suc_eq)

lemma blocks_less: "k < i \<Longrightarrow> blocks_upto s k < blocks_upto s i"
  using blocks_mono [of "Suc k" i s] block_size_pos [of "seg_bytes (CalSegPtr s k)"] by (simp add: blocks_upto_def)

lemma marked_views:
  "page_data (c\<lparr>seg_mode := m, file_pos := q\<rparr>) p = page_data c p" "client_view (c\<lparr>seg_mode := m, file_pos := q\<rparr>) = client_view c"
  "reader_view (c\<lparr>seg_mode := m, file_pos := q\<rparr>) = reader_view c"
  by (simp_all add: page_data_def client_view_def reader_view_def)

lemma load_step:
  assumes p: "persistable s0" and i: "i < XcpGetCalSegCount s0" and l: "loaded s0 i s"
  defines "c0 \<equiv> CalSegPtr s0 i"
  shows "\<exists>t. XcpCreateCalSegPreloaded (calseg_name c0) (seg_bytes c0) i (calseg_number c0) (page_data c0 0 @ r) pos s = Some (i, t)
    \<and> loaded s0 (Suc i) t \<and> event t = event s \<and> event_count t = event_count s"
proof -
  let ?n = "seg_bytes c0"
  define c where "c = init_calseg True (calseg_name c0) (calseg_number c0) ?n (page_data c0 0) (cal_pool s (cal_mem_used s))"
  have st: "seg_storable c0" and num: "calseg_number c0 \<in> {XCP_UNDEFINED_CALSEG_NUM, memory_below s0 i}"
    and N: "XcpGetCalSegCount s0 < XCP_MAX_CALSEG_COUNT" and B: "blocks_upto s0 (XcpGetCalSegCount s0) \<le> XCP_CAL_MEM_SIZE"
    using p i by (auto simp: persistable_def numbered_def c0_def)
  have s: "isActivated s" "calseg_count s = i" "cal_mem_used s = blocks_upto s0 i" "memory_segment_count s = memory_below s0 i"
    and old: "\<forall>k < i. calseg_offset s k = blocks_upto s0 k \<and> seg_restored (CalSegPtr s0 k) (CalSegPtr s k)"
    using l by (simp_all add: loaded_def)
  have n: "0 < ?n" "?n \<le> 65528" "length (page_data c0 0) = ?n" using st by (simp_all add: seg_storable_def page_data_def mem_get_def)
  have bs: "blocks_upto s0 (Suc i) = cal_mem_used s + block_size ?n" using s(3) by (simp add: blocks_upto_def c0_def)
  have room: "cal_mem_used s + block_size ?n \<le> XCP_CAL_MEM_SIZE" using blocks_mono [of "Suc i" _ s0] i B bs by (metis Suc_leI le_trans)
  let ?m = "if calseg_number c0 \<noteq> XCP_UNDEFINED_CALSEG_NUM then memory_segment_count s + 1 else memory_segment_count s"
  define t where "t = s\<lparr>cal_mem_used := cal_mem_used s + block_size ?n, memory_segment_count := ?m,
      cal_pool := (cal_pool s)(cal_mem_used s := c\<lparr>seg_mode := PAG_PROPERTY_PRELOAD, file_pos := pos\<rparr>),
      calseg_offset := (calseg_offset s)(i := cal_mem_used s), calseg_count := i + 1\<rparr>"
  have cr: "XcpCreateCalSegPreloaded (calseg_name c0) ?n i (calseg_number c0) (page_data c0 0 @ r) pos s = Some (i, t)"
    unfolding t_def by (rule preloaded [OF s(1,2) _ n room]) (use i N num st s c_def in \<open>auto simp: seg_storable_def\<close>)
  have ini: "page_data c 0 = page_data c0 0" "client_view c = page_data c0 0" "reader_view c = page_data c0 0"
    using init_calseg_ok(2-4) [OF n c_def] by simp_all
  have "seg_restored c0 (c\<lparr>seg_mode := md, file_pos := pos\<rparr>)" for md
    using ini st by (simp add: seg_restored_def marked_views) (simp add: c_def STRNLEN_def seg_storable_def)
  then have new: "seg_restored c0 (CalSegPtr t i)" by (simp add: t_def CalSegPtr_def)
  have keep: "calseg_offset t k = blocks_upto s0 k \<and> CalSegPtr t k = CalSegPtr s k" if "k < i" for k
    using that old blocks_less [OF that, of s0] s(3) by (simp add: t_def CalSegPtr_def)
  have "memory_segment_count t = memory_below s0 (Suc i)" using num s(4) by (simp add: t_def memory_below_def c0_def)
  moreover have "isActivated t" "calseg_count t = Suc i" "cal_mem_used t = blocks_upto s0 (Suc i)" "calseg_offset t i = blocks_upto s0 i"
    using s bs by (simp_all add: t_def isActivated_def)
  ultimately have "loaded s0 (Suc i) t" using keep old new by (auto simp: loaded_def less_Suc_eq c0_def)
  moreover have "event t = event s" "event_count t = event_count s" by (simp_all add: t_def)
  ultimately show ?thesis using cr by blast
qed

lemma load_calsegs_ok:
  assumes p: "persistable s0" and l: "loaded s0 i s" and n: "i + n = XcpGetCalSegCount s0"
  shows "\<exists>t. load_calsegs (pre @ concat (map (seg_image s0) [i..<XcpGetCalSegCount s0])) (length pre) errs n s = Some (True, errs, t)
    \<and> loaded s0 (XcpGetCalSegCount s0) t \<and> event t = event s \<and> event_count t = event_count s"
  using l n
proof (induction n arbitrary: pre i s)
  case (Suc n)
  let ?N = "XcpGetCalSegCount s0" and ?c = "CalSegPtr s0 i"
  have i: "i < ?N" using Suc.prems(2) by simp
  then have up: "[i..<?N] = i # [Suc i..<?N]" by (simp add: upt_conv_Cons)
  let ?r = "concat (map (seg_image s0) [Suc i..<?N])"
  let ?f = "pre @ calseg_record s0 i @ page_data ?c 0 @ ?r"
  have f: "pre @ concat (map (seg_image s0) [i..<?N]) = ?f" by (simp add: up seg_image_def)
  have st: "seg_storable ?c" and num: "calseg_number ?c \<in> {XCP_UNDEFINED_CALSEG_NUM, memory_below s0 i}" and N: "?N < 8"
    using p i by (auto simp: persistable_def numbered_def)
  have mem: "memory_segment_count s = memory_below s0 i" using Suc.prems(1) by (simp add: loaded_def)
  have i16: "i < 65536" using i N by simp
  note fl = record_fields [OF st i16]
  have fd: "field_at (length pre) BIN_RECORD ?f = calseg_record s0 i" by (simp add: field_at_def)
  have rest: "drop (length pre + 256) ?f = page_data ?c 0 @ ?r" by simp
  have sz: "length (page_data ?c 0) = seg_bytes ?c" by (simp add: page_data_def mem_get_def)
  have nb: "\<not> (calseg_number ?c \<noteq> 255 \<and> 255 \<le> memory_segment_count s)" using num mem st by (auto simp: seg_storable_def)
  obtain s1 where s1: "XcpCreateCalSegPreloaded (calseg_name ?c) (seg_bytes ?c) i (calseg_number ?c) (page_data ?c 0 @ ?r)
      (length pre mod 2 ^ 32) s = Some (i, s1)" "loaded s0 (Suc i) s1"
      "event s1 = event s" "event_count s1 = event_count s"
    using load_step [OF p i Suc.prems(1)] by blast
  have "\<exists>t. load_calsegs ((pre @ seg_image s0 i) @ concat (map (seg_image s0) [Suc i..<?N])) (length (pre @ seg_image s0 i)) errs n s1
      = Some (True, errs, t) \<and> loaded s0 ?N t \<and> event t = event s1 \<and> event_count t = event_count s1"
    by (rule Suc.IH [OF s1(2)]) (use Suc.prems(2) in simp)
  then obtain t where t: "load_calsegs ?f (length pre + 256 + seg_bytes ?c) errs n s1 = Some (True, errs, t)" "loaded s0 ?N t"
      "event t = event s" "event_count t = event_count s" using s1(3,4)
    by (auto simp: seg_image_def sz add.assoc)
  have "i \<noteq> XCP_UNDEFINED_CALSEG" using i N by simp
  then show ?case unfolding f using t s1(1)
    by (simp only: load_calsegs.simps Let_def fd fl rest nb if_False) (simp add: sz)
qed auto

section \<open>The file\<close>

theorem write_load:
  assumes s0: "isActivated s0" "event_count s0 \<le> XCP_MAX_EVENT_COUNT" "\<forall>i < event_count s0. event_storable (event s0 i)" "persistable s0"
    and w: "bin_writable ap" "XcpBinWrite ap e s0 = (ok, s1)"
    and s: "isActivated s" "event_count s = 0" "calseg_count s = 0" "cal_mem_used s = 0" "memory_segment_count s = 0"
  shows "ok \<and> (\<exists>t. load_file (bin_files s1 (XcpBinGetFilename s0)) None s = Some (True, t)
    \<and> event_count t = event_count s0 \<and> (\<forall>i < event_count s0. event t i = restored (event s0 i))
    \<and> XcpGetCalSegCount t = XcpGetCalSegCount s0
    \<and> (\<forall>i < XcpGetCalSegCount s0. seg_restored (CalSegPtr s0 i) (CalSegPtr t i)))"
proof -
  let ?E = "event_count s0" and ?N = "XcpGetCalSegCount s0"
  let ?h = "writeHeader e ?E ?N 0"
  let ?ev = "concat (map (writeEvent s0) [0..<?E])" and ?sg = "concat (map (seg_image s0) [0..<?N])"
  let ?f = "?h @ ?ev @ ?sg"
  have hl: "length ?h = 256" by (simp add: writeHeader_def)
  have "\<forall>i \<in> set [0..<?N]. 0 < seg_bytes (CalSegPtr s0 i)" using s0(4) by (auto simp: persistable_def seg_storable_def)
  from write_calsegs_image [OF this, of "?h @ ?ev"] obtain s2 where
    ws: "write_calsegs (?h @ ?ev) [0..<?N] s0 = (True, ?f, s2)" by auto
  then have ok: ok and fl: "bin_files s1 (XcpBinGetFilename s0) = Some ?f"
    using w s0(1) by (auto simp: XcpBinWrite_def Let_def XcpGetEventCount_def)
  have N: "?N < 8" using s0(4) by (simp add: persistable_def numbered_def)
  have sig: "c_string (field_at 0 16 ?f) = BIN_SIGNATURE"
  proof -
    have "field_at 0 16 ?f = name_field BIN_SIGNATURE 16" by (simp add: writeHeader_def field_at_def)
    also have "\<dots> = map char_byte BIN_SIGNATURE @ replicate 1 0 @ []" by (subst name_field_pad) simp_all
    finally show ?thesis using c_string_pad [of BIN_SIGNATURE 1 "[]"] by simp
  qed
  have hd: "le_value (field_at 16 2 ?f) = BIN_VERSION" "le_value (field_at 18 2 ?f) = ?E" "le_value (field_at 20 2 ?f) = ?N"
    using s0(2) N by (simp_all add: writeHeader_def field_at_def le_value_bytes)
  let ?t1 = "load_upto s0 ?E s"
  have ev: "load_events ?f 256 0 ?E s = (True, 256 + 256 * ?E, 0, ?t1)"
    using load_events_ok [OF s0(1) s(1) _ s0(2,3), of ?E ?h ?sg 0] s(2) hl by simp
  have l0: "loaded s0 0 ?t1" using s by (simp add: loaded_def load_upto_def blocks_upto_def memory_below_def isActivated_def)
  obtain t where t: "load_calsegs ?f (256 + 256 * ?E) 0 ?N ?t1 = Some (True, 0, t)" "loaded s0 ?N t"
      "event t = event ?t1" "event_count t = event_count ?t1"
    using load_calsegs_ok [OF s0(4) l0, of ?N "?h @ ?ev" 0] hl by (auto simp: length_concat comp_def sum_list_triv mult.commute)
  have c0: "XcpGetCalSegCount ?t1 = 0" "XcpGetEventCount s = 0" using s
    by (simp_all add: load_upto_def XcpGetCalSegCount_def XcpGetEventCount_def)
  have "load_file (Some ?f) None s = Some (True, t)"
    unfolding load_file_def option.case using hl by (simp only: sig hd ev c0 t Let_def prod.case option.map) simp
  then have "load_file (bin_files s1 (XcpBinGetFilename s0)) None s = Some (True, t)" by (simp only: fl)
  moreover have "event_count t = ?E" "\<forall>i < ?E. event t i = restored (event s0 i)"
    using t(3,4) s(2) by (simp_all add: load_upto_def)
  moreover have "XcpGetCalSegCount t = ?N" "\<forall>i < ?N. seg_restored (CalSegPtr s0 i) (CalSegPtr t i)"
    using t(2) by (simp_all add: loaded_def XcpGetCalSegCount_def)
  ultimately show ?thesis using ok by blast
qed

end
