(* ===== verification/Props_Persist.thy ===== *)
theory Props_Persist
  imports Xcp_Persist_Round Xcp_Examples
begin

text \<open>
  Properties of the persistence file (\<^verbatim>\<open>src/src/persistence.c\<close>).
\<close>

text \<open>C5. Written and loaded: a library state whose events and segments fit the file format (names without zero bytes and
  within their fields, numbers counting up, the pages within the pool) is written by \<^verbatim>\<open>XcpBinWrite\<close>, and \<^verbatim>\<open>XcpBinLoad\<close> of that
  file into a freshly initialised library succeeds and restores the same list: every event with its name, instance index, cycle time and priority,
  every segment with its name, number and size, and with the content of its reference page as what readers and client see.\<close>

theorem persistence_roundtrip:
  assumes "isActivated s0" and "event_count s0 \<le> XCP_MAX_EVENT_COUNT" and "\<forall>i < event_count s0. event_storable (event s0 i)"
    and "persistable s0" and "bin_writable ap" and "XcpBinWrite ap e s0 = (ok, s1)"
    and "isActivated s" "event_count s = 0" "calseg_count s = 0" "cal_mem_used s = 0" "memory_segment_count s = 0"
  shows "ok \<and> (\<exists>t. load_file (bin_files s1 (XcpBinGetFilename s0)) None s = Some (True, t)
    \<and> event_count t = event_count s0 \<and> (\<forall>i < event_count s0. event t i = restored (event s0 i))
    \<and> XcpGetCalSegCount t = XcpGetCalSegCount s0
    \<and> (\<forall>i < XcpGetCalSegCount s0. seg_restored (CalSegPtr s0 i) (CalSegPtr t i)))"
  by (rule write_load [OF assms])

definition stored :: xcp where
  "stored = snd (XcpCreateEvent ''task'' 1000 1 with_seg)"

definition blank :: xcp where
  "blank = cold\<lparr>session_status := SS_ACTIVATED\<rparr>"

lemma stored_events: "event_count with_seg = 0"
proof -
  have "XcpCreateCalSeg_impl ''params'' True (PageData example_page) 16 True running = Some (1, with_seg)"
    using with_seg_created(1) running_parts(2) by (simp add: XcpCreateCalSeg_def)
  from create_impl_frame [OF this] have "daq_part with_seg = daq_part running" by (simp add: create_frame_def)
  then show ?thesis by (simp add: daq_part_def running_parts)
qed

lemma stored_ok: "isActivated stored" "event_count stored = 1" "event_storable (event stored 0)" "persistable stored"
proof -
  have e: "stored = with_seg\<lparr>event := (event with_seg)(0 := \<lparr>cycle_time_ns = 1000, ev_index = 0, daq_first = XCP_UNDEFINED_DAQ_LIST,
      ev_flags = XCP_DAQ_EVENT_FLAG_PRIORITY, ev_name = ''task''\<rparr>), event_count := 1\<rparr>"
    using with_seg_ok(5) stored_events
    by (simp add: stored_def XcpCreateEvent_def XcpCreateIndexedEvent_def XcpFindEventInstances_def Let_def STRNLEN_def strncpy_z_def)
  show "isActivated stored" "event_count stored = 1" "event_storable (event stored 0)"
    using with_seg_ok(5) by (simp_all add: e isActivated_def event_storable_def)
  have n: "XcpGetCalSegCount stored = 2" "CalSegPtr stored = CalSegPtr with_seg"
    using with_seg_created(3) with_seg_ok(5) by (simp_all add: e XcpGetCalSegCount_def isActivated_def CalSegPtr_def fun_eq_iff split: if_splits)
  have l: "[0..<2] = [0, Suc 0]" by (simp add: upt_rec)
  show "persistable stored"
    by (simp add: persistable_def numbered_def n less_2_cases_iff seg_storable_def memory_below_def blocks_upto_def l with_seg_first
        with_seg_second with_seg_views block_size_def align_up_def)
qed

lemma persistence_roundtrip_witness:
  "fst (XcpBinWrite example_appl ''v1'' stored)
    \<and> (\<exists>t. load_file (bin_files (snd (XcpBinWrite example_appl ''v1'' stored)) (XcpBinGetFilename stored)) None blank = Some (True, t)
    \<and> event_count t = event_count stored \<and> (\<forall>i < event_count stored. event t i = restored (event stored i))
    \<and> XcpGetCalSegCount t = XcpGetCalSegCount stored
    \<and> (\<forall>i < XcpGetCalSegCount stored. seg_restored (CalSegPtr stored i) (CalSegPtr t i)))"
  by (rule persistence_roundtrip)
    (use stored_ok in \<open>simp_all add: example_appl_def blank_def cold_def static_state_def isActivated_def\<close>)

end
