(* ===== verification/Cal_Rcu_Spec.thy ===== *)
theory Cal_Rcu_Spec
  imports Xcp_Cal_Ops
begin

text \<open>
  What a page exchange between one writer and many readers promises, as an interface that the two algorithms
  of \<^verbatim>\<open>src/src/cal.c\<close> provide: a reader that holds a page reads it one byte at a time while the writer and
  the other readers go on, and what it has read is a version that the writer published, never a mixture of
  two; and a hold that begins later never shows an older version. The laws are about single steps; what they
  give for whole runs is proved here once.
\<close>

text \<open>\<open>held c r\<close> is the page that reader \<open>r\<close> holds with the bytes it has read so far, \<open>content c p\<close> the bytes of
  page \<open>p\<close>, \<open>published c\<close> the versions announced so far in their order, \<open>version c p\<close> the number of the version on
  page \<open>p\<close>, \<open>current c\<close> the version that a new hold gets.\<close>

locale page_exchange =
  fixes step :: "'c \<Rightarrow> 'c \<Rightarrow> bool" and ok :: "'c \<Rightarrow> bool" and held :: "'c \<Rightarrow> nat \<Rightarrow> (nat \<times> u8 list) option"
    and content :: "'c \<Rightarrow> nat \<Rightarrow> u8 list" and published :: "'c \<Rightarrow> u8 list list"
    and version :: "'c \<Rightarrow> nat \<Rightarrow> nat" and current :: "'c \<Rightarrow> nat"
  assumes step_ok: "step c d \<Longrightarrow> ok c \<Longrightarrow> ok d"
    and announce: "step c d \<Longrightarrow> ok c \<Longrightarrow> \<exists>vs. published d = published c @ vs"
    and shown: "ok c \<Longrightarrow> held c r = Some (p, bs) \<Longrightarrow>
      version c p < length (published c) \<and> published c ! version c p = content c p \<and> version c p \<le> current c"
    and stable: "step c d \<Longrightarrow> ok c \<Longrightarrow> held c r = Some (p, bs) \<Longrightarrow> held d r = Some (q, cs) \<Longrightarrow>
      q = p \<and> content d p = content c p \<and> version d p = version c p
      \<and> (cs = bs \<or> length bs < length (content c p) \<and> cs = bs @ [content c p ! length bs])"
    and begins: "step c d \<Longrightarrow> ok c \<Longrightarrow> held c r = None \<Longrightarrow> held d r = Some (q, cs) \<Longrightarrow>
      cs = [] \<and> version d q = current d"
    and forward: "step c d \<Longrightarrow> ok c \<Longrightarrow> current c \<le> current d"
begin

lemma steps_ok: "step\<^sup>*\<^sup>* c d \<Longrightarrow> ok c \<Longrightarrow> ok d"
  by (induction rule: rtranclp_induct) (auto intro: step_ok)

lemma steps_forward: "step\<^sup>*\<^sup>* c d \<Longrightarrow> ok c \<Longrightarrow> current c \<le> current d"
  by (induction rule: rtranclp_induct) (auto intro: order_trans [OF _ forward] steps_ok)

text \<open>No torn reads: the bytes that a reader has read are the beginning of one published version.\<close>

lemma snapshot:
  assumes "step\<^sup>*\<^sup>* c d" and "ok c" and "held c r = None" and "held d r = Some (p, bs)"
  shows "version d p < length (published d) \<and> bs = take (length bs) (published d ! version d p)"
proof -
  have "held d r = Some (p, bs) \<longrightarrow> bs = take (length bs) (content d p)" for p bs
    using assms(1)
  proof (induction arbitrary: p bs rule: rtranclp_induct)
    case base show ?case using assms(3) by simp
  next
    case (step d e)
    have ok: "ok d" by (rule steps_ok [OF step(1) assms(2)])
    show ?case
    proof
      assume h: "held e r = Some (p, bs)"
      show "bs = take (length bs) (content e p)"
      proof (cases "held d r")
        case None
        then show ?thesis using begins [OF step(2) ok None h] by simp
      next
        case (Some a)
        obtain q cs where a: "a = (q, cs)" by (cases a)
        have "cs = take (length cs) (content d q)" using step(3) Some a by blast
        with stable [OF step(2) ok _ h] Some a show ?thesis
          by (auto simp: take_Suc_conv_app_nth)
      qed
    qed
  qed
  with assms(4) have t: "bs = take (length bs) (content d p)" by blast
  with shown [OF steps_ok [OF assms(1,2)] assms(4)] show ?thesis by simp
qed

text \<open>Readers never go back: a hold that begins after \<open>c\<close> shows no older version than any hold at \<open>c\<close>.\<close>

lemma never_older:
  assumes s: "step\<^sup>*\<^sup>* c d" and "ok c" and "held c r = Some (p, bs)" and "held c r' = None" and "held d r' = Some (q, cs)"
  shows "version c p \<le> version d q"
proof -
  have "held d r' = Some (q, cs) \<longrightarrow> current c \<le> version d q" for q cs
    using s
  proof (induction arbitrary: q cs rule: rtranclp_induct)
    case base show ?case using assms(4) by simp
  next
    case (step d e)
    have ok: "ok d" by (rule steps_ok [OF step(1) assms(2)])
    have f: "current c \<le> current e" using steps_forward [OF step(1) assms(2)] forward [OF step(2) ok] by simp
    show ?case
    proof
      assume h: "held e r' = Some (q, cs)"
      show "current c \<le> version e q"
      proof (cases "held d r'")
        case None
        then show ?thesis using begins [OF step(2) ok None h] f by simp
      next
        case (Some a)
        obtain q' cs' where a: "a = (q', cs')" by (cases a)
        show ?thesis using step(3) Some a stable [OF step(2) ok _ h, of q' cs'] by simp
      qed
    qed
  qed
  with assms(5) shown [OF assms(2,3)] show ?thesis by force
qed

end

end
