(* ===== verification/Cal_Rcu_Lock.thy ===== *)
theory Cal_Rcu_Lock
  imports Cal_Rcu_Spec
begin

text \<open>
  The page exchange of the default build, lock count and page hand-over (\<^verbatim>\<open>src/src/cal.c\<close>,
  \<^verbatim>\<open>CalSegRcuLock\<close>, \<^verbatim>\<open>CalSegRcuUnlock\<close>, \<^verbatim>\<open>CalSegRcuTryPublish\<close>), interleaved: any number of
  readers and the writer, one step for each access to a shared field and for each byte that is read or written.
  Accesses are sequentially consistent. A nested lock of one thread counts as a reader of its own.
\<close>

section \<open>Configurations and steps\<close>

text \<open>Where a reader is in \<^verbatim>\<open>CalSegRcuLock\<close>. \<open>RFirst\<close> to \<open>RClear\<close> belong to the reader that took the first
  lock: it has read \<open>ecu_page_next\<close> (\<open>RNext\<close>), found a new page (\<open>RSwap\<close>, old and new page), raised the hazard
  flag (\<open>RHazard\<close>), made the new page the ECU page (\<open>RTaken\<close>, it still has to hand back the old one), or found no
  new page (\<open>RClear\<close>). \<open>RHold\<close> has the lock on a page and has read some bytes of it.\<close>

datatype reader = RIdle | RFirst | RNext nat | RSwap nat nat | RHazard nat nat | RTaken nat | RClear
  | RAccess | REcu | RHold nat "u8 list"

text \<open>Where the writer is in \<^verbatim>\<open>CalSegRcuTryPublish\<close>: \<open>WFree\<close> has read the free page, \<open>WSafe\<close> also the hazard
  flag, \<open>WCopy\<close> has taken the page and copied some bytes, \<open>WAnnounce\<close> has moved the client to it.\<close>

datatype writer = WIdle | WFree nat | WSafe nat | WCopy nat nat | WAnnounce nat

record rcu_conf =
  seg :: tXcpCalSeg
  rd :: "nat \<Rightarrow> reader"
  wr :: writer
  versions :: "u8 list list"
  page_version :: "nat \<Rightarrow> nat"

inductive rcu_step :: "rcu_conf \<Rightarrow> rcu_conf \<Rightarrow> bool" where
  r_lock: "rd c r = RIdle \<Longrightarrow> lock_count (seg c) < 65535 \<Longrightarrow>
    rcu_step c (c\<lparr>rd := (rd c)(r := if lock_count (seg c) = 0 then RFirst else RAccess),
      seg := (seg c)\<lparr>lock_count := (lock_count (seg c) + 1) mod 65536\<rparr>\<rparr>)"
| r_next: "rd c r = RFirst \<Longrightarrow> rcu_step c (c\<lparr>rd := (rd c)(r := RNext (ecu_page_next (seg c)))\<rparr>)"
| r_compare: "rd c r = RNext n \<Longrightarrow>
    rcu_step c (c\<lparr>rd := (rd c)(r := if ecu_page (seg c) \<noteq> n then RSwap (ecu_page (seg c)) n else RClear)\<rparr>)"
| r_hazard: "rd c r = RSwap e n \<Longrightarrow>
    rcu_step c (c\<lparr>rd := (rd c)(r := RHazard e n), seg := (seg c)\<lparr>free_page_hazard := True\<rparr>\<rparr>)"
| r_take: "rd c r = RHazard e n \<Longrightarrow>
    rcu_step c (c\<lparr>rd := (rd c)(r := RTaken e), seg := (seg c)\<lparr>ecu_page := n\<rparr>\<rparr>)"
| r_hand_back: "rd c r = RTaken e \<Longrightarrow>
    rcu_step c (c\<lparr>rd := (rd c)(r := RAccess), seg := (seg c)\<lparr>free_page := e\<rparr>\<rparr>)"
| r_clear: "rd c r = RClear \<Longrightarrow>
    rcu_step c (c\<lparr>rd := (rd c)(r := RAccess), seg := (seg c)\<lparr>free_page_hazard := False\<rparr>\<rparr>)"
| r_access: "rd c r = RAccess \<Longrightarrow>
    rcu_step c (c\<lparr>rd := (rd c)(r := if ecu_access (seg c) \<noteq> XCP_CALPAGE_WORKING_PAGE then RHold 0 [] else REcu)\<rparr>)"
| r_page: "rd c r = REcu \<Longrightarrow> rcu_step c (c\<lparr>rd := (rd c)(r := RHold (ecu_page (seg c)) [])\<rparr>)"
| r_read: "rd c r = RHold p bs \<Longrightarrow> length bs < seg_bytes (seg c) \<Longrightarrow>
    rcu_step c (c\<lparr>rd := (rd c)(r := RHold p (bs @ [seg_mem (seg c) (p + length bs)]))\<rparr>)"
| r_unlock: "rd c r = RHold p bs \<Longrightarrow>
    rcu_step c (c\<lparr>rd := (rd c)(r := RIdle), seg := (seg c)\<lparr>lock_count := (lock_count (seg c) + 65535) mod 65536\<rparr>\<rparr>)"
| w_write: "wr c = WIdle \<Longrightarrow> k < seg_bytes (seg c) \<Longrightarrow>
    rcu_step c (c\<lparr>seg := (seg c)\<lparr>seg_mem := (seg_mem (seg c))(xcp_page (seg c) + k := v)\<rparr>\<rparr>)"
| w_access: "wr c = WIdle \<Longrightarrow> rcu_step c (c\<lparr>seg := (seg c)\<lparr>ecu_access := m\<rparr>\<rparr>)"
| w_free: "wr c = WIdle \<Longrightarrow>
    rcu_step c (c\<lparr>wr := if free_page (seg c) = XCP_CALSEG_NO_PAGE then WIdle else WFree (free_page (seg c))\<rparr>)"
| w_hazard: "wr c = WFree f \<Longrightarrow> rcu_step c (c\<lparr>wr := if free_page_hazard (seg c) then WIdle else WSafe f\<rparr>)"
| w_take: "wr c = WSafe f \<Longrightarrow>
    rcu_step c (c\<lparr>wr := WCopy f 0, seg := (seg c)\<lparr>free_page := XCP_CALSEG_NO_PAGE\<rparr>\<rparr>)"
| w_copy: "wr c = WCopy f i \<Longrightarrow> i < seg_bytes (seg c) \<Longrightarrow>
    rcu_step c (c\<lparr>wr := WCopy f (Suc i),
      seg := (seg c)\<lparr>seg_mem := (seg_mem (seg c))(f + i := seg_mem (seg c) (xcp_page (seg c) + i))\<rparr>\<rparr>)"
| w_move: "wr c = WCopy f i \<Longrightarrow> i = seg_bytes (seg c) \<Longrightarrow>
    rcu_step c (c\<lparr>wr := WAnnounce (xcp_page (seg c)), seg := (seg c)\<lparr>xcp_page := f\<rparr>\<rparr>)"
| w_announce: "wr c = WAnnounce x \<Longrightarrow>
    rcu_step c (c\<lparr>wr := WIdle, seg := (seg c)\<lparr>ecu_page_next := x\<rparr>,
      versions := versions c @ [page_data (seg c) x],
      page_version := (page_version c)(x := length (versions c))\<rparr>)"

inductive_cases rcu_step_E: "rcu_step c d"

text \<open>The start: a segment that \<^verbatim>\<open>CalSegRcuInit\<close> has set up, with its reference page as the first version.\<close>

definition rcu_start :: "tXcpCalSeg \<Rightarrow> rcu_conf" where
  "rcu_start c = (let s = CalSegRcuInit (CalSegAlignedPageSize c) c in
     \<lparr>seg = s, rd = (\<lambda>_. RIdle), wr = WIdle, versions = [page_data s (ecu_page s)], page_version = (\<lambda>_. 0)\<rparr>)"

section \<open>The invariant\<close>

fun leading :: "reader \<Rightarrow> bool" where
  "leading RFirst = True"
| "leading (RNext n) = True"
| "leading (RSwap e n) = True"
| "leading (RHazard e n) = True"
| "leading (RTaken e) = True"
| "leading RClear = True"
| "leading _ = False"

definition locks_ok :: "rcu_conf \<Rightarrow> bool" where
  "locks_ok c \<longleftrightarrow> finite {r. rd c r \<noteq> RIdle} \<and> lock_count (seg c) = card {r. rd c r \<noteq> RIdle} \<and> lock_count (seg c) \<le> 65535
     \<and> (\<forall>r r'. leading (rd c r) \<longrightarrow> leading (rd c r') \<longrightarrow> r = r')"

text \<open>The third page: neither the client's nor the one that new readers get.\<close>

definition third :: "tXcpCalSeg \<Rightarrow> nat \<Rightarrow> bool" where
  "third s p \<longleftrightarrow> p \<in> seg_pages s \<and> p \<noteq> xcp_page s \<and> p \<noteq> ecu_page s"

definition handing :: "(nat \<Rightarrow> reader) \<Rightarrow> bool" where
  "handing f \<longleftrightarrow> (\<exists>r e. f r = RTaken e)"

definition pages_ok :: "rcu_conf \<Rightarrow> bool" where
  "pages_ok c \<longleftrightarrow> (let s = seg c in
     0 < seg_bytes s \<and> seg_bytes s \<le> 65528 \<and> xcp_page s \<in> seg_pages s \<and> ecu_page s \<in> seg_pages s \<and> xcp_page s \<noteq> ecu_page s
     \<and> (case wr c of
          WIdle \<Rightarrow> ecu_page_next s = ecu_page s \<and> third s (free_page s)
            \<or> third s (ecu_page_next s) \<and> free_page s = XCP_CALSEG_NO_PAGE
            \<or> ecu_page_next s = ecu_page s \<and> free_page s = XCP_CALSEG_NO_PAGE \<and> handing (rd c)
        | WFree f \<Rightarrow> ecu_page_next s = ecu_page s \<and> third s f \<and> free_page s = f
        | WSafe f \<Rightarrow> ecu_page_next s = ecu_page s \<and> third s f \<and> free_page s = f
        | WCopy f i \<Rightarrow> ecu_page_next s = ecu_page s \<and> free_page s = XCP_CALSEG_NO_PAGE \<and> third s f \<and> i \<le> seg_bytes s
        | WAnnounce x \<Rightarrow> ecu_page_next s = ecu_page s \<and> free_page s = XCP_CALSEG_NO_PAGE \<and> third s x))"

text \<open>A reader may still hold the page that has just been replaced; then the hazard flag is up, and the writer is not past
  its check.\<close>

definition stale_ok :: "rcu_conf \<Rightarrow> nat \<Rightarrow> bool" where
  "stale_ok c p \<longleftrightarrow> third (seg c) p \<and> ecu_page_next (seg c) = ecu_page (seg c) \<and> free_page_hazard (seg c)
     \<and> (wr c = WIdle \<or> (\<exists>f. wr c = WFree f)) \<and> (\<forall>r. leading (rd c r) \<longrightarrow> (\<exists>e. rd c r = RTaken e))"

definition reader_ok :: "rcu_conf \<Rightarrow> reader \<Rightarrow> bool" where
  "reader_ok c st \<longleftrightarrow> (let s = seg c in case st of
       RNext n \<Rightarrow> n = ecu_page_next s \<or> n = ecu_page s
     | RSwap e n \<Rightarrow> e = ecu_page s \<and> n = ecu_page_next s \<and> e \<noteq> n
     | RHazard e n \<Rightarrow> e = ecu_page s \<and> n = ecu_page_next s \<and> e \<noteq> n \<and> free_page_hazard s
     | RTaken e \<Rightarrow> third s e \<and> ecu_page_next s = ecu_page s \<and> free_page s = XCP_CALSEG_NO_PAGE \<and> free_page_hazard s \<and> wr c = WIdle
     | RHold p bs \<Rightarrow> p = 0 \<or> p = ecu_page s \<or> stale_ok c p
     | _ \<Rightarrow> True)"

lemma reader_ok_simps [simp]:
  "reader_ok c RIdle" "reader_ok c RFirst" "reader_ok c RClear" "reader_ok c RAccess" "reader_ok c REcu"
  "reader_ok c (RNext n) \<longleftrightarrow> n = ecu_page_next (seg c) \<or> n = ecu_page (seg c)"
  "reader_ok c (RSwap e n) \<longleftrightarrow> e = ecu_page (seg c) \<and> n = ecu_page_next (seg c) \<and> e \<noteq> n"
  "reader_ok c (RHazard e n) \<longleftrightarrow> e = ecu_page (seg c) \<and> n = ecu_page_next (seg c) \<and> e \<noteq> n \<and> free_page_hazard (seg c)"
  "reader_ok c (RTaken e) \<longleftrightarrow> third (seg c) e \<and> ecu_page_next (seg c) = ecu_page (seg c)
     \<and> free_page (seg c) = XCP_CALSEG_NO_PAGE \<and> free_page_hazard (seg c) \<and> wr c = WIdle"
  "reader_ok c (RHold p bs) \<longleftrightarrow> p = 0 \<or> p = ecu_page (seg c) \<or> stale_ok c p"
  by (simp_all add: reader_ok_def Let_def)

definition has_version :: "rcu_conf \<Rightarrow> nat \<Rightarrow> bool" where
  "has_version c p \<longleftrightarrow> page_version c p < length (versions c) \<and> versions c ! page_version c p = page_data (seg c) p"

definition versions_ok :: "rcu_conf \<Rightarrow> bool" where
  "versions_ok c \<longleftrightarrow> has_version c (ecu_page (seg c)) \<and> has_version c (ecu_page_next (seg c))
     \<and> page_version c (ecu_page (seg c)) \<le> page_version c (ecu_page_next (seg c))
     \<and> (\<forall>r p bs. rd c r = RHold p bs \<longrightarrow> p \<noteq> 0 \<longrightarrow> has_version c p \<and> page_version c p \<le> page_version c (ecu_page (seg c)))"

definition rcu_inv :: "rcu_conf \<Rightarrow> bool" where
  "rcu_inv c \<longleftrightarrow> locks_ok c \<and> pages_ok c \<and> (\<forall>r. reader_ok c (rd c r)) \<and> versions_ok c"

section \<open>The lock count\<close>

lemma busy_update:
  "{q. (f(r := x)) q \<noteq> RIdle} = (if x = RIdle then {q. f q \<noteq> RIdle} - {r} else insert r {q. f q \<noteq> RIdle})"
  by auto

lemma busy_stays: "f r \<noteq> RIdle \<Longrightarrow> x \<noteq> RIdle \<Longrightarrow> {q. (f(r := x)) q \<noteq> RIdle} = {q. f q \<noteq> RIdle}"
  by auto

lemma unlocked_idle: "locks_ok c \<Longrightarrow> lock_count (seg c) = 0 \<Longrightarrow> rd c r = RIdle"
  by (auto simp: locks_ok_def)

lemma locked_counts: "locks_ok c \<Longrightarrow> rd c r \<noteq> RIdle \<Longrightarrow> 0 < lock_count (seg c)"
  using unlocked_idle by fastforce

lemma locks_unique: "locks_ok c \<Longrightarrow> leading (rd c r) \<Longrightarrow> leading (rd c r') \<Longrightarrow> r = r'"
  by (simp add: locks_ok_def)

text \<open>A reader that goes on with its lock, and does not become the leader unless it is one, keeps the counts.\<close>

lemma locks_go_on:
  assumes "locks_ok c" and "rd c r \<noteq> RIdle" "st \<noteq> RIdle" and "leading st \<longrightarrow> leading (rd c r)"
  shows "locks_ok (c\<lparr>rd := (rd c)(r := st)\<rparr>)"
    "lock_count s = lock_count (seg c) \<Longrightarrow> locks_ok (c\<lparr>rd := (rd c)(r := st), seg := s\<rparr>)"
  using assms by (simp_all add: locks_ok_def busy_stays del: fun_upd_apply) (auto split: if_splits)

lemma locks_writer: "locks_ok c \<Longrightarrow> lock_count s = lock_count (seg c) \<Longrightarrow>
    locks_ok (c\<lparr>seg := s\<rparr>) \<and> locks_ok (c\<lparr>wr := w, seg := s\<rparr>) \<and> locks_ok (c\<lparr>wr := w\<rparr>)
    \<and> locks_ok (c\<lparr>wr := w, seg := s, versions := v, page_version := g\<rparr>)"
  by (simp add: locks_ok_def)

lemma locks_step:
  assumes "rcu_step c d" "locks_ok c"
  shows "locks_ok d"
  using assms(1)
proof (cases rule: rcu_step.cases)
  case (r_lock r)
  let ?B = "{q. rd c q \<noteq> RIdle}"
  have b: "r \<notin> ?B" "finite ?B" "lock_count (seg c) = card ?B" using assms(2) r_lock by (simp_all add: locks_ok_def)
  have "q = q'" if "leading (rd d q)" "leading (rd d q')" for q q'
  proof (cases "lock_count (seg c) = 0")
    case True
    then show ?thesis using that unlocked_idle [OF assms(2) True] r_lock(1) by (simp split: if_splits)
  next
    case False
    then show ?thesis using that locks_unique [OF assms(2)] r_lock(1) by (simp split: if_splits)
  qed
  then show ?thesis using r_lock b by (simp add: locks_ok_def busy_update del: fun_upd_apply)
next
  case (r_unlock r p bs)
  let ?B = "{q. rd c q \<noteq> RIdle}"
  have b: "r \<in> ?B" "finite ?B" "lock_count (seg c) = card ?B" "card ?B \<le> 65535" using assms(2) r_unlock by (simp_all add: locks_ok_def)
  then have "0 < card ?B" by (simp only: card_gt_0_iff) blast
  then have "(card ?B + 65535) mod 65536 = card ?B - 1" using b(4) by (simp add: mod_if)
  moreover have "q = q'" if "leading (rd d q)" "leading (rd d q')" for q q'
    using that locks_unique [OF assms(2)] r_unlock(1) by (simp split: if_splits)
  ultimately show ?thesis using r_unlock b by (simp add: locks_ok_def busy_update del: fun_upd_apply)
qed (use assms(2) locks_go_on [OF assms(2)] locks_writer [OF assms(2)] in \<open>simp_all\<close>)

section \<open>The pages\<close>

lemma handing_stays: "\<forall>e. f r \<noteq> RTaken e \<Longrightarrow> handing f \<Longrightarrow> handing (f(r := st))"
  unfolding handing_def by (metis fun_upd_apply)

lemma third_mem [simp]: "third (s\<lparr>seg_mem := m\<rparr>) = third s" "third (s\<lparr>lock_count := n\<rparr>) = third s"
  "third (s\<lparr>free_page := n\<rparr>) = third s" "third (s\<lparr>free_page_hazard := b\<rparr>) = third s" "third (s\<lparr>ecu_access := n\<rparr>) = third s"
  "third (s\<lparr>ecu_page_next := n\<rparr>) = third s"
  by (simp_all add: third_def fun_eq_iff)

lemma pages_reader:
  assumes "pages_ok c" and "\<forall>e. rd c r \<noteq> RTaken e"
  shows "pages_ok (c\<lparr>rd := (rd c)(r := st)\<rparr>)"
    "pages_ok (c\<lparr>rd := (rd c)(r := st), seg := (seg c)\<lparr>lock_count := n\<rparr>\<rparr>)"
    "pages_ok (c\<lparr>rd := (rd c)(r := st), seg := (seg c)\<lparr>free_page_hazard := b\<rparr>\<rparr>)"
  using assms handing_stays [of "rd c" r st] unfolding pages_ok_def
  by (auto simp: Let_def split: writer.splits simp del: fun_upd_apply)

lemma pages_step:
  assumes "rcu_step c d" "pages_ok c" "\<forall>r. reader_ok c (rd c r)"
  shows "pages_ok d"
  using assms(1)
proof (cases rule: rcu_step.cases)
  case (r_take r e n)
  then show ?thesis using assms(2) assms(3) [rule_format, of r]
    by (auto simp: pages_ok_def reader_ok_def third_def handing_def Let_def split: writer.splits)
next
  case (r_hand_back r e)
  then show ?thesis using assms(2) assms(3) [rule_format, of r]
    by (auto simp: pages_ok_def reader_ok_def third_def handing_def Let_def split: writer.splits)
next
  case (w_free)
  then show ?thesis using assms(2) by (auto simp: pages_ok_def third_def Let_def)
next
  case (w_hazard f)
  then show ?thesis using assms(2) by (auto simp: pages_ok_def third_def Let_def)
next
  case (w_move f i)
  then show ?thesis using assms(2) by (auto simp: pages_ok_def third_def Let_def)
qed (use assms(2) pages_reader [OF assms(2)] in \<open>simp_all\<close>, (simp add: pages_ok_def Let_def)+)

section \<open>The readers\<close>

definition same_pages :: "rcu_conf \<Rightarrow> rcu_conf \<Rightarrow> bool" where
  "same_pages c d \<longleftrightarrow> wr d = wr c \<and> seg_pages (seg d) = seg_pages (seg c) \<and> xcp_page (seg d) = xcp_page (seg c)
     \<and> ecu_page (seg d) = ecu_page (seg c) \<and> ecu_page_next (seg d) = ecu_page_next (seg c) \<and> free_page (seg d) = free_page (seg c)
     \<and> free_page_hazard (seg d) = free_page_hazard (seg c)"

definition no_new_leader :: "rcu_conf \<Rightarrow> rcu_conf \<Rightarrow> bool" where
  "no_new_leader c d \<longleftrightarrow> (\<forall>q. leading (rd d q) \<longrightarrow> rd d q = rd c q \<or> leading (rd c q) \<and> (\<forall>e. rd c q \<noteq> RTaken e))"

lemma leaders_frame: "no_new_leader c d \<Longrightarrow> \<forall>r. leading (rd c r) \<longrightarrow> (\<exists>e. rd c r = RTaken e) \<Longrightarrow>
    \<forall>r. leading (rd d r) \<longrightarrow> (\<exists>e. rd d r = RTaken e)"
  unfolding no_new_leader_def by metis

lemma stale_frame: "same_pages c d \<Longrightarrow> no_new_leader c d \<Longrightarrow> stale_ok c p \<Longrightarrow> stale_ok d p"
  using leaders_frame [of c d] by (simp add: stale_ok_def same_pages_def third_def)

lemma reader_frame:
  assumes "same_pages c d" "no_new_leader c d" "reader_ok c st"
  shows "reader_ok d st"
  using assms(1,3) stale_frame [OF assms(1,2)] by (cases st) (auto simp: same_pages_def third_def)

text \<open>Nobody holds a replaced page while a leader is on its way to the exchange.\<close>

lemma leader_no_stale: "leading (rd c r) \<Longrightarrow> \<forall>e. rd c r \<noteq> RTaken e \<Longrightarrow> \<not> stale_ok c p"
  unfolding stale_ok_def by blast

lemma stale_writer: "stale_ok c p \<Longrightarrow> wr c = WIdle \<or> (\<exists>f. wr c = WFree f)"
  by (simp add: stale_ok_def)

lemma pending_idle: "pages_ok c \<Longrightarrow> ecu_page_next (seg c) \<noteq> ecu_page (seg c) \<Longrightarrow>
    wr c = WIdle \<and> third (seg c) (ecu_page_next (seg c)) \<and> free_page (seg c) = XCP_CALSEG_NO_PAGE"
  by (auto simp: pages_ok_def Let_def split: writer.splits)

lemma readers_step:
  assumes "rcu_step c d" "locks_ok c" "pages_ok c" and ok: "\<forall>r. reader_ok c (rd c r)"
  shows "reader_ok d (rd d q)"
  using assms(1)
proof (cases rule: rcu_step.cases)
  case (r_lock r)
  show ?thesis
  proof (cases "lock_count (seg c) = 0")
    case True
    then show ?thesis using r_lock(1) unlocked_idle [OF assms(2) True] by (simp split: if_splits)
  next
    case False
    then have "same_pages c d" "no_new_leader c d" using r_lock by (simp_all add: same_pages_def no_new_leader_def)
    then show ?thesis using reader_frame [of c d "rd c q"] ok r_lock(1) False by (simp split: if_splits)
  qed
next
  case (r_next r)
  then have "same_pages c d" "no_new_leader c d" by (simp_all add: same_pages_def no_new_leader_def)
  then show ?thesis using reader_frame [of c d "rd c q"] ok r_next by (simp split: if_splits)
next
  case (r_compare r n)
  then have "same_pages c d" "no_new_leader c d" by (simp_all add: same_pages_def no_new_leader_def)
  then show ?thesis using reader_frame [of c d "rd c q"] ok [rule_format, of q] ok [rule_format, of r] r_compare
    by auto
next
  case (r_hazard r e n)
  have "\<not> stale_ok c p" for p by (rule leader_no_stale [of c r]) (simp_all add: r_hazard)
  then show ?thesis using ok [rule_format, of q] ok [rule_format, of r] r_hazard
    by (cases "rd c q") (auto)
next
  case (r_take r e n)
  have s: "\<not> stale_ok c p" for p by (rule leader_no_stale [of c r]) (simp_all add: r_take)
  have e: "e = ecu_page (seg c)" "n = ecu_page_next (seg c)" "e \<noteq> n" "free_page_hazard (seg c)"
    using ok [rule_format, of r] r_take by simp_all
  note p = pending_idle [OF assms(3)]
  have l: "leading (rd c q') \<longrightarrow> q' = r" for q' using locks_unique [OF assms(2), of q' r] r_take by simp
  have x: "xcp_page (seg c) \<in> seg_pages (seg c)" "ecu_page (seg c) \<in> seg_pages (seg c)" "xcp_page (seg c) \<noteq> ecu_page (seg c)"
    using assms(3) by (simp_all add: pages_ok_def Let_def)
  have st: "stale_ok d e" using e p x l r_take by (auto simp: stale_ok_def third_def)
  show ?thesis
  proof (cases "q = r")
    case True
    then show ?thesis using e p x r_take by (auto simp: third_def)
  next
    case False
    then show ?thesis using l [of q] s st e ok [rule_format, of q] r_take
      by (cases "rd c q") (auto)
  qed
next
  case (r_hand_back r e)
  have l: "leading (rd c q') \<longrightarrow> q' = r" for q' using locks_unique [OF assms(2), of q' r] r_hand_back by simp
  have "stale_ok c p \<longrightarrow> stale_ok d p" for p using r_hand_back by (auto simp: stale_ok_def)
  then show ?thesis using l [of q] ok [rule_format, of q] r_hand_back
    by (cases "rd c q") (auto)
next
  case (r_clear r)
  have "\<not> stale_ok c p" for p by (rule leader_no_stale [of c r]) (simp_all add: r_clear)
  moreover have l: "leading (rd c q') \<longrightarrow> q' = r" for q' using locks_unique [OF assms(2), of q' r] r_clear by simp
  ultimately show ?thesis using l [of q] ok [rule_format, of q] r_clear
    by (cases "rd c q") (auto)
next
  case (r_access r)
  then have "same_pages c d" "no_new_leader c d" by (simp_all add: same_pages_def no_new_leader_def)
  then show ?thesis using reader_frame [of c d "rd c q"] ok r_access by (simp split: if_splits)
next
  case (r_page r)
  then have "same_pages c d" "no_new_leader c d" by (simp_all add: same_pages_def no_new_leader_def)
  then show ?thesis using reader_frame [of c d "rd c q"] ok r_page by (simp split: if_splits)
next
  case (r_read r p bs)
  then have f: "same_pages c d" "no_new_leader c d" by (simp_all add: same_pages_def no_new_leader_def)
  have "reader_ok c (RHold p (bs @ [seg_mem (seg c) (p + length bs)]))" using ok [rule_format, of r] r_read by (simp split: if_splits)
  then show ?thesis using reader_frame [OF f] ok r_read by simp
next
  case (r_unlock r p bs)
  then have "same_pages c d" "no_new_leader c d" by (simp_all add: same_pages_def no_new_leader_def)
  then show ?thesis using reader_frame [of c d "rd c q"] ok r_unlock by (simp split: if_splits)
next
  case (w_free)
  have "stale_ok c p \<longrightarrow> stale_ok d p" for p using w_free by (auto simp: stale_ok_def)
  moreover have "rd c q = RTaken e \<longrightarrow> free_page (seg c) = XCP_CALSEG_NO_PAGE" for e
    using ok [rule_format, of q] by (auto)
  ultimately show ?thesis using ok [rule_format, of q] w_free
    by (cases "rd c q") (auto)
next
  case (w_hazard f)
  have "stale_ok c p \<longrightarrow> stale_ok d p" for p using w_hazard by (auto simp: stale_ok_def)
  then show ?thesis using ok [rule_format, of q] w_hazard
    by (cases "rd c q") (auto)
next
  case (w_take f)
  have "\<not> stale_ok c p" for p using stale_writer [of c p] w_take by auto
  then show ?thesis using ok [rule_format, of q] w_take
    by (cases "rd c q") (auto)
next
  case (w_copy f i)
  have "\<not> stale_ok c p" for p using stale_writer [of c p] w_copy by auto
  then show ?thesis using ok [rule_format, of q] w_copy
    by (cases "rd c q") (auto)
next
  case (w_move f i)
  have "\<not> stale_ok c p" for p using stale_writer [of c p] w_move by auto
  then show ?thesis using ok [rule_format, of q] w_move
    by (cases "rd c q") (auto)
next
  case (w_announce x)
  have "\<not> stale_ok c p" for p using stale_writer [of c p] w_announce by auto
  moreover have "ecu_page_next (seg c) = ecu_page (seg c)" using assms(3) w_announce by (simp add: pages_ok_def Let_def)
  ultimately show ?thesis using ok [rule_format, of q] w_announce
    by (cases "rd c q") (auto)
qed (use reader_frame [of c d "rd c q"] ok in \<open>simp_all add: same_pages_def no_new_leader_def\<close>)

section \<open>The versions\<close>

text \<open>A page that the writer does not touch with its next step.\<close>

definition untouched :: "rcu_conf \<Rightarrow> nat \<Rightarrow> bool" where
  "untouched c p \<longleftrightarrow> p \<in> seg_pages (seg c) \<and> p \<noteq> xcp_page (seg c) \<and> (\<forall>f i. wr c = WCopy f i \<longrightarrow> p \<noteq> f)
     \<and> (\<forall>x. wr c = WAnnounce x \<longrightarrow> p \<noteq> x)"

lemma page_data_other:
  "p \<in> seg_pages s \<Longrightarrow> q \<in> seg_pages s \<Longrightarrow> p \<noteq> q \<Longrightarrow> k < seg_bytes s \<Longrightarrow>
     page_data (s\<lparr>seg_mem := (seg_mem s)(q + k := v)\<rparr>) p = page_data s p"
  using seg_pages_disjoint [of p s q] by (auto simp: page_data_def intro!: mem_get_cong)

lemma page_data_fields [simp]:
  "page_data (s\<lparr>lock_count := n\<rparr>) = page_data s" "page_data (s\<lparr>free_page_hazard := b\<rparr>) = page_data s"
  "page_data (s\<lparr>ecu_page := n\<rparr>) = page_data s" "page_data (s\<lparr>free_page := n\<rparr>) = page_data s"
  "page_data (s\<lparr>ecu_access := n\<rparr>) = page_data s" "page_data (s\<lparr>xcp_page := n\<rparr>) = page_data s"
  "page_data (s\<lparr>ecu_page_next := n\<rparr>) = page_data s"
  by (simp_all add: page_data_def fun_eq_iff)

lemma untouched_kept:
  assumes "rcu_step c d" "pages_ok c" "untouched c p"
  shows "page_data (seg d) p = page_data (seg c) p \<and> page_version d p = page_version c p"
  using assms(1)
proof (cases rule: rcu_step.cases)
  case (w_write k v)
  then show ?thesis using assms(2,3) page_data_other [of p "seg c" "xcp_page (seg c)" k v]
    by (simp add: untouched_def pages_ok_def Let_def)
next
  case (w_copy f i)
  have "f \<in> seg_pages (seg c)" "p \<noteq> f" using assms(2,3) w_copy by (simp_all add: untouched_def pages_ok_def third_def Let_def)
  then show ?thesis using assms(3) w_copy page_data_other [of p "seg c" f i] by (simp add: untouched_def)
next
  case (w_announce x)
  then show ?thesis using assms(3) by (simp add: untouched_def)
qed simp_all

lemma step_versions: "rcu_step c d \<Longrightarrow> \<exists>vs. versions d = versions c @ vs"
  by (erule rcu_step.cases) simp_all

lemma version_kept:
  assumes "rcu_step c d" "pages_ok c" "untouched c p" "has_version c p"
  shows "has_version d p"
proof -
  from step_versions [OF assms(1)] obtain vs where "versions d = versions c @ vs" by blast
  then show ?thesis using untouched_kept [OF assms(1-3)] assms(4) by (simp add: has_version_def nth_append)
qed

lemma ecu_untouched: "pages_ok c \<Longrightarrow> untouched c (ecu_page (seg c))" "pages_ok c \<Longrightarrow> untouched c (ecu_page_next (seg c))"
  by (auto simp: pages_ok_def untouched_def third_def Let_def split: writer.splits)

lemma stale_untouched: "stale_ok c p \<Longrightarrow> untouched c p"
  by (auto simp: stale_ok_def untouched_def third_def)

lemma held_untouched:
  assumes "pages_ok c" "reader_ok c (RHold p bs)" "p \<noteq> 0"
  shows "untouched c p"
  using assms ecu_untouched(1) [OF assms(1)] stale_untouched by auto

text \<open>The page for new readers only moves to the announced one, which is not older.\<close>

lemma ecu_moves:
  assumes "rcu_step c d" "\<forall>r. reader_ok c (rd c r)"
  shows "ecu_page (seg d) = ecu_page (seg c) \<or> ecu_page (seg d) = ecu_page_next (seg c) \<and> ecu_page_next (seg d) = ecu_page_next (seg c)"
  using assms(1)
proof (cases rule: rcu_step.cases)
  case (r_take r e n)
  then show ?thesis using assms(2) [rule_format, of r] by simp
qed simp_all

lemma next_moves:
  assumes "rcu_step c d"
  shows "ecu_page_next (seg d) = ecu_page_next (seg c) \<or>
    (\<exists>x. wr c = WAnnounce x \<and> ecu_page_next (seg d) = x \<and> has_version d x \<and> page_version d x = length (versions c) \<and> ecu_page (seg d) = ecu_page (seg c))"
  using assms by (auto elim!: rcu_step.cases simp: has_version_def)

lemma holders:
  assumes "rcu_step c d" "rd d r = RHold p bs" "p \<noteq> 0"
  shows "(\<exists>cs. rd c r = RHold p cs \<and> (bs = cs \<or> length cs < seg_bytes (seg c) \<and> bs = cs @ [seg_mem (seg c) (p + length cs)]))
    \<or> rd c r = REcu \<and> p = ecu_page (seg c) \<and> bs = [] \<and> ecu_page (seg d) = ecu_page (seg c)"
  using assms by (auto elim!: rcu_step.cases split: if_splits)

lemma versions_step:
  assumes st: "rcu_step c d" and p: "pages_ok c" "pages_ok d" and ok: "\<forall>r. reader_ok c (rd c r)" and v: "versions_ok c"
  shows "versions_ok d"
proof -
  let ?e = "ecu_page (seg c)" and ?n = "ecu_page_next (seg c)"
  note u = ecu_untouched [OF p(1)]
  have e: "has_version d ?e" "page_version d ?e = page_version c ?e"
    using version_kept [OF st p(1) u(1)] untouched_kept [OF st p(1) u(1)] v by (simp_all add: versions_ok_def)
  have n: "has_version d ?n" "page_version d ?n = page_version c ?n"
    using version_kept [OF st p(1) u(2)] untouched_kept [OF st p(1) u(2)] v by (simp_all add: versions_ok_def)
  have le: "page_version c ?e \<le> page_version c ?n" "page_version c ?e < length (versions c)"
    using v by (simp_all add: versions_ok_def has_version_def)
  have ecu: "has_version d (ecu_page (seg d)) \<and> page_version c ?e \<le> page_version d (ecu_page (seg d))"
    using ecu_moves [OF st ok] e n le by auto
  moreover have "has_version d (ecu_page_next (seg d)) \<and> page_version d (ecu_page (seg d)) \<le> page_version d (ecu_page_next (seg d))"
    using ecu_moves [OF st ok] next_moves [OF st] e n le by auto
  moreover have "has_version d q \<and> page_version d q \<le> page_version d (ecu_page (seg d))"
    if h: "rd d r = RHold q bs" "q \<noteq> 0" for r q bs
    using holders [OF st h]
  proof
    assume "\<exists>cs. rd c r = RHold q cs \<and> (bs = cs \<or> length cs < seg_bytes (seg c) \<and> bs = cs @ [seg_mem (seg c) (q + length cs)])"
    then obtain cs where cs: "rd c r = RHold q cs" by blast
    with v h(2) have q: "has_version c q" "page_version c q \<le> page_version c ?e" by (auto simp: versions_ok_def)
    have uq: "untouched c q" using held_untouched [OF p(1) _ h(2), of cs] ok [rule_format, of r] cs by simp
    show ?thesis using version_kept [OF st p(1) uq q(1)] untouched_kept [OF st p(1) uq] q(2) ecu by auto
  next
    assume "rd c r = REcu \<and> q = ?e \<and> bs = [] \<and> ecu_page (seg d) = ?e"
    then show ?thesis using e by simp
  qed
  ultimately show ?thesis by (simp add: versions_ok_def)
qed

theorem rcu_inv_step: "rcu_step c d \<Longrightarrow> rcu_inv c \<Longrightarrow> rcu_inv d"
  unfolding rcu_inv_def using locks_step pages_step readers_step versions_step by metis

lemma rcu_start_inv:
  assumes "0 < seg_bytes c" "seg_bytes c \<le> 65528"
  shows "rcu_inv (rcu_start c)"
proof -
  have a: "seg_bytes c \<le> align_up 8 (seg_bytes c)" by (rule align_up_ge) simp
  then show ?thesis using assms
    by (auto simp: rcu_inv_def rcu_start_def locks_ok_def pages_ok_def versions_ok_def has_version_def third_def Let_def
        CalSegRcuInit_def seg_pages_def CalSegAlignedPageSize_def)
qed

section \<open>The contract\<close>

definition rcu_held :: "rcu_conf \<Rightarrow> nat \<Rightarrow> (nat \<times> u8 list) option" where
  "rcu_held c r = (case rd c r of RHold p bs \<Rightarrow> if p = 0 then None else Some (p, bs) | _ \<Rightarrow> None)"

lemma rcu_held_Some: "rcu_held c r = Some (p, bs) \<longleftrightarrow> rd c r = RHold p bs \<and> p \<noteq> 0"
  by (auto simp: rcu_held_def split: reader.splits)

lemma page_data_nth: "k < seg_bytes s \<Longrightarrow> page_data s p ! k = seg_mem s (p + k)"
  by (simp add: page_data_def mem_get_def)

lemma page_data_length [simp]: "length (page_data s p) = seg_bytes s"
  by (simp add: page_data_def)

interpretation rcu: page_exchange rcu_step rcu_inv rcu_held "\<lambda>c. page_data (seg c)" versions page_version
  "\<lambda>c. page_version c (ecu_page (seg c))"
proof
  fix c d r p bs q cs
  show "rcu_inv d" if "rcu_step c d" "rcu_inv c" using that by (rule rcu_inv_step)
  show "\<exists>vs. versions d = versions c @ vs" if "rcu_step c d" using that by (rule step_versions)
  show "page_version c p < length (versions c) \<and> versions c ! page_version c p = page_data (seg c) p
      \<and> page_version c p \<le> page_version c (ecu_page (seg c))" if "rcu_inv c" "rcu_held c r = Some (p, bs)"
    using that by (auto simp: rcu_inv_def versions_ok_def has_version_def rcu_held_Some)
  show "q = p \<and> page_data (seg d) p = page_data (seg c) p \<and> page_version d p = page_version c p
      \<and> (cs = bs \<or> length bs < length (page_data (seg c) p) \<and> cs = bs @ [page_data (seg c) p ! length bs])"
    if st: "rcu_step c d" "rcu_inv c" and h: "rcu_held c r = Some (p, bs)" "rcu_held d r = Some (q, cs)"
  proof -
    have "untouched c p" using held_untouched [of c p bs] st(2) h(1) by (metis rcu_inv_def rcu_held_Some)
    from untouched_kept [OF st(1) _ this] st(2) holders [OF st(1), of r q cs] h show ?thesis
      by (auto simp: rcu_inv_def rcu_held_Some page_data_nth)
  qed
  show "cs = [] \<and> page_version d q = page_version d (ecu_page (seg d))"
    if "rcu_step c d" "rcu_inv c" "rcu_held c r = None" "rcu_held d r = Some (q, cs)"
    using that holders [OF that(1), of r q cs] by (auto simp: rcu_held_Some) (auto simp: rcu_held_def)
  show "page_version c (ecu_page (seg c)) \<le> page_version d (ecu_page (seg d))" if st: "rcu_step c d" "rcu_inv c"
    using ecu_moves [OF st(1)] untouched_kept [OF st(1)] ecu_untouched [of c] st(2)
    by (auto simp: rcu_inv_def versions_ok_def)
qed

subsection \<open>The reference page\<close>

lemma reference_step:
  assumes "rcu_step c d" "pages_ok c"
  shows "page_data (seg d) 0 = page_data (seg c) 0"
  using assms(1)
proof (cases rule: rcu_step.cases)
  case (w_write k v)
  then show ?thesis using assms(2) seg_pages_ref [of "xcp_page (seg c)" "seg c"]
    by (auto simp: pages_ok_def Let_def page_data_def intro!: mem_get_cong)
next
  case (w_copy f i)
  then show ?thesis using assms(2) seg_pages_ref [of f "seg c"]
    by (auto simp: pages_ok_def third_def Let_def page_data_def intro!: mem_get_cong)
qed simp_all

lemma reference_readers:
  assumes "rcu_step c d" "pages_ok c" and "\<And>q cs. rd c q = RHold 0 cs \<Longrightarrow> cs = take (length cs) (page_data (seg c) 0)"
    and "ecu_page (seg c) \<noteq> 0" and h: "rd d r = RHold 0 bs"
  shows "bs = take (length bs) (page_data (seg d) 0)"
  using assms(1)
proof (cases rule: rcu_step.cases)
  case (r_read q p cs)
  show ?thesis
  proof (cases "q = r")
    case True
    then have b: "p = 0" "bs = cs @ [seg_mem (seg c) (length cs)]" using h r_read by auto
    then show ?thesis using assms(3) [of q cs] r_read reference_step [OF assms(1,2)]
      by (simp add: take_Suc_conv_app_nth page_data_nth)
  next
    case False
    then show ?thesis using assms(3) [of r bs] h r_read by simp
  qed
qed (use assms(3) [of r bs] assms(4) h reference_step [OF assms(1,2)] in \<open>auto split: if_splits\<close>)

theorem readers_see:
  assumes "rcu_step\<^sup>*\<^sup>* (rcu_start c) d" and c: "0 < seg_bytes c" "seg_bytes c \<le> 65528"
  shows "rcu_inv d \<and> page_data (seg d) 0 = page_data c 0
    \<and> (\<forall>r p bs. rd d r = RHold p bs \<longrightarrow> bs = take (length bs) (if p = 0 then page_data c 0 else versions d ! page_version d p)
        \<and> (p \<noteq> 0 \<longrightarrow> page_version d p < length (versions d)))"
proof -
  note start = rcu_start_inv [OF c]
  have inv: "rcu_inv d" by (rule rcu.steps_ok [OF assms(1) start])
  have "page_data (seg d) 0 = page_data c 0 \<and> (\<forall>r bs. rd d r = RHold 0 bs \<longrightarrow> bs = take (length bs) (page_data (seg d) 0))"
    using assms(1)
  proof (induction rule: rtranclp_induct)
    case base
    have "page_data (seg (rcu_start c)) 0 = page_data c 0"
      using align_up_ge [of 8 "seg_bytes c"]
      by (simp add: rcu_start_def Let_def CalSegRcuInit_def CalSegAlignedPageSize_def page_data_def mem_simps)
    then show ?case by (simp add: rcu_start_def Let_def)
  next
    case (step d e)
    have i: "pages_ok d" "rcu_inv d" using rcu.steps_ok [OF step(1) start] by (simp_all add: rcu_inv_def)
    have "ecu_page (seg d) \<in> seg_pages (seg d)" "0 < seg_bytes (seg d)" using i(1) by (simp_all add: pages_ok_def Let_def)
    then have "ecu_page (seg d) \<noteq> 0" using seg_pages_ref by fastforce
    then show ?case using reference_step [OF step(2) i(1)] reference_readers [OF step(2) i(1)] step(3) by metis
  qed
  moreover have "bs = take (length bs) (versions d ! page_version d p) \<and> page_version d p < length (versions d)"
    if h: "rd d r = RHold p bs" "p \<noteq> 0" for r p bs
    using rcu.snapshot [OF assms(1) start, of r p bs] h by (simp add: rcu_held_Some) (simp add: rcu_held_def rcu_start_def Let_def)
  ultimately show ?thesis using inv by auto
qed

section \<open>Uninterrupted operations\<close>

text \<open>An operation whose steps nobody interrupts is the function of \<^verbatim>\<open>Xcp_Cal\<close>: the sequential model used
  for the commands is a special case of the interleaved one.\<close>

lemma step_run: "rcu_step c d \<Longrightarrow> rcu_step\<^sup>*\<^sup>* d e \<Longrightarrow> rcu_step\<^sup>*\<^sup>* c e"
  by (rule converse_rtranclp_into_rtranclp)

lemma run_access:
  assumes "rd c r = RAccess"
  shows "rcu_step\<^sup>*\<^sup>* c (c\<lparr>rd := (rd c)(r := RHold (if ecu_access (seg c) \<noteq> XCP_CALPAGE_WORKING_PAGE then 0 else ecu_page (seg c)) [])\<rparr>)"
proof (cases "ecu_access (seg c) \<noteq> XCP_CALPAGE_WORKING_PAGE")
  case True
  then show ?thesis using r_access [OF assms] by (auto intro: r_into_rtranclp)
next
  case False
  let ?d = "c\<lparr>rd := (rd c)(r := REcu)\<rparr>"
  have "rcu_step c ?d" using r_access [OF assms] False by simp
  moreover have "rcu_step ?d (?d\<lparr>rd := (rd ?d)(r := RHold (ecu_page (seg ?d)) [])\<rparr>)" by (rule r_page) simp
  ultimately show ?thesis using False by (auto intro: step_run r_into_rtranclp)
qed

lemma run_first:
  assumes "rd c r = RFirst"
  shows "rcu_step\<^sup>*\<^sup>* c (c\<lparr>rd := (rd c)(r := RAccess), seg := (if ecu_page (seg c) \<noteq> ecu_page_next (seg c)
      then (seg c)\<lparr>free_page_hazard := True, ecu_page := ecu_page_next (seg c), free_page := ecu_page (seg c)\<rparr>
      else (seg c)\<lparr>free_page_hazard := False\<rparr>)\<rparr>)"
proof -
  let ?n = "ecu_page_next (seg c)" and ?e = "ecu_page (seg c)"
  let ?c1 = "c\<lparr>rd := (rd c)(r := RNext ?n)\<rparr>"
  have 1: "rcu_step c ?c1" by (rule r_next [OF assms])
  show ?thesis
  proof (cases "?e \<noteq> ?n")
    case True
    let ?c2 = "c\<lparr>rd := (rd c)(r := RSwap ?e ?n)\<rparr>"
    let ?c3 = "c\<lparr>rd := (rd c)(r := RHazard ?e ?n), seg := (seg c)\<lparr>free_page_hazard := True\<rparr>\<rparr>"
    let ?c4 = "c\<lparr>rd := (rd c)(r := RTaken ?e), seg := (seg c)\<lparr>free_page_hazard := True, ecu_page := ?n\<rparr>\<rparr>"
    have 2: "rcu_step ?c1 ?c2" using r_compare [of ?c1 r ?n] True by simp
    have 3: "rcu_step ?c2 ?c3" using r_hazard [of ?c2 r ?e ?n] by simp
    have 4: "rcu_step ?c3 ?c4" using r_take [of ?c3 r ?e ?n] by simp
    have 5: "rcu_step ?c4 (c\<lparr>rd := (rd c)(r := RAccess),
        seg := (seg c)\<lparr>free_page_hazard := True, ecu_page := ?n, free_page := ?e\<rparr>\<rparr>)"
      using r_hand_back [of ?c4 r ?e] by simp
    show ?thesis using True step_run [OF 1 step_run [OF 2 step_run [OF 3 step_run [OF 4 r_into_rtranclp [where r = rcu_step, OF 5]]]]] by simp
  next
    case False
    let ?c2 = "c\<lparr>rd := (rd c)(r := RClear)\<rparr>"
    have 2: "rcu_step ?c1 ?c2" using r_compare [of ?c1 r ?n] False by simp
    have 3: "rcu_step ?c2 (c\<lparr>rd := (rd c)(r := RAccess), seg := (seg c)\<lparr>free_page_hazard := False\<rparr>\<rparr>)"
      using r_clear [of ?c2 r] by simp
    show ?thesis using False step_run [OF 1 step_run [OF 2 r_into_rtranclp [where r = rcu_step, OF 3]]] by simp
  qed
qed

theorem run_lock:
  assumes "rd c r = RIdle" and "lock_count (seg c) < 65535"
  shows "rcu_step\<^sup>*\<^sup>* c (c\<lparr>seg := snd (CalSegRcuLock (seg c)), rd := (rd c)(r := RHold (fst (CalSegRcuLock (seg c))) [])\<rparr>)"
proof -
  let ?c1 = "c\<lparr>rd := (rd c)(r := if lock_count (seg c) = 0 then RFirst else RAccess),
      seg := (seg c)\<lparr>lock_count := (lock_count (seg c) + 1) mod 65536\<rparr>\<rparr>"
  have 1: "rcu_step c ?c1" by (rule r_lock [OF assms])
  show ?thesis
  proof (cases "lock_count (seg c) = 0")
    case True
    note 2 = run_first [of ?c1 r]
    show ?thesis using step_run [OF 1 rtranclp_trans [where r = rcu_step, OF 2 run_access [of _ r]]] True
      by (auto simp: CalSegRcuLock_def Let_def)
  next
    case False
    then show ?thesis using step_run [OF 1 run_access [of ?c1 r]] by (auto simp: CalSegRcuLock_def Let_def)
  qed
qed

theorem run_unlock:
  "rd c r = RHold p bs \<Longrightarrow> rcu_step\<^sup>*\<^sup>* c (c\<lparr>rd := (rd c)(r := RIdle), seg := CalSegRcuUnlock (seg c)\<rparr>)"
  using r_unlock [of c r p bs] by (auto simp: CalSegRcuUnlock_def)

lemma same_wr: "wr c = w \<Longrightarrow> c\<lparr>wr := w\<rparr> = c"
  by simp

lemma copy_more:
  "x + n \<le> f \<or> f + n \<le> x \<Longrightarrow> i < n \<Longrightarrow>
     mem_copy f x (Suc i) m = (mem_copy f x i m)(f + i := mem_copy f x i m (x + i))"
  by (auto simp: mem_copy_def mem_set_def mem_get_def fun_eq_iff nth_append less_Suc_eq)

lemma run_copy:
  assumes w: "wr c = WCopy f 0" and d: "xcp_page (seg c) + seg_bytes (seg c) \<le> f \<or> f + seg_bytes (seg c) \<le> xcp_page (seg c)"
  shows "i \<le> seg_bytes (seg c) \<Longrightarrow>
    rcu_step\<^sup>*\<^sup>* c (c\<lparr>wr := WCopy f i, seg := (seg c)\<lparr>seg_mem := mem_copy f (xcp_page (seg c)) i (seg_mem (seg c))\<rparr>\<rparr>)"
proof (induction i)
  case 0
  have "mem_copy f (xcp_page (seg c)) 0 (seg_mem (seg c)) = seg_mem (seg c)"
    by (auto simp: mem_copy_def mem_set_def mem_get_def fun_eq_iff)
  then show ?case using same_wr [OF w] by simp
next
  case (Suc i)
  let ?c = "c\<lparr>wr := WCopy f i, seg := (seg c)\<lparr>seg_mem := mem_copy f (xcp_page (seg c)) i (seg_mem (seg c))\<rparr>\<rparr>"
  have "rcu_step ?c (c\<lparr>wr := WCopy f (Suc i), seg := (seg c)\<lparr>seg_mem := mem_copy f (xcp_page (seg c)) (Suc i) (seg_mem (seg c))\<rparr>\<rparr>)"
    using w_copy [of ?c f i] Suc.prems copy_more [OF d, of i "seg_mem (seg c)"] by simp
  with Suc show ?case by (auto intro: rtranclp.rtrancl_into_rtrancl)
qed

theorem run_publish:
  assumes inv: "rcu_inv c" and w: "wr c = WIdle"
  shows "\<exists>v g. rcu_step\<^sup>*\<^sup>* c (c\<lparr>seg := snd (CalSegRcuTryPublish (seg c)), versions := v, page_version := g\<rparr>)
    \<and> v = (if fst (CalSegRcuTryPublish (seg c)) then versions c @ [page_data (seg c) (xcp_page (seg c))] else versions c)"
proof (cases "free_page (seg c) = XCP_CALSEG_NO_PAGE \<or> free_page_hazard (seg c)")
  case True
  then have "c\<lparr>seg := snd (CalSegRcuTryPublish (seg c)), versions := versions c, page_version := page_version c\<rparr> = c"
    "\<not> fst (CalSegRcuTryPublish (seg c))" by (simp_all add: CalSegRcuTryPublish_def)
  then show ?thesis by (metis rtranclp.rtrancl_refl)
next
  case False
  let ?s = "seg c" let ?f = "free_page ?s" and ?x = "xcp_page ?s" and ?n = "seg_bytes ?s"
  have pages: "?f \<in> seg_pages ?s" "?x \<in> seg_pages ?s" "?f \<noteq> ?x"
    using inv w False by (auto simp: rcu_inv_def pages_ok_def third_def Let_def)
  note d = seg_pages_disjoint [OF pages(2,1) pages(3) [symmetric]]
  let ?c1 = "c\<lparr>wr := WFree ?f\<rparr>" let ?c2 = "c\<lparr>wr := WSafe ?f\<rparr>"
  let ?s3 = "?s\<lparr>free_page := XCP_CALSEG_NO_PAGE\<rparr>" let ?c3 = "c\<lparr>wr := WCopy ?f 0, seg := ?s3\<rparr>"
  let ?s4 = "?s3\<lparr>seg_mem := mem_copy ?f ?x ?n (seg_mem ?s)\<rparr>" let ?c4 = "c\<lparr>wr := WCopy ?f ?n, seg := ?s4\<rparr>"
  let ?s5 = "?s4\<lparr>xcp_page := ?f\<rparr>" let ?c5 = "c\<lparr>wr := WAnnounce ?x, seg := ?s5\<rparr>"
  have 1: "rcu_step c ?c1" using w_free [OF w] False by simp
  have 2: "rcu_step ?c1 ?c2" using w_hazard [of ?c1 ?f] False by simp
  have 3: "rcu_step ?c2 ?c3" using w_take [of ?c2 ?f] by simp
  have 4: "rcu_step\<^sup>*\<^sup>* ?c3 ?c4" using run_copy [of ?c3 ?f ?n] d by simp
  have 5: "rcu_step ?c4 ?c5" using w_move [of ?c4 ?f ?n] by simp
  have same: "page_data ?s5 ?x = page_data ?s ?x"
    using d by (auto simp: page_data_def mem_simps)
  have 6: "rcu_step ?c5 (c\<lparr>seg := ?s5\<lparr>ecu_page_next := ?x\<rparr>, versions := versions c @ [page_data ?s ?x],
      page_version := (page_version c)(?x := length (versions c))\<rparr>)"
  proof -
    have "c\<lparr>wr := WIdle, seg := u, versions := v, page_version := g\<rparr> = c\<lparr>seg := u, versions := v, page_version := g\<rparr>" for u v g
      using w by (cases c) simp
    then show ?thesis using w_announce [of ?c5 ?x] same by (simp del: page_data_fields)
  qed
  have "rcu_step\<^sup>*\<^sup>* c (c\<lparr>seg := ?s5\<lparr>ecu_page_next := ?x\<rparr>, versions := versions c @ [page_data ?s ?x],
      page_version := (page_version c)(?x := length (versions c))\<rparr>)"
    by (rule step_run [OF 1 step_run [OF 2 step_run [OF 3 rtranclp_trans [where r = rcu_step, OF 4 step_run [OF 5 r_into_rtranclp [where r = rcu_step, OF 6]]]]]])
  with False show ?thesis by (auto simp: CalSegRcuTryPublish_def)
qed

end
