(* ===== verification/Cal_Rcu_Refs.thy ===== *)
theory Cal_Rcu_Refs
  imports Cal_Rcu_Spec
begin

text \<open>
  The other page exchange of \<^verbatim>\<open>src/src/cal.c\<close>, per-page reference counting
  (\<^verbatim>\<open>OPTION_CAL_RCU_REFCOUNT\<close>): a fixed writer page 0, a published page, and a reader that pins the
  published page with its reference count and then looks again whether it is still the published one. First the
  functions, then their interleaving, which provides the same contract as the lock count. The number of pages
  \<^verbatim>\<open>XCP_CALSEG_RCU_PAGES\<close> is the constant field \<open>rcu_pages\<close>.
\<close>

section \<open>Functions\<close>

record ref_seg =
  rcu_pages :: nat
  published_page :: nat
  page_refs :: "nat \<Rightarrow> nat"
  ref_size :: nat
  ref_ecu_access :: nat
  ref_mem :: bytes

definition CALSEG_RCU_PAGE_OFFSET :: "ref_seg \<Rightarrow> nat \<Rightarrow> nat" where
  "CALSEG_RCU_PAGE_OFFSET s i = (let aligned = align_up XCP_CALPAGE_ALIGNMENT (ref_size s) in aligned + i * aligned)"

text \<open>The three resets and copies of \<^verbatim>\<open>CalSegRcuInit\<close>: writer page 0 and published page 1 from the
  reference page at offset 0.\<close>

definition CalSegRefInit :: "ref_seg \<Rightarrow> ref_seg" where
  "CalSegRefInit s = s\<lparr>ref_mem := mem_copy (CALSEG_RCU_PAGE_OFFSET s 1) 0 (ref_size s)
       (mem_copy (CALSEG_RCU_PAGE_OFFSET s 0) 0 (ref_size s) (ref_mem s)),
     page_refs := (\<lambda>_. 0), published_page := 1\<rparr>"

text \<open>Without a publication in between, the validation succeeds at once. The result is the offset of the page.\<close>

definition CalSegRefLock :: "ref_seg \<Rightarrow> nat \<times> ref_seg" where
  "CalSegRefLock s =
     (if ref_ecu_access s \<noteq> XCP_CALPAGE_WORKING_PAGE then (0, s)
      else let p = published_page s in
        (CALSEG_RCU_PAGE_OFFSET s p, s\<lparr>page_refs := (page_refs s)(p := (page_refs s p + 1) mod 65536)\<rparr>))"

definition CalSegRefUnlock :: "nat \<Rightarrow> ref_seg \<Rightarrow> ref_seg" where
  "CalSegRefUnlock page s =
     (if page = 0 then s
      else case List.find (\<lambda>i. page = CALSEG_RCU_PAGE_OFFSET s i) [1..<rcu_pages s] of
        None \<Rightarrow> s
      | Some i \<Rightarrow> s\<lparr>page_refs := (page_refs s)(i := (page_refs s i + 65535) mod 65536)\<rparr>)"

text \<open>The search for a page, round robin from the published one.\<close>

definition next_page :: "ref_seg \<Rightarrow> nat \<Rightarrow> nat" where
  "next_page s i = (if i + 1 < rcu_pages s then i + 1 else 1)"

fun scan_pages :: "ref_seg \<Rightarrow> nat \<Rightarrow> nat \<Rightarrow> nat option" where
  "scan_pages s 0 i = None"
| "scan_pages s (Suc k) i =
     (let j = next_page s i in
      if j = published_page s then scan_pages s k j
      else if page_refs s j = 0 then Some j else scan_pages s k j)"

definition CalSegRefTryPublish :: "ref_seg \<Rightarrow> bool \<times> ref_seg" where
  "CalSegRefTryPublish s =
     (case scan_pages s (rcu_pages s - 1) (published_page s) of
        None \<Rightarrow> (False, s)
      | Some t \<Rightarrow> (True, s\<lparr>ref_mem := mem_copy (CALSEG_RCU_PAGE_OFFSET s t) (CALSEG_RCU_PAGE_OFFSET s 0) (ref_size s) (ref_mem s),
                          published_page := t\<rparr>))"

definition ref_data :: "ref_seg \<Rightarrow> nat \<Rightarrow> u8 list" where
  "ref_data s i = mem_get (CALSEG_RCU_PAGE_OFFSET s i) (ref_size s) (ref_mem s)"

subsection \<open>The search\<close>

lemma next_page_range: "3 \<le> rcu_pages s \<Longrightarrow> next_page s i \<in> {1..<rcu_pages s}"
  by (simp add: next_page_def)

lemma scan_pages_Some:
  "3 \<le> rcu_pages s \<Longrightarrow> scan_pages s k i = Some t \<Longrightarrow> t \<in> {1..<rcu_pages s} \<and> t \<noteq> published_page s \<and> page_refs s t = 0"
  using next_page_range [of s] by (induction s k i rule: scan_pages.induct) (auto simp: Let_def split: if_splits)

text \<open>The search reaches a page in as many steps as lie between, so that it visits all pages in one round.\<close>

definition steps_to :: "nat \<Rightarrow> nat \<Rightarrow> nat \<Rightarrow> nat" where
  "steps_to n i j = (if i < j then j - i else j + (n - 1) - i)"

lemma scan_pages_reaches:
  "i \<in> {1..<rcu_pages s} \<Longrightarrow> j \<in> {1..<rcu_pages s} \<Longrightarrow> j \<noteq> published_page s \<Longrightarrow> page_refs s j = 0 \<Longrightarrow>
     steps_to (rcu_pages s) i j \<le> k \<Longrightarrow> scan_pages s k i \<noteq> None"
proof (induction s k i rule: scan_pages.induct)
  case (1 s i)
  then show ?case by (auto simp: steps_to_def split: if_splits)
next
  case (2 s k i)
  have n: "next_page s i \<in> {1..<rcu_pages s}" using 2 by (auto simp: next_page_def)
  show ?case
  proof (cases "next_page s i = j")
    case True
    then show ?thesis using 2 by (simp add: Let_def)
  next
    case False
    then have "steps_to (rcu_pages s) (next_page s i) j \<le> k"
      using 2(3,4,7) by (auto simp: steps_to_def next_page_def split: if_splits)
    with 2 n have "scan_pages s k (next_page s i) \<noteq> None" if "next_page s i = published_page s \<or> page_refs s (next_page s i) \<noteq> 0"
      using that by metis
    then show ?thesis by (auto simp: Let_def)
  qed
qed

theorem ref_publish_possible:
  assumes "3 \<le> rcu_pages s" "published_page s \<in> {1..<rcu_pages s}"
  shows "fst (CalSegRefTryPublish s) \<longleftrightarrow> (\<exists>j \<in> {1..<rcu_pages s}. j \<noteq> published_page s \<and> page_refs s j = 0)"
proof
  assume "fst (CalSegRefTryPublish s)"
  then show "\<exists>j \<in> {1..<rcu_pages s}. j \<noteq> published_page s \<and> page_refs s j = 0"
    using scan_pages_Some [OF assms(1)] by (force simp: CalSegRefTryPublish_def split: option.splits)
next
  assume "\<exists>j \<in> {1..<rcu_pages s}. j \<noteq> published_page s \<and> page_refs s j = 0"
  then obtain j where j: "j \<in> {1..<rcu_pages s}" "j \<noteq> published_page s" "page_refs s j = 0" by blast
  have "steps_to (rcu_pages s) (published_page s) j \<le> rcu_pages s - 1"
    using j assms by (auto simp: steps_to_def)
  from scan_pages_reaches [OF assms(2) j this] show "fst (CalSegRefTryPublish s)"
    by (auto simp: CalSegRefTryPublish_def split: option.splits)
qed

section \<open>Pages in memory\<close>

lemma ref_offsets_apart:
  "i < j \<Longrightarrow> CALSEG_RCU_PAGE_OFFSET s i + ref_size s \<le> CALSEG_RCU_PAGE_OFFSET s j"
proof -
  let ?a = "align_up 8 (ref_size s)"
  assume "i < j"
  then have "Suc i * ?a \<le> j * ?a" by (intro mult_right_mono) simp_all
  moreover have "ref_size s \<le> ?a" by (rule align_up_ge) simp
  ultimately show ?thesis by (simp add: CALSEG_RCU_PAGE_OFFSET_def Let_def)
qed

lemma ref_offsets_disjoint:
  "i \<noteq> j \<Longrightarrow> CALSEG_RCU_PAGE_OFFSET s i + ref_size s \<le> CALSEG_RCU_PAGE_OFFSET s j
     \<or> CALSEG_RCU_PAGE_OFFSET s j + ref_size s \<le> CALSEG_RCU_PAGE_OFFSET s i"
  using ref_offsets_apart by (metis nat_neq_iff)

lemma ref_offset_fields [simp]:
  "CALSEG_RCU_PAGE_OFFSET (s\<lparr>page_refs := f\<rparr>) = CALSEG_RCU_PAGE_OFFSET s"
  "CALSEG_RCU_PAGE_OFFSET (s\<lparr>ref_mem := m\<rparr>) = CALSEG_RCU_PAGE_OFFSET s"
  "CALSEG_RCU_PAGE_OFFSET (s\<lparr>published_page := i\<rparr>) = CALSEG_RCU_PAGE_OFFSET s"
  "CALSEG_RCU_PAGE_OFFSET (s\<lparr>ref_ecu_access := i\<rparr>) = CALSEG_RCU_PAGE_OFFSET s"
  by (simp_all add: CALSEG_RCU_PAGE_OFFSET_def fun_eq_iff)

lemma ref_data_fields [simp]:
  "ref_data (s\<lparr>page_refs := f\<rparr>) = ref_data s" "ref_data (s\<lparr>published_page := i\<rparr>) = ref_data s"
  "ref_data (s\<lparr>ref_ecu_access := i\<rparr>) = ref_data s"
  by (simp_all add: ref_data_def fun_eq_iff)

lemma ref_data_length [simp]: "length (ref_data s i) = ref_size s"
  by (simp add: ref_data_def)

lemma ref_data_nth: "k < ref_size s \<Longrightarrow> ref_data s i ! k = ref_mem s (CALSEG_RCU_PAGE_OFFSET s i + k)"
  by (simp add: ref_data_def mem_get_def)

lemma ref_data_other:
  "i \<noteq> j \<Longrightarrow> k < ref_size s \<Longrightarrow>
     ref_data (s\<lparr>ref_mem := (ref_mem s)(CALSEG_RCU_PAGE_OFFSET s j + k := v)\<rparr>) i = ref_data s i"
  using ref_offsets_disjoint [of i j s] by (auto simp: ref_data_def intro!: mem_get_cong)

section \<open>Configurations and steps\<close>

text \<open>A reader loads the published page (\<open>QPin\<close>), pins it (\<open>QCheck\<close>), and holds it or, when another page has been
  published meanwhile, has to unpin it and try again. \<open>QRef\<close> reads the reference page, without a pin.\<close>

datatype ref_reader = QIdle | QLoad | QPin nat | QCheck nat | QUnpin nat | QHold nat "u8 list" | QRef "u8 list"

text \<open>The writer searches (\<open>VScan\<close>: pages left to look at, last page looked at) and copies.\<close>

datatype ref_writer = VIdle | VScan nat nat | VCopy nat nat

record ref_conf =
  rseg :: ref_seg
  rrd :: "nat \<Rightarrow> ref_reader"
  rwr :: ref_writer
  rversions :: "u8 list list"
  rpage_version :: "nat \<Rightarrow> nat"

abbreviation (input) set_refs :: "nat \<Rightarrow> nat \<Rightarrow> ref_seg \<Rightarrow> ref_seg" where
  "set_refs p n s \<equiv> s\<lparr>page_refs := (page_refs s)(p := n)\<rparr>"

inductive ref_step :: "ref_conf \<Rightarrow> ref_conf \<Rightarrow> bool" where
  q_access: "rrd c r = QIdle \<Longrightarrow>
    ref_step c (c\<lparr>rrd := (rrd c)(r := if ref_ecu_access (rseg c) \<noteq> XCP_CALPAGE_WORKING_PAGE then QRef [] else QLoad)\<rparr>)"
| q_load: "rrd c r = QLoad \<Longrightarrow> ref_step c (c\<lparr>rrd := (rrd c)(r := QPin (published_page (rseg c)))\<rparr>)"
| q_pin: "rrd c r = QPin p \<Longrightarrow> page_refs (rseg c) p < 65535 \<Longrightarrow>
    ref_step c (c\<lparr>rrd := (rrd c)(r := QCheck p), rseg := set_refs p ((page_refs (rseg c) p + 1) mod 65536) (rseg c)\<rparr>)"
| q_check: "rrd c r = QCheck p \<Longrightarrow>
    ref_step c (c\<lparr>rrd := (rrd c)(r := if published_page (rseg c) = p then QHold p [] else QUnpin p)\<rparr>)"
| q_unpin: "rrd c r = QUnpin p \<Longrightarrow>
    ref_step c (c\<lparr>rrd := (rrd c)(r := QLoad), rseg := set_refs p ((page_refs (rseg c) p + 65535) mod 65536) (rseg c)\<rparr>)"
| q_read: "rrd c r = QHold p bs \<Longrightarrow> length bs < ref_size (rseg c) \<Longrightarrow>
    ref_step c (c\<lparr>rrd := (rrd c)(r := QHold p (bs @ [ref_mem (rseg c) (CALSEG_RCU_PAGE_OFFSET (rseg c) p + length bs)]))\<rparr>)"
| q_unlock: "rrd c r = QHold p bs \<Longrightarrow>
    ref_step c (c\<lparr>rrd := (rrd c)(r := QIdle), rseg := set_refs p ((page_refs (rseg c) p + 65535) mod 65536) (rseg c)\<rparr>)"
| q_read_reference: "rrd c r = QRef bs \<Longrightarrow> length bs < ref_size (rseg c) \<Longrightarrow>
    ref_step c (c\<lparr>rrd := (rrd c)(r := QRef (bs @ [ref_mem (rseg c) (length bs)]))\<rparr>)"
| q_unlock_reference: "rrd c r = QRef bs \<Longrightarrow> ref_step c (c\<lparr>rrd := (rrd c)(r := QIdle)\<rparr>)"
| v_write: "rwr c = VIdle \<Longrightarrow> k < ref_size (rseg c) \<Longrightarrow>
    ref_step c (c\<lparr>rseg := (rseg c)\<lparr>ref_mem := (ref_mem (rseg c))(CALSEG_RCU_PAGE_OFFSET (rseg c) 0 + k := v)\<rparr>\<rparr>)"
| v_access: "rwr c = VIdle \<Longrightarrow> ref_step c (c\<lparr>rseg := (rseg c)\<lparr>ref_ecu_access := m\<rparr>\<rparr>)"
| v_start: "rwr c = VIdle \<Longrightarrow> ref_step c (c\<lparr>rwr := VScan (rcu_pages (rseg c) - 1) (published_page (rseg c))\<rparr>)"
| v_scan: "rwr c = VScan (Suc k) i \<Longrightarrow> j = next_page (rseg c) i \<Longrightarrow>
    ref_step c (c\<lparr>rwr := if j \<noteq> published_page (rseg c) \<and> page_refs (rseg c) j = 0 then VCopy j 0 else VScan k j\<rparr>)"
| v_none: "rwr c = VScan 0 i \<Longrightarrow> ref_step c (c\<lparr>rwr := VIdle\<rparr>)"
| v_copy: "rwr c = VCopy t i \<Longrightarrow> i < ref_size (rseg c) \<Longrightarrow>
    ref_step c (c\<lparr>rwr := VCopy t (Suc i),
      rseg := (rseg c)\<lparr>ref_mem := (ref_mem (rseg c))(CALSEG_RCU_PAGE_OFFSET (rseg c) t + i
        := ref_mem (rseg c) (CALSEG_RCU_PAGE_OFFSET (rseg c) 0 + i))\<rparr>\<rparr>)"
| v_announce: "rwr c = VCopy t i \<Longrightarrow> i = ref_size (rseg c) \<Longrightarrow>
    ref_step c (c\<lparr>rwr := VIdle, rseg := (rseg c)\<lparr>published_page := t\<rparr>,
      rversions := rversions c @ [ref_data (rseg c) t],
      rpage_version := (rpage_version c)(t := length (rversions c))\<rparr>)"

definition ref_start :: "ref_seg \<Rightarrow> ref_conf" where
  "ref_start c = (let s = CalSegRefInit c in
     \<lparr>rseg = s, rrd = (\<lambda>_. QIdle), rwr = VIdle, rversions = [ref_data s 1], rpage_version = (\<lambda>_. 0)\<rparr>)"

section \<open>The invariant\<close>

fun pinned :: "ref_reader \<Rightarrow> nat option" where
  "pinned (QCheck p) = Some p"
| "pinned (QUnpin p) = Some p"
| "pinned (QHold p bs) = Some p"
| "pinned _ = None"

fun aims_at :: "ref_reader \<Rightarrow> nat option" where
  "aims_at (QPin p) = Some p"
| "aims_at st = pinned st"

definition refs_ok :: "ref_conf \<Rightarrow> bool" where
  "refs_ok c \<longleftrightarrow> (\<forall>p. finite {r. pinned (rrd c r) = Some p} \<and> page_refs (rseg c) p = card {r. pinned (rrd c r) = Some p}
     \<and> card {r. pinned (rrd c r) = Some p} \<le> 65535)"

definition target :: "ref_conf \<Rightarrow> nat option" where
  "target c = (case rwr c of VCopy t i \<Rightarrow> Some t | _ \<Rightarrow> None)"

definition ref_pages_ok :: "ref_conf \<Rightarrow> bool" where
  "ref_pages_ok c \<longleftrightarrow> 3 \<le> rcu_pages (rseg c) \<and> published_page (rseg c) \<in> {1..<rcu_pages (rseg c)}
     \<and> (\<forall>r p. aims_at (rrd c r) = Some p \<longrightarrow> p \<in> {1..<rcu_pages (rseg c)})
     \<and> (\<forall>t. target c = Some t \<longrightarrow> t \<in> {1..<rcu_pages (rseg c)} \<and> t \<noteq> published_page (rseg c))"

definition ref_has_version :: "ref_conf \<Rightarrow> nat \<Rightarrow> bool" where
  "ref_has_version c p \<longleftrightarrow> rpage_version c p < length (rversions c) \<and> rversions c ! rpage_version c p = ref_data (rseg c) p"

definition ref_versions_ok :: "ref_conf \<Rightarrow> bool" where
  "ref_versions_ok c \<longleftrightarrow> ref_has_version c (published_page (rseg c))
     \<and> (\<forall>r p bs. rrd c r = QHold p bs \<longrightarrow> target c \<noteq> Some p \<and> ref_has_version c p
          \<and> rpage_version c p \<le> rpage_version c (published_page (rseg c)))"

definition ref_inv :: "ref_conf \<Rightarrow> bool" where
  "ref_inv c \<longleftrightarrow> refs_ok c \<and> ref_pages_ok c \<and> ref_versions_ok c"

subsection \<open>Reference counts\<close>

lemma pins_update:
  "{q. pinned ((f(r := x)) q) = Some p} =
     (if pinned x = Some p then insert r {q. pinned (f q) = Some p} else {q. pinned (f q) = Some p} - {r})"
  by auto

lemma refs_go_on:
  assumes "refs_ok c" and "pinned st = pinned (rrd c r)" and "page_refs s = page_refs (rseg c)"
  shows "refs_ok (c\<lparr>rrd := (rrd c)(r := st), rseg := s\<rparr>)" "refs_ok (c\<lparr>rrd := (rrd c)(r := st)\<rparr>)"
proof -
  have "{q. pinned (((rrd c)(r := st)) q) = Some p} = {q. pinned (rrd c q) = Some p}" for p using assms(2) by auto
  then show "refs_ok (c\<lparr>rrd := (rrd c)(r := st), rseg := s\<rparr>)" "refs_ok (c\<lparr>rrd := (rrd c)(r := st)\<rparr>)"
    using assms(1,3) by (simp_all add: refs_ok_def del: fun_upd_apply)
qed

lemma refs_writer: "refs_ok c \<Longrightarrow> page_refs s = page_refs (rseg c) \<Longrightarrow>
    refs_ok (c\<lparr>rseg := s\<rparr>) \<and> refs_ok (c\<lparr>rwr := w, rseg := s\<rparr>) \<and> refs_ok (c\<lparr>rwr := w\<rparr>)
    \<and> refs_ok (c\<lparr>rwr := w, rseg := s, rversions := v, rpage_version := g\<rparr>)"
  by (simp add: refs_ok_def)

lemma refs_pin:
  assumes "refs_ok c" and "pinned (rrd c r) = None" and "page_refs (rseg c) p < 65535" and "pinned st = Some p"
  shows "refs_ok (c\<lparr>rrd := (rrd c)(r := st), rseg := set_refs p (Suc (page_refs (rseg c) p)) (rseg c)\<rparr>)"
proof -
  have r: "r \<notin> {q. pinned (rrd c q) = Some p}" using assms(2) by simp
  have o: "{q. pinned (rrd c q) = Some p'} - {r} = {q. pinned (rrd c q) = Some p'}" for p' using assms(2) by auto
  have "finite {q. pinned (((rrd c)(r := st)) q) = Some p'}
      \<and> ((page_refs (rseg c))(p := Suc (page_refs (rseg c) p))) p' = card {q. pinned (((rrd c)(r := st)) q) = Some p'}
      \<and> card {q. pinned (((rrd c)(r := st)) q) = Some p'} \<le> 65535" for p'
    using assms(1,3,4) r o [of p'] unfolding pins_update by (cases "p' = p") (simp_all add: refs_ok_def)
  then show ?thesis by (simp add: refs_ok_def del: fun_upd_apply)
qed

lemma refs_unpin:
  assumes "refs_ok c" and "pinned (rrd c r) = Some p" and "pinned st = None"
  shows "refs_ok (c\<lparr>rrd := (rrd c)(r := st), rseg := set_refs p ((page_refs (rseg c) p + 65535) mod 65536) (rseg c)\<rparr>)"
proof -
  let ?B = "{q. pinned (rrd c q) = Some p}"
  have b: "r \<in> ?B" "finite ?B" "page_refs (rseg c) p = card ?B" "card ?B \<le> 65535"
    using assms(1,2) by (simp_all add: refs_ok_def)
  then have "0 < card ?B" by (simp only: card_gt_0_iff) blast
  then have m: "(card ?B + 65535) mod 65536 = card ?B - 1" using b(4) by (simp add: mod_if)
  have o: "{q. pinned (rrd c q) = Some p'} - {r} = {q. pinned (rrd c q) = Some p'}" if "p' \<noteq> p" for p'
    using assms(2) that by auto
  have "finite {q. pinned (((rrd c)(r := st)) q) = Some p'}
      \<and> ((page_refs (rseg c))(p := (page_refs (rseg c) p + 65535) mod 65536)) p' = card {q. pinned (((rrd c)(r := st)) q) = Some p'}
      \<and> card {q. pinned (((rrd c)(r := st)) q) = Some p'} \<le> 65535" for p'
    using assms(1,3) b m o [of p'] unfolding pins_update by (cases "p' = p") (simp_all add: refs_ok_def)
  then show ?thesis by (simp add: refs_ok_def del: fun_upd_apply)
qed

lemma refs_step: "ref_step c d \<Longrightarrow> refs_ok c \<Longrightarrow> refs_ok d"
  by (erule ref_step.cases) (simp_all add: refs_go_on refs_writer refs_pin refs_unpin)

lemma reader_aims: "ref_step c d \<Longrightarrow> aims_at (rrd d q) = Some p \<Longrightarrow>
    aims_at (rrd c q) = Some p \<or> p = published_page (rseg c)"
  by (auto elim!: ref_step.cases split: if_splits)

lemma writer_targets: "ref_step c d \<Longrightarrow> target d = Some t \<Longrightarrow> target c = Some t \<and> published_page (rseg d) = published_page (rseg c)
    \<or> (\<exists>i. t = next_page (rseg c) i) \<and> t \<noteq> published_page (rseg c) \<and> published_page (rseg d) = published_page (rseg c)"
  by (auto elim!: ref_step.cases simp: target_def split: if_splits)

lemma published_moves: "ref_step c d \<Longrightarrow> rcu_pages (rseg d) = rcu_pages (rseg c)
    \<and> (published_page (rseg d) = published_page (rseg c) \<or> target c = Some (published_page (rseg d)))"
  by (auto elim!: ref_step.cases simp: target_def)

lemma ref_pages_step:
  assumes st: "ref_step c d" and ok: "ref_pages_ok c"
  shows "ref_pages_ok d"
  unfolding ref_pages_ok_def
proof (intro conjI allI impI)
  show "3 \<le> rcu_pages (rseg d)" "published_page (rseg d) \<in> {1..<rcu_pages (rseg d)}"
    using published_moves [OF st] ok by (auto simp: ref_pages_ok_def)
  fix r p
  assume "aims_at (rrd d r) = Some p"
  then show "p \<in> {1..<rcu_pages (rseg d)}"
    using reader_aims [OF st, of r p] published_moves [OF st] ok unfolding ref_pages_ok_def by metis
next
  fix t
  assume "target d = Some t"
  then show "t \<in> {1..<rcu_pages (rseg d)}" "t \<noteq> published_page (rseg d)"
    using writer_targets [OF st, of t] published_moves [OF st] next_page_range [of "rseg c"] ok unfolding ref_pages_ok_def by metis+
qed

lemma aims_range: "ref_pages_ok c \<Longrightarrow> aims_at (rrd c r) = Some p \<Longrightarrow> 1 \<le> p \<and> p < rcu_pages (rseg c)"
  by (simp add: ref_pages_ok_def)

subsection \<open>Versions\<close>

text \<open>A page that is neither the writer page nor the target of a copy keeps its bytes and its version.\<close>

lemma ref_kept:
  assumes "ref_step c d" "ref_pages_ok c" and "p \<noteq> 0" "target c \<noteq> Some p"
  shows "ref_data (rseg d) p = ref_data (rseg c) p \<and> rpage_version d p = rpage_version c p"
  using assms(1)
proof (cases rule: ref_step.cases)
  case (v_write k v)
  then show ?thesis using assms(3) ref_data_other [of p 0 k "rseg c" v] by simp
next
  case (v_copy t i)
  then have "p \<noteq> t" using assms(4) by (simp add: target_def)
  then show ?thesis using v_copy ref_data_other [of p t i "rseg c"] by simp
qed (use assms(4) in \<open>simp_all add: target_def\<close>)

lemma ref_versions: "ref_step c d \<Longrightarrow> \<exists>vs. rversions d = rversions c @ vs"
  by (erule ref_step.cases) simp_all

lemma ref_version_kept:
  assumes "ref_step c d" "ref_pages_ok c" and "p \<noteq> 0" "target c \<noteq> Some p" and "ref_has_version c p"
  shows "ref_has_version d p"
proof -
  from ref_versions [OF assms(1)] obtain vs where "rversions d = rversions c @ vs" by blast
  then show ?thesis using ref_kept [OF assms(1-4)] assms(5) by (simp add: ref_has_version_def nth_append)
qed

lemma ref_holders:
  assumes "ref_step c d" "rrd d r = QHold p bs"
  shows "(\<exists>cs. rrd c r = QHold p cs \<and> (bs = cs \<or> length cs < ref_size (rseg c)
        \<and> bs = cs @ [ref_mem (rseg c) (CALSEG_RCU_PAGE_OFFSET (rseg c) p + length cs)]))
    \<or> rrd c r = QCheck p \<and> p = published_page (rseg c) \<and> bs = [] \<and> rseg d = rseg c \<and> target d = target c"
  using assms by (auto elim!: ref_step.cases simp: target_def split: if_splits)

text \<open>The published page changes only when a copy is complete.\<close>

lemma ref_moves:
  "ref_step c d \<Longrightarrow> published_page (rseg d) = published_page (rseg c)
     \<or> (\<exists>t. target c = Some t \<and> published_page (rseg d) = t \<and> ref_has_version d t \<and> rpage_version d t = length (rversions c))"
  by (auto elim!: ref_step.cases simp: ref_has_version_def target_def)

text \<open>A page becomes the target of a copy only while nobody has it pinned.\<close>

lemma ref_targets:
  assumes "ref_step c d" "refs_ok c" "rrd d r = QHold p bs" "target d = Some p"
  shows "target c = Some p"
  using assms(1)
proof (cases rule: ref_step.cases)
  case (v_scan k i j)
  show ?thesis
  proof (rule ccontr)
    assume "target c \<noteq> Some p"
    then have "page_refs (rseg c) p = 0" using v_scan assms(4) by (auto simp: target_def split: if_splits)
    then have "{q. pinned (rrd c q) = Some p} = {}" using assms(2) by (auto simp: refs_ok_def)
    moreover have "pinned (rrd c r) = Some p" using assms(3) v_scan by simp
    ultimately show False by blast
  qed
qed (use assms(4) in \<open>auto simp: target_def split: if_splits\<close>)

lemma ref_versions_step:
  assumes st: "ref_step c d" and r: "refs_ok c" and p: "ref_pages_ok c" "ref_pages_ok d" and v: "ref_versions_ok c"
  shows "ref_versions_ok d"
proof -
  let ?e = "published_page (rseg c)"
  have e0: "?e \<noteq> 0" "target c \<noteq> Some ?e" using p(1) by (auto simp: ref_pages_ok_def)
  note e = ref_version_kept [OF st p(1) e0] ref_kept [OF st p(1) e0]
  have ve: "ref_has_version c ?e" "rpage_version c ?e < length (rversions c)"
    using v by (simp_all add: ref_versions_ok_def ref_has_version_def)
  have pub: "ref_has_version d (published_page (rseg d)) \<and> rpage_version c ?e \<le> rpage_version d (published_page (rseg d))"
    using ref_moves [OF st] e ve by auto
  moreover have "target d \<noteq> Some q \<and> ref_has_version d q \<and> rpage_version d q \<le> rpage_version d (published_page (rseg d))"
    if h: "rrd d r = QHold q bs" for r q bs
    using ref_holders [OF st h]
  proof
    assume "\<exists>cs. rrd c r = QHold q cs \<and> (bs = cs \<or> length cs < ref_size (rseg c)
        \<and> bs = cs @ [ref_mem (rseg c) (CALSEG_RCU_PAGE_OFFSET (rseg c) q + length cs)])"
    then obtain cs where cs: "rrd c r = QHold q cs" by blast
    with v have q: "target c \<noteq> Some q" "ref_has_version c q" "rpage_version c q \<le> rpage_version c ?e"
      by (auto simp: ref_versions_ok_def)
    have q0: "q \<noteq> 0" using aims_range [OF p(1), of r q] cs by simp
    show ?thesis using ref_version_kept [OF st p(1) q0 q(1,2)] ref_kept [OF st p(1) q0 q(1)] q(3) pub ref_targets [OF st assms(2) h] q(1)
      by auto
  next
    assume a: "rrd c r = QCheck q \<and> q = ?e \<and> bs = [] \<and> rseg d = rseg c \<and> target d = target c"
    then show ?thesis using e0 e ve by auto
  qed
  ultimately show ?thesis by (simp add: ref_versions_ok_def)
qed

theorem ref_inv_step: "ref_step c d \<Longrightarrow> ref_inv c \<Longrightarrow> ref_inv d"
  unfolding ref_inv_def using refs_step ref_pages_step ref_versions_step by metis

lemma ref_start_inv:
  assumes "3 \<le> rcu_pages c"
  shows "ref_inv (ref_start c)"
  using assms by (simp add: ref_inv_def ref_start_def refs_ok_def ref_pages_ok_def ref_versions_ok_def ref_has_version_def
    target_def Let_def CalSegRefInit_def)

section \<open>The contract\<close>

definition ref_held :: "ref_conf \<Rightarrow> nat \<Rightarrow> (nat \<times> u8 list) option" where
  "ref_held c r = (case rrd c r of QHold p bs \<Rightarrow> Some (p, bs) | _ \<Rightarrow> None)"

lemma ref_held_Some: "ref_held c r = Some (p, bs) \<longleftrightarrow> rrd c r = QHold p bs"
  by (auto simp: ref_held_def split: ref_reader.splits)

interpretation refs: page_exchange ref_step ref_inv ref_held "\<lambda>c. ref_data (rseg c)" rversions rpage_version
  "\<lambda>c. rpage_version c (published_page (rseg c))"
proof
  fix c d r p bs q cs
  show "ref_inv d" if "ref_step c d" "ref_inv c" using that by (rule ref_inv_step)
  show "\<exists>vs. rversions d = rversions c @ vs" if "ref_step c d" using that by (rule ref_versions)
  show "rpage_version c p < length (rversions c) \<and> rversions c ! rpage_version c p = ref_data (rseg c) p
      \<and> rpage_version c p \<le> rpage_version c (published_page (rseg c))" if "ref_inv c" "ref_held c r = Some (p, bs)"
    using that by (auto simp: ref_inv_def ref_versions_ok_def ref_has_version_def ref_held_Some)
  show "q = p \<and> ref_data (rseg d) p = ref_data (rseg c) p \<and> rpage_version d p = rpage_version c p
      \<and> (cs = bs \<or> length bs < length (ref_data (rseg c) p) \<and> cs = bs @ [ref_data (rseg c) p ! length bs])"
    if st: "ref_step c d" "ref_inv c" and h: "ref_held c r = Some (p, bs)" "ref_held d r = Some (q, cs)"
  proof -
    have "p \<noteq> 0" "target c \<noteq> Some p"
      using st(2) h(1) aims_range [of c r p] by (auto simp: ref_inv_def ref_versions_ok_def ref_held_Some)
    from ref_kept [OF st(1) _ this] st(2) ref_holders [OF st(1), of r q cs] h show ?thesis
      by (auto simp: ref_inv_def ref_held_Some ref_data_nth)
  qed
  show "cs = [] \<and> rpage_version d q = rpage_version d (published_page (rseg d))"
    if "ref_step c d" "ref_inv c" "ref_held c r = None" "ref_held d r = Some (q, cs)"
    using that ref_holders [OF that(1), of r q cs] by (auto simp: ref_held_Some) (auto simp: ref_held_def)
  show "rpage_version c (published_page (rseg c)) \<le> rpage_version d (published_page (rseg d))" if st: "ref_step c d" "ref_inv c"
  proof -
    have "published_page (rseg c) \<noteq> 0" "target c \<noteq> Some (published_page (rseg c))"
      using st(2) by (auto simp: ref_inv_def ref_pages_ok_def)
    from ref_kept [OF st(1) _ this] ref_moves [OF st(1)] st(2) show ?thesis
      by (auto simp: ref_inv_def ref_versions_ok_def ref_has_version_def)
  qed
qed

subsection \<open>The reference page\<close>

definition reference_data :: "ref_seg \<Rightarrow> u8 list" where
  "reference_data s = mem_get 0 (ref_size s) (ref_mem s)"

lemma reference_fields [simp]: "reference_data (s\<lparr>page_refs := f\<rparr>) = reference_data s"
  "reference_data (s\<lparr>published_page := i\<rparr>) = reference_data s" "reference_data (s\<lparr>ref_ecu_access := i\<rparr>) = reference_data s"
  by (simp_all add: reference_data_def)

lemma ref_offset_beyond: "ref_size s \<le> CALSEG_RCU_PAGE_OFFSET s i"
  using align_up_ge [of 8 "ref_size s"] by (simp add: CALSEG_RCU_PAGE_OFFSET_def Let_def trans_le_add1)

lemma reference_data_write:
  "reference_data (s\<lparr>ref_mem := (ref_mem s)(CALSEG_RCU_PAGE_OFFSET s j + k := v)\<rparr>) = reference_data s"
  using ref_offset_beyond [of s j] by (auto simp: reference_data_def intro!: mem_get_cong)

lemma ref_reference_step: "ref_step c d \<Longrightarrow> reference_data (rseg d) = reference_data (rseg c)"
  by (erule ref_step.cases) (simp_all add: reference_data_write)

lemma ref_reference_readers:
  assumes "ref_step c d" and "\<And>q cs. rrd c q = QRef cs \<Longrightarrow> cs = take (length cs) (reference_data (rseg c))"
    and h: "rrd d r = QRef bs"
  shows "bs = take (length bs) (reference_data (rseg d))"
  using assms(1)
proof (cases rule: ref_step.cases)
  case (q_read_reference q cs)
  show ?thesis
  proof (cases "q = r")
    case True
    then have "bs = cs @ [ref_mem (rseg c) (length cs)]" using h q_read_reference by simp
    moreover have "reference_data (rseg c) ! length cs = ref_mem (rseg c) (length cs)" "length cs < length (reference_data (rseg c))"
      using q_read_reference by (simp_all add: reference_data_def mem_get_def)
    ultimately show ?thesis using assms(2) [of q cs] q_read_reference
      by (simp add: take_Suc_conv_app_nth)
  next
    case False
    then show ?thesis using assms(2) [of r bs] h q_read_reference by simp
  qed
qed (use assms(2) [of r bs] h ref_reference_step [OF assms(1)] in \<open>auto split: if_splits\<close>)

theorem ref_readers_see:
  assumes "ref_step\<^sup>*\<^sup>* (ref_start c) d" and c: "3 \<le> rcu_pages c"
  shows "ref_inv d \<and> (\<forall>r bs. rrd d r = QRef bs \<longrightarrow> bs = take (length bs) (reference_data c))
    \<and> (\<forall>r p bs. rrd d r = QHold p bs \<longrightarrow> rpage_version d p < length (rversions d)
        \<and> bs = take (length bs) (rversions d ! rpage_version d p))"
proof -
  note start = ref_start_inv [OF c]
  have inv: "ref_inv d" by (rule refs.steps_ok [OF assms(1) start])
  have "reference_data (rseg d) = reference_data c \<and> (\<forall>r bs. rrd d r = QRef bs \<longrightarrow> bs = take (length bs) (reference_data (rseg d)))"
    using assms(1)
  proof (induction rule: rtranclp_induct)
    case base
    have "reference_data (rseg (ref_start c)) = reference_data c"
      using ref_offset_beyond [of c 0] ref_offset_beyond [of c 1]
      by (simp add: ref_start_def Let_def CalSegRefInit_def reference_data_def mem_simps)
    then show ?case by (simp add: ref_start_def Let_def)
  next
    case (step d e)
    then show ?case using ref_reference_step [OF step(2)] ref_reference_readers [OF step(2)] by metis
  qed
  moreover have "rpage_version d p < length (rversions d) \<and> bs = take (length bs) (rversions d ! rpage_version d p)"
    if h: "rrd d r = QHold p bs" for r p bs
    using refs.snapshot [OF assms(1) start, of r p bs] h by (simp add: ref_held_Some) (simp add: ref_held_def ref_start_def Let_def)
  ultimately show ?thesis using inv by auto
qed

section \<open>Uninterrupted operations\<close>

lemma ref_run: "ref_step c d \<Longrightarrow> ref_step\<^sup>*\<^sup>* d e \<Longrightarrow> ref_step\<^sup>*\<^sup>* c e"
  by (rule converse_rtranclp_into_rtranclp)

theorem run_ref_lock:
  assumes "rrd c r = QIdle" and "page_refs (rseg c) (published_page (rseg c)) < 65535"
  shows "ref_step\<^sup>*\<^sup>* c (c\<lparr>rseg := snd (CalSegRefLock (rseg c)),
      rrd := (rrd c)(r := if ref_ecu_access (rseg c) \<noteq> XCP_CALPAGE_WORKING_PAGE then QRef [] else QHold (published_page (rseg c)) [])\<rparr>)"
proof (cases "ref_ecu_access (rseg c) \<noteq> XCP_CALPAGE_WORKING_PAGE")
  case True
  then show ?thesis using q_access [OF assms(1)] by (auto simp: CalSegRefLock_def)
next
  case False
  let ?p = "published_page (rseg c)" let ?s = "set_refs ?p ((page_refs (rseg c) ?p + 1) mod 65536) (rseg c)"
  let ?c1 = "c\<lparr>rrd := (rrd c)(r := QLoad)\<rparr>" let ?c2 = "c\<lparr>rrd := (rrd c)(r := QPin ?p)\<rparr>"
  let ?c3 = "c\<lparr>rrd := (rrd c)(r := QCheck ?p), rseg := ?s\<rparr>"
  have 1: "ref_step c ?c1" using q_access [OF assms(1)] False by simp
  have 2: "ref_step ?c1 ?c2" using q_load [of ?c1 r] by simp
  have 3: "ref_step ?c2 ?c3" using q_pin [of ?c2 r ?p] assms(2) by simp
  have 4: "ref_step ?c3 (c\<lparr>rseg := ?s, rrd := (rrd c)(r := QHold ?p [])\<rparr>)" using q_check [of ?c3 r ?p] by simp
  show ?thesis using False ref_run [OF 1 ref_run [OF 2 ref_run [OF 3 r_into_rtranclp [where r = ref_step, OF 4]]]]
    by (simp add: CalSegRefLock_def Let_def)
qed

lemma ref_offset_inj: "0 < ref_size s \<Longrightarrow> CALSEG_RCU_PAGE_OFFSET s i = CALSEG_RCU_PAGE_OFFSET s j \<Longrightarrow> i = j"
  using ref_offsets_disjoint [of i j s] by fastforce

lemma find_unique:
  assumes "P p" "p \<in> set xs" "\<And>q. P q \<Longrightarrow> q = p"
  shows "List.find P xs = Some p"
proof (cases "List.find P xs")
  case None
  then show ?thesis using assms(1,2) by (auto simp: find_None_iff)
next
  case (Some q)
  then show ?thesis using assms(3) by (auto simp: find_Some_iff)
qed

theorem run_ref_unlock:
  assumes "rrd c r = QHold p bs" and "ref_inv c" and "0 < ref_size (rseg c)"
  shows "ref_step\<^sup>*\<^sup>* c (c\<lparr>rrd := (rrd c)(r := QIdle), rseg := CalSegRefUnlock (CALSEG_RCU_PAGE_OFFSET (rseg c) p) (rseg c)\<rparr>)"
proof -
  let ?s = "rseg c"
  have p: "1 \<le> p" "p < rcu_pages ?s" using aims_range [of c r p] assms(1,2) by (simp_all add: ref_inv_def)
  have "CALSEG_RCU_PAGE_OFFSET ?s p \<noteq> 0"
    using assms(3) align_up_ge [of 8 "ref_size ?s"] by (simp add: CALSEG_RCU_PAGE_OFFSET_def Let_def)
  moreover have "List.find (\<lambda>i. CALSEG_RCU_PAGE_OFFSET ?s p = CALSEG_RCU_PAGE_OFFSET ?s i) [1..<rcu_pages ?s] = Some p"
    by (rule find_unique) (use p ref_offset_inj [OF assms(3)] in \<open>auto\<close>)
  ultimately have "CalSegRefUnlock (CALSEG_RCU_PAGE_OFFSET ?s p) ?s = set_refs p ((page_refs ?s p + 65535) mod 65536) ?s"
    by (simp add: CalSegRefUnlock_def)
  then show ?thesis using q_unlock [OF assms(1)] by (auto intro: r_into_rtranclp)
qed

lemma run_scan:
  assumes "rwr c = VScan k i"
  shows "ref_step\<^sup>*\<^sup>* c (c\<lparr>rwr := case scan_pages (rseg c) k i of None \<Rightarrow> VIdle | Some t \<Rightarrow> VCopy t 0\<rparr>)"
  using assms
proof (induction k arbitrary: c i)
  case 0
  then show ?case using v_none [of c i] by auto
next
  case (Suc k)
  let ?j = "next_page (rseg c) i"
  show ?case
  proof (cases "?j \<noteq> published_page (rseg c) \<and> page_refs (rseg c) ?j = 0")
    case True
    then show ?thesis using v_scan [OF Suc.prems, of ?j] by (auto simp: Let_def)
  next
    case False
    let ?c1 = "c\<lparr>rwr := VScan k ?j\<rparr>"
    have "ref_step c ?c1" using v_scan [OF Suc.prems, of ?j] False by auto
    moreover have "scan_pages (rseg c) (Suc k) i = scan_pages (rseg c) k ?j" using False by (auto simp: Let_def)
    ultimately show ?thesis using Suc.IH [of ?c1 ?j] ref_run [of c ?c1] by simp
  qed
qed

lemma run_ref_copy:
  assumes w: "rwr c = VCopy t 0" and t: "t \<noteq> 0"
  defines "m i \<equiv> mem_copy (CALSEG_RCU_PAGE_OFFSET (rseg c) t) (CALSEG_RCU_PAGE_OFFSET (rseg c) 0) i (ref_mem (rseg c))"
  shows "i \<le> ref_size (rseg c) \<Longrightarrow> ref_step\<^sup>*\<^sup>* c (c\<lparr>rwr := VCopy t i, rseg := (rseg c)\<lparr>ref_mem := m i\<rparr>\<rparr>)"
proof (induction i)
  case 0
  have "m 0 = ref_mem (rseg c)" by (auto simp: m_def mem_copy_def mem_set_def mem_get_def fun_eq_iff)
  moreover have "c\<lparr>rwr := VCopy t 0\<rparr> = c" using w by simp
  ultimately show ?case by simp
next
  case (Suc i)
  let ?c = "c\<lparr>rwr := VCopy t i, rseg := (rseg c)\<lparr>ref_mem := m i\<rparr>\<rparr>"
  let ?x = "CALSEG_RCU_PAGE_OFFSET (rseg c) 0" and ?f = "CALSEG_RCU_PAGE_OFFSET (rseg c) t"
  have "m (Suc i) = (m i)(?f + i := m i (?x + i))"
    using ref_offsets_disjoint [of t 0 "rseg c"] t Suc.prems unfolding m_def
    by (auto simp: mem_copy_def mem_set_def mem_get_def fun_eq_iff nth_append less_Suc_eq)
  then have "ref_step ?c (c\<lparr>rwr := VCopy t (Suc i), rseg := (rseg c)\<lparr>ref_mem := m (Suc i)\<rparr>\<rparr>)"
    using v_copy [of ?c t i] Suc.prems by simp
  with Suc show ?case by (auto intro: rtranclp.rtrancl_into_rtrancl)
qed

theorem run_ref_publish:
  assumes inv: "ref_inv c" and w: "rwr c = VIdle"
  shows "\<exists>v g. ref_step\<^sup>*\<^sup>* c (c\<lparr>rseg := snd (CalSegRefTryPublish (rseg c)), rversions := v, rpage_version := g\<rparr>)
    \<and> v = (if fst (CalSegRefTryPublish (rseg c)) then rversions c @ [ref_data (rseg c) 0] else rversions c)"
proof -
  let ?s = "rseg c" let ?k = "rcu_pages ?s - 1"
  have idle: "c\<lparr>rwr := VIdle\<rparr> = c" using w by simp
  have 1: "ref_step c (c\<lparr>rwr := VScan ?k (published_page ?s)\<rparr>)" by (rule v_start [OF w])
  note 2 = run_scan [of "c\<lparr>rwr := VScan ?k (published_page ?s)\<rparr>" ?k "published_page ?s"]
  show ?thesis
  proof (cases "scan_pages ?s ?k (published_page ?s)")
    case None
    then have "ref_step\<^sup>*\<^sup>* c c" "CalSegRefTryPublish ?s = (False, ?s)" by (simp_all add: CalSegRefTryPublish_def)
    then show ?thesis by (intro exI [of _ "rversions c"] exI [of _ "rpage_version c"]) simp
  next
    case (Some t)
    have "3 \<le> rcu_pages ?s" using inv by (simp add: ref_inv_def ref_pages_ok_def)
    from scan_pages_Some [OF this Some] have t: "t \<noteq> 0" by auto
    let ?m = "mem_copy (CALSEG_RCU_PAGE_OFFSET ?s t) (CALSEG_RCU_PAGE_OFFSET ?s 0) (ref_size ?s) (ref_mem ?s)"
    let ?c2 = "c\<lparr>rwr := VCopy t 0\<rparr>" let ?c3 = "c\<lparr>rwr := VCopy t (ref_size ?s), rseg := ?s\<lparr>ref_mem := ?m\<rparr>\<rparr>"
    have 3: "ref_step\<^sup>*\<^sup>* ?c2 ?c3" using run_ref_copy [of ?c2 t "ref_size ?s"] t by simp
    have "ref_data (?s\<lparr>ref_mem := ?m\<rparr>) t = ref_data ?s 0" by (simp add: ref_data_def mem_simps)
    then have 4: "ref_step ?c3 (c\<lparr>rwr := VIdle, rseg := ?s\<lparr>ref_mem := ?m, published_page := t\<rparr>,
        rversions := rversions c @ [ref_data ?s 0], rpage_version := (rpage_version c)(t := length (rversions c))\<rparr>)"
      using v_announce [of ?c3 t "ref_size ?s"] by simp
    have "ref_step\<^sup>*\<^sup>* c (c\<lparr>rwr := VIdle, rseg := ?s\<lparr>ref_mem := ?m, published_page := t\<rparr>,
        rversions := rversions c @ [ref_data ?s 0], rpage_version := (rpage_version c)(t := length (rversions c))\<rparr>)"
      using ref_run [OF 1 rtranclp_trans [where r = ref_step, OF 2]] Some ref_run [OF 1 rtranclp_trans [where r = ref_step, OF 2
          rtranclp_trans [where r = ref_step, OF _ r_into_rtranclp [where r = ref_step, OF 4]]]] 3 by simp
    moreover have "c\<lparr>rwr := VIdle, rseg := u, rversions := v, rpage_version := g\<rparr> = c\<lparr>rseg := u, rversions := v, rpage_version := g\<rparr>" for u v g
      using w by (cases c) simp
    ultimately show ?thesis using Some
      by (intro exI [of _ "rversions c @ [ref_data ?s 0]"] exI [of _ "(rpage_version c)(t := length (rversions c))"])
        (simp add: CalSegRefTryPublish_def)
  qed
qed

end
