(* ===== verification/Props_Rcu.thy ===== *)
theory Props_Rcu
  imports Cal_Rcu_Lock Cal_Rcu_Refs
begin

text \<open>
  Properties of the page exchange between the client and the readers of a calibration segment
  (\<^verbatim>\<open>src/src/cal.c\<close>) under every interleaving, for both algorithms of the code. The witnesses follow a
  reader of a segment of four bytes.
\<close>

section \<open>Lock count and page hand-over\<close>

text \<open>C36. No torn reads: whatever the writer and the other readers do between the accesses of a reader - byte-wise client writes,
  publications, page switches, nested and overlapping locks - the bytes that a reader under its lock has read so far are the beginning of one
  published version of the page, or of the reference page when that is active.\<close>

theorem no_torn_reads:
  assumes "0 < seg_bytes c" "seg_bytes c \<le> 65528" and "rcu_step\<^sup>*\<^sup>* (rcu_start c) d" and "rd d r = RHold p bs"
  shows "if p = 0 then take (length bs) (page_data c 0) = bs
    else page_version d p < length (versions d) \<and> take (length bs) (versions d ! page_version d p) = bs"
  using readers_see [OF assms(3,1,2)] assms(4) by fastforce

definition example_seg :: tXcpCalSeg where
  "example_seg = \<lparr>ecu_page_next = 0, free_page = 0, ecu_page = 0, xcp_page = 0, file_pos = 0, lock_count = 0, seg_bytes = 4,
     ecu_access = XCP_CALPAGE_WORKING_PAGE, xcp_access = XCP_CALPAGE_WORKING_PAGE, write_pending = False, free_page_hazard = False,
     calseg_number = 0, seg_mode = 0, calseg_name = ''s'', seg_mem = (\<lambda>a. of_nat a)\<rparr>"

definition locked :: "nat \<Rightarrow> rcu_conf \<Rightarrow> rcu_conf" where
  "locked r c = c\<lparr>seg := snd (CalSegRcuLock (seg c)), rd := (rd c)(r := RHold (fst (CalSegRcuLock (seg c))) [])\<rparr>"

definition read_two :: rcu_conf where
  "read_two = (locked 0 (rcu_start example_seg))\<lparr>rd := (rd (locked 0 (rcu_start example_seg)))(0 := RHold 16 [0, 1])\<rparr>"

lemmas example_defs = locked_def rcu_start_def example_seg_def CalSegRcuInit_def CalSegRcuLock_def CalSegAlignedPageSize_def
  align_up_def Let_def mem_copy_def mem_set_def mem_get_def

lemma read_two_run: "rcu_step\<^sup>*\<^sup>* (rcu_start example_seg) read_two"
proof -
  let ?l = "locked 0 (rcu_start example_seg)"
  let ?m = "?l\<lparr>rd := (rd ?l)(0 := RHold 16 [0])\<rparr>"
  have 1: "rcu_step\<^sup>*\<^sup>* (rcu_start example_seg) ?l"
    unfolding locked_def by (rule run_lock) (simp_all add: example_defs)
  have h: "rd ?l 0 = RHold 16 []" "seg_bytes (seg ?l) = 4" "seg_mem (seg ?l) 16 = 0" "seg_mem (seg ?l) (Suc 16) = 1"
    by (simp_all add: example_defs upt_rec)
  have 2: "rcu_step ?l ?m" using r_read [OF h(1)] h by simp
  have 3: "rcu_step ?m read_two" using r_read [of ?m 0 16 "[0]"] h by (simp add: read_two_def)
  show ?thesis using 1 2 3 by (meson rtranclp.rtrancl_into_rtrancl)
qed

lemma no_torn_reads_witness:
  "rd read_two 0 = RHold 16 [0, 1] \<and> page_version read_two 16 < length (versions read_two)
    \<and> take (length [0, 1 :: u8]) (versions read_two ! page_version read_two 16) = [0, 1]"
proof -
  have h: "rd read_two 0 = RHold 16 [0, 1]" by (simp add: read_two_def)
  show ?thesis using no_torn_reads [OF _ _ read_two_run h] h by (simp add: example_seg_def)
qed

text \<open>C37. Readers never go back: when a reader holds a version of the working page, every hold that begins later - by the same or
  another reader - gets this version or a later one.\<close>

theorem readers_never_go_back:
  assumes "0 < seg_bytes s" "seg_bytes s \<le> 65528" and "rcu_step\<^sup>*\<^sup>* (rcu_start s) c" "rcu_step\<^sup>*\<^sup>* c d"
    and "rcu_held c r = Some (p, bs)" and "rcu_held c r' = None" and "rcu_held d r' = Some (q, cs)"
  shows "page_version c p \<le> page_version d q"
  by (rule rcu.never_older [OF assms(4) rcu.steps_ok [OF assms(3) rcu_start_inv [OF assms(1,2)]] assms(5-7)])

lemma readers_never_go_back_witness: "page_version read_two 16 \<le> page_version (locked 1 read_two) 16"
proof -
  have "rcu_step\<^sup>*\<^sup>* read_two (locked 1 read_two)"
    unfolding locked_def by (rule run_lock) (simp_all add: read_two_def example_defs)
  from readers_never_go_back [OF _ _ read_two_run this, of 0 16 "[0, 1]" 1 16 "[]"] show ?thesis
    by (simp add: rcu_held_def read_two_def example_defs)
qed

text \<open>C38. The functions are runs: a lock, an unlock and a publication whose steps are not interrupted take the interleaved system
  exactly to the states that the sequential functions compute, and a successful publication announces the client's page.\<close>

theorem functions_are_runs:
  assumes "rcu_inv c" and "wr c = WIdle" and "rd c r = RIdle" and "lock_count (seg c) < 65535" and "rd c r' = RHold p bs"
  shows "rcu_step\<^sup>*\<^sup>* c (c\<lparr>seg := snd (CalSegRcuLock (seg c)), rd := (rd c)(r := RHold (fst (CalSegRcuLock (seg c))) [])\<rparr>)
    \<and> rcu_step\<^sup>*\<^sup>* c (c\<lparr>rd := (rd c)(r' := RIdle), seg := CalSegRcuUnlock (seg c)\<rparr>)
    \<and> (\<exists>v g. rcu_step\<^sup>*\<^sup>* c (c\<lparr>seg := snd (CalSegRcuTryPublish (seg c)), versions := v, page_version := g\<rparr>)
        \<and> v = (if fst (CalSegRcuTryPublish (seg c)) then versions c @ [page_data (seg c) (xcp_page (seg c))] else versions c))"
  using run_lock [OF assms(3,4)] run_unlock [OF assms(5)] run_publish [OF assms(1,2)] by blast

lemma functions_are_runs_witness:
  "rcu_step\<^sup>*\<^sup>* read_two (read_two\<lparr>seg := snd (CalSegRcuLock (seg read_two)),
      rd := (rd read_two)(1 := RHold (fst (CalSegRcuLock (seg read_two))) [])\<rparr>)
    \<and> rcu_step\<^sup>*\<^sup>* read_two (read_two\<lparr>rd := (rd read_two)(0 := RIdle), seg := CalSegRcuUnlock (seg read_two)\<rparr>)
    \<and> (\<exists>v g. rcu_step\<^sup>*\<^sup>* read_two (read_two\<lparr>seg := snd (CalSegRcuTryPublish (seg read_two)), versions := v, page_version := g\<rparr>)
        \<and> v = (if fst (CalSegRcuTryPublish (seg read_two)) then versions read_two @ [page_data (seg read_two) (xcp_page (seg read_two))]
               else versions read_two))"
proof (rule functions_are_runs)
  show "rcu_inv read_two"
    by (rule rcu.steps_ok [OF read_two_run rcu_start_inv]) (simp_all add: example_seg_def)
qed (simp_all add: read_two_def example_defs)

section \<open>Reference counts\<close>

text \<open>C39. The reference count algorithm keeps the same promise: no torn reads, and no reader goes back to an older version.\<close>

theorem ref_readers:
  assumes "3 \<le> rcu_pages s" and "ref_step\<^sup>*\<^sup>* (ref_start s) c" and "rrd c r = QHold p bs"
  shows "rpage_version c p < length (rversions c) \<and> take (length bs) (rversions c ! rpage_version c p) = bs
    \<and> (\<forall>d r' q cs. ref_step\<^sup>*\<^sup>* c d \<longrightarrow> ref_held c r' = None \<longrightarrow> ref_held d r' = Some (q, cs) \<longrightarrow> rpage_version c p \<le> rpage_version d q)"
proof -
  note see = ref_readers_see [OF assms(2,1)]
  have "rpage_version c p \<le> rpage_version d q"
    if "ref_step\<^sup>*\<^sup>* c d" "ref_held c r' = None" "ref_held d r' = Some (q, cs)" for d r' q cs
    by (rule refs.never_older [OF that(1) conjunct1 [OF see] _ that(2,3), of r p bs]) (simp add: ref_held_Some assms(3))
  moreover have "rpage_version c p < length (rversions c)" "take (length bs) (rversions c ! rpage_version c p) = bs"
    using see assms(3) by (blast, metis)
  ultimately show ?thesis by blast
qed

definition example_refs :: ref_seg where
  "example_refs = \<lparr>rcu_pages = 3, published_page = 0, page_refs = (\<lambda>_. 0), ref_size = 4, ref_ecu_access = 0, ref_mem = (\<lambda>a. of_nat a)\<rparr>"

definition ref_locked :: ref_conf where
  "ref_locked = (ref_start example_refs)\<lparr>rseg := snd (CalSegRefLock (rseg (ref_start example_refs))),
     rrd := (rrd (ref_start example_refs))(0 := QHold 1 [])\<rparr>"

lemma ref_locked_run: "ref_step\<^sup>*\<^sup>* (ref_start example_refs) ref_locked"
  using run_ref_lock [of "ref_start example_refs" 0]
  by (simp add: ref_locked_def ref_start_def Let_def CalSegRefInit_def example_refs_def)

definition ref_read :: ref_conf where
  "ref_read = ref_locked\<lparr>rrd := (rrd ref_locked)(0 := QHold 1 [0])\<rparr>"

lemma ref_read_run: "ref_step\<^sup>*\<^sup>* (ref_start example_refs) ref_read"
proof -
  have h: "rrd ref_locked 0 = QHold 1 []" "ref_size (rseg ref_locked) = 4"
    "ref_mem (rseg ref_locked) (CALSEG_RCU_PAGE_OFFSET (rseg ref_locked) 1) = 0"
    by (simp_all add: ref_locked_def ref_start_def Let_def CalSegRefInit_def CalSegRefLock_def example_refs_def
        CALSEG_RCU_PAGE_OFFSET_def align_up_def mem_copy_def mem_set_def mem_get_def)
  have "ref_step ref_locked ref_read" using q_read [OF h(1)] h by (simp add: ref_read_def)
  then show ?thesis by (rule rtranclp.rtrancl_into_rtrancl [OF ref_locked_run])
qed

lemma ref_readers_witness:
  "rpage_version ref_read 1 < length (rversions ref_read) \<and> take (length [0 :: u8]) (rversions ref_read ! rpage_version ref_read 1) = [0]"
proof -
  have h: "rrd ref_read 0 = QHold 1 [0]" by (simp add: ref_read_def)
  show ?thesis using ref_readers [OF _ ref_read_run h] by (simp add: example_refs_def)
qed

text \<open>C40. A publication with reference counts depends on the readers only by the pages they pin: it succeeds exactly when a page other than
  the writer's and the published one is not pinned; then the client's page is published, and no pinned page and not the page
  published before changes. Otherwise nothing changes.\<close>

theorem ref_publication:
  assumes "3 \<le> rcu_pages s" and "published_page s \<in> {1..<rcu_pages s}"
  shows "case CalSegRefTryPublish s of (ok, t) \<Rightarrow>
    ok = (\<exists>j \<in> {1..<rcu_pages s}. j \<noteq> published_page s \<and> page_refs s j = 0)
    \<and> (if ok then ref_data t (published_page t) = ref_data s 0
         \<and> (\<forall>j. j \<noteq> 0 \<longrightarrow> 0 < page_refs s j \<or> j = published_page s \<longrightarrow> ref_data t j = ref_data s j)
       else t = s)"
proof (cases "scan_pages s (rcu_pages s - 1) (published_page s)")
  case None
  then show ?thesis using ref_publish_possible [OF assms] by (simp add: CalSegRefTryPublish_def)
next
  case (Some t)
  note t = scan_pages_Some [OF assms(1) Some]
  have keep: "ref_data (s\<lparr>ref_mem := mem_copy (CALSEG_RCU_PAGE_OFFSET s t) (CALSEG_RCU_PAGE_OFFSET s 0) (ref_size s) (ref_mem s)\<rparr>) j = ref_data s j"
    if "j \<noteq> t" for j
    using ref_offsets_disjoint [OF that, of s] by (auto simp: ref_data_def mem_simps)
  have new: "ref_data (s\<lparr>ref_mem := mem_copy (CALSEG_RCU_PAGE_OFFSET s t) (CALSEG_RCU_PAGE_OFFSET s 0) (ref_size s) (ref_mem s)\<rparr>) t = ref_data s 0"
    by (simp add: ref_data_def mem_simps)
  have "j \<noteq> t" if "0 < page_refs s j \<or> j = published_page s" for j using that t by auto
  then show ?thesis using ref_publish_possible [OF assms] t keep new Some
    by (auto simp: CalSegRefTryPublish_def)
qed

lemma ref_publication_witness:
  "case CalSegRefTryPublish (rseg ref_read) of (ok, t) \<Rightarrow>
    ok = (\<exists>j \<in> {1..<rcu_pages (rseg ref_read)}. j \<noteq> published_page (rseg ref_read) \<and> page_refs (rseg ref_read) j = 0)
    \<and> (if ok then ref_data t (published_page t) = ref_data (rseg ref_read) 0
         \<and> (\<forall>j. j \<noteq> 0 \<longrightarrow> 0 < page_refs (rseg ref_read) j \<or> j = published_page (rseg ref_read) \<longrightarrow> ref_data t j = ref_data (rseg ref_read) j)
       else t = rseg ref_read)"
  by (rule ref_publication)
    (simp_all add: ref_read_def ref_locked_def ref_start_def Let_def CalSegRefInit_def CalSegRefLock_def example_refs_def)

end
