(* ===== verification/Xcp_Sockets.thy ===== *)
theory Xcp_Sockets
  imports Xcp_Base
begin

text \<open>
  The socket layer (\<^verbatim>\<open>src/src/sockets.c\<close>, POSIX build without hardware time stamps) above the calls of
  the operating system. The operating system is the record \<open>kernel\<close>, an argument of every definition: its calls
  take and return the state \<open>'w\<close> of the world outside the process, and give an error number (\<open>Inl\<close>) or a result
  (\<open>Inr\<close>). What a stream socket does with the bytes, as POSIX documents it, are the predicates \<open>sends_stream\<close> and
  \<open>reads_stream\<close>; nothing else is assumed of the operating system.
\<close>

section \<open>Operating system\<close>

abbreviation (input) EINTR :: nat where "EINTR \<equiv> 4"
abbreviation (input) EBADF :: nat where "EBADF \<equiv> 9"
abbreviation (input) EAGAIN :: nat where "EAGAIN \<equiv> 11"
abbreviation (input) EMSGSIZE :: nat where "EMSGSIZE \<equiv> 90"
abbreviation (input) ECONNABORTED :: nat where "ECONNABORTED \<equiv> 103"
abbreviation (input) ECONNRESET :: nat where "ECONNRESET \<equiv> 104"
abbreviation (input) ENOTCONN :: nat where "ENOTCONN \<equiv> 107"
abbreviation (input) ETIMEDOUT :: nat where "ETIMEDOUT \<equiv> 110"
abbreviation (input) INVALID_SOCKET :: int where "INVALID_SOCKET \<equiv> - 1"
abbreviation (input) SOCKET_MODE_TCP :: u16 where "SOCKET_MODE_TCP \<equiv> 1"
abbreviation (input) SOCKET_MODE_REUSEADDR :: u16 where "SOCKET_MODE_REUSEADDR \<equiv> 4"

datatype sockopt = SO_REUSEADDR | IP_MTU_DISCOVER | SO_RCVTIMEO nat nat

type_synonym peer = "u8 list \<times> nat"

record 'w kernel =
  k_socket :: "bool \<Rightarrow> 'w \<Rightarrow> (nat + int) \<times> 'w"
  k_setsockopt :: "int \<Rightarrow> sockopt \<Rightarrow> 'w \<Rightarrow> (nat + unit) \<times> 'w"
  k_bind :: "int \<Rightarrow> peer \<Rightarrow> 'w \<Rightarrow> (nat + unit) \<times> 'w"
  k_listen :: "int \<Rightarrow> nat \<Rightarrow> 'w \<Rightarrow> (nat + unit) \<times> 'w"
  k_accept :: "int \<Rightarrow> 'w \<Rightarrow> (nat + int \<times> u8 list) \<times> 'w"
  k_recv :: "int \<Rightarrow> nat \<Rightarrow> bool \<Rightarrow> 'w \<Rightarrow> (nat + u8 list) \<times> 'w"
  k_recvfrom :: "int \<Rightarrow> nat \<Rightarrow> 'w \<Rightarrow> (nat + u8 list \<times> peer) \<times> 'w"
  k_send :: "int \<Rightarrow> u8 list \<Rightarrow> 'w \<Rightarrow> (nat + nat) \<times> 'w"
  k_sendto :: "int \<Rightarrow> u8 list \<Rightarrow> peer \<Rightarrow> 'w \<Rightarrow> (nat + nat) \<times> 'w"
  k_sendmsg :: "int \<Rightarrow> u8 list list \<Rightarrow> peer option \<Rightarrow> 'w \<Rightarrow> (nat + nat) \<times> 'w"
  k_shutdown :: "int \<Rightarrow> 'w \<Rightarrow> 'w"
  k_close :: "int \<Rightarrow> 'w \<Rightarrow> 'w"
  k_clock :: "'w \<Rightarrow> nat \<times> 'w"

definition socketIsClosed :: "nat \<Rightarrow> bool" where
  "socketIsClosed err \<longleftrightarrow> err = ENOTCONN \<or> err = ECONNABORTED \<or> err = EBADF \<or> err = ECONNRESET"

definition socketWouldBlock :: "nat \<Rightarrow> bool" where
  "socketWouldBlock err \<longleftrightarrow> err = EAGAIN"

definition socketTimeout :: "nat \<Rightarrow> bool" where
  "socketTimeout err \<longleftrightarrow> err = ETIMEDOUT \<or> err = EAGAIN \<or> err = EINTR"

section \<open>Opening and closing\<close>

text \<open>A failing socket option is only reported. The address \<open>0.x.x.x\<close> binds to any address.\<close>

definition socketOpen :: "'w kernel \<Rightarrow> u16 \<Rightarrow> 'w \<Rightarrow> int option \<times> 'w" where
  "socketOpen k flags w = (let useTCP = (flags AND SOCKET_MODE_TCP \<noteq> 0) in
     case k_socket k useTCP w of
       (Inl e, w1) \<Rightarrow> (None, w1)
     | (Inr sock, w1) \<Rightarrow>
         if sock < 0 then (None, w1)
         else let w2 = (if flags AND SOCKET_MODE_REUSEADDR \<noteq> 0 then snd (k_setsockopt k sock SO_REUSEADDR w1) else w1);
                  w3 = (if \<not> useTCP then snd (k_setsockopt k sock IP_MTU_DISCOVER w2) else w2)
              in (Some sock, w3))"

definition socketBind :: "'w kernel \<Rightarrow> int \<Rightarrow> u8 list \<Rightarrow> nat \<Rightarrow> 'w \<Rightarrow> bool \<times> 'w" where
  "socketBind k sock addr port w =
     (case k_bind k sock (if addr ! 0 \<noteq> 0 then addr else [0, 0, 0, 0], port) w of
        (Inl e, w1) \<Rightarrow> (False, w1)
      | (Inr u, w1) \<Rightarrow> (True, w1))"

definition socketListen :: "'w kernel \<Rightarrow> int \<Rightarrow> 'w \<Rightarrow> bool \<times> 'w" where
  "socketListen k sock w = (case k_listen k sock 5 w of (Inl e, w1) \<Rightarrow> (False, w1) | (Inr u, w1) \<Rightarrow> (True, w1))"

definition socketAccept :: "'w kernel \<Rightarrow> int \<Rightarrow> 'w \<Rightarrow> (int \<times> u8 list) option \<times> 'w" where
  "socketAccept k listen w = (case k_accept k listen w of
       (Inl e, w1) \<Rightarrow> (None, w1)
     | (Inr (sock, addr), w1) \<Rightarrow> (if sock = INVALID_SOCKET then None else Some (sock, addr), w1))"

definition socketSetTimeout :: "'w kernel \<Rightarrow> int \<Rightarrow> nat \<Rightarrow> 'w \<Rightarrow> bool \<times> 'w" where
  "socketSetTimeout k sock ms w =
     (case k_setsockopt k sock (SO_RCVTIMEO (ms div 1000) (ms mod 1000 * 1000)) w of
        (Inl e, w1) \<Rightarrow> (False, w1) | (Inr u, w1) \<Rightarrow> (True, w1))"

definition socketShutdown :: "'w kernel \<Rightarrow> int \<Rightarrow> 'w \<Rightarrow> 'w" where
  "socketShutdown k sock w = (if sock \<noteq> INVALID_SOCKET then k_shutdown k sock w else w)"

text \<open>The result is the handle, now invalid.\<close>

definition socketClose :: "'w kernel \<Rightarrow> int \<Rightarrow> 'w \<Rightarrow> int \<times> 'w" where
  "socketClose k sock w = (if sock \<noteq> INVALID_SOCKET then (INVALID_SOCKET, k_close k sock w) else (sock, w))"

section \<open>Receiving\<close>

text \<open>The results \<open>n > 0\<close>, \<open>n = 0\<close> and \<open>n < 0\<close> of the receive functions, with the bytes or the error number that
  the caller finds in \<^verbatim>\<open>errno\<close>. Buffers are shorter than 32768 bytes, so that \<^verbatim>\<open>int16_t\<close> holds every
  length.\<close>

datatype 'a received = Received 'a | NoData | RecvError nat

definition socketRecvFrom :: "'w kernel \<Rightarrow> int \<Rightarrow> nat \<Rightarrow> 'w \<Rightarrow> (u8 list \<times> peer) received \<times> 'w" where
  "socketRecvFrom k sock n w = (case k_recvfrom k sock n w of
       (Inl e, w1) \<Rightarrow> (if socketTimeout e then NoData else RecvError e, w1)
     | (Inr (bs, p), w1) \<Rightarrow> (if bs = [] then NoData else Received (bs, p), w1))"

definition recv_some :: "'w kernel \<Rightarrow> int \<Rightarrow> nat \<Rightarrow> 'w \<Rightarrow> u8 list received \<times> 'w" where
  "recv_some k sock n w = (case k_recv k sock n False w of
       (Inl e, w1) \<Rightarrow> (if socketTimeout e then NoData else RecvError e, w1)
     | (Inr bs, w1) \<Rightarrow> (if bs = [] then RecvError ENOTCONN else Received bs, w1))"

text \<open>The loop that waits for all bytes. A timeout counts as no data only before the first byte.\<close>

function recv_all :: "'w kernel \<Rightarrow> int \<Rightarrow> nat \<Rightarrow> u8 list \<Rightarrow> 'w \<Rightarrow> u8 list received \<times> 'w" where
  "recv_all k sock n acc w = (case k_recv k sock (n - length acc) True w of
       (Inl e, w1) \<Rightarrow> (if socketTimeout e \<and> acc = [] then NoData else RecvError e, w1)
     | (Inr bs, w1) \<Rightarrow>
         if bs = [] then (RecvError ENOTCONN, w1)
         else if n \<le> length (acc @ bs) then (Received (acc @ bs), w1)
         else recv_all k sock n (acc @ bs) w1)"
  by pat_completeness auto
termination
  by (relation "measure (\<lambda>(k, sock, n, acc, w). n - length acc)") (auto simp: diff_less_mono2 simp flip: length_greater_0_conv)

declare recv_all.simps [simp del]

definition socketRecv :: "'w kernel \<Rightarrow> int \<Rightarrow> nat \<Rightarrow> bool \<Rightarrow> 'w \<Rightarrow> u8 list received \<times> 'w" where
  "socketRecv k sock n waitAll w = (if \<not> waitAll then recv_some k sock n w else recv_all k sock n [] w)"

section \<open>Sending\<close>

text \<open>The result is the number of bytes, 0 for a closed socket, or -1.\<close>

definition send_failed :: "nat \<Rightarrow> int" where
  "send_failed e = (if socketWouldBlock e then - 1 else if socketIsClosed e then 0 else - 1)"

definition socketSendTo :: "'w kernel \<Rightarrow> int \<Rightarrow> u8 list \<Rightarrow> peer \<Rightarrow> 'w \<Rightarrow> int \<times> 'w" where
  "socketSendTo k sock bs p w = (case k_sendto k sock bs p w of
     (Inl e, w1) \<Rightarrow> (send_failed e, w1) | (Inr n, w1) \<Rightarrow> (int n, w1))"

definition socketSend :: "'w kernel \<Rightarrow> int \<Rightarrow> u8 list \<Rightarrow> 'w \<Rightarrow> int \<times> 'w" where
  "socketSend k sock bs w = (case k_send k sock bs w of
     (Inl e, w1) \<Rightarrow> (send_failed e, w1) | (Inr n, w1) \<Rightarrow> (int n, w1))"

definition socketSendToV :: "'w kernel \<Rightarrow> int \<Rightarrow> u8 list list \<Rightarrow> peer \<Rightarrow> 'w \<Rightarrow> int \<times> 'w" where
  "socketSendToV k sock bufs p w = (case k_sendmsg k sock bufs (Some p) w of
     (Inl e, w1) \<Rightarrow> (send_failed e, w1)
   | (Inr n, w1) \<Rightarrow> (if sum_list (map length bufs) \<noteq> n then - 1 else int n, w1))"

text \<open>The vector behind the bytes that have been sent.\<close>

fun advance_iov :: "nat \<Rightarrow> u8 list list \<Rightarrow> u8 list list" where
  "advance_iov n [] = []"
| "advance_iov n (b # bs) = (if length b \<le> n then advance_iov (n - length b) bs else drop n b # bs)"

partial_function (option) send_loop :: "'w kernel \<Rightarrow> int \<Rightarrow> u8 list list \<Rightarrow> int \<Rightarrow> 'w \<Rightarrow> (int \<times> 'w) option" where
  "send_loop k sock iov sent w = (case k_sendmsg k sock iov None w of
     (Inl e, w1) \<Rightarrow> Some (send_failed e, w1)
   | (Inr n, w1) \<Rightarrow>
       if advance_iov n iov = [] then Some (sent + int n, w1)
       else send_loop k sock (advance_iov n iov) (sent + int n) w1)"

definition socketSendV :: "'w kernel \<Rightarrow> int \<Rightarrow> u8 list list \<Rightarrow> 'w \<Rightarrow> (int \<times> 'w) option" where
  "socketSendV k sock bufs w = send_loop k sock bufs 0 w"

section \<open>Stream sockets\<close>

text \<open>POSIX: a receive call takes bytes from the front of what has arrived, at most as many as asked for; a send call
  accepts a prefix of the data, at least one byte, and an error sends nothing. \<open>arriving\<close> and \<open>wire\<close> read the two
  directions of the connection off the world; \<open>arriving\<close> holds everything that the peer will have sent.\<close>

definition reads_stream :: "'w kernel \<Rightarrow> int \<Rightarrow> ('w \<Rightarrow> u8 list) \<Rightarrow> bool" where
  "reads_stream k sock arriving \<longleftrightarrow> (\<forall>n all w. 0 < n \<longrightarrow> (case k_recv k sock n all w of
       (Inl e, w1) \<Rightarrow> arriving w1 = arriving w
     | (Inr bs, w1) \<Rightarrow> length bs \<le> n \<and> arriving w = bs @ arriving w1))"

definition sends_stream :: "'w kernel \<Rightarrow> int \<Rightarrow> ('w \<Rightarrow> u8 list) \<Rightarrow> bool" where
  "sends_stream k sock wire \<longleftrightarrow> (\<forall>iov w. case k_sendmsg k sock iov None w of
       (Inl e, w1) \<Rightarrow> wire w1 = wire w
     | (Inr n, w1) \<Rightarrow> n \<le> length (concat iov) \<and> wire w1 = wire w @ take n (concat iov) \<and> (n = 0 \<longrightarrow> concat iov = []))"

text \<open>The connection takes whatever is sent.\<close>

definition accepting :: "'w kernel \<Rightarrow> int \<Rightarrow> bool" where
  "accepting k sock \<longleftrightarrow> (\<forall>iov w. \<exists>n w1. k_sendmsg k sock iov None w = (Inr n, w1))"

lemma advance_concat: "concat (advance_iov n iov) = drop n (concat iov)"
  by (induction n iov rule: advance_iov.induct) simp_all

lemma advance_empty: "length (concat iov) \<le> n \<Longrightarrow> advance_iov n iov = []"
  by (induction n iov rule: advance_iov.induct) auto

lemma advance_rest: "advance_iov n iov = [] \<Longrightarrow> n \<le> length (concat iov) \<Longrightarrow> n = length (concat iov)"
  using advance_concat [of n iov] by simp

text \<open>The loop ends, and sends every byte exactly once, in order, or stops with an error after a proper prefix.\<close>

lemma send_loop_all:
  assumes s: "sends_stream k sock wire"
  shows "\<exists>r w1. send_loop k sock iov sent w = Some (r, w1) \<and>
    (r = sent + int (length (concat iov)) \<and> wire w1 = wire w @ concat iov
     \<or> \<not> accepting k sock \<and> r \<le> 0 \<and> (wire w1 = wire w \<or> (\<exists>n < length (concat iov). wire w1 = wire w @ take n (concat iov))))"
proof (induction "length (concat iov)" arbitrary: iov sent w rule: less_induct)
  case less
  obtain res w1 where k: "k_sendmsg k sock iov None w = (res, w1)" by fastforce
  show ?case
  proof (cases res)
    case (Inl e)
    then have "wire w1 = wire w" using s k unfolding sends_stream_def by (metis (mono_tags, lifting) case_prod_conv sum.case(1))
    moreover have "\<not> accepting k sock" using k Inl unfolding accepting_def by (metis Pair_inject sum.distinct(1))
    ultimately show ?thesis using k Inl by (subst send_loop.simps) (auto simp: send_failed_def)
  next
    case (Inr n)
    have n: "n \<le> length (concat iov)" "wire w1 = wire w @ take n (concat iov)" "n = 0 \<longrightarrow> concat iov = []"
      using s k Inr unfolding sends_stream_def by (auto dest!: spec [of _ iov] spec [of _ w])
    show ?thesis
    proof (cases "advance_iov n iov = []")
      case True
      then have "n = length (concat iov)" using advance_rest n(1) by blast
      then show ?thesis using k Inr True n(2) by (subst send_loop.simps) auto
    next
      case False
      then have lt: "n < length (concat iov)" using advance_empty not_le by blast
      moreover have "0 < n" using n(3) lt by (cases n) auto
      ultimately have "length (concat (advance_iov n iov)) < length (concat iov)" by (simp add: advance_concat)
      from less [OF this, of "sent + int n" w1] obtain r w2
        where l: "send_loop k sock (advance_iov n iov) (sent + int n) w1 = Some (r, w2)"
          and c: "r = sent + int n + int (length (drop n (concat iov))) \<and> wire w2 = wire w1 @ drop n (concat iov)
            \<or> \<not> accepting k sock \<and> r \<le> 0 \<and> (wire w2 = wire w1
              \<or> (\<exists>m < length (drop n (concat iov)). wire w2 = wire w1 @ take m (drop n (concat iov))))"
        unfolding advance_concat by blast
      have "send_loop k sock iov sent w = Some (r, w2)"
        using k Inr False l by (subst send_loop.simps) simp
      moreover from c have "r = sent + int (length (concat iov)) \<and> wire w2 = wire w @ concat iov
         \<or> \<not> accepting k sock \<and> r \<le> 0 \<and> (\<exists>m < length (concat iov). wire w2 = wire w @ take m (concat iov))"
      proof (elim disjE conjE exE)
        fix m assume "\<not> accepting k sock" "r \<le> 0" "m < length (drop n (concat iov))" "wire w2 = wire w1 @ take m (drop n (concat iov))"
        then have "n + m < length (concat iov)" "wire w2 = wire w @ take (n + m) (concat iov)"
          using n(2) lt by (simp_all add: take_add)
        then show ?thesis using \<open>r \<le> 0\<close> \<open>\<not> accepting k sock\<close> by blast
      qed (use n lt in auto)
      ultimately show ?thesis by blast
    qed
  qed
qed

lemma socketSendV_all:
  assumes "sends_stream k sock wire" "concat iov \<noteq> []"
  obtains r w1 where "socketSendV k sock iov w = Some (r, w1)"
    "if 0 < r then r = int (length (concat iov)) \<and> wire w1 = wire w @ concat iov
     else \<not> accepting k sock \<and> (\<exists>n < length (concat iov). wire w1 = wire w @ take n (concat iov))"
proof -
  obtain r w1 where r: "send_loop k sock iov 0 w = Some (r, w1)"
    "r = 0 + int (length (concat iov)) \<and> wire w1 = wire w @ concat iov
     \<or> \<not> accepting k sock \<and> r \<le> 0 \<and> (wire w1 = wire w \<or> (\<exists>n < length (concat iov). wire w1 = wire w @ take n (concat iov)))"
    using send_loop_all [OF assms(1), of iov 0 w] by blast
  have "length (concat iov) > 0" using assms(2) by simp
  then have "if 0 < r then r = int (length (concat iov)) \<and> wire w1 = wire w @ concat iov
     else \<not> accepting k sock \<and> (\<exists>n < length (concat iov). wire w1 = wire w @ take n (concat iov))"
    using r(2) by (auto intro: exI [of _ 0])
  then show ?thesis using that r(1) by (simp add: socketSendV_def)
qed

lemma socketSendV_returns:
  assumes "sends_stream k sock wire" "concat iov \<noteq> []"
  shows "\<exists>r w1. socketSendV k sock iov w = Some (r, w1) \<and> (accepting k sock \<longrightarrow> 0 < r \<and> wire w1 = wire w @ concat iov)"
  by (rule socketSendV_all [OF assms, of w]) (auto split: if_splits)

text \<open>What a read that waits for all bytes takes from the connection.\<close>

lemma recv_all_stream:
  assumes "reads_stream k sock arriving" "length acc < n"
  shows "case recv_all k sock n acc w of
      (Received bs, w1) \<Rightarrow> length bs = n \<and> acc @ arriving w = bs @ arriving w1
    | (NoData, w1) \<Rightarrow> acc = [] \<and> arriving w1 = arriving w
    | (RecvError e, w1) \<Rightarrow> \<exists>ds. arriving w = ds @ arriving w1"
  using assms
proof (induction k sock n acc w rule: recv_all.induct)
  case (1 k sock n acc w)
  obtain res w1 where k: "k_recv k sock (n - length acc) True w = (res, w1)" by fastforce
  have s: "case res of Inl e \<Rightarrow> arriving w1 = arriving w
    | Inr bs \<Rightarrow> length bs \<le> n - length acc \<and> arriving w = bs @ arriving w1"
    using 1(2,3) k unfolding reads_stream_def by (auto dest!: spec [of _ "n - length acc"] spec [of _ True] spec [of _ w])
  show ?case
  proof (cases res)
    case (Inl e)
    then show ?thesis using k s by (subst recv_all.simps) simp
  next
    case (Inr bs)
    show ?thesis
    proof (cases "bs = [] \<or> n \<le> length (acc @ bs)")
      case True
      then show ?thesis using k s Inr 1(3) by (subst recv_all.simps) auto
    next
      case False
      then have rec: "recv_all k sock n acc w = recv_all k sock n (acc @ bs) w1"
        using k Inr by (subst recv_all.simps) simp
      have l: "length (acc @ bs) < n" using False by simp
      from 1(1) [OF k [symmetric] Inr _ _ 1(2) l] False
      have "case recv_all k sock n (acc @ bs) w1 of
          (Received bs', w2) \<Rightarrow> length bs' = n \<and> (acc @ bs) @ arriving w1 = bs' @ arriving w2
        | (NoData, w2) \<Rightarrow> acc @ bs = [] \<and> arriving w2 = arriving w1
        | (RecvError e, w2) \<Rightarrow> \<exists>ds. arriving w1 = ds @ arriving w2" by simp
      then show ?thesis unfolding rec using s Inr False by (auto split: received.splits prod.splits)
    qed
  qed
qed

text \<open>When the kernel always has bytes for the caller as long as some are to arrive, a read gets what it asks for.\<close>

definition prompt_stream :: "'w kernel \<Rightarrow> int \<Rightarrow> ('w \<Rightarrow> u8 list) \<Rightarrow> bool" where
  "prompt_stream k sock arriving \<longleftrightarrow> (\<forall>n all w. 0 < n \<longrightarrow> arriving w \<noteq> [] \<longrightarrow>
     (case fst (k_recv k sock n all w) of Inl e \<Rightarrow> False | Inr bs \<Rightarrow> bs \<noteq> []))"

lemma recv_all_prompt:
  assumes "reads_stream k sock arriving" "prompt_stream k sock arriving" "length acc < n" "n - length acc \<le> length (arriving w)"
  shows "\<exists>bs w1. recv_all k sock n acc w = (Received bs, w1)"
  using assms
proof (induction k sock n acc w rule: recv_all.induct)
  case (1 k sock n acc w)
  have ne: "arriving w \<noteq> []" "0 < n - length acc" using 1(4,5) by auto
  obtain bs w1 where k: "k_recv k sock (n - length acc) True w = (Inr bs, w1)" "bs \<noteq> []"
  proof -
    obtain r w1 where r: "k_recv k sock (n - length acc) True w = (r, w1)" by fastforce
    then have "case r of Inl e \<Rightarrow> False | Inr bs \<Rightarrow> bs \<noteq> []"
      using 1(3) ne unfolding prompt_stream_def by (auto dest!: spec [of _ "n - length acc"] spec [of _ True] spec [of _ w])
    then show ?thesis using that r by (cases r) auto
  qed
  have s: "length bs \<le> n - length acc" "arriving w = bs @ arriving w1"
    using 1(2) ne(2) k unfolding reads_stream_def by (auto dest!: spec [of _ "n - length acc"] spec [of _ True] spec [of _ w])
  show ?case
  proof (cases "n \<le> length (acc @ bs)")
    case True
    then show ?thesis using k by (subst recv_all.simps) simp
  next
    case False
    then have "n - length (acc @ bs) \<le> length (arriving w1)" using 1(5) s by simp
    with 1(1) [OF k(1) [symmetric] refl k(2) False 1(2,3)] False k show ?thesis
      by (subst recv_all.simps) simp
  qed
qed

end
