(* ===== verification/Xcp_EthTl.thy ===== *)
theory Xcp_EthTl
  imports Xcp_Sockets Xcp_Command
begin

text \<open>
  The Ethernet transport layer, receive side and command responses (\<^verbatim>\<open>src/src/xcpethtl.c\<close>): the state
  \<^verbatim>\<open>gXcpTl\<close>, opening and closing, the message header, \<^verbatim>\<open>XcpTlSendCrm\<close>,
  \<^verbatim>\<open>handleXcpCommand\<close> and \<^verbatim>\<open>XcpEthTlHandleCommands\<close> for TCP and UDP. The state of the protocol
  layer, which holds the transmit queue, is threaded beside it, the world of the operating system behind it. A
  command is executed by \<open>XcpCommand\<close>; the packets that it hands to the transport layer are sent when it returns.
\<close>

section \<open>State\<close>

record xcptl =
  tl_ctr :: nat
  tl_socket :: int
  listen_socket :: int
  server_port :: nat
  server_use_tcp :: bool
  master_addr :: "u8 list"
  master_port :: nat
  master_addr_valid :: bool
  last_transmit_time :: nat

abbreviation (input) XCPTL_TRANSPORT_LAYER_HEADER_SIZE :: nat where "XCPTL_TRANSPORT_LAYER_HEADER_SIZE \<equiv> 4"
abbreviation (input) XCPTL_RECV_TIMEOUT_MS :: nat where "XCPTL_RECV_TIMEOUT_MS \<equiv> 100"

definition isTCP :: "xcptl \<Rightarrow> bool" where
  "isTCP t \<longleftrightarrow> listen_socket t \<noteq> INVALID_SOCKET"

text \<open>\<^verbatim>\<open>XcpTlGetCtr\<close> and the post-increments of the 16 bit counter.\<close>

definition XcpTlGetCtr :: "xcptl \<Rightarrow> nat \<times> xcptl" where
  "XcpTlGetCtr t = (tl_ctr t, t\<lparr>tl_ctr := (tl_ctr t + 1) mod 65536\<rparr>)"

text \<open>A message: length, counter, packet.\<close>

definition message :: "nat \<Rightarrow> u8 list \<Rightarrow> u8 list" where
  "message ctr d = le_bytes 2 (length d) @ le_bytes 2 ctr @ d"

text \<open>Packets as messages with consecutive counters.\<close>

fun numbered :: "nat \<Rightarrow> u8 list list \<Rightarrow> u8 list list" where
  "numbered ctr [] = []"
| "numbered ctr (d # ds) = message ctr d # numbered (ctr + 1) ds"

lemma message_mod: "message (c mod 65536) d = message c d"
proof -
  have "c mod 65536 = 256 * (c div 256 mod 256) + c mod 256" using mod_mult2_eq [of c 256 256] by simp
  then have "c mod 65536 mod 256 = c mod 256" "c mod 65536 div 256 mod 256 = c div 256 mod 256" by simp_all
  then have "(of_nat (c mod 65536) :: u8) = of_nat c" "(of_nat (c mod 65536 div 256) :: u8) = of_nat (c div 256)"
    by (simp_all only: word_unat_eq_iff unat_byte)
  then show ?thesis by (simp add: message_def le_bytes_def upt_rec)
qed

lemma numbered_mod: "numbered (c mod 65536) ds = numbered c ds"
proof (induction ds arbitrary: c)
  case (Cons d ds)
  have "numbered (c mod 65536 + 1) ds = numbered (c + 1) ds"
    using Cons [of "c mod 65536 + 1"] Cons [of "c + 1"] by (simp add: mod_simps)
  then show ?case by (simp add: message_mod)
qed simp

lemma numbered_append: "numbered c (xs @ ys) = numbered c xs @ numbered (c + length xs) ys"
  by (induction xs arbitrary: c) simp_all

section \<open>Opening and closing\<close>

definition XcpEthTlInit :: "'w kernel \<Rightarrow> u8 list option \<Rightarrow> nat \<Rightarrow> bool \<Rightarrow> xcptl \<Rightarrow> 'w \<Rightarrow> bool \<times> xcptl \<times> 'w" where
  "XcpEthTlInit k addr port useTCP t0 w =
     (let bind_addr = (case addr of None \<Rightarrow> [0, 0, 0, 0] | Some a \<Rightarrow> take 4 a);
          t = t0\<lparr>tl_ctr := 0, last_transmit_time := 0, server_port := port, server_use_tcp := useTCP,
                 master_addr_valid := False, tl_socket := INVALID_SOCKET, listen_socket := INVALID_SOCKET\<rparr>
      in if useTCP then
           (case socketOpen k (SOCKET_MODE_TCP OR SOCKET_MODE_REUSEADDR) w of
              (None, w1) \<Rightarrow> (False, t, w1)
            | (Some sock, w1) \<Rightarrow> let t1 = t\<lparr>listen_socket := sock\<rparr> in
                (case socketBind k sock bind_addr port w1 of
                   (False, w2) \<Rightarrow> (False, t1, w2)
                 | (True, w2) \<Rightarrow> (case socketListen k sock w2 of (ok, w3) \<Rightarrow> (ok, t1, w3))))
         else
           (case socketOpen k SOCKET_MODE_REUSEADDR w of
              (None, w1) \<Rightarrow> (False, t, w1)
            | (Some sock, w1) \<Rightarrow> let t1 = t\<lparr>tl_socket := sock\<rparr> in
                (case socketBind k sock bind_addr port w1 of
                   (False, w2) \<Rightarrow> (False, t1, w2)
                 | (True, w2) \<Rightarrow> (True, t1, snd (socketSetTimeout k sock XCPTL_RECV_TIMEOUT_MS w2)))))"

definition XcpEthTlShutdown :: "'w kernel \<Rightarrow> xcptl \<Rightarrow> 'w \<Rightarrow> xcptl \<times> 'w" where
  "XcpEthTlShutdown k t w =
     (let (l, w1) = (if isTCP t then socketClose k (listen_socket t) w else (listen_socket t, w));
          (s, w2) = socketClose k (tl_socket t) w1
      in (t\<lparr>listen_socket := l, tl_socket := s\<rparr>, w2))"

text \<open>Without \<^verbatim>\<open>OPTION_ENABLE_GET_LOCAL_ADDR\<close> the address is the local host, the MAC is not reported.\<close>

definition XcpEthTlGetInfo :: "xcptl \<Rightarrow> bool \<times> u8 list \<times> nat" where
  "XcpEthTlGetInfo t = (server_use_tcp t, [127, 0, 0, 1], server_port t)"

section \<open>Sending\<close>

definition XcpEthTlSendV :: "'w kernel \<Rightarrow> u8 list list \<Rightarrow> xcptl \<Rightarrow> 'w \<Rightarrow> (bool \<times> 'w) option" where
  "XcpEthTlSendV k bufs t w =
     (if isTCP t then map_option (\<lambda>(r, w1). (0 < r, w1)) (socketSendV k (tl_socket t) bufs w)
      else if \<not> master_addr_valid t then Some (False, w)
      else case socketSendToV k (tl_socket t) bufs (master_addr t, master_port t) w of (r, w1) \<Rightarrow> Some (0 < r, w1))"

text \<open>The variant for the 32 bit queue, which sends one buffer, to a given address when there is one.\<close>

definition XcpEthTlSend :: "'w kernel \<Rightarrow> u8 list \<Rightarrow> peer option \<Rightarrow> xcptl \<Rightarrow> 'w \<Rightarrow> bool \<times> 'w" where
  "XcpEthTlSend k d p t w =
     (if isTCP t then case socketSend k (tl_socket t) d w of (r, w1) \<Rightarrow> (r = int (length d), w1)
      else case p of
          Some a \<Rightarrow> (case socketSendTo k (tl_socket t) d a w of (r, w1) \<Rightarrow> (r = int (length d), w1))
        | None \<Rightarrow>
            if \<not> master_addr_valid t then (False, w)
            else case socketSendTo k (tl_socket t) d (master_addr t, master_port t) w of (r, w1) \<Rightarrow> (r = int (length d), w1))"

definition XcpTlSendCrm :: "'w kernel \<Rightarrow> u8 list \<Rightarrow> xcptl \<Rightarrow> 'w \<Rightarrow> (xcptl \<times> 'w) option" where
  "XcpTlSendCrm k d t w = (case XcpTlGetCtr t of (c, t1) \<Rightarrow>
     map_option (\<lambda>(ok, w1). (t1, w1)) (XcpEthTlSendV k [message c d] t1 w))"

text \<open>The packets that a command handed to the transport layer.\<close>

fun send_crms :: "'w kernel \<Rightarrow> u8 list list \<Rightarrow> xcptl \<Rightarrow> 'w \<Rightarrow> (xcptl \<times> 'w) option" where
  "send_crms k [] t w = Some (t, w)"
| "send_crms k (p # ps) t w = Option.bind (XcpTlSendCrm k p t w) (\<lambda>(t1, w1). send_crms k ps t1 w1)"

definition new_packets :: "xcp \<Rightarrow> xcp \<Rightarrow> u8 list list" where
  "new_packets s s1 = drop (length (tl_sent s)) (tl_sent s1)"

definition run_and_send :: "'w kernel \<Rightarrow> appl \<Rightarrow> bytes \<Rightarrow> nat \<Rightarrow> xcptl \<Rightarrow> xcp \<Rightarrow> 'w \<Rightarrow> (xcptl \<times> xcp \<times> 'w) option" where
  "run_and_send k ap cro len t s w = Option.bind (XcpCommand ap cro len s)
     (\<lambda>(r, s1). map_option (\<lambda>(t1, w1). (t1, s1, w1)) (send_crms k (new_packets s s1) t w))"

section \<open>Handling a message\<close>

text \<open>The label \<^verbatim>\<open>not_connected\<close>: only CONNECT is executed, on an emptied transmit queue, and its sender
  becomes the master.\<close>

definition handle_connect ::
  "'w kernel \<Rightarrow> appl \<Rightarrow> nat \<Rightarrow> bytes \<Rightarrow> peer \<Rightarrow> xcptl \<Rightarrow> xcp \<Rightarrow> 'w \<Rightarrow> (xcptl \<times> xcp \<times> 'w) option" where
  "handle_connect k ap dlc packet src t s w =
     (if dlc = 2 \<and> packet 0 = 0xFF then
        let t1 = (if \<not> isTCP t then t\<lparr>master_addr := fst src, master_port := snd src, master_addr_valid := True\<rparr> else t)
        in run_and_send k ap packet 2 t1 (s\<lparr>xcp_queue := queueClear (xcp_queue s)\<rparr>) w
      else Some (t, s, w))"

definition other_master :: "xcptl \<Rightarrow> peer \<Rightarrow> bool" where
  "other_master t src \<longleftrightarrow> \<not> isTCP t \<and> master_addr_valid t \<and> (master_addr t \<noteq> fst src \<or> master_port t \<noteq> snd src)"

definition handleXcpCommand ::
  "'w kernel \<Rightarrow> appl \<Rightarrow> nat \<Rightarrow> bytes \<Rightarrow> peer \<Rightarrow> xcptl \<Rightarrow> xcp \<Rightarrow> 'w \<Rightarrow> (bool \<times> xcptl \<times> xcp \<times> 'w) option" where
  "handleXcpCommand k ap dlc packet src t s w =
     (if isConnected s then
        if other_master t src then
          map_option (Pair True) (handle_connect k ap dlc packet src (t\<lparr>master_addr_valid := False\<rparr>) (XcpDisconnect ap s) w)
        else if XCPTL_MAX_CTO_SIZE < dlc then Some (False, t, s, w)
        else map_option (Pair True) (run_and_send k ap packet dlc t s w)
      else map_option (\<lambda>(t1, s1, w1).
          (True, if \<not> isTCP t1 \<and> \<not> isConnected s1 then t1\<lparr>master_addr_valid := False\<rparr> else t1, s1, w1))
        (handle_connect k ap dlc packet src t s w))"

section \<open>Receiving\<close>

text \<open>A buffer on the stack, with what was received at its front; \<open>u\<close> is its content before.\<close>

definition buffer_of :: "u8 list \<Rightarrow> bytes \<Rightarrow> bytes" where
  "buffer_of bs u = (\<lambda>i. if i < length bs then bs ! i else u i)"

definition fatal_error :: "nat \<Rightarrow> bool" where
  "fatal_error err \<longleftrightarrow> \<not> (err = 0 \<or> socketIsClosed err \<or> socketTimeout err)"

text \<open>The labels \<^verbatim>\<open>socket_closed\<close> and \<^verbatim>\<open>socket_error\<close>.\<close>

definition close_connection :: "'w kernel \<Rightarrow> appl \<Rightarrow> xcptl \<Rightarrow> xcp \<Rightarrow> 'w \<Rightarrow> bool \<times> xcptl \<times> xcp \<times> 'w" where
  "close_connection k ap t s w =
     (case socketClose k (tl_socket t) (socketShutdown k (tl_socket t) w) of (sock, w1) \<Rightarrow>
        (True, t\<lparr>tl_socket := sock\<rparr>, XcpDisconnect ap s, w1))"

definition receive_failed :: "'w kernel \<Rightarrow> appl \<Rightarrow> nat \<Rightarrow> xcptl \<Rightarrow> xcp \<Rightarrow> 'w \<Rightarrow> bool \<times> xcptl \<times> xcp \<times> 'w" where
  "receive_failed k ap err t s w = (if fatal_error err then (False, t, s, w) else close_connection k ap t s w)"

definition tcp_receive ::
  "'w kernel \<Rightarrow> appl \<Rightarrow> bytes \<Rightarrow> xcptl \<Rightarrow> xcp \<Rightarrow> 'w \<Rightarrow> (bool \<times> xcptl \<times> xcp \<times> 'w) option" where
  "tcp_receive k ap u t s w =
     (case socketRecv k (tl_socket t) XCPTL_TRANSPORT_LAYER_HEADER_SIZE True w of
        (NoData, w1) \<Rightarrow> Some (True, t, s, w1)
      | (RecvError e, w1) \<Rightarrow> Some (receive_failed k ap e t s w1)
      | (Received hdr, w1) \<Rightarrow>
          if length hdr \<noteq> XCPTL_TRANSPORT_LAYER_HEADER_SIZE then Some (close_connection k ap t s w1)
          else let dlc = rd16 (buffer_of hdr u) 0 in
            if dlc = 0 \<or> XCPTL_MAX_CTO_SIZE < dlc then Some (close_connection k ap t s w1)
            else (case socketRecv k (tl_socket t) dlc True w1 of
                (NoData, w2) \<Rightarrow> Some (close_connection k ap t s w2)
              | (RecvError e, w2) \<Rightarrow> Some (receive_failed k ap e t s w2)
              | (Received packet, w2) \<Rightarrow>
                  if length packet \<noteq> dlc then Some (close_connection k ap t s w2)
                  else handleXcpCommand k ap dlc (buffer_of packet (\<lambda>i. u (4 + i))) ([], 0) t s w2))"

definition udp_receive ::
  "'w kernel \<Rightarrow> appl \<Rightarrow> bytes \<Rightarrow> xcptl \<Rightarrow> xcp \<Rightarrow> 'w \<Rightarrow> (bool \<times> xcptl \<times> xcp \<times> 'w) option" where
  "udp_receive k ap u t s w =
     (case socketRecvFrom k (tl_socket t) (XCPTL_MAX_CTO_SIZE + 5) w of
        (NoData, w1) \<Rightarrow> Some (True, t, s, w1)
      | (RecvError e, w1) \<Rightarrow> Some (e = EMSGSIZE, t, s, w1)
      | (Received (bs, src), w1) \<Rightarrow>
          let n = length bs; dlc = rd16 (buffer_of bs u) 0 in
          if n < XCPTL_TRANSPORT_LAYER_HEADER_SIZE + 1 \<or> XCPTL_MAX_CTO_SIZE + 4 < n
             \<or> dlc \<noteq> n - XCPTL_TRANSPORT_LAYER_HEADER_SIZE
          then Some (True, t, s, w1)
          else handleXcpCommand k ap dlc (\<lambda>i. buffer_of bs u (4 + i)) src t s w1)"

definition XcpEthTlHandleCommands ::
  "'w kernel \<Rightarrow> appl \<Rightarrow> bytes \<Rightarrow> xcptl \<Rightarrow> xcp \<Rightarrow> 'w \<Rightarrow> (bool \<times> xcptl \<times> xcp \<times> 'w) option" where
  "XcpEthTlHandleCommands k ap u t s w =
     (if isTCP t then
        if tl_socket t = INVALID_SOCKET then
          (case socketAccept k (listen_socket t) w of
             (None, w1) \<Rightarrow> Some (True, t, s, w1)
           | (Some (sock, addr), w1) \<Rightarrow>
               tcp_receive k ap u (t\<lparr>tl_socket := sock, master_addr := addr\<rparr>) s (snd (socketSetTimeout k sock XCPTL_RECV_TIMEOUT_MS w1)))
        else tcp_receive k ap u t s w
      else udp_receive k ap u t s w)"

end
