(* ===== verification/Xcp_EthTl_Stream.thy ===== *)
theory Xcp_EthTl_Stream
  imports Xcp_EthTl Xcp_Response
begin

text \<open>
  TCP service: the receive loop of \<^verbatim>\<open>XcpServerReceiveThread\<close> (\<^verbatim>\<open>src/src/xcpethserver.c\<close>) over
  \<^verbatim>\<open>XcpEthTlHandleCommands\<close>, and its specification, the protocol layer that executes a list of commands. What
  arrives on the connection is cut into commands whatever pieces the receive calls return.
\<close>

section \<open>The receive thread\<close>

text \<open>One call and the background tasks for each element of the list (the stack content that the call finds), until
  a fatal error.\<close>

fun receive_loop ::
  "'w kernel \<Rightarrow> appl \<Rightarrow> bytes list \<Rightarrow> xcptl \<Rightarrow> xcp \<Rightarrow> 'w \<Rightarrow> (bool \<times> xcptl \<times> xcp \<times> 'w) option" where
  "receive_loop k ap [] t s w = Some (True, t, s, w)"
| "receive_loop k ap (u # us) t s w = Option.bind (XcpEthTlHandleCommands k ap u t s w)
     (\<lambda>(ok, t1, s1, w1). if \<not> ok then Some (False, t1, s1, w1)
        else receive_loop k ap us t1 (XcpBackgroundTasks s1) w1)"

section \<open>Specification\<close>

text \<open>What a packet does to the protocol layer, and a sequence of cycles, each with a packet or without.\<close>

definition dispatch :: "appl \<Rightarrow> bytes \<Rightarrow> nat \<Rightarrow> xcp \<Rightarrow> xcp option" where
  "dispatch ap cro len s =
     (if isConnected s then map_option snd (XcpCommand ap cro len s)
      else if len = 2 \<and> cro 0 = 0xFF then map_option snd (XcpCommand ap cro 2 (s\<lparr>xcp_queue := queueClear (xcp_queue s)\<rparr>))
      else Some s)"

fun serve :: "appl \<Rightarrow> (bytes \<times> u8 list) option list \<Rightarrow> xcp \<Rightarrow> xcp option" where
  "serve ap [] s = Some s"
| "serve ap (None # xs) s = serve ap xs (XcpBackgroundTasks s)"
| "serve ap (Some (u, p) # xs) s = Option.bind (dispatch ap (buffer_of p (\<lambda>i. u (4 + i))) (length p) s)
     (\<lambda>s1. serve ap xs (XcpBackgroundTasks s1))"

text \<open>The messages of a cycle, with the client's counters.\<close>

definition command_ok :: "u8 list \<Rightarrow> bool" where
  "command_ok p \<longleftrightarrow> 0 < length p \<and> length p \<le> XCPTL_MAX_CTO_SIZE"

section \<open>The connection\<close>

definition connection :: "'w kernel \<Rightarrow> int \<Rightarrow> ('w \<Rightarrow> u8 list) \<Rightarrow> ('w \<Rightarrow> u8 list) \<Rightarrow> bool" where
  "connection k sock arriving wire \<longleftrightarrow> reads_stream k sock arriving \<and> sends_stream k sock wire
     \<and> (\<forall>iov w. arriving (snd (k_sendmsg k sock iov None w)) = arriving w)
     \<and> (\<forall>n all w. wire (snd (k_recv k sock n all w)) = wire w)"

lemma recv_all_wire:
  "(\<forall>n all w. wire (snd (k_recv k sock n all w)) = wire w) \<Longrightarrow> wire (snd (recv_all k sock n acc w)) = wire w"
proof (induction k sock n acc w rule: recv_all.induct)
  case (1 k sock n acc w)
  obtain res w1 where k: "k_recv k sock (n - length acc) True w = (res, w1)" by fastforce
  then have "wire w1 = wire w" using 1(2) by (metis snd_conv)
  then show ?case using 1(1) [OF k [symmetric]] 1(2) k by (subst recv_all.simps) (auto split: sum.splits)
qed

lemma send_loop_arriving:
  assumes "send_loop k sock iov n w = Some z" "\<forall>iov w. arriving (snd (k_sendmsg k sock iov None w)) = arriving w"
  shows "arriving (snd z) = arriving w"
proof (rule send_loop.raw_induct [where P = "\<lambda>k sock iov n w z.
    (\<forall>iov w. arriving (snd (k_sendmsg k sock iov None w)) = arriving w) \<longrightarrow> arriving (snd z) = arriving w",
    OF _ assms(1), THEN mp, OF _ assms(2)], intro impI)
  fix f k sock iov n w z
  assume IH: "\<And>k sock iov n w z. f k sock iov n w = Some z \<Longrightarrow>
      (\<forall>iov w. arriving (snd (k_sendmsg k sock iov None w)) = arriving w) \<longrightarrow> arriving (snd z) = arriving w"
    and f: "(case k_sendmsg k sock iov None w of (Inl e, w1) \<Rightarrow> Some (send_failed e, w1)
      | (Inr m, w1) \<Rightarrow> if advance_iov m iov = [] then Some (n + int m, w1)
          else f k sock (advance_iov m iov) (n + int m) w1) = Some z"
    and k: "\<forall>iov w. arriving (snd (k_sendmsg k sock iov None w)) = arriving w"
  obtain res w2 where e: "k_sendmsg k sock iov None w = (res, w2)" by fastforce
  then have "arriving w2 = arriving w" using k by (metis snd_conv)
  then show "arriving (snd z) = arriving w" using IH [THEN mp, OF _ k] f e by (auto split: sum.splits if_splits)
qed

text \<open>A response is one message; responses get consecutive counters.\<close>

lemma send_crms_frame: "send_crms k ps t w = Some (t1, w1) \<Longrightarrow> t1 = t\<lparr>tl_ctr := tl_ctr t1\<rparr>"
proof (induction ps arbitrary: t w)
  case (Cons p ps)
  then obtain w2 where "send_crms k ps (t\<lparr>tl_ctr := (tl_ctr t + 1) mod 65536\<rparr>) w2 = Some (t1, w1)"
    by (auto simp: XcpTlSendCrm_def XcpTlGetCtr_def Option.bind_eq_Some_conv)
  from Cons.IH [OF this] show ?case by simp
qed simp

lemma send_crms_tcp: "send_crms k ps t w = Some (t1, w1) \<Longrightarrow> isTCP t1 = isTCP t \<and> tl_socket t1 = tl_socket t"
  using send_crms_frame [of k ps t w t1 w1] by (metis isTCP_def xcptl.select_convs(3) xcptl.simps xcptl.surjective xcptl.update_convs(1))

lemma send_crms_ok:
  assumes c: "connection k sock arriving wire" and t: "isTCP t" "tl_socket t = sock"
  shows "\<exists>t1 w1. send_crms k ps t w = Some (t1, w1) \<and> tl_ctr t1 mod 65536 = (tl_ctr t + length ps) mod 65536
    \<and> arriving w1 = arriving w \<and> (accepting k sock \<longrightarrow> wire w1 = wire w @ concat (numbered (tl_ctr t) ps))"
  using t
proof (induction ps arbitrary: t w)
  case (Cons p ps)
  have s: "sends_stream k sock wire" and a: "\<forall>iov w. arriving (snd (k_sendmsg k sock iov None w)) = arriving w"
    using c by (simp_all add: connection_def)
  have "concat [message (tl_ctr t) p] \<noteq> []" by (simp add: message_def le_bytes_def)
  from socketSendV_returns [OF s this, of w] obtain r w2 where v: "socketSendV k sock [message (tl_ctr t) p] w = Some (r, w2)"
    and r: "accepting k sock \<longrightarrow> wire w2 = wire w @ message (tl_ctr t) p" by auto
  have ar: "arriving w2 = arriving w" using send_loop_arriving [OF v [unfolded socketSendV_def] a] by simp
  let ?t = "t\<lparr>tl_ctr := (tl_ctr t + 1) mod 65536\<rparr>"
  have "isTCP ?t" "tl_socket ?t = sock" using Cons(2,3) by (simp_all add: isTCP_def)
  from Cons.IH [OF this, of w2] obtain t1 w1 where i: "send_crms k ps ?t w2 = Some (t1, w1)"
    "tl_ctr t1 mod 65536 = (tl_ctr ?t + length ps) mod 65536" "arriving w1 = arriving w2"
    "accepting k sock \<longrightarrow> wire w1 = wire w2 @ concat (numbered (tl_ctr ?t) ps)" by blast
  have "XcpTlSendCrm k p t w = Some (?t, w2)"
    using v Cons(2,3) by (simp add: XcpTlSendCrm_def XcpTlGetCtr_def XcpEthTlSendV_def isTCP_def)
  with i r ar show ?case by (simp add: numbered_mod mod_simps)
qed simp

text \<open>Over TCP a valid message is what the protocol layer does with it, and the sending of its responses.\<close>

lemma handle_tcp:
  assumes "isTCP t" "len \<le> XCPTL_MAX_CTO_SIZE"
  shows "handleXcpCommand k ap len packet src t s w = Option.bind (dispatch ap packet len s)
    (\<lambda>s1. map_option (\<lambda>(t1, w1). (True, t1, s1, w1)) (send_crms k (new_packets s s1) t w))"
proof -
  have q: "new_packets (s\<lparr>xcp_queue := q\<rparr>) = new_packets s" for q by (simp add: new_packets_def fun_eq_iff)
  have one: "map_option (Pair True) (run_and_send k ap cro n t s' w) = Option.bind (map_option snd (XcpCommand ap cro n s'))
      (\<lambda>s1. map_option (\<lambda>(t1, w1). (True, t1, s1, w1)) (send_crms k (new_packets s' s1) t w))" for cro n s'
    by (auto simp: run_and_send_def option.map_comp comp_def split_def split: bind_splits)
  have keep: "map_option (\<lambda>(t1, s1, w1). (True, if \<not> isTCP t1 \<and> \<not> isConnected s1 then t1\<lparr>master_addr_valid := False\<rparr> else t1, s1, w1))
      (run_and_send k ap cro n t s' w) = map_option (Pair True) (run_and_send k ap cro n t s' w)" for cro n s'
    using send_crms_tcp assms(1) by (fastforce simp: run_and_send_def Option.bind_eq_Some_conv intro!: option.map_cong)
  show ?thesis
    using assms by (auto simp: handleXcpCommand_def handle_connect_def dispatch_def other_master_def one keep q new_packets_def)
qed

section \<open>One call\<close>

lemma le_bytes_two: "le_bytes 2 (unat (a :: u8) + 256 * unat b) = [a, b]"
proof -
  define n where "n = unat a + 256 * unat b"
  have "n mod 256 = unat a" "n div 256 mod 256 = unat b"
    using unat_u8_less [of a] unat_u8_less [of b] by (simp_all add: n_def)
  then have "(of_nat n :: u8) = a" "(of_nat (n div 256) :: u8) = b" by (simp_all only: word_unat_eq_iff unat_byte)
  then show ?thesis by (simp add: le_bytes_def upt_rec flip: n_def)
qed

lemma header_message:
  assumes "length hdr = 4" "length p = rd16 (buffer_of hdr u) 0"
  shows "\<exists>n. hdr @ p = message n p"
proof -
  obtain a b c d where h: "hdr = [a, b, c, d]" using assms(1) by (auto simp: numeral_eq_Suc length_Suc_conv)
  then have "length p = unat a + 256 * unat b" using assms(2) by (simp add: rd16_def buffer_of_def)
  then have "hdr @ p = message (unat c + 256 * unat d) p" by (simp add: message_def le_bytes_two h)
  then show ?thesis ..
qed

lemma message_header:
  assumes "message n p @ rest = hdr @ rest'" "length hdr = 4" "length p < 65536"
  shows "rest' = p @ rest \<and> rd16 (buffer_of hdr u) 0 = length p"
proof -
  have "hdr = le_bytes 2 (length p) @ le_bytes 2 n" "rest' = p @ rest"
    using assms append_eq_append_conv [of "le_bytes 2 (length p) @ le_bytes 2 n" hdr "p @ rest" rest']
    by (simp_all add: message_def)
  then show ?thesis using assms(3) mod_65536_split [of "length p"]
    by (simp add: rd16_def buffer_of_def le_bytes_def upt_rec unat_byte)
qed

lemma socketRecv_stream:
  assumes "connection k sock arriving wire" "0 < n"
  shows "case socketRecv k sock n True w of
      (Received bs, w1) \<Rightarrow> length bs = n \<and> arriving w = bs @ arriving w1 \<and> wire w1 = wire w
    | (NoData, w1) \<Rightarrow> arriving w1 = arriving w \<and> wire w1 = wire w
    | (RecvError e, w1) \<Rightarrow> True"
  using recv_all_stream [of k sock arriving "[]" n w] recv_all_wire [of wire k sock n "[]" w] assms
  by (auto simp: connection_def socketRecv_def split: received.splits prod.splits)

lemma close_connection_ends:
  "close_connection k ap t s w = (ok, t1, s1, w1) \<Longrightarrow> ok \<and> tl_socket t1 = INVALID_SOCKET \<and> s1 = XcpDisconnect ap s"
  by (auto simp: close_connection_def socketClose_def split: if_splits)

text \<open>The three outcomes: the call served a message or found none; it closed the connection and ended the session; or the
  socket failed.\<close>

definition served :: "appl \<Rightarrow> ('w \<Rightarrow> u8 list) \<Rightarrow> (bytes \<times> u8 list) option \<Rightarrow> xcp \<Rightarrow> 'w \<Rightarrow> xcp \<Rightarrow> 'w \<Rightarrow> bool" where
  "served ap arriving x s w s1 w1 \<longleftrightarrow> (case x of
     None \<Rightarrow> s1 = s \<and> arriving w1 = arriving w
   | Some (u, p) \<Rightarrow> command_ok p \<and> dispatch ap (buffer_of p (\<lambda>i. u (4 + i))) (length p) s = Some s1
       \<and> (\<exists>n. arriving w = message n p @ arriving w1))"

lemma tcp_receive_result:
  assumes c: "connection k sock arriving wire" and t: "isTCP t" "tl_socket t = sock"
    and r: "tcp_receive k ap u t s w = Some (ok, t1, s1, w1)"
  shows "(\<exists>x. ok \<and> isTCP t1 \<and> tl_socket t1 = sock \<and> served ap arriving x s w s1 w1)
    \<or> ok \<and> tl_socket t1 = INVALID_SOCKET \<and> s1 = XcpDisconnect ap s \<or> \<not> ok"
proof -
  obtain a w2 where h: "socketRecv k sock 4 True w = (a, w2)" by fastforce
  have fail: ?thesis if "receive_failed k ap e t s w' = (ok, t1, s1, w1)" for e w'
    using that close_connection_ends [of k ap t s w' ok t1 s1 w1] by (auto simp: receive_failed_def split: if_splits)
  have close: ?thesis if "close_connection k ap t s w' = (ok, t1, s1, w1)" for w'
    using close_connection_ends [OF that] by simp
  show ?thesis
  proof (cases a)
    case NoData
    then have "served ap arriving None s w s1 w1 \<and> ok \<and> t1 = t"
      using r h t socketRecv_stream [OF c, of 4 w] by (auto simp: tcp_receive_def served_def)
    then show ?thesis using t by blast
  next
    case (RecvError e)
    then show ?thesis using r h t fail by (auto simp: tcp_receive_def)
  next
    case (Received hdr)
    define len where "len = rd16 (buffer_of hdr u) 0"
    have hd: "length hdr = 4" "arriving w = hdr @ arriving w2" using socketRecv_stream [OF c, of 4 w] h Received by simp_all
    show ?thesis
    proof (cases "len = 0 \<or> XCPTL_MAX_CTO_SIZE < len")
      case True
      then show ?thesis using r h t hd Received close by (auto simp: tcp_receive_def len_def)
    next
      case False
      obtain b w3 where p: "socketRecv k sock len True w2 = (b, w3)" by fastforce
      have e: "tcp_receive k ap u t s w = (case b of NoData \<Rightarrow> Some (close_connection k ap t s w3)
        | RecvError e \<Rightarrow> Some (receive_failed k ap e t s w3)
        | Received packet \<Rightarrow> if length packet \<noteq> len then Some (close_connection k ap t s w3)
            else handleXcpCommand k ap len (buffer_of packet (\<lambda>i. u (4 + i))) ([], 0) t s w3)"
        using h t hd Received p False by (simp add: tcp_receive_def Let_def flip: len_def)
      show ?thesis
      proof (cases b)
        case NoData
        then show ?thesis using r e close by simp
      next
        case (RecvError e')
        then show ?thesis using r e fail by simp
      next
        case (Received packet)
        have pk: "length packet = len" "arriving w2 = packet @ arriving w3"
          using socketRecv_stream [OF c, of len w2] p False Received by simp_all
        then have "tcp_receive k ap u t s w = handleXcpCommand k ap len (buffer_of packet (\<lambda>i. u (4 + i))) ([], 0) t s w3"
          using e Received by simp
        then have "Option.bind (dispatch ap (buffer_of packet (\<lambda>i. u (4 + i))) len s)
            (\<lambda>s1. map_option (\<lambda>(t1, w1). (True, t1, s1, w1)) (send_crms k (new_packets s s1) t w3)) = Some (ok, t1, s1, w1)"
          using r handle_tcp [OF t(1), of len k ap "buffer_of packet (\<lambda>i. u (4 + i))" "([], 0)" s w3] False by simp
        then obtain s2 t2 w4 where d: "dispatch ap (buffer_of packet (\<lambda>i. u (4 + i))) len s = Some s2"
          "send_crms k (new_packets s s2) t w3 = Some (t2, w4)" "ok" "t1 = t2" "s1 = s2" "w1 = w4"
          by (auto simp: Option.bind_eq_Some_conv)
        have "arriving w4 = arriving w3" using send_crms_ok [OF c t, of "new_packets s s2" w3] d(2) by auto
        moreover obtain n where "hdr @ packet = message n packet" using header_message [of hdr packet u] hd(1) pk(1) by (auto simp: len_def)
        ultimately have "served ap arriving (Some (u, packet)) s w s1 w1"
          using d pk hd False by (auto simp: served_def command_ok_def simp flip: append_assoc)
        then show ?thesis using d send_crms_tcp [OF d(2)] t by blast
      qed
    qed
  qed
qed

text \<open>A message that has arrived is served.\<close>

lemma tcp_receive_prompt:
  assumes c: "connection k sock arriving wire" and pr: "prompt_stream k sock arriving" and t: "isTCP t" "tl_socket t = sock"
    and p: "command_ok p" and ar: "arriving w = message n p @ rest"
  obtains w2 where "arriving w2 = rest" "wire w2 = wire w"
    "tcp_receive k ap u t s w = Option.bind (dispatch ap (buffer_of p (\<lambda>i. u (4 + i))) (length p) s)
      (\<lambda>s1. map_option (\<lambda>(t1, w1). (True, t1, s1, w1)) (send_crms k (new_packets s s1) t w2))"
proof -
  have rs: "reads_stream k sock arriving" using c by (simp add: connection_def)
  have pl: "0 < length p" "length p \<le> XCPTL_MAX_CTO_SIZE" "length p < 65536" using p by (simp_all add: command_ok_def)
  obtain hdr w1 where h: "socketRecv k sock 4 True w = (Received hdr, w1)"
    using recv_all_prompt [OF rs pr, of "[]" 4 w] ar by (auto simp: socketRecv_def message_def)
  have hd: "length hdr = 4" "arriving w = hdr @ arriving w1" "wire w1 = wire w" using socketRecv_stream [OF c, of 4 w] h by simp_all
  have m: "arriving w1 = p @ rest" "rd16 (buffer_of hdr u) 0 = length p"
    using message_header [of n p rest hdr "arriving w1" u] hd ar pl(3) by simp_all
  obtain q w2 where b: "socketRecv k sock (length p) True w1 = (Received q, w2)"
    using recv_all_prompt [OF rs pr, of "[]" "length p" w1] m pl(1) by (auto simp: socketRecv_def)
  have qs: "length q = length p \<and> arriving w1 = q @ arriving w2 \<and> wire w2 = wire w1"
    using socketRecv_stream [OF c pl(1), of w1] unfolding b by simp
  then have "p @ rest = q @ arriving w2" using m(1) by argo
  then have "p = q \<and> rest = arriving w2" using append_eq_append_conv [of p q rest "arriving w2"] qs by metis
  with qs have q: "q = p" "arriving w2 = rest" "wire w2 = wire w1" by blast+
  have "tcp_receive k ap u t s w = handleXcpCommand k ap (length p) (buffer_of p (\<lambda>i. u (4 + i))) ([], 0) t s w2"
    using h t hd b m(2) q(1) pl(1,2) by (simp add: tcp_receive_def)
  then have "tcp_receive k ap u t s w = Option.bind (dispatch ap (buffer_of p (\<lambda>i. u (4 + i))) (length p) s)
      (\<lambda>s1. map_option (\<lambda>(t1, w1). (True, t1, s1, w1)) (send_crms k (new_packets s s1) t w2))"
    using handle_tcp [OF t(1) pl(2)] by simp
  moreover have "wire w2 = wire w" using q(3) hd(3) by argo
  ultimately show ?thesis using q(2) that by blast
qed

section \<open>The receive loop\<close>

lemma handle_open: "isTCP t \<Longrightarrow> tl_socket t \<noteq> INVALID_SOCKET \<Longrightarrow>
    XcpEthTlHandleCommands k ap u t s w = tcp_receive k ap u t s w"
  by (simp add: XcpEthTlHandleCommands_def)

lemma XcpCommand_sent: "XcpCommand ap cro len s = Some (r, s1) \<Longrightarrow> \<exists>ps. tl_sent s1 = tl_sent s @ ps"
  using command_response [where ap = ap and cro = cro and len = len and s = s] by (auto simp: if_returns_def)

lemma dispatch_sent: "dispatch ap cro len s = Some s1 \<Longrightarrow> tl_sent s1 = tl_sent s @ new_packets s s1"
proof -
  assume "dispatch ap cro len s = Some s1"
  then have "\<exists>ps. tl_sent s1 = tl_sent s @ ps"
    using XcpCommand_sent by (fastforce simp: dispatch_def split: if_splits)
  then show ?thesis by (auto simp: new_packets_def)
qed

lemma background_sent [simp]: "tl_sent (XcpBackgroundTasks s) = tl_sent s"
proof -
  have "io_part (XcpBackgroundTasks s) = io_part s" by (simp add: XcpBackgroundTasks_def cal_frame_io)
  then show ?thesis by (rule io_partD)
qed

text \<open>Every message that arrives is served, in order, whatever pieces the receive calls return, and the responses
  go out with consecutive counters.\<close>

lemma receive_loop_prompt:
  assumes c: "connection k sock arriving wire" and pr: "prompt_stream k sock arriving" and ac: "accepting k sock"
  shows "isTCP t \<Longrightarrow> tl_socket t = sock \<Longrightarrow> sock \<noteq> INVALID_SOCKET \<Longrightarrow> list_all (\<lambda>(n, u, p). command_ok p) ms \<Longrightarrow>
    arriving w = concat (map (\<lambda>(n, u, p). message n p) ms) @ rest \<Longrightarrow>
    case serve ap (map (\<lambda>(n, u, p). Some (u, p)) ms) s of
      None \<Rightarrow> receive_loop k ap (map (\<lambda>(n, u, p). u) ms) t s w = None
    | Some s1 \<Rightarrow> \<exists>t1 w1 ps. receive_loop k ap (map (\<lambda>(n, u, p). u) ms) t s w = Some (True, t1, s1, w1)
        \<and> arriving w1 = rest \<and> tl_sent s1 = tl_sent s @ ps \<and> wire w1 = wire w @ concat (numbered (tl_ctr t) ps)"
proof (induction ms arbitrary: t s w)
  case (Cons m ms)
  obtain n u p where m: "m = (n, u, p)" by (cases m)
  let ?rest = "concat (map (\<lambda>(n, u, p). message n p) ms) @ rest"
  have p: "command_ok p" and ar: "arriving w = message n p @ ?rest" using Cons(5,6) m by simp_all
  obtain w2 where w2: "arriving w2 = ?rest" "wire w2 = wire w"
    and r: "tcp_receive k ap u t s w = Option.bind (dispatch ap (buffer_of p (\<lambda>i. u (4 + i))) (length p) s)
      (\<lambda>s1. map_option (\<lambda>(t1, w1). (True, t1, s1, w1)) (send_crms k (new_packets s s1) t w2))"
    by (rule tcp_receive_prompt [OF c pr Cons(2,3) p ar])
  show ?case
  proof (cases "dispatch ap (buffer_of p (\<lambda>i. u (4 + i))) (length p) s")
    case None
    then show ?thesis using r Cons(2-4) m by (simp add: handle_open)
  next
    case (Some s1)
    obtain t1 w1 where sc: "send_crms k (new_packets s s1) t w2 = Some (t1, w1)"
      "tl_ctr t1 mod 65536 = (tl_ctr t + length (new_packets s s1)) mod 65536" "arriving w1 = arriving w2"
      "wire w1 = wire w2 @ concat (numbered (tl_ctr t) (new_packets s s1))"
      using send_crms_ok [OF c Cons(2,3), of "new_packets s s1" w2] ac by blast
    have t1: "isTCP t1" "tl_socket t1 = sock" using send_crms_tcp [OF sc(1)] Cons(2,3) by simp_all
    have l: "receive_loop k ap (map (\<lambda>(n, u, p). u) (m # ms)) t s w
        = receive_loop k ap (map (\<lambda>(n, u, p). u) ms) t1 (XcpBackgroundTasks s1) w1"
      "serve ap (map (\<lambda>(n, u, p). Some (u, p)) (m # ms)) s = serve ap (map (\<lambda>(n, u, p). Some (u, p)) ms) (XcpBackgroundTasks s1)"
      using r Some sc(1) Cons(2-4) m by (simp_all add: handle_open)
    have num: "numbered (tl_ctr t1) ps = numbered (tl_ctr t + length (new_packets s s1)) ps" for ps
      using sc(2) numbered_mod by metis
    have "list_all (\<lambda>(n, u, p). command_ok p) ms" "arriving w1 = ?rest" using Cons(5) sc(3) w2(1) by simp_all
    from Cons.IH [OF t1 Cons(4) this, of "XcpBackgroundTasks s1"] show ?thesis
      unfolding l using dispatch_sent [OF Some] sc(4) w2(2)
      by (auto simp: num numbered_append split: option.splits)
  qed
qed simp

text \<open>Without any promise of the kernel about time or errors: as long as the connection lasts, what has been taken from
  it are whole messages, and the protocol layer has executed exactly these, in order.\<close>

definition served_all :: "appl \<Rightarrow> ('w \<Rightarrow> u8 list) \<Rightarrow> (bytes \<times> u8 list) option list \<Rightarrow> xcp \<Rightarrow> 'w \<Rightarrow> xcp \<Rightarrow> 'w \<Rightarrow> bool" where
  "served_all ap arriving xs s w s1 w1 \<longleftrightarrow> serve ap xs s = Some s1
     \<and> (\<exists>ns. length ns = length xs \<and> list_all (\<lambda>x. case x of None \<Rightarrow> True | Some (u, p) \<Rightarrow> command_ok p) xs
        \<and> arriving w = concat (map (\<lambda>(n, x). case x of None \<Rightarrow> [] | Some (u, p) \<Rightarrow> message n p) (zip ns xs)) @ arriving w1)"

lemma served_all_Cons:
  assumes "served ap arriving x s w s1 w1" "served_all ap arriving xs (XcpBackgroundTasks s1) w1 s2 w2"
  shows "served_all ap arriving (x # xs) s w s2 w2"
proof -
  obtain ns where ns: "length ns = length xs" "list_all (\<lambda>x. case x of None \<Rightarrow> True | Some (u, p) \<Rightarrow> command_ok p) xs"
    "arriving w1 = concat (map (\<lambda>(n, x). case x of None \<Rightarrow> [] | Some (u, p) \<Rightarrow> message n p) (zip ns xs)) @ arriving w2"
    "serve ap xs (XcpBackgroundTasks s1) = Some s2"
    using assms(2) by (auto simp: served_all_def)
  show ?thesis
  proof (cases x)
    case None
    then show ?thesis using assms(1) ns unfolding served_all_def served_def
      by (intro conjI exI [of _ "0 # ns"]) auto
  next
    case (Some up)
    then obtain u p n where up: "x = Some (u, p)" "command_ok p" "arriving w = message n p @ arriving w1"
      "dispatch ap (buffer_of p (\<lambda>i. u (4 + i))) (length p) s = Some s1"
      using assms(1) by (auto simp: served_def)
    then show ?thesis using ns unfolding served_all_def
      by (intro conjI exI [of _ "n # ns"]) auto
  qed
qed

lemma receive_loop_safe:
  assumes c: "connection k sock arriving wire"
  shows "isTCP t \<Longrightarrow> tl_socket t = sock \<Longrightarrow> sock \<noteq> INVALID_SOCKET \<Longrightarrow> receive_loop k ap us t s w = Some (ok, t', s', w') \<Longrightarrow>
    \<exists>j xs t1 s1 w1. j \<le> length us \<and> length xs = j \<and> served_all ap arriving xs s w s1 w1
      \<and> receive_loop k ap (take j us) t s w = Some (True, t1, s1, w1) \<and> isTCP t1 \<and> tl_socket t1 = sock
      \<and> (j < length us \<longrightarrow> (\<exists>ok2 t2 s2 w2. XcpEthTlHandleCommands k ap (us ! j) t1 s1 w1 = Some (ok2, t2, s2, w2)
          \<and> (ok2 \<longrightarrow> tl_socket t2 = INVALID_SOCKET \<and> s2 = XcpDisconnect ap s1)))"
proof (induction us arbitrary: t s w)
  case Nil
  then show ?case by (intro exI [of _ 0] exI [of _ "[]"]) (simp add: served_all_def)
next
  case (Cons u us)
  obtain ok1 t1 s1 w1 where h: "XcpEthTlHandleCommands k ap u t s w = Some (ok1, t1, s1, w1)"
    using Cons(5) by (auto simp: Option.bind_eq_Some_conv)
  have r: "tcp_receive k ap u t s w = Some (ok1, t1, s1, w1)" using h handle_open [of t k ap u s w] Cons(2-4) by simp
  from tcp_receive_result [OF c Cons(2,3) r] consider
      x where "ok1" "isTCP t1" "tl_socket t1 = sock" "served ap arriving x s w s1 w1"
    | "ok1 \<longrightarrow> tl_socket t1 = INVALID_SOCKET \<and> s1 = XcpDisconnect ap s" by blast
  then show ?case
  proof cases
    case 1
    have "receive_loop k ap us t1 (XcpBackgroundTasks s1) w1 = Some (ok, t', s', w')" using Cons(5) h 1(1) by simp
    from Cons.IH [OF 1(2,3) Cons(4) this] obtain j xs t2 s2 w2 where
      j: "j \<le> length us" "length xs = j" "served_all ap arriving xs (XcpBackgroundTasks s1) w1 s2 w2"
      "receive_loop k ap (take j us) t1 (XcpBackgroundTasks s1) w1 = Some (True, t2, s2, w2)" "isTCP t2" "tl_socket t2 = sock"
      "j < length us \<longrightarrow> (\<exists>ok3 t3 s3 w3. XcpEthTlHandleCommands k ap (us ! j) t2 s2 w2 = Some (ok3, t3, s3, w3)
          \<and> (ok3 \<longrightarrow> tl_socket t3 = INVALID_SOCKET \<and> s3 = XcpDisconnect ap s2))" by blast
    show ?thesis
      by (rule exI [of _ "Suc j"], rule exI [of _ "x # xs"], rule exI [of _ t2], rule exI [of _ s2], rule exI [of _ w2])
        (use j h 1(1) served_all_Cons [OF 1(4) j(3)] in simp)
  next
    case 2
    then show ?thesis using h Cons(2,3)
      by (intro exI [of _ 0] exI [of _ "[]"]) (auto simp: served_all_def)
  qed
qed

end
