(* ===== verification/Queue64v_Peek.thy ===== *)
theory Queue64v_Peek
  imports Queue64v_Conc
begin

text \<open>
  The consumer of the lock-free queue looks ahead: \<open>queuePeek i\<close> for \<open>i = 0, 1, ...\<close> while producers go on, with the
  position of the last peek cached; then it writes a message header into each entry it found, and releases them in
  order. \<open>peeked\<close> is the invariant of this sequence.
\<close>

section \<open>Producers keep committed entries\<close>

definition producer_step :: "conf \<Rightarrow> conf \<Rightarrow> bool" where
  "producer_step c c' \<longleftrightarrow> qstep c c' \<and> cons c' = cons c \<and> got c' = got c
     \<and> cached_peek_index (cq c') = cached_peek_index (cq c) \<and> cached_peek_tail (cq c') = cached_peek_tail (cq c)"

text \<open>An open slot makes progress, or a new one is claimed.\<close>

inductive grows :: "slot list \<Rightarrow> slot list \<Rightarrow> bool" where
  g_same: "grows xs xs"
| g_new: "grows xs (xs @ [x])"
| g_fill: "\<forall>d. x \<noteq> Full d \<Longrightarrow> grows (us @ x # vs) (us @ y # vs)"

lemma grows_full:
  assumes "grows (map Full ds @ rest) xs'"
  shows "\<exists>rest'. xs' = map Full ds @ rest' \<and> grows rest rest'"
  using assms
proof (cases rule: grows.cases)
  case g_same
  then show ?thesis using grows.g_same by blast
next
  case (g_new x)
  then show ?thesis using grows.g_new by (intro exI [of _ "rest @ [x]"]) simp
next
  case (g_fill x us vs y)
  have "length ds \<le> length us"
  proof (rule ccontr)
    assume "\<not> length ds \<le> length us"
    then have "(map Full ds @ rest) ! length us = Full (ds ! length us)" by (simp add: nth_append)
    moreover have "(us @ x # vs) ! length us = x" by simp
    ultimately show False using g_fill by metis
  qed
  define ws where "ws = drop (length ds) us"
  have "take (length ds) (map Full ds @ rest) = take (length ds) (us @ x # vs)" using g_fill(1) by simp
  then have us: "us = map Full ds @ ws" using \<open>length ds \<le> length us\<close>
    by (metis append_take_drop_id append_eq_conv_conj length_map take_append diff_is_0_eq take0 append_Nil2 ws_def)
  then have "rest = ws @ x # vs" using g_fill(1) by simp
  moreover have "xs' = map Full ds @ ws @ y # vs" using us g_fill(2) by simp
  ultimately show ?thesis using grows.g_fill [OF g_fill(3)] by blast
qed

lemma producer_grows:
  assumes inv: "conc_inv c xs" and st: "producer_step c c'"
  shows "\<exists>xs'. conc_inv c' xs' \<and> grows xs xs' \<and> tail (cq c') = tail (cq c) \<and> buffer_size (cq c') = buffer_size (cq c)"
proof -
  have q: "qstep c c'" "cons c' = cons c" "got c' = got c" using st by (simp_all add: producer_step_def)
  have same: ?thesis if "conc_inv c' xs" "tail (cq c') = tail (cq c)" "buffer_size (cq c') = buffer_size (cq c)"
    using that g_same by blast
  have quiet: "conc_inv c' xs" if "head (cq c') = head (cq c)" "\<forall>p l pos. pc c' p = PReserved l pos \<longleftrightarrow> pc c p = PReserved l pos"
    using conc_quiet [OF inv q(1,3,2) that] .
  from q(1) show ?thesis
  proof (cases rule: qstep.cases)
    case (cas_win p l t h)
    then show ?thesis using conc_claim [OF inv, of p l t] g_new
      by (intro exI [of _ "xs @ [Claimed p l]"]) (simp add: claim_entry_def)
  next
    case (reserve p l pos)
    then show ?thesis using conc_reserve [OF inv, of p l pos] g_fill [of "Claimed p l"] by (fastforce simp: store_reserved_def)
  next
    case (push p l pos f)
    then show ?thesis using conc_push [OF inv push(2), of f] g_fill [of "Reserved p l"] by (fastforce simp: queuePush_def Let_def)
  next
    case (clear b lost f q')
    then show ?thesis using q by simp
  next
    case (advance n)
    then show ?thesis using q by simp
  next
    case (peek_none lost f q')
    then show ?thesis using queuePeek_0 [OF peek_none(3)] by (intro same quiet) simp_all
  qed (rule same, rule quiet; auto simp: count_lost_def queue_put_def)+
qed

lemma producers_grow:
  "producer_step\<^sup>*\<^sup>* c c' \<Longrightarrow> conc_inv c xs \<Longrightarrow> \<exists>xs'. conc_inv c' xs' \<and> grows\<^sup>*\<^sup>* xs xs' \<and> cons c' = cons c
     \<and> tail (cq c') = tail (cq c) \<and> buffer_size (cq c') = buffer_size (cq c)
     \<and> cached_peek_index (cq c') = cached_peek_index (cq c) \<and> cached_peek_tail (cq c') = cached_peek_tail (cq c)"
proof (induction rule: rtranclp_induct)
  case (step c1 c2)
  then obtain xs1 where "conc_inv c1 xs1" "grows\<^sup>*\<^sup>* xs xs1" "cons c1 = cons c" "tail (cq c1) = tail (cq c)"
    "buffer_size (cq c1) = buffer_size (cq c)" "cached_peek_index (cq c1) = cached_peek_index (cq c)"
    "cached_peek_tail (cq c1) = cached_peek_tail (cq c)" by blast
  moreover from producer_grows [OF this(1) step(2)] obtain xs2 where "conc_inv c2 xs2" "grows xs1 xs2"
    "tail (cq c2) = tail (cq c1)" "buffer_size (cq c2) = buffer_size (cq c1)" by blast
  ultimately show ?case using step(2) by (intro exI [of _ xs2]) (simp add: producer_step_def rtranclp.rtrancl_into_rtrancl)
qed blast

lemma grows_full_star:
  "grows\<^sup>*\<^sup>* (map Full ds @ rest) xs' \<Longrightarrow> \<exists>rest'. xs' = map Full ds @ rest' \<and> grows\<^sup>*\<^sup>* rest rest'"
proof (induction rule: rtranclp_induct)
  case (step xs1 xs2)
  then obtain r1 where "xs1 = map Full ds @ r1" "grows\<^sup>*\<^sup>* rest r1" by blast
  moreover from this(1) step(2) obtain r2 where "xs2 = map Full ds @ r2" "grows r1 r2" using grows_full by blast
  ultimately show ?case by (intro exI [of _ r2]) (simp add: rtranclp.rtrancl_into_rtrancl)
qed blast

section \<open>Looking ahead\<close>

text \<open>The buffers of the entries \<open>ds\<close> from cursor \<open>t\<close> on.\<close>

fun places :: "nat \<Rightarrow> nat \<Rightarrow> u8 list list \<Rightarrow> (nat \<times> nat) list" where
  "places bs t [] = []"
| "places bs t (d # ds) = (t mod bs + QUEUE_ENTRY_HEADER_SIZE, length d) # places bs (t + (length d + 4)) ds"

lemma places_length [simp]: "length (places bs t ds) = length ds"
  by (induction ds arbitrary: t) simp_all

lemma places_append: "places bs t (ds @ es) = places bs t ds @ places bs (t + extent (map Full ds)) es"
  by (induction ds arbitrary: t) (simp_all add: algebra_simps)

lemma places_sizes: "map snd (places bs t ds) = map length ds"
  by (induction ds arbitrary: t) simp_all

lemma places_cong: "map length es = map length ds \<Longrightarrow> places bs t es = places bs t ds"
proof (induction ds arbitrary: es t)
  case (Cons d ds)
  then obtain e es' where e: "es = e # es'" "length e = length d" "map length es' = map length ds" by (cases es) auto
  from Cons.IH [OF e(3), of "t + (length d + 4)"] show ?case by (simp add: e)
qed simp

lemma extent_full: "extent (map Full ds) = sum_list (map (\<lambda>n. n + 4) (map length ds))"
  by (induction ds) simp_all

definition peeked :: "conf \<Rightarrow> u8 list list \<Rightarrow> slot list \<Rightarrow> bool" where
  "peeked c ds rest \<longleftrightarrow> conc_inv c (map Full ds @ rest) \<and> cons c = CIdle
     \<and> (ds \<noteq> [] \<longrightarrow> cached_peek_index (cq c) = length ds \<and> cached_peek_tail (cq c) = tail (cq c) + extent (map Full ds))"

lemma conc_inv_cong:
  "buffer_size (cq c') = buffer_size (cq c) \<Longrightarrow> tail (cq c') = tail (cq c) \<Longrightarrow> head (cq c') = head (cq c) \<Longrightarrow>
     qbuf (cq c') = qbuf (cq c) \<Longrightarrow> pc c' = pc c \<Longrightarrow> cons c' = cons c \<Longrightarrow> conc_inv c' xs = conc_inv c xs"
  by (simp add: conc_inv_def)

lemma queuePeek_next:
  assumes p: "peeked c ds rest" and k: "queuePeek (length ds) (cq c) = (b, lost, flush, q)"
  shows "lost = packets_lost (cq c) \<and> (case b of
      None \<Rightarrow> peeked (c\<lparr>cq := q\<rparr>) ds rest \<and> (\<forall>d rest'. rest \<noteq> Full d # rest')
    | Some b' \<Rightarrow> \<exists>d rest'. rest = Full d # rest' \<and> peeked (c\<lparr>cq := q\<rparr>) (ds @ [d]) rest'
        \<and> places (buffer_size (cq c)) (tail (cq c)) (ds @ [d]) = places (buffer_size (cq c)) (tail (cq c)) ds @ [b'])
    \<and> tail q = tail (cq c) \<and> buffer_size q = buffer_size (cq c)"
proof -
  let ?q = "(cq c)\<lparr>packets_lost := 0\<rparr>" and ?n = "length ds"
  define pos where "pos = tail (cq c) + extent (map Full ds)"
  have inv: "conc_inv c (map Full ds @ rest)" "cons c = CIdle" using p by (simp_all add: peeked_def)
  have cache: "ds \<noteq> [] \<longrightarrow> cached_peek_index (cq c) = ?n \<and> cached_peek_tail (cq c) = pos" using p by (simp add: peeked_def pos_def)
  have st: "(if 0 < ?n \<and> cached_peek_index ?q \<le> ?n then (cached_peek_index ?q, cached_peek_tail ?q) else (0, tail ?q)) = (?n, pos)"
    using cache by (cases ds) (simp_all add: pos_def)
  have k': "lost = packets_lost (cq c)" "peek_loop ?n ?n pos ?q = (b, q)"
    using k unfolding queuePeek_def Let_def st by (auto split: prod.splits)
  have wf: "ring_wf (buffer_size (cq c)) (tail (cq c)) (head (cq c)) (map Full ds @ rest)"
    and mem: "ring_mem (buffer_size (cq c)) (tail (cq c)) (map Full ds @ rest) (qbuf (cq c))"
    and dead: "\<forall>l. Dead l \<notin> set rest"
    using inv by (simp_all add: conc_inv_def cons_ok_def)
  have hd: "head (cq c) = pos + extent rest" using wf by (simp add: ring_wf_def pos_def)
  have none: "peeked (c\<lparr>cq := ?q\<lparr>cached_peek_index := ?n, cached_peek_tail := pos\<rparr>\<rparr>) ds rest" "peeked (c\<lparr>cq := ?q\<rparr>) ds rest"
    using inv cache conc_inv_cong [of "c\<lparr>cq := ?q\<lparr>cached_peek_index := ?n, cached_peek_tail := pos\<rparr>\<rparr>" c] conc_inv_cong [of "c\<lparr>cq := ?q\<rparr>" c]
    by (simp_all add: peeked_def pos_def)
  show ?thesis
  proof (cases rest)
    case Nil
    then have "peek_loop ?n ?n pos ?q = (None, ?q\<lparr>cached_peek_index := ?n, cached_peek_tail := pos\<rparr>)"
      using hd by (subst peek_loop.simps) simp
    then show ?thesis using k' none Nil by auto
  next
    case (Cons x rest')
    have x: "slot_mem (qbuf ?q) (pos mod buffer_size ?q) x" "4 < slot_len x" "slot_len x \<le> 1028"
      using mem wf Cons by (simp_all add: ring_mem_def ring_wf_def layout_append pos_def)
    show ?thesis
    proof (cases "\<exists>d. x = Full d")
      case False
      then have "entry_state_at ?q pos = 0" using slot_open_not_ready [OF x(1)] x by auto
      then have "peek_loop ?n ?n pos ?q = (None, ?q\<lparr>cached_peek_index := ?n, cached_peek_tail := pos\<rparr>)"
        by (subst peek_loop.simps) simp
      then show ?thesis using k' none Cons False by auto
    next
      case True
      then obtain d where d: "x = Full d" by blast
      then have e: "entry_state_at ?q pos = ENTRY_COMMITTED" "entry_size_at ?q pos = length d"
        using slot_full_ready [of ?q pos d] x by fastforce+
      have "pos < head ?q" "d \<noteq> []" using hd Cons d x by auto
      with e d x have "peek_loop ?n ?n pos ?q = (Some (pos mod buffer_size (cq c) + 4, length d),
          ?q\<lparr>cached_peek_index := ?n + 1, cached_peek_tail := pos + (length d + 4)\<rparr>)"
        by (subst peek_loop.simps) (simp add: entry_ready_def entry_at_def)
      then have b: "b = Some (pos mod buffer_size (cq c) + 4, length d)"
        "q = ?q\<lparr>cached_peek_index := ?n + 1, cached_peek_tail := pos + (length d + 4)\<rparr>" using k' by auto
      have "peeked (c\<lparr>cq := q\<rparr>) (ds @ [d]) rest'"
        using inv conc_inv_cong [of "c\<lparr>cq := q\<rparr>" c "map Full (ds @ [d]) @ rest'"] Cons d
        by (simp add: peeked_def b(2) pos_def)
      then show ?thesis using k'(1) b Cons d by (simp add: places_append pos_def)
    qed
  qed
qed

section \<open>Writing the message headers\<close>

text \<open>The first four bytes of an entry are the room for the message header. The stores of the code, one word for each
  buffer, \<open>(ctr << 16) | (size - 4)\<close> with the next counter.\<close>

fun stamp_buffers :: "nat \<Rightarrow> (nat \<times> nat) list \<Rightarrow> bytes \<Rightarrow> bytes" where
  "stamp_buffers ctr [] m = m"
| "stamp_buffers ctr (b # bs) m = stamp_buffers ((ctr + 1) mod 65536) bs (wr32 m (fst b) (ctr * 65536 + (snd b - 4)))"

definition stamped :: "nat \<Rightarrow> u8 list \<Rightarrow> u8 list" where
  "stamped ctr d = le_bytes 2 (length d - 4) @ le_bytes 2 ctr @ drop 4 d"

fun stamped_all :: "nat \<Rightarrow> u8 list list \<Rightarrow> u8 list list" where
  "stamped_all ctr [] = []"
| "stamped_all ctr (d # ds) = stamped ctr d # stamped_all ((ctr + 1) mod 65536) ds"

lemma stamped_length: "4 \<le> length d \<Longrightarrow> length (stamped ctr d) = length d"
  by (simp add: stamped_def)

lemma stamped_all_lengths: "\<forall>d \<in> set ds. 4 \<le> length d \<Longrightarrow> map length (stamped_all ctr ds) = map length ds"
  by (induction ds arbitrary: ctr) (simp_all add: stamped_length)

lemma wr32_bytes: "wr32 m a v = mem_set a (le_bytes 4 v) m"
proof
  fix b
  consider "b = a" | "b = a + 1" | "b = a + 2" | "b = a + 3" | "b < a \<or> a + 4 \<le> b" by linarith
  then show "wr32 m a v b = mem_set a (le_bytes 4 v) m b"
    by cases (auto simp: wr32_def wr16_def mem_set_def le_bytes_def upt_rec nth_Cons' div_mult2_eq [symmetric])
qed

lemma le_bytes_word:
  assumes "n < 65536"
  shows "le_bytes 4 (c * 65536 + n) = le_bytes 2 n @ le_bytes 2 c"
proof -
  define v where "v = c * 65536 + n"
  have v: "v = n + 256 * (256 * c)" by (simp add: v_def)
  have "v mod 256 = n mod 256" unfolding v by (rule mod_mult_self2)
  moreover have "v div 256 = n div 256 + 256 * c" unfolding v using div_mult_self2 [of 256 n "256 * c"] by simp
  then have "v div 256 mod 256 = n div 256 mod 256" by (metis mod_mult_self2)
  moreover have "v div 65536 = c" unfolding v using assms by simp
  moreover have "v div 16777216 = v div 65536 div 256" by (simp flip: div_mult2_eq)
  ultimately have "(of_nat v :: u8) = of_nat n" "(of_nat (v div 256) :: u8) = of_nat (n div 256)"
    "v div 65536 = c" "v div 16777216 = c div 256" by (simp_all only: word_unat_eq_iff unat_byte)
  then show ?thesis unfolding v_def [symmetric] by (simp add: le_bytes_def upt_rec)
qed

lemma slot_mem_stamp:
  assumes "slot_mem m off (Full d)" "4 < length d" "length d \<le> 1028" "ctr < 65536"
  shows "slot_mem (wr32 m (off + 4) (ctr * 65536 + (length d - 4))) off (Full (stamped ctr d))"
proof -
  let ?m = "wr32 m (off + 4) (ctr * 65536 + (length d - 4))"
  have rd: "rd32 m off = ENTRY_COMMITTED * 65536 + length d" "mem_get (off + 4) (length d) m = d" using assms(1) by simp_all
  have len: "length (stamped ctr d) = length d" using assms(2) by (simp add: stamped_length)
  have w: "?m = mem_set (off + 4) (le_bytes 2 (length d - 4) @ le_bytes 2 ctr) m"
    unfolding wr32_bytes using le_bytes_word [of "length d - 4" ctr] assms(3) by simp
  have "mem_get (off + 4) (length d) ?m = mem_get (off + 4) 4 ?m @ mem_get (off + 8) (length d - 4) ?m"
    using mem_get_split [of "off + 4" 4 "length d - 4" ?m] assms(2) by (simp add: add.assoc)
  also have "mem_get (off + 4) 4 ?m = le_bytes 2 (length d - 4) @ le_bytes 2 ctr"
    unfolding w using mem_get_set_same [of "off + 4" "le_bytes 2 (length d - 4) @ le_bytes 2 ctr" m] by simp
  also have "mem_get (off + 8) (length d - 4) ?m = mem_get (off + 8) (length d - 4) m"
    unfolding w by (rule mem_get_cong, rule mem_set_outside) simp
  also have "\<dots> = drop 4 d"
    using mem_get_split [of "off + 4" 4 "length d - 4" m] rd(2) assms(2) by (simp add: add.assoc) (metis append_eq_conv_conj mem_get_length)
  finally have "mem_get (off + 4) (length d) ?m = stamped ctr d" by (simp add: stamped_def)
  moreover have "rd32 ?m off = rd32 m off" by (rule rd32_wr32_other) simp
  ultimately show ?thesis using rd(1) len by simp
qed

lemma ring_stamp:
  assumes "ring_wf bs t h (map Full us @ map Full ds @ rest)" "ring_mem bs t (map Full us @ map Full ds @ rest) m" "ctr < 65536"
  shows "ring_wf bs t h (map Full us @ map Full (stamped_all ctr ds) @ rest)
    \<and> ring_mem bs t (map Full us @ map Full (stamped_all ctr ds) @ rest)
        (stamp_buffers ctr (places bs (t + extent (map Full us)) ds) m)"
  using assms
proof (induction ds arbitrary: us m ctr)
  case (Cons d ds)
  define pos where "pos = t + extent (map Full us)"
  let ?m = "wr32 m (pos mod bs + 4) (ctr * 65536 + (length d - 4))"
  have xs: "map Full us @ map Full (d # ds) @ rest = map Full us @ Full d # (map Full ds @ rest)" by simp
  have d: "slot_mem m (pos mod bs) (Full d)" "4 < length d" "length d \<le> 1028"
    using Cons(2,3) by (auto simp: ring_mem_def ring_wf_def layout_append pos_def)
  have l: "length (stamped ctr d) = length d" using d(2) by (simp add: stamped_length)
  have "ring_mem bs t (map Full us @ Full (stamped ctr d) # (map Full ds @ rest)) ?m"
  proof (rule ring_update [OF Cons(2) [unfolded xs] Cons(3) [unfolded xs]])
    show "slot_len (Full (stamped ctr d)) = slot_len (Full d)" using l by simp
    show "?m a = m a" if "\<not> in_slot bs (t + extent (map Full us), Full d) a" for a
      by (rule wr32_at_other) (use that d(2) in \<open>auto simp: in_slot_def pos_def\<close>)
    show "slot_mem ?m ((t + extent (map Full us)) mod bs) (Full (stamped ctr d))"
      using slot_mem_stamp [OF d(1) d(2,3) Cons(4)] by (simp add: pos_def)
  qed
  moreover have "ring_wf bs t h (map Full us @ Full (stamped ctr d) # (map Full ds @ rest))"
    using Cons(2) l by (simp add: ring_wf_def)
  ultimately have "ring_wf bs t h (map Full (us @ [stamped ctr d]) @ map Full ds @ rest)"
    "ring_mem bs t (map Full (us @ [stamped ctr d]) @ map Full ds @ rest) ?m" by simp_all
  from Cons.IH [OF this, of "(ctr + 1) mod 65536"] show ?case
    using l by (simp add: pos_def algebra_simps)
qed simp

section \<open>Releasing\<close>

definition release_all :: "(nat \<times> nat) list \<Rightarrow> conf \<Rightarrow> conf" where
  "release_all bs c = c\<lparr>cq := fold queueRelease bs (cq c)\<rparr>"

lemma release_first:
  assumes inv: "conc_inv c (Full d # rest)" and idle: "cons c = CIdle"
  shows "conc_inv (c\<lparr>cq := queueRelease (tail (cq c) mod buffer_size (cq c) + 4, length d) (cq c)\<rparr>) rest"
proof -
  have wf: "ring_wf (buffer_size (cq c)) (tail (cq c)) (head (cq c)) (Full d # rest)" using inv by (simp add: conc_inv_def)
  have "peeked c [] (Full d # rest)" using inv idle by (simp add: peeked_def)
  moreover obtain b lost f q where k: "queuePeek 0 (cq c) = (b, lost, f, q)" by (metis prod_cases4)
  ultimately have "b = Some (tail (cq c) mod buffer_size (cq c) + 4, length d) \<or> b = None"
    using queuePeek_next [of c "[]" "Full d # rest" b lost f q] by (auto split: option.splits)
  moreover have "b \<noteq> None"
  proof -
    have x: "slot_mem (qbuf (cq c)) (tail (cq c) mod buffer_size (cq c)) (Full d)" "4 < length d" "length d \<le> 1028"
      using inv by (simp_all add: conc_inv_def ring_mem_def ring_wf_def)
    then have "entry_ready (cq c) (tail (cq c))" using slot_full_ready [of "cq c" "tail (cq c)" d] wf
      by (fastforce simp: entry_ready_def ring_wf_def)
    then have "fst (queuePeek 0 (cq c)) \<noteq> None"
      unfolding queuePeek_def by (subst peek_loop.simps) (auto simp: Let_def entry_ready_def entry_state_at_def entry_size_at_def entry_at_def)
    then show ?thesis using k by simp
  qed
  ultimately have b: "queuePeek 0 (cq c) = (Some (tail (cq c) mod buffer_size (cq c) + 4, length d), lost, f, q)" using k by simp
  note pk = queuePeek_0 [OF b]
  from conc_clear [OF inv idle b] obtain d' ys where ys: "Full d # rest = Full d' # ys"
    "conc_inv (c\<lparr>cons := CCleared (length d), got := got c @ [mem_get (tail (cq c) mod buffer_size (cq c) + 4) (length d) (qbuf q)],
      cq := q\<lparr>qbuf := clear_bytes (tail (cq c) mod buffer_size (cq c)) (length d + 4) (qbuf q)\<rparr>\<rparr>) (Dead (length d) # ys)" (is "conc_inv ?c1 _")
    by auto
  from conc_advance [OF ys(2)] have "conc_inv (?c1\<lparr>cons := CIdle, cq := (cq ?c1)\<lparr>tail := tail (cq ?c1) + (length d + QUEUE_ENTRY_HEADER_SIZE),
      cached_peek_index := 0, cached_peek_tail := 0\<rparr>\<rparr>) rest" using ys(1) by simp
  moreover have "qbuf q = qbuf (cq c)" "tail q = tail (cq c)" "head q = head (cq c)" "buffer_size q = buffer_size (cq c)" using pk by simp_all
  ultimately show ?thesis
    by (subst (asm) conc_inv_cong [symmetric]) (simp_all add: queueRelease_def idle)
qed

lemma release_peeked:
  "conc_inv c (map Full ds @ rest) \<Longrightarrow> cons c = CIdle \<Longrightarrow>
     conc_inv (release_all (places (buffer_size (cq c)) (tail (cq c)) ds) c) rest"
proof (induction ds arbitrary: c)
  case (Cons d ds)
  let ?b = "(tail (cq c) mod buffer_size (cq c) + 4, length d)"
  let ?c = "c\<lparr>cq := queueRelease ?b (cq c)\<rparr>"
  have "conc_inv ?c (map Full ds @ rest)" using release_first [of c d "map Full ds @ rest"] Cons(2,3) by simp
  from Cons.IH [OF this] Cons(3) show ?case by (simp add: release_all_def queueRelease_def)
qed (simp add: release_all_def)

end
