(* ===== verification/Xcp_EthTl_Tx.thy ===== *)
theory Xcp_EthTl_Tx
  imports Xcp_EthTl Queue64v_Peek
begin

text \<open>
  The transmit side (\<^verbatim>\<open>XcpTlHandleTransmitQueue\<close> and
  \<^verbatim>\<open>XcpTlWaitForTransmitQueueEmpty\<close> of \<^verbatim>\<open>src/src/xcpethtl.c\<close>): committed messages are collected
  from the lock-free queue until a segment is full or it is time to send, get consecutive counters, are sent in one
  vectored call, and are released. Producers go on while the consumer looks: \<open>others i\<close> is what they do to the
  configuration of the queue before the \<open>i\<close>-th peek.
\<close>

section \<open>Collecting a segment\<close>

abbreviation (input) MAX_BUFFERS :: nat where "MAX_BUFFERS \<equiv> 256"
abbreviation (input) MIN_UPDATE_TIME_MS :: nat where "MIN_UPDATE_TIME_MS \<equiv> 50"
abbreviation (input) MAX_QUEUE_LEVEL :: nat where "MAX_QUEUE_LEVEL \<equiv> 50"
abbreviation (input) MAX_RETRIES :: nat where "MAX_RETRIES \<equiv> 100"
abbreviation (input) XCPTL_MAX_SEGMENT_SIZE :: nat where "XCPTL_MAX_SEGMENT_SIZE \<equiv> 1472"

definition buffers_length :: "(nat \<times> nat) list \<Rightarrow> nat" where
  "buffers_length bs = sum_list (map snd bs)"

text \<open>The 64 bit difference of the clock, and the filling of the queue in percent.\<close>

definition update_due :: "nat \<Rightarrow> xcptl \<Rightarrow> bool" where
  "update_due now t \<longleftrightarrow> int (MIN_UPDATE_TIME_MS * 1000000) < (int now - int (last_transmit_time t)) mod 2 ^ 64"

definition level_high :: "queue64 \<Rightarrow> bool" where
  "level_high q \<longleftrightarrow> MAX_QUEUE_LEVEL < (queueLevel q * 100) mod 2 ^ 32 div buffer_size q"

function collect ::
  "'w kernel \<Rightarrow> (nat \<Rightarrow> conf \<Rightarrow> conf) \<Rightarrow> xcptl \<Rightarrow> nat \<Rightarrow> nat \<Rightarrow> (nat \<times> nat) list \<Rightarrow> nat \<Rightarrow> conf \<Rightarrow> 'w
     \<Rightarrow> (nat \<times> nat) list \<times> nat \<times> conf \<times> 'w" where
  "collect k others t i retries bufs lost c0 w =
     (if MAX_RETRIES \<le> retries then (bufs, lost, c0, w)
      else let c1 = others i c0 in
        case queuePeek (length bufs) (cq c1) of (b, l, flush, q) \<Rightarrow>
          let c = c1\<lparr>cq := q\<rparr>; lost1 = (lost + l) mod 2 ^ 32 in
          case b of
            None \<Rightarrow>
              if 0 < buffers_length bufs then
                (case k_clock k w of (now, w1) \<Rightarrow>
                   if update_due now t \<or> level_high q then (bufs, lost1, c, w1)
                   else if flush then (bufs, lost1, c, w1)
                   else collect k others t (i + 1) (retries + 1) bufs lost1 c w1)
              else if flush then (bufs, lost1, c, w)
              else collect k others t (i + 1) (retries + 1) bufs lost1 c w
          | Some b' \<Rightarrow>
              if XCPTL_MAX_SEGMENT_SIZE < buffers_length bufs + snd b' then (bufs, lost1, c, w)
              else if MAX_BUFFERS \<le> length (bufs @ [b']) \<or> flush then (bufs @ [b'], lost1, c, w)
              else collect k others t (i + 1) retries (bufs @ [b']) lost1 c w)"
  by pat_completeness auto
termination
  by (relation "measure (\<lambda>(k, others, t, i, retries, bufs, lost, c, w). (100 - retries) + (256 - length bufs))") auto

declare collect.simps [simp del]

section \<open>Sending it\<close>

text \<open>The vector handed to the socket: the bytes of the buffers, with their headers.\<close>

definition gather :: "(nat \<times> nat) list \<Rightarrow> queue64 \<Rightarrow> u8 list list" where
  "gather bs q = map (\<lambda>b. mem_get (fst b) (snd b) (qbuf q)) bs"

definition XcpTlHandleTransmitQueue ::
  "'w kernel \<Rightarrow> (nat \<Rightarrow> conf \<Rightarrow> conf) \<Rightarrow> conf \<Rightarrow> xcptl \<Rightarrow> 'w \<Rightarrow> (int \<times> conf \<times> xcptl \<times> 'w) option" where
  "XcpTlHandleTransmitQueue k others c0 t w =
     (case collect k others t 0 0 [] 0 c0 w of (bufs, lost, c, w1) \<Rightarrow>
        if buffers_length bufs = 0 then Some (0, c, t, w1)
        else let ctr = (tl_ctr t + lost) mod 65536;
                 t1 = t\<lparr>tl_ctr := (ctr + length bufs) mod 65536\<rparr>;
                 c1 = c\<lparr>cq := (cq c)\<lparr>qbuf := stamp_buffers ctr bufs (qbuf (cq c))\<rparr>\<rparr>
          in Option.bind (XcpEthTlSendV k (gather bufs (cq c1)) t1 w1)
               (\<lambda>(ok, w2). case k_clock k w2 of (now, w3) \<Rightarrow>
                  Some (if ok then int (buffers_length bufs) else - 1, release_all bufs c1, t1\<lparr>last_transmit_time := now\<rparr>, w3)))"

section \<open>Waiting for an empty queue\<close>

text \<open>Each pause of 20 ms lets the other threads work; the pauses end at the timeout or when the queue is empty.\<close>

fun XcpTlWaitForTransmitQueueEmpty :: "(nat \<Rightarrow> queue64 \<Rightarrow> queue64) \<Rightarrow> nat \<Rightarrow> nat \<Rightarrow> queue64 \<Rightarrow> bool \<times> queue64" where
  "XcpTlWaitForTransmitQueueEmpty pause i timeout_ms q = (let q1 = pause i q in
     if timeout_ms < 20 then (False, q1)
     else if queueLevel q1 = 0 then (True, q1)
     else XcpTlWaitForTransmitQueueEmpty pause (i + 1) (timeout_ms - 20) q1)"

declare XcpTlWaitForTransmitQueueEmpty.simps [simp del]

lemma wait_empty:
  "XcpTlWaitForTransmitQueueEmpty pause i timeout q = (ok, q1) \<Longrightarrow> ok \<Longrightarrow> queueLevel q1 = 0"
  by (induction pause i timeout q rule: XcpTlWaitForTransmitQueueEmpty.induct)
    (auto simp: XcpTlWaitForTransmitQueueEmpty.simps Let_def split: if_splits)

section \<open>What a segment holds\<close>

text \<open>The buffers are those of the next entries of the queue, which producers have not touched since.\<close>

definition collected :: "nat \<Rightarrow> nat \<Rightarrow> slot list \<Rightarrow> (nat \<times> nat) list \<Rightarrow> conf \<Rightarrow> u8 list list \<Rightarrow> slot list \<Rightarrow> bool" where
  "collected bs p xs bufs c ds rest \<longleftrightarrow> conc_inv c (map Full ds @ rest) \<and> cons c = CIdle
     \<and> buffer_size (cq c) = bs \<and> tail (cq c) = p \<and> grows\<^sup>*\<^sup>* xs (map Full ds @ rest) \<and> bufs = places bs p ds
     \<and> buffers_length bufs \<le> XCPTL_MAX_SEGMENT_SIZE \<and> length bufs \<le> MAX_BUFFERS"

definition ahead :: "nat \<Rightarrow> nat \<Rightarrow> slot list \<Rightarrow> (nat \<times> nat) list \<Rightarrow> conf \<Rightarrow> u8 list list \<Rightarrow> slot list \<Rightarrow> bool" where
  "ahead bs p xs bufs c ds rest \<longleftrightarrow> collected bs p xs bufs c ds rest \<and> peeked c ds rest"

lemma ahead_others:
  assumes "ahead bs p xs bufs c ds rest" "producer_step\<^sup>*\<^sup>* c c1"
  shows "\<exists>rest1. ahead bs p xs bufs c1 ds rest1"
proof -
  have inv: "conc_inv c (map Full ds @ rest)" using assms(1) by (simp add: ahead_def peeked_def)
  from producers_grow [OF assms(2) inv] obtain ys where ys: "conc_inv c1 ys" "grows\<^sup>*\<^sup>* (map Full ds @ rest) ys" "cons c1 = cons c"
    "tail (cq c1) = tail (cq c)" "buffer_size (cq c1) = buffer_size (cq c)"
    "cached_peek_index (cq c1) = cached_peek_index (cq c)" "cached_peek_tail (cq c1) = cached_peek_tail (cq c)" by blast
  from grows_full_star [OF ys(2)] obtain rest1 where r: "ys = map Full ds @ rest1" by blast
  have "grows\<^sup>*\<^sup>* xs (map Full ds @ rest1)" using assms(1) ys(2) r by (auto simp: ahead_def collected_def)
  then have "ahead bs p xs bufs c1 ds rest1" using assms(1) ys r by (auto simp: ahead_def collected_def peeked_def)
  then show ?thesis ..
qed

text \<open>One peek: nothing more, or the next entry.\<close>

lemma ahead_peek:
  assumes a: "ahead bs p xs bufs c ds rest" and k: "queuePeek (length bufs) (cq c) = (b, l, flush, q)"
  shows "case b of None \<Rightarrow> ahead bs p xs bufs (c\<lparr>cq := q\<rparr>) ds rest \<and> (\<forall>d rest'. rest \<noteq> Full d # rest')
    | Some b' \<Rightarrow> collected bs p xs bufs (c\<lparr>cq := q\<rparr>) ds rest \<and>
        (buffers_length bufs + snd b' \<le> XCPTL_MAX_SEGMENT_SIZE \<longrightarrow> length bufs < MAX_BUFFERS \<longrightarrow>
          (\<exists>d rest'. ahead bs p xs (bufs @ [b']) (c\<lparr>cq := q\<rparr>) (ds @ [d]) rest'))"
proof -
  have p: "peeked c ds rest" and l: "length ds = length bufs" using a by (simp_all add: ahead_def collected_def)
  note n = queuePeek_next [OF p, unfolded l, OF k]
  show ?thesis
  proof (cases b)
    case None
    then show ?thesis using n a by (auto simp: ahead_def collected_def peeked_def)
  next
    case (Some b')
    then obtain d rest' where d: "rest = Full d # rest'" "peeked (c\<lparr>cq := q\<rparr>) (ds @ [d]) rest'"
      "places bs p (ds @ [d]) = bufs @ [b']" using n a by (auto simp: ahead_def collected_def)
    then have "conc_inv (c\<lparr>cq := q\<rparr>) (map Full ds @ rest)" by (simp add: peeked_def)
    moreover from d(2,3) have "ahead bs p xs (bufs @ [b']) (c\<lparr>cq := q\<rparr>) (ds @ [d]) rest'"
      if "buffers_length bufs + snd b' \<le> XCPTL_MAX_SEGMENT_SIZE" "length bufs < MAX_BUFFERS"
      using that n a d(1) by (simp add: ahead_def collected_def peeked_def buffers_length_def)
    moreover have "collected bs p xs bufs (c\<lparr>cq := q\<rparr>) ds rest" using calculation(1) n a by (auto simp: ahead_def collected_def)
    ultimately show ?thesis using Some by auto
  qed
qed

text \<open>What has been collected is kept, and a committed entry at the front is collected.\<close>

lemma collect_keeps: "length bufs \<le> length (fst (collect k others t i r bufs lost c w))"
proof (induction k others t i r bufs lost c w rule: collect.induct)
  case (1 k others t i r bufs lost c0 w)
  obtain b l flush q where k: "queuePeek (length bufs) (cq (others i c0)) = (b, l, flush, q)" by (metis prod_cases4)
  obtain now w1 where t: "k_clock k w = (now, w1)" by fastforce
  show ?case
  proof (cases "MAX_RETRIES \<le> r")
    case True
    then show ?thesis by (subst collect.simps) simp
  next
    case False
    note IH = 1 [OF False refl k [symmetric] refl refl refl refl]
    show ?thesis
    proof (cases b)
      case None
      with False k t IH(1,2) show ?thesis by (subst collect.simps) (simp add: Let_def)
    next
      case (Some b')
      have "length bufs \<le> length (fst (collect k others t (i + 1) r (bufs @ [b']) ((lost + l) mod 2 ^ 32) ((others i c0)\<lparr>cq := q\<rparr>) w))"
        if "\<not> XCPTL_MAX_SEGMENT_SIZE < buffers_length bufs + snd b'" "\<not> (MAX_BUFFERS \<le> length (bufs @ [b']) \<or> flush)"
        using IH(3) [OF Some that] by simp
      with False k Some show ?thesis by (subst collect.simps) (simp add: Let_def)
    qed
  qed
qed

lemma collect_first:
  assumes others: "producer_step\<^sup>*\<^sup>* c0 (others i c0)" and a: "ahead bs p (Full d # ys) [] c0 [] rest"
  shows "fst (collect k others t i 0 [] lost c0 w) \<noteq> []"
proof -
  obtain rest1 where a1: "ahead bs p (Full d # ys) [] (others i c0) [] rest1" using ahead_others [OF a others] by blast
  then have "grows\<^sup>*\<^sup>* (map Full [d] @ ys) rest1" by (simp add: ahead_def collected_def)
  then obtain rest2 where r: "rest1 = Full d # rest2" using grows_full_star by fastforce
  obtain b l flush q where k: "queuePeek (length ([] :: u8 list list)) (cq (others i c0)) = (b, l, flush, q)" by (metis prod_cases4)
  have p: "peeked (others i c0) [] rest1" using a1 by (simp add: ahead_def)
  then have "length d \<le> 1028" using r by (simp add: peeked_def conc_inv_def ring_wf_def)
  moreover obtain b' where b: "b = Some b'" "snd b' = length d"
    using queuePeek_next [OF p k] r by (cases b) auto
  ultimately have "snd b' \<le> XCPTL_MAX_SEGMENT_SIZE" by simp
  then have "fst (collect k others t i 0 [] lost c0 w) = [b'] \<or>
      (\<exists>lost' c'. fst (collect k others t i 0 [] lost c0 w) = fst (collect k others t (i + 1) 0 [b'] lost' c' w))"
    using k b(1) by (subst collect.simps, subst (3) collect.simps) (auto simp: Let_def buffers_length_def)
  moreover have "fst (collect k others t (i + 1) 0 [b'] lost' c' w) \<noteq> []" for lost' c'
    using collect_keeps [of "[b']" k others t "i + 1" 0 lost' c' w] by auto
  ultimately show ?thesis by auto
qed

lemma collect_result:
  assumes others: "\<And>i c. producer_step\<^sup>*\<^sup>* c (others i c)" and clock: "\<And>w. wire (snd (k_clock k w)) = wire w"
  shows "ahead bs p xs bufs c0 ds rest \<Longrightarrow> length bufs < MAX_BUFFERS \<Longrightarrow>
    case collect k others t i r bufs lost c0 w of (bufs', lost', c, w') \<Rightarrow>
      (\<exists>ds' rest'. collected bs p xs bufs' c ds' rest') \<and> wire w' = wire w"
proof (induction "(100 - r) + (256 - length bufs)" arbitrary: i r bufs lost c0 w ds rest rule: less_induct)
  case less
  show ?case
  proof (cases "MAX_RETRIES \<le> r")
    case True
    then show ?thesis using less(2) by (subst collect.simps) (auto simp: ahead_def)
  next
    case r: False
    define c1 where "c1 = others i c0"
    obtain rest1 where a: "ahead bs p xs bufs c1 ds rest1" using ahead_others [OF less(2) others] unfolding c1_def by blast
    obtain b l flush q where k: "queuePeek (length bufs) (cq c1) = (b, l, flush, q)" by (metis prod_cases4)
    define c where "c = c1\<lparr>cq := q\<rparr>"
    note step = ahead_peek [OF a k, folded c_def]
    obtain now w1 where t: "k_clock k w = (now, w1)" by fastforce
    have w1: "wire w1 = wire w" using clock [of w] t by simp
    define P where "P x = (case x of (bufs', lost' :: nat, c, w' :: 'a) \<Rightarrow>
      (\<exists>ds' rest'. collected bs p xs bufs' c ds' rest') \<and> wire w' = wire w)" for x
    have IH: "P (collect k others t i' r' bufs' lost' c' w')"
      if "ahead bs p xs bufs' c' ds' rest'" "length bufs' < MAX_BUFFERS" "(100 - r') + (256 - length bufs') < (100 - r) + (256 - length bufs)"
        "wire w' = wire w" for i' r' bufs' lost' c' w' ds' rest'
    proof -
      have "case collect k others t i' r' bufs' lost' c' w' of (bufs', lost', c, w'') \<Rightarrow>
          (\<exists>ds' rest'. collected bs p xs bufs' c ds' rest') \<and> wire w'' = wire w'"
        by (rule less(1) [OF that(3,1,2)])
      then show ?thesis using that(4) by (auto simp: P_def)
    qed
    have stop: "P (bufs', lost', c', w')" if "collected bs p xs bufs' c' ds' rest'" "wire w' = wire w" for bufs' lost' c' w' ds' rest'
      unfolding P_def using that by auto
    have "P (collect k others t i r bufs lost c0 w)"
    proof (cases b)
      case None
      then have a1: "ahead bs p xs bufs c ds rest1" using step by simp
      have "P (collect k others t (i + 1) (r + 1) bufs lost1 c w')" if "wire w' = wire w" for lost1 w'
        by (rule IH [OF a1 less(3) _ that]) (use r in simp)
      moreover have "P (bufs, lost1, c, w')" if "wire w' = wire w" for lost1 w' using stop [OF _ that] a1 by (auto simp: ahead_def)
      ultimately show ?thesis using None k r t w1
        by (subst collect.simps) (simp add: Let_def flip: c1_def c_def)
    next
      case (Some b')
      have s: "P (bufs, lost1, c, w)" for lost1 using stop step Some by auto
      show ?thesis
      proof (cases "XCPTL_MAX_SEGMENT_SIZE < buffers_length bufs + snd b'")
        case True
        then show ?thesis using Some k r s
          by (subst collect.simps) (simp add: Let_def flip: c1_def c_def)
      next
        case False
        then obtain d rest' where a1: "ahead bs p xs (bufs @ [b']) c (ds @ [d]) rest'" using step Some less(3) by auto
        have "P (collect k others t (i + 1) r (bufs @ [b']) lost1 c w)" if "length (bufs @ [b']) < MAX_BUFFERS" for lost1
          by (rule IH [OF a1 that]) (use less(3) in simp_all)
        moreover have "P (bufs @ [b'], lost1, c, w)" for lost1 using stop a1 by (auto simp: ahead_def)
        ultimately show ?thesis using False Some k r
          by (subst collect.simps) (simp add: Let_def flip: c1_def c_def)
      qed
    qed
    then show ?thesis by (simp add: P_def)
  qed
qed

section \<open>What is sent\<close>

lemma stamped_message: "4 \<le> length d \<Longrightarrow> stamped ctr d = message ctr (drop 4 d)"
  by (simp add: stamped_def message_def)

lemma stamped_numbered: "\<forall>d \<in> set ds. 4 \<le> length d \<Longrightarrow> stamped_all ctr ds = numbered ctr (map (drop 4) ds)"
proof (induction ds arbitrary: ctr)
  case (Cons d ds)
  have "stamped_all ((ctr + 1) mod 65536) ds = numbered (ctr + 1) (map (drop 4) ds)"
    using Cons by (simp add: numbered_mod)
  then show ?case using Cons(2) by (simp add: stamped_message)
qed simp

lemma gather_places:
  "ring_mem bs t (map Full us @ map Full ds @ rest) (qbuf q) \<Longrightarrow> gather (places bs (t + extent (map Full us)) ds) q = ds"
proof (induction ds arbitrary: us)
  case (Cons d ds)
  have "slot_mem (qbuf q) ((t + extent (map Full us)) mod bs) (Full d)"
    using Cons(2) by (simp add: ring_mem_def layout_append)
  moreover have "gather (places bs (t + extent (map Full (us @ [d]))) ds) q = ds"
    by (rule Cons.IH) (use Cons(2) in simp)
  ultimately show ?case by (simp add: gather_def algebra_simps)
qed (simp add: gather_def)

text \<open>Where the segments go: the stream of the connection, or the datagrams to the master.\<close>

definition segment_sink :: "'w kernel \<Rightarrow> xcptl \<Rightarrow> ('w \<Rightarrow> u8 list) \<Rightarrow> bool" where
  "segment_sink k t wire \<longleftrightarrow> (\<forall>w. wire (snd (k_clock k w)) = wire w) \<and>
     (if isTCP t then sends_stream k (tl_socket t) wire
      else \<forall>iov w. case k_sendmsg k (tl_socket t) iov (Some (master_addr t, master_port t)) w of
          (Inl e, w1) \<Rightarrow> wire w1 = wire w
        | (Inr n, w1) \<Rightarrow> n \<le> length (concat iov) \<and> wire w1 = wire w @ take n (concat iov))"

lemma XcpEthTlSendV_segment:
  assumes "segment_sink k t wire" "concat bufs \<noteq> []"
  shows "\<exists>ok w1. XcpEthTlSendV k bufs t w = Some (ok, w1) \<and> (ok \<longrightarrow> wire w1 = wire w @ concat bufs)
    \<and> (isTCP t \<longrightarrow> accepting k (tl_socket t) \<longrightarrow> ok)"
proof (cases "isTCP t")
  case True
  then have "sends_stream k (tl_socket t) wire" using assms(1) by (simp add: segment_sink_def)
  then show ?thesis
    by (rule socketSendV_all [OF _ assms(2), of k "tl_socket t" wire w])
      (use True in \<open>auto simp: XcpEthTlSendV_def split: if_splits\<close>)
next
  case False
  obtain r w1 where k: "k_sendmsg k (tl_socket t) bufs (Some (master_addr t, master_port t)) w = (r, w1)" by fastforce
  then have "case r of Inl e \<Rightarrow> True | Inr n \<Rightarrow> wire w1 = wire w @ take n (concat bufs)"
    using assms(1) False unfolding segment_sink_def by (auto dest!: spec [of _ bufs] spec [of _ w] split: sum.splits)
  then show ?thesis using False k
    by (auto simp: XcpEthTlSendV_def socketSendToV_def send_failed_def length_concat split: sum.splits)
qed

theorem transmit_handles:
  assumes others: "\<forall>i c. producer_step\<^sup>*\<^sup>* c (others i c)" and inv: "conc_inv c0 xs" "cons c0 = CIdle"
    and sink: "segment_sink k t wire"
  shows "\<exists>n c t1 w1 ds rest lost. XcpTlHandleTransmitQueue k others c0 t w = Some (n, c, t1, w1)
    \<and> grows\<^sup>*\<^sup>* xs (map Full ds @ rest) \<and> conc_inv c rest \<and> cons c = CIdle
    \<and> length (concat ds) \<le> XCPTL_MAX_SEGMENT_SIZE \<and> length ds \<le> MAX_BUFFERS
    \<and> ((\<exists>d ys. xs = Full d # ys) \<longrightarrow> ds \<noteq> []) \<and> (isTCP t \<and> accepting k (tl_socket t) \<longrightarrow> n \<noteq> - 1)
    \<and> (if ds = [] then n = 0 \<and> t1 = t \<and> wire w1 = wire w
       else tl_ctr t1 = (tl_ctr t + lost + length ds) mod 65536
         \<and> (n = - 1 \<or> n = int (length (concat ds)) \<and> wire w1 = wire w @ concat (numbered (tl_ctr t + lost) (map (drop 4) ds))))"
proof -
  let ?bs = "buffer_size (cq c0)" and ?p = "tail (cq c0)"
  obtain bufs lost c w1 where col: "collect k others t 0 0 [] 0 c0 w = (bufs, lost, c, w1)" by (metis prod_cases4)
  have start: "ahead ?bs ?p xs [] c0 [] xs" using inv by (simp add: ahead_def collected_def peeked_def buffers_length_def)
  moreover have clock: "\<And>w. wire (snd (k_clock k w)) = wire w" using sink by (simp add: segment_sink_def)
  ultimately obtain ds rest where cd: "collected ?bs ?p xs bufs c ds rest" and w1: "wire w1 = wire w"
    using collect_result [where k = k and others = others and wire = wire and bs = ?bs and p = ?p and xs = xs and bufs = "[]"
      and ?c0.0 = c0 and ds = "[]" and rest = xs and t = t and i = 0 and r = 0 and lost = 0 and w = w] others col by auto
  then have c: "conc_inv c (map Full ds @ rest)" "cons c = CIdle" "buffer_size (cq c) = ?bs" "tail (cq c) = ?p"
    "grows\<^sup>*\<^sup>* xs (map Full ds @ rest)" "bufs = places ?bs ?p ds" "buffers_length bufs \<le> XCPTL_MAX_SEGMENT_SIZE"
    "length bufs \<le> MAX_BUFFERS" unfolding collected_def by blast+
  have "bufs \<noteq> []" if "xs = Full d # ys" for d ys
    using collect_first [where k = k and t = t and lost = 0 and w = w, OF _ start [unfolded that], of others 0] others col by simp
  then have first: "(\<exists>d ys. xs = Full d # ys) \<longrightarrow> ds \<noteq> []" using c(6) by auto
  have len: "buffers_length bufs = length (concat ds)"
    using c(6) by (simp add: buffers_length_def places_sizes length_concat)
  have big: "\<forall>d \<in> set ds. 4 < length d" using c(1) by (auto simp: conc_inv_def ring_wf_def dest!: bspec [where x = "Full d" for d])
  have base: "length (concat ds) \<le> XCPTL_MAX_SEGMENT_SIZE" "length ds \<le> MAX_BUFFERS" using c(6-8) len by simp_all
  show ?thesis
  proof (cases "ds = []")
    case True
    then have "XcpTlHandleTransmitQueue k others c0 t w = Some (0, c, t, w1)"
      using col len by (simp add: XcpTlHandleTransmitQueue_def)
    then show ?thesis using True c w1 first
      by (intro exI [of _ 0] exI [of _ c] exI [of _ t] exI [of _ w1] exI [of _ "[]"] exI [of _ rest]) simp
  next
    case False
    then have ne: "concat ds \<noteq> []" using big by (cases ds) auto
    define ctr where "ctr = (tl_ctr t + lost) mod 65536"
    define es where "es = stamped_all ctr ds"
    define c1 where "c1 = c\<lparr>cq := (cq c)\<lparr>qbuf := stamp_buffers ctr bufs (qbuf (cq c))\<rparr>\<rparr>"
    define t1 where "t1 = t\<lparr>tl_ctr := (ctr + length bufs) mod 65536\<rparr>"
    have es: "es = numbered (tl_ctr t + lost) (map (drop 4) ds)"
      unfolding es_def using big by (subst stamped_numbered) (auto simp: ctr_def numbered_mod intro: less_imp_le)
    have lens: "map length es = map length ds" unfolding es_def using big by (intro stamped_all_lengths) (auto intro: less_imp_le)
    have "ring_wf ?bs ?p (head (cq c)) (map Full es @ rest)" "ring_mem ?bs ?p (map Full es @ rest) (qbuf (cq c1))"
      using ring_stamp [of ?bs ?p "head (cq c)" "[]" ds rest "qbuf (cq c)" ctr] c(1,3,4,6)
      by (simp_all add: conc_inv_def es_def c1_def ctr_def)
    moreover have "threads_ok ?p (pc c) (map Full es @ rest)"
    proof -
      have ext: "extent (map Full es) = extent (map Full ds)" unfolding extent_full lens ..
      have out: "(pos, x) \<in> set (layout q (map Full ys)) \<Longrightarrow> \<exists>d. x = Full d" for pos x q ys
        using layout_slot by fastforce
      have "threads_ok ?p (pc c) (map Full ds @ rest)" using c(1,4) by (simp add: conc_inv_def)
      then show ?thesis
        by (rule threads_move) (auto simp: layout_append ext dest!: out)
    qed
    moreover have "cons_ok (cons c) (map Full es @ rest)" using c(1,2) by (auto simp: conc_inv_def cons_ok_def)
    ultimately have inv1: "conc_inv c1 (map Full es @ rest)" using c(3,4) by (simp add: conc_inv_def c1_def)
    have pl: "places ?bs ?p es = bufs" unfolding c(6) by (rule places_cong [OF lens])
    have "conc_inv (release_all bufs c1) rest"
      using release_peeked [OF inv1] c(2-4) pl by (simp add: c1_def)
    moreover have g: "gather bufs (cq c1) = es"
      using gather_places [of ?bs ?p "[]" es rest "cq c1"] inv1 c(3,4) pl by (simp add: conc_inv_def c1_def)
    moreover have "segment_sink k t1 wire" using sink by (simp add: segment_sink_def t1_def isTCP_def)
    moreover have "concat es \<noteq> []" using ne lens by (metis length_0_conv length_concat)
    ultimately obtain ok w2 where snd: "XcpEthTlSendV k (gather bufs (cq c1)) t1 w1 = Some (ok, w2)"
      "ok \<longrightarrow> wire w2 = wire w1 @ concat es" "isTCP t1 \<longrightarrow> accepting k (tl_socket t1) \<longrightarrow> ok" using XcpEthTlSendV_segment by metis
    obtain now w3 where now: "k_clock k w2 = (now, w3)" by fastforce
    then have w3: "wire w3 = wire w2" using clock [of w2] by simp
    let ?n = "if ok then int (length (concat ds)) else - 1" and ?t = "t1\<lparr>last_transmit_time := now\<rparr>"
    have "XcpTlHandleTransmitQueue k others c0 t w = Some (?n, release_all bufs c1, ?t, w3)"
      unfolding XcpTlHandleTransmitQueue_def col prod.case Let_def ctr_def [symmetric] t1_def [symmetric] c1_def [symmetric]
      using snd(1) now ne len by auto
    moreover have "tl_ctr ?t = (tl_ctr t + lost + length ds) mod 65536"
      using c(6) by (simp add: t1_def ctr_def mod_simps)
    moreover have "?n = - 1 \<or> ?n = int (length (concat ds)) \<and> wire w3 = wire w @ concat (numbered (tl_ctr t + lost) (map (drop 4) ds))"
      using snd(2) w1 w3 es by simp
    moreover have "conc_inv (release_all bufs c1) rest" "cons (release_all bufs c1) = CIdle"
      using release_peeked [OF inv1] c(2-4) pl by (simp_all add: c1_def release_all_def)
    moreover have "isTCP t \<and> accepting k (tl_socket t) \<longrightarrow> ?n \<noteq> - 1" using snd(3) by (auto simp: t1_def isTCP_def)
    ultimately show ?thesis using False c(5) base first
      by (intro exI [of _ ?n] exI [of _ "release_all bufs c1"] exI [of _ ?t] exI [of _ w3] exI [of _ ds] exI [of _ rest] exI [of _ lost]) simp
  qed
qed

end
