(* ===== verification/Xcp_EthServer.thy ===== *)
theory Xcp_EthServer
  imports Xcp_EthTl_Stream Xcp_EthTl_Tx Xcp_Init
begin

text \<open>
  The server of a build without shared memory (\<^verbatim>\<open>src/src/xcpethserver.c\<close>): start with its two threads, status,
  shutdown with the forceful termination of the default build, and the transmit thread's loop. The receive thread's loop is
  \<open>receive_loop\<close> of \<^verbatim>\<open>Xcp_EthTl_Stream\<close>.
\<close>

record eth_server =
  srv_is_init :: bool
  transmit_thread_running :: bool
  receive_thread_running :: bool
  srv_queue :: "queue64 option"

definition XcpEthServerStatus :: "eth_server \<Rightarrow> 'a xcp_session_scheme \<Rightarrow> bool" where
  "XcpEthServerStatus v s = (if \<not> isActivated s then True
     else srv_is_init v \<and> transmit_thread_running v \<and> receive_thread_running v)"

text \<open>What the threads do when they come up; the initialisation waits for the receive thread.\<close>

definition receive_thread_start :: "appl \<Rightarrow> eth_server \<Rightarrow> xcp \<Rightarrow> eth_server \<times> xcp" where
  "receive_thread_start ap v s = (case srv_queue v of
     None \<Rightarrow> (v\<lparr>receive_thread_running := True\<rparr>, s)
   | Some q \<Rightarrow> (v\<lparr>receive_thread_running := True\<rparr>, XcpStart ap q s))"

definition transmit_thread_start :: "eth_server \<Rightarrow> eth_server" where
  "transmit_thread_start v = v\<lparr>transmit_thread_running := True\<rparr>"

definition XcpEthServerInit ::
  "'w kernel \<Rightarrow> appl \<Rightarrow> u8 list option \<Rightarrow> nat \<Rightarrow> bool \<Rightarrow> nat \<Rightarrow> eth_server \<Rightarrow> xcptl \<Rightarrow> xcp \<Rightarrow> 'w
     \<Rightarrow> bool \<times> eth_server \<times> xcptl \<times> xcp \<times> 'w" where
  "XcpEthServerInit k ap addr port useTCP queue_size v t s w =
     (if \<not> isActivated s then (True, v, t, s, w)
      else if srv_is_init v then (False, v, t, s, w)
      else let v1 = v\<lparr>transmit_thread_running := False, receive_thread_running := False, srv_queue := Some (queueInit queue_size)\<rparr> in
        case XcpEthTlInit k addr port useTCP t w of
          (False, t1, w1) \<Rightarrow> (False, v1, t1, s, w1)
        | (True, t1, w1) \<Rightarrow> (case receive_thread_start ap v1 s of (v2, s1) \<Rightarrow>
            (True, (transmit_thread_start v2)\<lparr>srv_is_init := True\<rparr>, t1, s1, w1)))"

text \<open>The cancelled threads leave their flags as they are.\<close>

definition XcpEthServerShutdown ::
  "'w kernel \<Rightarrow> appl \<Rightarrow> eth_server \<Rightarrow> xcptl \<Rightarrow> xcp \<Rightarrow> 'w \<Rightarrow> bool \<times> eth_server \<times> xcptl \<times> xcp \<times> 'w" where
  "XcpEthServerShutdown k ap v t s w =
     (if \<not> isActivated s then (False, v, t, s, w)
      else if \<not> srv_is_init v then (False, v, t, s, w)
      else let s1 = XcpDeinit (XcpDisconnect ap s) in
        case XcpEthTlShutdown k t w of (t1, w1) \<Rightarrow> (True, v\<lparr>srv_is_init := False\<rparr>, t1, s1, w1))"

text \<open>The transmit thread: one call for each element, until an error.\<close>

fun transmit_loop ::
  "'w kernel \<Rightarrow> (nat \<Rightarrow> conf \<Rightarrow> conf) list \<Rightarrow> conf \<Rightarrow> xcptl \<Rightarrow> 'w \<Rightarrow> (bool \<times> conf \<times> xcptl \<times> 'w) option" where
  "transmit_loop k [] c t w = Some (True, c, t, w)"
| "transmit_loop k (others # os) c t w = Option.bind (XcpTlHandleTransmitQueue k others c t w)
     (\<lambda>(n, c1, t1, w1). if n < 0 then Some (False, c1, t1, w1) else transmit_loop k os c1 t1 w1)"

section \<open>The transmit stream\<close>

lemma grows_prefix: "grows\<^sup>*\<^sup>* xs ys \<Longrightarrow> grows\<^sup>*\<^sup>* (us @ xs) (us @ ys)"
proof (induction rule: rtranclp_induct)
  case (step ys zs)
  from step(2) have "grows (us @ ys) (us @ zs)"
  proof cases
    case g_same
    then show ?thesis using grows.g_same by simp
  next
    case (g_new x)
    then show ?thesis using grows.g_new [of "us @ ys" x] by simp
  next
    case (g_fill x vs ws y)
    then show ?thesis using grows.g_fill [of x "us @ vs" ws y] by simp
  qed
  with step(3) show ?case by simp
qed simp

lemma numbered_map2: "\<exists>cs. length cs = length ds \<and> numbered c ds = map2 message cs ds"
proof (induction ds arbitrary: c)
  case (Cons d ds)
  then obtain cs where "length cs = length ds" "numbered (c + 1) ds = map2 message cs ds" by blast
  then show ?case by (intro exI [of _ "c # cs"]) simp
qed simp

lemma transmit_keeps_peer:
  assumes "XcpTlHandleTransmitQueue k others c t w = Some (n, c1, t1, w1)"
  shows "segment_sink k t1 wire = segment_sink k t wire" "isTCP t1 = isTCP t" "tl_socket t1 = tl_socket t"
proof -
  obtain bufs lost c2 w2 where "collect k others t 0 0 [] 0 c w = (bufs, lost, c2, w2)" by (metis prod_cases4)
  with assms have "t1 = t \<or> (\<exists>x y. t1 = t\<lparr>tl_ctr := x, last_transmit_time := y\<rparr>)"
    by (cases "buffers_length bufs = 0") (auto simp: XcpTlHandleTransmitQueue_def Let_def Option.bind_eq_Some_conv case_prod_beta)
  then show "isTCP t1 = isTCP t" "tl_socket t1 = tl_socket t" "segment_sink k t1 wire = segment_sink k t wire"
    unfolding segment_sink_def isTCP_def by (elim disjE exE; simp)+
qed

text \<open>As long as sending succeeds, every committed message is sent exactly once, in queue order, each as one message with a
  counter of its own.\<close>

lemma transmit_loop_stream:
  assumes "list_all (\<lambda>others. \<forall>i c. producer_step\<^sup>*\<^sup>* c (others i c)) os" "conc_inv c0 xs" "cons c0 = CIdle" "segment_sink k t wire"
  shows "\<exists>ok c t1 w1. transmit_loop k os c0 t w = Some (ok, c, t1, w1)
    \<and> (isTCP t \<and> accepting k (tl_socket t) \<longrightarrow> ok) \<and> (ok \<longrightarrow>
    (\<exists>ds rest cs. grows\<^sup>*\<^sup>* xs (map Full ds @ rest) \<and> conc_inv c rest \<and> cons c = CIdle \<and> length cs = length ds
      \<and> wire w1 = wire w @ concat (map2 message cs (map (drop 4) ds))))"
  using assms
proof (induction os arbitrary: c0 xs t w)
  case Nil
  have "\<exists>ds rest cs. grows\<^sup>*\<^sup>* xs (map Full ds @ rest) \<and> conc_inv c0 rest \<and> cons c0 = CIdle \<and> length cs = length ds
      \<and> wire w = wire w @ concat (map2 message cs (map (drop 4) ds))"
    by (rule exI [of _ "[]"], rule exI [of _ xs], rule exI [of _ "[]"]) (use Nil in simp)
  then show ?case by (intro exI [of _ True] exI [of _ c0] exI [of _ t] exI [of _ w]) simp
next
  case (Cons others os)
  have o: "\<forall>i c. producer_step\<^sup>*\<^sup>* c (others i c)" using Cons(2) by simp
  from transmit_handles [OF o Cons(3-5), where w = w] obtain n c t1 w1 ds rest lost where h:
    "XcpTlHandleTransmitQueue k others c0 t w = Some (n, c, t1, w1)"
    "grows\<^sup>*\<^sup>* xs (map Full ds @ rest)" "conc_inv c rest" "cons c = CIdle"
    "if ds = [] then n = 0 \<and> t1 = t \<and> wire w1 = wire w
       else tl_ctr t1 = (tl_ctr t + lost + length ds) mod 65536
         \<and> (n = - 1 \<or> n = int (length (concat ds)) \<and> wire w1 = wire w @ concat (numbered (tl_ctr t + lost) (map (drop 4) ds)))"
    "isTCP t \<and> accepting k (tl_socket t) \<longrightarrow> n \<noteq> - 1" by (elim exE conjE) blast
  show ?case
  proof (cases "n < 0")
    case True
    moreover have "n = - 1" using h(5) True by (auto split: if_splits)
    ultimately show ?thesis using h(1,6)
      by (intro exI [of _ False] exI [of _ c] exI [of _ t1] exI [of _ w1]) simp
  next
    case False
    note peer = transmit_keeps_peer [OF h(1)]
    have sink: "segment_sink k t1 wire" using peer(1) Cons(5) by simp
    obtain cs where cs: "length cs = length ds" "wire w1 = wire w @ concat (map2 message cs (map (drop 4) ds))"
      using h(5) False numbered_map2 [of "map (drop 4) ds" "tl_ctr t + lost"] by (cases "ds = []") auto
    have os: "list_all (\<lambda>others. \<forall>i c. producer_step\<^sup>*\<^sup>* c (others i c)) os" using Cons(2) by simp
    from Cons.IH [OF os h(3,4) sink, of w1] obtain ok c2 t2 w2 where r: "transmit_loop k os c t1 w1 = Some (ok, c2, t2, w2)"
      "isTCP t1 \<and> accepting k (tl_socket t1) \<longrightarrow> ok"
      "ok \<longrightarrow> (\<exists>es rest2 bs. grows\<^sup>*\<^sup>* rest (map Full es @ rest2) \<and> conc_inv c2 rest2 \<and> cons c2 = CIdle \<and> length bs = length es
        \<and> wire w2 = wire w1 @ concat (map2 message bs (map (drop 4) es)))" by blast
    have "\<exists>ds rest cs. grows\<^sup>*\<^sup>* xs (map Full ds @ rest) \<and> conc_inv c2 rest \<and> cons c2 = CIdle \<and> length cs = length ds
      \<and> wire w2 = wire w @ concat (map2 message cs (map (drop 4) ds))" if "ok"
    proof -
      from r(3) that obtain es rest2 bs where e: "grows\<^sup>*\<^sup>* rest (map Full es @ rest2)" "conc_inv c2 rest2" "cons c2 = CIdle"
        "length bs = length es" "wire w2 = wire w1 @ concat (map2 message bs (map (drop 4) es))" by blast
      have "grows\<^sup>*\<^sup>* xs (map Full (ds @ es) @ rest2)"
        using h(2) grows_prefix [OF e(1), of "map Full ds"] by simp
      then show ?thesis using e cs
        by (intro exI [of _ "ds @ es"] exI [of _ rest2] exI [of _ "cs @ bs"]) (simp add: zip_append)
    qed
    then show ?thesis using h(1) r(1,2) False peer(2,3) by auto
  qed
qed

section \<open>Life of the server\<close>

lemma listening:
  "XcpEthTlInit k addr port useTCP t w = (True, t1, w1) \<Longrightarrow> isTCP t1 = useTCP"
proof (cases useTCP)
  case True
  assume i: "XcpEthTlInit k addr port useTCP t w = (True, t1, w1)"
  obtain so w2 where o: "socketOpen k (SOCKET_MODE_TCP OR SOCKET_MODE_REUSEADDR) w = (so, w2)" by fastforce
  obtain sock where so: "so = Some sock" using i True o by (cases so) (simp_all add: XcpEthTlInit_def)
  then have "sock \<noteq> INVALID_SOCKET" using o by (auto simp: socketOpen_def Let_def split: sum.splits if_splits prod.splits)
  moreover have "listen_socket t1 = sock"
    using i True o so by (auto simp: XcpEthTlInit_def Let_def split: prod.splits bool.splits)
  ultimately show ?thesis using True by (simp add: isTCP_def)
next
  case False
  assume "XcpEthTlInit k addr port useTCP t w = (True, t1, w1)"
  with False show ?thesis
    by (auto simp: XcpEthTlInit_def Let_def isTCP_def split: prod.splits bool.splits option.splits)
qed

lemma server_started:
  assumes s: "isActivated s" "\<not> srv_is_init v" and i: "XcpEthServerInit k ap addr port useTCP n v t s w = (True, v1, t1, s1, w1)"
  shows "XcpEthServerStatus v1 s1 \<and> s1 = XcpStart ap (queueInit n) s \<and> isStarted s1 \<and> isTCP t1 = useTCP
    \<and> XcpEthServerInit k ap addr' port' tcp' n' v1 t1 s1 w1 = (False, v1, t1, s1, w1)"
proof -
  have a: "isActivated (XcpStart ap q s)" "isStarted (XcpStart ap q s)" for q
    using s(1) by (simp_all add: XcpStart_def isActivated_def isStarted_def Let_def word_ao_dist)
  obtain ok t2 w2 where t: "XcpEthTlInit k addr port useTCP t w = (ok, t2, w2)" by (metis prod_cases3)
  then have ok: "ok" "t1 = t2" "s1 = XcpStart ap (queueInit n) s" "srv_is_init v1" "transmit_thread_running v1" "receive_thread_running v1"
    using s i by (auto simp: XcpEthServerInit_def receive_thread_start_def transmit_thread_start_def Let_def split: bool.splits)
  then show ?thesis using a listening [of k addr port useTCP t w t2 w2] t
    by (simp add: XcpEthServerStatus_def XcpEthServerInit_def)
qed

lemma server_stopped:
  assumes "isActivated s" "srv_is_init v" "XcpEthServerShutdown k ap v t s w = (ok, v1, t1, s1, w1)"
  shows "ok \<and> \<not> srv_is_init v1 \<and> \<not> isActivated s1 \<and> tl_socket t1 = INVALID_SOCKET \<and> listen_socket t1 = INVALID_SOCKET"
proof -
  have "\<not> isActivated (XcpDeinit s')" for s' :: xcp by (simp add: XcpDeinit_def isActivated_def)
  moreover have "tl_socket (fst (XcpEthTlShutdown k t w)) = INVALID_SOCKET \<and> listen_socket (fst (XcpEthTlShutdown k t w)) = INVALID_SOCKET"
    by (simp add: XcpEthTlShutdown_def isTCP_def socketClose_def)
  ultimately show ?thesis using assms by (auto simp: XcpEthServerShutdown_def Let_def split: prod.splits)
qed

end
