(* ===== verification/Xcp_EthTl_Udp.thy ===== *)
theory Xcp_EthTl_Udp
  imports Xcp_EthTl_Stream "HOL-Library.Sublist"
begin

text \<open>
  UDP service (\<^verbatim>\<open>XcpEthTlHandleCommands\<close> and \<^verbatim>\<open>handleXcpCommand\<close> of
  \<^verbatim>\<open>src/src/xcpethtl.c\<close> without a listening socket): one datagram is one message; a session belongs to the
  address and port that connected; what is sent goes to the sender of the datagram that is being handled.
\<close>

section \<open>Datagrams\<close>

text \<open>A datagram socket sends the whole vector as one datagram, or fails; \<open>outbox\<close> reads off the world what was sent, and to
  whom. \<open>reliable\<close>: sending does not fail.\<close>

definition datagrams :: "'w kernel \<Rightarrow> int \<Rightarrow> ('w \<Rightarrow> (peer \<times> u8 list) list) \<Rightarrow> bool" where
  "datagrams k sock outbox \<longleftrightarrow> (\<forall>iov p w. case k_sendmsg k sock iov (Some p) w of
       (Inl e, w1) \<Rightarrow> outbox w1 = outbox w
     | (Inr n, w1) \<Rightarrow> n = length (concat iov) \<and> outbox w1 = outbox w @ [(p, concat iov)])"

definition reliable :: "'w kernel \<Rightarrow> int \<Rightarrow> bool" where
  "reliable k sock \<longleftrightarrow> (\<forall>iov p w. \<exists>n w1. k_sendmsg k sock iov (Some p) w = (Inr n, w1))"

text \<open>Some of the packets went out as messages to one peer, with consecutive counters; all of them when sending does not
  fail.\<close>

definition posted :: "'w kernel \<Rightarrow> int \<Rightarrow> ('w \<Rightarrow> (peer \<times> u8 list) list) \<Rightarrow> peer \<Rightarrow> nat \<Rightarrow> u8 list list \<Rightarrow> 'w \<Rightarrow> 'w \<Rightarrow> bool" where
  "posted k sock outbox src c ps w w1 \<longleftrightarrow> (\<exists>ds. subseq ds (numbered c ps) \<and> (reliable k sock \<longrightarrow> ds = numbered c ps)
     \<and> outbox w1 = outbox w @ map (Pair src) ds)"

lemma datagrams_sent:
  assumes "datagrams k sock outbox" "k_sendmsg k sock iov (Some p) w = (r, w1)"
  shows "case r of Inl e \<Rightarrow> \<not> reliable k sock \<and> outbox w1 = outbox w
    | Inr n \<Rightarrow> n = length (concat iov) \<and> outbox w1 = outbox w @ [(p, concat iov)]"
proof -
  from assms(1) have "\<forall>iov p w. case k_sendmsg k sock iov (Some p) w of (Inl e, w1) \<Rightarrow> outbox w1 = outbox w
      | (Inr n, w1) \<Rightarrow> n = length (concat iov) \<and> outbox w1 = outbox w @ [(p, concat iov)]"
    unfolding datagrams_def .
  note this [THEN spec [where x = iov], THEN spec [where x = p], THEN spec [where x = w]]
  moreover have "\<not> reliable k sock" if "r = Inl e" for e
    using that assms(2) unfolding reliable_def by (metis Pair_inject sum.distinct(1))
  ultimately show ?thesis using assms(2) by (cases r) simp_all
qed

lemma send_crm_udp:
  assumes d: "datagrams k (tl_socket t) outbox" and t: "\<not> isTCP t" "master_addr_valid t"
  shows "\<exists>w1. XcpTlSendCrm k p t w = Some (t\<lparr>tl_ctr := (tl_ctr t + 1) mod 65536\<rparr>, w1) \<and>
    posted k (tl_socket t) outbox (master_addr t, master_port t) (tl_ctr t) [p] w w1"
proof -
  obtain r w1 where k: "k_sendmsg k (tl_socket t) [message (tl_ctr t) p] (Some (master_addr t, master_port t)) w = (r, w1)" by fastforce
  then have "XcpTlSendCrm k p t w = Some (t\<lparr>tl_ctr := (tl_ctr t + 1) mod 65536\<rparr>, w1)"
    using t by (auto simp: XcpTlSendCrm_def XcpTlGetCtr_def XcpEthTlSendV_def isTCP_def socketSendToV_def split: sum.splits)
  moreover have "posted k (tl_socket t) outbox (master_addr t, master_port t) (tl_ctr t) [p] w w1"
  proof (cases r)
    case (Inl e)
    then show ?thesis using datagrams_sent [OF d k] by (auto simp: posted_def intro!: exI [of _ "[]"])
  next
    case (Inr n)
    then show ?thesis using datagrams_sent [OF d k] by (auto simp: posted_def intro!: exI [of _ "[message (tl_ctr t) p]"])
  qed
  ultimately show ?thesis by blast
qed

lemma send_crms_udp:
  assumes "datagrams k (tl_socket t) outbox" "\<not> isTCP t" "master_addr_valid t"
  shows "\<exists>w1 c. send_crms k ps t w = Some (t\<lparr>tl_ctr := c\<rparr>, w1) \<and>
    posted k (tl_socket t) outbox (master_addr t, master_port t) (tl_ctr t) ps w w1"
  using assms
proof (induction ps arbitrary: t w)
  case Nil
  then show ?case by (intro exI [of _ w] exI [of _ "tl_ctr t"]) (simp add: posted_def)
next
  case (Cons p ps)
  let ?t = "t\<lparr>tl_ctr := (tl_ctr t + 1) mod 65536\<rparr>" and ?src = "(master_addr t, master_port t)"
  from send_crm_udp [OF Cons(2-4), of p w] obtain w2 ds where s: "XcpTlSendCrm k p t w = Some (?t, w2)"
    "subseq ds (numbered (tl_ctr t) [p])" "reliable k (tl_socket t) \<longrightarrow> ds = numbered (tl_ctr t) [p]"
    "outbox w2 = outbox w @ map (Pair ?src) ds" unfolding posted_def by blast
  have "datagrams k (tl_socket ?t) outbox" "\<not> isTCP ?t" "master_addr_valid ?t" using Cons(2-4) by (simp_all add: isTCP_def)
  from Cons.IH [OF this, of w2] obtain w1 c es where r: "send_crms k ps ?t w2 = Some (?t\<lparr>tl_ctr := c\<rparr>, w1)"
    "subseq es (numbered (tl_ctr t + 1) ps)" "reliable k (tl_socket t) \<longrightarrow> es = numbered (tl_ctr t + 1) ps"
    "outbox w1 = outbox w2 @ map (Pair ?src) es" by (auto simp: posted_def numbered_mod)
  have "posted k (tl_socket t) outbox ?src (tl_ctr t) (p # ps) w w1"
    unfolding posted_def using s r list_emb_append_mono [OF s(2) r(2)] by (intro exI [of _ "ds @ es"]) simp
  then show ?case using s(1) r(1) by (intro exI [of _ w1] exI [of _ c]) simp
qed

section \<open>Sessions\<close>

text \<open>The peer that owns the session, and what a message from a peer does to the protocol layer: a message from somebody else
  ends the session first.\<close>

definition owner :: "xcptl \<Rightarrow> xcp \<Rightarrow> peer option" where
  "owner t s = (if isConnected s then Some (master_addr t, master_port t) else None)"

definition udp_dispatch :: "appl \<Rightarrow> peer option \<Rightarrow> peer \<Rightarrow> bytes \<Rightarrow> nat \<Rightarrow> xcp \<Rightarrow> xcp option" where
  "udp_dispatch ap own src cro len s = dispatch ap cro len (if own = Some src then s else XcpDisconnect ap s)"

lemma disconnected: "isStarted s \<Longrightarrow> \<not> isConnected (XcpDisconnect ap s)"
  by (auto simp: XcpDisconnect_def isConnected_def Let_def and.assoc)

lemma disconnect_not: "\<not> isConnected s \<Longrightarrow> XcpDisconnect ap s = s"
  by (simp add: XcpDisconnect_def)

lemma disconnect_packets: "new_packets (XcpDisconnect ap s) = new_packets s"
  using io_partD [OF disconnect_io [of ap s]] by (simp add: new_packets_def fun_eq_iff)

lemma run_and_send_udp:
  assumes "datagrams k (tl_socket t) outbox" "\<not> isTCP t" "master_addr_valid t"
  shows "case XcpCommand ap cro len s of
      None \<Rightarrow> run_and_send k ap cro len t s w = None
    | Some (r, s1) \<Rightarrow> \<exists>c w1. run_and_send k ap cro len t s w = Some (t\<lparr>tl_ctr := c\<rparr>, s1, w1)
        \<and> posted k (tl_socket t) outbox (master_addr t, master_port t) (tl_ctr t) (new_packets s s1) w w1"
  using send_crms_udp [OF assms, of "new_packets s s1" w for s1]
  by (fastforce simp: run_and_send_def split: option.split)

lemma handle_connect_udp:
  assumes d: "datagrams k (tl_socket t) outbox" "\<not> isTCP t" and s: "\<not> isConnected s"
  shows "case dispatch ap cro len s of
      None \<Rightarrow> handle_connect k ap len cro src t s w = None
    | Some s1 \<Rightarrow> \<exists>t1 w1. handle_connect k ap len cro src t s w = Some (t1, s1, w1)
        \<and> posted k (tl_socket t) outbox src (tl_ctr t) (new_packets s s1) w w1 \<and> \<not> isTCP t1
        \<and> (isConnected s1 \<longrightarrow> master_addr_valid t1 \<and> (master_addr t1, master_port t1) = src)"
proof (cases "len = 2 \<and> cro 0 = 0xFF")
  case True
  let ?t = "t\<lparr>master_addr := fst src, master_port := snd src, master_addr_valid := True\<rparr>"
  let ?s = "s\<lparr>xcp_queue := queueClear (xcp_queue s)\<rparr>"
  have d': "datagrams k (tl_socket ?t) outbox" "\<not> isTCP ?t" "master_addr_valid ?t" using d by (simp_all add: isTCP_def)
  have h: "handle_connect k ap len cro src t s w = run_and_send k ap cro 2 ?t ?s w"
    "dispatch ap cro len s = map_option snd (XcpCommand ap cro 2 ?s)" "new_packets ?s = new_packets s"
    using True d s by (simp_all add: handle_connect_def dispatch_def new_packets_def fun_eq_iff)
  show ?thesis using run_and_send_udp [OF d', of ap cro 2 ?s w] d(2) unfolding h(1,2)
    by (auto simp: h(3) isTCP_def split: option.splits)
next
  case False
  then have "handle_connect k ap len cro src t s w = Some (t, s, w)" "dispatch ap cro len s = Some s"
    using s by (auto simp: handle_connect_def dispatch_def)
  then show ?thesis using s d by (simp add: posted_def new_packets_def)
qed

text \<open>A message is handled as the specification says, and its responses go to its sender.\<close>

lemma handle_udp:
  assumes d: "datagrams k (tl_socket t) outbox" "\<not> isTCP t" and s: "isStarted s" "isConnected s \<longrightarrow> master_addr_valid t"
    and len: "len \<le> XCPTL_MAX_CTO_SIZE"
  shows "case udp_dispatch ap (owner t s) src cro len s of
      None \<Rightarrow> handleXcpCommand k ap len cro src t s w = None
    | Some s1 \<Rightarrow> \<exists>t1 w1. handleXcpCommand k ap len cro src t s w = Some (True, t1, s1, w1)
        \<and> posted k (tl_socket t) outbox src (tl_ctr t) (new_packets s s1) w w1 \<and> \<not> isTCP t1
        \<and> (isConnected s1 \<longrightarrow> master_addr_valid t1 \<and> owner t1 s1 = Some src)"
proof -
  consider (session) "isConnected s" "\<not> other_master t src" | (other) "isConnected s" "other_master t src" | (none) "\<not> isConnected s" by blast
  then show ?thesis
  proof cases
    case session
    then have src: "src = (master_addr t, master_port t)" "master_addr_valid t" using s(2) d(2) by (auto simp: other_master_def prod_eq_iff)
    then have "udp_dispatch ap (owner t s) src cro len s = map_option snd (XcpCommand ap cro len s)"
      "handleXcpCommand k ap len cro src t s w = map_option (Pair True) (run_and_send k ap cro len t s w)"
      using session len by (simp_all add: udp_dispatch_def owner_def dispatch_def handleXcpCommand_def)
    then show ?thesis using run_and_send_udp [OF d src(2), of ap cro len s w] src d(2)
      by (auto simp: owner_def isTCP_def split: option.splits)
  next
    case other
    let ?t = "t\<lparr>master_addr_valid := False\<rparr>"
    have d': "datagrams k (tl_socket ?t) outbox" "\<not> isTCP ?t" using d by (simp_all add: isTCP_def)
    have "owner t s \<noteq> Some src" using other by (auto simp: owner_def other_master_def)
    then have "udp_dispatch ap (owner t s) src cro len s = dispatch ap cro len (XcpDisconnect ap s)" by (simp add: udp_dispatch_def)
    moreover have "handleXcpCommand k ap len cro src t s w = map_option (Pair True) (handle_connect k ap len cro src ?t (XcpDisconnect ap s) w)"
      using other by (simp add: handleXcpCommand_def)
    ultimately show ?thesis using handle_connect_udp [OF d' disconnected [OF s(1), of ap], of ap len cro src w]
      by (auto simp: owner_def disconnect_packets split: option.splits)
  next
    case none
    then have u: "udp_dispatch ap (owner t s) src cro len s = dispatch ap cro len s" by (simp add: udp_dispatch_def disconnect_not)
    have h: "handleXcpCommand k ap len cro src t s w = map_option (\<lambda>(t1, s1, w1).
          (True, if \<not> isTCP t1 \<and> \<not> isConnected s1 then t1\<lparr>master_addr_valid := False\<rparr> else t1, s1, w1))
        (handle_connect k ap len cro src t s w)" using none by (simp add: handleXcpCommand_def)
    show ?thesis
    proof (cases "dispatch ap cro len s")
      case None
      then show ?thesis using u h handle_connect_udp [OF d none, of ap len cro src w] by simp
    next
      case (Some s1)
      then obtain t1 w1 where c: "handle_connect k ap len cro src t s w = Some (t1, s1, w1)" "\<not> isTCP t1"
        "posted k (tl_socket t) outbox src (tl_ctr t) (new_packets s s1) w w1"
        "isConnected s1 \<longrightarrow> master_addr_valid t1 \<and> (master_addr t1, master_port t1) = src"
        using handle_connect_udp [OF d none, of ap len cro src w] by auto
      let ?t = "if isConnected s1 then t1 else t1\<lparr>master_addr_valid := False\<rparr>"
      have "handleXcpCommand k ap len cro src t s w = Some (True, ?t, s1, w1)" "\<not> isTCP ?t" using h c(1,2) by (simp_all add: isTCP_def)
      moreover have "isConnected s1 \<longrightarrow> master_addr_valid ?t \<and> owner ?t s1 = Some src" using c(4) by (simp add: owner_def)
      ultimately show ?thesis using c(3) u Some by (simp only: option.case) blast
    qed
  qed
qed

section \<open>One call\<close>

lemma buffer_behind: "(\<lambda>i. buffer_of bs u (4 + i)) = buffer_of (drop 4 bs) (\<lambda>i. u (4 + i))"
  by (auto simp: buffer_of_def fun_eq_iff)

lemma message_datagram:
  assumes "command_ok p"
  shows "length (message n p) = 4 + length p" "drop 4 (message n p) = p" "rd16 (buffer_of (message n p) u) 0 = length p"
proof -
  show "length (message n p) = 4 + length p" "drop 4 (message n p) = p" by (simp_all add: message_def)
  have "rd16 (buffer_of (le_bytes 2 (length p) @ le_bytes 2 n) u) 0 = length p"
    using message_header [of n p "[]" "le_bytes 2 (length p) @ le_bytes 2 n" p u] assms by (simp add: message_def command_ok_def)
  then show "rd16 (buffer_of (message n p) u) 0 = length p"
    by (simp add: rd16_def buffer_of_def message_def le_bytes_def upt_rec)
qed

lemma udp_receive_valid:
  assumes "socketRecvFrom k (tl_socket t) (XCPTL_MAX_CTO_SIZE + 5) w = (Received (message n p, src), w1)" "command_ok p"
  shows "udp_receive k ap u t s w = handleXcpCommand k ap (length p) (buffer_of p (\<lambda>i. u (4 + i))) src t s w1"
  using assms message_datagram [OF assms(2)] by (simp add: udp_receive_def buffer_behind command_ok_def)

lemma udp_receive_invalid:
  assumes "socketRecvFrom k (tl_socket t) (XCPTL_MAX_CTO_SIZE + 5) w = (Received (bs, src), w1)" "\<nexists>n p. command_ok p \<and> bs = message n p"
  shows "udp_receive k ap u t s w = Some (True, t, s, w1)"
proof (rule ccontr)
  assume "udp_receive k ap u t s w \<noteq> Some (True, t, s, w1)"
  then have l: "5 \<le> length bs" "length bs \<le> 252" "rd16 (buffer_of bs u) 0 = length bs - 4"
    using assms(1) by (auto simp: udp_receive_def Let_def split: if_splits)
  have "buffer_of (take 4 bs) u i = buffer_of bs u i" if "i < 4" for i using l(1) that by (simp add: buffer_of_def)
  then have "rd16 (buffer_of (take 4 bs) u) 0 = length (drop 4 bs)" using l(3) by (simp add: rd16_def)
  then obtain n where "take 4 bs @ drop 4 bs = message n (drop 4 bs)" using header_message [of "take 4 bs" "drop 4 bs" u] l(1) by auto
  moreover have "command_ok (drop 4 bs)" using l by (auto simp: command_ok_def)
  ultimately show False using assms(2) by auto
qed

end
