(* ===== verification/Props_Eth.thy ===== *)
theory Props_Eth
  imports Xcp_EthServer Xcp_EthTl_Udp Xcp_Examples Queue64v_Dto
begin

text \<open>
  Properties of the Ethernet transport layer (\<^verbatim>\<open>src/src/xcpethtl.c\<close>, \<^verbatim>\<open>src/src/sockets.c\<close>,
  \<^verbatim>\<open>src/src/xcpethserver.c\<close>). The examples run them against an operating system that hands out what has arrived in
  small pieces and takes at most three bytes of a stream at a time.
\<close>

section \<open>An operating system\<close>

text \<open>Pieces that have arrived, and bytes that have been sent.\<close>

definition stream_os :: "(u8 list list \<times> u8 list) kernel" where
  "stream_os = \<lparr>k_socket = (\<lambda>_ w. (Inr 3, w)), k_setsockopt = (\<lambda>_ _ w. (Inr (), w)), k_bind = (\<lambda>_ _ w. (Inr (), w)),
     k_listen = (\<lambda>_ _ w. (Inr (), w)), k_accept = (\<lambda>_ w. (Inr (4, [127, 0, 0, 1]), w)),
     k_recv = (\<lambda>_ n _ (ins, out). case dropWhile (\<lambda>b. b = []) ins of
        [] \<Rightarrow> (Inl EAGAIN, ([], out)) | b # bs \<Rightarrow> (Inr (take n b), (drop n b # bs, out))),
     k_recvfrom = (\<lambda>_ _ w. (Inl EAGAIN, w)), k_send = (\<lambda>_ _ w. (Inl EBADF, w)), k_sendto = (\<lambda>_ _ _ w. (Inl EBADF, w)),
     k_sendmsg = (\<lambda>_ iov _ (ins, out). (Inr (min 3 (length (concat iov))), (ins, out @ take 3 (concat iov)))),
     k_shutdown = (\<lambda>_ w. w), k_close = (\<lambda>_ w. w), k_clock = (\<lambda>w. (1000, w))\<rparr>"

definition arrived :: "u8 list list \<times> u8 list \<Rightarrow> u8 list" where
  "arrived w = concat (fst w)"

definition tcp_server :: xcptl where
  "tcp_server = \<lparr>tl_ctr = 0, tl_socket = 4, listen_socket = 3, server_port = 5555, server_use_tcp = True,
     master_addr = [127, 0, 0, 1], master_port = 0, master_addr_valid = False, last_transmit_time = 0\<rparr>"

lemma stream_os_recv:
  assumes "k_recv stream_os sock n all w = (r, w1)"
  shows "case r of Inl e \<Rightarrow> arrived w1 = [] \<and> arrived w = [] \<and> snd w1 = snd w
    | Inr bs \<Rightarrow> length bs \<le> n \<and> (0 < n \<longrightarrow> bs \<noteq> []) \<and> arrived w = bs @ arrived w1 \<and> snd w1 = snd w"
proof -
  obtain ins out where w: "w = (ins, out)" by fastforce
  have c: "concat (dropWhile (\<lambda>b. b = []) ins) = concat ins" by (induction ins) auto
  show ?thesis
  proof (cases "dropWhile (\<lambda>b. b = []) ins")
    case Nil
    have "concat ins = []" using c unfolding Nil by simp
    moreover have "(r, w1) = (Inl EAGAIN, ([], out))" using assms Nil by (simp add: stream_os_def w del: dropWhile_eq_Nil_conv)
    ultimately show ?thesis by (simp add: arrived_def w)
  next
    case (Cons b bs)
    have "b \<noteq> []" using hd_dropWhile [of "\<lambda>b. b = []" ins] Cons by simp
    moreover have "concat ins = take n b @ concat (drop n b # bs)" using c Cons by (simp flip: append_assoc)
    moreover have "(r, w1) = (Inr (take n b), (drop n b # bs, out))" using assms Cons by (simp add: stream_os_def w)
    ultimately show ?thesis by (simp add: arrived_def w)
  qed
qed

lemma stream_os_reads: "reads_stream stream_os sock arrived"
  unfolding reads_stream_def
proof (intro allI impI)
  fix n all w
  obtain r w1 where r: "k_recv stream_os sock n all w = (r, w1)" by (rule prod.exhaust)
  show "case k_recv stream_os sock n all w of (Inl e, w1) \<Rightarrow> arrived w1 = arrived w
      | (Inr bs, w1) \<Rightarrow> length bs \<le> n \<and> arrived w = bs @ arrived w1"
    using stream_os_recv [OF r] r by (cases r) simp_all
qed

lemma stream_os_prompt: "prompt_stream stream_os sock arrived"
  unfolding prompt_stream_def
proof (intro allI impI)
  fix n :: nat and all w
  assume n: "0 < n" "arrived w \<noteq> []"
  obtain r w1 where r: "k_recv stream_os sock n all w = (r, w1)" by (rule prod.exhaust)
  show "case fst (k_recv stream_os sock n all w) of Inl e \<Rightarrow> False | Inr bs \<Rightarrow> bs \<noteq> []"
    using stream_os_recv [OF r] r n by (cases r) simp_all
qed

lemma stream_os_sends: "sends_stream stream_os sock snd"
  by (auto simp: sends_stream_def stream_os_def min_def split: prod.splits)

lemma stream_os_connection: "connection stream_os sock arrived snd"
proof -
  have "snd (snd (k_recv stream_os sock n all w)) = snd w" for n all w
  proof -
    obtain r w1 where r: "k_recv stream_os sock n all w = (r, w1)" by (rule prod.exhaust)
    then show ?thesis using stream_os_recv [OF r] by (cases r) simp_all
  qed
  moreover have "arrived (snd (k_sendmsg stream_os sock iov None w)) = arrived w" for iov w
    by (simp add: stream_os_def arrived_def split: prod.split)
  ultimately show ?thesis using stream_os_reads stream_os_sends by (simp add: connection_def)
qed

lemma stream_os_accepting: "accepting stream_os sock"
  by (simp add: accepting_def stream_os_def split: prod.split)

lemma tcp_server_open: "isTCP tcp_server" "tl_socket tcp_server = 4"
  by (simp_all add: tcp_server_def isTCP_def)

definition blank :: bytes where
  "blank = (\<lambda>_. 0)"

section \<open>TCP\<close>

text \<open>C9. Over TCP the commands are executed whatever the network does to the stream: when a sequence of messages arrives, in any
  pieces, the receive loop executes exactly their packets, one in each cycle and in order, as the protocol layer would
  execute them one after the other with its background tasks between them - and returns whenever these executions do; every packet that the protocol
  layer hands over is sent as one message, whole, in order and with consecutive counters, even when the socket takes a message in
  parts; what follows the messages is left for the next call. This is the connection at work: no receive times out and no
  call of the socket fails (C10 says what holds otherwise).\<close>

theorem tcp_commands_served:
  assumes "connection k (tl_socket t) arriving wire" "prompt_stream k (tl_socket t) arriving" "accepting k (tl_socket t)"
    and "isTCP t" "tl_socket t \<noteq> INVALID_SOCKET" and "list_all (\<lambda>(n, u, p). command_ok p) ms"
    and "arriving w = concat (map (\<lambda>(n, u, p). message n p) ms) @ rest"
  shows "case serve ap (map (\<lambda>(n, u, p). Some (u, p)) ms) s of
      None \<Rightarrow> receive_loop k ap (map (\<lambda>(n, u, p). u) ms) t s w = None
    | Some s1 \<Rightarrow> \<exists>t1 w1 ps. receive_loop k ap (map (\<lambda>(n, u, p). u) ms) t s w = Some (True, t1, s1, w1)
        \<and> arriving w1 = rest \<and> tl_sent s1 = tl_sent s @ ps \<and> wire w1 = wire w @ concat (numbered (tl_ctr t) ps)"
  by (rule receive_loop_prompt [OF assms(1-4) refl assms(5-7)])

definition connect_messages :: "(nat \<times> bytes \<times> u8 list) list" where
  "connect_messages = [(7, blank, [0xFF, 0])]"

definition connect_pieces :: "u8 list list \<times> u8 list" where
  "connect_pieces = ([[2, 0, 7], [], [0, 0xFF], [0, 1]], [])"

lemma tcp_commands_served_witness:
  "case serve example_appl (map (\<lambda>(n, u, p). Some (u, p)) connect_messages) with_seg of
      None \<Rightarrow> receive_loop stream_os example_appl (map (\<lambda>(n, u, p). u) connect_messages) tcp_server with_seg connect_pieces = None
    | Some s1 \<Rightarrow> \<exists>t1 w1 ps. receive_loop stream_os example_appl (map (\<lambda>(n, u, p). u) connect_messages) tcp_server with_seg connect_pieces
          = Some (True, t1, s1, w1)
        \<and> arrived w1 = [1] \<and> tl_sent s1 = tl_sent with_seg @ ps
        \<and> snd w1 = snd connect_pieces @ concat (numbered (tl_ctr tcp_server) ps)"
  by (rule tcp_commands_served [OF stream_os_connection stream_os_prompt stream_os_accepting tcp_server_open(1)])
    (simp_all add: tcp_server_def connect_messages_def connect_pieces_def command_ok_def arrived_def message_def le_bytes_def upt_rec)

text \<open>C10. Whatever a TCP peer sends, and whatever errors and delays the socket has, the receive loop executes nothing but commands that were
  really sent: up to the first call that closes the connection or reports an error, the bytes it took from the connection are whole
  messages, each with a packet of an admissible size, and the state of the protocol layer is the one that executing exactly these
  packets gives; a call that ends this without an error closes the connection and ends the session, and
  does nothing else to the protocol layer. A call that reports an error ends the receive thread; what it leaves is not said here.\<close>

theorem tcp_stream_safe:
  assumes "connection k (tl_socket t) arriving wire" and "isTCP t" "tl_socket t \<noteq> INVALID_SOCKET"
    and "receive_loop k ap us t s w = Some (ok, t', s', w')"
  shows "\<exists>j xs t1 s1 w1. j \<le> length us \<and> length xs = j \<and> served_all ap arriving xs s w s1 w1
      \<and> receive_loop k ap (take j us) t s w = Some (True, t1, s1, w1) \<and> isTCP t1 \<and> tl_socket t1 = tl_socket t
      \<and> (j < length us \<longrightarrow> (\<exists>ok2 t2 s2 w2. XcpEthTlHandleCommands k ap (us ! j) t1 s1 w1 = Some (ok2, t2, s2, w2)
          \<and> (ok2 \<longrightarrow> tl_socket t2 = INVALID_SOCKET \<and> s2 = XcpDisconnect ap s1)))"
  by (rule receive_loop_safe [OF assms(1,2) refl assms(3,4)])

lemma malformed_header:
  "receive_loop stream_os example_appl [blank] tcp_server connected ([[0, 0], [7, 0, 1]], [])
     = Some (True, tcp_server\<lparr>tl_socket := - 1\<rparr>, XcpBackgroundTasks (XcpDisconnect example_appl connected), ([[1]], []))"
proof -
  have "recv_all stream_os 4 4 [] ([[0, 0], [7, 0, 1]], []) = (Received [0, 0, 7, 0], ([[1]], []))"
    by (subst recv_all.simps, simp add: stream_os_def, subst recv_all.simps, simp)
  then have "XcpEthTlHandleCommands stream_os example_appl blank tcp_server connected ([[0, 0], [7, 0, 1]], [])
      = Some (True, tcp_server\<lparr>tl_socket := - 1\<rparr>, XcpDisconnect example_appl connected, ([[1]], []))"
    by (simp add: XcpEthTlHandleCommands_def tcp_receive_def socketRecv_def tcp_server_def isTCP_def buffer_of_def rd16_def blank_def
        close_connection_def socketClose_def socketShutdown_def stream_os_def Let_def)
  then show ?thesis by simp
qed

lemma tcp_stream_safe_witness:
  "\<exists>j xs t1 s1 w1. j \<le> length [blank] \<and> length xs = j
      \<and> served_all example_appl arrived xs connected ([[0, 0], [7, 0, 1]], []) s1 w1
      \<and> receive_loop stream_os example_appl (take j [blank]) tcp_server connected ([[0, 0], [7, 0, 1]], []) = Some (True, t1, s1, w1)
      \<and> isTCP t1 \<and> tl_socket t1 = tl_socket tcp_server
      \<and> (j < length [blank] \<longrightarrow> (\<exists>ok2 t2 s2 w2. XcpEthTlHandleCommands stream_os example_appl ([blank] ! j) t1 s1 w1 = Some (ok2, t2, s2, w2)
          \<and> (ok2 \<longrightarrow> tl_socket t2 = INVALID_SOCKET \<and> s2 = XcpDisconnect example_appl s1)))"
  by (rule tcp_stream_safe [OF stream_os_connection tcp_server_open(1) _ malformed_header]) (simp add: tcp_server_def)

section \<open>Transmission\<close>

text \<open>C11. A segment: while any number of producers go on, the transmit function takes the next committed entries of the queue - at least
  one when the oldest entry is committed, at most 256 and at most 1472 bytes -, gives them consecutive counters behind the packets that were lost, sends
  them as messages in queue order in one vectored call, and releases exactly these; what producers have reserved or committed since
  then stays in the queue. Over a stream that takes what is sent, it does not fail. When there is nothing to send, nothing changes.\<close>

theorem transmit_segment:
  assumes "\<forall>i c. producer_step\<^sup>*\<^sup>* c (others i c)" and "conc_inv c0 xs" "cons c0 = CIdle" and "segment_sink k t wire"
  shows "\<exists>n c t1 w1 ds rest lost. XcpTlHandleTransmitQueue k others c0 t w = Some (n, c, t1, w1)
    \<and> grows\<^sup>*\<^sup>* xs (map Full ds @ rest) \<and> conc_inv c rest \<and> cons c = CIdle
    \<and> length (concat ds) \<le> XCPTL_MAX_SEGMENT_SIZE \<and> length ds \<le> MAX_BUFFERS
    \<and> ((\<exists>d ys. xs = Full d # ys) \<longrightarrow> ds \<noteq> []) \<and> (isTCP t \<and> accepting k (tl_socket t) \<longrightarrow> n \<noteq> - 1)
    \<and> (if ds = [] then n = 0 \<and> t1 = t \<and> wire w1 = wire w
       else tl_ctr t1 = (tl_ctr t + lost + length ds) mod 65536
         \<and> (n = - 1 \<or> n = int (length (concat ds)) \<and> wire w1 = wire w @ concat (numbered (tl_ctr t + lost) (map (drop 4) ds))))"
  by (rule transmit_handles [OF assms])

definition filled_queue :: queue64 where
  "filled_queue = (case queueAcquire 8 (queueInit 4096) of
     (None, q) \<Rightarrow> q | (Some b, q) \<Rightarrow> queuePush b False (queue_put b [0xFC, 2, 3, 4, 5, 6, 7, 8] q))"

lemma filled_queue: "\<exists>ds. conc_inv (alone filled_queue PIdle) (map Full ds)"
proof -
  have q: "queue_ok (queueInit 4096)" using queueInit_ok [of 4096] by simp
  have "queue_ok filled_queue"
    using queueAcquire_none [OF q] queue_send [OF q, of 8 _ _ "[0xFC, 2, 3, 4, 5, 6, 7, 8]"]
    by (auto simp: filled_queue_def split: prod.split option.split)
  then show ?thesis by (simp add: queue_ok_def)
qed

lemma stream_os_sink: "segment_sink stream_os tcp_server snd"
  using stream_os_sends tcp_server_open by (simp add: segment_sink_def) (simp add: stream_os_def)

definition no_input :: "u8 list list \<times> u8 list" where
  "no_input = ([], [])"

lemma transmit_segment_witness:
  "\<exists>xs n c t1 w1 ds rest lost. conc_inv (alone filled_queue PIdle) xs
    \<and> XcpTlHandleTransmitQueue stream_os (\<lambda>_ c. c) (alone filled_queue PIdle) tcp_server no_input = Some (n, c, t1, w1)
    \<and> grows\<^sup>*\<^sup>* xs (map Full ds @ rest) \<and> conc_inv c rest
    \<and> (ds \<noteq> [] \<longrightarrow> n = int (length (concat ds)) \<and> snd w1 = concat (numbered lost (map (drop 4) ds)))"
proof -
  obtain xs where x: "conc_inv (alone filled_queue PIdle) (map Full xs)" using filled_queue by blast
  have "cons (alone filled_queue PIdle) = CIdle" by (simp add: alone_def)
  moreover have "\<forall>(i :: nat) c. producer_step\<^sup>*\<^sup>* c ((\<lambda>_ c. c) i c)" by simp
  ultimately have "\<forall>(i :: nat) c. producer_step\<^sup>*\<^sup>* c ((\<lambda>_ c. c) i c)" "cons (alone filled_queue PIdle) = CIdle" by blast+
  from transmit_segment [OF this(1) x this(2) stream_os_sink, of "no_input"] obtain n c t1 w1 ds rest lost where
    "XcpTlHandleTransmitQueue stream_os (\<lambda>_ c. c) (alone filled_queue PIdle) tcp_server no_input = Some (n, c, t1, w1)"
    "grows\<^sup>*\<^sup>* (map Full xs) (map Full ds @ rest)" "conc_inv c rest"
    "if ds = [] then n = 0 \<and> t1 = tcp_server \<and> snd w1 = snd no_input
       else tl_ctr t1 = (tl_ctr tcp_server + lost + length ds) mod 65536
         \<and> (n = - 1 \<or> n = int (length (concat ds)) \<and> snd w1 = snd no_input @ concat (numbered (tl_ctr tcp_server + lost) (map (drop 4) ds)))"
    "isTCP tcp_server \<and> accepting stream_os (tl_socket tcp_server) \<longrightarrow> n \<noteq> - 1" by (elim exE conjE) (rule that; assumption)
  moreover from this have "ds \<noteq> [] \<longrightarrow> n = int (length (concat ds)) \<and> snd w1 = concat (numbered lost (map (drop 4) ds))"
    using stream_os_accepting tcp_server_open by (auto simp: tcp_server_def no_input_def)
  ultimately show ?thesis using x by blast
qed

text \<open>The transmit stream: while any number of producers go on, the calls of the transmit thread send every entry of the queue
  exactly once, in the order of the reservations, each as one message with a counter of its own, until a call fails, and
  leave the rest in the queue; over a stream that takes what is sent no call fails.\<close>

theorem transmit_stream:
  assumes "list_all (\<lambda>others. \<forall>i c. producer_step\<^sup>*\<^sup>* c (others i c)) os" and "conc_inv c0 xs" "cons c0 = CIdle"
    and "segment_sink k t wire"
  shows "\<exists>ok c t1 w1. transmit_loop k os c0 t w = Some (ok, c, t1, w1)
    \<and> (isTCP t \<and> accepting k (tl_socket t) \<longrightarrow> ok) \<and> (ok \<longrightarrow>
    (\<exists>ds rest cs. grows\<^sup>*\<^sup>* xs (map Full ds @ rest) \<and> conc_inv c rest \<and> cons c = CIdle \<and> length cs = length ds
      \<and> wire w1 = wire w @ concat (map2 message cs (map (drop 4) ds))))"
  by (rule transmit_loop_stream [OF assms])

lemma transmit_stream_witness:
  "\<exists>xs ok c t1 w1. conc_inv (alone filled_queue PIdle) (map Full xs)
    \<and> transmit_loop stream_os [\<lambda>_ c. c, \<lambda>_ c. c] (alone filled_queue PIdle) tcp_server no_input = Some (ok, c, t1, w1)
    \<and> (isTCP tcp_server \<and> accepting stream_os (tl_socket tcp_server) \<longrightarrow> ok) \<and> (ok \<longrightarrow>
    (\<exists>ds rest cs. grows\<^sup>*\<^sup>* (map Full xs) (map Full ds @ rest) \<and> conc_inv c rest \<and> cons c = CIdle \<and> length cs = length ds
      \<and> snd w1 = snd no_input @ concat (map2 message cs (map (drop 4) ds))))"
proof -
  obtain xs where x: "conc_inv (alone filled_queue PIdle) (map Full xs)" using filled_queue by blast
  have "cons (alone filled_queue PIdle) = CIdle" by (simp add: alone_def)
  from transmit_stream [of "[\<lambda>_ c. c, \<lambda>_ c. c]", OF _ x this stream_os_sink, of no_input] x show ?thesis
    by (intro exI [of _ xs]) simp
qed

section \<open>UDP\<close>

text \<open>C12. Over UDP a datagram that is one whole message is executed, for whomever it comes from: a message of the session's
  owner as it is, a message from another peer after the session has been ended; only CONNECT opens a session, and it then belongs to
  the peer that sent it. What the protocol layer answers goes to the sender of the message and to nobody else, as numbered
  messages, and all of it when sending does not fail. A datagram that is not one whole message is dropped and changes nothing.\<close>

theorem udp_datagram_served:
  assumes "datagrams k (tl_socket t) outbox" "\<not> isTCP t" and "isStarted s" "isConnected s \<longrightarrow> master_addr_valid t"
    and "socketRecvFrom k (tl_socket t) (XCPTL_MAX_CTO_SIZE + 5) w = (Received (bs, src), w1)"
  shows "if \<exists>n p. command_ok p \<and> bs = message n p
    then case udp_dispatch ap (owner t s) src (buffer_of (drop 4 bs) (\<lambda>i. u (4 + i))) (length bs - 4) s of
        None \<Rightarrow> XcpEthTlHandleCommands k ap u t s w = None
      | Some s1 \<Rightarrow> \<exists>t1 w2. XcpEthTlHandleCommands k ap u t s w = Some (True, t1, s1, w2)
          \<and> posted k (tl_socket t) outbox src (tl_ctr t) (new_packets s s1) w1 w2
          \<and> \<not> isTCP t1 \<and> (isConnected s1 \<longrightarrow> master_addr_valid t1 \<and> owner t1 s1 = Some src)
    else XcpEthTlHandleCommands k ap u t s w = Some (True, t, s, w1)"
proof -
  have h: "XcpEthTlHandleCommands k ap u t s w = udp_receive k ap u t s w" using assms(2) by (simp add: XcpEthTlHandleCommands_def)
  show ?thesis
  proof (cases "\<exists>n p. command_ok p \<and> bs = message n p")
    case True
    then obtain n p where p: "command_ok p" "bs = message n p" by blast
    then have "length p \<le> XCPTL_MAX_CTO_SIZE" by (simp add: command_ok_def)
    note served = handle_udp [OF assms(1-4) this, where ap = ap and src = src and cro = "buffer_of p (\<lambda>i. u (4 + i))" and w = w1]
    have "udp_receive k ap u t s w = handleXcpCommand k ap (length p) (buffer_of p (\<lambda>i. u (4 + i))) src t s w1"
      by (rule udp_receive_valid) (use assms(5) p in simp_all)
    moreover have "drop 4 bs = p" "length bs - 4 = length p" using message_datagram [OF p(1)] p(2) by simp_all
    ultimately have "case udp_dispatch ap (owner t s) src (buffer_of (drop 4 bs) (\<lambda>i. u (4 + i))) (length bs - 4) s of
        None \<Rightarrow> udp_receive k ap u t s w = None
      | Some s1 \<Rightarrow> \<exists>t1 w2. udp_receive k ap u t s w = Some (True, t1, s1, w2)
          \<and> posted k (tl_socket t) outbox src (tl_ctr t) (new_packets s s1) w1 w2
          \<and> \<not> isTCP t1 \<and> (isConnected s1 \<longrightarrow> master_addr_valid t1 \<and> owner t1 s1 = Some src)"
      using served by metis
    with True show ?thesis unfolding h by argo
  next
    case False
    then show ?thesis using h udp_receive_invalid [OF assms(5)] by auto
  qed
qed

text \<open>Datagrams that have arrived, and that have been sent.\<close>

definition datagram_os :: "((u8 list \<times> peer) list \<times> (peer \<times> u8 list) list) kernel" where
  "datagram_os = \<lparr>k_socket = (\<lambda>_ w. (Inr 3, w)), k_setsockopt = (\<lambda>_ _ w. (Inr (), w)), k_bind = (\<lambda>_ _ w. (Inr (), w)),
     k_listen = (\<lambda>_ _ w. (Inl EBADF, w)), k_accept = (\<lambda>_ w. (Inl EBADF, w)), k_recv = (\<lambda>_ _ _ w. (Inl EBADF, w)),
     k_recvfrom = (\<lambda>_ n (ins, out). case ins of [] \<Rightarrow> (Inl EAGAIN, (ins, out)) | (d, p) # ds \<Rightarrow> (Inr (take n d, p), (ds, out))),
     k_send = (\<lambda>_ _ w. (Inl EBADF, w)), k_sendto = (\<lambda>_ _ _ w. (Inl EBADF, w)),
     k_sendmsg = (\<lambda>_ iov p (ins, out). case p of None \<Rightarrow> (Inl ENOTCONN, (ins, out))
        | Some a \<Rightarrow> (Inr (length (concat iov)), (ins, out @ [(a, concat iov)]))),
     k_shutdown = (\<lambda>_ w. w), k_close = (\<lambda>_ w. w), k_clock = (\<lambda>w. (1000, w))\<rparr>"

definition udp_server :: xcptl where
  "udp_server = tcp_server\<lparr>tl_socket := 3, listen_socket := - 1, server_use_tcp := False\<rparr>"

definition stranger :: peer where
  "stranger = ([192, 168, 0, 7], 40000)"

lemma datagram_os_sends: "datagrams datagram_os sock snd"
  by (auto simp: datagrams_def datagram_os_def)

lemma udp_datagram_served_witness:
  "if \<exists>n p. command_ok p \<and> message 7 [0xFF, 0] = message n p
    then case udp_dispatch example_appl (owner (udp_server\<lparr>master_addr_valid := True\<rparr>) connected) stranger
          (buffer_of (drop 4 (message 7 [0xFF, 0])) (\<lambda>i. blank (4 + i))) (length (message 7 [0xFF, 0]) - 4) connected of
        None \<Rightarrow> XcpEthTlHandleCommands datagram_os example_appl blank (udp_server\<lparr>master_addr_valid := True\<rparr>) connected
          ([(message 7 [0xFF, 0], stranger)], []) = None
      | Some s1 \<Rightarrow> \<exists>t1 w2. XcpEthTlHandleCommands datagram_os example_appl blank (udp_server\<lparr>master_addr_valid := True\<rparr>) connected
          ([(message 7 [0xFF, 0], stranger)], []) = Some (True, t1, s1, w2)
          \<and> posted datagram_os (tl_socket (udp_server\<lparr>master_addr_valid := True\<rparr>)) snd stranger
              (tl_ctr (udp_server\<lparr>master_addr_valid := True\<rparr>)) (new_packets connected s1) ([], []) w2
          \<and> \<not> isTCP t1 \<and> (isConnected s1 \<longrightarrow> master_addr_valid t1 \<and> owner t1 s1 = Some stranger)
    else XcpEthTlHandleCommands datagram_os example_appl blank (udp_server\<lparr>master_addr_valid := True\<rparr>) connected
          ([(message 7 [0xFF, 0], stranger)], []) = Some (True, udp_server\<lparr>master_addr_valid := True\<rparr>, connected, ([], []))"
  by (rule udp_datagram_served [OF datagram_os_sends _ connected_ok(1)])
    (simp_all add: udp_server_def isTCP_def socketRecvFrom_def datagram_os_def message_def le_bytes_def upt_rec)

end
