(* ===== verification/Raw_Wire.thy ===== *)
theory Raw_Wire
  imports Xcp_Base
begin

text \<open>
  The wire format of the raw Ethernet transport (\<^verbatim>\<open>src/src/socket_raw.c\<close>, built with
  \<^verbatim>\<open>src/src/xcplib_raw_cfg.h\<close>): byte order, the Internet checksum, and the Ethernet, IPv4, UDP, ARP
  and ICMP headers as the bytes of their packed structures. A received frame is a buffer with a length, so that what
  lies behind the frame is there to be read; a frame that is built is a list of bytes.
\<close>

section \<open>Byte order\<close>

text \<open>\<^verbatim>\<open>BE16\<close> swaps the bytes of a 16 bit value on a little-endian host.\<close>

definition BE16 :: "nat \<Rightarrow> nat" where
  "BE16 v = v mod 256 * 256 + v div 256 mod 256"

lemma BE16_less [simp]: "BE16 v < 65536"
proof -
  have "v mod 256 \<le> 255" "v div 256 mod 256 \<le> 255" by simp_all
  then show ?thesis unfolding BE16_def by linarith
qed

lemma BE16_BE16 [simp]: "BE16 (BE16 v) = v mod 65536"
proof -
  have "(a * 256 + b) mod 256 = b" "(a * 256 + b) div 256 mod 256 = a" if "a < 256" "b < 256" for a b :: nat
    using that by simp_all
  then have "BE16 (BE16 v) = v div 256 mod 256 * 256 + v mod 256" by (simp add: BE16_def)
  then show ?thesis using mod_65536_split [of v] by simp
qed

text \<open>A 16 bit field in network order.\<close>

definition be_field :: "nat \<Rightarrow> u8 list" where
  "be_field v = le_bytes 2 (BE16 v)"

lemma be_field_length [simp]: "length (be_field v) = 2"
  by (simp add: be_field_def)

lemma be_field_bytes: "be_field v = [of_nat (v div 256), of_nat v]"
proof -
  have "(of_nat (v mod 256 * 256 + v div 256 mod 256) :: u8) = of_nat (v div 256)"
    "(of_nat ((v mod 256 * 256 + v div 256 mod 256) div 256) :: u8) = of_nat v"
    unfolding word_unat_eq_iff unat_byte by simp_all
  then show ?thesis by (simp add: be_field_def BE16_def le_bytes_def upt_rec)
qed

lemma be_field_read:
  assumes "m a = of_nat (v div 256)" "m (a + 1) = of_nat v"
  shows "BE16 (rd16 m a) = v mod 65536"
proof -
  have "rd16 m a = v div 256 mod 256 + 256 * (v mod 256)" using assms by (simp add: rd16_def unat_byte)
  then have "BE16 (rd16 m a) = v mod 256 + 256 * (v div 256 mod 256)" by (simp add: BE16_def)
  then show ?thesis using mod_65536_split [of v] by simp
qed

section \<open>The Internet checksum\<close>

text \<open>\<^verbatim>\<open>checksum16\<close>: the sum of big-endian words in 32 bits, the carries folded back, complemented.\<close>

fun sum16 :: "u8 list \<Rightarrow> nat \<Rightarrow> nat" where
  "sum16 (a # b # xs) s = sum16 xs ((s + (unat a * 256 + unat b)) mod 2 ^ 32)"
| "sum16 [a] s = (s + unat a * 256) mod 2 ^ 32"
| "sum16 [] s = s"

function fold16 :: "nat \<Rightarrow> nat" where
  "fold16 s = (if s div 65536 \<noteq> 0 then fold16 (s mod 65536 + s div 65536) else s)"
  by pat_completeness auto
termination
proof (relation "measure id")
  fix s :: nat
  assume "s div 65536 \<noteq> 0"
  moreover have "65536 * (s div 65536) + s mod 65536 = s" by simp
  ultimately have "s mod 65536 + s div 65536 < s" by linarith
  then show "(s mod 65536 + s div 65536, s) \<in> measure id" by simp
qed simp

declare fold16.simps [simp del]

definition checksum16 :: "u8 list \<Rightarrow> nat \<Rightarrow> nat" where
  "checksum16 xs s = 65535 - fold16 (sum16 xs s)"

text \<open>RFC 1071: the one's complement sum of the 16 bit words, an odd byte at the end padded with a zero byte.\<close>

fun words16 :: "u8 list \<Rightarrow> nat list" where
  "words16 (a # b # xs) = (unat a * 256 + unat b) # words16 xs"
| "words16 [a] = [unat a * 256]"
| "words16 [] = []"

definition add1c :: "nat \<Rightarrow> nat \<Rightarrow> nat" where
  "add1c a b = (if a + b < 65536 then a + b else a + b - 65535)"

definition rfc1071 :: "u8 list \<Rightarrow> nat" where
  "rfc1071 xs = 65535 - foldr add1c (words16 xs) 0"

text \<open>Folding gives the residue modulo 65535, with 65535 for a sum that is a positive multiple.\<close>

definition residue :: "nat \<Rightarrow> nat" where
  "residue s = (if s = 0 then 0 else if s mod 65535 = 0 then 65535 else s mod 65535)"

lemma residue_bound: "residue s \<le> 65535"
  using mod_less_divisor [of 65535 s] by (simp add: residue_def)

lemma residue_small: "s \<le> 65535 \<Longrightarrow> residue s = s"
  by (cases "s = 65535") (auto simp: residue_def)

lemma residue_mod: "residue s mod 65535 = s mod 65535"
  by (simp add: residue_def)

lemma residue_cong: "s mod 65535 = t mod 65535 \<Longrightarrow> (s = 0) = (t = 0) \<Longrightarrow> residue s = residue t"
  by (simp add: residue_def)

lemma fold16_residue: "fold16 s = residue s"
proof (induction s rule: fold16.induct)
  case (1 s)
  have d: "65536 * (s div 65536) + s mod 65536 = s" by simp
  show ?case
  proof (cases "s div 65536 = 0")
    case True
    then have "s \<le> 65535" by simp
    then show ?thesis by (subst fold16.simps) (simp add: residue_small)
  next
    case False
    define q r where "q = s div 65536" and "r = s mod 65536"
    have s: "s = (r + q) + 65535 * q" using d unfolding q_def r_def by linarith
    have "residue (r + q) = residue s"
    proof (rule residue_cong)
      show "(r + q) mod 65535 = s mod 65535" by (subst s) (rule mod_mult_self2 [symmetric])
      show "(r + q = 0) = (s = 0)" using False by (auto simp: q_def)
    qed
    then show ?thesis using False 1 by (subst fold16.simps) (simp add: q_def r_def)
  qed
qed

lemma words16_bound: "w \<in> set (words16 xs) \<Longrightarrow> w \<le> 65535"
proof (induction xs rule: words16.induct)
  case (1 a b xs)
  then show ?case using unat_u8_less [of a] unat_u8_less [of b] by auto
next
  case (2 a)
  then show ?case using unat_u8_less [of a] by simp
qed simp

lemma words16_append: "even (length xs) \<Longrightarrow> words16 (xs @ ys) = words16 xs @ words16 ys"
  by (induction xs rule: words16.induct) simp_all

lemma sum_words_bound: "sum_list (words16 xs) \<le> 65535 * length xs"
proof (induction xs rule: words16.induct)
  case (1 a b xs)
  then show ?case using unat_u8_less [of a] unat_u8_less [of b] by simp
next
  case (2 a)
  then show ?case using unat_u8_less [of a] by simp
qed simp

lemma sum16_words: "s + sum_list (words16 xs) < 2 ^ 32 \<Longrightarrow> sum16 xs s = s + sum_list (words16 xs)"
  by (induction xs s rule: sum16.induct) simp_all

text \<open>No sum of a frame overflows.\<close>

lemma checksum16_residue:
  assumes "length xs < 65000" "s < 2 ^ 20"
  shows "checksum16 xs s = 65535 - residue (s + sum_list (words16 xs))"
proof -
  have "s + sum_list (words16 xs) < 2 ^ 32" using sum_words_bound [of xs] assms by simp
  then show ?thesis by (simp add: checksum16_def fold16_residue sum16_words)
qed

lemma add1c_residue: "a \<le> 65535 \<Longrightarrow> add1c a (residue t) = residue (a + t)"
proof -
  assume a: "a \<le> 65535"
  note b = residue_bound [of t]
  have "add1c a (residue t) = residue (a + residue t)"
  proof (cases "a + residue t < 65536")
    case True
    then show ?thesis by (simp add: add1c_def residue_small)
  next
    case False
    have "residue (a + residue t) = residue (a + residue t - 65535)"
    proof (rule residue_cong)
      have "a + residue t = (a + residue t - 65535) + 65535" using False by simp
      then show "(a + residue t) mod 65535 = (a + residue t - 65535) mod 65535" by (metis mod_add_self2)
    qed (use False in auto)
    moreover have "a + residue t - 65535 \<le> 65535" using a b by simp
    ultimately show ?thesis using False by (simp add: add1c_def residue_small)
  qed
  also have "\<dots> = residue (a + t)"
  proof (rule residue_cong)
    show "(a + residue t) mod 65535 = (a + t) mod 65535" using residue_mod [of t] by (metis mod_add_right_eq)
    show "(a + residue t = 0) = (a + t = 0)" by (auto simp: residue_def)
  qed
  finally show ?thesis .
qed

lemma ones_sum: "\<forall>w \<in> set ws. w \<le> 65535 \<Longrightarrow> foldr add1c ws 0 = residue (sum_list ws)"
  by (induction ws) (simp_all add: add1c_residue, simp add: residue_def)

text \<open>What is sent verifies: with its checksum in place the sum is all ones.\<close>

lemma be_field_word: "v < 65536 \<Longrightarrow> words16 (be_field v) = [v]"
  using mod_65536_split [of v] by (simp add: be_field_bytes unat_byte)

lemma checksum_verifies:
  assumes "length xs + length ys < 64000" "s < 2 ^ 20" "even (length xs)"
    and c: "c = checksum16 (xs @ be_field 0 @ ys) s \<or> c = 65535 \<and> checksum16 (xs @ be_field 0 @ ys) s = 0"
  shows "checksum16 (xs @ be_field c @ ys) s = 0"
proof -
  define S where "S = s + sum_list (words16 xs) + sum_list (words16 ys)"
  have w: "words16 (xs @ be_field v @ ys) = words16 xs @ v # words16 ys" if "v < 65536" for v
    using assms(3) that by (simp add: words16_append be_field_word)
  have cs: "checksum16 (xs @ be_field v @ ys) s = 65535 - residue (S + v)" if "v < 65536" for v
    using checksum16_residue [of "xs @ be_field v @ ys" s] w [OF that] assms(1,2) by (simp add: S_def ac_simps)
  have le: "c < 65536" using c cs [of 0] by auto
  have r: "residue S \<le> 65535" by (rule residue_bound)
  have "(S + c) mod 65535 = 0 \<and> S + c \<noteq> 0"
  proof (cases "c = 65535 - residue S")
    case True
    have d: "65535 * (S div 65535) + S mod 65535 = S" by simp
    show ?thesis
    proof (cases "S mod 65535 = 0")
      case True
      with \<open>c = 65535 - residue S\<close> show ?thesis by (auto simp: residue_def)
    next
      case False
      then have "residue S = S mod 65535" by (auto simp: residue_def)
      then have "S + c = 65535 * (S div 65535) + 65535" using True d r by linarith
      then show ?thesis by simp
    qed
  next
    case False
    then have "c = 65535" "residue S = 65535" using c cs [of 0] r by auto
    then show ?thesis using residue_mod [of S] by (auto simp: residue_def)
  qed
  then have "residue (S + c) = 65535" by (auto simp: residue_def)
  then show ?thesis using cs [OF le] by simp
qed

end
