(* ===== verification/Raw_Socket.thy ===== *)
theory Raw_Socket
  imports Raw_Wire Xcp_Sockets
begin

text \<open>
  The raw Ethernet transport (\<^verbatim>\<open>src/src/socket_raw.c\<close>): UDP over IPv4 over Ethernet frames, for targets
  without an IP stack, in the configuration of \<^verbatim>\<open>xcplib_raw_cfg.h\<close> (echo replies, verified header checksums, no
  announcement). The Ethernet driver (\<^verbatim>\<open>socket_raw_hal.h\<close>) and the clock are the record \<open>hal\<close>, an argument
  of the definitions. The choice between a zero and a computed UDP checksum is the argument \<open>compute\<close>.
\<close>

section \<open>Driver and state\<close>

text \<open>\<open>h_recv max_len timeout\<close> gives an error, no frame (\<open>[]\<close>) or a frame.\<close>

record 'w hal =
  h_open :: "string option \<Rightarrow> 'w \<Rightarrow> bool \<times> 'w"
  h_close :: "'w \<Rightarrow> 'w"
  h_get_mac :: "'w \<Rightarrow> u8 list option \<times> 'w"
  h_send :: "u8 list \<Rightarrow> 'w \<Rightarrow> int \<times> 'w"
  h_recv :: "nat \<Rightarrow> nat \<Rightarrow> 'w \<Rightarrow> (unit + u8 list) \<times> 'w"
  h_wakeup :: "'w \<Rightarrow> 'w"
  h_clock :: "'w \<Rightarrow> nat \<times> 'w"

abbreviation (input) ETH_HAL_ERROR_SIZE :: int where "ETH_HAL_ERROR_SIZE \<equiv> - 2"

abbreviation (input) RAW_ERROR_NONE :: nat where "RAW_ERROR_NONE \<equiv> 0"
abbreviation (input) RAW_ERROR_TIMEDOUT :: nat where "RAW_ERROR_TIMEDOUT \<equiv> 1"
abbreviation (input) RAW_ERROR_BADF :: nat where "RAW_ERROR_BADF \<equiv> 2"
abbreviation (input) RAW_ERROR_HAL :: nat where "RAW_ERROR_HAL \<equiv> 4"
abbreviation (input) RAW_ERROR_TOOBIG :: nat where "RAW_ERROR_TOOBIG \<equiv> 5"
abbreviation (input) RAW_ERROR_NOPEER :: nat where "RAW_ERROR_NOPEER \<equiv> 6"
abbreviation (input) RAW_ERROR_MSGSIZE :: nat where "RAW_ERROR_MSGSIZE \<equiv> 7"

definition raw_socketGetErrorString :: "nat \<Rightarrow> string" where
  "raw_socketGetErrorString e =
     (if e = RAW_ERROR_NONE then ''no error''
      else if e = RAW_ERROR_TIMEDOUT then ''timed out''
      else if e = RAW_ERROR_BADF then ''socket closed''
      else if e = 3 then ''not connected''
      else if e = RAW_ERROR_HAL then ''Ethernet HAL error''
      else if e = RAW_ERROR_TOOBIG then ''frame too large''
      else if e = RAW_ERROR_NOPEER then ''peer MAC unknown''
      else if e = RAW_ERROR_MSGSIZE then ''frame too large for the link MTU''
      else ''unknown socket error'')"

abbreviation (input) ETH_HDR_LEN :: nat where "ETH_HDR_LEN \<equiv> 14"
abbreviation (input) IP4_HDR_LEN :: nat where "IP4_HDR_LEN \<equiv> 20"
abbreviation (input) UDP_HDR_LEN :: nat where "UDP_HDR_LEN \<equiv> 8"
abbreviation (input) ARP_LEN :: nat where "ARP_LEN \<equiv> 28"
abbreviation (input) RAW_HDR_LEN :: nat where "RAW_HDR_LEN \<equiv> 42"
abbreviation (input) RAW_MAX_SEGMENT_SIZE :: nat where "RAW_MAX_SEGMENT_SIZE \<equiv> 1392"
abbreviation (input) RAW_MAX_FRAME :: nat where "RAW_MAX_FRAME \<equiv> 1434"
abbreviation (input) ETHERTYPE_IPV4 :: nat where "ETHERTYPE_IPV4 \<equiv> 2048"
abbreviation (input) ETHERTYPE_ARP :: nat where "ETHERTYPE_ARP \<equiv> 2054"

text \<open>The driver's handle is the flag \<open>hal_ctx\<close>; \<^verbatim>\<open>sRxBuf\<close>, \<^verbatim>\<open>sLastError\<close> and
  \<^verbatim>\<open>sInterfaceConfig\<close> are fields.\<close>

record raw_socket =
  hal_ctx :: bool
  local_mac :: "u8 list"
  local_ip :: "u8 list"
  local_port :: nat
  peer_mac :: "u8 list"
  peer_mac_valid :: bool
  ip_ident :: nat
  recv_timeout_ms :: nat
  shutdown_requested :: bool
  raw_is_open :: bool
  raw_is_bound :: bool
  last_error :: nat
  rx_buf :: bytes
  interface_config :: "string option"

definition broadcast_mac :: "u8 list" where
  "broadcast_mac = replicate 6 0xFF"

section \<open>Headers\<close>

definition eth_header :: "u8 list \<Rightarrow> u8 list \<Rightarrow> nat \<Rightarrow> u8 list" where
  "eth_header dst src ethertype = dst @ src @ be_field ethertype"

text \<open>Version and header length, type of service, total length, identification, no fragments, time to live, protocol,
  checksum, addresses.\<close>

definition ip_fields :: "nat \<Rightarrow> nat \<Rightarrow> u8 \<Rightarrow> nat \<Rightarrow> u8 list \<Rightarrow> u8 list \<Rightarrow> u8 list" where
  "ip_fields tlen ident proto csum src dst = ([0x45, 0] @ be_field tlen @ be_field ident @ be_field 0x4000 @ [64, proto])
     @ be_field csum @ src @ dst"

definition ip_header :: "nat \<Rightarrow> nat \<Rightarrow> u8 \<Rightarrow> u8 list \<Rightarrow> u8 list \<Rightarrow> u8 list" where
  "ip_header tlen ident proto src dst =
     ip_fields tlen ident proto (checksum16 (ip_fields tlen ident proto 0 src dst) 0) src dst"

definition udp_fields :: "nat \<Rightarrow> nat \<Rightarrow> nat \<Rightarrow> nat \<Rightarrow> u8 list" where
  "udp_fields sport dport len csum = (be_field sport @ be_field dport @ be_field len) @ be_field csum"

definition udpChecksum :: "u8 list \<Rightarrow> u8 list \<Rightarrow> u8 list \<Rightarrow> nat" where
  "udpChecksum src dst udp =
     (let sum = (unat (src ! 0) * 256 + unat (src ! 1)) + (unat (src ! 2) * 256 + unat (src ! 3))
        + (unat (dst ! 0) * 256 + unat (dst ! 1)) + (unat (dst ! 2) * 256 + unat (dst ! 3)) + 17 + length udp;
        c = checksum16 udp sum
      in if c = 0 then 65535 else c)"

definition udp_header :: "bool \<Rightarrow> u8 list \<Rightarrow> u8 list \<Rightarrow> nat \<Rightarrow> nat \<Rightarrow> u8 list \<Rightarrow> u8 list" where
  "udp_header compute src dst sport dport payload =
     (let len = UDP_HDR_LEN + length payload
      in udp_fields sport dport len
           (if compute then udpChecksum src dst (udp_fields sport dport len 0 @ payload) else 0))"

text \<open>\<^verbatim>\<open>buildFrameHeader\<close>; the identification is a 16 bit counter.\<close>

definition buildFrameHeader :: "bool \<Rightarrow> raw_socket \<Rightarrow> u8 list \<Rightarrow> u8 list \<Rightarrow> nat \<Rightarrow> u8 list \<times> raw_socket" where
  "buildFrameHeader compute s payload addr port =
     (eth_header (peer_mac s) (local_mac s) ETHERTYPE_IPV4
      @ ip_header (IP4_HDR_LEN + UDP_HDR_LEN + length payload) (ip_ident s) 17 (local_ip s) addr
      @ udp_header compute (local_ip s) addr (local_port s) port payload,
      s\<lparr>ip_ident := (ip_ident s + 1) mod 65536\<rparr>)"

section \<open>Sending\<close>

definition raw_sendFrame :: "'w hal \<Rightarrow> u8 list \<Rightarrow> raw_socket \<Rightarrow> 'w \<Rightarrow> raw_socket \<times> 'w" where
  "raw_sendFrame h f s w = (case h_send h f w of (r, w1) \<Rightarrow>
     (if r < 0 then s\<lparr>last_error := if r = ETH_HAL_ERROR_SIZE then RAW_ERROR_MSGSIZE else RAW_ERROR_HAL\<rparr> else s, w1))"

text \<open>The result of the send when it must not happen.\<close>

definition checkSend :: "nat \<Rightarrow> raw_socket \<Rightarrow> int option \<times> raw_socket" where
  "checkSend n s =
     (if \<not> raw_is_open s then (Some 0, s\<lparr>last_error := RAW_ERROR_BADF\<rparr>)
      else if n = 0 \<or> RAW_MAX_SEGMENT_SIZE < n then (Some (- 1), s\<lparr>last_error := RAW_ERROR_TOOBIG\<rparr>)
      else if \<not> peer_mac_valid s then (Some (- 1), s\<lparr>last_error := RAW_ERROR_NOPEER\<rparr>)
      else (None, s))"

definition mapSendResult :: "int \<Rightarrow> nat \<Rightarrow> raw_socket \<Rightarrow> int \<times> raw_socket" where
  "mapSendResult r n s =
     (if r < 0 then (- 1, s\<lparr>last_error := if r = ETH_HAL_ERROR_SIZE then RAW_ERROR_MSGSIZE else RAW_ERROR_HAL\<rparr>)
      else (int n, s))"

definition raw_socketSendTo ::
  "'w hal \<Rightarrow> bool \<Rightarrow> u8 list \<Rightarrow> u8 list \<Rightarrow> nat \<Rightarrow> raw_socket \<Rightarrow> 'w \<Rightarrow> int \<times> raw_socket \<times> 'w" where
  "raw_socketSendTo h compute payload addr port s w =
     (case checkSend (length payload) s of
        (Some r, s1) \<Rightarrow> (r, s1, w)
      | (None, s1) \<Rightarrow> (case buildFrameHeader compute s1 payload addr port of (hdr, s2) \<Rightarrow>
          (case h_send h (hdr @ payload) w of (r, w1) \<Rightarrow>
             (case mapSendResult r (length payload) s2 of (n, s3) \<Rightarrow> (n, s3, w1)))))"

text \<open>The payload lies in memory behind room for the header, which is written in place.\<close>

definition raw_socketSendToReserved ::
  "'w hal \<Rightarrow> bool \<Rightarrow> bytes \<Rightarrow> nat \<Rightarrow> nat \<Rightarrow> u8 list \<Rightarrow> nat \<Rightarrow> raw_socket \<Rightarrow> 'w \<Rightarrow> int \<times> bytes \<times> raw_socket \<times> 'w" where
  "raw_socketSendToReserved h compute m pos n addr port s w =
     (case checkSend n s of
        (Some r, s1) \<Rightarrow> (r, m, s1, w)
      | (None, s1) \<Rightarrow> (case buildFrameHeader compute s1 (mem_get pos n m) addr port of (hdr, s2) \<Rightarrow>
          let m1 = mem_set (pos - RAW_HDR_LEN) hdr m in
          (case h_send h (mem_get (pos - RAW_HDR_LEN) (RAW_HDR_LEN + n) m1) w of (r, w1) \<Rightarrow>
             (case mapSendResult r n s2 of (k, s3) \<Rightarrow> (k, m1, s3, w1)))))"

section \<open>ARP and ICMP\<close>

definition arp_packet :: "nat \<Rightarrow> u8 list \<Rightarrow> u8 list \<Rightarrow> u8 list \<Rightarrow> u8 list \<Rightarrow> u8 list" where
  "arp_packet oper sha spa tha tpa =
     be_field 1 @ be_field ETHERTYPE_IPV4 @ [6, 4] @ be_field oper @ sha @ spa @ tha @ tpa"

definition handleArp :: "'w hal \<Rightarrow> bytes \<Rightarrow> nat \<Rightarrow> raw_socket \<Rightarrow> 'w \<Rightarrow> raw_socket \<times> 'w" where
  "handleArp h f len s w =
     (if len < ETH_HDR_LEN + ARP_LEN then (s, w)
      else if BE16 (rd16 f 14) \<noteq> 1 then (s, w)
      else if BE16 (rd16 f 16) \<noteq> ETHERTYPE_IPV4 then (s, w)
      else if f 18 \<noteq> 6 \<or> f 19 \<noteq> 4 then (s, w)
      else if BE16 (rd16 f 20) \<noteq> 1 then (s, w)
      else if mem_get 38 4 f \<noteq> local_ip s then (s, w)
      else raw_sendFrame h (eth_header (mem_get 22 6 f) (local_mac s) ETHERTYPE_ARP
             @ arp_packet 2 (local_mac s) (local_ip s) (mem_get 22 6 f) (mem_get 28 4 f)) s w)"

definition handleIcmp :: "'w hal \<Rightarrow> bytes \<Rightarrow> nat \<Rightarrow> nat \<Rightarrow> raw_socket \<Rightarrow> 'w \<Rightarrow> raw_socket \<times> 'w" where
  "handleIcmp h f len ip_hdr_len s w =
     (let total_length = BE16 (rd16 f 16); icmp_len = total_length - ip_hdr_len; pos = ETH_HDR_LEN + ip_hdr_len in
      if total_length < ip_hdr_len + 4 then (s, w)
      else if len < ETH_HDR_LEN + total_length then (s, w)
      else if RAW_MAX_FRAME < ETH_HDR_LEN + IP4_HDR_LEN + icmp_len then (s, w)
      else if f pos \<noteq> 8 \<or> f (pos + 1) \<noteq> 0 then (s, w)
      else let icmp = (\<lambda>csum. [0, f (pos + 1)] @ be_field csum @ mem_get (pos + 4) (icmp_len - 4) f) in
        raw_sendFrame h (eth_header (mem_get 6 6 f) (local_mac s) ETHERTYPE_IPV4
          @ ip_header (IP4_HDR_LEN + icmp_len) (ip_ident s) 1 (local_ip s) (mem_get 26 4 f)
          @ icmp (checksum16 (icmp 0) 0))
          (s\<lparr>ip_ident := (ip_ident s + 1) mod 65536\<rparr>) w)"

section \<open>Receiving\<close>

text \<open>The payload and its sender when the frame is a datagram for the bound port; the order of the tests is the code's.\<close>

definition handleFrame ::
  "'w hal \<Rightarrow> bytes \<Rightarrow> nat \<Rightarrow> nat \<Rightarrow> raw_socket \<Rightarrow> 'w \<Rightarrow> (u8 list \<times> peer) option \<times> raw_socket \<times> 'w" where
  "handleFrame h f len bufferSize s w =
     (let ethertype = BE16 (rd16 f 12); dst = mem_get 0 6 f; ip_hdr_len = unat (f 14) mod 16 * 4;
          total_length = BE16 (rd16 f 16); udp = ETH_HDR_LEN + ip_hdr_len; udp_len = BE16 (rd16 f (udp + 4));
          payload_len = udp_len - UDP_HDR_LEN
      in if len < ETH_HDR_LEN then (None, s, w)
      else if ethertype = ETHERTYPE_ARP then (None, handleArp h f len s w)
      else if ethertype \<noteq> ETHERTYPE_IPV4 then (None, s, w)
      else if dst \<noteq> local_mac s \<and> dst \<noteq> broadcast_mac then (None, s, w)
      else if len < ETH_HDR_LEN + IP4_HDR_LEN then (None, s, w)
      else if unat (f 14) div 16 \<noteq> 4 then (None, s, w)
      else if ip_hdr_len < IP4_HDR_LEN then (None, s, w)
      else if total_length < ip_hdr_len then (None, s, w)
      else if len < ETH_HDR_LEN + total_length then (None, s, w)
      else if BE16 (rd16 f 20) mod 16384 \<noteq> 0 then (None, s, w)
      else if mem_get 30 4 f \<noteq> local_ip s \<and> mem_get 30 4 f \<noteq> [255, 255, 255, 255] then (None, s, w)
      else if checksum16 (mem_get 14 ip_hdr_len f) 0 \<noteq> 0 then (None, s, w)
      else if f 23 = 1 then (None, handleIcmp h f len ip_hdr_len s w)
      else if f 23 \<noteq> 17 then (None, s, w)
      else if total_length < ip_hdr_len + UDP_HDR_LEN then (None, s, w)
      else if BE16 (rd16 f (udp + 2)) \<noteq> local_port s then (None, s, w)
      else if udp_len < UDP_HDR_LEN then (None, s, w)
      else if total_length - ip_hdr_len < udp_len then (None, s, w)
      else if bufferSize < payload_len then (None, s, w)
      else (Some (mem_get (udp + UDP_HDR_LEN) payload_len f, (mem_get 26 4 f, BE16 (rd16 f udp))),
            if dst \<noteq> broadcast_mac then s\<lparr>peer_mac := mem_get 6 6 f, peer_mac_valid := True\<rparr> else s, w))"

text \<open>The receive loop. \<open>others i\<close> is what other threads do to the state before the \<open>i\<close>-th cycle.\<close>

partial_function (option) raw_recv_loop ::
  "'w hal \<Rightarrow> (nat \<Rightarrow> raw_socket \<Rightarrow> raw_socket) \<Rightarrow> nat \<Rightarrow> nat \<Rightarrow> nat option \<Rightarrow> raw_socket \<Rightarrow> 'w
     \<Rightarrow> ((u8 list \<times> peer) received \<times> raw_socket \<times> 'w) option" where
  "raw_recv_loop h others i n deadline s0 w0 =
     (let s = others i s0; now = (case deadline of None \<Rightarrow> (0, w0) | Some d \<Rightarrow> h_clock h w0);
          rest = (case deadline of None \<Rightarrow> 100 | Some d \<Rightarrow> (d - fst now) div 1000000);
          slice = max 1 (min rest 100)
      in if shutdown_requested s \<or> \<not> raw_is_open s then Some (RecvError RAW_ERROR_BADF, s\<lparr>last_error := RAW_ERROR_BADF\<rparr>, w0)
      else if (case deadline of None \<Rightarrow> False | Some d \<Rightarrow> d \<le> fst now)
        then Some (NoData, s\<lparr>last_error := RAW_ERROR_TIMEDOUT\<rparr>, snd now)
      else case h_recv h RAW_MAX_FRAME slice (snd now) of
          (Inl e, w) \<Rightarrow> Some (RecvError RAW_ERROR_HAL, s\<lparr>last_error := RAW_ERROR_HAL\<rparr>, w)
        | (Inr f, w) \<Rightarrow>
            if f = [] then raw_recv_loop h others (i + 1) n deadline s w
            else let s1 = s\<lparr>rx_buf := mem_set 0 f (rx_buf s)\<rparr> in
              case handleFrame h (rx_buf s1) (length f) n s1 w of
                (Some (p, src), s2, w1) \<Rightarrow>
                  if p \<noteq> [] then Some (Received (p, src), s2, w1) else raw_recv_loop h others (i + 1) n deadline s2 w1
              | (None, s2, w1) \<Rightarrow> raw_recv_loop h others (i + 1) n deadline s2 w1)"

definition raw_socketRecvFrom ::
  "'w hal \<Rightarrow> (nat \<Rightarrow> raw_socket \<Rightarrow> raw_socket) \<Rightarrow> nat \<Rightarrow> raw_socket \<Rightarrow> 'w
     \<Rightarrow> ((u8 list \<times> peer) received \<times> raw_socket \<times> 'w) option" where
  "raw_socketRecvFrom h others n s w =
     (if recv_timeout_ms s = 0 then raw_recv_loop h others 0 n None s w
      else case h_clock h w of (now, w1) \<Rightarrow>
        raw_recv_loop h others 0 n (Some ((now + recv_timeout_ms s * 1000000) mod 2 ^ 64)) s w1)"

section \<open>Opening and closing\<close>

definition cleared_socket :: "raw_socket \<Rightarrow> raw_socket" where
  "cleared_socket s = \<lparr>hal_ctx = False, local_mac = replicate 6 0, local_ip = replicate 4 0, local_port = 0,
     peer_mac = replicate 6 0, peer_mac_valid = False, ip_ident = 0, recv_timeout_ms = 0, shutdown_requested = False,
     raw_is_open = False, raw_is_bound = False, last_error = last_error s, rx_buf = rx_buf s, interface_config = interface_config s\<rparr>"

definition raw_socketStartup :: "raw_socket \<Rightarrow> raw_socket" where
  "raw_socketStartup s = (cleared_socket s)\<lparr>last_error := RAW_ERROR_NONE\<rparr>"

definition socketRawSetInterface :: "string option \<Rightarrow> raw_socket \<Rightarrow> raw_socket" where
  "socketRawSetInterface c s = s\<lparr>interface_config := c\<rparr>"

definition socketRawGetLocalMac :: "raw_socket \<Rightarrow> u8 list option" where
  "socketRawGetLocalMac s = (if \<not> raw_is_open s then None else Some (local_mac s))"

definition raw_socketOpen :: "'w hal \<Rightarrow> u16 \<Rightarrow> raw_socket \<Rightarrow> 'w \<Rightarrow> bool \<times> raw_socket \<times> 'w" where
  "raw_socketOpen h flags s0 w0 =
     (if flags AND SOCKET_MODE_TCP \<noteq> 0 then (False, s0, w0)
      else if raw_is_open s0 then (False, s0, w0)
      else let s = cleared_socket s0 in
        case h_open h (interface_config s) w0 of
          (False, w) \<Rightarrow> (False, s\<lparr>last_error := RAW_ERROR_HAL\<rparr>, w)
        | (True, w) \<Rightarrow>
            (case h_get_mac h w of
               (None, w1) \<Rightarrow> (False, s\<lparr>last_error := RAW_ERROR_HAL\<rparr>, h_close h w1)
             | (Some mac, w1) \<Rightarrow>
                 let s1 = s\<lparr>local_mac := mac\<rparr> in
                 if mac ! 0 AND 1 \<noteq> 0 then (False, s1\<lparr>last_error := RAW_ERROR_HAL\<rparr>, h_close h w1)
                 else if mac = replicate 6 0 then (False, s1\<lparr>last_error := RAW_ERROR_HAL\<rparr>, h_close h w1)
                 else (True, s1\<lparr>hal_ctx := True, raw_is_open := True\<rparr>, w1)))"

definition isValidLocalIp :: "u8 list \<Rightarrow> bool" where
  "isValidLocalIp a =
     (if a ! 0 = 0 then False
      else if a ! 0 = 255 \<and> a ! 1 = 255 \<and> a ! 2 = 255 \<and> a ! 3 = 255 then False
      else if 224 \<le> a ! 0 \<and> a ! 0 \<le> 239 then False
      else a ! 0 \<noteq> 127)"

definition raw_socketBind :: "u8 list \<Rightarrow> nat \<Rightarrow> raw_socket \<Rightarrow> bool \<times> raw_socket" where
  "raw_socketBind addr port s =
     (if \<not> isValidLocalIp addr then (False, s)
      else (True, s\<lparr>local_ip := take 4 addr, local_port := port, raw_is_bound := True\<rparr>))"

text \<open>The announcement that \<^verbatim>\<open>OPTION_UDP_RAW_GRATUITOUS_ARP\<close> adds to it.\<close>

definition sendGratuitousArp :: "'w hal \<Rightarrow> raw_socket \<Rightarrow> 'w \<Rightarrow> raw_socket \<times> 'w" where
  "sendGratuitousArp h s w = raw_sendFrame h (eth_header broadcast_mac (local_mac s) ETHERTYPE_ARP
     @ arp_packet 1 (local_mac s) (local_ip s) (replicate 6 0) (local_ip s)) s w"

definition raw_socketSetTimeout :: "nat \<Rightarrow> raw_socket \<Rightarrow> raw_socket" where
  "raw_socketSetTimeout ms s = s\<lparr>recv_timeout_ms := ms\<rparr>"

definition raw_socketShutdown :: "'w hal \<Rightarrow> raw_socket \<Rightarrow> 'w \<Rightarrow> raw_socket \<times> 'w" where
  "raw_socketShutdown h s w = (s\<lparr>shutdown_requested := True\<rparr>, h_wakeup h w)"

definition raw_socketClose :: "'w hal \<Rightarrow> raw_socket \<Rightarrow> 'w \<Rightarrow> raw_socket \<times> 'w" where
  "raw_socketClose h s w =
     (if \<not> raw_is_open s then (s, w)
      else (s\<lparr>raw_is_open := False, hal_ctx := False\<rparr>, if hal_ctx s then h_close h w else w))"

end
