(* ===== verification/Raw_Send.thy ===== *)
theory Raw_Send
  imports Raw_Receive
begin

text \<open>
  The frames that the raw transport builds: their checksums verify, a receiver takes a datagram apart into what was
  sent, and the copying and the zero-copy way of sending put the same frame on the wire.
\<close>

section \<open>Headers\<close>

text \<open>Addresses have their lengths.\<close>

definition raw_ok :: "raw_socket \<Rightarrow> bool" where
  "raw_ok s \<longleftrightarrow> length (local_mac s) = 6 \<and> length (local_ip s) = 4 \<and> length (peer_mac s) = 6"

lemma ip_fields_length [simp]: "length src = 4 \<Longrightarrow> length dst = 4 \<Longrightarrow> length (ip_fields n i p c src dst) = 20"
  by (simp add: ip_fields_def)

lemma ip_header_length [simp]: "length src = 4 \<Longrightarrow> length dst = 4 \<Longrightarrow> length (ip_header n i p src dst) = 20"
  by (simp add: ip_header_def)

lemma udp_fields_length [simp]: "length (udp_fields a b n c) = 8"
  by (simp add: udp_fields_def)

lemma udp_header_length [simp]: "length (udp_header compute src dst a b p) = 8"
  by (simp add: udp_header_def Let_def)

lemma eth_header_length [simp]: "length d = 6 \<Longrightarrow> length m = 6 \<Longrightarrow> length (eth_header d m e) = 14"
  by (simp add: eth_header_def)

lemma ip_header_verifies:
  assumes "length src = 4" "length dst = 4"
  shows "checksum16 (ip_header n i p src dst) 0 = 0"
  unfolding ip_header_def ip_fields_def
  by (rule checksum_verifies [where c = "checksum16 (([0x45, 0] @ be_field n @ be_field i @ be_field 0x4000 @ [64, p])
        @ be_field 0 @ src @ dst) 0"]) (simp_all add: assms)

text \<open>The pseudo header that the UDP checksum covers besides the datagram.\<close>

definition pseudo_sum :: "u8 list \<Rightarrow> u8 list \<Rightarrow> nat \<Rightarrow> nat" where
  "pseudo_sum src dst n = (unat (src ! 0) * 256 + unat (src ! 1)) + (unat (src ! 2) * 256 + unat (src ! 3))
     + (unat (dst ! 0) * 256 + unat (dst ! 1)) + (unat (dst ! 2) * 256 + unat (dst ! 3)) + 17 + n"

lemma pseudo_sum_bound: "n < 65536 \<Longrightarrow> pseudo_sum src dst n < 2 ^ 20"
  using unat_u8_less [of "src ! 0"] unat_u8_less [of "src ! 1"] unat_u8_less [of "src ! 2"] unat_u8_less [of "src ! 3"]
    unat_u8_less [of "dst ! 0"] unat_u8_less [of "dst ! 1"] unat_u8_less [of "dst ! 2"] unat_u8_less [of "dst ! 3"]
  by (simp add: pseudo_sum_def)

lemma udp_header_verifies:
  assumes "length p \<le> 2000"
  shows "checksum16 (udp_header True src dst a b p @ p) (pseudo_sum src dst (8 + length p)) = 0"
proof -
  define c where "c = udpChecksum src dst (udp_fields a b (8 + length p) 0 @ p)"
  have len: "length (udp_fields a b (8 + length p) 0 @ p) = 8 + length p" by simp
  have "checksum16 ((be_field a @ be_field b @ be_field (8 + length p)) @ be_field c @ p) (pseudo_sum src dst (8 + length p)) = 0"
  proof (rule checksum_verifies)
    show "pseudo_sum src dst (8 + length p) < 2 ^ 20" using assms by (intro pseudo_sum_bound) simp
    show "c = checksum16 ((be_field a @ be_field b @ be_field (8 + length p)) @ be_field 0 @ p) (pseudo_sum src dst (8 + length p))
        \<or> c = 65535 \<and> checksum16 ((be_field a @ be_field b @ be_field (8 + length p)) @ be_field 0 @ p)
            (pseudo_sum src dst (8 + length p)) = 0"
      unfolding c_def udpChecksum_def len pseudo_sum_def [symmetric] Let_def unfolding udp_fields_def append_assoc by simp
  qed (use assms in simp_all)
  then show ?thesis by (simp add: udp_header_def udp_fields_def c_def Let_def)
qed

section \<open>Taking a frame apart\<close>

lemma mem_get_of: "mem_get 0 (length F) m = F \<Longrightarrow> a + n \<le> length F \<Longrightarrow> mem_get a n m = take n (drop a F)"
proof (rule nth_equalityI)
  assume F: "mem_get 0 (length F) m = F" "a + n \<le> length F"
  show "length (mem_get a n m) = length (take n (drop a F))" using F(2) by simp
  fix i
  assume i: "i < length (mem_get a n m)"
  have "mem_get 0 (length F) m ! (a + i) = m (a + i)" using F(2) i by (simp add: mem_get_def)
  then show "mem_get a n m ! i = take n (drop a F) ! i" using F i by (simp add: mem_get_def)
qed

lemma rd16_be:
  assumes "mem_get a 2 m = be_field v"
  shows "BE16 (rd16 m a) = v mod 65536"
  using assms by (intro be_field_read) (simp_all add: be_field_bytes mem_get_def upt_rec)

lemma byte_of: "mem_get a 1 m = [x] \<Longrightarrow> m a = x"
  by (simp add: mem_get_def)

text \<open>A buffer that holds a datagram built by the sender, by fields.\<close>

lemma frame_fields:
  assumes F: "mem_get 0 (length F) m = F"
    and F_def: "F = (eth_header d mac e @ ip_header n i 17 src dst @ udp_fields a b u c) @ p"
    and l: "length d = 6" "length mac = 6" "length src = 4" "length dst = 4"
  shows "mem_get 0 6 m = d" "mem_get 6 6 m = mac" "BE16 (rd16 m 12) = e mod 65536"
    "m 14 = 0x45" "BE16 (rd16 m 16) = n mod 65536" "BE16 (rd16 m 20) = 0x4000" "m 23 = 17"
    "mem_get 26 4 m = src" "mem_get 30 4 m = dst" "mem_get 14 20 m = ip_header n i 17 src dst"
    "BE16 (rd16 m 34) = a mod 65536" "BE16 (rd16 m 36) = b mod 65536" "BE16 (rd16 m 38) = u mod 65536"
    "mem_get 42 (length p) m = p"
proof -
  have len: "length F = 42 + length p" using l by (simp add: F_def)
  note g = mem_get_of [OF F]
  note defs = F_def eth_header_def ip_header_def ip_fields_def udp_fields_def l
  show "mem_get 0 6 m = d" by (subst g) (simp_all add: len, simp add: defs)
  show "mem_get 6 6 m = mac" by (subst g) (simp_all add: len, simp add: defs)
  show "mem_get 26 4 m = src" by (subst g) (simp_all add: len, simp add: defs)
  show "mem_get 30 4 m = dst" by (subst g) (simp_all add: len, simp add: defs)
  show "mem_get 14 20 m = ip_header n i 17 src dst" by (subst g) (simp_all add: len, simp add: F_def l)
  show "mem_get 42 (length p) m = p" by (subst g) (simp_all add: len, simp add: F_def l)
  show "BE16 (rd16 m 12) = e mod 65536" by (rule rd16_be, subst g) (simp_all add: len, simp add: defs)
  show "BE16 (rd16 m 16) = n mod 65536" by (rule rd16_be, subst g) (simp_all add: len, simp add: defs)
  have "BE16 (rd16 m 20) = 0x4000 mod 65536" by (rule rd16_be, subst g) (simp_all add: len, simp add: defs)
  then show "BE16 (rd16 m 20) = 0x4000" by simp
  show "BE16 (rd16 m 34) = a mod 65536" by (rule rd16_be, subst g) (simp_all add: len, simp add: defs)
  show "BE16 (rd16 m 36) = b mod 65536" by (rule rd16_be, subst g) (simp_all add: len, simp add: defs)
  show "BE16 (rd16 m 38) = u mod 65536" by (rule rd16_be, subst g) (simp_all add: len, simp add: defs)
  show "m 14 = 0x45" by (rule byte_of, subst g) (simp_all add: len, simp add: defs)
  show "m 23 = 17" by (rule byte_of, subst g) (simp_all add: len, simp add: defs)
qed

text \<open>A receiver that shares the sender's view of the addresses takes the payload out of the frame.\<close>

lemma receive_sent:
  assumes build: "buildFrameHeader compute a p (local_ip b) (local_port b) = (hdr, a')"
    and ok: "raw_ok a" "raw_ok b" and peer: "peer_mac a = local_mac b"
    and port: "local_port a < 65536" "local_port b < 65536"
    and size: "length p \<le> RAW_MAX_SEGMENT_SIZE" "length p \<le> n"
    and buf: "mem_get 0 (length (hdr @ p)) m = hdr @ p"
  shows "handleFrame h m (length (hdr @ p)) n b w =
     (Some (p, (local_ip a, local_port a)),
      if local_mac b = broadcast_mac then b else b\<lparr>peer_mac := local_mac a, peer_mac_valid := True\<rparr>, w)"
proof -
  note l = ok [unfolded raw_ok_def]
  define u where "u = (if compute then udpChecksum (local_ip a) (local_ip b)
     (udp_fields (local_port a) (local_port b) (8 + length p) 0 @ p) else 0)"
  have hdr: "hdr = eth_header (local_mac b) (local_mac a) ETHERTYPE_IPV4
      @ ip_header (28 + length p) (ip_ident a) 17 (local_ip a) (local_ip b)
      @ udp_fields (local_port a) (local_port b) (8 + length p) u"
    using build by (auto simp: buildFrameHeader_def udp_header_def Let_def peer u_def)
  have F: "hdr @ p = (eth_header (local_mac b) (local_mac a) ETHERTYPE_IPV4
      @ ip_header (28 + length p) (ip_ident a) 17 (local_ip a) (local_ip b)
      @ udp_fields (local_port a) (local_port b) (8 + length p) u) @ p"
    by (simp add: hdr)
  have len: "length (hdr @ p) = 42 + length p" using l by (simp add: hdr)
  have fld: "mem_get 0 6 m = local_mac b" "mem_get 6 6 m = local_mac a" "BE16 (rd16 m 12) = 2048"
    "m 14 = 0x45" "BE16 (rd16 m 16) = 28 + length p" "BE16 (rd16 m 20) = 0x4000" "m 23 = 17"
    "mem_get 26 4 m = local_ip a" "mem_get 30 4 m = local_ip b"
    "mem_get 14 20 m = ip_header (28 + length p) (ip_ident a) 17 (local_ip a) (local_ip b)"
    "BE16 (rd16 m 34) = local_port a" "BE16 (rd16 m 36) = local_port b" "BE16 (rd16 m 38) = 8 + length p"
    "mem_get 42 (length p) m = p"
    using frame_fields [OF buf F] l size(1) port by simp_all
  have ip: "ip_frame b m (length (hdr @ p))"
    using l size(1) unfolding ip_frame_def len by (simp add: fld ip_header_verifies)
  have udp: "udp_frame b m n" using size(2) by (simp add: udp_frame_def Let_def fld)
  have "datagram m = (p, (local_ip a, local_port a))" by (simp add: datagram_def Let_def fld)
  moreover have "learn_peer m b = (if local_mac b = broadcast_mac then b else b\<lparr>peer_mac := local_mac a, peer_mac_valid := True\<rparr>)"
    by (simp add: learn_peer_def fld)
  ultimately show ?thesis using ip udp by (simp add: handleFrame_eq fld)
qed

section \<open>Replies\<close>

text \<open>The reply to an ARP request for the local address: the pair of addresses, to the one who asked.\<close>

definition arp_reply :: "raw_socket \<Rightarrow> bytes \<Rightarrow> u8 list" where
  "arp_reply s f = eth_header (mem_get 22 6 f) (local_mac s) ETHERTYPE_ARP
     @ arp_packet 2 (local_mac s) (local_ip s) (mem_get 22 6 f) (mem_get 28 4 f)"

definition arp_request :: "raw_socket \<Rightarrow> bytes \<Rightarrow> nat \<Rightarrow> bool" where
  "arp_request s f len \<longleftrightarrow> ETH_HDR_LEN + ARP_LEN \<le> len \<and> BE16 (rd16 f 14) = 1 \<and> BE16 (rd16 f 16) = ETHERTYPE_IPV4
     \<and> f 18 = 6 \<and> f 19 = 4 \<and> BE16 (rd16 f 20) = 1 \<and> mem_get 38 4 f = local_ip s"

lemma handleArp_eq: "handleArp h f len s w = (if arp_request s f len then raw_sendFrame h (arp_reply s f) s w else (s, w))"
  by (auto simp: handleArp_def arp_request_def arp_reply_def)

text \<open>The echo: the data of the request under a new type and checksum.\<close>

definition echo_message :: "bytes \<Rightarrow> nat \<Rightarrow> nat \<Rightarrow> u8 list" where
  "echo_message f pos n = (let body = mem_get (pos + 4) (n - 4) f in
     [0, 0] @ be_field (checksum16 ([0, 0] @ be_field 0 @ body) 0) @ body)"

lemma echo_message_verifies: "n < 60000 \<Longrightarrow> checksum16 (echo_message f pos n) 0 = 0"
  unfolding echo_message_def Let_def by (rule checksum_verifies) simp_all

definition echo_request :: "bytes \<Rightarrow> nat \<Rightarrow> bool" where
  "echo_request f k \<longleftrightarrow> k + 4 \<le> BE16 (rd16 f 16) \<and> IP4_HDR_LEN + (BE16 (rd16 f 16) - k) \<le> RAW_MAX_FRAME - ETH_HDR_LEN
     \<and> f (14 + k) = 8 \<and> f (14 + k + 1) = 0"

definition echo_reply :: "raw_socket \<Rightarrow> bytes \<Rightarrow> nat \<Rightarrow> u8 list" where
  "echo_reply s f k = (let n = BE16 (rd16 f 16) - k in
     eth_header (mem_get 6 6 f) (local_mac s) ETHERTYPE_IPV4
     @ ip_header (IP4_HDR_LEN + n) (ip_ident s) 1 (local_ip s) (mem_get 26 4 f) @ echo_message f (14 + k) n)"

lemma handleIcmp_eq:
  "14 + BE16 (rd16 f 16) \<le> len \<Longrightarrow> handleIcmp h f len k s w =
     (if echo_request f k then raw_sendFrame h (echo_reply s f k) (s\<lparr>ip_ident := (ip_ident s + 1) mod 65536\<rparr>) w else (s, w))"
  by (auto simp: handleIcmp_def echo_request_def echo_reply_def echo_message_def Let_def)

lemma reply_lengths:
  assumes "raw_ok s"
  shows "length (arp_reply s f) = 42" and "echo_request f k \<Longrightarrow> length (echo_reply s f k) \<le> RAW_MAX_FRAME"
  using assms by (auto simp: arp_reply_def arp_packet_def echo_reply_def echo_message_def echo_request_def raw_ok_def Let_def)

text \<open>A frame's effects: an answered request, or a datagram for the caller.\<close>

lemma handleFrame_effects:
  assumes "handleFrame h f len n s w = (r, s', w')"
  shows "case r of
      Some d \<Rightarrow> ip_frame s f len \<and> udp_frame s f n \<and> d = datagram f \<and> s' = learn_peer f s \<and> w' = w
    | None \<Rightarrow> same_socket s s' \<and> (w' = w
        \<or> arp_request s f len \<and> w' = snd (h_send h (arp_reply s f) w)
        \<or> ip_frame s f len \<and> echo_request f (unat (f 14) mod 16 * 4)
           \<and> w' = snd (h_send h (echo_reply s f (unat (f 14) mod 16 * 4)) w))"
proof -
  have send: "w1 = snd (h_send h F w)" if "raw_sendFrame h F t w = (s1, w1)" for F t s1 w1
    using that by (auto simp: raw_sendFrame_def split: prod.splits)
  have arp: "same_socket s s1 \<and> (w1 = w \<or> arp_request s f len \<and> w1 = snd (h_send h (arp_reply s f) w))"
    if "handleArp h f len s w = (s1, w1)" for s1 w1
    using that handleArp_socket [OF that] by (auto simp: handleArp_eq split: if_splits dest: send)
  have icmp: "same_socket s s1 \<and> (w1 = w \<or> echo_request f k \<and> w1 = snd (h_send h (echo_reply s f k) w))"
    if "ip_frame s f len" "handleIcmp h f len k s w = (s1, w1)" for s1 w1 k
  proof -
    have "14 + BE16 (rd16 f 16) \<le> len" using that(1) by (simp add: ip_frame_def)
    then show ?thesis using that(2) handleIcmp_socket [OF that(2)] by (auto simp: handleIcmp_eq split: if_splits dest: send)
  qed
  show ?thesis
  proof (cases r)
    case None
    then consider (a) "handleArp h f len s w = (s', w')"
      | (i) "ip_frame s f len" "handleIcmp h f len (unat (f 14) mod 16 * 4) s w = (s', w')" | (n) "s' = s" "w' = w"
      using assms unfolding handleFrame_eq by (auto split: if_splits)
    then show ?thesis
    proof cases
      case a
      show ?thesis using arp [OF a] unfolding None option.case by blast
    next
      case i
      show ?thesis using icmp [OF i] i(1) unfolding None option.case by blast
    next
      case n
      then show ?thesis unfolding None option.case by simp
    qed
  next
    case (Some d)
    then show ?thesis using assms by (auto simp: handleFrame_eq split: if_splits)
  qed
qed

section \<open>The two ways of sending\<close>

text \<open>What \<open>checkSend\<close> lets through.\<close>

definition may_send :: "raw_socket \<Rightarrow> nat \<Rightarrow> bool" where
  "may_send s n \<longleftrightarrow> raw_is_open s \<and> 0 < n \<and> n \<le> RAW_MAX_SEGMENT_SIZE \<and> peer_mac_valid s"

lemma checkSend_None: "checkSend n s = (None, s') \<longleftrightarrow> may_send s n \<and> s' = s"
  by (auto simp: checkSend_def may_send_def)

lemma buildFrameHeader_length:
  "raw_ok s \<Longrightarrow> length addr = 4 \<Longrightarrow> length (fst (buildFrameHeader compute s p addr port)) = RAW_HDR_LEN"
  by (simp add: buildFrameHeader_def raw_ok_def)

lemma raw_socketSendTo_sends:
  assumes "may_send s (length p)" "buildFrameHeader compute s p addr port = (hdr, s1)" "h_send h (hdr @ p) w = (r, w1)"
  shows "raw_socketSendTo h compute p addr port s w =
     (if 0 \<le> r then (int (length p), s1, w1)
      else (- 1, s1\<lparr>last_error := if r = ETH_HAL_ERROR_SIZE then RAW_ERROR_MSGSIZE else RAW_ERROR_HAL\<rparr>, w1))"
proof -
  have "checkSend (length p) s = (None, s)" using assms(1) by (simp add: checkSend_None)
  then show ?thesis using assms(2,3) by (simp add: raw_socketSendTo_def mapSendResult_def)
qed

lemma raw_socketSendTo_case:
  assumes "may_send s (length p)" "buildFrameHeader compute s p addr port = (hdr, s1)"
  shows "raw_socketSendTo h compute p addr port s w = (case h_send h (hdr @ p) w of (r, w1) \<Rightarrow>
     if 0 \<le> r then (int (length p), s1, w1)
     else (- 1, s1\<lparr>last_error := if r = ETH_HAL_ERROR_SIZE then RAW_ERROR_MSGSIZE else RAW_ERROR_HAL\<rparr>, w1))"
proof -
  obtain r w1 where e: "h_send h (hdr @ p) w = (r, w1)" by (rule prod.exhaust)
  show ?thesis unfolding e prod.case by (rule raw_socketSendTo_sends [OF assms e])
qed

lemma raw_socketSendToReserved_eq:
  assumes ok: "raw_ok s" "length addr = 4" and pos: "RAW_HDR_LEN \<le> pos"
  shows "\<exists>m'. raw_socketSendToReserved h compute m pos n addr port s w =
       (case raw_socketSendTo h compute (mem_get pos n m) addr port s w of (r, s', w') \<Rightarrow> (r, m', s', w'))
     \<and> (\<forall>b. b < pos - RAW_HDR_LEN \<or> pos \<le> b \<longrightarrow> m' b = m b)"
proof (cases "checkSend n s")
  case (Pair e s1)
  show ?thesis
  proof (cases e)
    case (Some r)
    then show ?thesis using Pair by (intro exI [of _ m]) (simp add: raw_socketSendToReserved_def raw_socketSendTo_def)
  next
    case None
    then have s1: "s1 = s" using Pair by (simp add: checkSend_None)
    obtain hdr s2 where b: "buildFrameHeader compute s (mem_get pos n m) addr port = (hdr, s2)" by (rule prod.exhaust)
    then have len: "length hdr = 42" using buildFrameHeader_length [OF ok, of compute "mem_get pos n m" port] by simp
    define m' where "m' = mem_set (pos - 42) hdr m"
    have "mem_get (pos - 42) (42 + n) m' = mem_get (pos - 42) 42 m' @ mem_get pos n m'"
      using mem_get_split [of "pos - 42" 42 n m'] pos by simp
    moreover have "mem_get (pos - 42) 42 m' = hdr" using mem_get_set_same [of "pos - 42" hdr m] len by (simp add: m'_def)
    moreover have "mem_get pos n m' = mem_get pos n m" using pos len unfolding m'_def by (intro mem_get_set_other) simp
    ultimately have f: "mem_get (pos - 42) (42 + n) m' = hdr @ mem_get pos n m" by simp
    have "raw_socketSendToReserved h compute m pos n addr port s w =
       (case raw_socketSendTo h compute (mem_get pos n m) addr port s w of (r, s', w') \<Rightarrow> (r, m', s', w'))"
      using Pair None s1 b f
      by (simp add: raw_socketSendToReserved_def raw_socketSendTo_def Let_def m'_def split: prod.splits)
    moreover have "\<forall>b. b < pos - 42 \<or> pos \<le> b \<longrightarrow> m' b = m b"
      using pos len by (auto simp: m'_def intro!: mem_set_outside)
    ultimately show ?thesis by blast
  qed
qed

end
