(* ===== verification/Raw_Loop.thy ===== *)
theory Raw_Loop
  imports Raw_Receive
begin

text \<open>
  The loop of \<^verbatim>\<open>socketRecvFrom\<close> of the raw transport: it takes every frame on the wire and returns only with a
  datagram for the socket, an error or the timeout. Its waits are cut at the deadline, but never below one millisecond.
\<close>

text \<open>The driver and the clock in time, up to \<open>dl\<close>. \<open>clk\<close> reads the time off the world; time passes in the driver only. A
  receive blocks for at most its timeout, and it returns without a frame when the timeout has expired - or earlier, when the driver
  suppressed a frame or was woken up. \<open>arrivals\<close> bounds the frames and wake-ups that can still come before \<open>dl\<close>: the
  link carries finitely many. Nothing is assumed of the duration of a send.\<close>

definition hal_contract :: "'w hal \<Rightarrow> ('w \<Rightarrow> nat) \<Rightarrow> ('w \<Rightarrow> nat) \<Rightarrow> nat \<Rightarrow> bool" where
  "hal_contract h clk arrivals dl \<longleftrightarrow>
     (\<forall>w. fst (h_clock h w) = clk w \<and> clk (snd (h_clock h w)) = clk w \<and> arrivals (snd (h_clock h w)) = arrivals w)
   \<and> (\<forall>n t w r w'. 0 < t \<and> clk w < dl \<and> h_recv h n t w = (r, w') \<longrightarrow> clk w \<le> clk w' \<and> clk w' \<le> clk w + t * 1000000
        \<and> arrivals w' \<le> arrivals w
        \<and> (\<forall>f. r = Inr f \<longrightarrow> arrivals w' < arrivals w \<or> f = [] \<and> clk w' = clk w + t * 1000000))
   \<and> (\<forall>f w. clk w \<le> clk (snd (h_send h f w)) \<and> arrivals (snd (h_send h f w)) \<le> arrivals w)"

lemma hal_clock:
  assumes "hal_contract h clk arrivals dl" "h_clock h w = (now, w1)"
  shows "now = clk w \<and> clk w1 = clk w \<and> arrivals w1 = arrivals w"
proof -
  have "fst (h_clock h w) = clk w \<and> clk (snd (h_clock h w)) = clk w \<and> arrivals (snd (h_clock h w)) = arrivals w"
    using assms(1) by (simp add: hal_contract_def)
  then show ?thesis by (simp add: assms(2))
qed

lemma hal_recv:
  assumes "hal_contract h clk arrivals dl" "h_recv h n t w = (r, w')" "0 < t" "clk w < dl"
  shows "clk w \<le> clk w' \<and> clk w' \<le> clk w + t * 1000000 \<and> arrivals w' \<le> arrivals w"
    and "r = Inr f \<Longrightarrow> arrivals w' < arrivals w \<or> f = [] \<and> clk w' = clk w + t * 1000000"
  using assms unfolding hal_contract_def by blast+

lemma hal_send: "hal_contract h clk arrivals dl \<Longrightarrow> clk w \<le> clk (snd (h_send h f w)) \<and> arrivals (snd (h_send h f w)) \<le> arrivals w"
  by (simp add: hal_contract_def)

text \<open>A frame is handled at once, or one reply is sent.\<close>

lemma handleFrame_world:
  assumes "handleFrame h f len n s w = (r, s', w')" shows "w' = w \<or> (\<exists>F. w' = snd (h_send h F w))"
proof -
  have send: "w1 = snd (h_send h F w)" if "raw_sendFrame h F t w = (s1, w1)" for F t s1 w1
    using that by (auto simp: raw_sendFrame_def split: prod.splits)
  have arp: "w1 = w \<or> (\<exists>F. w1 = snd (h_send h F w))" if "handleArp h f len s w = (s1, w1)" for s1 w1
    using that by (auto simp: handleArp_def split: if_splits dest!: send)
  have icmp: "w1 = w \<or> (\<exists>F. w1 = snd (h_send h F w))" if "handleIcmp h f len k s w = (s1, w1)" for s1 w1 k
    using that by (auto simp: handleIcmp_def Let_def split: if_splits dest!: send)
  show ?thesis using assms by (auto simp: handleFrame_eq split: if_splits dest!: arp icmp)
qed

text \<open>What the loop returns.\<close>

definition raw_outcome :: "nat \<Rightarrow> nat \<Rightarrow> (u8 list \<times> peer) received \<Rightarrow> raw_socket \<Rightarrow> nat \<Rightarrow> bool" where
  "raw_outcome n deadline r s now = (case r of
       Received d \<Rightarrow> fst d \<noteq> [] \<and> (\<exists>s1 len. ip_frame s1 (rx_buf s1) len \<and> udp_frame s1 (rx_buf s1) n
                        \<and> datagram (rx_buf s1) = d \<and> s = learn_peer (rx_buf s1) s1)
     | NoData \<Rightarrow> deadline \<le> now \<and> last_error s = RAW_ERROR_TIMEDOUT
     | RecvError e \<Rightarrow> last_error s = e \<and> (e = RAW_ERROR_HAL \<or> e = RAW_ERROR_BADF \<and> (shutdown_requested s \<or> \<not> raw_is_open s)))"

text \<open>One cycle of the loop with a deadline.\<close>

lemma slice_bound: "now < d \<Longrightarrow> now + max 1 (min ((d - now) div 1000000) 100) * 1000000 \<le> d + 1000000" for now d :: nat
proof -
  assume a: "now < d"
  have "(d - now) div 1000000 * 1000000 \<le> d - now" by simp
  moreover have "max 1 (min x 100) * 1000000 \<le> max 1000000 (x * 1000000)" for x :: nat by simp
  ultimately have "max 1 (min ((d - now) div 1000000) 100) * 1000000 \<le> max 1000000 (d - now)"
    by (meson le_max_iff_disj max.mono order_refl order_trans)
  then show ?thesis using a by linarith
qed

lemma handleFrame_accepts:
  assumes "handleFrame h f len n s w = (Some d, s', w')"
  shows "ip_frame s f len \<and> udp_frame s f n \<and> datagram f = d \<and> s' = learn_peer f s \<and> w' = w"
  using assms by (auto simp: handleFrame_eq split: if_splits)

text \<open>The call is at \<open>w\<close> by the time \<open>t\<close>, or right behind a send that began by then; at its end it may have read the clock
  once more.\<close>

definition in_time :: "'w hal \<Rightarrow> ('w \<Rightarrow> nat) \<Rightarrow> nat \<Rightarrow> 'w \<Rightarrow> bool" where
  "in_time h clk t w \<longleftrightarrow> clk w \<le> t \<or> (\<exists>F v. clk v \<le> t \<and> w = snd (h_send h F v))"

definition ends_in_time :: "'w hal \<Rightarrow> ('w \<Rightarrow> nat) \<Rightarrow> nat \<Rightarrow> 'w \<Rightarrow> bool" where
  "ends_in_time h clk t w \<longleftrightarrow> clk w \<le> t
     \<or> (\<exists>F v. clk v \<le> t \<and> (w = snd (h_send h F v) \<or> w = snd (h_clock h (snd (h_send h F v)))))"

lemma in_time_ends: "in_time h clk t w \<Longrightarrow> ends_in_time h clk t w"
  by (auto simp: in_time_def ends_in_time_def)

lemma in_time_clock:
  assumes "hal_contract h clk arrivals dl" "in_time h clk t w" shows "ends_in_time h clk t (snd (h_clock h w))"
  using assms hal_clock [OF assms(1) prod.collapse [symmetric], of w] by (auto simp: in_time_def ends_in_time_def)

lemma raw_recv_loop_returns:
  assumes h: "hal_contract h clk arrivals dl"
  shows "in_time h clk (dl + 1000000) w \<Longrightarrow> \<exists>r s' w'. raw_recv_loop h others i n (Some dl) s w = Some (r, s', w')
     \<and> ends_in_time h clk (dl + 1000000) w' \<and> (\<forall>p. r = Received p \<longrightarrow> clk w' \<le> dl + 1000000)
     \<and> raw_outcome n dl r s' (clk w')"
proof (induction "(arrivals w, dl - clk w)" arbitrary: i s w rule: wf_induct_rule [OF wf_lex_prod [OF wf_less_than wf_less_than]])
  case less: 1
  define s1 where "s1 = others i s"
  obtain now w1 where c: "h_clock h w = (now, w1)" by (rule prod.exhaust)
  then have now: "now = clk w" "clk w1 = clk w" "arrivals w1 = arrivals w" using hal_clock [OF h] by auto
  define slice where "slice = max 1 (min ((dl - clk w) div 1000000) 100)"
  obtain rv w2 where rv: "h_recv h RAW_MAX_FRAME slice w1 = (rv, w2)" by (rule prod.exhaust)
  consider (shut) "shutdown_requested s1 \<or> \<not> raw_is_open s1" | (over) "\<not> (shutdown_requested s1 \<or> \<not> raw_is_open s1)" "dl \<le> clk w"
    | (go) "\<not> (shutdown_requested s1 \<or> \<not> raw_is_open s1)" "clk w < dl" by linarith
  then show ?case
  proof cases
    case shut
    then have "raw_recv_loop h others i n (Some dl) s w = Some (RecvError RAW_ERROR_BADF, s1\<lparr>last_error := RAW_ERROR_BADF\<rparr>, w)"
      by (subst raw_recv_loop.simps) (simp add: s1_def Let_def)
    then show ?thesis using in_time_ends [OF less.prems] shut by (auto simp: raw_outcome_def)
  next
    case over
    then have "raw_recv_loop h others i n (Some dl) s w = Some (NoData, s1\<lparr>last_error := RAW_ERROR_TIMEDOUT\<rparr>, w1)"
      using now by (subst raw_recv_loop.simps) (auto simp: s1_def Let_def c)
    moreover have "ends_in_time h clk (dl + 1000000) w1" using in_time_clock [OF h less.prems] by (simp add: c)
    ultimately show ?thesis using over now by (auto simp: raw_outcome_def)
  next
    case go
    have slice: "0 < slice" by (simp add: slice_def)
    have c1: "clk w1 < dl" using go(2) now(2) by simp
    note rc = hal_recv [OF h rv slice c1]
    have t: "clk w \<le> clk w2" "clk w2 \<le> dl + 1000000" "arrivals w2 \<le> arrivals w"
      using rc(1) now slice_bound [OF go(2)] by (auto simp: slice_def)
    have IH: "\<exists>r s' w'. raw_recv_loop h others (i + 1) n (Some dl) s2 w3 = Some (r, s', w')
        \<and> ends_in_time h clk (dl + 1000000) w' \<and> (\<forall>p. r = Received p \<longrightarrow> clk w' \<le> dl + 1000000)
        \<and> raw_outcome n dl r s' (clk w')"
      if "arrivals w3 < arrivals w \<or> arrivals w3 \<le> arrivals w \<and> clk w < clk w3" "in_time h clk (dl + 1000000) w3" for s2 w3
    proof (rule less.hyps [OF _ that(2)])
      show "((arrivals w3, dl - clk w3), (arrivals w, dl - clk w)) \<in> less_than <*lex*> less_than"
        using that(1) go(2) by auto
    qed
    have step: "raw_recv_loop h others i n (Some dl) s w = (case rv of
        Inl e \<Rightarrow> Some (RecvError RAW_ERROR_HAL, s1\<lparr>last_error := RAW_ERROR_HAL\<rparr>, w2)
      | Inr f \<Rightarrow> if f = [] then raw_recv_loop h others (i + 1) n (Some dl) s1 w2
          else let s2 = s1\<lparr>rx_buf := mem_set 0 f (rx_buf s1)\<rparr> in
            case handleFrame h (rx_buf s2) (length f) n s2 w2 of
              (Some (p, src), s3, w3) \<Rightarrow>
                if p \<noteq> [] then Some (Received (p, src), s3, w3) else raw_recv_loop h others (i + 1) n (Some dl) s3 w3
            | (None, s3, w3) \<Rightarrow> raw_recv_loop h others (i + 1) n (Some dl) s3 w3)"
      using go now rv
      by (subst raw_recv_loop.simps) (simp add: s1_def [symmetric] Let_def c slice_def split: sum.split)
    have t2: "in_time h clk (dl + 1000000) w2" using t by (simp add: in_time_def)
    show ?thesis
    proof (cases rv)
      case (Inl e)
      then show ?thesis using step in_time_ends [OF t2] by (auto simp: raw_outcome_def)
    next
      case (Inr f)
      define s2 where "s2 = s1\<lparr>rx_buf := mem_set 0 f (rx_buf s1)\<rparr>"
      obtain o3 s3 w3 where hf: "handleFrame h (rx_buf s2) (length f) n s2 w2 = (o3, s3, w3)" by (rule prod_cases3)
      have w3: "in_time h clk (dl + 1000000) w3" "arrivals w3 \<le> arrivals w2"
        using handleFrame_world [OF hf] hal_send [OF h, of w2] t t2 by (auto simp: in_time_def)
      have fewer: "arrivals w2 < arrivals w" if "f \<noteq> []" using rc(2) [OF Inr] that now by simp
      show ?thesis
      proof (cases "f = [] \<or> o3 = None \<or> fst (the o3) = []")
        case True
        have "raw_recv_loop h others i n (Some dl) s w = (if f = [] then raw_recv_loop h others (i + 1) n (Some dl) s1 w2
           else raw_recv_loop h others (i + 1) n (Some dl) s3 w3)"
          using True unfolding step Inr Let_def sum.case s2_def [symmetric] hf by (auto split: option.splits)
        moreover have "arrivals w2 < arrivals w \<or> arrivals w2 \<le> arrivals w \<and> clk w < clk w2" if "f = []"
          using rc(2) [OF Inr] t slice now that by auto
        moreover have "arrivals w3 < arrivals w" if "f \<noteq> []" using w3(2) fewer [OF that] by linarith
        ultimately show ?thesis using IH [OF _ t2, of s1] IH [OF _ w3(1), of s3] by (cases "f = []") simp_all
      next
        case False
        then obtain p src where o3: "o3 = Some (p, src)" and p: "p \<noteq> []" by auto
        have "raw_recv_loop h others i n (Some dl) s w = Some (Received (p, src), s3, w3)"
          using False o3 p unfolding step Inr Let_def sum.case s2_def [symmetric] hf by simp
        moreover have "raw_outcome n dl (Received (p, src)) s3 (clk w3)"
          using handleFrame_accepts [OF hf [unfolded o3]] p
          by (auto simp: raw_outcome_def intro!: exI [of _ s2] exI [of _ "length f"])
        moreover have "w3 = w2" using handleFrame_accepts [OF hf [unfolded o3]] by simp
        ultimately show ?thesis using t(2) in_time_ends [OF t2] by blast
      qed
    qed
  qed
qed

end
