(* ===== verification/Props_Raw.thy ===== *)
theory Props_Raw
  imports Raw_Send Raw_Loop
begin

text \<open>
  Properties of the raw Ethernet transport (\<^verbatim>\<open>src/src/socket_raw.c\<close>). The examples use a driver whose world
  holds the time, the frames to come and the frames sent, and two stations that know each other.
\<close>

section \<open>A driver and two stations\<close>

definition wire_hal :: "(nat \<times> u8 list list \<times> u8 list list) hal" where
  "wire_hal = \<lparr>h_open = (\<lambda>_ w. (True, w)), h_close = (\<lambda>w. w), h_get_mac = (\<lambda>w. (Some [2, 0, 0, 0, 0, 1], w)),
     h_send = (\<lambda>f (t, ins, out). (int (length f), (t, ins, out @ [f]))),
     h_recv = (\<lambda>_ ms (t, ins, out). case ins of
        [] \<Rightarrow> (Inr [], (t + ms * 1000000, [], out)) | f # fs \<Rightarrow> (Inr f, (t + 1, fs, out))),
     h_wakeup = (\<lambda>w. w), h_clock = (\<lambda>(t, io). (t, (t, io)))\<rparr>"

lemma wire_hal_contract: "hal_contract wire_hal fst (\<lambda>(t, ins, out). length ins) dl"
  by (auto simp: hal_contract_def wire_hal_def split: prod.splits list.splits)

definition station :: "u8 \<Rightarrow> u8 \<Rightarrow> raw_socket" where
  "station x y = \<lparr>hal_ctx = True, local_mac = [2, 0, 0, 0, 0, x], local_ip = [192, 168, 0, x], local_port = 5555,
     peer_mac = [2, 0, 0, 0, 0, y], peer_mac_valid = True, ip_ident = 7, recv_timeout_ms = 50, shutdown_requested = False,
     raw_is_open = True, raw_is_bound = True, last_error = 0, rx_buf = (\<lambda>_. 0), interface_config = None\<rparr>"

text \<open>What station 1 sends to station 2, and an echo request from 1 to 2.\<close>

definition sent_frame :: "u8 list \<Rightarrow> u8 list" where
  "sent_frame p = fst (buildFrameHeader True (station 1 2) p [192, 168, 0, 2] 5555) @ p"

definition ping_frame :: "u8 list" where
  "ping_frame = [2, 0, 0, 0, 0, 2, 2, 0, 0, 0, 0, 1, 8, 0, 69, 0, 0, 28, 0, 9, 64, 0, 64, 1, 0xB9, 0x84, 192, 168, 0, 1,
     192, 168, 0, 2, 8, 0, 0xF7, 0xFD, 0, 1, 0, 1]"

definition frame_buffer :: "u8 list \<Rightarrow> bytes" where
  "frame_buffer f = mem_set 0 f (\<lambda>_. 0)"

lemma frame_buffer_get [simp]: "mem_get 0 (length f) (frame_buffer f) = f"
  by (simp add: frame_buffer_def mem_get_set_same)

section \<open>Datagrams\<close>

text \<open>C13. A datagram goes through: when a station may send, it hands one frame to the driver, with the payload behind
  42 bytes of headers, and a station with the destination's addresses that receives the frame, whatever lies behind it
  in the receive buffer, gets the payload and the sender's address and port, and has learned the sender's hardware
  address, so that it can answer.\<close>

theorem raw_datagram_received:
  assumes "raw_ok a" "raw_ok b" "may_send a (length p)" "peer_mac a = local_mac b" "local_mac b \<noteq> broadcast_mac"
    and "local_port a < 65536" "local_port b < 65536" "length p \<le> n"
  shows "\<exists>hdr a'. length hdr = RAW_HDR_LEN \<and> raw_socketSendTo h compute p (local_ip b) (local_port b) a w =
       (case h_send h (hdr @ p) w of (r, w1) \<Rightarrow> if 0 \<le> r then (int (length p), a', w1)
          else (- 1, a'\<lparr>last_error := if r = ETH_HAL_ERROR_SIZE then RAW_ERROR_MSGSIZE else RAW_ERROR_HAL\<rparr>, w1))
     \<and> (\<forall>m v. mem_get 0 (RAW_HDR_LEN + length p) m = hdr @ p \<longrightarrow>
          handleFrame h' m (RAW_HDR_LEN + length p) n b v =
            (Some (p, (local_ip a, local_port a)), b\<lparr>peer_mac := local_mac a, peer_mac_valid := True\<rparr>, v))"
proof -
  obtain hdr a' where b: "buildFrameHeader compute a p (local_ip b) (local_port b) = (hdr, a')" by (rule prod.exhaust)
  have len: "length hdr = 42"
    using buildFrameHeader_length [OF assms(1), of "local_ip b" compute p "local_port b"] assms(2) b by (simp add: raw_ok_def)
  have size: "length p \<le> 1392" using assms(3) by (simp add: may_send_def)
  have "handleFrame h' m (42 + length p) n b v =
     (Some (p, (local_ip a, local_port a)), b\<lparr>peer_mac := local_mac a, peer_mac_valid := True\<rparr>, v)"
    if "mem_get 0 (42 + length p) m = hdr @ p" for m v
    using receive_sent [OF b assms(1,2,4,6,7) size assms(8), of m h' v] that len assms(5) by simp
  then show ?thesis
    by (intro exI [of _ hdr] exI [of _ a'] conjI allI impI) (simp only: len, rule raw_socketSendTo_case [OF assms(3) b], simp)
qed

lemma station_simps [simp]: "raw_ok (station x y)" "may_send (station x y) n = (0 < n \<and> n \<le> 1392)"
  "local_ip (station x y) = [192, 168, 0, x]" "local_mac (station x y) = [2, 0, 0, 0, 0, x]"
  "peer_mac (station x y) = [2, 0, 0, 0, 0, y]" "local_port (station x y) = 5555"
  by (auto simp: raw_ok_def station_def may_send_def)

lemma raw_datagram_received_witness:
  "\<exists>hdr a' m. mem_get 0 44 m = hdr @ [1, 2]
     \<and> handleFrame wire_hal m 44 248 (station 2 9) (0, [], []) =
         (Some ([1, 2], ([192, 168, 0, 1], 5555)), (station 2 9)\<lparr>peer_mac := [2, 0, 0, 0, 0, 1], peer_mac_valid := True\<rparr>, (0, [], []))
     \<and> raw_socketSendTo wire_hal True [1, 2] [192, 168, 0, 2] 5555 (station 1 2) (0, [], [])
         = (2, a', (0, [], [hdr @ [1, 2]]))"
proof -
  define p :: "u8 list" where "p = [1, 2]"
  have mac: "[2, 0, 0, 0, 0, 2] \<noteq> broadcast_mac" by code_simp
  have "may_send (station 1 2) (length p)" by (simp add: p_def)
  then obtain hdr a' where hdr: "length hdr = 42"
    and s: "raw_socketSendTo wire_hal True p (local_ip (station 2 9)) (local_port (station 2 9)) (station 1 2) (0, [], []) =
       (case h_send wire_hal (hdr @ p) (0, [], []) of (r, w1) \<Rightarrow> if 0 \<le> r then (int (length p), a', w1)
          else (- 1, a'\<lparr>last_error := if r = ETH_HAL_ERROR_SIZE then RAW_ERROR_MSGSIZE else RAW_ERROR_HAL\<rparr>, w1))"
    and r: "\<And>m v. mem_get 0 (42 + length p) m = hdr @ p \<Longrightarrow>
          handleFrame wire_hal m (42 + length p) 248 (station 2 9) v =
            (Some (p, (local_ip (station 1 2), local_port (station 1 2))),
             (station 2 9)\<lparr>peer_mac := local_mac (station 1 2), peer_mac_valid := True\<rparr>, v)"
    using raw_datagram_received [of "station 1 2" "station 2 9" p 248 wire_hal True "(0, [], [])" wire_hal] mac
    by (auto simp: p_def)
  have m: "mem_get 0 44 (frame_buffer (hdr @ [1, 2])) = hdr @ [1, 2]"
    using frame_buffer_get [of "hdr @ [1, 2]"] hdr by simp
  show ?thesis
    using s r m
    by (intro exI [of _ hdr] exI [of _ a'] exI [of _ "frame_buffer (hdr @ [1, 2])"]) (simp add: wire_hal_def p_def)
qed

section \<open>Frames of others\<close>

text \<open>C14. The receive path stays inside the frame: two receive buffers that agree on the bytes of the frame have the same
  effect, whatever the frame says its lengths are, and an accepted payload is a slice of the frame behind the headers
  that fits the caller's buffer.\<close>

theorem raw_frame_contained:
  assumes "same_frame len f g"
  shows "handleFrame h f len n s w = handleFrame h g len n s w
     \<and> (case fst (handleFrame h f len n s w) of None \<Rightarrow> True
        | Some (p, src) \<Rightarrow> length p \<le> n \<and> (\<exists>pos. RAW_HDR_LEN \<le> pos \<and> pos + length p \<le> len \<and> p = mem_get pos (length p) f))"
proof
  show "handleFrame h f len n s w = handleFrame h g len n s w" by (rule handleFrame_same [OF assms])
  obtain r s' w' where e: "handleFrame h f len n s w = (r, s', w')" by (rule prod_cases3)
  show "case fst (handleFrame h f len n s w) of None \<Rightarrow> True
      | Some (p, src) \<Rightarrow> length p \<le> n \<and> (\<exists>pos. RAW_HDR_LEN \<le> pos \<and> pos + length p \<le> len \<and> p = mem_get pos (length p) f)"
  proof (cases r)
    case (Some d)
    obtain p src where d: "d = (p, src)" by (rule prod.exhaust)
    have a: "ip_frame s f len" "udp_frame s f n" "datagram f = (p, src)"
      using handleFrame_accepts [OF e [unfolded Some]] d by auto
    show ?thesis using datagram_slice [OF a(1,2)] unfolding a(3) e Some d by auto
  qed (simp add: e)
qed

lemma raw_frame_contained_witness:
  "same_frame 44 (frame_buffer (sent_frame [1, 2])) (frame_buffer (sent_frame [1, 2] @ [99]))
     \<and> handleFrame wire_hal (frame_buffer (sent_frame [1, 2])) 44 248 (station 2 9) (0, [], [])
       = handleFrame wire_hal (frame_buffer (sent_frame [1, 2] @ [99])) 44 248 (station 2 9) (0, [], [])"
proof -
  have "length (sent_frame [1, 2]) = 44"
    using buildFrameHeader_length [of "station 1 2" "[192, 168, 0, 2]" True "[1, 2]" 5555] by (simp add: sent_frame_def)
  then have a: "same_frame 44 (frame_buffer (sent_frame [1, 2])) (frame_buffer (sent_frame [1, 2] @ [99]))"
    by (simp add: same_frame_def frame_buffer_def mem_set_def nth_append)
  show ?thesis using raw_frame_contained [OF a, of wire_hal 248 "station 2 9" "(0, [], [])"] a by blast
qed

text \<open>C15. What a frame can do: an accepted datagram goes to the caller and only its unicast sender becomes the peer; any
  other frame leaves addresses, peer, port and state as they are, and causes at most one frame to be sent, the reply to an
  ARP request for the local address or to an echo request, which fits the reply buffer.\<close>

theorem raw_frame_effects:
  assumes "raw_ok s" "handleFrame h f len n s w = (r, s', w')"
  shows "case r of
      Some d \<Rightarrow> ip_frame s f len \<and> udp_frame s f n \<and> d = datagram f \<and> w' = w
        \<and> s' = (if mem_get 0 6 f = broadcast_mac then s else s\<lparr>peer_mac := mem_get 6 6 f, peer_mac_valid := True\<rparr>)
    | None \<Rightarrow> same_socket s s' \<and> (w' = w
        \<or> (\<exists>F. length F \<le> RAW_MAX_FRAME \<and> w' = snd (h_send h F w)
            \<and> (arp_request s f len \<and> F = arp_reply s f
               \<or> ip_frame s f len \<and> echo_request f (unat (f 14) mod 16 * 4) \<and> F = echo_reply s f (unat (f 14) mod 16 * 4))))"
proof -
  note e = handleFrame_effects [OF assms(2)]
  note l = reply_lengths [OF assms(1)]
  show ?thesis
  proof (cases r)
    case None
    note e1 = e [unfolded None option.case]
    note a = e1 [THEN conjunct1]
    from e1 [THEN conjunct2] show ?thesis
    proof (elim disjE conjE)
      assume "arp_request s f len" "w' = snd (h_send h (arp_reply s f) w)"
      then show ?thesis unfolding None option.case using a l(1) [of f]
        by (intro conjI [OF a] disjI2 exI [of _ "arp_reply s f"] conjI [of _ "_ \<and> _"] disjI1) simp_all
    next
      assume "ip_frame s f len" "echo_request f (unat (f 14) mod 16 * 4)"
        "w' = snd (h_send h (echo_reply s f (unat (f 14) mod 16 * 4)) w)"
      then show ?thesis unfolding None option.case using a l(2)
        by (intro conjI disjI2 exI [of _ "echo_reply s f (unat (f 14) mod 16 * 4)"]) simp_all
    qed (simp add: None a)
  qed (use e in \<open>auto simp: learn_peer_def\<close>)
qed

lemma ping_frame_length [simp]: "length ping_frame = 42"
  by (simp add: ping_frame_def)

lemma ping_frame_at: "k < 42 \<Longrightarrow> frame_buffer ping_frame k = ping_frame ! k"
  by (simp add: frame_buffer_def mem_set_def)

lemma ping_frame_get: "a + n \<le> 42 \<Longrightarrow> mem_get a n (frame_buffer ping_frame) = take n (drop a ping_frame)"
  using mem_get_of [OF frame_buffer_get [of ping_frame]] by simp

lemma ping_frame_request:
  "ip_frame (station 2 1) (frame_buffer ping_frame) 42" "echo_request (frame_buffer ping_frame) 20"
  "frame_buffer ping_frame 23 = 1" "frame_buffer ping_frame 14 = 69" "rd16 (frame_buffer ping_frame) 12 = 8"
proof -
  have ihl: "ping_frame ! 14 = 69" by (simp add: ping_frame_def)
  have "checksum16 (take 20 (drop 14 ping_frame)) 0 = 0"
    by (simp add: ping_frame_def checksum16_def fold16.simps)
  then show "ip_frame (station 2 1) (frame_buffer ping_frame) 42"
    by (simp add: ip_frame_def ping_frame_get ping_frame_at rd16_def BE16_def ihl) (simp add: ping_frame_def)
  show "echo_request (frame_buffer ping_frame) 20"
    by (simp add: echo_request_def ping_frame_at rd16_def BE16_def) (simp add: ping_frame_def)
qed (simp_all add: rd16_def ping_frame_at, simp_all add: ping_frame_def)

lemma ping_frame_answered:
  "\<exists>F s'. handleFrame wire_hal (frame_buffer ping_frame) 42 248 (station 2 1) (0, [], []) = (None, s', (0, [], [F]))"
  using ping_frame_request
  by (simp add: handleFrame_eq handleIcmp_eq raw_sendFrame_def wire_hal_def ip_frame_def BE16_def)

lemma raw_frame_effects_witness:
  "\<exists>s' F. handleFrame wire_hal (frame_buffer ping_frame) 42 248 (station 2 1) (0, [], []) = (None, s', (0, [], [F]))
     \<and> same_socket (station 2 1) s' \<and> length F \<le> RAW_MAX_FRAME"
proof -
  obtain F s' where e: "handleFrame wire_hal (frame_buffer ping_frame) 42 248 (station 2 1) (0, [], []) = (None, s', (0, [], [F]))"
    using ping_frame_answered by blast
  have w: "snd (h_send wire_hal G (0, [], [])) = (0, [], [G])" for G by (simp add: wire_hal_def)
  show ?thesis using raw_frame_effects [OF station_simps(1) e] e by (auto simp: w)
qed

text \<open>C32. Requests are answered: an ARP request for the local address gets the local hardware address, sent to who asked;
  an echo request of any header length gets its data back under fresh headers whose checksums verify.\<close>

theorem raw_requests_answered:
  assumes "raw_ok s"
  shows "(BE16 (rd16 f 12) = ETHERTYPE_ARP \<and> arp_request s f len \<longrightarrow>
       handleFrame h f len n s w = (case raw_sendFrame h (eth_header (mem_get 22 6 f) (local_mac s) ETHERTYPE_ARP
           @ arp_packet 2 (local_mac s) (local_ip s) (mem_get 22 6 f) (mem_get 28 4 f)) s w of (s1, w1) \<Rightarrow> (None, s1, w1)))
    \<and> (ip_frame s f len \<and> f 23 = 1 \<and> k = unat (f 14) mod 16 * 4 \<and> echo_request f k \<longrightarrow>
       (\<exists>I M. handleFrame h f len n s w = (case raw_sendFrame h (eth_header (mem_get 6 6 f) (local_mac s) ETHERTYPE_IPV4 @ I @ M)
              (s\<lparr>ip_ident := (ip_ident s + 1) mod 65536\<rparr>) w of (s1, w1) \<Rightarrow> (None, s1, w1))
          \<and> length I = 20 \<and> checksum16 I 0 = 0 \<and> drop 12 I = local_ip s @ mem_get 26 4 f
          \<and> length M = BE16 (rd16 f 16) - k \<and> checksum16 M 0 = 0 \<and> take 2 M = [0, 0]
          \<and> drop 4 M = mem_get (14 + k + 4) (length M - 4) f))"
proof (intro conjI impI)
  assume a: "BE16 (rd16 f 12) = ETHERTYPE_ARP \<and> arp_request s f len"
  then have "14 \<le> len" by (simp add: arp_request_def)
  with a show "handleFrame h f len n s w = (case raw_sendFrame h (eth_header (mem_get 22 6 f) (local_mac s) ETHERTYPE_ARP
      @ arp_packet 2 (local_mac s) (local_ip s) (mem_get 22 6 f) (mem_get 28 4 f)) s w of (s1, w1) \<Rightarrow> (None, s1, w1))"
    by (simp add: handleFrame_eq handleArp_eq arp_reply_def)
next
  assume a: "ip_frame s f len \<and> f 23 = 1 \<and> k = unat (f 14) mod 16 * 4 \<and> echo_request f k"
  then have k: "unat (f 14) mod 16 * 4 = k" and q: "ip_frame s f len" "f 23 = 1" "echo_request f k" by auto
  define m where "m = BE16 (rd16 f 16) - k"
  have e: "14 + BE16 (rd16 f 16) \<le> len" "BE16 (rd16 f 12) = 2048" using a by (simp_all add: ip_frame_def)
  have m: "4 \<le> m" "m \<le> 1400" using a by (auto simp: echo_request_def m_def)
  have src: "length (local_ip s) = 4" using assms by (simp add: raw_ok_def)
  define I M where "I = ip_header (20 + m) (ip_ident s) 1 (local_ip s) (mem_get 26 4 f)" and "M = echo_message f (14 + k) m"
  show "\<exists>I M. handleFrame h f len n s w = (case raw_sendFrame h (eth_header (mem_get 6 6 f) (local_mac s) ETHERTYPE_IPV4 @ I @ M)
        (s\<lparr>ip_ident := (ip_ident s + 1) mod 65536\<rparr>) w of (s1, w1) \<Rightarrow> (None, s1, w1))
      \<and> length I = 20 \<and> checksum16 I 0 = 0 \<and> drop 12 I = local_ip s @ mem_get 26 4 f
      \<and> length M = BE16 (rd16 f 16) - k \<and> checksum16 M 0 = 0 \<and> take 2 M = [0, 0]
      \<and> drop 4 M = mem_get (14 + k + 4) (length M - 4) f"
  proof (intro exI conjI)
    show "handleFrame h f len n s w = (case raw_sendFrame h (eth_header (mem_get 6 6 f) (local_mac s) ETHERTYPE_IPV4 @ I @ M)
        (s\<lparr>ip_ident := (ip_ident s + 1) mod 65536\<rparr>) w of (s1, w1) \<Rightarrow> (None, s1, w1))"
      using q e by (simp add: handleFrame_eq handleIcmp_eq echo_reply_def I_def M_def m_def Let_def k)
    show "checksum16 I 0 = 0" unfolding I_def by (rule ip_header_verifies) (simp_all add: src)
    show "drop 12 I = local_ip s @ mem_get 26 4 f" using src by (simp add: I_def ip_header_def ip_fields_def)
    show "checksum16 M 0 = 0" unfolding M_def using m by (intro echo_message_verifies) simp
  qed (use m src in \<open>simp_all add: I_def M_def echo_message_def Let_def m_def [symmetric]\<close>)
qed

lemma raw_requests_answered_witness:
  "\<exists>I M. handleFrame wire_hal (frame_buffer ping_frame) 42 248 (station 2 1) (0, [], [])
       = (case raw_sendFrame wire_hal (eth_header [2, 0, 0, 0, 0, 1] [2, 0, 0, 0, 0, 2] ETHERTYPE_IPV4 @ I @ M)
          ((station 2 1)\<lparr>ip_ident := 8\<rparr>) (0, [], []) of (s1, w1) \<Rightarrow> (None, s1, w1))
     \<and> checksum16 I 0 = 0 \<and> checksum16 M 0 = 0 \<and> drop 4 M = [0, 1, 0, 1]"
proof -
  have b: "ip_ident (station 2 1) = 7" "take 6 (drop 6 ping_frame) = [2, 0, 0, 0, 0, 1]" "take 4 (drop 38 ping_frame) = [0, 1, 0, 1]"
    "BE16 (rd16 (frame_buffer ping_frame) 16) = 28"
    by (simp add: station_def) (simp_all add: rd16_def ping_frame_at BE16_def, simp_all add: ping_frame_def)
  have "ip_frame (station 2 1) (frame_buffer ping_frame) 42 \<and> frame_buffer ping_frame 23 = 1
     \<and> 20 = unat (frame_buffer ping_frame 14) mod 16 * 4 \<and> echo_request (frame_buffer ping_frame) 20"
    using ping_frame_request by simp
  note t = raw_requests_answered [OF station_simps(1) [of 2 1], THEN conjunct2, THEN mp, OF this, of wire_hal 248 "(0, [], [])"]
  from t obtain I M where "handleFrame wire_hal (frame_buffer ping_frame) 42 248 (station 2 1) (0, [], [])
       = (case raw_sendFrame wire_hal (eth_header (mem_get 6 6 (frame_buffer ping_frame)) (local_mac (station 2 1)) ETHERTYPE_IPV4 @ I @ M)
          ((station 2 1)\<lparr>ip_ident := (ip_ident (station 2 1) + 1) mod 65536\<rparr>) (0, [], []) of (s1, w1) \<Rightarrow> (None, s1, w1))"
    and "checksum16 I 0 = 0" "checksum16 M 0 = 0" "length M = BE16 (rd16 (frame_buffer ping_frame) 16) - 20"
    "drop 4 M = mem_get (14 + 20 + 4) (length M - 4) (frame_buffer ping_frame)"
    by (elim exE conjE) (rule that)
  then show ?thesis by (intro exI [of _ I] exI [of _ M]) (simp add: ping_frame_get b)
qed

section \<open>Checksum\<close>

text \<open>C34. The checksum, which adds in 32 bits and folds the carries at the end, is the one's complement checksum of RFC
  1071, for every sequence of bytes shorter than 65000, of odd or even length.\<close>

theorem checksum16_is_rfc1071: "length xs < 65000 \<Longrightarrow> checksum16 xs 0 = rfc1071 xs"
  using ones_sum [of "words16 xs"] words16_bound [of _ xs] by (simp add: checksum16_residue rfc1071_def)

lemma checksum16_is_rfc1071_witness:
  "checksum16 [0x45, 0, 0, 28, 0xFF, 0xFF, 7] 0 = rfc1071 [0x45, 0, 0, 28, 0xFF, 0xFF, 7] \<and> rfc1071 [0x45, 0, 0, 28, 0xFF, 0xFF, 7] = 46051"
  using checksum16_is_rfc1071 [of "[0x45, 0, 0, 28, 0xFF, 0xFF, 7]"] by (simp add: rfc1071_def add1c_def)

section \<open>Calls\<close>

text \<open>C16. A receive with a timeout returns, however much foreign traffic the link delivers until the deadline and whatever other threads
  do to the socket: with a datagram that one received frame carried and the filter accepted, with the timeout only when the
  deadline has passed, and with an error only for the driver or a closed socket. It returns one millisecond after the deadline at the latest, as the
  last wait is never shorter than that - a datagram always; otherwise the reply to a foreign request that was being sent at that
  moment is still finished, however long the driver takes for it.\<close>

theorem raw_receive_returns:
  assumes "hal_contract h clk arrivals (clk w + recv_timeout_ms s * 1000000)"
    and "recv_timeout_ms s \<noteq> 0" "clk w + recv_timeout_ms s * 1000000 < 2 ^ 64"
  shows "\<exists>r s' w'. raw_socketRecvFrom h others n s w = Some (r, s', w')
     \<and> (clk w' \<le> clk w + recv_timeout_ms s * 1000000 + 1000000
        \<or> (\<exists>F v. clk v \<le> clk w + recv_timeout_ms s * 1000000 + 1000000
              \<and> (w' = snd (h_send h F v) \<or> w' = snd (h_clock h (snd (h_send h F v))))))
     \<and> (case r of
          Received (p, src) \<Rightarrow> p \<noteq> [] \<and> length p \<le> n \<and> (\<exists>s1 len. ip_frame s1 (rx_buf s1) len \<and> udp_frame s1 (rx_buf s1) n
             \<and> datagram (rx_buf s1) = (p, src) \<and> s' = learn_peer (rx_buf s1) s1)
             \<and> clk w' \<le> clk w + recv_timeout_ms s * 1000000 + 1000000
        | NoData \<Rightarrow> clk w + recv_timeout_ms s * 1000000 \<le> clk w' \<and> last_error s' = RAW_ERROR_TIMEDOUT
        | RecvError e \<Rightarrow> last_error s' = e
            \<and> (e = RAW_ERROR_HAL \<or> e = RAW_ERROR_BADF \<and> (shutdown_requested s' \<or> \<not> raw_is_open s')))"
proof -
  obtain now w1 where c: "h_clock h w = (now, w1)" by (rule prod.exhaust)
  have now: "now = clk w" "clk w1 = clk w" using hal_clock [OF assms(1) c] by auto
  define dl where "dl = clk w + recv_timeout_ms s * 1000000"
  have "in_time h clk (dl + 1000000) w1" by (simp add: in_time_def now dl_def)
  from raw_recv_loop_returns [OF assms(1) [folded dl_def] this, of others 0 n s] obtain r s' w' where
    r: "raw_recv_loop h others 0 n (Some dl) s w1 = Some (r, s', w')" "ends_in_time h clk (dl + 1000000) w'"
    "\<forall>p. r = Received p \<longrightarrow> clk w' \<le> dl + 1000000" "raw_outcome n dl r s' (clk w')" by blast
  have "raw_socketRecvFrom h others n s w = Some (r, s', w')"
    using r(1) assms(2,3) by (simp add: raw_socketRecvFrom_def c now dl_def)
  note ret = this
  have len: "length p \<le> n" if "ip_frame u t len" "udp_frame u t n" "datagram t = (p, src)" for u t len p src
  proof -
    have "length (fst (datagram t)) \<le> n" using datagram_slice [OF that(1,2)] by blast
    then show ?thesis using that(3) by simp
  qed
  show ?thesis
  proof (intro exI conjI)
    show "raw_socketRecvFrom h others n s w = Some (r, s', w')" by (rule ret)
    show "clk w' \<le> clk w + recv_timeout_ms s * 1000000 + 1000000
        \<or> (\<exists>F v. clk v \<le> clk w + recv_timeout_ms s * 1000000 + 1000000
              \<and> (w' = snd (h_send h F v) \<or> w' = snd (h_clock h (snd (h_send h F v)))))"
      using r(2) by (simp add: ends_in_time_def dl_def)
  qed (use r(3,4) len in \<open>auto simp: raw_outcome_def dl_def split: received.splits\<close>)
qed

lemma raw_receive_returns_witness:
  "\<exists>r s' w'. raw_socketRecvFrom wire_hal (\<lambda>_ s. s) 248 (station 2 1) (0, [ping_frame], []) = Some (r, s', w')
     \<and> fst w' \<le> 51000000"
proof -
  have t: "recv_timeout_ms (station 2 1) = 50" by (simp add: station_def)
  have quick: "fst (snd (h_send wire_hal F v)) = fst v" "fst (snd (h_clock wire_hal v)) = fst v" for F v
    by (simp_all add: wire_hal_def split: prod.split)
  have e: "fst (0, [ping_frame], [] :: u8 list list) + recv_timeout_ms (station 2 1) * 1000000 + 1000000 = 51000000"
    by (simp add: t)
  have "recv_timeout_ms (station 2 1) \<noteq> 0"
    "fst (0, [ping_frame], [] :: u8 list list) + recv_timeout_ms (station 2 1) * 1000000 < 2 ^ 64" by (simp_all add: t)
  from raw_receive_returns [OF wire_hal_contract this, of "\<lambda>_ s. s" 248, unfolded e]
  obtain r s' w' where r: "raw_socketRecvFrom wire_hal (\<lambda>_ s. s) 248 (station 2 1) (0, [ping_frame], []) = Some (r, s', w')"
    and d: "fst w' \<le> 51000000 \<or> (\<exists>F v. fst v \<le> 51000000 \<and> (w' = snd (h_send wire_hal F v) \<or> w' = snd (h_clock wire_hal (snd (h_send wire_hal F v)))))"
    by blast
  from d have "fst w' \<le> 51000000" by (elim disjE exE conjE) (simp_all only: quick)
  with r show ?thesis by blast
qed

text \<open>C33. A send from a buffer with room in front of the payload does what the copying send does, with the same frame,
  result and state, and touches only the 42 bytes in front of the payload. A socket that is closed or has no peer, an
  empty payload and one that is too long are refused with their error, and then nothing is sent and no byte changes.\<close>

theorem raw_send_contract:
  assumes "raw_ok s" "length addr = 4" "RAW_HDR_LEN \<le> pos"
  shows "\<exists>m'. raw_socketSendToReserved h compute m pos n addr port s w =
       (case raw_socketSendTo h compute (mem_get pos n m) addr port s w of (r, s', w') \<Rightarrow> (r, m', s', w'))
     \<and> (\<forall>b. b < pos - RAW_HDR_LEN \<or> pos \<le> b \<longrightarrow> m' b = m b)
     \<and> (\<not> may_send s n \<longrightarrow> m' = m \<and> raw_socketSendTo h compute (mem_get pos n m) addr port s w =
          (if raw_is_open s then - 1 else 0, s\<lparr>last_error := if \<not> raw_is_open s then RAW_ERROR_BADF
             else if n = 0 \<or> RAW_MAX_SEGMENT_SIZE < n then RAW_ERROR_TOOBIG else RAW_ERROR_NOPEER\<rparr>, w))"
proof (cases "may_send s n")
  case True
  then show ?thesis using raw_socketSendToReserved_eq [OF assms, of h compute m n port w] by simp
next
  case False
  then have "checkSend n s = (Some (if raw_is_open s then - 1 else 0),
      s\<lparr>last_error := if \<not> raw_is_open s then RAW_ERROR_BADF
        else if n = 0 \<or> RAW_MAX_SEGMENT_SIZE < n then RAW_ERROR_TOOBIG else RAW_ERROR_NOPEER\<rparr>)"
    by (auto simp: checkSend_def may_send_def)
  then show ?thesis by (intro exI [of _ m]) (simp add: raw_socketSendToReserved_def raw_socketSendTo_def)
qed

lemma raw_send_contract_witness:
  "\<exists>m'. raw_socketSendToReserved wire_hal False (\<lambda>_. 0) 48 2 [192, 168, 0, 2] 5555 (station 1 2) (0, [], []) =
       (case raw_socketSendTo wire_hal False (mem_get 48 2 (\<lambda>_. 0)) [192, 168, 0, 2] 5555 (station 1 2) (0, [], []) of
          (r, s', w') \<Rightarrow> (r, m', s', w')) \<and> m' 5 = 0 \<and> m' 48 = 0"
  using raw_send_contract [of "station 1 2" "[192, 168, 0, 2]" 48 wire_hal False "\<lambda>_. 0" 2 5555 "(0, [], [])"] by fastforce

end
