(* ===== verification/Spec2Isabelle.thy ===== *)
theory Spec2Isabelle
  imports Props_Core Props_Session Props_Cal Props_Cmd Props_Daq Props_Queue Props_Persist Props_Rcu Props_Eth Props_Raw
begin

text \<open>
  A verification library for XCPlite, the XCP-on-Ethernet server library in \<^verbatim>\<open>src/src\<close> and
  \<^verbatim>\<open>src/inc\<close>. An application links the library, registers measurement events and calibration
  segments, and triggers the events from its threads; a client (a measurement and calibration tool) connects,
  configures DAQ lists, starts the measurement, and reads and writes calibration data.

  \<^bold>\<open>Configuration.\<close> The model is the default build (\<^verbatim>\<open>src/src/xcplib_cfg.h\<close>,
  \<^verbatim>\<open>xcp_cfg.h\<close>): local mode without shared memory, event list, calibration segments with the EPK
  segment and the lock-count RCU, persistence, dynamic addressing, per-entry address extensions, DAQ memory of
  3072 bytes, 16 events, a segment list of 8, a pool of 5120 bytes, commands of at most 248 and DTOs of at most
  1024 bytes, little-endian packets.

  \<^bold>\<open>How C appears here.\<close> Structures are records, bytes are \<^typ>\<open>8 word\<close>, flag bytes and the checksum are
  words with their bit operations; counters and addresses are natural numbers with the wrap-around written out
  (\<open>mod 65536\<close>, \<open>mod 2 ^ 32\<close>) where C truncates, and integers where C's promotion to \<^verbatim>\<open>int\<close> lets a
  difference become negative. The DAQ memory, the queue buffer and the pages of a segment are byte-addressed
  memories with the code's offsets. The state is layered by record extension, in the order of the code's own
  layers: \<open>xcp_events\<close>, \<open>xcp_daq\<close>, \<open>xcp_cal\<close>, \<open>xcp\<close>. A command's result is its return code, an error of a
  helper is \<open>Inl\<close> or \<open>None\<close>, and a \<^verbatim>\<open>None\<close> of a whole command or event stands for the behaviour C leaves
  undefined: a null pointer of an exhausted pool, or a walk over a cyclic list. Code outside the library (the
  application's callbacks, the clock, the delays of readers that run while a publication waits) is the record
  \<open>appl\<close> and the schedules, which are arguments of the definitions.

  \<^bold>\<open>The parts, and the theories that model them.\<close>
  \<^item> \<^verbatim>\<open>Xcp_Base\<close>: bytes, little-endian accesses, C strings, constants, the address coding
    (\<^verbatim>\<open>xcp_cfg.h\<close>, \<^verbatim>\<open>xcplite.h\<close>).
  \<^item> \<^verbatim>\<open>Xcp_Events\<close>: session status word and event list (\<^verbatim>\<open>xcplite.c\<close>, event functions); the invariant
    \<open>events_wf\<close> and its preservation.
  \<^item> \<^verbatim>\<open>Xcp_Daq_Mem\<close>, \<^verbatim>\<open>Xcp_Daq_Alloc\<close>, \<^verbatim>\<open>Xcp_Daq_Cfg\<close>, \<^verbatim>\<open>Xcp_Daq_Inv\<close>: the DAQ
    tables as bytes of one memory, \<^verbatim>\<open>XcpClearDaq\<close>, \<^verbatim>\<open>XcpAllocDaq\<close>, \<^verbatim>\<open>XcpAllocOdt\<close>,
    \<^verbatim>\<open>XcpAllocOdtEntry\<close>, \<^verbatim>\<open>XcpSetDaqPtr\<close>, \<^verbatim>\<open>XcpAddOdtEntry\<close>,
    \<^verbatim>\<open>XcpSetDaqListMode\<close>; the invariant \<open>daq_inv\<close> (tables within the memory, lists disjoint, ODT sizes
    equal to the sum of their entries, event chains acyclic).
  \<^item> \<^verbatim>\<open>Xcp_Daq_Run\<close>, \<^verbatim>\<open>Xcp_Daq_Trigger\<close>, \<^verbatim>\<open>Xcp_Daq_Order\<close>: list states, start and stop, the
    building of a DTO, the loop over the lists of an event. The event processor is stated over any transmit queue;
    the locale \<open>dto_queue\<close> is the contract it needs, and
    \<open>roomy_queue\<close> adds when a packet is accepted and what room is left. \<open>fitting\<close> computes the packets
    of an event from that room alone.
  \<^item> \<^verbatim>\<open>Queue_Order\<close>: what the three transmit queues promise about order: histories of
    reservations and commits, and the locale \<open>fifo_order\<close>, which every queue interprets for its own steps.
  \<^item> \<^verbatim>\<open>Queue64v\<close>, \<^verbatim>\<open>Queue64v_Ring\<close>, \<^verbatim>\<open>Queue64v_Conc\<close>, \<^verbatim>\<open>Queue64v_Fifo\<close>,
    \<^verbatim>\<open>Queue64v_Dto\<close>: the lock-free multi-producer single-consumer queue (\<^verbatim>\<open>queue64v.c\<close>): its
    operations, the shape of the ring, every interleaving of the atomic steps of its threads, the simulation by an
    abstract FIFO, the history of reservations and commits, and the interpretation of \<open>dto_queue\<close>.
  \<^item> \<^verbatim>\<open>Queue32\<close>, \<^verbatim>\<open>Queue32_Dto\<close>: the mutex based queue (\<^verbatim>\<open>queue32.c\<close>) and its
    interpretation of the same contract. \<^verbatim>\<open>Queue32m\<close>: its critical sections and the version for real-time
    operating systems (\<^verbatim>\<open>queue32m.c\<close>). \<^verbatim>\<open>Queue32_Segs\<close>, \<^verbatim>\<open>Queue32_Conc\<close>,
    \<^verbatim>\<open>Queue32_Fifo\<close>: segments with committed and uncommitted messages side by side, every interleaving of the
    critical sections, order and delivery, for both versions.
  \<^item> \<^verbatim>\<open>Queue64f\<close>, \<^verbatim>\<open>Queue64f_Conc\<close>, \<^verbatim>\<open>Queue64f_Fifo\<close>,
    \<^verbatim>\<open>Queue64f_Dto\<close>: the lock-free queue with entries of fixed size (\<^verbatim>\<open>queue64f.c\<close>), its
    interleavings and its interpretations of both contracts.
  \<^item> \<^verbatim>\<open>Xcp_Cal\<close>, \<^verbatim>\<open>Xcp_Cal_Ops\<close>, \<^verbatim>\<open>Xcp_Cal_Inv\<close>, \<^verbatim>\<open>Xcp_Cal_Spec\<close>,
    \<^verbatim>\<open>Xcp_Cal_Visible\<close>, \<^verbatim>\<open>Xcp_Cal_Create\<close>: calibration segments (\<^verbatim>\<open>cal.c\<close>): pool, creation,
    lookup, page swap between client and readers, transactions, page switching and copying. The locale
    \<open>seg_contract\<close> carries a property of one segment over every client operation; the views \<open>client_view\<close> and
    \<open>reader_view\<close> are the specification. \<^verbatim>\<open>Xcp_Transaction\<close>: atomic transactions with
    commands, background tasks, events and readers interleaved, against the same readers alone.
  \<^item> \<^verbatim>\<open>Cal_Rcu_Spec\<close>, \<^verbatim>\<open>Cal_Rcu_Lock\<close>, \<^verbatim>\<open>Cal_Rcu_Refs\<close>: the page exchange under every
    interleaving of its atomic accesses, for the lock count of the default build and for the reference counts of
    \<^verbatim>\<open>OPTION_CAL_RCU_REFCOUNT\<close>. The locale \<open>page_exchange\<close> states what readers rely on (a held page is a
    published version, versions only go forward); both algorithms interpret it.
  \<^item> \<^verbatim>\<open>Xcp_Checksum\<close>, \<^verbatim>\<open>Xcp_Mta\<close>: the CRC of \<^verbatim>\<open>BUILD_CHECKSUM\<close>, the memory transfer
    address and the application callbacks (\<^verbatim>\<open>xcpappl.c\<close>).
  \<^item> \<^verbatim>\<open>Xcp_Persist\<close>, \<^verbatim>\<open>Xcp_Persist_Round\<close>: the binary file (\<^verbatim>\<open>persistence.c\<close>), written, loaded
    and patched by the freeze request.
  \<^item> \<^verbatim>\<open>Xcp_Command\<close>: one definition for each command of \<^verbatim>\<open>XcpAsyncCommand\<close>, the dispatcher, the
    pending command, the event entry points, background tasks, disconnect. \<^verbatim>\<open>Xcp_Init\<close>,
    \<^verbatim>\<open>Xcp_Start\<close>: \<^verbatim>\<open>XcpInit\<close>, \<^verbatim>\<open>XcpStart\<close>, \<^verbatim>\<open>XcpDeinit\<close> and what they establish.
  \<^item> \<^verbatim>\<open>Xcp_Frames\<close>, \<^verbatim>\<open>Xcp_Command_Daq\<close>, \<^verbatim>\<open>Xcp_Command_Cal\<close>, \<^verbatim>\<open>Xcp_Response\<close>,
    \<^verbatim>\<open>Xcp_Pending\<close>: what each command leaves alone, that it keeps the DAQ and segment invariants, what it
    sends, and which commands can be pending.
  \<^item> \<^verbatim>\<open>Xcp_System\<close>, \<^verbatim>\<open>Xcp_Lifetime\<close>: the library as one step relation, its reachable states, its
    invariant, and what segments keep for life.
  \<^item> \<^verbatim>\<open>Xcp_Sockets\<close>: the socket functions (\<^verbatim>\<open>sockets.c\<close>, POSIX) above the calls of the
    operating system, which are the fields of the record \<open>kernel\<close>, over a state of the world that is a parameter; what a
    stream or a datagram socket promises are named predicates (\<open>reads_stream\<close>, \<open>sends_stream\<close>,
    \<open>datagrams\<close>).
  \<^item> \<^verbatim>\<open>Xcp_EthTl\<close>: the transport layer (\<^verbatim>\<open>xcpethtl.c\<close>): its state, opening and closing,
    the message header, responses, the handling of a message, TCP and UDP receive. \<^verbatim>\<open>Xcp_EthTl_Stream\<close>: the
    receive thread's loop over TCP against its specification \<open>serve\<close>, the protocol layer executing a list of packets.
    \<^verbatim>\<open>Xcp_EthTl_Udp\<close>: datagrams, sessions and their owner.
  \<^item> \<^verbatim>\<open>Queue64v_Peek\<close>, \<^verbatim>\<open>Xcp_EthTl_Tx\<close>: the consumer that looks ahead in the lock-free queue while
    producers go on, and the transmit function over it. \<^verbatim>\<open>Xcp_EthServer\<close>: start, status, shutdown and the
    transmit thread (\<^verbatim>\<open>xcpethserver.c\<close>).
  \<^item> \<^verbatim>\<open>Raw_Wire\<close>, \<^verbatim>\<open>Raw_Socket\<close>: the transport for targets without an IP stack
    (\<^verbatim>\<open>socket_raw.c\<close>): the Internet checksum against RFC 1071, the frames, every function of the file over the
    Ethernet driver, which is the record \<open>hal\<close>. \<^verbatim>\<open>Raw_Receive\<close>: the receive filter as predicates on
    a frame, that it stays inside the frame, what a frame changes. \<^verbatim>\<open>Raw_Send\<close>: built frames, replies, the
    round trip, the two ways of sending. \<^verbatim>\<open>Raw_Loop\<close>: the receive loop and its deadline, over
    a driver that keeps to \<^verbatim>\<open>socket_raw_hal.h\<close> (\<open>hal_contract\<close>: the clock does not go back, a wait ends
    after its timeout at the latest, finitely many frames arrive in finite time; a send may take any time).
  \<^item> \<^verbatim>\<open>Xcp_Examples\<close>, \<^verbatim>\<open>Xcp_Daq_Examples\<close>: concrete states that the witnesses run on.

  \<^bold>\<open>The properties\<close> are in the theories \<^verbatim>\<open>Props_*\<close>, each after a text that states it:
  \<^verbatim>\<open>Props_Session\<close> (initialisation, reachable states, that commands and events return, responses, connect and
  disconnect), \<^verbatim>\<open>Props_Daq\<close> (configuration, what an event sends), \<^verbatim>\<open>Props_Queue\<close> (order, progress,
  refinement), \<^verbatim>\<open>Props_Cal\<close> and \<^verbatim>\<open>Props_Cmd\<close> (client and reader views, transactions, creation, the
  memory commands), \<^verbatim>\<open>Props_Persist\<close> (the file), \<^verbatim>\<open>Props_Core\<close> (event list, checksum), \<^verbatim>\<open>Props_Rcu\<close>
  (torn reads, order of versions, publication), \<^verbatim>\<open>Props_Eth\<close> (commands over TCP and UDP, transmission),
  \<^verbatim>\<open>Props_Raw\<close> (the raw Ethernet transport).

  \<^bold>\<open>Bounds and fuel.\<close> The walk over an event's chain takes \<open>daq_count + 1\<close> steps of fuel; with \<open>daq_inv\<close> the
  chain is acyclic and visits a list at most once, so the fuel is never used up (proved: events and
  \<^verbatim>\<open>XcpSetDaqListMode\<close> return). The retry loop of a publication has the code's own bound of attempts. The
  checksum and the copy loops recurse on their length. The concurrent queues have no bound on threads or steps; the
  theorems need a buffer between 2128 bytes (the largest entry twice) and 2 ^ 31 for \<^verbatim>\<open>queue64v.c\<close>, room for
  one entry for \<^verbatim>\<open>queue64f.c\<close>, and for two segments for the segment queue. The loops of the transport layer have the
  code's bounds (100 retries, 256 buffers); the loop that sends a stream ends because every call takes at least a byte
  (proved: \<open>send_loop_all\<close>), and the threads' loops are stated for every number of their cycles.

  \<^bold>\<open>Atomicity.\<close> Operations of the protocol layer are atomic steps of \<^verbatim>\<open>Xcp_System\<close>, with the interleavings
  that matter modelled apart: the atomic accesses of the lock-free queues in \<^verbatim>\<open>Queue64v_Conc\<close> and
  \<^verbatim>\<open>Queue64f_Conc\<close>, the critical sections of the segment queue in \<^verbatim>\<open>Queue32_Conc\<close>, the accesses of the page exchange in
  \<^verbatim>\<open>Cal_Rcu_Lock\<close> and \<^verbatim>\<open>Cal_Rcu_Refs\<close>, sequentially consistent, those of
  the transmit thread with the producers in \<^verbatim>\<open>Xcp_EthTl_Tx\<close>, and the readers that run between two attempts of a publication as schedules.

  \<^bold>\<open>Not modelled.\<close> Threads, mutexes, clocks and the platform layer (\<^verbatim>\<open>platform.c\<close>,
  \<^verbatim>\<open>socket_raw_hal_linux.c\<close>) are operating system calls, and so are the parts of \<^verbatim>\<open>sockets.c\<close> for hardware
  time stamps, multicast, interface addresses, Windows and lwIP; multicast commands and the transmit loop of the 32 bit
  queue in \<^verbatim>\<open>xcpethtl.c\<close> belong to other builds; the A2L writer (\<^verbatim>\<open>a2l.c\<close>,
  \<^verbatim>\<open>a2l_writer.c\<close>) formats text with \<^verbatim>\<open>printf\<close>; the shared memory mode (\<^verbatim>\<open>shm.c\<close>) and the tools and
  examples are separate programs or other builds. Debug output and metrics are left out. Weak memory effects are
  outside the model: the interleavings are of sequentially consistent accesses.
\<close>

end
